(* ===== verification/Prelude.thy ===== *)
theory Prelude
  imports Main "HOL-Library.Word" "HOL-Library.Signed_Division"
begin

text \<open>
  Shared vocabulary of the development: the machine integer types of the C code, the
  \<open>errno\<close> values its functions return, little- and big-endian byte fields, the C division,
  and the generic list, option and word lemmas the component theories use.

  Conventions. An unsigned C integer that can wrap is a word of its width; a signed one that
  the code derives from it by a cast is the \<open>int\<close> that \<open>sint\<close> reads off the word. A function
  that returns a negative \<open>errno\<close> returns \<open>Inl\<close> of an \<open>errno\<close> here, and \<open>Inr\<close> of its
  outputs otherwise.
\<close>

unbundle bit_operations_syntax

type_synonym u8 = "8 word"
type_synonym u16 = "16 word"
type_synonym u32 = "32 word"
type_synonym u64 = "64 word"
type_synonym bytes = "8 word list"

datatype errno =
    EINVAL | ENOENT | EIO | ENODEV | EBUSY | EBADMSG | EAGAIN | EMSGSIZE
  | ENOTCONN | ETIMEDOUT | ENOMEM | ENODATA | ENOMSG | ENOTSUP | EEXIST | ENOSPC
  | EACCES | EPERM | ECANCELED | EPROTO | EALREADY | EOVERFLOW

type_synonym 'a res = "errno + 'a"

named_theorems unat_simps \<open>reading words as natural numbers\<close>
named_theorems frame \<open>components an operation leaves unchanged\<close>

subsection \<open>Words\<close>

lemma unat_of_nat_small [unat_simps]:
  "n < 2 ^ LENGTH('a::len) \<Longrightarrow> unat (of_nat n :: 'a word) = n"
  by (simp add: unat_of_nat take_bit_nat_eq_self_iff [THEN iffD2])

lemma uint_diff_le: "a \<le> b \<Longrightarrow> uint (b - a) = uint b - uint (a :: 'a::len word)"
  by (simp add: uint_sub_lem [THEN iffD1] word_le_def)

lemma unat_diff_le: "a \<le> b \<Longrightarrow> unat (b - a) = unat b - unat (a :: 'a::len word)"
  by (rule unat_sub)

lemma unat_plus_small:
  "unat a + unat b < 2 ^ LENGTH('a) \<Longrightarrow> unat (a + b :: 'a::len word) = unat a + unat b"
  by (simp add: unat_word_ariths)

lemma unat_Suc_small:
  "unat a + 1 < 2 ^ LENGTH('a) \<Longrightarrow> unat (a + 1 :: 'a::len word) = unat a + 1"
  by (simp add: unat_word_ariths)

lemma unat_inj_iff [simp]: "unat a = unat b \<longleftrightarrow> a = (b :: 'a::len word)"
  by (rule word_unat_eq_iff [symmetric])

lemma xor_zero_iff: "(a :: 'a::len word) XOR b = 0 \<longleftrightarrow> a = b"
  by (metis xor.assoc xor.left_neutral xor_self_eq)

lemma or_zero_iff: "(a :: 'a::len word) OR b = 0 \<longleftrightarrow> a = 0 \<and> b = 0"
  by (simp add: or_eq_0_iff)

text \<open>A signed read of a small difference of words.\<close>

lemma sint_of_int_small:
  "- (2 ^ (LENGTH('a) - 1)) \<le> k \<Longrightarrow> k < 2 ^ (LENGTH('a) - 1) \<Longrightarrow>
    sint (word_of_int k :: 'a::len word) = k"
  by (simp add: signed_of_int signed_take_bit_int_eq_self)

lemma sint32_range: "- 2147483648 \<le> sint (w :: u32)" "sint (w :: u32) \<le> 2147483647"
  using sint_ge [of w] sint_lt [of w] by simp_all

lemma word_of_int_sint [simp]: "word_of_int (sint (w :: 'a::len word)) = w"
  by simp

lemma uint_eq_sint_small:
  "uint (w :: u32) < 2147483648 \<Longrightarrow> sint w = uint w"
proof -
  assume a: "uint w < 2147483648"
  have "sint (word_of_int (uint w) :: u32) = uint w"
  proof (rule sint_of_int_small)
    have "0 \<le> uint w" by (rule uint_ge_0)
    then show "- (2 ^ (LENGTH(32) - 1)) \<le> uint w" by (rule order_trans [rotated]) simp
  qed (use a in simp)
  then show ?thesis by simp
qed

lemma uint_of_int_small:
  "0 \<le> k \<Longrightarrow> k < 2 ^ LENGTH('a) \<Longrightarrow> uint (word_of_int k :: 'a::len word) = k"
  by (simp add: uint_word_of_int)

lemma uint_eq_sint_nonneg:
  assumes "0 \<le> sint w"
  shows "uint (w :: 'a::len word) = sint w"
proof -
  have "sint w < 2 ^ LENGTH('a)"
    by (rule less_le_trans [OF sint_lt power_increasing]) simp_all
  with assms have "uint (word_of_int (sint w) :: 'a word) = sint w"
    by (rule uint_of_int_small)
  then show ?thesis by simp
qed

subsection \<open>C division\<close>

text \<open>C's \<open>/\<close> and \<open>%\<close> truncate toward zero: \<open>sdiv\<close> and \<open>smod\<close> of Signed_Division.\<close>

lemma sdiv_pos: "0 < (b::int) \<Longrightarrow> 0 \<le> a \<Longrightarrow> a sdiv b = a div b"
  by (simp add: signed_divide_int_def sgn_if)

lemma sdiv_neg: "0 < (b::int) \<Longrightarrow> a < 0 \<Longrightarrow> a sdiv b = - ((- a) div b)"
  by (simp add: signed_divide_int_def sgn_if)

subsection \<open>Byte fields\<close>

definition put_le16 :: "u16 \<Rightarrow> bytes" where
  "put_le16 w = [ucast w, ucast (drop_bit 8 w)]"

definition put_le32 :: "u32 \<Rightarrow> bytes" where
  "put_le32 w = [ucast w, ucast (drop_bit 8 w), ucast (drop_bit 16 w), ucast (drop_bit 24 w)]"

definition get_le16 :: "bytes \<Rightarrow> u16" where
  "get_le16 bs = ucast (bs ! 0) OR push_bit 8 (ucast (bs ! 1))"

definition get_le32 :: "bytes \<Rightarrow> u32" where
  "get_le32 bs = ucast (bs ! 0) OR push_bit 8 (ucast (bs ! 1))
     OR push_bit 16 (ucast (bs ! 2)) OR push_bit 24 (ucast (bs ! 3))"

definition get_be16 :: "bytes \<Rightarrow> u16" where
  "get_be16 bs = push_bit 8 (ucast (bs ! 0)) OR ucast (bs ! 1)"

definition get_be32 :: "bytes \<Rightarrow> u32" where
  "get_be32 bs = push_bit 24 (ucast (bs ! 0)) OR push_bit 16 (ucast (bs ! 1))
     OR push_bit 8 (ucast (bs ! 2)) OR ucast (bs ! 3)"

lemma length_put_le [simp]: "length (put_le16 w) = 2" "length (put_le32 v) = 4"
  by (simp_all add: put_le16_def put_le32_def)

lemma get_put_le16 [simp]: "get_le16 (put_le16 w @ r) = w"
  by (rule bit_word_eqI)
     (auto simp: get_le16_def put_le16_def bit_simps)

lemma get_put_le32 [simp]: "get_le32 (put_le32 w @ r) = w"
proof (rule bit_word_eqI)
  fix n assume "n < LENGTH(32)"
  then consider "n < 8" | "8 \<le> n" "n < 16" | "16 \<le> n" "n < 24" | "24 \<le> n" "n < 32"
    by (simp, meson linorder_not_less)
  then show "bit (get_le32 (put_le32 w @ r)) n = bit w n"
    by cases (auto simp: get_le32_def put_le32_def bit_simps)
qed

lemma put_le32_nth [simp]: "get_le32 (put_le32 w) = w"
  using get_put_le32 [of w "[]"] by simp

lemma put_le16_nth [simp]: "get_le16 (put_le16 w) = w"
  using get_put_le16 [of w "[]"] by simp

subsection \<open>Lists\<close>

text \<open>\<open>memcpy\<close> of a block into an array: the first \<open>length src\<close> bytes of \<open>dst\<close> from \<open>off\<close>.\<close>

definition blit :: "nat \<Rightarrow> 'a list \<Rightarrow> 'a list \<Rightarrow> 'a list" where
  "blit off src dst = take off dst @ src @ drop (off + length src) dst"

lemma length_blit [simp]:
  "off + length src \<le> length dst \<Longrightarrow> length (blit off src dst) = length dst"
  by (simp add: blit_def)

lemma nth_blit:
  "off + length src \<le> length dst \<Longrightarrow> i < length dst \<Longrightarrow>
   blit off src dst ! i =
     (if off \<le> i \<and> i < off + length src then src ! (i - off) else dst ! i)"
  by (auto simp: blit_def nth_append)

lemma take_drop_blit [simp]:
  "off + length src \<le> length dst \<Longrightarrow> take (length src) (drop off (blit off src dst)) = src"
  by (simp add: blit_def)

lemma take_drop_blit_other:
  assumes "off + length src \<le> length dst" "a + n \<le> off \<or> off + length src \<le> a" "a + n \<le> length dst"
  shows "take n (drop a (blit off src dst)) = take n (drop a dst)"
  by (rule nth_equalityI) (use assms in \<open>auto simp: nth_blit\<close>)

lemma list_all_update: "list_all P xs \<Longrightarrow> P x \<Longrightarrow> list_all P (xs[i := x])"
  by (auto simp: list_all_iff dest!: set_update_subset_insert [THEN subsetD])

text \<open>A sequence of steps, each with an input, that emits a list of outputs per step.\<close>

fun run_steps :: "('i \<Rightarrow> 's \<Rightarrow> 's \<times> 'e list) \<Rightarrow> 'i list \<Rightarrow> 's \<Rightarrow> 's \<times> 'e list" where
  "run_steps f [] s = (s, [])"
| "run_steps f (x # xs) s =
     (case f x s of (s1, e1) \<Rightarrow> case run_steps f xs s1 of (s2, e2) \<Rightarrow> (s2, e1 @ e2))"

lemma run_steps_append:
  "run_steps f (xs @ ys) s =
    (case run_steps f xs s of (s1, e1) \<Rightarrow> case run_steps f ys s1 of (s2, e2) \<Rightarrow> (s2, e1 @ e2))"
  by (induction xs arbitrary: s) (simp_all add: split_def)

lemma run_steps_snoc:
  "run_steps f (xs @ [x]) s =
    (case run_steps f xs s of (s1, e1) \<Rightarrow> case f x s1 of (s2, e2) \<Rightarrow> (s2, e1 @ e2))"
  by (simp add: run_steps_append split_def)

lemma set_take_drop: "set (take n (drop m xs)) \<subseteq> set xs"
  by (meson dual_order.trans set_drop_subset set_take_subset)

end
