(* ===== verification/Config.thy ===== *)
theory Config
  imports Prelude
begin

text \<open>
  The fields of \<open>struct app_config\<close> (\<open>app/src/app_config.h\<close>) that the modelled components
  read or write. Enum fields are the byte the code reads them as, booleans are \<open>bool\<close>, and the
  sixteen \<open>alarm_N\<close> byte arrays are one list of sixteen byte lists. The code keeps two copies:
  the staged one (\<open>app_config()\<close>) that SetParam and the shell write, and the runtime one
  (\<open>g_app_config\<close>); a model that uses both takes both. C \<open>int\<close> fields are \<open>int\<close>.
\<close>

record app_config =
  interval_report :: int
  history_enable :: bool
  history_channels :: "u8 list"
  battery_level :: int
  alarm_limit :: int
  radio_link_check_interval :: int
  radio_link_check_fail_rejoin :: int
  cap_hall_left :: bool
  cap_hall_right :: bool
  cap_light_sensor :: bool
  cap_barometer :: bool
  cap_sht :: bool
  cap_w1_sensors :: bool
  cap_accelerometer :: bool
  cap_gpio_mode :: u8
  cap_gpio_input_a :: u8
  cap_gpio_input_b :: u8
  alarm_fields :: "bytes list"
  alarm_buzzer_mode :: u8
  radio_alarm_ack :: bool
  sensor_types :: "u8 list"
  hall_left_counter :: bool
  hall_right_counter :: bool
  input_a_counter :: bool
  input_b_counter :: bool

definition APP_CONFIG_GPIO_MODE_PIR :: u8 where "APP_CONFIG_GPIO_MODE_PIR = 2"
definition APP_CONFIG_GPIO_MODE_BUZZER :: u8 where "APP_CONFIG_GPIO_MODE_BUZZER = 3"
definition APP_CONFIG_GPIO_INPUT_DIGITAL :: u8 where "APP_CONFIG_GPIO_INPUT_DIGITAL = 1"
definition APP_CONFIG_GPIO_INPUT_ANALOG :: u8 where "APP_CONFIG_GPIO_INPUT_ANALOG = 2"
definition APP_CONFIG_GPIO_INPUT_PULSE :: u8 where "APP_CONFIG_GPIO_INPUT_PULSE = 3"

lemmas gpio_consts = APP_CONFIG_GPIO_MODE_PIR_def APP_CONFIG_GPIO_MODE_BUZZER_def
  APP_CONFIG_GPIO_INPUT_DIGITAL_def APP_CONFIG_GPIO_INPUT_ANALOG_def APP_CONFIG_GPIO_INPUT_PULSE_def

text \<open>Pins read by \<open>app_input\<close>, \<open>app_sensor_gpio_is_input\<close> of \<open>app_sensor.h\<close>.\<close>

definition app_sensor_gpio_is_input :: "u8 \<Rightarrow> bool" where
  "app_sensor_gpio_is_input mode \<longleftrightarrow>
     mode = APP_CONFIG_GPIO_INPUT_DIGITAL \<or> mode = APP_CONFIG_GPIO_INPUT_PULSE"

definition app_sensor_gpio_buzzer :: "app_config \<Rightarrow> bool" where
  "app_sensor_gpio_buzzer c \<longleftrightarrow> cap_gpio_mode c = APP_CONFIG_GPIO_MODE_BUZZER"

text \<open>A closed configuration for the witnesses: nothing enabled, one report every 900 s.\<close>

definition demo_config :: app_config where
  "demo_config = \<lparr>interval_report = 900, history_enable = True,
     history_channels = replicate 24 0xFF, battery_level = 2400, alarm_limit = 0,
     radio_link_check_interval = 24, radio_link_check_fail_rejoin = 5,
     cap_hall_left = False, cap_hall_right = False, cap_light_sensor = False,
     cap_barometer = False, cap_sht = True, cap_w1_sensors = False, cap_accelerometer = False,
     cap_gpio_mode = 0, cap_gpio_input_a = 0, cap_gpio_input_b = 0,
     alarm_fields = replicate 16 (replicate 18 0), alarm_buzzer_mode = 0,
     radio_alarm_ack = False, sensor_types = replicate 4 0,
     hall_left_counter = False, hall_right_counter = False,
     input_a_counter = False, input_b_counter = False\<rparr>"

end
