(* ===== verification/Float32.thy ===== *)
theory Float32
  imports Prelude
begin

text \<open>
  C's \<open>float\<close> (IEEE 754 binary32), as far as the modelled code uses it. A float is its 32-bit
  pattern, so that \<open>memcpy\<close> of a float and the \<open>union app_sensor_value\<close> are the identity. A
  finite float is an integer multiple of \<open>2^-149\<close>; \<open>f32_int\<close> is that integer, so comparisons
  and sums are exact integer arithmetic, and \<open>f32_round\<close> rounds an exact result to nearest,
  ties to even, with gradual underflow and overflow to infinity.
\<close>

type_synonym f32 = u32

definition f32_exp :: "f32 \<Rightarrow> nat" where
  "f32_exp b = unat (drop_bit 23 b AND 0xFF)"

definition f32_man :: "f32 \<Rightarrow> int" where
  "f32_man b = uint (b AND 0x7FFFFF)"

definition f32_neg :: "f32 \<Rightarrow> bool" where
  "f32_neg b = bit b 31"

definition f32_nan :: "f32 \<Rightarrow> bool" where
  "f32_nan b \<longleftrightarrow> f32_exp b = 255 \<and> f32_man b \<noteq> 0"

definition f32_inf :: "f32 \<Rightarrow> bool" where
  "f32_inf b \<longleftrightarrow> f32_exp b = 255 \<and> f32_man b = 0"

definition f32_finite :: "f32 \<Rightarrow> bool" where
  "f32_finite b \<longleftrightarrow> f32_exp b \<noteq> 255"

definition NAN :: f32 where
  "NAN = 0x7FC00000"

text \<open>The value in units of \<open>2^-149\<close>.\<close>

definition f32_int :: "f32 \<Rightarrow> int" where
  "f32_int b = (if f32_neg b then - 1 else 1) *
     (if f32_exp b = 0 then f32_man b
      else (f32_man b + 2 ^ 23) * 2 ^ (f32_exp b - 1))"

text \<open>A key for comparisons: infinities lie beyond every finite value (all below \<open>2^278\<close>).\<close>

definition f32_key :: "f32 \<Rightarrow> int" where
  "f32_key b = (if f32_inf b then (if f32_neg b then - (2 ^ 300) else 2 ^ 300) else f32_int b)"

definition f32_lt :: "f32 \<Rightarrow> f32 \<Rightarrow> bool" where
  "f32_lt a b \<longleftrightarrow> \<not> f32_nan a \<and> \<not> f32_nan b \<and> f32_key a < f32_key b"

definition f32_le :: "f32 \<Rightarrow> f32 \<Rightarrow> bool" where
  "f32_le a b \<longleftrightarrow> \<not> f32_nan a \<and> \<not> f32_nan b \<and> f32_key a \<le> f32_key b"

definition f32_eq :: "f32 \<Rightarrow> f32 \<Rightarrow> bool" where
  "f32_eq a b \<longleftrightarrow> \<not> f32_nan a \<and> \<not> f32_nan b \<and> f32_key a = f32_key b"

subsection \<open>Rounding\<close>

text \<open>Number of binary digits of a positive integer.\<close>

function bitlen :: "int \<Rightarrow> nat" where
  "bitlen n = (if n \<le> 0 then 0 else Suc (bitlen (n div 2)))"
  by pat_completeness auto
termination
  by (relation "measure nat") auto

declare bitlen.simps [simp del]

definition round_half_even :: "int \<Rightarrow> int \<Rightarrow> int" where
  "round_half_even n d =
     (let q = n div d; r = n mod d
      in if 2 * r < d then q else if d < 2 * r then q + 1 else if even q then q else q + 1)"

definition f32_pack :: "bool \<Rightarrow> nat \<Rightarrow> int \<Rightarrow> f32" where
  "f32_pack neg ex man =
     (if neg then 0x80000000 else 0) OR push_bit 23 (word_of_int (int ex)) OR word_of_int man"

text \<open>Sign and magnitude \<open>n / d\<close>, in units of \<open>2^-149\<close>, to the nearest float.\<close>

definition f32_round :: "bool \<Rightarrow> int \<Rightarrow> int \<Rightarrow> f32" where
  "f32_round neg n d =
     (let e = bitlen (n div d) - 24;
          m = round_half_even n (d * 2 ^ e);
          (m', e') = (if m = 2 ^ 24 then (2 ^ 23, e + 1) else (m, e))
      in if m' < 2 ^ 23 then f32_pack neg 0 m'
         else if e' + 1 \<ge> 255 then f32_pack neg 255 0
         else f32_pack neg (e' + 1) (m' - 2 ^ 23))"

definition f32_of_scaled :: "int \<Rightarrow> f32" where
  "f32_of_scaled k = f32_round (k < 0) \<bar>k\<bar> 1"

text \<open>Integer conversions \<open>(float)k\<close>, and the arithmetic operators.\<close>

definition f32_of_int :: "int \<Rightarrow> f32" where
  "f32_of_int k = f32_of_scaled (k * 2 ^ 149)"

definition f32_uminus :: "f32 \<Rightarrow> f32" where
  "f32_uminus a = a XOR 0x80000000"

definition f32_add :: "f32 \<Rightarrow> f32 \<Rightarrow> f32" where
  "f32_add a b =
     (if f32_nan a \<or> f32_nan b then NAN
      else if f32_inf a then (if f32_inf b \<and> f32_neg a \<noteq> f32_neg b then NAN else a)
      else if f32_inf b then b
      else if f32_int a + f32_int b = 0
      then (if f32_neg a \<and> f32_neg b then 0x80000000 else 0)
      else f32_of_scaled (f32_int a + f32_int b))"

definition f32_sub :: "f32 \<Rightarrow> f32 \<Rightarrow> f32" where
  "f32_sub a b = f32_add a (f32_uminus b)"

definition f32_mul :: "f32 \<Rightarrow> f32 \<Rightarrow> f32" where
  "f32_mul a b =
     (let neg = (f32_neg a \<noteq> f32_neg b)
      in if f32_nan a \<or> f32_nan b then NAN
         else if f32_inf a \<or> f32_inf b
         then (if f32_int a = 0 \<and> \<not> f32_inf a \<or> f32_int b = 0 \<and> \<not> f32_inf b then NAN
               else f32_pack neg 255 0)
         else f32_round neg \<bar>f32_int a * f32_int b\<bar> (2 ^ 149))"

definition f32_div :: "f32 \<Rightarrow> f32 \<Rightarrow> f32" where
  "f32_div a b =
     (let neg = (f32_neg a \<noteq> f32_neg b)
      in if f32_nan a \<or> f32_nan b then NAN
         else if f32_inf a then (if f32_inf b then NAN else f32_pack neg 255 0)
         else if f32_inf b then f32_pack neg 0 0
         else if f32_int b = 0
         then (if f32_int a = 0 then NAN else f32_pack neg 255 0)
         else f32_round neg (\<bar>f32_int a\<bar> * 2 ^ 149) \<bar>f32_int b\<bar>)"

text \<open>
  Conversions to integers: \<open>(int64_t)x\<close> truncates toward zero, \<open>lroundf\<close> and \<open>llroundf\<close> round
  half away from zero. C leaves a result that does not fit unspecified; the model clamps it to
  the range \<open>[lo, hi]\<close> (NaN to 0), and no theorem relies on such a value.
\<close>

definition f32_trunc :: "f32 \<Rightarrow> int" where
  "f32_trunc a = (if f32_finite a then sgn (f32_int a) * (\<bar>f32_int a\<bar> div 2 ^ 149) else 0)"

definition f32_lround :: "int \<Rightarrow> int \<Rightarrow> f32 \<Rightarrow> int" where
  "f32_lround lo hi a =
     (if f32_nan a then 0
      else max lo (min hi (sgn (f32_key a) * ((\<bar>f32_key a\<bar> + 2 ^ 148) div 2 ^ 149))))"

definition lroundf :: "f32 \<Rightarrow> int" where
  "lroundf = f32_lround (- 2147483648) 2147483647"

definition llroundf :: "f32 \<Rightarrow> int" where
  "llroundf = f32_lround (- 9223372036854775808) 9223372036854775807"

subsection \<open>Comparison facts\<close>

lemma f32_le_refl: "\<not> f32_nan a \<Longrightarrow> f32_le a a"
  by (simp add: f32_le_def)

lemma f32_le_trans: "f32_le a b \<Longrightarrow> f32_le b c \<Longrightarrow> f32_le a c"
  by (auto simp: f32_le_def)

lemma f32_lt_le_trans: "f32_lt a b \<Longrightarrow> f32_le b c \<Longrightarrow> f32_lt a c"
  by (auto simp: f32_le_def f32_lt_def)

lemma f32_le_lt_trans: "f32_le a b \<Longrightarrow> f32_lt b c \<Longrightarrow> f32_lt a c"
  by (auto simp: f32_le_def f32_lt_def)

lemma f32_lt_asym: "f32_lt a b \<Longrightarrow> \<not> f32_lt b a"
  by (auto simp: f32_lt_def)

lemma f32_not_lt_le: "\<not> f32_nan a \<Longrightarrow> \<not> f32_nan b \<Longrightarrow> (\<not> f32_lt a b) = f32_le b a"
  by (auto simp: f32_le_def f32_lt_def)

lemma f32_lt_imp_le: "f32_lt a b \<Longrightarrow> f32_le a b"
  by (auto simp: f32_le_def f32_lt_def)

lemma f32_nan_NAN [simp]: "f32_nan NAN"
  by (simp add: f32_nan_def NAN_def f32_exp_def f32_man_def)

lemma f32_cmp_nan [simp]:
  "f32_nan a \<Longrightarrow> \<not> f32_lt a b" "f32_nan a \<Longrightarrow> \<not> f32_lt b a"
  "f32_nan a \<Longrightarrow> \<not> f32_le a b" "f32_nan a \<Longrightarrow> \<not> f32_le b a"
  "f32_nan a \<Longrightarrow> \<not> f32_eq a b" "f32_nan a \<Longrightarrow> \<not> f32_eq b a"
  by (simp_all add: f32_lt_def f32_le_def f32_eq_def)

end
