(* ===== verification/SensorTypes.thy ===== *)
theory SensorTypes
  imports Config Float32
begin

text \<open>
  The sensor type registry (\<open>app/src/app_sensor_types.c\<close>, \<open>.h\<close>) and the channel vectors of
  \<open>app_sensor.h\<close>. A type publishes a channel table; a channel is addressed as (type, channel).
  A channel value is the 32-bit \<open>union app_sensor_value\<close>: a raw counter or a binary32
  pattern, so one \<open>u32\<close>. The pointers the C lookups return are options of table entries.
\<close>

unbundle bit_operations_syntax

subsection \<open>Channel descriptors\<close>

datatype app_sensor_kind = KIND_THRESHOLD | KIND_STATE | KIND_RATE | KIND_NONE

datatype app_sensor_wire_type = WIRE_SINT32 | WIRE_UINT32

datatype app_sensor_hist_enc = HIST_NONE | HIST_U8 | HIST_I16 | HIST_U16 | HIST_I32 | HIST_U32

text \<open>
  \<open>cap_off\<close> is an \<open>offsetof\<close> into \<open>struct app_config\<close>; the model names the field instead.
\<close>

datatype cap_ref =
    NO_CAP | CAP_SHT | CAP_BAROMETER | CAP_LIGHT_SENSOR | CAP_HALL_LEFT | CAP_HALL_RIGHT
  | CAP_GPIO_INPUT_A | CAP_GPIO_INPUT_B | CAP_GPIO_MODE | CAP_ACCELEROMETER

definition APP_SENSOR_F_MOMENTARY :: u8 where "APP_SENSOR_F_MOMENTARY = 0x01"
definition APP_SENSOR_F_COUNTER :: u8 where "APP_SENSOR_F_COUNTER = 0x02"
definition APP_SENSOR_F_LIVENESS :: u8 where "APP_SENSOR_F_LIVENESS = 0x04"
definition APP_SENSOR_F_WATCHDOG_ONLY :: u8 where "APP_SENSOR_F_WATCHDOG_ONLY = 0x08"
definition APP_SENSOR_F_RETIRED :: u8 where "APP_SENSOR_F_RETIRED = 0x10"
definition APP_SENSOR_F_RANGE :: u8 where "APP_SENSOR_F_RANGE = 0x20"
definition APP_SENSOR_NO_CH :: u8 where "APP_SENSOR_NO_CH = 0xFF"
definition APP_SENSOR_NO_PART :: u8 where "APP_SENSOR_NO_PART = 0xFF"
definition APP_SENSOR_CH_DEVICE :: u8 where "APP_SENSOR_CH_DEVICE = 0xFF"
definition APP_SENSOR_W1_CH_MAX :: nat where "APP_SENSOR_W1_CH_MAX = 10"
definition APP_SENSOR_W1_PART_MAX :: nat where "APP_SENSOR_W1_PART_MAX = 5"
definition APP_W1_SLOT_COUNT :: nat where "APP_W1_SLOT_COUNT = 4"

definition APP_SENSOR_TYPE_NONE :: u8 where "APP_SENSOR_TYPE_NONE = 0"
definition APP_SENSOR_TYPE_MOTHERBOARD :: u8 where "APP_SENSOR_TYPE_MOTHERBOARD = 1"
definition APP_SENSOR_TYPE_DALLAS :: u8 where "APP_SENSOR_TYPE_DALLAS = 2"
definition APP_SENSOR_TYPE_MACHINE_PROBE :: u8 where "APP_SENSOR_TYPE_MACHINE_PROBE = 3"

lemmas sensor_flags = APP_SENSOR_F_MOMENTARY_def APP_SENSOR_F_COUNTER_def
  APP_SENSOR_F_LIVENESS_def APP_SENSOR_F_WATCHDOG_ONLY_def APP_SENSOR_F_RETIRED_def
  APP_SENSOR_F_RANGE_def

lemmas sensor_ids = APP_SENSOR_NO_CH_def APP_SENSOR_NO_PART_def APP_SENSOR_CH_DEVICE_def
  APP_SENSOR_TYPE_NONE_def APP_SENSOR_TYPE_MOTHERBOARD_def
  APP_SENSOR_TYPE_DALLAS_def APP_SENSOR_TYPE_MACHINE_PROBE_def

text \<open>\<open>BIT(n)\<close> as the 8- and 32-bit masks of the code (undefined in C beyond the width).\<close>

definition BIT8 :: "nat \<Rightarrow> u8" where "BIT8 n = push_bit n 1"
definition BIT32 :: "nat \<Rightarrow> u32" where "BIT32 n = push_bit n 1"

record sensor_channel =
  ch_name :: string
  ch_kind :: app_sensor_kind
  ch_flags :: u8
  ch_wire_type :: app_sensor_wire_type
  ch_hist_enc :: app_sensor_hist_enc
  ch_cap :: cap_ref
  ch_pulses_ch :: u8
  ch_part :: u8
  ch_cap_mask :: u8
  ch_wire_scale :: f32
  ch_hist_scale :: f32
  ch_range_min :: f32
  ch_range_max :: f32

record sensor_type =
  ty_name :: string
  ty_channels :: "sensor_channel list"
  ty_id :: u8
  ty_w1_family :: u8
  ty_channel_count :: u8
  ty_part_count :: u8

definition has_flag :: "sensor_channel \<Rightarrow> u8 \<Rightarrow> bool" where
  "has_flag c f \<longleftrightarrow> ch_flags c AND f \<noteq> 0"

text \<open>\<open>struct app_sensor_hist_enc_info\<close>: size and storable range; \<open>hi + 1\<close> is the absent mark.\<close>

record hist_enc_info =
  he_size :: nat
  he_lo :: int
  he_hi :: int

definition app_sensor_hist_encs :: "app_sensor_hist_enc \<Rightarrow> hist_enc_info" where
  "app_sensor_hist_encs e = (case e of
     HIST_NONE \<Rightarrow> \<lparr>he_size = 0, he_lo = 0, he_hi = 0\<rparr>
   | HIST_U8 \<Rightarrow> \<lparr>he_size = 1, he_lo = 0, he_hi = 254\<rparr>
   | HIST_I16 \<Rightarrow> \<lparr>he_size = 2, he_lo = - 32768, he_hi = 32766\<rparr>
   | HIST_U16 \<Rightarrow> \<lparr>he_size = 2, he_lo = 0, he_hi = 65534\<rparr>
   | HIST_I32 \<Rightarrow> \<lparr>he_size = 4, he_lo = - 2147483648, he_hi = 2147483646\<rparr>
   | HIST_U32 \<Rightarrow> \<lparr>he_size = 4, he_lo = 0, he_hi = 4294967294\<rparr>)"

subsection \<open>Channel tables\<close>

definition m_ch_motherboard_a :: "sensor_channel list" where
  "m_ch_motherboard_a = [
    \<lparr>ch_name = ''temperature'', ch_kind = KIND_THRESHOLD, ch_flags = APP_SENSOR_F_LIVENESS OR APP_SENSOR_F_RANGE,
      ch_wire_type = WIRE_SINT32, ch_hist_enc = HIST_I16, ch_cap = CAP_SHT,
      ch_pulses_ch = APP_SENSOR_NO_CH, ch_part = APP_SENSOR_NO_PART, ch_cap_mask = 0,
      ch_wire_scale = 0x42c80000, ch_hist_scale = 0x42c80000, ch_range_min = 0xc2340000, ch_range_max = 0x43020000\<rparr>,
    \<lparr>ch_name = ''humidity'', ch_kind = KIND_THRESHOLD, ch_flags = APP_SENSOR_F_LIVENESS OR APP_SENSOR_F_RANGE,
      ch_wire_type = WIRE_UINT32, ch_hist_enc = HIST_U8, ch_cap = CAP_SHT,
      ch_pulses_ch = APP_SENSOR_NO_CH, ch_part = APP_SENSOR_NO_PART, ch_cap_mask = 0,
      ch_wire_scale = 0x40000000, ch_hist_scale = 0x40000000, ch_range_min = 0x0, ch_range_max = 0x42c80000\<rparr>,
    \<lparr>ch_name = ''pressure'', ch_kind = KIND_THRESHOLD, ch_flags = APP_SENSOR_F_LIVENESS OR APP_SENSOR_F_RANGE,
      ch_wire_type = WIRE_UINT32, ch_hist_enc = HIST_U16, ch_cap = CAP_BAROMETER,
      ch_pulses_ch = APP_SENSOR_NO_CH, ch_part = APP_SENSOR_NO_PART, ch_cap_mask = 0,
      ch_wire_scale = 0x41200000, ch_hist_scale = 0x41200000, ch_range_min = 0x0, ch_range_max = 0x44fa0000\<rparr>,
    \<lparr>ch_name = ''illuminance'', ch_kind = KIND_THRESHOLD, ch_flags = APP_SENSOR_F_RANGE,
      ch_wire_type = WIRE_UINT32, ch_hist_enc = HIST_U16, ch_cap = CAP_LIGHT_SENSOR,
      ch_pulses_ch = APP_SENSOR_NO_CH, ch_part = APP_SENSOR_NO_PART, ch_cap_mask = 0,
      ch_wire_scale = 0x3f800000, ch_hist_scale = 0x3f000000, ch_range_min = 0x0, ch_range_max = 0x47a3cccd\<rparr>,
    \<lparr>ch_name = ''temperature-baro'', ch_kind = KIND_THRESHOLD, ch_flags = APP_SENSOR_F_RANGE,
      ch_wire_type = WIRE_SINT32, ch_hist_enc = HIST_I16, ch_cap = CAP_BAROMETER,
      ch_pulses_ch = APP_SENSOR_NO_CH, ch_part = APP_SENSOR_NO_PART, ch_cap_mask = 0,
      ch_wire_scale = 0x42c80000, ch_hist_scale = 0x42c80000, ch_range_min = 0xc25c0000, ch_range_max = 0x42fa0000\<rparr>,
    \<lparr>ch_name = ''hall-left-state'', ch_kind = KIND_STATE, ch_flags = 0,
      ch_wire_type = WIRE_UINT32, ch_hist_enc = HIST_U8, ch_cap = CAP_HALL_LEFT,
      ch_pulses_ch = APP_SENSOR_NO_CH, ch_part = APP_SENSOR_NO_PART, ch_cap_mask = 0,
      ch_wire_scale = 0x3f800000, ch_hist_scale = 0x3f800000, ch_range_min = 0x0, ch_range_max = 0x0\<rparr>,
    \<lparr>ch_name = ''hall-left-count'', ch_kind = KIND_RATE, ch_flags = APP_SENSOR_F_COUNTER,
      ch_wire_type = WIRE_UINT32, ch_hist_enc = HIST_U32, ch_cap = CAP_HALL_LEFT,
      ch_pulses_ch = APP_SENSOR_NO_CH, ch_part = APP_SENSOR_NO_PART, ch_cap_mask = 0,
      ch_wire_scale = 0x3f800000, ch_hist_scale = 0x3f800000, ch_range_min = 0x0, ch_range_max = 0x0\<rparr>,
    \<lparr>ch_name = ''hall-right-state'', ch_kind = KIND_STATE, ch_flags = 0,
      ch_wire_type = WIRE_UINT32, ch_hist_enc = HIST_U8, ch_cap = CAP_HALL_RIGHT,
      ch_pulses_ch = APP_SENSOR_NO_CH, ch_part = APP_SENSOR_NO_PART, ch_cap_mask = 0,
      ch_wire_scale = 0x3f800000, ch_hist_scale = 0x3f800000, ch_range_min = 0x0, ch_range_max = 0x0\<rparr>,
    \<lparr>ch_name = ''hall-right-count'', ch_kind = KIND_RATE, ch_flags = APP_SENSOR_F_COUNTER,
      ch_wire_type = WIRE_UINT32, ch_hist_enc = HIST_U32, ch_cap = CAP_HALL_RIGHT,
      ch_pulses_ch = APP_SENSOR_NO_CH, ch_part = APP_SENSOR_NO_PART, ch_cap_mask = 0,
      ch_wire_scale = 0x3f800000, ch_hist_scale = 0x3f800000, ch_range_min = 0x0, ch_range_max = 0x0\<rparr>]"

definition m_ch_motherboard_b :: "sensor_channel list" where
  "m_ch_motherboard_b = [
    \<lparr>ch_name = ''input-a-state'', ch_kind = KIND_STATE, ch_flags = 0,
      ch_wire_type = WIRE_UINT32, ch_hist_enc = HIST_U8, ch_cap = CAP_GPIO_INPUT_A,
      ch_pulses_ch = APP_SENSOR_NO_CH, ch_part = APP_SENSOR_NO_PART, ch_cap_mask = BIT8 (unat APP_CONFIG_GPIO_INPUT_DIGITAL),
      ch_wire_scale = 0x3f800000, ch_hist_scale = 0x3f800000, ch_range_min = 0x0, ch_range_max = 0x0\<rparr>,
    \<lparr>ch_name = ''input-a-count'', ch_kind = KIND_RATE, ch_flags = APP_SENSOR_F_COUNTER,
      ch_wire_type = WIRE_UINT32, ch_hist_enc = HIST_U32, ch_cap = CAP_GPIO_INPUT_A,
      ch_pulses_ch = APP_SENSOR_NO_CH, ch_part = APP_SENSOR_NO_PART, ch_cap_mask = BIT8 (unat APP_CONFIG_GPIO_INPUT_DIGITAL) OR BIT8 (unat APP_CONFIG_GPIO_INPUT_PULSE),
      ch_wire_scale = 0x3f800000, ch_hist_scale = 0x3f800000, ch_range_min = 0x0, ch_range_max = 0x0\<rparr>,
    \<lparr>ch_name = ''input-a-voltage'', ch_kind = KIND_THRESHOLD, ch_flags = APP_SENSOR_F_LIVENESS OR APP_SENSOR_F_RANGE,
      ch_wire_type = WIRE_UINT32, ch_hist_enc = HIST_U16, ch_cap = CAP_GPIO_INPUT_A,
      ch_pulses_ch = APP_SENSOR_NO_CH, ch_part = APP_SENSOR_NO_PART, ch_cap_mask = BIT8 (unat APP_CONFIG_GPIO_INPUT_ANALOG),
      ch_wire_scale = 0x447a0000, ch_hist_scale = 0x447a0000, ch_range_min = 0x0, ch_range_max = 0x41f00000\<rparr>,
    \<lparr>ch_name = ''input-b-state'', ch_kind = KIND_STATE, ch_flags = 0,
      ch_wire_type = WIRE_UINT32, ch_hist_enc = HIST_U8, ch_cap = CAP_GPIO_INPUT_B,
      ch_pulses_ch = APP_SENSOR_NO_CH, ch_part = APP_SENSOR_NO_PART, ch_cap_mask = BIT8 (unat APP_CONFIG_GPIO_INPUT_DIGITAL),
      ch_wire_scale = 0x3f800000, ch_hist_scale = 0x3f800000, ch_range_min = 0x0, ch_range_max = 0x0\<rparr>,
    \<lparr>ch_name = ''input-b-count'', ch_kind = KIND_RATE, ch_flags = APP_SENSOR_F_COUNTER,
      ch_wire_type = WIRE_UINT32, ch_hist_enc = HIST_U32, ch_cap = CAP_GPIO_INPUT_B,
      ch_pulses_ch = APP_SENSOR_NO_CH, ch_part = APP_SENSOR_NO_PART, ch_cap_mask = BIT8 (unat APP_CONFIG_GPIO_INPUT_DIGITAL) OR BIT8 (unat APP_CONFIG_GPIO_INPUT_PULSE),
      ch_wire_scale = 0x3f800000, ch_hist_scale = 0x3f800000, ch_range_min = 0x0, ch_range_max = 0x0\<rparr>,
    \<lparr>ch_name = ''input-b-voltage'', ch_kind = KIND_THRESHOLD, ch_flags = APP_SENSOR_F_LIVENESS OR APP_SENSOR_F_RANGE,
      ch_wire_type = WIRE_UINT32, ch_hist_enc = HIST_U16, ch_cap = CAP_GPIO_INPUT_B,
      ch_pulses_ch = APP_SENSOR_NO_CH, ch_part = APP_SENSOR_NO_PART, ch_cap_mask = BIT8 (unat APP_CONFIG_GPIO_INPUT_ANALOG),
      ch_wire_scale = 0x447a0000, ch_hist_scale = 0x447a0000, ch_range_min = 0x0, ch_range_max = 0x41f00000\<rparr>,
    \<lparr>ch_name = ''pir-motion'', ch_kind = KIND_STATE, ch_flags = APP_SENSOR_F_MOMENTARY,
      ch_wire_type = WIRE_UINT32, ch_hist_enc = HIST_U8, ch_cap = CAP_GPIO_MODE,
      ch_pulses_ch = 16, ch_part = APP_SENSOR_NO_PART, ch_cap_mask = BIT8 (unat APP_CONFIG_GPIO_MODE_PIR),
      ch_wire_scale = 0x3f800000, ch_hist_scale = 0x3f800000, ch_range_min = 0x0, ch_range_max = 0x0\<rparr>,
    \<lparr>ch_name = ''pir-count'', ch_kind = KIND_RATE, ch_flags = APP_SENSOR_F_COUNTER,
      ch_wire_type = WIRE_UINT32, ch_hist_enc = HIST_U32, ch_cap = CAP_GPIO_MODE,
      ch_pulses_ch = APP_SENSOR_NO_CH, ch_part = APP_SENSOR_NO_PART, ch_cap_mask = BIT8 (unat APP_CONFIG_GPIO_MODE_PIR),
      ch_wire_scale = 0x3f800000, ch_hist_scale = 0x3f800000, ch_range_min = 0x0, ch_range_max = 0x0\<rparr>,
    \<lparr>ch_name = ''accel-motion'', ch_kind = KIND_STATE, ch_flags = APP_SENSOR_F_MOMENTARY,
      ch_wire_type = WIRE_UINT32, ch_hist_enc = HIST_U8, ch_cap = CAP_ACCELEROMETER,
      ch_pulses_ch = 18, ch_part = APP_SENSOR_NO_PART, ch_cap_mask = 0,
      ch_wire_scale = 0x3f800000, ch_hist_scale = 0x3f800000, ch_range_min = 0x0, ch_range_max = 0x0\<rparr>]"

definition m_ch_motherboard_c :: "sensor_channel list" where
  "m_ch_motherboard_c = [
    \<lparr>ch_name = ''accel-count'', ch_kind = KIND_RATE, ch_flags = APP_SENSOR_F_COUNTER,
      ch_wire_type = WIRE_UINT32, ch_hist_enc = HIST_U32, ch_cap = CAP_ACCELEROMETER,
      ch_pulses_ch = APP_SENSOR_NO_CH, ch_part = APP_SENSOR_NO_PART, ch_cap_mask = 0,
      ch_wire_scale = 0x3f800000, ch_hist_scale = 0x3f800000, ch_range_min = 0x0, ch_range_max = 0x0\<rparr>,
    \<lparr>ch_name = ''accel-orientation'', ch_kind = KIND_NONE, ch_flags = 0,
      ch_wire_type = WIRE_UINT32, ch_hist_enc = HIST_U8, ch_cap = CAP_ACCELEROMETER,
      ch_pulses_ch = APP_SENSOR_NO_CH, ch_part = APP_SENSOR_NO_PART, ch_cap_mask = 0,
      ch_wire_scale = 0x3f800000, ch_hist_scale = 0x3f800000, ch_range_min = 0x0, ch_range_max = 0x0\<rparr>,
    \<lparr>ch_name = ''battery-voltage'', ch_kind = KIND_THRESHOLD, ch_flags = APP_SENSOR_F_LIVENESS OR APP_SENSOR_F_WATCHDOG_ONLY OR APP_SENSOR_F_RANGE,
      ch_wire_type = WIRE_UINT32, ch_hist_enc = HIST_U16, ch_cap = NO_CAP,
      ch_pulses_ch = APP_SENSOR_NO_CH, ch_part = APP_SENSOR_NO_PART, ch_cap_mask = 0,
      ch_wire_scale = 0x447a0000, ch_hist_scale = 0x447a0000, ch_range_min = 0x0, ch_range_max = 0x40c00000\<rparr>,
    \<lparr>ch_name = ''altitude'', ch_kind = KIND_NONE, ch_flags = APP_SENSOR_F_RANGE,
      ch_wire_type = WIRE_SINT32, ch_hist_enc = HIST_I16, ch_cap = CAP_BAROMETER,
      ch_pulses_ch = APP_SENSOR_NO_CH, ch_part = APP_SENSOR_NO_PART, ch_cap_mask = 0,
      ch_wire_scale = 0x41200000, ch_hist_scale = 0x3f800000, ch_range_min = 0xc42f0000, ch_range_max = 0x462be000\<rparr>]"

definition m_ch_dallas :: "sensor_channel list" where
  "m_ch_dallas = [
    \<lparr>ch_name = ''temperature'', ch_kind = KIND_THRESHOLD, ch_flags = APP_SENSOR_F_RANGE,
      ch_wire_type = WIRE_SINT32, ch_hist_enc = HIST_I16, ch_cap = NO_CAP,
      ch_pulses_ch = APP_SENSOR_NO_CH, ch_part = 0, ch_cap_mask = 0,
      ch_wire_scale = 0x42c80000, ch_hist_scale = 0x42c80000, ch_range_min = 0xc25c0000, ch_range_max = 0x42fa0000\<rparr>]"

definition m_ch_machine_probe :: "sensor_channel list" where
  "m_ch_machine_probe = [
    \<lparr>ch_name = ''temperature'', ch_kind = KIND_THRESHOLD, ch_flags = APP_SENSOR_F_RANGE,
      ch_wire_type = WIRE_SINT32, ch_hist_enc = HIST_I16, ch_cap = NO_CAP,
      ch_pulses_ch = APP_SENSOR_NO_CH, ch_part = 0, ch_cap_mask = 0,
      ch_wire_scale = 0x42c80000, ch_hist_scale = 0x42c80000, ch_range_min = 0xc2340000, ch_range_max = 0x43020000\<rparr>,
    \<lparr>ch_name = ''humidity'', ch_kind = KIND_THRESHOLD, ch_flags = APP_SENSOR_F_RANGE,
      ch_wire_type = WIRE_UINT32, ch_hist_enc = HIST_U8, ch_cap = NO_CAP,
      ch_pulses_ch = APP_SENSOR_NO_CH, ch_part = 0, ch_cap_mask = 0,
      ch_wire_scale = 0x40000000, ch_hist_scale = 0x40000000, ch_range_min = 0x0, ch_range_max = 0x42c80000\<rparr>,
    \<lparr>ch_name = ''temperature-aux'', ch_kind = KIND_THRESHOLD, ch_flags = APP_SENSOR_F_RANGE,
      ch_wire_type = WIRE_SINT32, ch_hist_enc = HIST_I16, ch_cap = NO_CAP,
      ch_pulses_ch = APP_SENSOR_NO_CH, ch_part = 1, ch_cap_mask = 0,
      ch_wire_scale = 0x42c80000, ch_hist_scale = 0x42c80000, ch_range_min = 0xc2340000, ch_range_max = 0x43020000\<rparr>,
    \<lparr>ch_name = ''illuminance'', ch_kind = KIND_THRESHOLD, ch_flags = APP_SENSOR_F_RANGE,
      ch_wire_type = WIRE_UINT32, ch_hist_enc = HIST_U16, ch_cap = NO_CAP,
      ch_pulses_ch = APP_SENSOR_NO_CH, ch_part = 2, ch_cap_mask = 0,
      ch_wire_scale = 0x3f800000, ch_hist_scale = 0x3f000000, ch_range_min = 0x0, ch_range_max = 0x47a3cccd\<rparr>,
    \<lparr>ch_name = ''magnetic-field'', ch_kind = KIND_THRESHOLD, ch_flags = APP_SENSOR_F_RANGE,
      ch_wire_type = WIRE_SINT32, ch_hist_enc = HIST_I16, ch_cap = NO_CAP,
      ch_pulses_ch = APP_SENSOR_NO_CH, ch_part = 3, ch_cap_mask = 0,
      ch_wire_scale = 0x447a0000, ch_hist_scale = 0x42c80000, ch_range_min = 0xc34cb333, ch_range_max = 0x434cb333\<rparr>,
    \<lparr>ch_name = ''tilt'', ch_kind = KIND_STATE, ch_flags = 0,
      ch_wire_type = WIRE_UINT32, ch_hist_enc = HIST_U8, ch_cap = NO_CAP,
      ch_pulses_ch = APP_SENSOR_NO_CH, ch_part = 4, ch_cap_mask = 0,
      ch_wire_scale = 0x3f800000, ch_hist_scale = 0x3f800000, ch_range_min = 0x0, ch_range_max = 0x0\<rparr>,
    \<lparr>ch_name = ''accel-x'', ch_kind = KIND_THRESHOLD, ch_flags = APP_SENSOR_F_RANGE,
      ch_wire_type = WIRE_SINT32, ch_hist_enc = HIST_I16, ch_cap = NO_CAP,
      ch_pulses_ch = APP_SENSOR_NO_CH, ch_part = 4, ch_cap_mask = 0,
      ch_wire_scale = 0x42c80000, ch_hist_scale = 0x42c80000, ch_range_min = 0xc31ce666, ch_range_max = 0x431ce666\<rparr>,
    \<lparr>ch_name = ''accel-y'', ch_kind = KIND_THRESHOLD, ch_flags = APP_SENSOR_F_RANGE,
      ch_wire_type = WIRE_SINT32, ch_hist_enc = HIST_I16, ch_cap = NO_CAP,
      ch_pulses_ch = APP_SENSOR_NO_CH, ch_part = 4, ch_cap_mask = 0,
      ch_wire_scale = 0x42c80000, ch_hist_scale = 0x42c80000, ch_range_min = 0xc31ce666, ch_range_max = 0x431ce666\<rparr>,
    \<lparr>ch_name = ''accel-z'', ch_kind = KIND_THRESHOLD, ch_flags = APP_SENSOR_F_RANGE,
      ch_wire_type = WIRE_SINT32, ch_hist_enc = HIST_I16, ch_cap = NO_CAP,
      ch_pulses_ch = APP_SENSOR_NO_CH, ch_part = 4, ch_cap_mask = 0,
      ch_wire_scale = 0x42c80000, ch_hist_scale = 0x42c80000, ch_range_min = 0xc31ce666, ch_range_max = 0x431ce666\<rparr>]"

definition m_ch_motherboard :: "sensor_channel list" where
  "m_ch_motherboard = m_ch_motherboard_a @ m_ch_motherboard_b @ m_ch_motherboard_c"

definition m_types :: "sensor_type list" where
  "m_types = [
    \<lparr>ty_name = ''motherboard'', ty_channels = m_ch_motherboard, ty_id = APP_SENSOR_TYPE_MOTHERBOARD,
      ty_w1_family = 0, ty_channel_count = of_nat (length m_ch_motherboard), ty_part_count = 0\<rparr>,
    \<lparr>ty_name = ''dallas'', ty_channels = m_ch_dallas, ty_id = APP_SENSOR_TYPE_DALLAS,
      ty_w1_family = 0x28, ty_channel_count = of_nat (length m_ch_dallas), ty_part_count = 1\<rparr>,
    \<lparr>ty_name = ''machine-probe'', ty_channels = m_ch_machine_probe,
      ty_id = APP_SENSOR_TYPE_MACHINE_PROBE,
      ty_w1_family = 0x19, ty_channel_count = of_nat (length m_ch_machine_probe), ty_part_count = 5\<rparr>]"

subsection \<open>Lookups\<close>

definition app_sensor_type_get :: "u8 \<Rightarrow> sensor_type option" where
  "app_sensor_type_get i = find (\<lambda>t. ty_id t = i) m_types"

definition app_sensor_type_by_family :: "u8 \<Rightarrow> sensor_type option" where
  "app_sensor_type_by_family family = find (\<lambda>t. family \<noteq> 0 \<and> ty_w1_family t = family) m_types"

definition app_sensor_type_by_name :: "string \<Rightarrow> sensor_type option" where
  "app_sensor_type_by_name name = find (\<lambda>t. ty_name t = name) m_types"

definition app_sensor_channel_get :: "u8 \<Rightarrow> u8 \<Rightarrow> sensor_channel option" where
  "app_sensor_channel_get i ch = (case app_sensor_type_get i of
     None \<Rightarrow> None
   | Some t \<Rightarrow> if ty_channel_count t \<le> ch then None else Some (ty_channels t ! unat ch))"

fun name_index :: "sensor_channel list \<Rightarrow> string \<Rightarrow> int \<Rightarrow> int" where
  "name_index [] name k = - 1"
| "name_index (c # cs) name k = (if ch_name c = name then k else name_index cs name (k + 1))"

definition app_sensor_channel_by_name :: "u8 \<Rightarrow> string \<Rightarrow> int" where
  "app_sensor_channel_by_name i name = (case app_sensor_type_get i of
     None \<Rightarrow> - 1 | Some t \<Rightarrow> name_index (ty_channels t) name 0)"

text \<open>The first byte of the capability field (a bool, or a little-endian enum below 256).\<close>

definition cap_byte :: "app_config \<Rightarrow> cap_ref \<Rightarrow> u8" where
  "cap_byte cfg r = (case r of
     NO_CAP \<Rightarrow> 0
   | CAP_SHT \<Rightarrow> of_bool (cap_sht cfg)
   | CAP_BAROMETER \<Rightarrow> of_bool (cap_barometer cfg)
   | CAP_LIGHT_SENSOR \<Rightarrow> of_bool (cap_light_sensor cfg)
   | CAP_HALL_LEFT \<Rightarrow> of_bool (cap_hall_left cfg)
   | CAP_HALL_RIGHT \<Rightarrow> of_bool (cap_hall_right cfg)
   | CAP_GPIO_INPUT_A \<Rightarrow> cap_gpio_input_a cfg
   | CAP_GPIO_INPUT_B \<Rightarrow> cap_gpio_input_b cfg
   | CAP_GPIO_MODE \<Rightarrow> cap_gpio_mode cfg
   | CAP_ACCELEROMETER \<Rightarrow> of_bool (cap_accelerometer cfg))"

definition app_sensor_channel_cap_on :: "app_config \<Rightarrow> sensor_channel \<Rightarrow> bool" where
  "app_sensor_channel_cap_on cfg c =
     (if ch_cap c = NO_CAP then True
      else if ch_cap_mask c = 0 then cap_byte cfg (ch_cap c) \<noteq> 0
      else (let v = cap_byte cfg (ch_cap c) in v < 8 \<and> ch_cap_mask c AND BIT8 (unat v) \<noteq> 0))"

subsection \<open>Channel vectors\<close>

type_synonym app_sensor_value = u32

record app_sensor_mb =
  mb_valid :: u32
  mb_v :: "app_sensor_value list"

record app_sensor_w1 =
  w1_type :: u8
  w1_present :: bool
  w1_valid :: u32
  w1_v :: "app_sensor_value list"

record app_sensor_data =
  sd_mb :: app_sensor_mb
  sd_w1 :: "app_sensor_w1 list"

definition app_sensor_w1_clear :: "app_sensor_w1 \<Rightarrow> u8 \<Rightarrow> app_sensor_w1" where
  "app_sensor_w1_clear s ty =
     s\<lparr>w1_type := ty, w1_present := False, w1_valid := 0,
       w1_v := map (\<lambda>_. NAN) (w1_v s)\<rparr>"

text \<open>
  \<open>app_sensor_put_f\<close> writes the value array and the valid mask. The callers pass a channel of
  the array; an index past its end is undefined in C and dropped by \<open>list_update\<close> here.
\<close>

definition put_f_ok :: "sensor_channel \<Rightarrow> f32 \<Rightarrow> bool" where
  "put_f_ok c value \<longleftrightarrow> \<not> (\<not> f32_finite value \<or>
     (has_flag c APP_SENSOR_F_RANGE \<and>
       (f32_lt value (ch_range_min c) \<or> f32_lt (ch_range_max c) value)))"

definition app_sensor_put_f ::
    "u8 \<Rightarrow> app_sensor_value list \<Rightarrow> u32 \<Rightarrow> u8 \<Rightarrow> f32 \<Rightarrow> app_sensor_value list \<times> u32" where
  "app_sensor_put_f ty v valid ch value = (case app_sensor_channel_get ty ch of
     None \<Rightarrow> (v, valid)
   | Some c \<Rightarrow>
       if \<not> put_f_ok c value
       then (v[unat ch := NAN], valid AND NOT (BIT32 (unat ch)))
       else (v[unat ch := value], valid OR BIT32 (unat ch)))"

definition APP_SENSOR_MISS_HOLD :: u8 where "APP_SENSOR_MISS_HOLD = 1"

definition app_sensor_miss_hold :: "u8 \<Rightarrow> bool \<Rightarrow> u32 \<Rightarrow> u8 \<times> u32" where
  "app_sensor_miss_hold miss failed chans =
     (if \<not> failed then (0, 0)
      else let miss' = (if miss < 255 then miss + 1 else miss)
           in (miss', if miss' \<le> APP_SENSOR_MISS_HOLD then chans else 0))"

definition app_sensor_mb_keep :: "app_sensor_mb \<Rightarrow> app_sensor_mb \<Rightarrow> u32 \<Rightarrow> app_sensor_mb" where
  "app_sensor_mb_keep mb prev keep =
     mb\<lparr>mb_v := map (\<lambda>ch. if keep AND BIT32 ch \<noteq> 0 then mb_v prev ! ch else mb_v mb ! ch)
                  [0..<length (mb_v mb)],
        mb_valid := (mb_valid mb AND NOT keep) OR (mb_valid prev AND keep)\<rparr>"

definition app_sensor_wire_value :: "sensor_channel \<Rightarrow> app_sensor_value \<Rightarrow> int" where
  "app_sensor_wire_value c v =
     (if has_flag c APP_SENSOR_F_COUNTER then sint v else lroundf (f32_mul v (ch_wire_scale c)))"

definition app_sensor_w1_f :: "app_sensor_w1 \<Rightarrow> u8 \<Rightarrow> f32" where
  "app_sensor_w1_f s mp_ch =
     (if w1_type s = APP_SENSOR_TYPE_MACHINE_PROBE \<and> mp_ch < of_nat (length m_ch_machine_probe)
      then w1_v s ! unat mp_ch
      else if w1_type s = APP_SENSOR_TYPE_DALLAS \<and> mp_ch = 0 then w1_v s ! 0
      else NAN)"

subsection \<open>Facts about the registry\<close>

lemma BIT32_bit: "bit (BIT32 n) i \<longleftrightarrow> i = n \<and> n < 32"
  by (auto simp: BIT32_def bit_simps)

lemma and_BIT32: "n < 32 \<Longrightarrow> (w AND BIT32 n \<noteq> 0) = bit w n"
proof
  assume n: "n < 32" and "bit w n"
  then have "bit (w AND BIT32 n) n" by (simp add: bit_simps BIT32_bit)
  then show "w AND BIT32 n \<noteq> 0" by auto
next
  assume "n < 32" "w AND BIT32 n \<noteq> 0"
  then obtain i where "bit (w AND BIT32 n) i" using bit_eqI by (metis bit_0_eq bot_apply bot_bool_def)
  then show "bit w n" by (auto simp: bit_simps BIT32_bit)
qed

lemma table_lengths [simp]:
  "length m_ch_motherboard = 22" "length m_ch_dallas = 1" "length m_ch_machine_probe = 9"
  by (simp_all add: m_ch_motherboard_def m_ch_motherboard_a_def m_ch_motherboard_b_def
      m_ch_motherboard_c_def m_ch_dallas_def m_ch_machine_probe_def)

lemma type_get_simps:
  "app_sensor_type_get 1 = Some (m_types ! 0)"
  "app_sensor_type_get 2 = Some (m_types ! 1)"
  "app_sensor_type_get 3 = Some (m_types ! 2)"
  "app_sensor_type_get 0 = None"
  by (simp_all add: app_sensor_type_get_def m_types_def sensor_ids)

lemma type_get_cases:
  assumes "app_sensor_type_get i = Some t"
  shows "i \<in> {1, 2, 3} \<and> t \<in> set m_types \<and> ty_id t = i"
  using assms
  by (auto simp: app_sensor_type_get_def m_types_def sensor_ids split: if_splits)

lemma type_count:
  "app_sensor_type_get i = Some t \<Longrightarrow> unat (ty_channel_count t) = length (ty_channels t)"
  by (drule type_get_cases) (auto simp: m_types_def)

lemma channel_get_bound:
  assumes "app_sensor_channel_get i ch = Some c"
  shows "\<exists>t. app_sensor_type_get i = Some t \<and> unat ch < length (ty_channels t)
           \<and> c = ty_channels t ! unat ch \<and> unat ch < 32"
proof -
  obtain t where t: "app_sensor_type_get i = Some t" "\<not> ty_channel_count t \<le> ch"
      "c = ty_channels t ! unat ch"
    using assms by (auto simp: app_sensor_channel_get_def split: option.splits if_splits)
  from t(2) have "unat ch < unat (ty_channel_count t)"
    by (simp only: not_le word_less_nat_alt)
  moreover have "unat (ty_channel_count t) \<le> 22"
    using type_get_cases [OF t(1)] by (auto simp: m_types_def)
  ultimately show ?thesis using t type_count [OF t(1)] by auto
qed

subsection \<open>The channel vector invariant\<close>

text \<open>
  What the readers of a vector rely on (\<open>app_sensor.h\<close>): a float channel whose valid bit is set
  holds a finite value inside its registry range, one whose bit is clear holds a NaN. Counter
  channels carry integers and are not constrained.
\<close>

definition vector_ok :: "u8 \<Rightarrow> app_sensor_value list \<Rightarrow> u32 \<Rightarrow> bool" where
  "vector_ok ty v valid \<longleftrightarrow> (\<forall>ch < length v. case app_sensor_channel_get ty (of_nat ch) of
     None \<Rightarrow> True
   | Some c \<Rightarrow> has_flag c APP_SENSOR_F_COUNTER \<or>
       (if bit valid ch then put_f_ok c (v ! ch) else f32_nan (v ! ch)))"

lemma vector_okD:
  "vector_ok ty v valid \<Longrightarrow> ch < length v \<Longrightarrow> app_sensor_channel_get ty (of_nat ch) = Some c \<Longrightarrow>
   \<not> has_flag c APP_SENSOR_F_COUNTER \<Longrightarrow>
   (if bit valid ch then put_f_ok c (v ! ch) else f32_nan (v ! ch))"
  by (auto simp: vector_ok_def)

lemma bit_valid_update:
  "n < 32 \<Longrightarrow> bit (valid OR BIT32 n) i = (bit valid i \<or> i = n)"
  "bit (valid AND NOT (BIT32 n)) i = (bit valid i \<and> i \<noteq> n)" if "i < 32"
  using that by (auto simp: bit_simps BIT32_bit)

text \<open>
  Storing a reading keeps the vector invariant whatever the value is: a NaN, an infinity or
  a value out of the registry range ends as an invalid NaN channel, any other as a valid one.
\<close>

theorem put_f_vector_ok:
  assumes ok: "vector_ok ty v valid" and len: "length v \<le> 32"
    and put: "app_sensor_put_f ty v valid ch x = (v', valid')"
  shows "vector_ok ty v' valid'"
proof (cases "app_sensor_channel_get ty ch")
  case None
  with ok put show ?thesis by (simp add: app_sensor_put_f_def)
next
  case (Some c)
  let ?n = "unat ch"
  have n: "?n < 32" using channel_get_bound [OF Some] by blast
  have v': "v' = v[?n := if put_f_ok c x then x else NAN]"
    and bits: "\<And>i. i < 32 \<Longrightarrow>
      bit valid' i = (if i = ?n then put_f_ok c x else bit valid i)"
    using put Some n by (auto simp: app_sensor_put_f_def bit_valid_update split: if_splits)
  show ?thesis
    unfolding vector_ok_def
  proof (intro allI impI)
    fix k assume k: "k < length v'"
    have k': "k < length v" "k < 32" using k len v' by simp_all
    show "case app_sensor_channel_get ty (word_of_nat k) of None \<Rightarrow> True
        | Some c \<Rightarrow> has_flag c APP_SENSOR_F_COUNTER \<or>
            (if bit valid' k then put_f_ok c (v' ! k) else f32_nan (v' ! k))"
      using ok k' Some by (cases "k = ?n") (auto simp: vector_ok_def v' bits split: option.splits)
  qed
qed

lemma put_f_vector_ok_witness:
  "vector_ok 1 ((replicate 22 NAN)[0 := 0x41C80000]) 1"
proof (rule put_f_vector_ok [where v = "replicate 22 NAN" and valid = 0 and ch = 0
        and x = "0x41C80000"])
  show "vector_ok 1 (replicate 22 NAN) 0" by code_simp
  show "app_sensor_put_f 1 (replicate 22 NAN) 0 0 0x41C80000
      = ((replicate 22 NAN)[0 := 0x41C80000], 1)" by code_simp
qed simp

text \<open>
  Keeping the previous sweep's channels after a failed read (\<open>app_sensor_mb_keep\<close>) gives
  again a consistent motherboard vector.
\<close>

theorem mb_keep_vector_ok:
  assumes "vector_ok APP_SENSOR_TYPE_MOTHERBOARD (mb_v mb) (mb_valid mb)"
    and "vector_ok APP_SENSOR_TYPE_MOTHERBOARD (mb_v prev) (mb_valid prev)"
    and "length (mb_v mb) = length (mb_v prev)" and "length (mb_v mb) \<le> 32"
  shows "vector_ok APP_SENSOR_TYPE_MOTHERBOARD
           (mb_v (app_sensor_mb_keep mb prev keep)) (mb_valid (app_sensor_mb_keep mb prev keep))"
  unfolding vector_ok_def
proof (intro allI impI)
  fix k assume "k < length (mb_v (app_sensor_mb_keep mb prev keep))"
  then have k: "k < length (mb_v mb)" "k < 32" "k < length (mb_v prev)"
    using assms by (simp_all add: app_sensor_mb_keep_def)
  show "case app_sensor_channel_get APP_SENSOR_TYPE_MOTHERBOARD (word_of_nat k) of None \<Rightarrow> True
      | Some c \<Rightarrow> has_flag c APP_SENSOR_F_COUNTER \<or>
          (if bit (mb_valid (app_sensor_mb_keep mb prev keep)) k
           then put_f_ok c (mb_v (app_sensor_mb_keep mb prev keep) ! k)
           else f32_nan (mb_v (app_sensor_mb_keep mb prev keep) ! k))"
    using assms(1,2) k
    by (auto simp: app_sensor_mb_keep_def vector_ok_def and_BIT32 bit_simps
        split: option.splits if_splits)
qed

lemma mb_keep_vector_ok_witness:
  "let mb = \<lparr>mb_valid = 0, mb_v = replicate 22 NAN\<rparr>;
       prev = \<lparr>mb_valid = 1, mb_v = (replicate 22 NAN)[0 := 0x41C80000]\<rparr>;
       kept = app_sensor_mb_keep mb prev 3
   in vector_ok APP_SENSOR_TYPE_MOTHERBOARD (mb_v kept) (mb_valid kept)"
  unfolding Let_def
proof (rule mb_keep_vector_ok)
  show "vector_ok APP_SENSOR_TYPE_MOTHERBOARD (mb_v \<lparr>mb_valid = 0, mb_v = replicate 22 NAN\<rparr>)
      (mb_valid \<lparr>mb_valid = 0, mb_v = replicate 22 NAN\<rparr>)" by code_simp
  show "vector_ok APP_SENSOR_TYPE_MOTHERBOARD
      (mb_v \<lparr>mb_valid = 1, mb_v = (replicate 22 NAN)[0 := 0x41C80000]\<rparr>)
      (mb_valid \<lparr>mb_valid = 1, mb_v = (replicate 22 NAN)[0 := 0x41C80000]\<rparr>)" by code_simp
qed simp_all

subsection \<open>Well-formedness of the tables\<close>

text \<open>
  What the users of a descriptor assume: a momentary channel names a counter channel of its own
  type for its pulses, a range is a pair of finite ordered bounds, the scales are finite and
  positive, a 1-Wire channel belongs to a part of its type, a counter is recorded as 32 bits.
\<close>

definition channel_ok :: "sensor_type \<Rightarrow> sensor_channel \<Rightarrow> bool" where
  "channel_ok t c \<longleftrightarrow>
     (has_flag c APP_SENSOR_F_MOMENTARY \<longrightarrow>
       unat (ch_pulses_ch c) < length (ty_channels t) \<and>
       has_flag (ty_channels t ! unat (ch_pulses_ch c)) APP_SENSOR_F_COUNTER) \<and>
     (has_flag c APP_SENSOR_F_RANGE \<longrightarrow>
       f32_finite (ch_range_min c) \<and> f32_finite (ch_range_max c) \<and>
       f32_lt (ch_range_min c) (ch_range_max c)) \<and>
     f32_finite (ch_wire_scale c) \<and> f32_lt 0 (ch_wire_scale c) \<and>
     f32_finite (ch_hist_scale c) \<and> f32_lt 0 (ch_hist_scale c) \<and>
     (has_flag c APP_SENSOR_F_COUNTER \<longrightarrow>
       ch_hist_enc c = HIST_U32 \<and> ch_kind c = KIND_RATE) \<and>
     (ty_w1_family t \<noteq> 0 \<longrightarrow> ch_part c < ty_part_count t) \<and>
     (ty_w1_family t = 0 \<longrightarrow> ch_part c = APP_SENSOR_NO_PART)"

definition type_ok :: "sensor_type \<Rightarrow> bool" where
  "type_ok t \<longleftrightarrow> list_all (channel_ok t) (ty_channels t) \<and> distinct (map ch_name (ty_channels t))
     \<and> unat (ty_channel_count t) = length (ty_channels t)"

lemma m_types_ok: "list_all type_ok m_types"
  by code_simp

lemma type_get_ok: "app_sensor_type_get i = Some t \<Longrightarrow> type_ok t"
  using m_types_ok by (auto simp: list_all_iff dest: type_get_cases)

text \<open>
  C4: every channel the registry returns is well formed for the type it was looked up in.
\<close>

theorem registry_channel_wf:
  assumes "app_sensor_channel_get i ch = Some c"
  shows "\<exists>t. app_sensor_type_get i = Some t \<and> channel_ok t c"
  using channel_get_bound [OF assms] type_get_ok
  by (fastforce simp: type_ok_def list_all_length)

lemma registry_channel_wf_witness:
  "\<exists>t. app_sensor_type_get 1 = Some t \<and> channel_ok t (m_ch_motherboard ! 15)"
  by (rule registry_channel_wf [of 1 15])
     (simp add: app_sensor_channel_get_def type_get_simps m_types_def)

lemma name_index_distinct:
  "distinct (map ch_name cs) \<Longrightarrow> n < length cs \<Longrightarrow> name_index cs (ch_name (cs ! n)) k = k + int n"
proof (induction cs arbitrary: n k)
  case (Cons c cs)
  then show ?case
    by (cases n) (auto dest: nth_mem)
qed simp

text \<open>
  Looking a channel up by the name of channel \<open>ch\<close> gives \<open>ch\<close> back, for every type.
\<close>

theorem channel_name_roundtrip:
  assumes "app_sensor_channel_get i ch = Some c"
  shows "app_sensor_channel_by_name i (ch_name c) = uint ch"
proof -
  obtain t where t: "app_sensor_type_get i = Some t" "unat ch < length (ty_channels t)"
      "c = ty_channels t ! unat ch"
    using channel_get_bound [OF assms] by blast
  then show ?thesis
    using type_get_ok [OF t(1)]
    by (simp add: app_sensor_channel_by_name_def name_index_distinct type_ok_def)
qed

lemma channel_name_roundtrip_witness:
  "app_sensor_channel_by_name 3 (ch_name (m_ch_machine_probe ! 5)) = uint (5 :: u8)"
  by (rule channel_name_roundtrip)
     (simp add: app_sensor_channel_get_def type_get_simps m_types_def)

end
