(* ===== verification/HistCodec.thy ===== *)
theory HistCodec
  imports SensorTypes
begin

text \<open>
  History records (\<open>app/src/app_history.c\<close>): the column layout built from the channel selection
  and the live slot types, and the fixed-width encoding of one value. CRC-32 is the C library's
  (\<open>crc32_ieee_update\<close>), here a parameter. The decoded value of a non-counter channel is the
  stored integer divided by the channel's scale in \<open>double\<close>; the model keeps the integer.
\<close>

unbundle bit_operations_syntax

subsection \<open>Layout\<close>

definition APP_HISTORY_MAX_CH :: nat where "APP_HISTORY_MAX_CH = 24"
definition APP_HISTORY_ENTRY_UNUSED :: u8 where "APP_HISTORY_ENTRY_UNUSED = 0xFF"

definition HIST_SLOT :: "u8 \<Rightarrow> u8" where "HIST_SLOT e = drop_bit 5 e"
definition HIST_CH :: "u8 \<Rightarrow> u8" where "HIST_CH e = e AND 0x1F"

record hist_col =
  hc_desc :: sensor_channel
  hc_entry :: u8
  hc_type :: u8
  hc_size :: nat

definition hist_slot_type :: "app_config \<Rightarrow> u8 \<Rightarrow> u8" where
  "hist_slot_type g slot =
     (if slot = 0 then APP_SENSOR_TYPE_MOTHERBOARD
      else if slot = 1 then sensor_types g ! 0
      else if slot = 2 then sensor_types g ! 1
      else if slot = 3 then sensor_types g ! 2
      else if slot = 4 then sensor_types g ! 3
      else APP_SENSOR_TYPE_NONE)"

text \<open>\<open>entry_channel\<close>: the channel an entry names when it can be recorded now, and its type.\<close>

definition entry_channel :: "app_config \<Rightarrow> u8 \<Rightarrow> (sensor_channel \<times> u8) option" where
  "entry_channel g entry =
     (let slot = HIST_SLOT entry
      in if APP_W1_SLOT_COUNT < unat slot \<or> (0 < slot \<and> \<not> cap_w1_sensors g) then None
         else let ty = hist_slot_type g slot
              in case app_sensor_channel_get ty (HIST_CH entry) of
                   None \<Rightarrow> None
                 | Some c \<Rightarrow>
                     if has_flag c APP_SENSOR_F_RETIRED \<or> ch_hist_enc c = HIST_NONE then None
                     else if \<not> app_sensor_channel_cap_on g c then None
                     else Some (c, ty))"

definition enc_code :: "app_sensor_hist_enc \<Rightarrow> u8" where
  "enc_code e = (case e of HIST_NONE \<Rightarrow> 0 | HIST_U8 \<Rightarrow> 1 | HIST_I16 \<Rightarrow> 2 | HIST_U16 \<Rightarrow> 3
     | HIST_I32 \<Rightarrow> 4 | HIST_U32 \<Rightarrow> 5)"

text \<open>One turn of the loop of \<open>layout_build\<close> over the selection list.\<close>

definition layout_step ::
    "(u32 \<Rightarrow> bytes \<Rightarrow> u32) \<Rightarrow> app_config \<Rightarrow> u8 \<Rightarrow> hist_col list \<times> u32 \<Rightarrow> hist_col list \<times> u32" where
  "layout_step crc32 g e acc = (case acc of (cols, crc) \<Rightarrow>
     if e = APP_HISTORY_ENTRY_UNUSED then (cols, crc)
     else if list_ex (\<lambda>c. hc_entry c = e) cols then (cols, crc)
     else case entry_channel g e of
       None \<Rightarrow> (cols, crc)
     | Some (c, ty) \<Rightarrow>
         (cols @ [\<lparr>hc_desc = c, hc_entry = e, hc_type = ty,
                   hc_size = he_size (app_sensor_hist_encs (ch_hist_enc c))\<rparr>],
          crc32 (crc32 crc [e, ty, enc_code (ch_hist_enc c)]) (put_le32 (ch_hist_scale c))))"

definition layout_cols :: "(u32 \<Rightarrow> bytes \<Rightarrow> u32) \<Rightarrow> app_config \<Rightarrow> u8 list \<Rightarrow> hist_col list \<times> u32" where
  "layout_cols crc32 g sel = fold (layout_step crc32 g) sel ([], 0)"

definition cols_size :: "hist_col list \<Rightarrow> nat" where
  "cols_size cols = sum_list (map hc_size cols)"

subsection \<open>Values\<close>

definition enc_limits :: "app_sensor_hist_enc \<Rightarrow> int \<times> int" where
  "enc_limits e = (he_lo (app_sensor_hist_encs e), he_hi (app_sensor_hist_encs e))"

definition enc_sentinel :: "app_sensor_hist_enc \<Rightarrow> u32" where
  "enc_sentinel e = word_of_int (snd (enc_limits e) + 1)"

definition put_raw :: "nat \<Rightarrow> u32 \<Rightarrow> bytes" where
  "put_raw sz v = (if sz = 1 then [ucast v] else if sz = 2 then put_le16 (ucast v) else put_le32 v)"

text \<open>\<open>m_pulses_prev\<close> and \<open>m_pulses_known\<close>: the pulse counters at the previous capture.\<close>

record pulse_memo =
  pulses_prev :: "u32 list"
  pulses_known :: u32

definition clamp :: "int \<Rightarrow> int \<Rightarrow> int \<Rightarrow> int" where
  "clamp lo hi x = (if x < lo then lo else if hi < x then hi else x)"

definition col_vector :: "app_sensor_data \<Rightarrow> hist_col \<Rightarrow> u32 list \<times> u32" where
  "col_vector d col =
     (let slot = HIST_SLOT (hc_entry col)
      in if slot = 0 then (mb_v (sd_mb d), mb_valid (sd_mb d))
         else let w = sd_w1 d ! (unat slot - 1)
              in (w1_v w, if w1_present w \<and> w1_type w = hc_type col then w1_valid w else 0))"

text \<open>The integer recorded for column \<open>i\<close>, if the channel has a value now, and the memo after.\<close>

definition column_value ::
    "app_sensor_data \<Rightarrow> hist_col \<Rightarrow> nat \<Rightarrow> pulse_memo \<Rightarrow> int option \<times> pulse_memo" where
  "column_value d col i memo =
     (let c = hc_desc col;
          (v, valid) = col_vector d col;
          ch = unat (HIST_CH (hc_entry col));
          pc = unat (ch_pulses_ch c)
      in if has_flag c APP_SENSOR_F_MOMENTARY
         then (if ch_pulses_ch c \<noteq> APP_SENSOR_NO_CH \<and> valid AND BIT32 pc \<noteq> 0
               then (let cnt = v ! pc;
                         prev = pulses_prev memo ! i;
                         base = (if cnt < prev then 0 else prev);
                         x = (if pulses_known memo AND BIT32 i \<noteq> 0
                              then Some (if base < cnt then 1 else 0) else None)
                     in (x, memo\<lparr>pulses_prev := (pulses_prev memo)[i := cnt],
                                 pulses_known := pulses_known memo OR BIT32 i\<rparr>))
               else (None, memo))
         else if valid AND BIT32 ch \<noteq> 0
         then (if has_flag c APP_SENSOR_F_COUNTER then (Some (uint (v ! ch)), memo)
               else if \<not> f32_nan (v ! ch)
               then (Some (llroundf (f32_mul (v ! ch) (ch_hist_scale c))), memo)
               else (None, memo))
         else (None, memo))"

definition raw_of :: "app_sensor_hist_enc \<Rightarrow> int option \<Rightarrow> u32" where
  "raw_of e x = (case x of
     None \<Rightarrow> enc_sentinel e
   | Some k \<Rightarrow> word_of_int (clamp (fst (enc_limits e)) (snd (enc_limits e)) k))"

definition encode_value :: "app_sensor_data \<Rightarrow> hist_col \<Rightarrow> nat \<Rightarrow> pulse_memo \<Rightarrow> bytes \<times> pulse_memo" where
  "encode_value d col i memo =
     (let (x, memo') = column_value d col i memo
      in (put_raw (hc_size col) (raw_of (ch_hist_enc (hc_desc col)) x), memo'))"

text \<open>The record of a capture: every column in order.\<close>

fun encode_record ::
    "app_sensor_data \<Rightarrow> hist_col list \<Rightarrow> nat \<Rightarrow> pulse_memo \<Rightarrow> bytes \<times> pulse_memo" where
  "encode_record d [] i memo = ([], memo)"
| "encode_record d (col # cols) i memo =
     (case encode_value d col i memo of (b, memo1) \<Rightarrow>
        case encode_record d cols (Suc i) memo1 of (bs, memo2) \<Rightarrow> (b @ bs, memo2))"

definition get_raw :: "nat \<Rightarrow> bytes \<Rightarrow> u32" where
  "get_raw sz p = (if sz = 1 then ucast (p ! 0) else if sz = 2 then ucast (get_le16 p) else get_le32 p)"

text \<open>The signed or unsigned integer a raw field stands for, \<open>None\<close> for the absent mark.\<close>

definition decode_raw :: "app_sensor_hist_enc \<Rightarrow> u32 \<Rightarrow> int option" where
  "decode_raw e raw =
     (if raw = enc_sentinel e then None
      else Some (case e of
          HIST_I16 \<Rightarrow> sint (ucast raw :: u16)
        | HIST_I32 \<Rightarrow> sint raw
        | _ \<Rightarrow> uint raw))"

fun decode_record :: "hist_col list \<Rightarrow> bytes \<Rightarrow> int option list" where
  "decode_record [] p = []"
| "decode_record (col # cols) p =
     decode_raw (ch_hist_enc (hc_desc col)) (get_raw (hc_size col) p)
       # decode_record cols (drop (hc_size col) p)"

subsection \<open>The layout is well formed\<close>

definition col_ok :: "hist_col \<Rightarrow> bool" where
  "col_ok col \<longleftrightarrow> ch_hist_enc (hc_desc col) \<noteq> HIST_NONE \<and>
     hc_size col = he_size (app_sensor_hist_encs (ch_hist_enc (hc_desc col)))"

lemma he_size_cases: "e \<noteq> HIST_NONE \<Longrightarrow> he_size (app_sensor_hist_encs e) \<in> {1, 2, 4}"
  by (cases e) (simp_all add: app_sensor_hist_encs_def)

lemma layout_step_ok:
  assumes "list_all col_ok (fst acc)" "distinct (map hc_entry (fst acc))"
  shows "list_all col_ok (fst (layout_step crc32 g e acc))"
    "distinct (map hc_entry (fst (layout_step crc32 g e acc)))"
    "length (fst (layout_step crc32 g e acc)) \<le> length (fst acc) + 1"
  using assms
  by (auto simp: layout_step_def entry_channel_def col_ok_def Let_def list_ex_iff
      split: prod.splits option.splits if_splits)

lemma layout_facts:
  "list_all col_ok (fst (layout_cols crc32 g sel)) \<and>
   distinct (map hc_entry (fst (layout_cols crc32 g sel))) \<and>
   length (fst (layout_cols crc32 g sel)) \<le> length sel \<and>
   cols_size (fst (layout_cols crc32 g sel)) \<le> 4 * length sel \<and>
   length (fst (layout_cols crc32 g sel)) \<le> cols_size (fst (layout_cols crc32 g sel))"
proof -
  have "list_all col_ok (fst (fold (layout_step crc32 g) sel acc)) \<and>
      distinct (map hc_entry (fst (fold (layout_step crc32 g) sel acc))) \<and>
      length (fst (fold (layout_step crc32 g) sel acc)) \<le> length (fst acc) + length sel"
    if "list_all col_ok (fst acc)" "distinct (map hc_entry (fst acc))" for acc
    using that
  proof (induction sel arbitrary: acc)
    case (Cons e sel)
    note st = layout_step_ok [OF Cons.prems, of crc32 g e]
    show ?case using Cons.IH [OF st(1,2)] st(3) by auto
  qed simp
  from this [of "([], 0)"] have ok: "list_all col_ok (fst (layout_cols crc32 g sel))"
      "distinct (map hc_entry (fst (layout_cols crc32 g sel)))"
      "length (fst (layout_cols crc32 g sel)) \<le> length sel"
    by (simp_all add: layout_cols_def)
  have "length cols \<le> cols_size cols \<and> cols_size cols \<le> 4 * length cols" if "list_all col_ok cols" for cols
    using that
  proof (induction cols)
    case (Cons c cols)
    then have "col_ok c" by simp
    then have "hc_size c \<in> {1, 2, 4}"
      using he_size_cases [of "ch_hist_enc (hc_desc c)"] unfolding col_ok_def by metis
    with Cons show ?case by (auto simp: cols_size_def)
  qed (simp add: cols_size_def)
  from this [OF ok(1)] ok show ?thesis by linarith
qed

text \<open>
  whatever the selection and configuration, the layout holds at most one column per listed
  entry, no entry twice, every column recordable and of the size its encoding has, so a record
  is between 1 and \<open>4 * 24\<close> bytes when any channel is selected.
\<close>

theorem layout_well_formed:
  "list_all col_ok (fst (layout_cols crc32 g sel)) \<and>
   distinct (map hc_entry (fst (layout_cols crc32 g sel))) \<and>
   length (fst (layout_cols crc32 g sel)) \<le> length sel \<and>
   cols_size (fst (layout_cols crc32 g sel)) \<le> 4 * length sel \<and>
   length (fst (layout_cols crc32 g sel)) \<le> cols_size (fst (layout_cols crc32 g sel))"
  by (rule layout_facts)

subsection \<open>The codec round-trips\<close>

lemma length_put_raw: "sz \<in> {1, 2, 4} \<Longrightarrow> length (put_raw sz v) = sz"
  by (auto simp: put_raw_def)

lemma clamp_range: "lo \<le> hi \<Longrightarrow> lo \<le> clamp lo hi k \<and> clamp lo hi k \<le> hi"
  by (simp add: clamp_def)

lemma ucast_take:
  "(ucast (ucast (word_of_int m :: u32) :: u16) :: u32) = word_of_int (take_bit 16 m)"
  "(ucast (ucast (word_of_int m :: u32) :: u8) :: u32) = word_of_int (take_bit 8 m)"
  by (rule bit_word_eqI, simp add: bit_simps conj_commute)+

lemma get_put_raw1: "get_raw 1 (put_raw 1 (word_of_int m) @ rest) = word_of_int (take_bit 8 m)"
  unfolding get_raw_def put_raw_def by (simp only: if_P refl append_Cons nth_Cons_0 ucast_take)

lemma get_put_raw2: "get_raw 2 (put_raw 2 (word_of_int m) @ rest) = word_of_int (take_bit 16 m)"
proof -
  have "get_raw 2 (put_raw 2 (word_of_int m) @ rest)
      = (ucast (get_le16 (put_le16 (ucast (word_of_int m :: u32)) @ rest)) :: u32)"
    by (simp add: get_raw_def put_raw_def del: get_put_le16)
  then show ?thesis by (simp only: get_put_le16 ucast_take)
qed

lemma get_put_raw4: "get_raw 4 (put_raw 4 (word_of_int m) @ rest) = word_of_int m"
  by (simp add: get_raw_def put_raw_def)

lemma word_of_int_eq32:
  assumes "0 \<le> a" "a < 4294967296" "0 \<le> b" "b < 4294967296"
  shows "(word_of_int a :: u32) = word_of_int b \<longleftrightarrow> a = b"
proof -
  have "uint (word_of_int a :: u32) = a" "uint (word_of_int b :: u32) = b"
    by (rule uint_of_int_small; use assms in simp)+
  then show ?thesis by metis
qed

lemma take_bit_range: "0 \<le> m \<Longrightarrow> m < 2 ^ n \<Longrightarrow> take_bit n m = (m :: int)"
  by (simp add: take_bit_int_eq_self)

lemma take_bit16_small:
  assumes "- 32768 \<le> m" "m \<le> 32766"
  shows "take_bit 16 m \<noteq> (32767 :: int)" "0 \<le> take_bit 16 m" "take_bit 16 m < 4294967296"
proof -
  show "take_bit 16 m \<noteq> (32767 :: int)"
  proof (cases "0 \<le> m")
    case True
    then have "m mod 65536 = m" using assms by (intro mod_pos_pos_trivial) simp_all
    then show ?thesis using assms by (simp add: take_bit_eq_mod)
  next
    case False
    have "(m + 65536) mod 65536 = m + 65536"
      using assms False by (intro mod_pos_pos_trivial) simp_all
    then have "m mod 65536 = m + 65536" by simp
    then show ?thesis using assms by (simp add: take_bit_eq_mod)
  qed
  show "0 \<le> take_bit 16 m" by simp
  have "take_bit 16 m < 2 ^ 16" by (rule take_bit_int_less_exp)
  then show "take_bit 16 m < 4294967296" by simp
qed

lemma sint16_take:
  assumes "- 32768 \<le> m" "m \<le> 32766"
  shows "sint (ucast (word_of_int (take_bit 16 m) :: u32) :: u16) = m"
proof -
  have "ucast (word_of_int (take_bit 16 m) :: u32) = (word_of_int m :: u16)"
    by (rule bit_word_eqI) (simp add: bit_simps)
  then show ?thesis using assms by (simp add: sint_of_int_small)
qed

lemma decode_encode_value:
  assumes "e \<noteq> HIST_NONE"
  shows "decode_raw e (get_raw (he_size (app_sensor_hist_encs e))
      (put_raw (he_size (app_sensor_hist_encs e)) (raw_of e x) @ rest))
    = map_option (clamp (fst (enc_limits e)) (snd (enc_limits e))) x"
proof (cases x)
  case None
  with assms show ?thesis
    by (cases e) (simp_all add: decode_raw_def get_raw_def put_raw_def raw_of_def enc_sentinel_def
        enc_limits_def app_sensor_hist_encs_def)
next
  case (Some k)
  define m where "m = clamp (fst (enc_limits e)) (snd (enc_limits e)) k"
  have m: "fst (enc_limits e) \<le> m" "m \<le> snd (enc_limits e)"
    using clamp_range [of "fst (enc_limits e)" "snd (enc_limits e)" k]
    by (cases e; simp add: m_def enc_limits_def app_sensor_hist_encs_def)+
  have "decode_raw e (get_raw (he_size (app_sensor_hist_encs e))
      (put_raw (he_size (app_sensor_hist_encs e)) (word_of_int m) @ rest)) = Some m"
  proof (cases e)
    case HIST_U8
    with m have "0 \<le> m" "m \<le> 254" by (simp_all add: enc_limits_def app_sensor_hist_encs_def)
    then show ?thesis
      by (simp add: HIST_U8 decode_raw_def enc_sentinel_def enc_limits_def app_sensor_hist_encs_def
          get_put_raw1 [simplified] take_bit_range word_of_int_eq32 [of m 255, simplified]
          uint_of_int_small)
  next
    case HIST_I16
    with m have "- 32768 \<le> m" "m \<le> 32766" by (simp_all add: enc_limits_def app_sensor_hist_encs_def)
    then show ?thesis
      using take_bit16_small [of m]
      by (simp add: HIST_I16 decode_raw_def enc_sentinel_def enc_limits_def app_sensor_hist_encs_def
          get_put_raw2 word_of_int_eq32 [of "take_bit 16 m" 32767, simplified] sint16_take)
  next
    case HIST_U16
    with m have "0 \<le> m" "m \<le> 65534" by (simp_all add: enc_limits_def app_sensor_hist_encs_def)
    then show ?thesis
      by (simp add: HIST_U16 decode_raw_def enc_sentinel_def enc_limits_def app_sensor_hist_encs_def
          get_put_raw2 take_bit_range word_of_int_eq32 [of m 65535, simplified]
          uint_of_int_small)
  next
    case HIST_I32
    with m have r: "- 2147483648 \<le> m" "m \<le> 2147483646"
      by (simp_all add: enc_limits_def app_sensor_hist_encs_def)
    then have s: "sint (word_of_int m :: u32) = m" by (simp add: sint_of_int_small)
    have "sint (2147483647 :: u32) = 2147483647" by simp
    with r s have "(word_of_int m :: u32) \<noteq> 2147483647" by auto
    with s show ?thesis
      by (simp add: HIST_I32 decode_raw_def enc_sentinel_def enc_limits_def app_sensor_hist_encs_def
          get_put_raw4)
  next
    case HIST_U32
    with m have "0 \<le> m" "m \<le> 4294967294" by (simp_all add: enc_limits_def app_sensor_hist_encs_def)
    then show ?thesis
      by (simp add: HIST_U32 decode_raw_def enc_sentinel_def enc_limits_def app_sensor_hist_encs_def
          get_put_raw4 word_of_int_eq32 [of m 4294967295, simplified]
          uint_of_int_small)
  qed (use assms in simp)
  then show ?thesis by (simp add: Some raw_of_def m_def)
qed

text \<open>The integers a capture records, column by column, with the memo threaded through.\<close>

fun record_values ::
    "app_sensor_data \<Rightarrow> hist_col list \<Rightarrow> nat \<Rightarrow> pulse_memo \<Rightarrow> int option list" where
  "record_values d [] i memo = []"
| "record_values d (col # cols) i memo =
     (case column_value d col i memo of (x, memo1) \<Rightarrow>
        map_option (clamp (fst (enc_limits (ch_hist_enc (hc_desc col))))
                          (snd (enc_limits (ch_hist_enc (hc_desc col))))) x
          # record_values d cols (Suc i) memo1)"



end
