(* ===== verification/HistRing.thy ===== *)
theory HistRing
  imports HistCodec
begin

text \<open>
  History storage (\<open>app/src/app_history.c\<close>): segments, the interface the upper layer drives the
  ring through (\<open>hist_backend\<close>, the comment "Storage backend" of the C file), and its RAM
  implementation, which refines a bounded list of timed records. Absolute record ordinals are
  \<open>uint32_t\<close> in C and \<open>nat\<close> here: \<open>2^32\<close> records are never captured. Times are \<open>u32\<close> and wrap.
\<close>

unbundle bit_operations_syntax

subsection \<open>Segments\<close>

record hist_seg =
  sg_origin :: nat
  sg_first :: nat
  sg_end :: nat
  sg_base :: u32
  sg_synced :: bool
  sg_cur_boot :: bool

definition seg_zero :: hist_seg where
  "seg_zero = \<lparr>sg_origin = 0, sg_first = 0, sg_end = 0, sg_base = 0, sg_synced = False,
     sg_cur_boot = False\<rparr>"

definition seg_time :: "u32 \<Rightarrow> hist_seg \<Rightarrow> nat \<Rightarrow> u32" where
  "seg_time interval s a = sg_base s + of_nat (a - sg_origin s) * interval"

text \<open>\<open>seg_of\<close>: from the newest segment down, the first that starts at or before \<open>a\<close>.\<close>

definition seg_of :: "hist_seg list \<Rightarrow> nat \<Rightarrow> hist_seg" where
  "seg_of segs a = (case find (\<lambda>s. sg_first s \<le> a) (rev segs) of
     Some s \<Rightarrow> s | None \<Rightarrow> (case segs of [] \<Rightarrow> seg_zero | s # _ \<Rightarrow> s))"

subsection \<open>The interface\<close>

text \<open>Any sequence of appends (\<open>Some\<close>) and logical resets (\<open>None\<close>).\<close>

fun ring_edits :: "(bytes \<Rightarrow> u32 \<Rightarrow> bool \<Rightarrow> bool \<Rightarrow> 's \<Rightarrow> nat res \<times> 's) \<Rightarrow> ('s \<Rightarrow> 's) \<Rightarrow>
    (bytes \<times> u32 \<times> bool \<times> bool) option list \<Rightarrow> 's \<Rightarrow> 's" where
  "ring_edits app rst [] s = s"
| "ring_edits app rst (None # es) s = ring_edits app rst es (rst s)"
| "ring_edits app rst (Some (rec, base, synced, split) # es) s =
     ring_edits app rst es (snd (app rec base synced split s))"

definition edits_fit :: "nat \<Rightarrow> (bytes \<times> u32 \<times> bool \<times> bool) option list \<Rightarrow> bool" where
  "edits_fit sz es = list_all (\<lambda>e. case e of None \<Rightarrow> True | Some (rec, _) \<Rightarrow> length rec = sz) es"

text \<open>
  What the upper layer relies on of a ring: an absolute ordinal names one record for as long as
  it is stored, whatever is appended, evicted or reset meanwhile; only the oldest records go.
\<close>

locale hist_backend =
  fixes append :: "bytes \<Rightarrow> u32 \<Rightarrow> bool \<Rightarrow> bool \<Rightarrow> 's \<Rightarrow> nat res \<times> 's"
    and read :: "'s \<Rightarrow> nat \<Rightarrow> bytes option"
    and first_abs :: "'s \<Rightarrow> nat"
    and stored :: "'s \<Rightarrow> nat"
    and reset_logical :: "'s \<Rightarrow> 's"
    and ok :: "'s \<Rightarrow> bool"
    and sz :: nat
  assumes append_ok: "ok s \<Longrightarrow> length rec = sz \<Longrightarrow> ok (snd (append rec base synced split s))"
    and append_span: "ok s \<Longrightarrow> length rec = sz \<Longrightarrow> append rec base synced split s = (Inr ev, s') \<Longrightarrow>
      ev \<le> stored s \<and> first_abs s' = first_abs s + ev \<and> stored s' = stored s + 1 - ev"
    and append_new: "ok s \<Longrightarrow> length rec = sz \<Longrightarrow> append rec base synced split s = (Inr ev, s') \<Longrightarrow>
      read s' (first_abs s + stored s) = Some rec"
    and append_old: "ok s \<Longrightarrow> length rec = sz \<Longrightarrow>
      first_abs (snd (append rec base synced split s)) \<le> a \<Longrightarrow> a < first_abs s + stored s \<Longrightarrow>
      read (snd (append rec base synced split s)) a = read s a"
    and append_error: "ok s \<Longrightarrow> length rec = sz \<Longrightarrow> append rec base synced split s = (Inl e, s') \<Longrightarrow>
      first_abs s \<le> first_abs s' \<and> first_abs s' + stored s' = first_abs s + stored s"
    and reset_ok: "ok s \<Longrightarrow> ok (reset_logical s)"
    and reset_span: "ok s \<Longrightarrow> first_abs (reset_logical s) = first_abs s + stored s \<and>
      stored (reset_logical s) = 0"
begin

lemma span_grows:
  assumes "ok s" "length rec = sz"
  shows "first_abs s \<le> first_abs (snd (append rec base synced split s)) \<and>
    first_abs s + stored s \<le> first_abs (snd (append rec base synced split s))
      + stored (snd (append rec base synced split s))"
proof (cases "append rec base synced split s")
  case (Pair r s')
  then show ?thesis
    using append_span [OF assms] append_error [OF assms] by (cases r) fastforce+
qed

abbreviation edits :: "(bytes \<times> u32 \<times> bool \<times> bool) option list \<Rightarrow> 's \<Rightarrow> 's" where
  "edits \<equiv> ring_edits append reset_logical"

lemma edits_span:
  "ok s \<Longrightarrow> edits_fit sz es \<Longrightarrow> ok (edits es s) \<and> first_abs s \<le> first_abs (edits es s) \<and>
   first_abs s + stored s \<le> first_abs (edits es s) + stored (edits es s)"
proof (induction es arbitrary: s)
  case (Cons e es)
  show ?case
  proof (cases e)
    case None
    then show ?thesis
      using Cons.IH [OF reset_ok [OF Cons.prems(1)]] Cons.prems reset_span [OF Cons.prems(1)]
      by (simp add: edits_fit_def)
  next
    case (Some x)
    obtain rec base synced split where x: "x = (rec, base, synced, split)" by (cases x)
    with Some Cons.prems have l: "length rec = sz" "edits_fit sz es" by (simp_all add: edits_fit_def)
    show ?thesis
      using Cons.IH [OF append_ok [OF Cons.prems(1) l(1)] l(2), of base synced split]
        span_grows [OF Cons.prems(1) l(1), of base synced split] by (simp add: Some x)
  qed
qed simp

text \<open>A record that is still stored after any edits reads as it did before.\<close>

lemma ordinal_stable:
  "ok s \<Longrightarrow> edits_fit sz es \<Longrightarrow> first_abs (edits es s) \<le> a \<Longrightarrow> a < first_abs s + stored s \<Longrightarrow>
   read (edits es s) a = read s a"
proof (induction es arbitrary: s)
  case (Cons e es)
  note ok = Cons.prems(1)
  show ?case
  proof (cases e)
    case None
    then have l: "edits_fit sz es" using Cons.prems by (simp add: edits_fit_def)
    have "first_abs s + stored s \<le> first_abs (edits es (reset_logical s))"
      using edits_span [OF reset_ok [OF ok] l] reset_span [OF ok] by simp
    with Cons.prems None show ?thesis by simp
  next
    case (Some x)
    obtain rec base synced split where x: "x = (rec, base, synced, split)" by (cases x)
    with Some Cons.prems have l: "length rec = sz" "edits_fit sz es" by (simp_all add: edits_fit_def)
    let ?s1 = "snd (append rec base synced split s)"
    have ok1: "ok ?s1" by (rule append_ok [OF ok l(1)])
    have st: "edits (e # es) s = edits es ?s1" by (simp add: Some x)
    have f: "first_abs ?s1 \<le> a" using edits_span [OF ok1 l(2)] Cons.prems(3) st by simp
    have "a < first_abs ?s1 + stored ?s1"
      using span_grows [OF ok l(1), of base synced split] Cons.prems(4) by simp
    with Cons.IH [OF ok1 l(2)] Cons.prems(3) st have "read (edits es ?s1) a = read ?s1 a" by simp
    with append_old [OF ok l(1) f Cons.prems(4)] show ?thesis by (simp add: st)
  qed
qed simp

end

subsection \<open>The RAM ring\<close>

definition RAM_NSEG :: nat where "RAM_NSEG = 4"

text \<open>
  \<open>struct ram_seg\<close> with its bit of \<open>m_ram_seg_synced\<close>.
\<close>

record ram_seg =
  rs_origin :: nat
  rs_base :: u32
  rs_synced :: bool

record ram_ring =
  m_ram :: bytes
  m_ram_start :: nat
  m_ram_count :: nat
  m_ram_first_abs :: nat
  m_ram_seg :: "ram_seg list"

definition ram_capacity :: "nat \<Rightarrow> ram_ring \<Rightarrow> nat" where
  "ram_capacity sz r = length (m_ram r) div sz"

definition ram_mount :: "ram_ring \<Rightarrow> bool \<times> ram_ring" where
  "ram_mount r =
     (False, r\<lparr>m_ram_start := 0, m_ram_count := 0, m_ram_first_abs := 0, m_ram_seg := []\<rparr>)"

definition ram_seg_shift :: "ram_seg list \<Rightarrow> ram_seg list" where
  "ram_seg_shift segs = drop 1 segs"

text \<open>Open a segment when there is none or on a split; a full table drops its oldest segment.\<close>

definition ram_open_seg :: "nat \<Rightarrow> u32 \<Rightarrow> bool \<Rightarrow> bool \<Rightarrow> ram_ring \<Rightarrow> ram_ring \<times> nat" where
  "ram_open_seg cap base synced split r0 =
     (let r = (if m_ram_count r0 = 0 then r0\<lparr>m_ram_seg := []\<rparr> else r0)
      in if m_ram_seg r = [] \<or> split
         then
           let (r1, ev) =
             (if length (m_ram_seg r) = RAM_NSEG
              then (let n0 = rs_origin (m_ram_seg r ! 1) - m_ram_first_abs r
                    in (r\<lparr>m_ram_start := (m_ram_start r + n0) mod cap,
                         m_ram_count := m_ram_count r - n0,
                         m_ram_first_abs := m_ram_first_abs r + n0,
                         m_ram_seg := ram_seg_shift (m_ram_seg r)\<rparr>, n0))
              else (r, 0))
           in (r1\<lparr>m_ram_seg := m_ram_seg r1 @
                  [\<lparr>rs_origin = m_ram_first_abs r1 + m_ram_count r1, rs_base = base, rs_synced = synced\<rparr>]\<rparr>, ev)
         else (r, 0))"

text \<open>\<open>while (m_ram_nseg > 1 && m_ram_seg[1].origin <= m_ram_first_abs) ram_seg_shift();\<close>\<close>

fun drop_dead :: "nat \<Rightarrow> ram_seg list \<Rightarrow> ram_seg list" where
  "drop_dead first (s0 # s1 # rest) =
     (if rs_origin s1 \<le> first then drop_dead first (s1 # rest) else s0 # s1 # rest)"
| "drop_dead first segs = segs"

definition ram_append ::
    "nat \<Rightarrow> bytes \<Rightarrow> u32 \<Rightarrow> bool \<Rightarrow> bool \<Rightarrow> ram_ring \<Rightarrow> nat res \<times> ram_ring" where
  "ram_append sz rec base synced split r =
     (let cap = ram_capacity sz r;
          (r1, ev1) = ram_open_seg cap base synced split r;
          (slot, r2, ev2) =
            (if cap \<le> m_ram_count r1
             then (m_ram_start r1,
                   r1\<lparr>m_ram_start := (m_ram_start r1 + 1) mod cap,
                      m_ram_first_abs := m_ram_first_abs r1 + 1,
                      m_ram_seg := drop_dead (m_ram_first_abs r1 + 1) (m_ram_seg r1)\<rparr>, 1)
             else ((m_ram_start r1 + m_ram_count r1) mod cap,
                   r1\<lparr>m_ram_count := m_ram_count r1 + 1\<rparr>, 0))
      in (Inr (ev1 + ev2), r2\<lparr>m_ram := blit (slot * sz) rec (m_ram r2)\<rparr>))"

definition ram_read :: "nat \<Rightarrow> ram_ring \<Rightarrow> nat \<Rightarrow> bytes option" where
  "ram_read sz r a =
     (if a < m_ram_first_abs r \<or> m_ram_count r \<le> a - m_ram_first_abs r then None
      else let slot = (m_ram_start r + (a - m_ram_first_abs r)) mod ram_capacity sz r
           in Some (take sz (drop (slot * sz) (m_ram r))))"

definition ram_stored :: "ram_ring \<Rightarrow> nat" where "ram_stored r = m_ram_count r"
definition ram_first_abs :: "ram_ring \<Rightarrow> nat" where "ram_first_abs r = m_ram_first_abs r"

definition ram_nseg :: "ram_ring \<Rightarrow> nat" where
  "ram_nseg r = (if m_ram_count r \<noteq> 0 then length (m_ram_seg r) else 0)"

definition ram_seg_get :: "ram_ring \<Rightarrow> nat \<Rightarrow> hist_seg" where
  "ram_seg_get r i =
     \<lparr>sg_origin = rs_origin (m_ram_seg r ! i),
      sg_first = (if i = 0 then m_ram_first_abs r else rs_origin (m_ram_seg r ! i)),
      sg_end = (if i + 1 < length (m_ram_seg r) then rs_origin (m_ram_seg r ! (i + 1))
                else m_ram_first_abs r + m_ram_count r),
      sg_base = rs_base (m_ram_seg r ! i), sg_synced = rs_synced (m_ram_seg r ! i),
      sg_cur_boot = True\<rparr>"

definition ram_segs :: "ram_ring \<Rightarrow> hist_seg list" where
  "ram_segs r = map (ram_seg_get r) [0..<ram_nseg r]"

definition ram_seg_sync :: "nat \<Rightarrow> u32 \<Rightarrow> ram_ring \<Rightarrow> bool \<times> ram_ring" where
  "ram_seg_sync i offset r =
     (False, r\<lparr>m_ram_seg := (m_ram_seg r)[i := (m_ram_seg r ! i)
        \<lparr>rs_base := rs_base (m_ram_seg r ! i) + offset, rs_synced := True\<rparr>]\<rparr>)"

definition ram_reset_logical :: "ram_ring \<Rightarrow> ram_ring" where
  "ram_reset_logical r = r\<lparr>m_ram_first_abs := m_ram_first_abs r + m_ram_count r,
     m_ram_start := 0, m_ram_count := 0, m_ram_seg := []\<rparr>"

definition ram_erase :: "ram_ring \<Rightarrow> ram_ring" where
  "ram_erase r = ram_reset_logical r"

subsection \<open>Ring invariant\<close>

definition seg_origins_ok :: "nat \<Rightarrow> nat \<Rightarrow> ram_seg list \<Rightarrow> bool" where
  "seg_origins_ok first end' segs \<longleftrightarrow>
     sorted_wrt (<) (map rs_origin segs) \<and> rs_origin (hd segs) \<le> first \<and>
     (\<forall>s \<in> set (tl segs). first < rs_origin s) \<and> (\<forall>s \<in> set segs. rs_origin s < end')"

definition ram_ok :: "nat \<Rightarrow> ram_ring \<Rightarrow> bool" where
  "ram_ok sz r \<longleftrightarrow> 0 < sz \<and> 0 < ram_capacity sz r \<and> m_ram_count r \<le> ram_capacity sz r \<and>
     m_ram_start r < ram_capacity sz r \<and> length (m_ram_seg r) \<le> RAM_NSEG \<and>
     (0 < m_ram_count r \<longrightarrow> m_ram_seg r \<noteq> [] \<and>
        seg_origins_ok (m_ram_first_abs r) (m_ram_first_abs r + m_ram_count r) (m_ram_seg r))"

subsection \<open>Owner of a record\<close>

text \<open>The segment a stored record belongs to: the last that starts at or before it.\<close>

definition owner :: "nat \<Rightarrow> ram_seg list \<Rightarrow> ram_seg" where
  "owner a segs = last (filter (\<lambda>s. rs_origin s \<le> a) segs)"

lemma find_rev: "find P (rev xs) = (if filter P xs = [] then None else Some (last (filter P xs)))"
  by (induction xs rule: rev_induct) auto

lemma owner_snoc: "owner a (segs @ [s]) = (if rs_origin s \<le> a then s else owner a segs)"
  by (simp add: owner_def)

lemma owner_Cons:
  "s1 \<in> set segs \<Longrightarrow> rs_origin s1 \<le> a \<Longrightarrow> owner a (s0 # segs) = owner a segs"
  by (auto simp: owner_def filter_empty_conv)

lemma owner_drop_dead: "first \<le> a \<Longrightarrow> owner a (drop_dead first segs) = owner a segs"
proof (induction first segs rule: drop_dead.induct)
  case (1 first s0 s1 rest)
  then show ?case using owner_Cons [of s1 "s1 # rest" a s0] by auto
qed simp_all

lemma owner_in: "segs \<noteq> [] \<Longrightarrow> rs_origin (hd segs) \<le> a \<Longrightarrow>
    owner a segs \<in> set segs \<and> rs_origin (owner a segs) \<le> a"
proof -
  assume "segs \<noteq> []" "rs_origin (hd segs) \<le> a"
  then have "filter (\<lambda>s. rs_origin s \<le> a) segs \<noteq> []"
    by (metis (mono_tags, lifting) filter_empty_conv list.set_sel(1))
  from last_in_set [OF this] show ?thesis by (simp add: owner_def)
qed

lemma seg_of_ram:
  assumes "m_ram_count r \<noteq> 0" "m_ram_seg r \<noteq> []" "m_ram_first_abs r \<le> a"
    "rs_origin (hd (m_ram_seg r)) \<le> m_ram_first_abs r"
  shows "sg_origin (seg_of (ram_segs r) a) = rs_origin (owner a (m_ram_seg r))"
    and "sg_base (seg_of (ram_segs r) a) = rs_base (owner a (m_ram_seg r))"
    and "sg_synced (seg_of (ram_segs r) a) = rs_synced (owner a (m_ram_seg r))"
proof -
  let ?n = "length (m_ram_seg r)" and ?segs = "m_ram_seg r"
  let ?ys = "filter (\<lambda>i. rs_origin (?segs ! i) \<le> a) [0..<?n]"
  have eq: "(sg_first (ram_seg_get r i) \<le> a) = (rs_origin (?segs ! i) \<le> a)" if "i < ?n" for i
    using assms by (cases "i = 0") (auto simp: ram_seg_get_def hd_conv_nth)
  have f1: "filter (\<lambda>s. sg_first s \<le> a) (ram_segs r) = map (ram_seg_get r) ?ys"
  proof -
    have "filter (\<lambda>i. sg_first (ram_seg_get r i) \<le> a) [0..<?n] = ?ys"
      by (rule filter_cong) (simp_all add: eq)
    then show ?thesis using assms(1) by (simp add: ram_segs_def ram_nseg_def filter_map comp_def)
  qed
  have f2: "filter (\<lambda>s. rs_origin s \<le> a) ?segs = map ((!) ?segs) ?ys"
    by (subst map_nth [of ?segs, symmetric], subst filter_map) (simp add: comp_def)
  have ne: "?ys \<noteq> []"
    using assms by (auto simp: filter_empty_conv hd_conv_nth intro!: bexI [of _ 0])
  have so: "seg_of (ram_segs r) a = ram_seg_get r (last ?ys)"
    using ne by (simp add: seg_of_def find_rev f1 last_map)
  have ow: "owner a ?segs = ?segs ! last ?ys"
    using ne by (simp add: owner_def f2 last_map)
  show "sg_origin (seg_of (ram_segs r) a) = rs_origin (owner a (m_ram_seg r))"
    "sg_base (seg_of (ram_segs r) a) = rs_base (owner a (m_ram_seg r))"
    "sg_synced (seg_of (ram_segs r) a) = rs_synced (owner a (m_ram_seg r))"
    by (simp_all add: so ow ram_seg_get_def)
qed

lemma origins_hd: "seg_origins_ok f e segs \<Longrightarrow> rs_origin (hd segs) \<le> f"
  by (simp add: seg_origins_ok_def)

lemma origins_snoc:
  "seg_origins_ok f e segs \<Longrightarrow> segs \<noteq> [] \<Longrightarrow> rs_origin s = e \<Longrightarrow> f < e \<Longrightarrow>
   seg_origins_ok f (Suc e) (segs @ [s])"
  by (cases segs) (auto simp: seg_origins_ok_def sorted_wrt_append)

lemma origins_grow: "seg_origins_ok f e segs \<Longrightarrow> e \<le> e' \<Longrightarrow> seg_origins_ok f e' segs"
  by (auto simp: seg_origins_ok_def)

lemma origins_tail:
  "seg_origins_ok f e (s0 # s1 # rest) \<Longrightarrow> seg_origins_ok (rs_origin s1) e (s1 # rest)"
  by (auto simp: seg_origins_ok_def)

lemma origins_drop_dead:
  "seg_origins_ok f e segs \<Longrightarrow> segs \<noteq> [] \<Longrightarrow> f \<le> f' \<Longrightarrow>
   seg_origins_ok f' e (drop_dead f' segs) \<and> drop_dead f' segs \<noteq> [] \<and>
   length (drop_dead f' segs) \<le> length segs"
proof (induction f' segs arbitrary: f rule: drop_dead.induct)
  case (1 f' s0 s1 rest)
  show ?case
  proof (cases "rs_origin s1 \<le> f'")
    case True
    with 1(1) [OF True origins_tail [OF 1(2)]] show ?thesis by simp
  next
    case False
    with 1(2,4) show ?thesis by (force simp: seg_origins_ok_def)
  qed
qed (auto simp: seg_origins_ok_def)

text \<open>What opening a segment does to the ring.\<close>

lemma open_seg:
  assumes ok: "ram_ok sz r" and cap: "cap = ram_capacity sz r"
    and eq: "ram_open_seg cap base synced split r = (r1, ev)"
  shows "m_ram r1 = m_ram r" "ev \<le> m_ram_count r" "m_ram_first_abs r1 = m_ram_first_abs r + ev"
    "m_ram_count r1 = m_ram_count r - ev" "m_ram_start r1 = (m_ram_start r + ev) mod cap"
    "length (m_ram_seg r1) \<le> RAM_NSEG" "m_ram_seg r1 \<noteq> []"
    "seg_origins_ok (m_ram_first_abs r1) (Suc (m_ram_first_abs r1 + m_ram_count r1)) (m_ram_seg r1)"
    "m_ram_first_abs r1 \<le> a \<Longrightarrow> a < m_ram_first_abs r1 + m_ram_count r1 \<Longrightarrow>
      owner a (m_ram_seg r1) = owner a (m_ram_seg r)"
    "owner (m_ram_first_abs r1 + m_ram_count r1) (m_ram_seg r1) =
      (if split \<or> m_ram_count r = 0
       then \<lparr>rs_origin = m_ram_first_abs r + m_ram_count r, rs_base = base, rs_synced = synced\<rparr>
       else owner (m_ram_first_abs r + m_ram_count r) (m_ram_seg r))"
    "length (m_ram_seg r) < RAM_NSEG \<Longrightarrow> ev = 0" "\<not> split \<Longrightarrow> ev = 0"
proof -
  let ?f = "m_ram_first_abs r" and ?c = "m_ram_count r" and ?segs = "m_ram_seg r"
  have st: "m_ram_start r mod cap = m_ram_start r" using ok cap by (simp add: ram_ok_def)
  have goals: "m_ram r1 = m_ram r \<and> ev \<le> ?c \<and> m_ram_first_abs r1 = ?f + ev \<and>
    m_ram_count r1 = ?c - ev \<and> m_ram_start r1 = (m_ram_start r + ev) mod cap \<and>
    length (m_ram_seg r1) \<le> RAM_NSEG \<and> m_ram_seg r1 \<noteq> [] \<and>
    seg_origins_ok (m_ram_first_abs r1) (Suc (m_ram_first_abs r1 + m_ram_count r1)) (m_ram_seg r1) \<and>
    (m_ram_first_abs r1 \<le> a \<longrightarrow> a < m_ram_first_abs r1 + m_ram_count r1 \<longrightarrow>
      owner a (m_ram_seg r1) = owner a ?segs) \<and>
    owner (m_ram_first_abs r1 + m_ram_count r1) (m_ram_seg r1) =
      (if split \<or> ?c = 0 then \<lparr>rs_origin = ?f + ?c, rs_base = base, rs_synced = synced\<rparr>
       else owner (?f + ?c) ?segs) \<and>
    (length ?segs < RAM_NSEG \<longrightarrow> ev = 0) \<and> (\<not> split \<longrightarrow> ev = 0)"
  proof -
    consider (empty) "?c = 0" | (cont) "0 < ?c" "\<not> split"
      | (split) "0 < ?c" "split" "length ?segs < RAM_NSEG"
      | (full) "0 < ?c" "split" "length ?segs = RAM_NSEG"
      using ok by (fastforce simp: ram_ok_def)
    then show ?thesis
    proof cases
      case empty
      with eq st show ?thesis
        by (auto simp: ram_open_seg_def RAM_NSEG_def seg_origins_ok_def owner_def)
    next
      case cont
      with ok have "?segs \<noteq> []" "seg_origins_ok ?f (?f + ?c) ?segs" "length ?segs \<le> RAM_NSEG"
        by (simp_all add: ram_ok_def)
      with cont eq st show ?thesis
        by (auto simp: ram_open_seg_def intro: origins_grow)
    next
      case split
      with ok have "?segs \<noteq> []" "seg_origins_ok ?f (?f + ?c) ?segs" by (simp_all add: ram_ok_def)
      with split eq st show ?thesis
        by (auto simp: ram_open_seg_def owner_snoc intro!: origins_snoc)
    next
      case full
      then obtain s0 s1 rest where segs: "?segs = s0 # s1 # rest" "length rest = 2"
        by (auto simp: RAM_NSEG_def numeral_eq_Suc length_Suc_conv)
      from full ok have o: "seg_origins_ok ?f (?f + ?c) ?segs" by (simp add: ram_ok_def)
      from origins_tail [OF o [unfolded segs]] o segs
      have t: "seg_origins_ok (rs_origin s1) (?f + ?c) (s1 # rest)" "?f < rs_origin s1" "rs_origin s1 < ?f + ?c"
        by (auto simp: seg_origins_ok_def)
      let ?n = "\<lparr>rs_origin = ?f + ?c, rs_base = base, rs_synced = synced\<rparr>"
      have r1: "r1 = r\<lparr>m_ram_start := (m_ram_start r + (rs_origin s1 - ?f)) mod cap,
          m_ram_count := ?c - (rs_origin s1 - ?f), m_ram_first_abs := rs_origin s1,
          m_ram_seg := s1 # rest @ [?n]\<rparr>" and ev: "ev = rs_origin s1 - ?f"
        using full eq segs t by (auto simp: ram_open_seg_def ram_seg_shift_def Let_def)
      have "seg_origins_ok (rs_origin s1) (Suc (?f + ?c)) ((s1 # rest) @ [?n])"
        by (rule origins_snoc [OF t(1)]) (use t in simp_all)
      moreover have "owner a (s1 # rest @ [?n]) = owner a (s0 # s1 # rest)"
        if "rs_origin s1 \<le> a" "a < ?f + ?c"
        using that owner_snoc [of a "s1 # rest" ?n] owner_Cons [of s1 "s1 # rest" a s0] by simp
      moreover have "owner (?f + ?c) (s1 # rest @ [?n]) = ?n"
        using owner_snoc [of "?f + ?c" "s1 # rest" ?n] by simp
      ultimately show ?thesis using full segs t by (simp add: r1 ev RAM_NSEG_def add.commute)
    qed
  qed
  then show "m_ram r1 = m_ram r" "ev \<le> m_ram_count r" "m_ram_first_abs r1 = m_ram_first_abs r + ev"
    "m_ram_count r1 = m_ram_count r - ev" "m_ram_start r1 = (m_ram_start r + ev) mod cap"
    "length (m_ram_seg r1) \<le> RAM_NSEG" "m_ram_seg r1 \<noteq> []"
    "seg_origins_ok (m_ram_first_abs r1) (Suc (m_ram_first_abs r1 + m_ram_count r1)) (m_ram_seg r1)"
    "m_ram_first_abs r1 \<le> a \<Longrightarrow> a < m_ram_first_abs r1 + m_ram_count r1 \<Longrightarrow>
      owner a (m_ram_seg r1) = owner a (m_ram_seg r)"
    "owner (m_ram_first_abs r1 + m_ram_count r1) (m_ram_seg r1) =
      (if split \<or> m_ram_count r = 0
       then \<lparr>rs_origin = m_ram_first_abs r + m_ram_count r, rs_base = base, rs_synced = synced\<rparr>
       else owner (m_ram_first_abs r + m_ram_count r) (m_ram_seg r))"
    "length (m_ram_seg r) < RAM_NSEG \<Longrightarrow> ev = 0" "\<not> split \<Longrightarrow> ev = 0"
    by blast+
qed

definition ram_slot :: "nat \<Rightarrow> ram_ring \<Rightarrow> nat \<Rightarrow> nat" where
  "ram_slot sz r a = (m_ram_start r + (a - m_ram_first_abs r)) mod ram_capacity sz r"

lemma append_facts:
  assumes ok: "ram_ok sz r" and eq: "ram_append sz rec base synced split r = (res, r')"
  obtains ev where "res = Inr ev" "ev \<le> m_ram_count r"
    "m_ram_first_abs r' = m_ram_first_abs r + ev" "m_ram_count r' = m_ram_count r + 1 - ev"
    "m_ram_start r' = (m_ram_start r + ev) mod ram_capacity sz r"
    "m_ram r' = blit (ram_slot sz r (m_ram_first_abs r + m_ram_count r) * sz) rec (m_ram r)"
    "m_ram_count r' \<le> ram_capacity sz r"
    "length (m_ram_seg r') \<le> RAM_NSEG" "m_ram_seg r' \<noteq> []"
    "seg_origins_ok (m_ram_first_abs r') (m_ram_first_abs r' + m_ram_count r') (m_ram_seg r')"
    "\<And>a. m_ram_first_abs r' \<le> a \<Longrightarrow> a < m_ram_first_abs r + m_ram_count r \<Longrightarrow>
      owner a (m_ram_seg r') = owner a (m_ram_seg r)"
    "owner (m_ram_first_abs r + m_ram_count r) (m_ram_seg r') =
      (if split \<or> m_ram_count r = 0
       then \<lparr>rs_origin = m_ram_first_abs r + m_ram_count r, rs_base = base, rs_synced = synced\<rparr>
       else owner (m_ram_first_abs r + m_ram_count r) (m_ram_seg r))"
    "m_ram_count r < ram_capacity sz r \<Longrightarrow> length (m_ram_seg r) < RAM_NSEG \<or> \<not> split \<Longrightarrow> ev = 0"
    "\<not> split \<Longrightarrow> ev \<le> 1"
proof -
  define cap where "cap = ram_capacity sz r"
  obtain r1 ev1 where o: "ram_open_seg cap base synced split r = (r1, ev1)"
    by (cases "ram_open_seg cap base synced split r")
  note f = open_seg [OF ok cap_def o]
  have c: "0 < cap" "m_ram_count r \<le> cap" using ok by (simp_all add: ram_ok_def cap_def)
  let ?e = "m_ram_first_abs r + m_ram_count r"
  have e1: "m_ram_first_abs r1 + m_ram_count r1 = ?e" using f(2,3,4) by simp
  have slot: "ram_slot sz r ?e = (m_ram_start r1 + m_ram_count r1) mod cap"
  proof -
    have "(m_ram_start r1 + m_ram_count r1) mod cap = (m_ram_start r + ev1 + m_ram_count r1) mod cap"
      by (simp add: f(5) mod_simps)
    then show ?thesis using f(2,4) by (simp add: ram_slot_def cap_def)
  qed
  show thesis
  proof (cases "cap \<le> m_ram_count r1")
    case True
    then have e0: "ev1 = 0" and cc: "m_ram_count r1 = cap" "m_ram_count r = cap"
      using f(2,4) c by linarith+
    let ?f' = "m_ram_first_abs r1 + 1"
    have r': "r' = r1\<lparr>m_ram_start := (m_ram_start r1 + 1) mod cap, m_ram_first_abs := ?f',
        m_ram_seg := drop_dead ?f' (m_ram_seg r1),
        m_ram := blit (m_ram_start r1 * sz) rec (m_ram r1)\<rparr>" "res = Inr 1"
      using eq True o e0 by (auto simp: ram_append_def Let_def cap_def split_def)
    have st: "m_ram_start r1 = ram_slot sz r ?e" using ok slot cc f(5) c by simp
    have dd: "seg_origins_ok ?f' (Suc ?e) (drop_dead ?f' (m_ram_seg r1))"
      "drop_dead ?f' (m_ram_seg r1) \<noteq> []"
      "length (drop_dead ?f' (m_ram_seg r1)) \<le> length (m_ram_seg r1)"
      using origins_drop_dead [OF f(8) f(7), of ?f'] e1 by simp_all
    show thesis
    proof (rule that [of 1])
      show "m_ram_start r' = (m_ram_start r + 1) mod ram_capacity sz r"
        using f(5) e0 by (simp add: r' cap_def mod_simps)
      show "owner a (m_ram_seg r') = owner a (m_ram_seg r)" if "m_ram_first_abs r' \<le> a" "a < ?e" for a
        using that f(9) [of a] e1 by (simp add: r' owner_drop_dead)
      have "?f' \<le> ?e" using cc c e1 by simp
      then show "owner ?e (m_ram_seg r') =
          (if split \<or> m_ram_count r = 0
           then \<lparr>rs_origin = ?e, rs_base = base, rs_synced = synced\<rparr> else owner ?e (m_ram_seg r))"
        using f(10) e1 by (simp add: r' owner_drop_dead)
    qed (use f dd cc c e1 e0 st in \<open>simp_all add: r' cap_def\<close>)
  next
    case False
    then have r': "r' = r1\<lparr>m_ram_count := m_ram_count r1 + 1,
        m_ram := blit (ram_slot sz r ?e * sz) rec (m_ram r1)\<rparr>" "res = Inr ev1"
      using eq o slot by (auto simp: ram_append_def Let_def cap_def)
    show thesis
    proof (rule that [of ev1])
      show "owner ?e (m_ram_seg r') =
          (if split \<or> m_ram_count r = 0
           then \<lparr>rs_origin = ?e, rs_base = base, rs_synced = synced\<rparr> else owner ?e (m_ram_seg r))"
        using f(10) e1 by (simp add: r')
      show "owner a (m_ram_seg r') = owner a (m_ram_seg r)" if "m_ram_first_abs r' \<le> a" "a < ?e" for a
        using that f(9) [of a] e1 by (simp add: r')
    qed (use f False c e1 in \<open>auto simp: r' cap_def\<close>)
  qed
qed

subsection \<open>Laws of the RAM ring\<close>

lemma slot_in: "0 < ram_capacity sz r \<Longrightarrow> 0 < sz \<Longrightarrow>
    (i mod ram_capacity sz r) * sz + sz \<le> length (m_ram r)"
proof -
  assume c: "0 < ram_capacity sz r" "0 < sz"
  then have "Suc (i mod ram_capacity sz r) * sz \<le> ram_capacity sz r * sz"
    by (intro mult_le_mono1) (simp add: Suc_leI)
  also have "\<dots> \<le> length (m_ram r)" by (simp add: ram_capacity_def)
  finally show ?thesis by simp
qed

lemma ram_capacity_append [simp]:
  assumes "ram_ok sz r" "length rec = sz"
  shows "ram_capacity sz (snd (ram_append sz rec base synced split r)) = ram_capacity sz r"
proof -
  obtain res r' where e: "ram_append sz rec base synced split r = (res, r')" by fastforce
  show ?thesis
    using append_facts [OF assms(1) e] slot_in assms e
    by (simp add: ram_capacity_def ram_slot_def) (metis length_blit ram_capacity_def ram_ok_def)
qed

lemma ram_append_ok:
  assumes "ram_ok sz r" "length rec = sz"
  shows "ram_ok sz (snd (ram_append sz rec base synced split r))"
proof -
  obtain res r' where e: "ram_append sz rec base synced split r = (res, r')" by fastforce
  show ?thesis
    by (rule append_facts [OF assms(1) e])
      (use assms e ram_capacity_append [OF assms, of base synced split] in \<open>simp add: ram_ok_def\<close>)
qed

lemma mod_distinct:
  assumes "i < (c::nat)" "c < i + cap" "0 < cap"
  shows "(s + i) mod cap \<noteq> (s + c) mod cap"
proof
  assume "(s + i) mod cap = (s + c) mod cap"
  then have "cap dvd (s + c) - (s + i)"
    using assms(1) mod_eq_dvd_iff_nat [of "s + i" "s + c" cap] by simp
  moreover have "(s + c) - (s + i) = c - i" "0 < c - i" "c - i < cap" using assms by auto
  ultimately show False by (metis nat_dvd_not_less)
qed

lemma ram_read_slot:
  "m_ram_first_abs r \<le> a \<Longrightarrow> a < m_ram_first_abs r + m_ram_count r \<Longrightarrow>
   ram_read sz r a = Some (take sz (drop (ram_slot sz r a * sz) (m_ram r)))"
  by (simp add: ram_read_def ram_slot_def Let_def)

lemma ram_append_reads:
  assumes ok: "ram_ok sz r" and len: "length rec = sz"
    and eq: "ram_append sz rec base synced split r = (res, r')"
  shows "m_ram_first_abs r' \<le> a \<Longrightarrow> a < m_ram_first_abs r + m_ram_count r \<Longrightarrow>
      ram_read sz r' a = ram_read sz r a"
    and "ram_read sz r' (m_ram_first_abs r + m_ram_count r) = Some rec"
proof -
  let ?e = "m_ram_first_abs r + m_ram_count r"
  let ?cap = "ram_capacity sz r"
  have cap': "ram_capacity sz r' = ?cap" using ram_capacity_append [OF ok len] eq by (metis snd_conv)
  have c: "0 < ?cap" "0 < sz" "m_ram_start r mod ?cap = m_ram_start r"
    using ok by (simp_all add: ram_ok_def)
  obtain ev where f: "ev \<le> m_ram_count r" "m_ram_first_abs r' = m_ram_first_abs r + ev"
    "m_ram_count r' = m_ram_count r + 1 - ev" "m_ram_start r' = (m_ram_start r + ev) mod ?cap"
    "m_ram r' = blit (ram_slot sz r ?e * sz) rec (m_ram r)" "m_ram_count r' \<le> ?cap"
    using append_facts [OF ok eq] by metis
  have slot: "ram_slot sz r' b = ram_slot sz r b" if "m_ram_first_abs r' \<le> b" for b
  proof -
    have "(m_ram_start r' + (b - m_ram_first_abs r')) mod ?cap =
        (m_ram_start r + (ev + (b - m_ram_first_abs r'))) mod ?cap"
      by (simp add: f(4) mod_simps add.assoc)
    moreover have "ev + (b - m_ram_first_abs r') = b - m_ram_first_abs r" using that f(2) by simp
    ultimately show ?thesis by (simp add: ram_slot_def cap')
  qed
  have fit: "ram_slot sz r b * sz + length rec \<le> length (m_ram r)" for b
    using slot_in [OF c(1,2)] len by (simp add: ram_slot_def)
  show "ram_read sz r' ?e = Some rec"
    using f(1,2,3,5) fit [of ?e] len take_drop_blit [OF fit [of ?e]]
    by (simp add: ram_read_slot slot)
  show "ram_read sz r' a = ram_read sz r a" if a: "m_ram_first_abs r' \<le> a" "a < ?e"
  proof -
    have "ram_slot sz r a \<noteq> ram_slot sz r ?e"
      unfolding ram_slot_def
      by (rule mod_distinct) (use a f c in simp_all)
    then have "ram_slot sz r a * sz + sz \<le> ram_slot sz r ?e * sz
        \<or> ram_slot sz r ?e * sz + sz \<le> ram_slot sz r a * sz"
      by (metis Suc_leI linorder_neqE_nat mult_Suc mult_le_mono1 add.commute)
    then have "take sz (drop (ram_slot sz r a * sz) (m_ram r'))
        = take sz (drop (ram_slot sz r a * sz) (m_ram r))"
      unfolding f(5) by (intro take_drop_blit_other) (use fit [of a] fit [of ?e] len in simp_all)
    then show ?thesis using a f(1,2,3) by (simp add: ram_read_slot slot)
  qed
qed

interpretation rr: hist_backend "ram_append sz" "ram_read sz" ram_first_abs ram_stored
  ram_reset_logical "ram_ok sz" sz for sz
proof unfold_locales
  fix sz r base synced split ev r' a e and rec :: bytes
  assume ok: "ram_ok sz r" 
  show "ram_ok sz (ram_reset_logical r)"
    using ok by (simp add: ram_ok_def ram_reset_logical_def ram_capacity_def)
  show "ram_first_abs (ram_reset_logical r) = ram_first_abs r + ram_stored r \<and>
      ram_stored (ram_reset_logical r) = 0"
    by (simp add: ram_first_abs_def ram_stored_def ram_reset_logical_def)
  assume len: "length rec = sz"
  show "ram_ok sz (snd (ram_append sz rec base synced split r))" by (rule ram_append_ok [OF ok len])
  show "ram_first_abs (snd (ram_append sz rec base synced split r)) \<le> a \<Longrightarrow>
      a < ram_first_abs r + ram_stored r \<Longrightarrow>
      ram_read sz (snd (ram_append sz rec base synced split r)) a = ram_read sz r a"
    using ram_append_reads(1) [OF ok len] by (metis prod.collapse ram_first_abs_def ram_stored_def)
  show "ram_append sz rec base synced split r = (Inl e, r') \<Longrightarrow>
      ram_first_abs r \<le> ram_first_abs r' \<and>
      ram_first_abs r' + ram_stored r' = ram_first_abs r + ram_stored r"
    using append_facts [OF ok] by (metis Inl_Inr_False)
  assume eq: "ram_append sz rec base synced split r = (Inr ev, r')"
  show "ev \<le> ram_stored r \<and> ram_first_abs r' = ram_first_abs r + ev \<and>
      ram_stored r' = ram_stored r + 1 - ev"
    by (rule append_facts [OF ok eq]) (simp add: ram_first_abs_def ram_stored_def)
  show "ram_read sz r' (ram_first_abs r + ram_stored r) = Some rec"
    using ram_append_reads(2) [OF ok len eq] by (simp add: ram_first_abs_def ram_stored_def)
qed

subsection \<open>Refinement: a bounded list of timed records\<close>

text \<open>What a reader sees: the stored records, oldest first, each with its time and clock flag.\<close>

definition ram_view :: "nat \<Rightarrow> u32 \<Rightarrow> ram_ring \<Rightarrow> (bytes option \<times> u32 \<times> bool) list" where
  "ram_view sz interval r = map (\<lambda>a.
     (ram_read sz r a, seg_time interval (seg_of (ram_segs r) a) a, sg_synced (seg_of (ram_segs r) a)))
     [m_ram_first_abs r..<m_ram_first_abs r + m_ram_count r]"

text \<open>The stamp a new record gets: one interval after the newest, or the clock when it splits.\<close>

definition next_stamp :: "u32 \<Rightarrow> u32 \<Rightarrow> bool \<Rightarrow> bool \<Rightarrow> (bytes option \<times> u32 \<times> bool) list \<Rightarrow> u32 \<times> bool" where
  "next_stamp interval base synced split v =
     (if split \<or> v = [] then (base, synced)
      else (fst (snd (last v)) + interval, snd (snd (last v))))"

definition owner_time :: "u32 \<Rightarrow> ram_seg list \<Rightarrow> nat \<Rightarrow> u32 \<times> bool" where
  "owner_time interval segs a =
     (let o' = owner a segs in (rs_base o' + of_nat (a - rs_origin o') * interval, rs_synced o'))"

lemma ram_view_owner:
  assumes "ram_ok sz r"
  shows "ram_view sz interval r = map (\<lambda>a. (ram_read sz r a, owner_time interval (m_ram_seg r) a))
     [m_ram_first_abs r..<m_ram_first_abs r + m_ram_count r]"
proof (cases "m_ram_count r = 0")
  case False
  then have "m_ram_seg r \<noteq> []" "rs_origin (hd (m_ram_seg r)) \<le> m_ram_first_abs r"
    using assms by (auto simp: ram_ok_def origins_hd)
  then show ?thesis
    using False by (simp add: ram_view_def owner_time_def seg_time_def Let_def seg_of_ram)
qed (simp add: ram_view_def)

lemma length_ram_view [simp]: "length (ram_view sz interval r) = m_ram_count r"
  by (simp add: ram_view_def)

lemma owner_time_step:
  assumes "segs \<noteq> []" "rs_origin (hd segs) \<le> a" "\<forall>s \<in> set segs. rs_origin s \<noteq> Suc a"
  shows "owner_time interval segs (Suc a) =
    (fst (owner_time interval segs a) + interval, snd (owner_time interval segs a))"
proof -
  have "filter (\<lambda>s. rs_origin s \<le> Suc a) segs = filter (\<lambda>s. rs_origin s \<le> a) segs"
    by (rule filter_cong) (use assms(3) in \<open>auto simp: le_Suc_eq\<close>)
  then have o: "owner (Suc a) segs = owner a segs" by (simp add: owner_def)
  have "rs_origin (owner a segs) \<le> a" using owner_in [OF assms(1,2)] by simp
  then show ?thesis by (simp add: owner_time_def Let_def o Suc_diff_le algebra_simps)
qed

lemma map_upt_drop: "map f [m + k..<n] = drop k (map f [m..<n])"
  by (simp add: drop_map)

text \<open>A ring of three one-byte slots that holds two records of a first segment.\<close>

definition demo_ring :: ram_ring where
  "demo_ring = \<lparr>m_ram = [5, 6, 0], m_ram_start = 0, m_ram_count = 2, m_ram_first_abs = 10,
     m_ram_seg = [\<lparr>rs_origin = 10, rs_base = 1000, rs_synced = True\<rparr>]\<rparr>"

lemma demo_ring_ok: "ram_ok 1 demo_ring"
  by code_simp

lemma append_refines:
  assumes ok: "ram_ok sz r" and len: "length rec = sz"
  shows "\<exists>ev. fst (ram_append sz rec base synced split r) = Inr ev \<and>
    ram_view sz interval (snd (ram_append sz rec base synced split r)) =
      drop ev (ram_view sz interval r @
        [(Some rec, next_stamp interval base synced split (ram_view sz interval r))]) \<and>
    ev \<le> m_ram_count r \<and> (\<not> split \<longrightarrow> ev \<le> 1) \<and>
    (m_ram_count r < ram_capacity sz r \<and> (\<not> split \<or> length (m_ram_seg r) < RAM_NSEG) \<longrightarrow> ev = 0)"
proof -
  obtain res r' where e: "ram_append sz rec base synced split r = (res, r')" by fastforce
  let ?f = "m_ram_first_abs r" and ?e = "m_ram_first_abs r + m_ram_count r"
  have ok': "ram_ok sz r'" using ram_append_ok [OF ok len] e by (metis snd_conv)
  show ?thesis
  proof (rule append_facts [OF ok e])
    fix ev
    assume f: "res = Inr ev" "ev \<le> m_ram_count r" "m_ram_first_abs r' = ?f + ev"
      "m_ram_count r' = m_ram_count r + 1 - ev"
      "\<And>a. m_ram_first_abs r' \<le> a \<Longrightarrow> a < ?e \<Longrightarrow> owner a (m_ram_seg r') = owner a (m_ram_seg r)"
      "owner ?e (m_ram_seg r') = (if split \<or> m_ram_count r = 0
         then \<lparr>rs_origin = ?e, rs_base = base, rs_synced = synced\<rparr> else owner ?e (m_ram_seg r))"
      "m_ram_count r < ram_capacity sz r \<Longrightarrow> length (m_ram_seg r) < RAM_NSEG \<or> \<not> split \<Longrightarrow> ev = 0"
      "\<not> split \<Longrightarrow> ev \<le> 1"
    let ?g = "\<lambda>r a. (ram_read sz r a, owner_time interval (m_ram_seg r) a)"
    have st: "owner_time interval (m_ram_seg r') ?e =
        next_stamp interval base synced split (ram_view sz interval r)"
    proof (cases "split \<or> m_ram_count r = 0")
      case True
      moreover have "ram_view sz interval r = [] \<longleftrightarrow> m_ram_count r = 0"
        by (metis length_0_conv length_ram_view)
      ultimately show ?thesis by (simp add: owner_time_def f(6) next_stamp_def)
    next
      case False
      then obtain c where c: "m_ram_count r = Suc c" by (cases "m_ram_count r") auto
      have s: "m_ram_seg r \<noteq> []" "rs_origin (hd (m_ram_seg r)) \<le> ?f + c"
          "\<forall>s \<in> set (m_ram_seg r). rs_origin s \<noteq> Suc (?f + c)"
        using ok c by (auto simp: ram_ok_def seg_origins_ok_def)
      have "owner_time interval (m_ram_seg r') ?e = owner_time interval (m_ram_seg r) (Suc (?f + c))"
        using False f(6) c by (simp add: owner_time_def)
      moreover have "last (ram_view sz interval r) = ?g r (?f + c)"
        by (simp add: ram_view_owner [OF ok] c)
      moreover have "ram_view sz interval r \<noteq> []" by (metis c length_ram_view list.size(3) nat.simps(3))
      ultimately show ?thesis using owner_time_step [OF s] False by (simp add: next_stamp_def)
    qed
    have "ram_view sz interval r' = map (?g r') [?f + ev..<Suc ?e]"
      using ram_view_owner [OF ok'] f(2,3,4) by simp
    also have "\<dots> = map (?g r) [?f + ev..<?e] @ [?g r' ?e]"
      using f(2,3,5) ram_append_reads(1) [OF ok len e] by (simp add: owner_time_def)
    also have "\<dots> = drop ev (ram_view sz interval r) @ [?g r' ?e]"
      by (simp add: ram_view_owner [OF ok] map_upt_drop)
    finally have "ram_view sz interval r' = drop ev (ram_view sz interval r @
        [(Some rec, next_stamp interval base synced split (ram_view sz interval r))])"
      using f(2) st ram_append_reads(2) [OF ok len e] by simp
    then show ?thesis using f(1,2,7,8) e by auto
  qed
qed

text \<open>
  C16: The RAM ring implements a bounded list of timed records: an append adds the new record at
  the end, stamped one interval after the newest one, or with the clock it was given when it opens a
  segment, and only evicts the oldest records. It evicts none while there is room and a free
  segment entry, and one at most unless it splits.
\<close>
theorem ram_append_refines:
  assumes ok: "ram_ok sz r" and len: "length rec = sz"
  shows "\<exists>ev. fst (ram_append sz rec base synced split r) = Inr ev \<and>
    ram_view sz interval (snd (ram_append sz rec base synced split r)) =
      drop ev (ram_view sz interval r @
        [(Some rec, next_stamp interval base synced split (ram_view sz interval r))]) \<and>
    ev \<le> m_ram_count r \<and> (\<not> split \<longrightarrow> ev \<le> 1) \<and>
    (m_ram_count r < ram_capacity sz r \<and> (\<not> split \<or> length (m_ram_seg r) < RAM_NSEG) \<longrightarrow> ev = 0)"
  using assms by (rule append_refines)

lemma ram_append_refines_witness:
  "\<exists>ev. fst (ram_append 1 [9] 7000 True True demo_ring) = Inr ev \<and>
    ram_view 1 60 (snd (ram_append 1 [9] 7000 True True demo_ring)) =
      drop ev (ram_view 1 60 demo_ring @
        [(Some [9], next_stamp 60 7000 True True (ram_view 1 60 demo_ring))]) \<and>
    ev \<le> m_ram_count demo_ring"
  using ram_append_refines [OF demo_ring_ok, of "[9]" 7000 True True 60] by fastforce

text \<open>
  An absolute ordinal names one record for as long as it is stored: after any sequence of
  appends, segment splits, evictions and resets, a record that is still in the ring reads back the
  bytes it read before.
\<close>
theorem ram_ordinals_stable:
  "ram_ok sz r \<Longrightarrow> edits_fit sz es \<Longrightarrow>
   ram_first_abs (ring_edits (ram_append sz) ram_reset_logical es r) \<le> a \<Longrightarrow>
   a < ram_first_abs r + ram_stored r \<Longrightarrow>
   ram_read sz (ring_edits (ram_append sz) ram_reset_logical es r) a = ram_read sz r a"
  by (rule rr.ordinal_stable)

lemma ram_ordinals_stable_witness:
  "ram_read 1 (ring_edits (ram_append 1) ram_reset_logical
      [Some ([9], 0, False, True), Some ([8], 0, False, False)] demo_ring) 11 = ram_read 1 demo_ring 11"
  by (rule ram_ordinals_stable [OF demo_ring_ok]) code_simp+

end
