(* ===== verification/HistExport.thy ===== *)
theory HistExport
  imports HistRing
begin

text \<open>
  History export (\<open>app/src/app_history.c\<close>): the time window of a segment, the frame the
  replay and the paged readout pack, the cursor they continue from, and the frame count. The functions
  take the segment list and the record reader of the storage ring they run on. Absolute ordinals are
  \<open>nat\<close>, see \<open>HistRing\<close>.
\<close>

subsection \<open>Windows\<close>

definition seg_window :: "u32 \<Rightarrow> u32 \<Rightarrow> u32 \<Rightarrow> bool \<Rightarrow> hist_seg \<Rightarrow> nat \<times> nat" where
  "seg_window interval from_unix to_unix take_unsynced s =
     (let a = sg_first s; b = sg_end s;
          (a, b) =
            (if \<not> sg_synced s then (if take_unsynced then (a, b) else (a, a))
             else if interval = 0
             then (if sg_base s < from_unix \<or> to_unix < sg_base s then (a, a) else (a, b))
             else
               let a = (if sg_base s < from_unix
                        then (let d = from_unix - sg_base s;
                                  k = d div interval + (if d mod interval \<noteq> 0 then 1 else 0)
                              in max a (sg_origin s + unat k))
                        else a);
                   b = (if to_unix < sg_base s then a
                        else min b (sg_origin s + unat ((to_unix - sg_base s) div interval) + 1))
               in (a, b))
      in (if b < a then b else a, b))"

text \<open>\<open>window_takes_unsynced\<close>, with whether the device has a wall clock.\<close>

definition window_takes_unsynced :: "bool \<Rightarrow> u32 \<Rightarrow> u32 \<Rightarrow> bool" where
  "window_takes_unsynced rtc from_unix to_unix \<longleftrightarrow> \<not> rtc \<or> (from_unix = 0 \<and> to_unix = 0xFFFFFFFF)"

text \<open>The window arguments of one request, and what it sees of the ring.\<close>

record hist_query =
  q_interval :: u32
  q_from :: u32
  q_to :: u32
  q_unsynced :: bool

abbreviation q_window :: "hist_query \<Rightarrow> hist_seg \<Rightarrow> nat \<times> nat" where
  "q_window q \<equiv> seg_window (q_interval q) (q_from q) (q_to q) (q_unsynced q)"

fun next_in_window :: "hist_query \<Rightarrow> hist_seg list \<Rightarrow> nat \<Rightarrow> nat \<Rightarrow> nat" where
  "next_in_window q [] a end' = max a end'"
| "next_in_window q (s # segs) a end' =
     (if end' \<le> a then max a end'
      else if sg_end s \<le> a then next_in_window q segs a end'
      else let (lo, hi) = q_window q s; a = max a lo
           in if a < hi then min a end' else next_in_window q segs (sg_end s) end')"

subsection \<open>One frame\<close>

record hist_frame =
  fr_buf :: bytes
  fr_written :: nat
  fr_t0 :: u32
  fr_synced :: bool

definition no_frame :: hist_frame where
  "no_frame = \<lparr>fr_buf = [], fr_written = 0, fr_t0 = 0, fr_synced = False\<rparr>"

text \<open>The records of one segment: \<open>(closed, abs, frame)\<close> when the inner loop of
  \<open>export_locked\<close> ends.\<close>

function scan_seg ::
    "(nat \<Rightarrow> bytes option) \<Rightarrow> nat \<Rightarrow> nat \<Rightarrow> u32 \<Rightarrow> hist_seg \<Rightarrow> nat \<Rightarrow> nat \<Rightarrow> hist_frame
     \<Rightarrow> bool \<times> nat \<times> hist_frame" where
  "scan_seg rd sz cap interval s hi a f =
     (if hi \<le> a then (False, a, f)
      else if cap < length (fr_buf f) + sz then (True, a, f)
      else case rd a of
        None \<Rightarrow> if 0 < fr_written f then (True, Suc a, f)
                else scan_seg rd sz cap interval s hi (Suc a) f
      | Some r \<Rightarrow>
          scan_seg rd sz cap interval s hi (Suc a)
            \<lparr>fr_buf = fr_buf f @ r, fr_written = Suc (fr_written f),
             fr_t0 = (if fr_written f = 0 then seg_time interval s a else fr_t0 f),
             fr_synced = (if fr_written f = 0 then sg_synced s else fr_synced f)\<rparr>)"
  by pat_completeness auto
termination by (relation "measure (\<lambda>(rd, sz, cap, interval, s, hi, a, f). hi - a)") auto

declare scan_seg.simps [simp del]

fun scan_segs ::
    "(nat \<Rightarrow> bytes option) \<Rightarrow> nat \<Rightarrow> nat \<Rightarrow> hist_query \<Rightarrow> hist_seg list \<Rightarrow> nat \<Rightarrow> nat \<Rightarrow> hist_frame
     \<Rightarrow> nat \<times> hist_frame" where
  "scan_segs rd sz cap q [] a end' f = (a, f)"
| "scan_segs rd sz cap q (s # segs) a end' f =
     (if end' \<le> a then (a, f)
      else if sg_end s \<le> a then scan_segs rd sz cap q segs a end' f
      else let (lo, hi) = q_window q s;
               (closed, a, f) = scan_seg rd sz cap (q_interval q) s (min hi end') (max a lo) f
           in if closed \<or> 0 < fr_written f then (a, f)
              else scan_segs rd sz cap q segs (min (sg_end s) end') end' f)"

text \<open>\<open>export_locked\<close>: the frame and the next cursor, for a ring that holds \<open>[first, stop)\<close>.\<close>

definition export_locked ::
    "(nat \<Rightarrow> bytes option) \<Rightarrow> nat \<Rightarrow> hist_seg list \<Rightarrow> nat \<Rightarrow> nat \<Rightarrow> hist_query \<Rightarrow> nat \<Rightarrow> nat \<Rightarrow> nat
     \<Rightarrow> hist_frame \<times> nat" where
  "export_locked rd sz segs first stop q cap start end0 =
     (let end' = min end0 stop;
          (a, f) = scan_segs rd sz cap q segs (max start first) end' no_frame
      in (f, next_in_window q segs a end'))"

definition count_frames :: "nat \<Rightarrow> hist_seg list \<Rightarrow> hist_query \<Rightarrow> nat \<Rightarrow> nat" where
  "count_frames sz segs q cap =
     (if sz = 0 \<or> cap < sz then 0
      else let per_frame = cap div sz
           in min (sum_list (map (\<lambda>s. case q_window q s of (lo, hi) \<Rightarrow>
                (hi - lo + per_frame - 1) div per_frame) segs)) 65535)"

text \<open>\<open>app_history_export_page\<close>: cursors relative to the oldest record.\<close>

definition export_page ::
    "(nat \<Rightarrow> bytes option) \<Rightarrow> nat \<Rightarrow> hist_seg list \<Rightarrow> nat \<Rightarrow> nat \<Rightarrow> hist_query \<Rightarrow> nat \<Rightarrow> nat
     \<Rightarrow> hist_frame \<times> nat" where
  "export_page rd sz segs first count q cap start_ord =
     (let start = (if start_ord < count then first + start_ord else first + count);
          (f, nxt) = export_locked rd sz segs first (first + count) q cap start (first + count)
      in (f, if start_ord < count then nxt - first else start_ord))"

subsection \<open>The window of a segment is exact\<close>

lemma seg_window_range:
  "sg_first s \<le> sg_end s \<Longrightarrow> seg_window iv from_u to_u tk s = (lo, hi) \<Longrightarrow>
   lo \<le> hi \<and> (lo < hi \<longrightarrow> sg_first s \<le> lo \<and> hi \<le> sg_end s)"
  by (auto simp: seg_window_def Let_def split: if_splits)

lemma ceil_div_le:
  assumes "0 < (n::nat)"
  shows "d div n + (if d mod n \<noteq> 0 then 1 else 0) \<le> k \<longleftrightarrow> d \<le> k * n"
proof -
  have d: "d = d div n * n + d mod n" by simp
  have m: "d mod n < n" using assms by simp
  show ?thesis
  proof (cases "d mod n = 0")
    case True
    then have "d = d div n * n" using d by simp
    then show ?thesis using True assms by (metis add.right_neutral mult_le_cancel2)
  next
    case False
    have "d \<le> k * n \<longleftrightarrow> d div n < k"
    proof
      assume "d \<le> k * n"
      then have "d div n * n < k * n" using d False by linarith
      then show "d div n < k" by simp
    next
      assume "d div n < k"
      then have "Suc (d div n) * n \<le> k * n" by (intro mult_le_mono1) simp
      then have "d div n * n + n \<le> k * n" by simp
      then show "d \<le> k * n" using d m by linarith
    qed
    then show ?thesis using False by auto
  qed
qed

text \<open>The time of a record, when it does not pass \<open>2^32\<close>.\<close>

lemma seg_time_unat:
  assumes "unat (sg_base s) + (a - sg_origin s) * unat iv < 2 ^ 32"
  shows "unat (seg_time iv s a) = unat (sg_base s) + (a - sg_origin s) * unat iv"
proof -
  have "seg_time iv s a = of_nat (unat (sg_base s) + (a - sg_origin s) * unat iv)"
    by (simp add: seg_time_def)
  then show ?thesis using assms by (simp add: unat_of_nat_small del: of_nat_add of_nat_mult)
qed

definition seg_no_wrap :: "u32 \<Rightarrow> hist_seg \<Rightarrow> bool" where
  "seg_no_wrap iv s \<longleftrightarrow> unat (sg_base s) + (sg_end s - sg_origin s) * unat iv < 2 ^ 32"

lemma seg_window_iff:
  assumes s: "sg_synced s" "sg_origin s \<le> sg_first s" "sg_first s \<le> sg_end s" "seg_no_wrap iv s"
    and iv: "0 < iv" and w: "seg_window iv from_u to_u tk s = (lo, hi)"
  shows "lo \<le> a \<and> a < hi \<longleftrightarrow>
    sg_first s \<le> a \<and> a < sg_end s \<and> from_u \<le> seg_time iv s a \<and> seg_time iv s a \<le> to_u"
proof (cases "sg_first s \<le> a \<and> a < sg_end s")
  case False
  then show ?thesis using seg_window_range [OF s(3) w] by auto
next
  case True
  define n where "n = a - sg_origin s"
  have a: "a = sg_origin s + n" using True s(2) by (simp add: n_def)
  have iv0: "0 < unat iv" using iv by (simp add: word_less_nat_alt)
  have nw: "unat (sg_base s) + n * unat iv < 2 ^ 32"
  proof -
    have "n * unat iv \<le> (sg_end s - sg_origin s) * unat iv"
      by (rule mult_le_mono1) (use True in \<open>simp add: n_def diff_le_mono\<close>)
    then show ?thesis using s(4) unfolding seg_no_wrap_def by linarith
  qed
  have t: "unat (seg_time iv s a) = unat (sg_base s) + n * unat iv"
    using seg_time_unat [of s a iv] nw by (simp add: n_def)
  define k1 where "k1 = (from_u - sg_base s) div iv + (if (from_u - sg_base s) mod iv \<noteq> 0 then 1 else 0)"
  have k1: "unat k1 = unat (from_u - sg_base s) div unat iv
      + (if unat (from_u - sg_base s) mod unat iv \<noteq> 0 then 1 else 0)"
  proof -
    let ?d = "unat (from_u - sg_base s)"
    have z: "((from_u - sg_base s) mod iv \<noteq> 0) = (?d mod unat iv \<noteq> 0)"
      by (metis unat_eq_0 unat_mod_distrib)
    have "?d div unat iv + 1 < 2 ^ 32" if "?d mod unat iv \<noteq> 0"
    proof -
      have "2 \<le> unat iv" using that iv0 by (metis One_nat_def Suc_1 Suc_leI le_neq_implies_less mod_by_Suc_0)
      then have "?d div unat iv \<le> ?d div 2" by (simp add: div_le_mono2)
      moreover have "?d < 2 ^ 32" using unsigned_less [of "from_u - sg_base s"] by simp
      ultimately show ?thesis by simp
    qed
    then show ?thesis by (simp add: k1_def z unat_plus_small unat_div_distrib)
  qed
  have lo: "from_u \<le> seg_time iv s a \<longleftrightarrow> (sg_base s < from_u \<longrightarrow> sg_origin s + unat k1 \<le> a)"
  proof (cases "sg_base s < from_u")
    case True
    then have "unat (from_u - sg_base s) = unat from_u - unat (sg_base s)" "unat (sg_base s) < unat from_u"
      by (simp_all add: unat_sub word_less_nat_alt order_less_imp_le)
    then have "unat k1 \<le> n \<longleftrightarrow> unat from_u \<le> unat (sg_base s) + n * unat iv"
      unfolding k1 ceil_div_le [OF iv0] by linarith
    then show ?thesis using True unfolding word_le_nat_alt t by (simp add: a)
  next
    case False
    then show ?thesis by (simp add: word_le_nat_alt word_less_nat_alt t)
  qed
  have hi: "seg_time iv s a \<le> to_u \<longleftrightarrow>
      \<not> to_u < sg_base s \<and> a < sg_origin s + unat ((to_u - sg_base s) div iv) + 1"
  proof (cases "to_u < sg_base s")
    case True
    then show ?thesis by (simp add: word_le_nat_alt word_less_nat_alt t)
  next
    case False
    then have "unat (to_u - sg_base s) = unat to_u - unat (sg_base s)" "unat (sg_base s) \<le> unat to_u"
      by (simp_all add: unat_sub word_less_nat_alt linorder_not_less word_le_nat_alt)
    then have "n \<le> unat ((to_u - sg_base s) div iv) \<longleftrightarrow> unat (sg_base s) + n * unat iv \<le> unat to_u"
      unfolding unat_div_distrib less_eq_div_iff_mult_less_eq [OF iv0] by linarith
    then show ?thesis using False unfolding word_le_nat_alt t by (simp add: a less_Suc_eq_le)
  qed
  have "lo \<le> a \<and> a < hi \<longleftrightarrow> (sg_base s < from_u \<longrightarrow> sg_origin s + unat k1 \<le> a) \<and>
      \<not> to_u < sg_base s \<and> a < sg_origin s + unat ((to_u - sg_base s) div iv) + 1"
    using w True s(1) iv by (auto simp: seg_window_def Let_def k1_def [symmetric] split: if_splits)
  then show ?thesis using lo hi True by blast
qed

text \<open>
  C17: The window of a synced segment is exact: the ordinals \<open>[lo, hi)\<close> that \<open>seg_window\<close> computes by
  division are those stored records of the segment whose time lies between \<open>from\<close> and \<open>to\<close>, both
  included, as long as no time of the segment passes \<open>2^32\<close>.
\<close>

theorem seg_window_exact:
  assumes s: "sg_synced s" "sg_origin s \<le> sg_first s" "sg_first s \<le> sg_end s" "seg_no_wrap iv s"
    and iv: "0 < iv" and w: "seg_window iv from_u to_u tk s = (lo, hi)"
  shows "lo \<le> a \<and> a < hi \<longleftrightarrow>
    sg_first s \<le> a \<and> a < sg_end s \<and> from_u \<le> seg_time iv s a \<and> seg_time iv s a \<le> to_u"
  using assms by (rule seg_window_iff)

definition demo_seg :: hist_seg where
  "demo_seg = \<lparr>sg_origin = 5, sg_first = 7, sg_end = 12, sg_base = 1000, sg_synced = True, sg_cur_boot = True\<rparr>"

lemma seg_window_exact_witness:
  "8 \<le> (9 :: nat) \<and> (9 :: nat) < 11 \<longleftrightarrow> sg_first demo_seg \<le> 9 \<and> 9 < sg_end demo_seg \<and>
     1130 \<le> seg_time 60 demo_seg 9 \<and> seg_time 60 demo_seg 9 \<le> 1310"
proof (rule seg_window_exact [of demo_seg 60 1130 1310 False])
  show "seg_no_wrap 60 demo_seg" by (simp add: seg_no_wrap_def demo_seg_def)
  show "seg_window 60 1130 1310 False demo_seg = (8, 11)"
    by (simp add: seg_window_def demo_seg_def Let_def)
qed (simp_all add: demo_seg_def)

subsection \<open>Frames against the list of in-window records\<close>

text \<open>The segments tile the stored ordinals \<open>[first, stop)\<close>.\<close>

fun segs_tile :: "nat \<Rightarrow> hist_seg list \<Rightarrow> nat \<Rightarrow> bool" where
  "segs_tile first [] stop \<longleftrightarrow> first = stop"
| "segs_tile first (s # segs) stop \<longleftrightarrow>
     sg_first s = first \<and> sg_origin s \<le> first \<and> first \<le> sg_end s \<and> segs_tile (sg_end s) segs stop"

definition win_run :: "hist_query \<Rightarrow> nat \<Rightarrow> nat \<Rightarrow> hist_seg \<Rightarrow> nat list" where
  "win_run q a end' s = (case q_window q s of (lo, hi) \<Rightarrow> [max a lo..<min hi end'])"

text \<open>The ordinals a request asks for, oldest first, from \<open>a\<close> up to \<open>end'\<close>.\<close>

definition win_ords :: "hist_query \<Rightarrow> hist_seg list \<Rightarrow> nat \<Rightarrow> nat \<Rightarrow> nat list" where
  "win_ords q segs a end' = concat (map (win_run q a end') segs)"

lemma win_ords_simps [simp]:
  "win_ords q [] a end' = []"
  "win_ords q (s # segs) a end' = win_run q a end' s @ win_ords q segs a end'"
  by (simp_all add: win_ords_def)

lemma segs_tile_le: "segs_tile first segs stop \<Longrightarrow> first \<le> stop"
  by (induction segs arbitrary: first) fastforce+

lemma win_run_empty:
  assumes "sg_first s \<le> sg_end s" "sg_end s \<le> a \<or> end' \<le> a"
  shows "win_run q a end' s = []"
proof -
  obtain lo hi where w: "q_window q s = (lo, hi)" by fastforce
  show ?thesis using assms(2) seg_window_range [OF assms(1) w] by (auto simp: win_run_def w)
qed

lemma win_run_set:
  assumes "sg_first s \<le> sg_end s" "x \<in> set (win_run q a end' s)"
  shows "a \<le> x" "sg_first s \<le> x" "x < sg_end s" "x < end'"
proof -
  obtain lo hi where w: "q_window q s = (lo, hi)" by fastforce
  then have "max a lo \<le> x" "x < min hi end'" using assms(2) by (auto simp: win_run_def)
  then show "a \<le> x" "sg_first s \<le> x" "x < sg_end s" "x < end'"
    using seg_window_range [OF assms(1) w] by auto
qed

lemma win_ords_set:
  "segs_tile first segs stop \<Longrightarrow> x \<in> set (win_ords q segs a end') \<Longrightarrow>
   a \<le> x \<and> x < end' \<and> first \<le> x \<and> x < stop"
proof (induction segs arbitrary: first)
  case (Cons s segs)
  then have t: "sg_first s = first" "first \<le> sg_end s" "segs_tile (sg_end s) segs stop" by simp_all
  show ?case
  proof (cases "x \<in> set (win_run q a end' s)")
    case True
    with win_run_set [of s x q a end'] t segs_tile_le [OF t(3)] show ?thesis by fastforce
  next
    case False
    with Cons.prems Cons.IH [OF t(3)] t show ?thesis by fastforce
  qed
qed simp

text \<open>A later start drops a prefix; a start at or below the first ordinal drops nothing.\<close>

lemma win_run_start: "a \<le> sg_first s \<Longrightarrow> a' \<le> sg_first s \<Longrightarrow> sg_first s \<le> sg_end s \<Longrightarrow>
    win_run q a end' s = win_run q a' end' s"
proof -
  assume a: "a \<le> sg_first s" "a' \<le> sg_first s" "sg_first s \<le> sg_end s"
  obtain lo hi where w: "q_window q s = (lo, hi)" by fastforce
  show ?thesis
  proof (cases "lo < hi")
    case True
    then have "sg_first s \<le> lo" using seg_window_range [OF a(3) w] by simp
    then show ?thesis using a w by (simp add: win_run_def max_absorb2)
  qed (simp add: win_run_def w)
qed

lemma win_ords_start:
  "segs_tile first segs stop \<Longrightarrow> a \<le> first \<Longrightarrow> a' \<le> first \<Longrightarrow>
   win_ords q segs a end' = win_ords q segs a' end'"
proof (induction segs arbitrary: first)
  case (Cons s segs)
  then show ?case using win_run_start [of a s a' q end'] by fastforce
qed simp

lemma win_ords_past: "segs_tile first segs stop \<Longrightarrow> end' \<le> a \<Longrightarrow> win_ords q segs a end' = []"
  using win_ords_set [of first segs stop _ q a end'] by (cases "win_ords q segs a end'") fastforce+

text \<open>The cursor is the first in-window record at or after it, or the end.\<close>

lemma next_in_window:
  "segs_tile first segs stop \<Longrightarrow>
   (\<forall>x xs. win_ords q segs a end' = x # xs \<longrightarrow> next_in_window q segs a end' = x) \<and>
   (win_ords q segs a end' = [] \<longrightarrow> end' \<le> next_in_window q segs a end')"
proof (induction segs arbitrary: first a)
  case (Cons s segs)
  then have t: "sg_first s \<le> sg_end s" "segs_tile (sg_end s) segs stop" by auto
  obtain lo hi where w: "q_window q s = (lo, hi)" by fastforce
  note r = seg_window_range [OF t(1) w]
  consider (past) "end' \<le> a" | (skip) "a < end'" "sg_end s \<le> a"
    | (hit) "a < end'" "a < sg_end s" "max a lo < hi"
    | (miss) "a < end'" "a < sg_end s" "hi \<le> max a lo" by linarith
  then show ?case
  proof cases
    case past
    then show ?thesis using win_ords_past [OF Cons.prems past, of q] by simp
  next
    case skip
    then show ?thesis using Cons.IH [OF t(2)] win_run_empty [OF t(1)] by simp
  next
    case hit
    show ?thesis
    proof (cases "lo < end'")
      case True
      then have "max a lo < min hi end'" using hit by simp
      then show ?thesis using hit w True by (simp add: win_run_def upt_conv_Cons)
    next
      case False
      then have "win_run q a end' s = []" by (simp add: win_run_def w)
      moreover have "end' \<le> sg_end s" using False hit r by linarith
      then have "win_ords q segs (sg_end s) end' = []" by (rule win_ords_past [OF t(2)])
      then have "win_ords q segs a end' = []"
        using win_ords_start [OF t(2), of a "sg_end s" q end'] hit by simp
      ultimately show ?thesis using hit False w by (simp add: max_def)
    qed
  next
    case miss
    then have e: "win_run q a end' s = []" using w by (simp add: win_run_def)
    have "win_ords q segs a end' = win_ords q segs (sg_end s) end'"
      using miss by (intro win_ords_start [OF t(2)]) simp_all
    then show ?thesis using miss w e Cons.IH [OF t(2), of "sg_end s"] by (auto simp: Let_def)
  qed
qed simp

lemma sorted_win_ords: "segs_tile first segs stop \<Longrightarrow> sorted_wrt (<) (win_ords q segs a end')"
proof (induction segs arbitrary: first)
  case (Cons s segs)
  then have t: "sg_first s \<le> sg_end s" "segs_tile (sg_end s) segs stop" by auto
  have "x < y" if "x \<in> set (win_run q a end' s)" "y \<in> set (win_ords q segs a end')" for x y
    using win_run_set(3) [OF t(1) that(1)] win_ords_set [OF t(2) that(2)] by linarith
  moreover have "sorted_wrt (<) (win_run q a end' s)" by (simp add: win_run_def split: prod.split)
  ultimately show ?case using Cons.IH [OF t(2)] by (simp add: sorted_wrt_append)
qed simp

lemma win_ords_later: "a \<le> a' \<Longrightarrow> win_ords q segs a' end' = filter (\<lambda>x. a' \<le> x) (win_ords q segs a end')"
proof (induction segs)
  case (Cons s segs)
  obtain lo hi where w: "q_window q s = (lo, hi)" by fastforce
  have "[max a' lo..<min hi end'] = filter (\<lambda>x. a' \<le> x) [max a lo..<min hi end']"
    using Cons.prems by (intro sorted_distinct_set_unique) (auto intro: sorted_wrt_filter)
  then show ?case using Cons by (simp add: win_run_def w)
qed simp

lemma win_ords_at_head:
  assumes "segs_tile first segs stop" "win_ords q segs a end' = x # xs"
  shows "win_ords q segs x end' = x # xs"
proof -
  have "a \<le> x" using win_ords_set [OF assms(1), of x q a end'] assms(2) by simp
  moreover have "sorted_wrt (<) (x # xs)" using sorted_win_ords [OF assms(1), of q a end'] assms(2) by simp
  ultimately show ?thesis
    using win_ords_later [of a x q segs end'] assms(2) by (auto simp: less_imp_le)
qed

text \<open>The records one frame takes of a run: skip unreadable ones, then up to \<open>k\<close>; an unreadable
  one after that ends the frame and is left out.\<close>

fun take_run :: "(nat \<Rightarrow> bytes option) \<Rightarrow> nat \<Rightarrow> nat list \<Rightarrow> nat list \<times> nat list" where
  "take_run rd k [] = ([], [])"
| "take_run rd k (a # as) =
     (if k = 0 then ([], a # as)
      else if rd a = None then ([], as)
      else case take_run rd (k - 1) as of (ys, rest) \<Rightarrow> (a # ys, rest))"

abbreviation unreadable :: "(nat \<Rightarrow> bytes option) \<Rightarrow> nat \<Rightarrow> bool" where
  "unreadable rd a \<equiv> rd a = None"

definition rec_bytes :: "(nat \<Rightarrow> bytes option) \<Rightarrow> nat list \<Rightarrow> bytes" where
  "rec_bytes rd ys = concat (map (\<lambda>a. the (rd a)) ys)"

definition frame_of :: "(nat \<Rightarrow> bytes option) \<Rightarrow> u32 \<Rightarrow> hist_seg \<Rightarrow> nat list \<Rightarrow> hist_frame" where
  "frame_of rd iv s ys = \<lparr>fr_buf = rec_bytes rd ys, fr_written = length ys,
     fr_t0 = seg_time iv s (hd ys), fr_synced = sg_synced s\<rparr>"

fun frame_spec :: "(nat \<Rightarrow> bytes option) \<Rightarrow> nat \<Rightarrow> hist_query \<Rightarrow> hist_seg list \<Rightarrow> nat \<Rightarrow> nat
    \<Rightarrow> hist_frame \<times> nat list" where
  "frame_spec rd k q [] a end' = (no_frame, [])"
| "frame_spec rd k q (s # segs) a end' =
     (case dropWhile (unreadable rd) (win_run q a end' s) of
        [] \<Rightarrow> frame_spec rd k q segs a end'
      | b # bs \<Rightarrow> case take_run rd k (b # bs) of (ys, rest) \<Rightarrow>
          (frame_of rd (q_interval q) s ys, rest @ win_ords q segs a end'))"

definition reads_sized :: "nat \<Rightarrow> (nat \<Rightarrow> bytes option) \<Rightarrow> bool" where
  "reads_sized sz rd \<longleftrightarrow> (\<forall>a r. rd a = Some r \<longrightarrow> length r = sz)"

lemma take_run_rest:
  "take_run rd k [a..<hi] = (ys, rest) \<Longrightarrow> rest = [hi - length rest..<hi] \<and> length rest \<le> hi - a"
proof (induction "hi - a" arbitrary: a k ys)
  case (Suc n)
  then have a: "a < hi" "n = hi - Suc a" by simp_all
  show ?case
    using Suc.prems Suc.hyps(1) [OF a(2)] a
    by (fastforce simp: upt_conv_Cons split: if_splits prod.splits)
qed simp

lemma scan_seg_done: "hi \<le> a \<Longrightarrow> scan_seg rd sz cap iv s hi a f = (False, a, f)"
  by (simp add: scan_seg.simps)

lemma scan_more:
  assumes "0 < sz" "reads_sized sz rd"
  shows "0 < fr_written f \<Longrightarrow> length (fr_buf f) = fr_written f * sz \<Longrightarrow> a \<le> hi \<Longrightarrow>
    take_run rd (cap div sz - fr_written f) [a..<hi] = (ys, rest) \<Longrightarrow>
    \<exists>c. scan_seg rd sz cap iv s hi a f = (c, hi - length rest,
      f\<lparr>fr_buf := fr_buf f @ rec_bytes rd ys, fr_written := fr_written f + length ys\<rparr>)"
proof (induction "hi - a" arbitrary: a f ys)
  case 0
  then show ?case by (auto simp: scan_seg_done rec_bytes_def)
next
  case (Suc n)
  then have a: "a < hi" "n = hi - Suc a" by simp_all
  have full: "cap < length (fr_buf f) + sz \<longleftrightarrow> cap div sz - fr_written f = 0"
  proof -
    have "cap < Suc (fr_written f) * sz \<longleftrightarrow> cap div sz < Suc (fr_written f)"
      using assms(1) by (simp add: div_less_iff_less_mult)
    then show ?thesis using Suc.prems(2) by auto
  qed
  show ?case
  proof (cases "cap div sz - fr_written f = 0")
    case True
    then have "ys = [] \<and> rest = [a..<hi]" using Suc.prems(4) a by (auto simp: upt_conv_Cons)
    then show ?thesis
      using a True full by (auto simp: scan_seg.simps [of _ _ _ _ _ hi a] rec_bytes_def)
  next
    case False
    note nf = this
    show ?thesis
    proof (cases "rd a")
      case None
      then have "ys = [] \<and> rest = [Suc a..<hi]" using Suc.prems(4) a nf by (auto simp: upt_conv_Cons)
      then show ?thesis
        using a nf full None Suc.prems(1) by (auto simp: scan_seg.simps [of _ _ _ _ _ hi a] rec_bytes_def)
    next
      case (Some r)
      let ?f = "\<lparr>fr_buf = fr_buf f @ r, fr_written = Suc (fr_written f), fr_t0 = fr_t0 f,
        fr_synced = fr_synced f\<rparr>"
      obtain ys' where y: "ys = a # ys'" "take_run rd (cap div sz - Suc (fr_written f)) [Suc a..<hi] = (ys', rest)"
        using Suc.prems(4) a nf Some by (auto simp: upt_conv_Cons split: prod.splits)
      have "length r = sz" using assms(2) Some by (simp add: reads_sized_def)
      then have "\<exists>c. scan_seg rd sz cap iv s hi (Suc a) ?f = (c, hi - length rest,
          ?f\<lparr>fr_buf := fr_buf ?f @ rec_bytes rd ys', fr_written := fr_written ?f + length ys'\<rparr>)"
        using a Suc.prems(2) y(2) by (intro Suc.hyps(1) [OF a(2)]) simp_all
      then show ?thesis
        using a nf full Some Suc.prems(1) y(1)
        by (auto simp: scan_seg.simps [of _ _ _ _ _ hi a] rec_bytes_def)
    qed
  qed
qed

lemma scan_start:
  assumes "0 < sz" "reads_sized sz rd" "sz \<le> cap"
  shows "a \<le> hi \<Longrightarrow>
    (case dropWhile (unreadable rd) [a..<hi] of
       [] \<Rightarrow> scan_seg rd sz cap iv s hi a no_frame = (False, hi, no_frame)
     | b # bs \<Rightarrow> (case take_run rd (cap div sz) (b # bs) of (ys, rest) \<Rightarrow>
         \<exists>c. scan_seg rd sz cap iv s hi a no_frame = (c, hi - length rest, frame_of rd iv s ys) \<and> ys \<noteq> []))"
proof (induction "hi - a" arbitrary: a)
  case 0
  then show ?case by (simp add: scan_seg_done)
next
  case (Suc n)
  then have a: "a < hi" "n = hi - Suc a" by simp_all
  have k: "0 < cap div sz" using assms by (simp add: div_greater_zero_iff)
  show ?case
  proof (cases "rd a")
    case None
    then have "scan_seg rd sz cap iv s hi a no_frame = scan_seg rd sz cap iv s hi (Suc a) no_frame"
      using a assms(3) by (simp add: scan_seg.simps [of _ _ _ _ _ hi a] no_frame_def)
    moreover have "dropWhile (unreadable rd) [a..<hi] = dropWhile (unreadable rd) [Suc a..<hi]"
      using a None by (simp add: upt_conv_Cons)
    moreover have "Suc a \<le> hi" using a by simp
    ultimately show ?thesis using Suc.hyps(1) [OF a(2)] by presburger
  next
    case (Some r)
    let ?f = "\<lparr>fr_buf = r, fr_written = Suc 0, fr_t0 = seg_time iv s a, fr_synced = sg_synced s\<rparr>"
    obtain ys rest where t: "take_run rd (cap div sz - Suc 0) [Suc a..<hi] = (ys, rest)" by fastforce
    have "length r = sz" using assms(2) Some by (simp add: reads_sized_def)
    then obtain c where "scan_seg rd sz cap iv s hi (Suc a) ?f = (c, hi - length rest,
        ?f\<lparr>fr_buf := fr_buf ?f @ rec_bytes rd ys, fr_written := fr_written ?f + length ys\<rparr>)"
      using scan_more [OF assms(1,2), of ?f "Suc a" hi cap ys rest iv s] t a by auto
    then show ?thesis
      using a Some assms(3) t k
      by (simp add: upt_conv_Cons scan_seg.simps [of _ _ _ _ _ hi a] no_frame_def frame_of_def rec_bytes_def)
  qed
qed

text \<open>\<open>scan_segs\<close> packs the frame of the specification, and leaves exactly the rest of the window.\<close>

lemma win_run_split:
  assumes "sg_first s \<le> sg_end s" "q_window q s = (lo, hi)" "rest = [min hi end' - length rest..<min hi end']"
    "length rest \<le> min hi end' - max a lo" "max a lo \<le> min hi end'"
  shows "win_run q (min hi end' - length rest) end' s = rest"
proof -
  have "max (min hi end' - length rest) lo = min hi end' - length rest" using assms(4,5) by linarith
  then show ?thesis using assms(3) by (simp add: win_run_def assms(2))
qed

lemma scan_segs_spec:
  assumes "0 < sz" "reads_sized sz rd" "sz \<le> cap"
  shows "segs_tile first segs stop \<Longrightarrow> scan_segs rd sz cap q segs a end' no_frame = (a', f) \<Longrightarrow>
    frame_spec rd (cap div sz) q segs a end' = (f, win_ords q segs a' end') \<and> a \<le> a'"
proof (induction segs arbitrary: first a)
  case (Cons s segs)
  then have t: "sg_first s \<le> sg_end s" "segs_tile (sg_end s) segs stop" by auto
  obtain lo hi where w: "q_window q s = (lo, hi)" by fastforce
  let ?hi = "min hi end'" and ?lo = "max a lo"
  have none: ?case if "win_ords q (s # segs) a end' = []"
      "scan_segs rd sz cap q (s # segs) a end' no_frame = (a, no_frame)"
  proof -
    have "frame_spec rd (cap div sz) q segs a end' = (no_frame, [])" if "win_ords q segs a end' = []" for segs
      using that by (induction segs) simp_all
    from this [OF that(1)] show ?thesis using that Cons.prems(2) by simp
  qed
  show ?case
  proof (cases "end' \<le> a")
    case True
    then show ?thesis using none win_ords_past [OF Cons.prems(1) True] by simp
  next
    case n1: False
    show ?thesis
    proof (cases "sg_end s \<le> a")
      case True
      then have ih: "frame_spec rd (cap div sz) q segs a end' = (f, win_ords q segs a' end') \<and> a \<le> a'"
        using Cons.prems(2) n1 by (intro Cons.IH [OF t(2)]) simp
      then have "sg_end s \<le> a'" using True by simp
      then show ?thesis
        using ih True win_run_empty [OF t(1), of a end' q] win_run_empty [OF t(1), of a' end' q] by simp
    next
      case n2: False
      have rest: "win_ords q segs b end' = win_ords q segs a end'" if "b \<le> sg_end s" for b
        using that n2 by (intro win_ords_start [OF t(2)]) simp_all
      show ?thesis
      proof (cases "dropWhile (unreadable rd) [?lo..<?hi]")
        case Nil
        have "\<exists>b. scan_seg rd sz cap (q_interval q) s ?hi ?lo no_frame = (False, b, no_frame)"
        proof (cases "?lo \<le> ?hi")
          case True
          then show ?thesis using scan_start [OF assms True, of "q_interval q" s] Nil by auto
        next
          case False
          then have "?hi \<le> ?lo" by linarith
          then show ?thesis using scan_seg_done by blast
        qed
        then obtain b where sc: "scan_seg rd sz cap (q_interval q) s ?hi ?lo no_frame = (False, b, no_frame)" ..
        have w0: "fr_written no_frame = 0" by (simp add: no_frame_def)
        from Cons.prems(2) have "scan_segs rd sz cap q segs (min (sg_end s) end') end' no_frame = (a', f)"
          using n1 n2 w sc w0 by (simp add: Let_def)
        from Cons.IH [OF t(2) this]
        have ih: "frame_spec rd (cap div sz) q segs (min (sg_end s) end') end' = (f, win_ords q segs a' end')"
          "min (sg_end s) end' \<le> a'" by simp_all
        have fs: "frame_spec rd k q segs b end' = frame_spec rd k q segs a end'" if "b \<le> sg_end s" for b k
          using that n2 t(2) 
        proof (induction segs arbitrary: s)
          case (Cons s' segs)
          then have "win_run q b end' s' = win_run q a end' s'" "win_ords q segs b end' = win_ords q segs a end'"
            by (auto intro!: win_run_start win_ords_start)
          moreover have "frame_spec rd k q segs b end' = frame_spec rd k q segs a end'"
            using Cons.prems by (intro Cons.IH [of s']) auto
          ultimately show ?case by (simp only: frame_spec.simps cong: list.case_cong)
        qed simp
        have "win_run q a' end' s = []" using ih(2) by (intro win_run_empty [OF t(1)]) auto
        moreover have "frame_spec rd (cap div sz) q (s # segs) a end' = frame_spec rd (cap div sz) q segs a end'"
          by (simp only: frame_spec.simps win_run_def w prod.case Nil list.case)
        ultimately show ?thesis using ih n1 n2 fs [of "min (sg_end s) end'"] by simp
      next
        case (Cons b bs)
        obtain ys rst where tk: "take_run rd (cap div sz) (b # bs) = (ys, rst)" by fastforce
        have le: "?lo \<le> ?hi" using Cons by (cases "?lo \<le> ?hi") simp_all
        obtain c where sc: "scan_seg rd sz cap (q_interval q) s ?hi ?lo no_frame =
            (c, ?hi - length rst, frame_of rd (q_interval q) s ys)" "ys \<noteq> []"
          using scan_start [OF assms le, of "q_interval q" s] Cons tk by auto
        have res: "a' = ?hi - length rst" "f = frame_of rd (q_interval q) s ys"
          using Cons.prems(2) n1 n2 w sc by (auto simp: Let_def frame_of_def)
        obtain j where j: "b # bs = [j..<?hi]" "?lo \<le> j"
          using Cons dropWhile_eq_drop [of "unreadable rd" "[?lo..<?hi]"] by (metis drop_upt le_add1)
        have rr: "rst = [?hi - length rst..<?hi]" "length rst \<le> ?hi - ?lo"
          using take_run_rest [OF tk [unfolded j(1)]] j(2) by auto
        have "win_run q a' end' s = rst" unfolding res by (rule win_run_split [OF t(1) w rr le])
        moreover have "a' \<le> sg_end s"
          using res(1) seg_window_range [OF t(1) w] le Cons by (cases "lo < hi") auto
        moreover have "a \<le> a'" using rr(2) res(1) le by linarith
        ultimately show ?thesis using Cons tk rest [of a'] by (simp add: win_run_def w res(2))
      qed
    qed
  qed
qed simp

subsection \<open>Replays\<close>

lemma export_spec:
  assumes "0 < sz" "reads_sized sz rd" "sz \<le> cap" "segs_tile first segs stop" "first \<le> a" "end' \<le> stop"
    and e: "export_locked rd sz segs first stop q cap a end' = (f, nx)"
  obtains W where "frame_spec rd (cap div sz) q segs a end' = (f, W)"
    "W = [] \<Longrightarrow> end' \<le> nx" "W \<noteq> [] \<Longrightarrow> nx = hd W \<and> win_ords q segs nx end' = W"
proof -
  obtain a' where s: "scan_segs rd sz cap q segs a end' no_frame = (a', f)"
      "nx = next_in_window q segs a' end'"
    using e assms(5,6) by (auto simp: export_locked_def Let_def max_def min_def split: prod.splits if_splits)
  let ?W = "win_ords q segs a' end'"
  note nw = next_in_window [OF assms(4), of q a' end']
  show thesis
  proof (rule that [of ?W])
    show "frame_spec rd (cap div sz) q segs a end' = (f, ?W)"
      using scan_segs_spec [OF assms(1,2,3,4) s(1)] by simp
    show "?W = [] \<Longrightarrow> end' \<le> nx" using nw s(2) by blast
    show "nx = hd ?W \<and> win_ords q segs nx end' = ?W" if ne: "?W \<noteq> []"
    proof -
      obtain x xs where x: "?W = x # xs" using ne by (meson list.exhaust)
      then have "nx = x" using nw s(2) by blast
      then show ?thesis using win_ords_at_head [OF assms(4) x] x by simp
    qed
  qed
qed

text \<open>What the host rebuilds from a frame: record \<open>j\<close> at \<open>t0 + j * interval\<close>.\<close>

definition host_records :: "nat \<Rightarrow> u32 \<Rightarrow> hist_frame \<Rightarrow> (bytes \<times> u32 \<times> bool) list" where
  "host_records sz iv f = map (\<lambda>j.
     (take sz (drop (j * sz) (fr_buf f)), fr_t0 f + of_nat j * iv, fr_synced f)) [0..<fr_written f]"

text \<open>What the ring holds for an ordinal: its bytes and its segment's time and clock.\<close>

definition stored_record :: "(nat \<Rightarrow> bytes option) \<Rightarrow> u32 \<Rightarrow> hist_seg list \<Rightarrow> nat \<Rightarrow> bytes \<times> u32 \<times> bool" where
  "stored_record rd iv segs a =
     (the (rd a), seg_time iv (seg_of segs a) a, sg_synced (seg_of segs a))"

text \<open>The replay of \<open>app_radio.c\<close> over a ring at rest (\<open>hist_build\<close>, \<open>hist_work_handler\<close>): a frame
  per run, each with the capacity of its moment, until a frame is empty or the cursor is at the end.\<close>

fun replay_frames ::
    "(nat \<Rightarrow> bytes option) \<Rightarrow> nat \<Rightarrow> hist_seg list \<Rightarrow> nat \<Rightarrow> nat \<Rightarrow> hist_query \<Rightarrow> nat \<Rightarrow> nat \<Rightarrow> nat list
     \<Rightarrow> hist_frame list" where
  "replay_frames rd sz segs first stop q cursor end' [] = []"
| "replay_frames rd sz segs first stop q cursor end' (cap # caps) =
     (case export_locked rd sz segs first stop q cap cursor end' of (f, nx) \<Rightarrow>
        if fr_written f = 0 then []
        else f # (if nx < end' then replay_frames rd sz segs first stop q nx end' caps else []))"

text \<open>A frame read back by the host is the records it took.\<close>

lemma seg_of_tile:
  assumes "segs_tile first segs stop" "s \<in> set segs" "sg_first s \<le> a" "a < sg_end s"
  shows "seg_of segs a = s"
proof -
  have "filter (\<lambda>s. sg_first s \<le> a) segs \<noteq> [] \<and> last (filter (\<lambda>s. sg_first s \<le> a) segs) = s"
    using assms
  proof (induction segs arbitrary: first)
    case (Cons s0 segs)
    have lt: "sg_first s0 \<le> sg_end s0" "segs_tile (sg_end s0) segs stop" using Cons.prems(1) by auto
    have fst_le: "b \<le> sg_first x" if "segs_tile b segs stop" "x \<in> set segs" for b x and segs :: "hist_seg list"
      using that
    proof (induction segs arbitrary: b)
      case (Cons y ys)
      then show ?case by (cases "x = y") (auto dest: Cons.IH)
    qed simp
    show ?case
    proof (cases "s \<in> set segs")
      case True
      then show ?thesis using Cons.IH [OF lt(2) True Cons.prems(3,4)] by auto
    next
      case False
      then have s: "s = s0" using Cons.prems(2) by simp
      then have "filter (\<lambda>s. sg_first s \<le> a) segs = []"
        using fst_le [OF lt(2)] Cons.prems(4) by (fastforce simp: filter_empty_conv)
      then show ?thesis using s Cons.prems(3) by simp
    qed
  qed simp
  then show ?thesis by (simp add: seg_of_def find_rev)
qed

lemma rec_bytes_nth:
  assumes "reads_sized sz rd" "\<forall>y \<in> set ys. rd y \<noteq> None" "j < length ys"
  shows "take sz (drop (j * sz) (rec_bytes rd ys)) = the (rd (ys ! j))"
  using assms(2,3)
proof (induction ys arbitrary: j)
  case (Cons y ys)
  then have l: "length (the (rd y)) = sz" using assms(1) by (auto simp: reads_sized_def)
  show ?case
  proof (cases j)
    case 0
    then show ?thesis using l by (simp add: rec_bytes_def)
  next
    case (Suc i)
    then show ?thesis using Cons l by (simp add: rec_bytes_def)
  qed
qed simp

lemma host_records_frame:
  assumes "segs_tile first segs stop" "s \<in> set segs" "reads_sized sz rd"
    and ys: "ys = [a..<a + length ys]" "sg_first s \<le> a" "a + length ys \<le> sg_end s" "sg_origin s \<le> sg_first s"
    and r: "\<forall>y \<in> set ys. rd y \<noteq> None"
  shows "host_records sz iv (frame_of rd iv s ys) = map (stored_record rd iv segs) ys"
proof (rule nth_equalityI)
  fix j assume "j < length (host_records sz iv (frame_of rd iv s ys))"
  then have j: "j < length ys" by (simp add: host_records_def frame_of_def)
  have "[a..<a + length ys] ! j = a + j" using j by simp
  moreover have "hd [a..<a + length ys] = a" by (rule hd_upt) (use j in linarith)
  ultimately have y: "ys ! j = a + j" "hd ys = a" using ys(1) by simp_all
  have "seg_of segs (a + j) = s" using ys j by (intro seg_of_tile [OF assms(1,2)]) auto
  moreover have "seg_time iv s a + of_nat j * iv = seg_time iv s (a + j)"
  proof -
    have "a + j - sg_origin s = (a - sg_origin s) + j" using ys(2,4) by simp
    then show ?thesis by (simp add: seg_time_def algebra_simps)
  qed
  ultimately show "host_records sz iv (frame_of rd iv s ys) ! j = map (stored_record rd iv segs) ys ! j"
    using j y rec_bytes_nth [OF assms(3) r j]
    by (simp add: host_records_def frame_of_def stored_record_def)
qed (simp add: host_records_def frame_of_def)

lemma take_run_split:
  "take_run rd k run = (ys, rest) \<Longrightarrow>
   \<exists>skip. run = ys @ skip @ rest \<and> (\<forall>y \<in> set skip. rd y = None) \<and> (\<forall>y \<in> set ys. rd y \<noteq> None) \<and>
     length ys \<le> k"
proof (induction rd k run arbitrary: ys rule: take_run.induct)
  case (2 rd k a as)
  consider "k = 0" | "k \<noteq> 0" "rd a = None" | (go) "k \<noteq> 0" "rd a \<noteq> None" by blast
  then show ?case
  proof cases
    case go
    then obtain ys' where y: "take_run rd (k - 1) as = (ys', rest)" "ys = a # ys'"
      using 2(2) by (auto split: prod.splits)
    obtain skip where "as = ys' @ skip @ rest" "\<forall>y \<in> set skip. rd y = None"
        "\<forall>y \<in> set ys'. rd y \<noteq> None" "length ys' \<le> k - 1"
      using 2(1) [OF go y(1)] by blast
    then show ?thesis using go y(2) by (intro exI [of _ skip]) auto
  qed (use 2(2) in \<open>auto intro: exI [of _ "[]"]\<close>)
qed simp

lemma upt_prefix: "[i..<j] = xs @ ys @ zs \<Longrightarrow>
    ys = [i + length xs..<i + length xs + length ys] \<and> (ys \<noteq> [] \<longrightarrow> i + length xs + length ys \<le> j)"
proof -
  assume e: "[i..<j] = xs @ ys @ zs"
  have "ys = take (length ys) (drop (length xs) [i..<j])" unfolding e by simp
  moreover have "length xs + length ys \<le> j - i" using arg_cong [OF e, of length] by simp
  ultimately have e: "ys = take (length ys) [i + length xs..<j]" "length xs + length ys \<le> j - i" by simp_all
  show ?thesis
  proof (cases "ys = []")
    case False
    then have "0 < length ys" by simp
    then have le: "i + length xs + length ys \<le> j" using e(2) by linarith
    show ?thesis using e(1) le take_upt [OF le] by simp
  qed simp
qed

text \<open>A frame is a run of consecutive readable records of one segment; nothing readable is left out.\<close>

lemma frame_spec_cases:
  assumes "segs_tile first segs stop" "frame_spec rd k q segs a end' = (f, W)" "0 < k"
  obtains (none) "f = no_frame" "W = []" "\<forall>x \<in> set (win_ords q segs a end'). rd x = None"
  | (some) s bad ys skip x where "s \<in> set segs" "f = frame_of rd (q_interval q) s ys" "ys \<noteq> []"
      "win_ords q segs a end' = bad @ ys @ skip @ W" "\<forall>y \<in> set (bad @ skip). rd y = None"
      "\<forall>y \<in> set ys. rd y \<noteq> None" "ys = [x..<x + length ys]" "sg_first s \<le> x"
      "x + length ys \<le> sg_end s" "sg_origin s \<le> sg_first s" "length ys \<le> k"
  using assms(1,2)
proof (induction segs arbitrary: first thesis)
  case (Cons s segs)
  note t = Cons.prems(3)
  let ?run = "win_run q a end' s"
  show ?case
  proof (cases "dropWhile (unreadable rd) ?run")
    case Nil
    then have bad: "\<forall>y \<in> set ?run. rd y = None" by simp
    have fs: "frame_spec rd k q segs a end' = (f, W)" using Cons.prems(4) Nil by simp
    have tl: "segs_tile (sg_end s) segs stop" using t by simp
    show ?thesis
    proof (rule Cons.IH [OF _ _ tl fs], goal_cases)
      case 1
      then show ?case using Cons.prems(1) bad by auto
    next
      case (2 s' ys bad' skip x)
      show ?case
        by (rule Cons.prems(2) [of s' ys "?run @ bad'" skip x]) (use 2 bad in auto)
    qed
  next
    case (Cons b bs)
    obtain ys rest where tk: "take_run rd k (b # bs) = (ys, rest)" by fastforce
    obtain skip where sk: "b # bs = ys @ skip @ rest" "\<forall>y \<in> set skip. rd y = None"
        "\<forall>y \<in> set ys. rd y \<noteq> None" "length ys \<le> k"
      using take_run_split [OF tk] by blast
    have rb: "rd b \<noteq> None" using hd_dropWhile [of "unreadable rd" ?run] Cons by simp
    then have ne: "ys \<noteq> []" using tk assms(3) by (auto split: prod.splits)
    define bad where "bad = takeWhile (unreadable rd) ?run"
    have run: "?run = bad @ ys @ skip @ rest"
      using takeWhile_dropWhile_id [of "unreadable rd" ?run] Cons sk(1) by (simp add: bad_def)
    obtain lo hi where w: "q_window q s = (lo, hi)" by fastforce
    have up: "[max a lo..<min hi end'] = bad @ ys @ skip @ rest" using run by (simp add: win_run_def w)
    note pre = upt_prefix [OF up]
    have le: "sg_first s \<le> sg_end s" using t by simp
    have lohi: "lo < hi" using up ne by (cases "lo < hi") auto
    then have r: "sg_first s \<le> lo" "hi \<le> sg_end s" using seg_window_range [OF le w] by auto
    have b: "\<forall>y \<in> set (bad @ skip). rd y = None" using sk(2) by (auto simp: bad_def dest: set_takeWhileD)
    show ?thesis
    proof (rule Cons.prems(2) [of s ys bad skip "max a lo + length bad"])
      show "f = frame_of rd (q_interval q) s ys" using Cons.prems(4) Cons tk by simp
      show "win_ords q (s # segs) a end' = bad @ ys @ skip @ W" using Cons.prems(4) Cons tk run by simp
    qed (use ne b sk(3,4) pre r t le in auto)
  qed
qed simp

lemma host_empty [simp]: "host_records sz iv no_frame = []"
  by (simp add: host_records_def no_frame_def)

lemma replay_run:
  assumes "0 < sz" "reads_sized sz rd" "\<forall>cap \<in> set caps. sz \<le> cap" "segs_tile first segs stop"
    "first \<le> a" "end' \<le> stop" "length (win_ords q segs a end') \<le> length caps"
  shows "concat (map (host_records sz (q_interval q)) (replay_frames rd sz segs first stop q a end' caps)) =
    map (stored_record rd (q_interval q) segs) (filter (\<lambda>x. rd x \<noteq> None) (win_ords q segs a end'))"
  using assms(3,5,7)
proof (induction caps arbitrary: a)
  case (Cons cap caps)
  obtain f nx where e: "export_locked rd sz segs first stop q cap a end' = (f, nx)" by fastforce
  have cap: "sz \<le> cap" and k: "0 < cap div sz"
    using Cons.prems(1) assms(1) by (auto simp: div_greater_zero_iff)
  obtain W where W: "frame_spec rd (cap div sz) q segs a end' = (f, W)"
    "W = [] \<Longrightarrow> end' \<le> nx" "W \<noteq> [] \<Longrightarrow> nx = hd W \<and> win_ords q segs nx end' = W"
    using export_spec [OF assms(1,2) cap assms(4) Cons.prems(2) assms(6) e] by metis
  from assms(4) W(1) k show ?case
  proof (cases rule: frame_spec_cases)
    case none
    then have "fr_written f = 0" by (simp add: no_frame_def)
    then show ?thesis using none e by (auto simp: filter_empty_conv)
  next
    case (some s bad ys skip x)
    have fr: "host_records sz (q_interval q) f = map (stored_record rd (q_interval q) segs) ys"
      unfolding some(2) using some assms by (intro host_records_frame [of first segs stop s sz rd ys x]) auto
    have w0: "0 < fr_written f" using some(2,3) by (simp add: frame_of_def)
    have filt: "filter (\<lambda>x. rd x \<noteq> None) (win_ords q segs a end') = ys @ filter (\<lambda>x. rd x \<noteq> None) W"
    proof -
      have "filter (\<lambda>x. rd x \<noteq> None) bad = []" "filter (\<lambda>x. rd x \<noteq> None) skip = []"
        using some(5) by (auto simp: filter_empty_conv)
      moreover have "filter (\<lambda>x. rd x \<noteq> None) ys = ys" using some(6) by (simp add: filter_id_conv)
      ultimately show ?thesis by (simp add: some(4))
    qed
    show ?thesis
    proof (cases "W = []")
      case True
      then show ?thesis using W(2) e w0 fr filt by simp
    next
      case False
      then have nx: "nx = hd W" "win_ords q segs nx end' = W" using W(3) [OF False] by blast+
      have "nx \<in> set (win_ords q segs a end')" using nx(1) False some(4) by simp
      then have b: "nx < end'" "first \<le> nx" using win_ords_set [OF assms(4)] by blast+
      have "length W \<le> length caps" using Cons.prems(3) some(3,4) by (cases ys) auto
      then have "concat (map (host_records sz (q_interval q)) (replay_frames rd sz segs first stop q nx end' caps)) =
          map (stored_record rd (q_interval q) segs) (filter (\<lambda>x. rd x \<noteq> None) W)"
        using Cons.IH [of nx] Cons.prems(1) b(2) nx(2) by simp
      then show ?thesis using e w0 fr filt b(1) by simp
    qed
  qed
qed simp

text \<open>
  C18: A replay over any ring, with whatever capacity each frame has, gives the host every readable
  in-window record exactly once, in order, each with its bytes, time and clock: frames never leave a gap
  inside, never cross a segment, and an unreadable record costs only itself.
\<close>

theorem replay_frames_run:
  assumes "0 < sz" "reads_sized sz rd" "\<forall>cap \<in> set caps. sz \<le> cap" "segs_tile first segs stop"
    "first \<le> a" "end' \<le> stop" "length (win_ords q segs a end') \<le> length caps"
  shows "concat (map (host_records sz (q_interval q)) (replay_frames rd sz segs first stop q a end' caps)) =
    map (stored_record rd (q_interval q) segs) (filter (\<lambda>x. rd x \<noteq> None) (win_ords q segs a end'))"
  using assms by (rule replay_run)

text \<open>A ring of two segments whose record \<open>11\<close> cannot be read.\<close>

definition demo_segs :: "hist_seg list" where
  "demo_segs = [\<lparr>sg_origin = 9, sg_first = 10, sg_end = 13, sg_base = 1000, sg_synced = True, sg_cur_boot = True\<rparr>,
     \<lparr>sg_origin = 13, sg_first = 13, sg_end = 15, sg_base = 9000, sg_synced = True, sg_cur_boot = True\<rparr>]"

definition demo_read :: "nat \<Rightarrow> bytes option" where
  "demo_read a = (if a = 11 then None else Some [of_nat a, 1])"

definition demo_query :: hist_query where
  "demo_query = \<lparr>q_interval = 60, q_from = 1060, q_to = 9000, q_unsynced = False\<rparr>"

lemma demo_reads: "reads_sized 2 demo_read"
  by (simp add: reads_sized_def demo_read_def)

lemma replay_frames_run_witness:
  "concat (map (host_records 2 60) (replay_frames demo_read 2 demo_segs 10 15 demo_query 10 15 [2, 5, 9, 4])) =
   map (stored_record demo_read 60 demo_segs)
     (filter (\<lambda>x. demo_read x \<noteq> None) (win_ords demo_query demo_segs 10 15))"
proof -
  have "length (win_ords demo_query demo_segs 10 15) \<le> length [2, 5, 9, 4 :: nat]" by code_simp
  moreover have "segs_tile 10 demo_segs 15" by code_simp
  ultimately show ?thesis
    using replay_frames_run [OF _ demo_reads, of "[2, 5, 9, 4]" 10 demo_segs 15 10 15 demo_query]
    by (simp add: demo_query_def)
qed

end
