(* ===== verification/HistCount.thy ===== *)
theory HistCount
  imports HistExport
begin

text \<open>
  The frame count a replay announces (\<open>app_history_count_frames\<close>) against the frames it sends
  (\<open>replay_frames\<close>), for a constant frame capacity.
\<close>

definition ceil_div :: "nat \<Rightarrow> nat \<Rightarrow> nat" where
  "ceil_div n k = (n + k - 1) div k"

definition frames_left :: "nat \<Rightarrow> hist_query \<Rightarrow> hist_seg list \<Rightarrow> nat \<Rightarrow> nat \<Rightarrow> nat" where
  "frames_left k q segs a end' = sum_list (map (\<lambda>s. ceil_div (length (win_run q a end' s)) k) segs)"

lemma frames_left_simps [simp]:
  "frames_left k q [] a end' = 0"
  "frames_left k q (s # segs) a end' = ceil_div (length (win_run q a end' s)) k + frames_left k q segs a end'"
  by (simp_all add: frames_left_def)

lemma ceil_div_0 [simp]: "ceil_div 0 k = 0"
  by (cases k) (simp_all add: ceil_div_def)

lemma ceil_div_step: "0 < k \<Longrightarrow> 0 < n \<Longrightarrow> ceil_div n k = Suc (ceil_div (n - k) k)"
proof (cases "k \<le> n")
  case True
  assume "0 < k"
  obtain m where n: "n = m + k" using True by (metis add.commute le_Suc_ex)
  have "m + k + k - 1 = (m + k - 1) + k" using \<open>0 < k\<close> by simp
  then have "(m + k + k - 1) div k = ((m + k - 1) + k) div k" by (rule arg_cong)
  also have "\<dots> = Suc ((m + k - 1) div k)" 
    using div_add_self2 [of k "m + k - 1"] \<open>0 < k\<close> by (simp del: add_diff_assoc2)
  finally show ?thesis by (simp add: ceil_div_def n)
next
  case False
  assume a: "0 < k" "0 < n"
  then obtain m where n: "n = Suc m" by (cases n) auto
  have "ceil_div n k = Suc (m div k)" using a div_add_self2 [of k m] by (simp add: ceil_div_def n)
  then have "ceil_div n k = Suc ((n - 1) div k)" by (simp add: n)
  then show ?thesis using False a by simp
qed

lemma win_run_later: "a \<le> a' \<Longrightarrow> win_run q a' end' s = filter (\<lambda>x. a' \<le> x) (win_run q a end' s)"
  using win_ords_later [of a a' q "[s]" end'] by simp

lemma frames_left_later:
  "a \<le> a' \<Longrightarrow> \<forall>y \<in> set (win_ords q segs a end'). a' \<le> y \<Longrightarrow>
   frames_left k q segs a' end' = frames_left k q segs a end'"
proof (induction segs)
  case (Cons s segs)
  then have "win_run q a' end' s = win_run q a end' s"
    by (subst win_run_later [OF Cons.prems(1)]) (simp add: filter_id_conv)
  with Cons show ?case by simp
qed simp

lemma frames_left_none: "win_ords q segs a end' = [] \<Longrightarrow> frames_left k q segs a end' = 0"
  by (induction segs) simp_all

lemma take_run_readable: "\<forall>y \<in> set run. rd y \<noteq> None \<Longrightarrow> take_run rd k run = (take k run, drop k run)"
proof (induction run arbitrary: k)
  case (Cons y run)
  then show ?case by (cases k) auto
qed simp

lemma frame_spec_count:
  assumes "0 < k"
  shows "segs_tile first segs stop \<Longrightarrow> \<forall>y \<in> set (win_ords q segs a end'). rd y \<noteq> None \<Longrightarrow>
    frame_spec rd k q segs a end' = (f, W) \<Longrightarrow>
    frames_left k q segs a end' =
      (if fr_written f = 0 then 0 else Suc (if W = [] then 0 else frames_left k q segs (hd W) end'))"
proof (induction segs arbitrary: first)
  case (Cons s segs)
  let ?run = "win_run q a end' s"
  have t: "sg_first s \<le> sg_end s" "segs_tile (sg_end s) segs stop" using Cons.prems(1) by auto
  have rd: "\<forall>y \<in> set ?run. rd y \<noteq> None" "\<forall>y \<in> set (win_ords q segs a end'). rd y \<noteq> None"
    using Cons.prems(2) by simp_all
  then have dw: "dropWhile (unreadable rd) ?run = ?run" by (cases ?run) auto
  show ?case
  proof (cases "?run = []")
    case True
    then have fs: "frame_spec rd k q segs a end' = (f, W)" using Cons.prems(3) by simp
    have "ceil_div (length (win_run q (hd W) end' s)) k = 0" if "W \<noteq> []"
    proof -
      have "hd W \<in> set (win_ords q segs a end')"
        using frame_spec_cases [OF t(2) fs assms] that
        by (metis UnI2 hd_in_set set_append)
      then have "a \<le> hd W" using win_ords_set [OF t(2)] by blast
      then show ?thesis using win_run_later [of a "hd W" q end' s] True by simp
    qed
    then show ?thesis using True Cons.IH [OF t(2) rd(2) fs] by simp
  next
    case False
    then obtain b bs where run: "?run = b # bs" by (cases ?run) auto
    have "take_run rd k (b # bs) = (take k ?run, drop k ?run)"
      using take_run_readable [of ?run rd k] rd(1) run by simp
    then have fW: "f = frame_of rd (q_interval q) s (take k ?run)" "W = drop k ?run @ win_ords q segs a end'"
      using Cons.prems(3) dw run by simp_all
    have w: "0 < fr_written f" using fW(1) assms run by (simp add: frame_of_def)
    have c: "ceil_div (length ?run) k = Suc (ceil_div (length (drop k ?run)) k)"
      using ceil_div_step [OF assms, of "length ?run"] run by simp
    have srt: "sorted_wrt (<) ?run" by (simp add: win_run_def split: prod.split)
    have srt2: "sorted_wrt (<) (win_ords q segs a end')" by (rule sorted_win_ords [OF t(2)])
    have later: "y < z" if "y \<in> set ?run" "z \<in> set (win_ords q segs a end')" for y z
      using win_run_set(3) [OF t(1) that(1)] win_ords_set [OF t(2) that(2)] by linarith
    have next': "frames_left k q (s # segs) (hd W) end' =
        ceil_div (length (drop k ?run)) k + frames_left k q segs a end'" if ne: "W \<noteq> []"
    proof -
      let ?x = "hd W"
      have x: "?x \<in> set ?run \<or> ?x \<in> set (win_ords q segs a end')"
        using ne fW(2) by (metis UnE hd_in_set set_append in_set_dropD)
      then have ax: "a \<le> ?x" using win_run_set(1) [OF t(1)] win_ords_set [OF t(2)] by blast
      have srtW: "sorted_wrt (<) W"
        using srt srt2 later in_set_dropD by (fastforce simp: fW(2) sorted_wrt_append sorted_wrt_drop)
      then have minW: "\<forall>y \<in> set W. ?x \<le> y" using ne by (cases W) (auto simp: less_imp_le)
      have pre: "y < ?x" if "y \<in> set (take k ?run)" for y
      proof (cases "drop k ?run = []")
        case True
        then have "?x \<in> set (win_ords q segs a end')" using ne fW(2) by simp
        then show ?thesis using later that in_set_takeD by metis
      next
        case False
        then have "?x \<in> set (drop k ?run)" using fW(2) by simp
        moreover have "sorted_wrt (<) (take k ?run @ drop k ?run)" using srt by simp
        ultimately show ?thesis using that unfolding sorted_wrt_append by blast
      qed
      have "win_run q ?x end' s = filter (\<lambda>y. ?x \<le> y) (take k ?run @ drop k ?run)"
        using win_run_later [OF ax] by simp
      also have "\<dots> = drop k ?run"
        using pre minW fW(2) by (fastforce simp del: append_take_drop_id simp: filter_empty_conv filter_id_conv)
      finally have "win_run q ?x end' s = drop k ?run" .
      moreover have "frames_left k q segs ?x end' = frames_left k q segs a end'"
        using minW fW(2) by (intro frames_left_later [OF ax]) simp
      ultimately show ?thesis by simp
    qed
    show ?thesis
    proof (cases "W = []")
      case True
      then have "drop k ?run = []" "win_ords q segs a end' = []" using fW(2) by simp_all
      then show ?thesis using True w c frames_left_none [of q segs a end' k] by simp
    next
      case False
      then show ?thesis using next' [OF False] w c by simp
    qed
  qed
qed (auto simp: no_frame_def)

lemma replay_frame_count:
  assumes "0 < sz" "reads_sized sz rd" "sz \<le> cap" "segs_tile first segs stop" "end' \<le> stop"
  shows "first \<le> a \<Longrightarrow> \<forall>y \<in> set (win_ords q segs a end'). rd y \<noteq> None \<Longrightarrow>
    length (win_ords q segs a end') \<le> n \<Longrightarrow>
    length (replay_frames rd sz segs first stop q a end' (replicate n cap)) =
      frames_left (cap div sz) q segs a end'"
proof (induction n arbitrary: a)
  case 0
  then show ?case by (simp add: frames_left_none)
next
  case (Suc n)
  obtain f nx where e: "export_locked rd sz segs first stop q cap a end' = (f, nx)" by fastforce
  have k: "0 < cap div sz" using assms(1,3) by (auto simp: div_greater_zero_iff)
  obtain W where W: "frame_spec rd (cap div sz) q segs a end' = (f, W)"
    "W = [] \<Longrightarrow> end' \<le> nx" "W \<noteq> [] \<Longrightarrow> nx = hd W \<and> win_ords q segs nx end' = W"
    using export_spec [OF assms(1,2,3,4) Suc.prems(1) assms(5) e] by metis
  note cnt = frame_spec_count [OF k assms(4) Suc.prems(2) W(1)]
  from assms(4) W(1) k show ?case
  proof (cases rule: frame_spec_cases)
    case none
    then have "fr_written f = 0" by (simp add: no_frame_def)
    then show ?thesis using cnt e by simp
  next
    case (some s bad ys skip x)
    have w0: "0 < fr_written f" using some(2,3) by (simp add: frame_of_def)
    show ?thesis
    proof (cases "W = []")
      case True
      then show ?thesis using W(2) e w0 cnt by simp
    next
      case False
      then have nx: "nx = hd W" "win_ords q segs nx end' = W" using W(3) [OF False] by blast+
      have sub: "set W \<subseteq> set (win_ords q segs a end')" using some(4) by auto
      have "nx \<in> set (win_ords q segs a end')" using nx(1) False sub by auto
      then have b: "nx < end'" "first \<le> nx" using win_ords_set [OF assms(4)] by blast+
      have "length W \<le> n" using Suc.prems(3) some(3,4) by (cases ys) auto
      then have "length (replay_frames rd sz segs first stop q nx end' (replicate n cap)) =
          frames_left (cap div sz) q segs nx end'"
        using Suc.prems(2) sub by (intro Suc.IH b(2)) (auto simp: nx(2))
      then show ?thesis using e w0 cnt b(1) False nx(1) by simp
    qed
  qed
qed

lemma count_frames_left:
  assumes "segs_tile first segs stop" "0 < sz" "sz \<le> cap"
  shows "count_frames sz segs q cap = min (frames_left (cap div sz) q segs first stop) 65535"
proof -
  have "(case q_window q s of (lo, hi) \<Rightarrow> (hi - lo + cap div sz - 1) div (cap div sz)) =
      ceil_div (length (win_run q first stop s)) (cap div sz)" if "s \<in> set segs" for s
  proof -
    have "first \<le> sg_first s \<and> sg_first s \<le> sg_end s \<and> sg_end s \<le> stop"
      using assms(1) that
    proof (induction segs arbitrary: first)
      case (Cons s0 segs)
      then show ?case using segs_tile_le by (cases "s = s0") fastforce+
    qed simp
    then have le: "first \<le> sg_first s" "sg_first s \<le> sg_end s" "sg_end s \<le> stop" by simp_all
    obtain lo hi where w: "q_window q s = (lo, hi)" by fastforce
    note r = seg_window_range [OF le(2) w]
    have "length (win_run q first stop s) = hi - lo"
      using r le by (cases "lo < hi") (auto simp: win_run_def w)
    then show ?thesis by (simp add: w ceil_div_def)
  qed
  then have "map (\<lambda>s. case q_window q s of (lo, hi) \<Rightarrow> (hi - lo + cap div sz - 1) div (cap div sz)) segs =
      map (\<lambda>s. ceil_div (length (win_run q first stop s)) (cap div sz)) segs" by simp
  moreover have "\<not> (sz = 0 \<or> cap < sz)" using assms(2,3) by simp
  ultimately show ?thesis unfolding count_frames_def frames_left_def Let_def by (simp only: if_False)
qed



end
