(* ===== verification/History.thy ===== *)
theory History
  imports HistCount
begin

text \<open>
  The upper layer of the history (\<open>app/src/app_history.c\<close>): the module state, the capture of a
  record on its slot, the clock sync, the restart on a layout change, and the readers. The storage
  backend is a record of its functions (\<open>hist_ops\<close>); \<open>ram_ops\<close> is the RAM ring. A function that reads
  the clock takes what \<open>now_seconds\<close> returns, one that reads the sensors takes the snapshot.
\<close>

unbundle bit_operations_syntax

subsection \<open>State\<close>

text \<open>What the backend reads of the upper layer's globals.\<close>

record hist_env =
  he_sample_size :: nat
  he_layout :: u32
  he_interval :: u32
  he_replay :: bool

record 'r hist_ops =
  b_flash :: bool
  b_ready :: "'r \<Rightarrow> bool"
  b_init :: "'r \<Rightarrow> bool \<times> 'r"
  b_capacity :: "nat \<Rightarrow> 'r \<Rightarrow> nat"
  b_mount :: "hist_env \<Rightarrow> 'r \<Rightarrow> bool \<times> u32 option \<times> 'r"
  b_append :: "hist_env \<Rightarrow> bytes \<Rightarrow> u32 \<Rightarrow> bool \<Rightarrow> bool \<Rightarrow> 'r \<Rightarrow> nat res \<times> 'r"
  b_read :: "hist_env \<Rightarrow> 'r \<Rightarrow> nat \<Rightarrow> bytes option"
  b_stored :: "'r \<Rightarrow> nat"
  b_first_abs :: "'r \<Rightarrow> nat"
  b_segs :: "'r \<Rightarrow> hist_seg list"
  b_seg_sync :: "nat \<Rightarrow> u32 \<Rightarrow> 'r \<Rightarrow> bool \<times> 'r"
  b_flush_fixups :: "'r \<Rightarrow> 'r"
  b_reset_logical :: "'r \<Rightarrow> 'r"
  b_erase :: "'r \<Rightarrow> 'r"

definition ram_ops :: "ram_ring hist_ops" where
  "ram_ops = \<lparr>b_flash = False, b_ready = (\<lambda>r. True), b_init = (\<lambda>r. (True, r)),
     b_capacity = ram_capacity, b_mount = (\<lambda>env r. (False, None, snd (ram_mount r))),
     b_append = (\<lambda>env. ram_append (he_sample_size env)),
     b_read = (\<lambda>env. ram_read (he_sample_size env)),
     b_stored = ram_stored, b_first_abs = ram_first_abs, b_segs = ram_segs,
     b_seg_sync = ram_seg_sync, b_flush_fixups = (\<lambda>r. r),
     b_reset_logical = ram_reset_logical, b_erase = ram_erase\<rparr>"

record 'r history =
  m_enabled :: bool
  m_list :: "u8 list"
  m_cols :: "hist_col list"
  m_w1_types :: "u8 list"
  m_layout :: u32
  m_memo :: pulse_memo
  m_sample_size :: nat
  m_capacity :: nat
  m_count :: nat
  m_interval :: u32
  m_replay_active :: bool
  m_remount_pending :: bool
  m_ring :: 'r

definition env_of :: "'r history \<Rightarrow> hist_env" where
  "env_of h = \<lparr>he_sample_size = m_sample_size h, he_layout = m_layout h,
     he_interval = m_interval h, he_replay = m_replay_active h\<rparr>"

subsection \<open>Layout\<close>

definition layout_build ::
    "'r hist_ops \<Rightarrow> (u32 \<Rightarrow> bytes \<Rightarrow> u32) \<Rightarrow> app_config \<Rightarrow> 'r history \<Rightarrow> bool \<times> 'r history" where
  "layout_build ops crc32 g h =
     (let (cols, crc) = layout_cols crc32 g (m_list h);
          size = cols_size cols;
          changed = (length cols \<noteq> length (m_cols h) \<or> crc \<noteq> m_layout h \<or> size \<noteq> m_sample_size h)
      in (changed, h\<lparr>m_cols := cols, m_layout := crc, m_sample_size := size,
            m_w1_types := map (\<lambda>s. hist_slot_type g (of_nat (Suc s))) [0..<APP_W1_SLOT_COUNT],
            m_memo := (if changed then (m_memo h)\<lparr>pulses_known := 0\<rparr> else m_memo h),
            m_capacity := (if size \<noteq> 0 then b_capacity ops size (m_ring h) else 0)\<rparr>))"

definition layout_reset :: "'r hist_ops \<Rightarrow> 'r history \<Rightarrow> 'r history" where
  "layout_reset ops h = h\<lparr>m_count := 0, m_ring := b_reset_logical ops (m_ring h)\<rparr>"

subsection \<open>Capture\<close>

text \<open>\<open>head_next_time\<close>: the time of the next record on the newest segment's grid.\<close>

definition head_next_time :: "'r hist_ops \<Rightarrow> 'r history \<Rightarrow> (u32 \<times> bool) option" where
  "head_next_time ops h =
     (let segs = b_segs ops (m_ring h)
      in if segs = [] then None
         else let s = last segs
              in if \<not> sg_cur_boot s then None
                 else Some (seg_time (m_interval h) s (sg_end s), sg_synced s))"

definition slot_continues :: "u32 \<Rightarrow> u32 \<Rightarrow> bool \<Rightarrow> u32 \<Rightarrow> bool \<Rightarrow> bool" where
  "slot_continues interval nxt next_synced slot slot_synced =
     (if next_synced \<noteq> slot_synced then False
      else let d = sint (slot - nxt); half = sint (interval div 2)
           in - half \<le> d \<and> d \<le> half)"

text \<open>The base of a new segment and whether the record must open one.\<close>

definition record_base ::
    "u32 \<Rightarrow> (u32 \<times> bool) option \<Rightarrow> (u32 \<times> bool) option \<Rightarrow> u32 \<times> bool \<Rightarrow> u32 \<times> bool \<times> bool" where
  "record_base interval slot cont now =
     (case slot of
        Some (slot, slot_synced) \<Rightarrow>
          (slot, slot_synced,
           case cont of None \<Rightarrow> False
           | Some (nxt, next_synced) \<Rightarrow> \<not> slot_continues interval nxt next_synced slot slot_synced)
      | None \<Rightarrow> (case cont of Some (nxt, next_synced) \<Rightarrow> (nxt, next_synced, False)
                 | None \<Rightarrow> (fst now, snd now, False)))"

text \<open>The layout check of the first capture after init: mount again when the layout moved.\<close>

definition capture_remount ::
    "'r hist_ops \<Rightarrow> (u32 \<Rightarrow> bytes \<Rightarrow> u32) \<Rightarrow> app_config \<Rightarrow> 'r history \<Rightarrow> 'r history" where
  "capture_remount ops crc32 g h =
     (if \<not> m_remount_pending h then h
      else case layout_build ops crc32 g (h\<lparr>m_remount_pending := False\<rparr>) of (changed, h) \<Rightarrow>
        if \<not> changed then h
        else if b_flash ops \<and> \<not> m_replay_active h
        then (case b_mount ops (env_of h) (m_ring h) of
                (found, iv, r) \<Rightarrow>
                  let h = h\<lparr>m_ring := r, m_interval := (case iv of Some i \<Rightarrow> i | None \<Rightarrow> m_interval h)\<rparr>
                  in if found then h\<lparr>m_count := b_stored ops r\<rparr> else layout_reset ops h)
        else layout_reset ops h)"

definition capture_interval :: "'r hist_ops \<Rightarrow> app_config \<Rightarrow> 'r history \<Rightarrow> 'r history" where
  "capture_interval ops g h =
     (if m_interval h \<noteq> word_of_int (interval_report g)
      then h\<lparr>m_interval := word_of_int (interval_report g),
             m_ring := b_reset_logical ops (m_ring h), m_count := 0\<rparr>
      else h)"

definition capture_layout ::
    "'r hist_ops \<Rightarrow> (u32 \<Rightarrow> bytes \<Rightarrow> u32) \<Rightarrow> app_config \<Rightarrow> 'r history \<Rightarrow> 'r history" where
  "capture_layout ops crc32 g h =
     (case layout_build ops crc32 g h of (changed, h) \<Rightarrow> if changed then layout_reset ops h else h)"

definition capture_append ::
    "'r hist_ops \<Rightarrow> app_sensor_data \<Rightarrow> u32 \<times> bool \<Rightarrow> (u32 \<times> bool) option \<Rightarrow> 'r history \<Rightarrow> 'r history" where
  "capture_append ops d now slot h =
     (case encode_record d (m_cols h) 0 (m_memo h) of (rec, memo) \<Rightarrow>
      case record_base (m_interval h) slot (head_next_time ops h) now of (base, synced, split) \<Rightarrow>
      case b_append ops (env_of h) rec base synced split (m_ring h) of (ret, r) \<Rightarrow>
        h\<lparr>m_memo := memo, m_ring := r, m_count := b_stored ops r\<rparr>)"

definition capture ::
    "'r hist_ops \<Rightarrow> (u32 \<Rightarrow> bytes \<Rightarrow> u32) \<Rightarrow> app_config \<Rightarrow> app_sensor_data \<Rightarrow> u32 \<times> bool
     \<Rightarrow> (u32 \<times> bool) option \<Rightarrow> 'r history \<Rightarrow> 'r history" where
  "capture ops crc32 g d now slot h =
     (if \<not> m_enabled h \<or> \<not> b_ready ops (m_ring h) then h
      else
        let h = h\<lparr>m_ring := b_flush_fixups ops (m_ring h)\<rparr>;
            h = capture_remount ops crc32 g h;
            h = capture_interval ops g h;
            h = capture_layout ops crc32 g h
        in if m_sample_size h = 0 \<or> m_capacity h = 0 then h
           else capture_append ops d now slot h)"

subsection \<open>Clock sync\<close>

text \<open>Re-base the segments \<open>i, i+1, \<dots>\<close> of this boot that are still on the uptime clock; the
  flag tells that the flash has fix-ups to write.\<close>

fun sync_segs :: "'r hist_ops \<Rightarrow> u32 \<Rightarrow> nat \<Rightarrow> nat \<Rightarrow> 'r \<Rightarrow> bool \<times> 'r" where
  "sync_segs ops off i 0 r = (False, r)"
| "sync_segs ops off i (Suc n) r =
     (let s = b_segs ops r ! i;
          (p, r1) = (if \<not> sg_synced s \<and> sg_cur_boot s then b_seg_sync ops i off r else (False, r));
          (p', r2) = sync_segs ops off (Suc i) n r1
      in (p \<or> p', r2))"

definition app_history_on_clock_sync ::
    "'r hist_ops \<Rightarrow> u32 \<Rightarrow> u32 \<Rightarrow> 'r history \<Rightarrow> bool \<times> 'r history" where
  "app_history_on_clock_sync ops unix_now uptime_s h =
     (let (pending, r) = sync_segs ops (unix_now - uptime_s) 0 (length (b_segs ops (m_ring h))) (m_ring h)
      in (pending, h\<lparr>m_ring := r\<rparr>))"

definition fixup_work_handler :: "'r hist_ops \<Rightarrow> 'r history \<Rightarrow> 'r history" where
  "fixup_work_handler ops h = h\<lparr>m_ring := b_flush_fixups ops (m_ring h)\<rparr>"

subsection \<open>The other operations\<close>

definition app_history_clear :: "'r hist_ops \<Rightarrow> 'r history \<Rightarrow> 'r history" where
  "app_history_clear ops h =
     h\<lparr>m_ring := b_erase ops (m_ring h), m_count := 0, m_remount_pending := False\<rparr>"

definition app_history_set_enabled :: "bool \<Rightarrow> 'r history \<Rightarrow> 'r history" where
  "app_history_set_enabled b h = h\<lparr>m_enabled := b\<rparr>"

definition app_history_set_replay_active :: "bool \<Rightarrow> 'r history \<Rightarrow> 'r history" where
  "app_history_set_replay_active b h = h\<lparr>m_replay_active := b\<rparr>"

definition app_history_set_channels ::
    "'r hist_ops \<Rightarrow> (u32 \<Rightarrow> bytes \<Rightarrow> u32) \<Rightarrow> app_config \<Rightarrow> u8 list \<Rightarrow> 'r history \<Rightarrow> 'r history" where
  "app_history_set_channels ops crc32 g sel h =
     (let h = h\<lparr>m_list := take APP_HISTORY_MAX_CH (sel @ replicate APP_HISTORY_MAX_CH APP_HISTORY_ENTRY_UNUSED),
                m_remount_pending := False\<rparr>
      in case layout_build ops crc32 g h of (changed, h) \<Rightarrow> if changed then layout_reset ops h else h)"

definition app_history_init ::
    "'r hist_ops \<Rightarrow> (u32 \<Rightarrow> bytes \<Rightarrow> u32) \<Rightarrow> app_config \<Rightarrow> 'r history \<Rightarrow> bool \<times> 'r history" where
  "app_history_init ops crc32 g h =
     (let h = h\<lparr>m_enabled := history_enable g, m_list := history_channels g\<rparr>
      in case b_init ops (m_ring h) of (ready, r) \<Rightarrow>
         if \<not> ready then (False, h\<lparr>m_ring := r, m_capacity := 0\<rparr>)
         else case layout_build ops crc32 g (h\<lparr>m_ring := r\<rparr>) of (_, h) \<Rightarrow>
           case b_mount ops (env_of h) (m_ring h) of
             (found, iv, r) \<Rightarrow>
               if found
               then (True, h\<lparr>m_ring := r, m_interval := (case iv of Some i \<Rightarrow> i | None \<Rightarrow> m_interval h),
                       m_count := b_stored ops r, m_remount_pending := True\<rparr>)
               else (True, h\<lparr>m_ring := r, m_count := 0, m_interval := 0, m_remount_pending := True\<rparr>))"

definition app_history_span :: "'r hist_ops \<Rightarrow> 'r history \<Rightarrow> nat \<times> nat" where
  "app_history_span ops h = (b_first_abs ops (m_ring h), b_first_abs ops (m_ring h) + m_count h)"

record history_record =
  hr_time :: u32
  hr_synced :: bool
  hr_value :: "int option list"

definition app_history_get :: "'r hist_ops \<Rightarrow> nat \<Rightarrow> 'r history \<Rightarrow> history_record res" where
  "app_history_get ops idx h =
     (if m_count h \<le> idx then Inl ENOENT
      else let a = b_first_abs ops (m_ring h) + idx; s = seg_of (b_segs ops (m_ring h)) a
           in case b_read ops (env_of h) (m_ring h) a of
                None \<Rightarrow> Inl EIO
              | Some rec \<Rightarrow> Inr \<lparr>hr_time = seg_time (m_interval h) s a, hr_synced = sg_synced s,
                                 hr_value = decode_record (m_cols h) rec\<rparr>)"

definition app_history_export_abs ::
    "'r hist_ops \<Rightarrow> bool \<Rightarrow> u32 \<Rightarrow> u32 \<Rightarrow> nat \<Rightarrow> nat \<Rightarrow> nat \<Rightarrow> 'r history \<Rightarrow> hist_frame \<times> nat" where
  "app_history_export_abs ops rtc from_unix to_unix start_abs end_abs cap h =
     export_locked (b_read ops (env_of h) (m_ring h)) (m_sample_size h) (b_segs ops (m_ring h))
       (b_first_abs ops (m_ring h)) (b_first_abs ops (m_ring h) + m_count h)
       \<lparr>q_interval = m_interval h, q_from = from_unix, q_to = to_unix,
        q_unsynced = window_takes_unsynced rtc from_unix to_unix\<rparr> cap start_abs end_abs"

definition app_history_count_frames ::
    "'r hist_ops \<Rightarrow> bool \<Rightarrow> u32 \<Rightarrow> u32 \<Rightarrow> nat \<Rightarrow> 'r history \<Rightarrow> nat" where
  "app_history_count_frames ops rtc from_unix to_unix cap h =
     count_frames (m_sample_size h) (b_segs ops (m_ring h))
       \<lparr>q_interval = m_interval h, q_from = from_unix, q_to = to_unix,
        q_unsynced = window_takes_unsynced rtc from_unix to_unix\<rparr> cap"

definition app_history_entry_available :: "app_config \<Rightarrow> u8 \<Rightarrow> bool" where
  "app_history_entry_available g entry \<longleftrightarrow> entry_channel g entry \<noteq> None"

end
