(* ===== verification/FlashRing.thy ===== *)
theory FlashRing
  imports History
begin

text \<open>
  The flash storage backend of the history (\<open>app/src/app_history.c\<close>,
  \<open>CONFIG_APP_HISTORY_FLASH\<close>): a ring of 2 KB pages, each with a header and a stream of 8-byte double
  words that carry seven data bytes and a frame byte. The flash device is Zephyr's \<open>flash_area_*\<close> and the
  CRC its \<open>crc16_ccitt\<close>: both are parameters; what is relied on of the device is \<open>flash_laws\<close>.
  \<open>FIXED_PARTITION_SIZE\<close> is the 32 KB of \<open>sticker.dts\<close>, so there are sixteen pages.
\<close>

unbundle bit_operations_syntax

subsection \<open>The device\<close>

record 'f flash_dev =
  fd_read :: "'f \<Rightarrow> nat \<Rightarrow> nat \<Rightarrow> bytes option"
  fd_write :: "nat \<Rightarrow> bytes \<Rightarrow> 'f \<Rightarrow> errno option \<times> 'f"
  fd_erase :: "nat \<Rightarrow> nat \<Rightarrow> 'f \<Rightarrow> errno option \<times> 'f"

definition PAGE_MAGIC_V1 :: u32 where "PAGE_MAGIC_V1 = 0x48524e47"
definition PAGE_MAGIC_V2 :: u32 where "PAGE_MAGIC_V2 = 0x48524e32"
definition PAGE_SIZE :: nat where "PAGE_SIZE = 2048"
definition DW_SIZE :: nat where "DW_SIZE = 8"
definition DW_DATA :: nat where "DW_DATA = 7"
definition FRAME_BYTE :: u8 where "FRAME_BYTE = 0xA5"
definition ERASED_BYTE :: u8 where "ERASED_BYTE = 0xFF"
definition FIXUP_MARK :: u8 where "FIXUP_MARK = 0x5A"
definition HIST_HDR_SIZE :: nat where "HIST_HDR_SIZE = 32"
definition HIST_HDR_SIZE_V2 :: nat where "HIST_HDR_SIZE_V2 = HIST_HDR_SIZE + DW_SIZE"
definition PAYLOAD_DW_V1 :: nat where "PAYLOAD_DW_V1 = (PAGE_SIZE - HIST_HDR_SIZE) div DW_SIZE"
definition PAYLOAD_DW_V2 :: nat where "PAYLOAD_DW_V2 = (PAGE_SIZE - HIST_HDR_SIZE_V2) div DW_SIZE"
definition PAGE_DATA_V1 :: nat where "PAGE_DATA_V1 = PAYLOAD_DW_V1 * DW_DATA"
definition PAGE_DATA_V2 :: nat where "PAGE_DATA_V2 = PAYLOAD_DW_V2 * DW_DATA"
definition HIST_NPAGES :: nat where "HIST_NPAGES = 32768 div PAGE_SIZE"

lemmas page_consts = PAGE_SIZE_def DW_SIZE_def DW_DATA_def HIST_HDR_SIZE_def HIST_HDR_SIZE_V2_def
  PAYLOAD_DW_V1_def PAYLOAD_DW_V2_def PAGE_DATA_V1_def PAGE_DATA_V2_def HIST_NPAGES_def

subsection \<open>Headers\<close>

record hist_page_hdr =
  ph_magic :: u32
  ph_seq :: u32
  ph_layout :: u32
  ph_interval :: u32
  ph_base_time :: u32
  ph_first_ord :: u32
  ph_sample_size :: u16
  ph_base_synced :: u8
  ph_rsv :: u8
  ph_crc :: u16
  ph_rsv2 :: u16

text \<open>The packed little-endian structure.\<close>

definition hdr_bytes :: "hist_page_hdr \<Rightarrow> bytes" where
  "hdr_bytes h = put_le32 (ph_magic h) @ put_le32 (ph_seq h) @ put_le32 (ph_layout h) @
     put_le32 (ph_interval h) @ put_le32 (ph_base_time h) @ put_le32 (ph_first_ord h) @
     put_le16 (ph_sample_size h) @ [ph_base_synced h, ph_rsv h] @ put_le16 (ph_crc h) @ put_le16 (ph_rsv2 h)"

definition hdr_parse :: "bytes \<Rightarrow> hist_page_hdr" where
  "hdr_parse b = \<lparr>ph_magic = get_le32 b, ph_seq = get_le32 (drop 4 b), ph_layout = get_le32 (drop 8 b),
     ph_interval = get_le32 (drop 12 b), ph_base_time = get_le32 (drop 16 b),
     ph_first_ord = get_le32 (drop 20 b), ph_sample_size = get_le16 (drop 24 b),
     ph_base_synced = b ! 26, ph_rsv = b ! 27, ph_crc = get_le16 (drop 28 b), ph_rsv2 = get_le16 (drop 30 b)\<rparr>"

type_synonym crc16 = "u16 \<Rightarrow> bytes \<Rightarrow> u16"

definition hdr_crc_set :: "crc16 \<Rightarrow> hist_page_hdr \<Rightarrow> hist_page_hdr" where
  "hdr_crc_set crc16 h = h\<lparr>ph_crc := crc16 0xFFFF (take 28 (hdr_bytes h))\<rparr>"

definition hdr_valid :: "crc16 \<Rightarrow> hist_page_hdr \<Rightarrow> bool" where
  "hdr_valid crc16 h =
     (if ph_magic h \<noteq> PAGE_MAGIC_V1 \<and> ph_magic h \<noteq> PAGE_MAGIC_V2 then False
      else crc16 0xFFFF (take 28 (hdr_bytes h)) = ph_crc h)"

definition page_off :: "nat \<Rightarrow> nat" where
  "page_off phys = phys * PAGE_SIZE"

definition records_per_page :: "nat \<Rightarrow> nat" where
  "records_per_page sample_size = (if sample_size \<noteq> 0 then PAGE_DATA_V2 div sample_size else 0)"

definition page_data_off :: "bool \<Rightarrow> nat" where
  "page_data_off v2 = (if v2 then HIST_HDR_SIZE_V2 else HIST_HDR_SIZE)"

definition read_hdr :: "'f flash_dev \<Rightarrow> 'f \<Rightarrow> nat \<Rightarrow> hist_page_hdr option" where
  "read_hdr dev f phys = map_option hdr_parse (fd_read dev f (page_off phys) HIST_HDR_SIZE)"

text \<open>The clock-sync fix-up of a v2 page: the unix base when it was written.\<close>

definition fixup_read :: "'f flash_dev \<Rightarrow> crc16 \<Rightarrow> 'f \<Rightarrow> nat \<Rightarrow> hist_page_hdr \<Rightarrow> u32 option" where
  "fixup_read dev crc16 f phys h =
     (case fd_read dev f (page_off phys + HIST_HDR_SIZE) DW_SIZE of
        None \<Rightarrow> None
      | Some b \<Rightarrow>
          if b ! 4 \<noteq> FIXUP_MARK then None
          else if crc16 (ph_crc h) (take 6 b) \<noteq> get_le16 (drop 6 b) then None
          else Some (ph_base_time h + get_le32 b))"

subsection \<open>The ring in RAM\<close>

record live_page =
  lp_first_ord :: nat
  lp_base_time :: u32
  lp_phys :: nat
  lp_synced :: bool
  lp_cur_boot :: bool
  lp_v2 :: bool
  lp_fixup :: bool

text \<open>\<open>m_stage[0..m_stage_len)\<close> is the list \<open>m_stage\<close>, \<open>m_live[0..m_nlive)\<close> the list \<open>m_live\<close>.\<close>

record 'f flash_ring =
  m_flash :: 'f
  m_ready :: bool
  m_live :: "live_page list"
  m_next_seq :: u32
  m_abs_ord :: nat
  m_last_phys :: nat
  m_head_dw :: nat
  m_stage :: bytes
  m_head_full :: bool

definition head_records :: "'f flash_ring \<Rightarrow> nat" where
  "head_records r = (if m_live r = [] then 0 else m_abs_ord r - lp_first_ord (last (m_live r)))"

text \<open>One byte of the record stream of a page.\<close>

definition stream_byte :: "'f flash_dev \<Rightarrow> 'f flash_ring \<Rightarrow> live_page \<Rightarrow> nat \<Rightarrow> u8 option" where
  "stream_byte dev r lp d =
     (let is_head = (m_live r \<noteq> [] \<and> lp_phys lp = lp_phys (last (m_live r)));
          flushed = m_head_dw r * DW_DATA;
          data = page_off (lp_phys lp) + page_data_off (lp_v2 lp)
      in if is_head \<and> flushed \<le> d
         then (let s = d - flushed in if length (m_stage r) \<le> s then None else Some (m_stage r ! s))
         else map_option hd (fd_read dev (m_flash r) (data + d div DW_DATA * DW_SIZE + d mod DW_DATA) 1))"

definition page_read_stream ::
    "'f flash_dev \<Rightarrow> 'f flash_ring \<Rightarrow> live_page \<Rightarrow> nat \<Rightarrow> nat \<Rightarrow> bytes option" where
  "page_read_stream dev r lp off len = those (map (stream_byte dev r lp) [off..<off + len])"

definition head_data_off :: "'f flash_ring \<Rightarrow> nat" where
  "head_data_off r =
     (let head = last (m_live r)
      in page_off (lp_phys head) + page_data_off (lp_v2 head) + m_head_dw r * DW_SIZE)"

definition flush_stage_pad :: "'f flash_dev \<Rightarrow> 'f flash_ring \<Rightarrow> errno option \<times> 'f flash_ring" where
  "flush_stage_pad dev r =
     (if m_stage r = [] then (None, r)
      else
        let dw = m_stage r @ replicate (DW_DATA - length (m_stage r)) 0 @ [FRAME_BYTE]
        in case fd_write dev (head_data_off r) dw (m_flash r) of
             (Some e, f) \<Rightarrow> (Some e, r\<lparr>m_flash := f\<rparr>)
           | (None, f) \<Rightarrow> (None, r\<lparr>m_flash := f, m_head_dw := m_head_dw r + 1, m_stage := []\<rparr>))"

text \<open>The header of a page that opens now.\<close>

definition new_hdr :: "crc16 \<Rightarrow> hist_env \<Rightarrow> u32 \<Rightarrow> bool \<Rightarrow> 'f flash_ring \<Rightarrow> hist_page_hdr" where
  "new_hdr crc16 env base synced r =
     hdr_crc_set crc16 \<lparr>ph_magic = PAGE_MAGIC_V2, ph_seq = m_next_seq r, ph_layout = he_layout env,
       ph_interval = he_interval env, ph_base_time = base, ph_first_ord = of_nat (m_abs_ord r),
       ph_sample_size = of_nat (he_sample_size env), ph_base_synced = (if synced then 1 else 0),
       ph_rsv = 0, ph_crc = 0, ph_rsv2 = 0\<rparr>"

definition advance_page ::
    "'f flash_dev \<Rightarrow> crc16 \<Rightarrow> hist_env \<Rightarrow> u32 \<Rightarrow> bool \<Rightarrow> 'f flash_ring \<Rightarrow> nat res \<times> 'f flash_ring" where
  "advance_page dev crc16 env base synced r0 =
     (case (if m_live r0 \<noteq> [] then flush_stage_pad dev r0 else (None, r0)) of
        (Some e, r) \<Rightarrow> (Inl e, r)
      | (None, r) \<Rightarrow>
          let nxt = (m_last_phys r + 1) mod HIST_NPAGES;
              will_evict = (m_live r \<noteq> [] \<and> nxt = lp_phys (hd (m_live r)));
              tail_recs = (if will_evict
                then (if 1 < length (m_live r) then lp_first_ord (m_live r ! 1) - lp_first_ord (hd (m_live r))
                      else m_abs_ord r - lp_first_ord (hd (m_live r)))
                else 0)
          in case fd_erase dev (page_off nxt) PAGE_SIZE (m_flash r) of
               (Some e, f) \<Rightarrow> (Inl e, r\<lparr>m_flash := f\<rparr>)
             | (None, f) \<Rightarrow>
                 (case fd_write dev (page_off nxt) (hdr_bytes (new_hdr crc16 env base synced r)) f of
                    (Some e, f2) \<Rightarrow> (Inl e, r\<lparr>m_flash := f2\<rparr>)
                  | (None, f2) \<Rightarrow>
                      (Inr tail_recs,
                       r\<lparr>m_flash := f2, m_next_seq := m_next_seq r + 1, m_last_phys := nxt,
                         m_live := (if will_evict then tl (m_live r) else m_live r) @
                           [\<lparr>lp_first_ord = m_abs_ord r, lp_base_time = base, lp_phys = nxt,
                             lp_synced = synced, lp_cur_boot = True, lp_v2 = True, lp_fixup = False\<rparr>],
                         m_head_dw := 0, m_stage := [], m_head_full := False\<rparr>)))"

text \<open>\<open>backend_init\<close>, with whether the partition opened with 2 KB pages.\<close>

definition flash_init :: "bool \<Rightarrow> 'f flash_ring \<Rightarrow> bool \<times> 'f flash_ring" where
  "flash_init opened r =
     (if \<not> opened then (False, r) else (True, r\<lparr>m_ready := True, m_last_phys := HIST_NPAGES - 1\<rparr>))"

subsection \<open>Mount\<close>

text \<open>Count the written double words of a page from \<open>dw\<close> on, of at most \<open>n\<close>.\<close>

fun scan_written_from :: "'f flash_dev \<Rightarrow> 'f \<Rightarrow> nat \<Rightarrow> nat \<Rightarrow> nat \<Rightarrow> nat" where
  "scan_written_from dev f data dw 0 = dw"
| "scan_written_from dev f data dw (Suc n) =
     (case fd_read dev f (data + dw * DW_SIZE + DW_DATA) 1 of
        None \<Rightarrow> dw
      | Some b \<Rightarrow> if hd b = ERASED_BYTE then dw else scan_written_from dev f data (Suc dw) n)"

definition scan_written_dw :: "'f flash_dev \<Rightarrow> 'f \<Rightarrow> nat \<Rightarrow> bool \<Rightarrow> nat" where
  "scan_written_dw dev f phys v2 =
     scan_written_from dev f (page_off phys + page_data_off v2) 0 (if v2 then PAYLOAD_DW_V2 else PAYLOAD_DW_V1)"

definition layout_matches :: "hist_env \<Rightarrow> hist_page_hdr \<Rightarrow> bool" where
  "layout_matches env h \<longleftrightarrow> ph_layout h = he_layout env \<and> unat (ph_sample_size h) = he_sample_size env"

text \<open>One turn of the scan for the newest page: of any layout, and of the current one.\<close>

definition mount_scan ::
    "'f flash_dev \<Rightarrow> crc16 \<Rightarrow> hist_env \<Rightarrow> 'f \<Rightarrow> nat \<Rightarrow>
     (nat \<times> u32) option \<times> (nat \<times> hist_page_hdr) option \<Rightarrow> (nat \<times> u32) option \<times> (nat \<times> hist_page_hdr) option" where
  "mount_scan dev crc16 env f p acc = (case acc of (any, head) \<Rightarrow>
     case read_hdr dev f p of
       None \<Rightarrow> acc
     | Some h \<Rightarrow>
         if \<not> hdr_valid crc16 h then acc
         else
           ((case any of None \<Rightarrow> Some (p, ph_seq h)
             | Some (p0, s) \<Rightarrow> if sint (ph_seq h - s) > 0 then Some (p, ph_seq h) else any),
            (if he_sample_size env = 0 \<or> \<not> layout_matches env h then head
             else case head of None \<Rightarrow> Some (p, h)
               | Some (p0, h0) \<Rightarrow> if sint (ph_seq h - ph_seq h0) > 0 then Some (p, h) else head)))"

text \<open>The contiguous run of pages before the head, newest first: at most \<open>n\<close> more.\<close>

fun mount_chain ::
    "'f flash_dev \<Rightarrow> crc16 \<Rightarrow> hist_env \<Rightarrow> 'f \<Rightarrow> u32 \<Rightarrow> nat \<Rightarrow> u32 \<Rightarrow> nat \<Rightarrow> nat list" where
  "mount_chain dev crc16 env f interval phys seq 0 = []"
| "mount_chain dev crc16 env f interval phys seq (Suc n) =
     (let prev = (phys + HIST_NPAGES - 1) mod HIST_NPAGES
      in case read_hdr dev f prev of
           None \<Rightarrow> []
         | Some h \<Rightarrow>
             if \<not> hdr_valid crc16 h then []
             else if \<not> layout_matches env h \<or> ph_interval h \<noteq> interval \<or> seq - ph_seq h \<noteq> 1 then []
             else prev # mount_chain dev crc16 env f interval prev (ph_seq h) n)"

definition mount_page :: "'f flash_dev \<Rightarrow> crc16 \<Rightarrow> 'f \<Rightarrow> nat \<Rightarrow> live_page" where
  "mount_page dev crc16 f phys =
     (let h = (case read_hdr dev f phys of Some h \<Rightarrow> h | None \<Rightarrow> hdr_parse (replicate 32 0));
          v2 = (ph_magic h = PAGE_MAGIC_V2);
          fx = (if v2 \<and> ph_base_synced h = 0 then fixup_read dev crc16 f phys h else None)
      in \<lparr>lp_first_ord = unat (ph_first_ord h),
          lp_base_time = (case fx of Some b \<Rightarrow> b | None \<Rightarrow> ph_base_time h), lp_phys = phys,
          lp_synced = (ph_base_synced h \<noteq> 0 \<or> fx \<noteq> None), lp_cur_boot = False, lp_v2 = v2, lp_fixup = False\<rparr>)"

definition flash_mount ::
    "'f flash_dev \<Rightarrow> crc16 \<Rightarrow> hist_env \<Rightarrow> 'f flash_ring \<Rightarrow> bool \<times> u32 option \<times> 'f flash_ring" where
  "flash_mount dev crc16 env r0 =
     (let r = r0\<lparr>m_live := [], m_abs_ord := 0, m_next_seq := 0, m_head_dw := 0, m_stage := [],
                 m_head_full := False\<rparr>;
          f = m_flash r
      in if \<not> m_ready r then (False, None, r)
         else case fold (mount_scan dev crc16 env f) [0..<HIST_NPAGES] (None, None) of
           (None, None) \<Rightarrow> (False, None, r)
         | (Some (p, s), None) \<Rightarrow> (False, None, r\<lparr>m_next_seq := s + 2, m_last_phys := p\<rparr>)
         | (any, Some (head_phys, hh)) \<Rightarrow>
             let chain = head_phys #
                   mount_chain dev crc16 env f (ph_interval hh) head_phys (ph_seq hh) (HIST_NPAGES - 1);
                 live = map (mount_page dev crc16 f) (rev chain);
                 head_v2 = (ph_magic hh = PAGE_MAGIC_V2);
                 written = scan_written_dw dev f head_phys head_v2;
                 rpp = (if head_v2 then PAGE_DATA_V2 else PAGE_DATA_V1) div he_sample_size env;
                 hrecs = min (written * DW_DATA div he_sample_size env) rpp;
                 ord = unat (ph_first_ord hh) + hrecs
             in (0 < ord - lp_first_ord (hd live), Some (ph_interval hh),
                 r\<lparr>m_live := live, m_abs_ord := ord, m_next_seq := ph_seq hh + 1,
                   m_last_phys := head_phys, m_head_full := True, m_head_dw := written\<rparr>))"

subsection \<open>Append\<close>

text \<open>Stream the bytes of a record into the head page at \<open>data\<close>, a double word at a time; \<open>dw0\<close>
  and \<open>len0\<close> are the head's state before the record.\<close>

fun stream_bytes ::
    "'f flash_dev \<Rightarrow> nat \<Rightarrow> nat \<Rightarrow> nat \<Rightarrow> bytes \<Rightarrow> 'f flash_ring \<Rightarrow> errno option \<times> 'f flash_ring" where
  "stream_bytes dev data dw0 len0 [] r = (None, r)"
| "stream_bytes dev data dw0 len0 (b # bs) r =
     (let st = m_stage r @ [b]
      in if length st = DW_DATA
         then case fd_write dev (data + m_head_dw r * DW_SIZE) (st @ [FRAME_BYTE]) (m_flash r) of
                (Some e, f) \<Rightarrow>
                  (Some e, r\<lparr>m_flash := f, m_stage := [],
                     m_head_full := (if m_head_dw r \<noteq> dw0 \<or> len0 \<noteq> 0 then True else m_head_full r)\<rparr>)
              | (None, f) \<Rightarrow>
                  stream_bytes dev data dw0 len0 bs
                    (r\<lparr>m_flash := f, m_stage := [], m_head_dw := m_head_dw r + 1\<rparr>)
         else stream_bytes dev data dw0 len0 bs (r\<lparr>m_stage := st\<rparr>))"

definition flash_append ::
    "'f flash_dev \<Rightarrow> crc16 \<Rightarrow> hist_env \<Rightarrow> bytes \<Rightarrow> u32 \<Rightarrow> bool \<Rightarrow> bool \<Rightarrow> 'f flash_ring
     \<Rightarrow> nat res \<times> 'f flash_ring" where
  "flash_append dev crc16 env rec base synced split r0 =
     (let rpp = records_per_page (he_sample_size env)
      in if \<not> m_ready r0 then (Inl ENODEV, r0)
         else if rpp = 0 then (Inl EINVAL, r0)
         else
           let r1 = (if split \<and> m_live r0 \<noteq> [] \<and> \<not> m_head_full r0
                     then snd (flush_stage_pad dev (r0\<lparr>m_head_full := True\<rparr>)) else r0)
           in case (if m_live r1 = [] \<or> m_head_full r1 \<or> rpp < head_records r1 + 1
                    then (if he_replay env then (Inl EBUSY, r1)
                          else advance_page dev crc16 env base synced r1)
                    else (Inr 0, r1)) of
                (Inl e, r2) \<Rightarrow> (Inl e, r2)
              | (Inr ev, r2) \<Rightarrow>
                  (case stream_bytes dev (page_off (lp_phys (last (m_live r2))) + HIST_HDR_SIZE_V2)
                          (m_head_dw r2) (length (m_stage r2)) rec r2 of
                     (Some e, r3) \<Rightarrow> (Inl e, r3)
                   | (None, r3) \<Rightarrow>
                       let r4 = r3\<lparr>m_abs_ord := m_abs_ord r3 + 1\<rparr>
                       in (Inr ev,
                           if rpp \<le> head_records r4
                           then snd (flush_stage_pad dev (r4\<lparr>m_head_full := True\<rparr>)) else r4)))"

subsection \<open>Readers and the other operations\<close>

text \<open>The page of an ordinal: from the head down, the first that starts at or before it.\<close>

definition page_of :: "live_page list \<Rightarrow> nat \<Rightarrow> live_page" where
  "page_of live a = (case find (\<lambda>p. lp_first_ord p \<le> a) (rev (tl live)) of Some p \<Rightarrow> p | None \<Rightarrow> hd live)"

definition flash_read :: "'f flash_dev \<Rightarrow> nat \<Rightarrow> 'f flash_ring \<Rightarrow> nat \<Rightarrow> bytes option" where
  "flash_read dev len r a =
     (if \<not> m_ready r \<or> m_live r = [] then None
      else if a < lp_first_ord (hd (m_live r)) \<or> m_abs_ord r \<le> a then None
      else let p = page_of (m_live r) a
           in page_read_stream dev r p ((a - lp_first_ord p) * len) len)"

definition flash_stored :: "'f flash_ring \<Rightarrow> nat" where
  "flash_stored r = (if m_live r \<noteq> [] then m_abs_ord r - lp_first_ord (hd (m_live r)) else 0)"

definition flash_first_abs :: "'f flash_ring \<Rightarrow> nat" where
  "flash_first_abs r = (if m_live r \<noteq> [] then lp_first_ord (hd (m_live r)) else m_abs_ord r)"

definition flash_seg :: "'f flash_ring \<Rightarrow> nat \<Rightarrow> hist_seg" where
  "flash_seg r i =
     (let lp = m_live r ! i
      in \<lparr>sg_origin = lp_first_ord lp, sg_first = lp_first_ord lp,
          sg_end = (if i + 1 < length (m_live r) then lp_first_ord (m_live r ! (i + 1)) else m_abs_ord r),
          sg_base = lp_base_time lp, sg_synced = lp_synced lp, sg_cur_boot = lp_cur_boot lp\<rparr>)"

definition flash_segs :: "'f flash_ring \<Rightarrow> hist_seg list" where
  "flash_segs r = map (flash_seg r) [0..<length (m_live r)]"

definition flash_seg_sync :: "nat \<Rightarrow> u32 \<Rightarrow> 'f flash_ring \<Rightarrow> bool \<times> 'f flash_ring" where
  "flash_seg_sync i offset r =
     (let lp = m_live r ! i
      in (lp_v2 lp,
          r\<lparr>m_live := (m_live r)[i := lp\<lparr>lp_base_time := lp_base_time lp + offset, lp_synced := True,
               lp_fixup := (if lp_v2 lp then True else lp_fixup lp)\<rparr>]\<rparr>))"

text \<open>The fix-up of one page: programmed at most once.\<close>

definition flush_fixup :: "'f flash_dev \<Rightarrow> crc16 \<Rightarrow> live_page \<Rightarrow> 'f \<Rightarrow> 'f" where
  "flush_fixup dev crc16 lp f =
     (case read_hdr dev f (lp_phys lp) of
        None \<Rightarrow> f
      | Some h \<Rightarrow>
          if \<not> hdr_valid crc16 h \<or> ph_base_synced h \<noteq> 0 then f
          else
            let body = put_le32 (lp_base_time lp - ph_base_time h) @ [FIXUP_MARK, 0]
            in snd (fd_write dev (page_off (lp_phys lp) + HIST_HDR_SIZE)
                  (body @ put_le16 (crc16 (ph_crc h) body)) f))"

definition flash_flush_fixups :: "'f flash_dev \<Rightarrow> crc16 \<Rightarrow> 'f flash_ring \<Rightarrow> 'f flash_ring" where
  "flash_flush_fixups dev crc16 r =
     r\<lparr>m_flash := fold (\<lambda>lp f. if lp_fixup lp then flush_fixup dev crc16 lp f else f) (m_live r) (m_flash r),
       m_live := map (\<lambda>lp. lp\<lparr>lp_fixup := False\<rparr>) (m_live r)\<rparr>"

definition flash_reset_logical :: "'f flash_ring \<Rightarrow> 'f flash_ring" where
  "flash_reset_logical r = r\<lparr>m_live := [], m_head_dw := 0, m_stage := [], m_head_full := False,
     m_next_seq := m_next_seq r + 1\<rparr>"

definition flash_erase :: "'f flash_dev \<Rightarrow> 'f flash_ring \<Rightarrow> 'f flash_ring" where
  "flash_erase dev r =
     (if \<not> m_ready r then r
      else flash_reset_logical (r\<lparr>m_flash := snd (fd_erase dev 0 (HIST_NPAGES * PAGE_SIZE) (m_flash r))\<rparr>))"

definition flash_capacity :: "nat \<Rightarrow> nat" where
  "flash_capacity sample_size = min (HIST_NPAGES * records_per_page sample_size) 65535"

definition flash_ops :: "'f flash_dev \<Rightarrow> crc16 \<Rightarrow> bool \<Rightarrow> 'f flash_ring hist_ops" where
  "flash_ops dev crc16 opened = \<lparr>b_flash = True, b_ready = m_ready, b_init = flash_init opened,
     b_capacity = (\<lambda>sz r. flash_capacity sz), b_mount = flash_mount dev crc16,
     b_append = flash_append dev crc16, b_read = (\<lambda>env. flash_read dev (he_sample_size env)),
     b_stored = flash_stored, b_first_abs = flash_first_abs, b_segs = flash_segs,
     b_seg_sync = flash_seg_sync, b_flush_fixups = flash_flush_fixups dev crc16,
     b_reset_logical = flash_reset_logical, b_erase = flash_erase dev\<rparr>"

end
