(* ===== verification/FlashProps.thy ===== *)
theory FlashProps
  imports FlashRing
begin

text \<open>
  The flash ring over a device that behaves as documented (\<open>flash_laws\<close>): the byte stream of a page,
  the ring's well-formedness, the refinement of an append and the recovery after a power loss.
\<close>

subsection \<open>The device\<close>

definition FLASH_SIZE :: nat where "FLASH_SIZE = HIST_NPAGES * PAGE_SIZE"

text \<open>
  What the ring relies on: \<open>c f x\<close> is the byte at \<open>x\<close>. A read returns the bytes; a program changes
  nothing outside its range, and on erased, aligned double words it succeeds and stores its bytes; an erase
  gives \<open>0xFF\<close> in its range and changes nothing outside. Nothing is said of programming twice.
\<close>

definition flash_laws :: "'f flash_dev \<Rightarrow> ('f \<Rightarrow> nat \<Rightarrow> u8) \<Rightarrow> bool" where
  "flash_laws dev c \<longleftrightarrow>
     (\<forall>f off n. off + n \<le> FLASH_SIZE \<longrightarrow> fd_read dev f off n = Some (map (c f) [off..<off + n])) \<and>
     (\<forall>f off bs x. off + length bs \<le> FLASH_SIZE \<longrightarrow> x < off \<or> off + length bs \<le> x \<longrightarrow>
        c (snd (fd_write dev off bs f)) x = c f x) \<and>
     (\<forall>f off bs. off + length bs \<le> FLASH_SIZE \<longrightarrow> off mod 8 = 0 \<longrightarrow> length bs mod 8 = 0 \<longrightarrow>
        (\<forall>x. off \<le> x \<and> x < off + length bs \<longrightarrow> c f x = 0xFF) \<longrightarrow>
        fst (fd_write dev off bs f) = None \<and>
        (\<forall>i < length bs. c (snd (fd_write dev off bs f)) (off + i) = bs ! i)) \<and>
     (\<forall>f off n. off + n \<le> FLASH_SIZE \<longrightarrow> off mod 2048 = 0 \<longrightarrow> n mod 2048 = 0 \<longrightarrow>
        fst (fd_erase dev off n f) = None \<and>
        (\<forall>x. c (snd (fd_erase dev off n f)) x = (if off \<le> x \<and> x < off + n then 0xFF else c f x)))"

lemma law_read: "flash_laws dev c \<Longrightarrow> off + n \<le> FLASH_SIZE \<Longrightarrow>
    fd_read dev f off n = Some (map (c f) [off..<off + n])"
  unfolding flash_laws_def by blast

lemma law_write_other: "flash_laws dev c \<Longrightarrow> off + length bs \<le> FLASH_SIZE \<Longrightarrow>
    x < off \<or> off + length bs \<le> x \<Longrightarrow> c (snd (fd_write dev off bs f)) x = c f x"
  unfolding flash_laws_def by blast

lemma law_write: "flash_laws dev c \<Longrightarrow> off + length bs \<le> FLASH_SIZE \<Longrightarrow> off mod 8 = 0 \<Longrightarrow>
    length bs mod 8 = 0 \<Longrightarrow> (\<And>x. off \<le> x \<Longrightarrow> x < off + length bs \<Longrightarrow> c f x = 0xFF) \<Longrightarrow>
    \<exists>f'. fd_write dev off bs f = (None, f') \<and> (\<forall>i < length bs. c f' (off + i) = bs ! i) \<and>
      (\<forall>x. x < off \<or> off + length bs \<le> x \<longrightarrow> c f' x = c f x)"
proof -
  assume a: "flash_laws dev c" "off + length bs \<le> FLASH_SIZE" "off mod 8 = 0" "length bs mod 8 = 0"
    "\<And>x. off \<le> x \<Longrightarrow> x < off + length bs \<Longrightarrow> c f x = 0xFF"
  obtain e f' where w: "fd_write dev off bs f = (e, f')" by fastforce
  have er: "\<forall>x. off \<le> x \<and> x < off + length bs \<longrightarrow> c f x = 0xFF" using a(5) by simp
  note a(1) [unfolded flash_laws_def, THEN conjunct2, THEN conjunct2, THEN conjunct1]
  then have "fst (fd_write dev off bs f) = None \<and>
      (\<forall>i < length bs. c (snd (fd_write dev off bs f)) (off + i) = bs ! i)"
    using a(2,3,4) er by meson
  then show ?thesis using law_write_other [OF a(1,2), of _ f] w by auto
qed

lemma law_erase: "flash_laws dev c \<Longrightarrow> off + n \<le> FLASH_SIZE \<Longrightarrow> off mod 2048 = 0 \<Longrightarrow> n mod 2048 = 0 \<Longrightarrow>
    \<exists>f'. fd_erase dev off n f = (None, f') \<and>
      (\<forall>x. c f' x = (if off \<le> x \<and> x < off + n then 0xFF else c f x))"
proof -
  assume a: "flash_laws dev c" "off + n \<le> FLASH_SIZE" "off mod 2048 = 0" "n mod 2048 = 0"
  obtain e f' where w: "fd_erase dev off n f = (e, f')" by fastforce
  note a(1) [unfolded flash_laws_def, THEN conjunct2, THEN conjunct2, THEN conjunct2]
  then have "fst (fd_erase dev off n f) = None \<and>
      (\<forall>x. c (snd (fd_erase dev off n f)) x = (if off \<le> x \<and> x < off + n then 0xFF else c f x))"
    using a(2,3,4) by (elim allE impE)
  then show ?thesis using w by simp
qed

subsection \<open>The stream of a page\<close>

text \<open>Where data byte \<open>d\<close> of a stream at \<open>data\<close> sits, and the bytes of the first \<open>dw\<close> double words.\<close>

definition data_pos :: "nat \<Rightarrow> nat \<Rightarrow> nat" where
  "data_pos data d = data + d div 7 * 8 + d mod 7"

definition flushed :: "('f \<Rightarrow> nat \<Rightarrow> u8) \<Rightarrow> 'f \<Rightarrow> nat \<Rightarrow> nat \<Rightarrow> bytes" where
  "flushed c f data n = map (\<lambda>d. c f (data_pos data d)) [0..<n]"

lemma length_flushed [simp]: "length (flushed c f data n) = n"
  by (simp add: flushed_def)

lemma data_pos_bound: "d < dw * 7 \<Longrightarrow> data_pos data d + 1 < data + dw * 8"
proof -
  assume "d < dw * 7"
  then have "d div 7 < dw" by (simp add: less_mult_imp_div_less)
  then have "d div 7 * 8 + 8 \<le> dw * 8" by simp
  moreover have "d mod 7 < 7" by simp
  ultimately show ?thesis by (simp add: data_pos_def)
qed

lemma data_pos_ge: "data \<le> data_pos data d"
  by (simp add: data_pos_def)

lemma flushed_cong: "(\<And>x. data \<le> x \<Longrightarrow> x < data + dw * 8 \<Longrightarrow> c f' x = c f x) \<Longrightarrow> n \<le> dw * 7 \<Longrightarrow>
    flushed c f' data n = flushed c f data n"
proof -
  assume eq: "\<And>x. data \<le> x \<Longrightarrow> x < data + dw * 8 \<Longrightarrow> c f' x = c f x" and n: "n \<le> dw * 7"
  have "c f' (data_pos data d) = c f (data_pos data d)" if "d < n" for d
    using data_pos_bound [of d dw data] that n by (intro eq data_pos_ge) simp
  then show ?thesis by (simp add: flushed_def)
qed

text \<open>Programming a double word of seven data bytes extends the stream by them.\<close>

lemma flushed_write:
  assumes laws: "flash_laws dev c" and len: "length st = 7" and al: "data mod 8 = 0"
    and fit: "data + dw * 8 + 8 \<le> FLASH_SIZE"
    and er: "\<And>x. data + dw * 8 \<le> x \<Longrightarrow> x < data + dw * 8 + 8 \<Longrightarrow> c f x = 0xFF"
  obtains f' where "fd_write dev (data + dw * 8) (st @ [FRAME_BYTE]) f = (None, f')"
    "flushed c f' data (dw * 7 + 7) = flushed c f data (dw * 7) @ st"
    "\<And>x. x < data + dw * 8 \<or> data + dw * 8 + 8 \<le> x \<Longrightarrow> c f' x = c f x"
    "c f' (data + dw * 8 + 7) = FRAME_BYTE"
proof -
  let ?bs = "st @ [FRAME_BYTE]"
  have l8: "length ?bs = 8" using len by simp
  have "(data + dw * 8) mod 8 = 0" using al by simp
  then obtain f' where f': "fd_write dev (data + dw * 8) ?bs f = (None, f')"
      "\<forall>i < length ?bs. c f' (data + dw * 8 + i) = ?bs ! i"
      "\<forall>x. x < data + dw * 8 \<or> data + dw * 8 + length ?bs \<le> x \<longrightarrow> c f' x = c f x"
    using law_write [OF laws, of "data + dw * 8" ?bs f] fit er l8 by auto
  have "?bs ! 7 = FRAME_BYTE" using len by (metis nth_append_length)
  then have fr: "c f' (data + dw * 8 + 7) = FRAME_BYTE" using f'(2) l8 by simp
  have "flushed c f' data (dw * 7) = flushed c f data (dw * 7)"
    using f'(3) by (intro flushed_cong [of data dw]) auto
  moreover have "map (\<lambda>d. c f' (data_pos data d)) [dw * 7..<dw * 7 + 7] = st"
  proof (rule nth_equalityI)
    fix i assume "i < length (map (\<lambda>d. c f' (data_pos data d)) [dw * 7..<dw * 7 + 7])"
    then have i: "i < 7" by simp
    then have "(dw * 7 + i) div 7 = dw" "(dw * 7 + i) mod 7 = i" by simp_all
    then have "data_pos data (dw * 7 + i) = data + dw * 8 + i" by (simp add: data_pos_def)
    then show "map (\<lambda>d. c f' (data_pos data d)) [dw * 7..<dw * 7 + 7] ! i = st ! i"
      using f'(2) i l8 len by (simp add: nth_append)
  qed (simp add: len)
  moreover have "[0..<dw * 7 + 7] = [0..<dw * 7] @ [dw * 7..<dw * 7 + 7]"
    using upt_add_eq_append [of 0 "dw * 7" 7] by simp
  ultimately have "flushed c f' data (dw * 7 + 7) = flushed c f data (dw * 7) @ st"
    by (simp add: flushed_def)
  moreover have "c f' x = c f x" if "x < data + dw * 8 \<or> data + dw * 8 + 8 \<le> x" for x
    using f'(3) [unfolded l8] that by blast
  ultimately show thesis using fr by (intro that [OF f'(1)])
qed

definition erased :: "('f \<Rightarrow> nat \<Rightarrow> u8) \<Rightarrow> 'f \<Rightarrow> nat \<Rightarrow> nat \<Rightarrow> bool" where
  "erased c f a b \<longleftrightarrow> (\<forall>x. a \<le> x \<and> x < b \<longrightarrow> c f x = 0xFF)"

text \<open>The frame byte of each of the first \<open>dw\<close> double words is programmed.\<close>

definition framed :: "('f \<Rightarrow> nat \<Rightarrow> u8) \<Rightarrow> 'f \<Rightarrow> nat \<Rightarrow> nat \<Rightarrow> bool" where
  "framed c f data dw \<longleftrightarrow> (\<forall>j < dw. c f (data + j * 8 + 7) \<noteq> 0xFF)"

lemma framed_Suc:
  assumes "framed c f data dw" "c f' (data + dw * 8 + 7) = FRAME_BYTE"
    "\<And>x. x < data + dw * 8 \<Longrightarrow> c f' x = c f x"
  shows "framed c f' data (Suc dw)"
  unfolding framed_def
proof (intro allI impI)
  fix j assume j: "j < Suc dw"
  show "c f' (data + j * 8 + 7) \<noteq> 0xFF"
  proof (cases "j = dw")
    case True
    then show ?thesis using assms(2) by (simp add: FRAME_BYTE_def)
  next
    case False
    then have "j < dw" using j by simp
    then have "data + j * 8 + 7 < data + dw * 8" by simp
    then show ?thesis using assms(1,3) \<open>j < dw\<close> by (simp add: framed_def)
  qed
qed

lemma stream_bytes_ok:
  assumes laws: "flash_laws dev c" and al: "data mod 8 = 0" and fit: "data + 2008 \<le> FLASH_SIZE"
  shows "length (m_stage r) < 7 \<Longrightarrow> m_head_dw r * 7 + length (m_stage r) + length bs \<le> 1757 \<Longrightarrow>
    erased c (m_flash r) (data + m_head_dw r * 8) (data + 2008) \<Longrightarrow>
    framed c (m_flash r) data (m_head_dw r) \<Longrightarrow>
    \<exists>f' st' dw'. stream_bytes dev data dw0 len0 bs r =
        (None, r\<lparr>m_flash := f', m_stage := st', m_head_dw := dw'\<rparr>) \<and>
      flushed c f' data (dw' * 7) @ st' = flushed c (m_flash r) data (m_head_dw r * 7) @ m_stage r @ bs \<and>
      length st' < 7 \<and> erased c f' (data + dw' * 8) (data + 2008) \<and> framed c f' data dw' \<and>
      (\<forall>x. x < data \<or> data + 2008 \<le> x \<longrightarrow> c f' x = c (m_flash r) x)"
proof (induction bs arbitrary: r)
  case Nil
  then show ?case
    by (intro exI [of _ "m_flash r"] exI [of _ "m_stage r"] exI [of _ "m_head_dw r"]) simp
next
  case (Cons b bs)
  let ?st = "m_stage r @ [b]" and ?dw = "m_head_dw r" and ?f = "m_flash r"
  show ?case
  proof (cases "length ?st = 7")
    case False
    then have l: "length ?st < 7" using Cons.prems(1) by simp
    let ?r = "r\<lparr>m_stage := ?st\<rparr>"
    have sb: "stream_bytes dev data dw0 len0 (b # bs) r = stream_bytes dev data dw0 len0 bs ?r"
      using False by (simp add: DW_DATA_def Let_def)
    have "\<exists>f' st' dw'. stream_bytes dev data dw0 len0 bs ?r =
        (None, ?r\<lparr>m_flash := f', m_stage := st', m_head_dw := dw'\<rparr>) \<and>
      flushed c f' data (dw' * 7) @ st' = flushed c (m_flash ?r) data (m_head_dw ?r * 7) @ m_stage ?r @ bs \<and>
      length st' < 7 \<and> erased c f' (data + dw' * 8) (data + 2008) \<and> framed c f' data dw' \<and>
      (\<forall>x. x < data \<or> data + 2008 \<le> x \<longrightarrow> c f' x = c (m_flash ?r) x)"
      using l Cons.prems by (intro Cons.IH) simp_all
    then show ?thesis unfolding sb by simp
  next
    case True
    have d: "?dw * 7 + 7 + length bs \<le> 1757" "?dw + 1 \<le> 251" using True Cons.prems(2) by simp_all
    have fit': "data + ?dw * 8 + 8 \<le> FLASH_SIZE" using d(2) fit by simp
    have er: "c ?f x = 0xFF" if "data + ?dw * 8 \<le> x" "x < data + ?dw * 8 + 8" for x
      using Cons.prems(3) that d(2) by (simp add: erased_def)
    obtain f' where f': "fd_write dev (data + ?dw * 8) (?st @ [FRAME_BYTE]) ?f = (None, f')"
      "flushed c f' data (?dw * 7 + 7) = flushed c ?f data (?dw * 7) @ ?st"
      "\<And>x. x < data + ?dw * 8 \<or> data + ?dw * 8 + 8 \<le> x \<Longrightarrow> c f' x = c ?f x"
      "c f' (data + ?dw * 8 + 7) = FRAME_BYTE"
      using flushed_write [OF laws True al fit' er] by blast
    let ?r = "r\<lparr>m_flash := f', m_stage := [], m_head_dw := ?dw + 1\<rparr>"
    have sb: "stream_bytes dev data dw0 len0 (b # bs) r = stream_bytes dev data dw0 len0 bs ?r"
      using True f'(1) by (simp add: DW_DATA_def DW_SIZE_def Let_def)
    have er': "erased c f' (data + (?dw + 1) * 8) (data + 2008)"
      unfolding erased_def
    proof (intro allI impI)
      fix x assume x: "data + (?dw + 1) * 8 \<le> x \<and> x < data + 2008"
      then have "c f' x = c ?f x" by (intro f'(3)) simp
      then show "c f' x = 0xFF" using Cons.prems(3) x by (simp add: erased_def)
    qed
    have fr': "framed c f' data (?dw + 1)" using framed_Suc [OF Cons.prems(4) f'(4)] f'(3) by simp
    have fl: "flushed c f' data ((?dw + 1) * 7) = flushed c ?f data (?dw * 7) @ ?st"
      using f'(2) by (simp add: add.commute)
    have "\<exists>f2 st2 dw2. stream_bytes dev data dw0 len0 bs ?r =
        (None, ?r\<lparr>m_flash := f2, m_stage := st2, m_head_dw := dw2\<rparr>) \<and>
      flushed c f2 data (dw2 * 7) @ st2 = flushed c (m_flash ?r) data (m_head_dw ?r * 7) @ m_stage ?r @ bs \<and>
      length st2 < 7 \<and> erased c f2 (data + dw2 * 8) (data + 2008) \<and> framed c f2 data dw2 \<and>
      (\<forall>x. x < data \<or> data + 2008 \<le> x \<longrightarrow> c f2 x = c (m_flash ?r) x)"
      using d er' fr' by (intro Cons.IH) simp_all
    then obtain f2 st2 dw2 where s2: "stream_bytes dev data dw0 len0 bs ?r =
        (None, ?r\<lparr>m_flash := f2, m_stage := st2, m_head_dw := dw2\<rparr>)"
      "flushed c f2 data (dw2 * 7) @ st2 = flushed c f' data ((?dw + 1) * 7) @ bs"
      "length st2 < 7" "erased c f2 (data + dw2 * 8) (data + 2008)" "framed c f2 data dw2"
      "\<forall>x. x < data \<or> data + 2008 \<le> x \<longrightarrow> c f2 x = c f' x"
      by auto
    have "c f2 x = c ?f x" if "x < data \<or> data + 2008 \<le> x" for x
    proof -
      have "x < data + ?dw * 8 \<or> data + ?dw * 8 + 8 \<le> x" using that d(2) by linarith
      then have "c f' x = c ?f x" by (rule f'(3))
      moreover have "c f2 x = c f' x" using s2(6) that by blast
      ultimately show ?thesis by simp
    qed
    then show ?thesis
      unfolding sb s2(1) using s2(2-5) fl
      by (intro exI [of _ f2] exI [of _ st2] exI [of _ dw2]) simp
  qed
qed

subsection \<open>Well-formed rings\<close>

definition lp_data :: "live_page \<Rightarrow> nat" where
  "lp_data p = page_off (lp_phys p) + page_data_off (lp_v2 p)"

definition lp_cap :: "live_page \<Rightarrow> nat" where
  "lp_cap p = (if lp_v2 p then 1757 else 1764)"

definition page_end :: "live_page list \<Rightarrow> nat \<Rightarrow> nat \<Rightarrow> nat" where
  "page_end live stop i = (if i + 1 < length live then lp_first_ord (live ! (i + 1)) else stop)"

definition phys_ok :: "nat \<Rightarrow> live_page list \<Rightarrow> bool" where
  "phys_ok last_phys live \<longleftrightarrow> last_phys < 16 \<and> length live \<le> 16 \<and>
     (\<forall>i < length live. lp_phys (live ! i) = (last_phys + 17 - length live + i) mod 16)"

definition head_ok :: "('f \<Rightarrow> nat \<Rightarrow> u8) \<Rightarrow> nat \<Rightarrow> 'f flash_ring \<Rightarrow> bool" where
  "head_ok c sz r \<longleftrightarrow> (let h = last (m_live r); n = m_head_dw r * 7 + length (m_stage r) in
     head_records r * sz \<le> n \<and> n \<le> lp_cap h \<and> framed c (m_flash r) (lp_data h) (m_head_dw r) \<and>
     (\<not> m_head_full r \<longrightarrow> n = head_records r * sz) \<and>
     (\<not> m_head_full r \<or> m_stage r \<noteq> [] \<longrightarrow>
        lp_v2 h \<and> erased c (m_flash r) (lp_data h + m_head_dw r * 8) (lp_data h + 2008)))"

definition flash_ok :: "('f \<Rightarrow> nat \<Rightarrow> u8) \<Rightarrow> nat \<Rightarrow> 'f flash_ring \<Rightarrow> bool" where
  "flash_ok c sz r \<longleftrightarrow> m_ready r \<and> 0 < sz \<and> sz \<le> 1757 \<and> length (m_stage r) < 7 \<and>
     phys_ok (m_last_phys r) (m_live r) \<and>
     sorted (map lp_first_ord (m_live r) @ [m_abs_ord r]) \<and>
     (\<forall>i < length (m_live r). (page_end (m_live r) (m_abs_ord r) i - lp_first_ord (m_live r ! i)) * sz
        \<le> lp_cap (m_live r ! i)) \<and>
     (m_live r \<noteq> [] \<longrightarrow> head_ok c sz r)"

lemma phys_distinct:
  assumes "phys_ok l live" "i < length live" "j < length live" "i \<noteq> j"
  shows "lp_phys (live ! i) \<noteq> lp_phys (live ! j)"
proof -
  let ?s = "l + 17 - length live"
  have "(?s + i) mod 16 \<noteq> (?s + j) mod 16"
    using assms mod_distinct [of i j 16 ?s] mod_distinct [of j i 16 ?s]
    by (cases "i < j") (auto simp: phys_ok_def)
  then show ?thesis using assms by (simp add: phys_ok_def)
qed

lemma phys_lt: "phys_ok l live \<Longrightarrow> p \<in> set live \<Longrightarrow> lp_phys p < 16"
  by (auto simp: phys_ok_def in_set_conv_nth)

lemma phys_last: "phys_ok l live \<Longrightarrow> live \<noteq> [] \<Longrightarrow> lp_phys (last live) = l"
proof -
  assume a: "phys_ok l live" "live \<noteq> []"
  then have "0 < length live" by simp
  moreover have "length live \<le> 16" using a(1) by (simp add: phys_ok_def)
  ultimately have "length live - 1 < length live" "l + 17 - length live + (length live - 1) = l + 16"
    by linarith+
  then have "lp_phys (live ! (length live - 1)) = (l + 16) mod 16"
    using a(1) unfolding phys_ok_def by metis
  then show ?thesis using a by (simp add: last_conv_nth phys_ok_def)
qed

lemma data_bounds:
  "lp_data p mod 8 = 0" "page_off (lp_phys p) \<le> lp_data p"
  "lp_data p + lp_cap p div 7 * 8 = page_off (lp_phys p) + 2048"
  "lp_phys p < 16 \<Longrightarrow> page_off (lp_phys p) + 2048 \<le> FLASH_SIZE"
  by (auto simp: lp_data_def lp_cap_def page_off_def page_data_off_def FLASH_SIZE_def page_consts)

subsection \<open>The view\<close>

definition recs_view :: "nat \<Rightarrow> u32 \<Rightarrow> live_page \<Rightarrow> nat \<Rightarrow> bytes \<Rightarrow> (bytes option \<times> u32 \<times> bool) list" where
  "recs_view sz iv p n bs = map (\<lambda>l. (Some (take sz (drop (l * sz) bs)), lp_base_time p + of_nat l * iv,
     lp_synced p)) [0..<n]"

fun pages_view :: "('f \<Rightarrow> nat \<Rightarrow> u8) \<Rightarrow> nat \<Rightarrow> u32 \<Rightarrow> 'f \<Rightarrow> live_page list \<Rightarrow> nat \<Rightarrow> bytes
    \<Rightarrow> (bytes option \<times> u32 \<times> bool) list" where
  "pages_view c sz iv f [] stop hb = []"
| "pages_view c sz iv f [p] stop hb = recs_view sz iv p (stop - lp_first_ord p) hb"
| "pages_view c sz iv f (p # q # ps) stop hb =
     recs_view sz iv p (lp_first_ord q - lp_first_ord p) (flushed c f (lp_data p) (lp_cap p))
       @ pages_view c sz iv f (q # ps) stop hb"

definition head_bytes :: "('f \<Rightarrow> nat \<Rightarrow> u8) \<Rightarrow> 'f flash_ring \<Rightarrow> bytes" where
  "head_bytes c r = flushed c (m_flash r) (lp_data (last (m_live r))) (m_head_dw r * 7) @ m_stage r"

definition flash_view :: "'f flash_dev \<Rightarrow> nat \<Rightarrow> u32 \<Rightarrow> 'f flash_ring \<Rightarrow> (bytes option \<times> u32 \<times> bool) list" where
  "flash_view dev sz iv r = map (\<lambda>a. (flash_read dev sz r a, seg_time iv (seg_of (flash_segs r) a) a,
     sg_synced (seg_of (flash_segs r) a))) [flash_first_abs r..<m_abs_ord r]"

lemma those_map_Some: "(\<And>x. x \<in> set xs \<Longrightarrow> g x = Some (h x)) \<Longrightarrow> those (map g xs) = Some (map h xs)"
  by (induction xs) simp_all

lemma page_of_nth:
  assumes "sorted (map lp_first_ord live @ [stop])" "i < length live"
    "lp_first_ord (live ! i) \<le> a" "a < page_end live stop i"
  shows "page_of live a = live ! i"
proof -
  have later: "\<not> lp_first_ord p \<le> a" if "p \<in> set (drop (Suc i) live)" for p
  proof -
    have s: "Suc i < length live" using that by (cases "Suc i < length live") simp_all
    have "sorted (map lp_first_ord (drop (Suc i) live))"
      using assms(1) by (simp add: sorted_append drop_map [symmetric] sorted_wrt_drop)
    moreover have "drop (Suc i) live = live ! Suc i # drop (Suc (Suc i)) live"
      using s by (simp add: Cons_nth_drop_Suc)
    ultimately have "lp_first_ord (live ! Suc i) \<le> lp_first_ord p" using that by auto
    then show ?thesis using assms(4) s by (simp add: page_end_def)
  qed
  have f: "filter (\<lambda>p. lp_first_ord p \<le> a) (drop (Suc i) live) = []"
    using later by (simp add: filter_empty_conv)
  show ?thesis
  proof (cases i)
    case 0
    then have "filter (\<lambda>p. lp_first_ord p \<le> a) (tl live) = []" using f by (simp add: drop_Suc)
    then show ?thesis using 0 assms(2) by (simp add: page_of_def find_rev hd_conv_nth)
  next
    case (Suc k)
    have "tl live = take k (tl live) @ live ! i # drop (Suc i) live"
      using assms(2) Suc id_take_nth_drop [of k "tl live"] by (simp add: nth_tl drop_Suc)
    then have "filter (\<lambda>p. lp_first_ord p \<le> a) (tl live) =
        filter (\<lambda>p. lp_first_ord p \<le> a) (take k (tl live)) @ [live ! i]"
      using f assms(3) by (metis (no_types, lifting) filter.simps(2) filter_append)
    then show ?thesis by (simp add: page_of_def find_rev)
  qed
qed

lemma page_end_le:
  assumes "sorted (map lp_first_ord live @ [stop])" "i < length live"
  shows "lp_first_ord (live ! i) \<le> page_end live stop i \<and> page_end live stop i \<le> stop"
proof -
  have s: "sorted (map lp_first_ord live)" "\<And>p. p \<in> set live \<Longrightarrow> lp_first_ord p \<le> stop"
    using assms(1) by (auto simp: sorted_append)
  show ?thesis
  proof (cases "Suc i < length live")
    case True
    then show ?thesis using s sorted_nth_mono [OF s(1), of i "Suc i"] by (simp add: page_end_def)
  next
    case False
    then show ?thesis using s(2) assms(2) by (simp add: page_end_def)
  qed
qed

lemma flash_segs_tile:
  assumes "sorted (map lp_first_ord (m_live r) @ [m_abs_ord r])"
  shows "segs_tile (flash_first_abs r) (flash_segs r) (m_abs_ord r)"
proof (cases "m_live r = []")
  case False
  let ?live = "m_live r" and ?n = "length (m_live r)"
  have le: "lp_first_ord (?live ! i) \<le> page_end ?live (m_abs_ord r) i" if "i < ?n" for i
    using page_end_le [OF assms that] by simp
  have "segs_tile (lp_first_ord (?live ! i)) (map (flash_seg r) [i..<?n]) (m_abs_ord r)" if "i < ?n" for i
    using that
  proof (induction "?n - i" arbitrary: i)
    case (Suc m)
    show ?case
    proof (cases "Suc i < ?n")
      case True
      then show ?thesis
        using Suc.hyps(1) [of "Suc i"] Suc.hyps(2) Suc.prems le [of i]
        by (simp add: upt_conv_Cons flash_seg_def Let_def page_end_def)
    next
      case False
      then show ?thesis
        using Suc.prems le [of i] by (simp add: upt_conv_Cons flash_seg_def Let_def page_end_def)
    qed
  qed simp
  from this [of 0] show ?thesis using False by (simp add: flash_segs_def flash_first_abs_def hd_conv_nth)
qed (simp add: flash_segs_def flash_first_abs_def)

lemma seg_of_page:
  assumes "sorted (map lp_first_ord (m_live r) @ [m_abs_ord r])" "i < length (m_live r)"
    "lp_first_ord (m_live r ! i) \<le> a" "a < page_end (m_live r) (m_abs_ord r) i"
  shows "seg_of (flash_segs r) a = flash_seg r i"
  by (rule seg_of_tile [OF flash_segs_tile [OF assms(1)]])
    (use assms in \<open>auto simp: flash_segs_def flash_seg_def Let_def page_end_def\<close>)

text \<open>A record of a page that is not the head reads the flash; one of the head the stream and its
  staged tail.\<close>

lemma flash_read_page:
  assumes laws: "flash_laws dev c" and ok: "flash_ok c sz r" and i: "i < length (m_live r)"
    "lp_first_ord (m_live r ! i) \<le> a" "a < page_end (m_live r) (m_abs_ord r) i"
  shows "flash_read dev sz r a = Some (take sz (drop ((a - lp_first_ord (m_live r ! i)) * sz)
    (if Suc i < length (m_live r) then flushed c (m_flash r) (lp_data (m_live r ! i)) (lp_cap (m_live r ! i))
     else head_bytes c r)))"
proof -
  let ?live = "m_live r" and ?p = "m_live r ! i" and ?f = "m_flash r"
  let ?l = "a - lp_first_ord (m_live r ! i)"
  let ?bs = "if Suc i < length ?live then flushed c ?f (lp_data ?p) (lp_cap ?p) else head_bytes c r"
  have srt: "sorted (map lp_first_ord ?live @ [m_abs_ord r])" and po: "phys_ok (m_last_phys r) ?live"
    and rdy: "m_ready r" using ok by (simp_all add: flash_ok_def)
  have ne: "?live \<noteq> []" using i by auto
  have rng: "lp_first_ord (hd ?live) \<le> a" "a < m_abs_ord r"
  proof -
    have "lp_first_ord (hd ?live) \<le> lp_first_ord ?p"
    proof -
      have "sorted (map lp_first_ord ?live)" using srt by (simp add: sorted_append)
      then show ?thesis using i(1) ne sorted_nth_mono [of "map lp_first_ord ?live" 0 i] by (simp add: hd_conv_nth)
    qed
    then show "lp_first_ord (hd ?live) \<le> a" using i(2) by simp
    have "page_end ?live (m_abs_ord r) i \<le> m_abs_ord r" using srt by (simp add: page_end_def sorted_append)
    then show "a < m_abs_ord r" using i(3) by simp
  qed
  have cap: "(?l + 1) * sz \<le> lp_cap ?p"
  proof -
    have "?l + 1 \<le> page_end ?live (m_abs_ord r) i - lp_first_ord ?p" using i(2,3) by simp
    then have "(?l + 1) * sz \<le> (page_end ?live (m_abs_ord r) i - lp_first_ord ?p) * sz" by (rule mult_le_mono1)
    also have "\<dots> \<le> lp_cap ?p" using ok i(1) by (simp add: flash_ok_def)
    finally show ?thesis .
  qed
  have fin: "page_off (lp_phys ?p) + 2048 \<le> FLASH_SIZE"
    by (rule data_bounds(4)) (use phys_lt [OF po] i(1) in simp)
  have rd1: "map_option hd (fd_read dev ?f (lp_data ?p + d div 7 * 8 + d mod 7) 1) = Some (c ?f (data_pos (lp_data ?p) d))"
    if "d < lp_cap ?p" for d
  proof -
    have "d < lp_cap ?p div 7 * 7" using that by (simp add: lp_cap_def split: if_splits)
    then have "data_pos (lp_data ?p) d + 1 \<le> FLASH_SIZE"
      using data_pos_bound [of d "lp_cap ?p div 7" "lp_data ?p"] data_bounds(3) [of ?p] fin by simp
    then show ?thesis using law_read [OF laws] by (simp add: data_pos_def)
  qed
  have hd: "i = length ?live - 1" if "\<not> Suc i < length ?live" using that i(1) by simp
  have ish: "lp_phys ?p = lp_phys (last ?live) \<longleftrightarrow> \<not> Suc i < length ?live"
  proof (cases "Suc i < length ?live")
    case True
    then have "length ?live - 1 < length ?live" "i \<noteq> length ?live - 1" by linarith+
    then show ?thesis using phys_distinct [OF po i(1)] ne True by (simp add: last_conv_nth)
  next
    case False
    then show ?thesis using hd ne by (simp add: last_conv_nth)
  qed
  have len: "(?l + 1) * sz \<le> length ?bs"
  proof (cases "Suc i < length ?live")
    case True
    then show ?thesis using cap by simp
  next
    case False
    have "head_ok c sz r" using ok ne by (simp add: flash_ok_def)
    then have "head_records r * sz \<le> length (head_bytes c r)" by (simp add: head_ok_def Let_def head_bytes_def)
    moreover have "?l + 1 \<le> head_records r"
      using False i(2,3) hd ne by (simp add: head_records_def page_end_def last_conv_nth)
    then have "(?l + 1) * sz \<le> head_records r * sz" by (rule mult_le_mono1)
    ultimately show ?thesis using False by simp
  qed
  have sb: "stream_byte dev r ?p d = Some (?bs ! d)" if "d < (?l + 1) * sz" for d
  proof (cases "Suc i < length ?live")
    case True
    then show ?thesis
      using rd1 [of d] ish that cap ne
      by (simp add: stream_byte_def Let_def lp_data_def [symmetric] DW_DATA_def DW_SIZE_def flushed_def)
  next
    case False
    then have p: "last ?live = ?p" using hd ne by (simp add: last_conv_nth)
    have hb: "?bs = flushed c ?f (lp_data ?p) (m_head_dw r * 7) @ m_stage r" using False by (simp add: head_bytes_def p)
    have "d < length (head_bytes c r)" using that len False by simp
    then show ?thesis
      using False rd1 [of d] that cap ne
      by (auto simp: stream_byte_def Let_def lp_data_def [symmetric] DW_DATA_def DW_SIZE_def hb nth_append p
          head_bytes_def) (auto simp: flushed_def)
  qed
  have "page_read_stream dev r ?p (?l * sz) sz = Some (map (\<lambda>d. ?bs ! d) [?l * sz..<?l * sz + sz])"
    unfolding page_read_stream_def by (rule those_map_Some) (use sb in simp)
  also have "map (\<lambda>d. ?bs ! d) [?l * sz..<?l * sz + sz] = take sz (drop (?l * sz) ?bs)"
    by (rule nth_equalityI) (use len in simp_all)
  finally show ?thesis
    using rdy ne rng page_of_nth [OF srt i] by (simp add: flash_read_def Let_def)
qed

lemma flash_view_pages:
  assumes laws: "flash_laws dev c" and ok: "flash_ok c sz r"
  shows "flash_view dev sz iv r = pages_view c sz iv (m_flash r) (m_live r) (m_abs_ord r) (head_bytes c r)"
proof (cases "m_live r = []")
  case True
  then show ?thesis by (simp add: flash_view_def flash_first_abs_def)
next
  case False
  let ?live = "m_live r" and ?stop = "m_abs_ord r"
  let ?g = "\<lambda>a. (flash_read dev sz r a, seg_time iv (seg_of (flash_segs r) a) a, sg_synced (seg_of (flash_segs r) a))"
  have srt: "sorted (map lp_first_ord ?live @ [?stop])" using ok by (simp add: flash_ok_def)
  have page: "map ?g [lp_first_ord (?live ! i)..<page_end ?live ?stop i] =
      recs_view sz iv (?live ! i) (page_end ?live ?stop i - lp_first_ord (?live ! i))
       (if Suc i < length ?live then flushed c (m_flash r) (lp_data (?live ! i)) (lp_cap (?live ! i))
        else head_bytes c r)" (is "?A = ?B") if i: "i < length ?live" for i
  proof (rule nth_equalityI)
    show "length ?A = length ?B" by (simp add: recs_view_def)
    fix j assume "j < length ?A"
    then have j: "j < page_end ?live ?stop i - lp_first_ord (?live ! i)" by simp
    let ?a = "lp_first_ord (?live ! i) + j"
    have a: "lp_first_ord (?live ! i) \<le> ?a" "?a < page_end ?live ?stop i" using j by simp_all
    show "?A ! j = ?B ! j"
      using j flash_read_page [OF laws ok i a] seg_of_page [OF srt i a]
      by (simp add: recs_view_def flash_seg_def Let_def seg_time_def)
  qed
  note le = page_end_le [OF srt]
  have "map ?g [lp_first_ord (?live ! i)..<?stop] =
      pages_view c sz iv (m_flash r) (drop i ?live) ?stop (head_bytes c r)" if "i < length ?live" for i
    using that
  proof (induction "length ?live - i" arbitrary: i)
    case (Suc m)
    have d: "drop i ?live = ?live ! i # drop (Suc i) ?live" using Suc.prems by (simp add: Cons_nth_drop_Suc)
    show ?case
    proof (cases "Suc i < length ?live")
      case True
      have d2: "drop (Suc i) ?live = ?live ! Suc i # drop (Suc (Suc i)) ?live"
        using True by (simp add: Cons_nth_drop_Suc)
      have e: "page_end ?live ?stop i = lp_first_ord (?live ! Suc i)" using True by (simp add: page_end_def)
      have "[lp_first_ord (?live ! i)..<?stop] =
          [lp_first_ord (?live ! i)..<page_end ?live ?stop i] @ [page_end ?live ?stop i..<?stop]"
        using le [OF Suc.prems] by (metis le_add_diff_inverse upt_add_eq_append)
      moreover have "map ?g [lp_first_ord (?live ! Suc i)..<?stop] =
          pages_view c sz iv (m_flash r) (drop (Suc i) ?live) ?stop (head_bytes c r)"
        using Suc.hyps(1) [of "Suc i"] Suc.hyps(2) True by simp
      ultimately show ?thesis
        unfolding d using page [OF Suc.prems] True e by (simp add: d2)
    next
      case False
      then have "drop (Suc i) ?live = []" "page_end ?live ?stop i = ?stop" by (simp_all add: page_end_def)
      then show ?thesis unfolding d using page [OF Suc.prems] False by simp
    qed
  qed simp
  from this [of 0] show ?thesis using False by (simp add: flash_view_def flash_first_abs_def hd_conv_nth)
qed

lemma recs_view_prefix:
  assumes "n * sz \<le> length bs" "take (length bs) bs' = bs"
  shows "recs_view sz iv p n bs' = recs_view sz iv p n bs"
  unfolding recs_view_def
proof (rule map_cong [OF refl])
  fix l assume "l \<in> set [0..<n]"
  then have "(l + 1) * sz \<le> n * sz" by (intro mult_le_mono1) simp
  then have "take sz (drop (l * sz) (take (length bs) bs')) = take sz (drop (l * sz) bs')"
    using assms(1) by (simp add: drop_take min_def)
  then show "(Some (take sz (drop (l * sz) bs')), lp_base_time p + of_nat l * iv, lp_synced p) =
      (Some (take sz (drop (l * sz) bs)), lp_base_time p + of_nat l * iv, lp_synced p)"
    using assms(2) by simp
qed

lemma recs_view_Suc:
  "length bs = n * sz \<Longrightarrow> length rec = sz \<Longrightarrow>
   recs_view sz iv p (Suc n) (bs @ rec) =
     recs_view sz iv p n bs @ [(Some rec, lp_base_time p + of_nat n * iv, lp_synced p)]"
  using recs_view_prefix [of n sz bs "bs @ rec" iv p] by (simp add: recs_view_def)

text \<open>Only the pages themselves matter for the view.\<close>

lemma pages_view_cong:
  "(\<And>p x. p \<in> set (butlast live) \<Longrightarrow> page_off (lp_phys p) \<le> x \<Longrightarrow> x < page_off (lp_phys p) + 2048 \<Longrightarrow>
      c f' x = c f x) \<Longrightarrow>
   pages_view c sz iv f' live stop hb = pages_view c sz iv f live stop hb"
proof (induction live rule: induct_list012)
  case (3 p q ps)
  have "flushed c f' (lp_data p) (lp_cap p) = flushed c f (lp_data p) (lp_cap p)"
  proof (rule flushed_cong [of _ "lp_cap p div 7"])
    fix x assume "lp_data p \<le> x" "x < lp_data p + lp_cap p div 7 * 8"
    then show "c f' x = c f x" using data_bounds(2,3) [of p] by (intro 3(3) [of p]) simp_all
  qed (simp add: lp_cap_def)
  moreover have "pages_view c sz iv f' (q # ps) stop hb = pages_view c sz iv f (q # ps) stop hb"
    by (rule 3(2)) (rule 3(3), simp_all)
  ultimately show ?case by simp
qed simp_all

lemma pages_view_stop:
  "live \<noteq> [] \<Longrightarrow> pages_view c sz iv f live stop hb =
     pages_view c sz iv f live (lp_first_ord (last live)) [] @
     recs_view sz iv (last live) (stop - lp_first_ord (last live)) hb"
  by (induction live rule: induct_list012) (simp_all add: recs_view_def)

lemma pages_view_snoc:
  assumes "live \<noteq> []" "lp_first_ord p = stop" "(stop - lp_first_ord (last live)) * sz \<le> length hb"
    "take (length hb) (flushed c f (lp_data (last live)) (lp_cap (last live))) = hb"
  shows "pages_view c sz iv f (live @ [p]) stop' hb' =
    pages_view c sz iv f live stop hb @ recs_view sz iv p (stop' - stop) hb'"
  using assms
proof (induction live rule: induct_list012)
  case (2 q)
  have "recs_view sz iv q (stop - lp_first_ord q) (flushed c f (lp_data q) (lp_cap q)) =
      recs_view sz iv q (stop - lp_first_ord q) hb"
    by (rule recs_view_prefix) (use 2(3,4) in \<open>simp_all only: last.simps if_True simp_thms\<close>)
  then show ?case using 2(2) by simp
next
  case (3 q q' qs)
  have "pages_view c sz iv f ((q' # qs) @ [p]) stop' hb' =
      pages_view c sz iv f (q' # qs) stop hb @ recs_view sz iv p (stop' - stop) hb'"
    by (rule 3(2)) (use 3(4-6) in \<open>simp_all only: last.simps if_False list.distinct simp_thms\<close>)
  then show ?case by simp
qed simp_all

lemma pages_view_tl:
  assumes "1 < length live" "sorted (map lp_first_ord live)"
  shows "pages_view c sz iv f (tl live) stop hb =
    drop (lp_first_ord (live ! 1) - lp_first_ord (hd live)) (pages_view c sz iv f live stop hb)"
proof -
  obtain p q ps where "live = p # q # ps" using assms(1) by (cases live; cases "tl live") auto
  then show ?thesis by (simp add: recs_view_def)
qed

end
