(* ===== verification/FlashAppend.thy ===== *)
theory FlashAppend
  imports FlashProps
begin

text \<open>
  Appending to the flash ring: closing the head page, opening the next one (and evicting the oldest when
  the ring wraps onto it), streaming the record, and what a reader sees of it.
\<close>

subsection \<open>Closing the head page\<close>

lemma head_ok_full: "head_ok c sz r \<Longrightarrow> head_ok c sz (r\<lparr>m_head_full := True\<rparr>)"
  by (auto simp: head_ok_def Let_def head_records_def)

lemma flash_ok_full: "flash_ok c sz r \<Longrightarrow> flash_ok c sz (r\<lparr>m_head_full := True\<rparr>)"
  by (auto simp: flash_ok_def head_ok_full)

lemma lp_phys_last_lt: "flash_ok c sz r \<Longrightarrow> m_live r \<noteq> [] \<Longrightarrow> lp_phys (last (m_live r)) < 16"
  using phys_lt [of "m_last_phys r" "m_live r"] by (auto simp: flash_ok_def)

lemma head_data_off_eq: "head_data_off r = lp_data (last (m_live r)) + m_head_dw r * 8"
  by (simp add: head_data_off_def lp_data_def Let_def DW_SIZE_def)

lemma flush_pad:
  assumes laws: "flash_laws dev c" and ok: "flash_ok c sz r" and ne: "m_live r \<noteq> []"
  obtains f' dw' pad where
    "flush_stage_pad dev r = (None, r\<lparr>m_flash := f', m_head_dw := dw', m_stage := []\<rparr>)"
    "flash_ok c sz (r\<lparr>m_flash := f', m_head_dw := dw', m_stage := [], m_head_full := True\<rparr>)"
    "flushed c f' (lp_data (last (m_live r))) (dw' * 7) = head_bytes c r @ pad"
    "\<And>x. x < lp_data (last (m_live r)) \<or> lp_data (last (m_live r)) + 2008 \<le> x \<Longrightarrow> c f' x = c (m_flash r) x"
    "lp_v2 (last (m_live r)) \<or> (\<forall>x. c f' x = c (m_flash r) x)"
    "if m_stage r = [] then f' = m_flash r \<and> dw' = m_head_dw r
     else dw' = m_head_dw r + 1 \<and> erased c f' (lp_data (last (m_live r)) + dw' * 8) (lp_data (last (m_live r)) + 2008)"
proof (cases "m_stage r = []")
  case True
  have "r = r\<lparr>m_flash := m_flash r, m_head_dw := m_head_dw r, m_stage := []\<rparr>" using True by simp
  moreover have "r\<lparr>m_flash := m_flash r, m_head_dw := m_head_dw r, m_stage := [], m_head_full := True\<rparr> =
      r\<lparr>m_head_full := True\<rparr>" using True by (cases r) simp
  then have "flash_ok c sz (r\<lparr>m_flash := m_flash r, m_head_dw := m_head_dw r, m_stage := [], m_head_full := True\<rparr>)"
    using flash_ok_full [OF ok] by simp
  ultimately show ?thesis
    using that [where f' = "m_flash r" and dw' = "m_head_dw r" and pad = "[]"] True by (simp add: flush_stage_pad_def head_bytes_def)
next
  case False
  let ?h = "last (m_live r)" and ?dw = "m_head_dw r" and ?f = "m_flash r"
  let ?data = "lp_data ?h" and ?pad = "replicate (7 - length (m_stage r)) (0 :: u8)"
  have h: "head_ok c sz r" "length (m_stage r) < 7" using ok ne by (simp_all add: flash_ok_def)
  then have v2: "lp_v2 ?h" and er: "erased c ?f (?data + ?dw * 8) (?data + 2008)"
    and n: "?dw * 7 + length (m_stage r) \<le> 1757" and fr: "framed c ?f ?data ?dw"
    and rec: "head_records r * sz \<le> ?dw * 7 + length (m_stage r)"
    using False by (auto simp: head_ok_def Let_def lp_cap_def split: if_splits)
  have "0 < length (m_stage r)" using False by simp
  then have dw: "?dw + 1 \<le> 251" using n by linarith
  have fin: "?data + 2008 \<le> FLASH_SIZE"
    using data_bounds(3,4) [of ?h] lp_phys_last_lt [OF ok ne] v2 by (simp add: lp_cap_def)
  have l7: "length (m_stage r @ ?pad) = 7" using h(2) by simp
  have fit: "?data + ?dw * 8 + 8 \<le> FLASH_SIZE" using dw fin by linarith
  have er': "c ?f x = 0xFF" if "?data + ?dw * 8 \<le> x" "x < ?data + ?dw * 8 + 8" for x
    using er that dw by (simp add: erased_def)
  obtain f' where f': "fd_write dev (?data + ?dw * 8) ((m_stage r @ ?pad) @ [FRAME_BYTE]) ?f = (None, f')"
      "flushed c f' ?data (?dw * 7 + 7) = flushed c ?f ?data (?dw * 7) @ m_stage r @ ?pad"
      "\<And>x. x < ?data + ?dw * 8 \<or> ?data + ?dw * 8 + 8 \<le> x \<Longrightarrow> c f' x = c ?f x"
      "c f' (?data + ?dw * 8 + 7) = FRAME_BYTE"
    using flushed_write [OF laws l7 data_bounds(1) fit er'] by blast
  have other: "c f' x = c ?f x" if "x < ?data \<or> ?data + 2008 \<le> x" for x
    using that dw by (intro f'(3)) linarith
  have fl: "flushed c f' ?data ((?dw + 1) * 7) = head_bytes c r @ ?pad"
    using f'(2) by (simp add: head_bytes_def add.commute)
  have rec': "head_records r * sz \<le> ?dw * 7 + 7" using rec h(2) by linarith
  have "framed c f' ?data (?dw + 1)" using framed_Suc [OF fr f'(4)] f'(3) by simp
  then have "head_ok c sz (r\<lparr>m_flash := f', m_head_dw := ?dw + 1, m_stage := [], m_head_full := True\<rparr>)"
    using rec' ne dw v2 by (simp add: head_ok_def Let_def head_records_def lp_cap_def)
  then have ok': "flash_ok c sz (r\<lparr>m_flash := f', m_head_dw := ?dw + 1, m_stage := [], m_head_full := True\<rparr>)"
    using ok by (simp add: flash_ok_def)
  have "flush_stage_pad dev r = (None, r\<lparr>m_flash := f', m_head_dw := ?dw + 1, m_stage := []\<rparr>)"
    using False f'(1) by (simp add: flush_stage_pad_def head_data_off_eq DW_DATA_def)
  moreover have "erased c f' (?data + (?dw + 1) * 8) (?data + 2008)"
    unfolding erased_def
  proof (intro allI impI)
    fix x assume x: "?data + (?dw + 1) * 8 \<le> x \<and> x < ?data + 2008"
    then have "c f' x = c ?f x" by (intro f'(3)) simp
    then show "c f' x = 0xFF" using er x by (simp add: erased_def)
  qed
  ultimately show ?thesis using that [where f' = f' and dw' = "?dw + 1" and pad = ?pad] ok' fl other v2 False by simp
qed

text \<open>Writing to the head page leaves the records of the other pages.\<close>

lemma pages_view_head_write:
  assumes po: "phys_ok l live" and ne: "live \<noteq> []"
    and other: "\<And>x. x < lp_data (last live) \<or> lp_data (last live) + 2008 \<le> x \<Longrightarrow> c f' x = c f x"
    and v2: "lp_v2 (last live) \<or> (\<forall>x. c f' x = c f x)"
  shows "pages_view c sz iv f' live stop hb = pages_view c sz iv f live stop hb"
proof (rule pages_view_cong)
  fix p x
  assume p: "p \<in> set (butlast live)" and x: "page_off (lp_phys p) \<le> x" "x < page_off (lp_phys p) + 2048"
  obtain i where i: "i < length live - 1" "p = live ! i"
    using p by (auto simp: in_set_conv_nth nth_butlast)
  have "lp_phys p \<noteq> lp_phys (last live)"
    using phys_distinct [OF po, of i "length live - 1"] i ne by (simp add: last_conv_nth)
  then have "page_off (lp_phys p) + 2048 \<le> page_off (lp_phys (last live)) \<or>
      page_off (lp_phys (last live)) + 2048 \<le> page_off (lp_phys p)"
    by (auto simp: page_off_def PAGE_SIZE_def)
  then have out: "x < page_off (lp_phys (last live)) \<or> page_off (lp_phys (last live)) + 2048 \<le> x" using x by linarith
  show "c f' x = c f x"
  proof (cases "\<forall>x. c f' x = c f x")
    case False
    then have "lp_v2 (last live)" using v2 by blast
    then have "lp_data (last live) + 2008 = page_off (lp_phys (last live)) + 2048"
      using data_bounds(3) [of "last live"] by (simp add: lp_cap_def)
    then show ?thesis using out data_bounds(2) [of "last live"] by (intro other) linarith
  qed simp
qed

subsection \<open>Opening a page\<close>

lemma mod_add_le: "l < 16 \<Longrightarrow> n \<le> 16 \<Longrightarrow> 0 < n \<Longrightarrow> (l + 1) mod 16 = (l + 17 - n) mod 16 \<longleftrightarrow> n = (16 :: nat)"
proof -
  assume a: "l < 16" "n \<le> 16" "0 < n"
  show ?thesis
  proof
    assume e: "(l + 1) mod 16 = (l + 17 - n) mod 16"
    show "n = 16"
    proof (rule ccontr)
      assume "n \<noteq> 16"
      then have "(l + 1 + 0) mod 16 \<noteq> (l + 1 + (16 - n)) mod 16"
        using a by (intro mod_distinct) linarith+
      moreover have "l + 1 + (16 - n) = l + 17 - n" using a by linarith
      ultimately show False using e by (metis add.right_neutral)
    qed
  qed simp
qed

text \<open>The page after the head is the oldest one exactly when all sixteen are live.\<close>

lemma evict_iff:
  assumes "phys_ok l live" "live \<noteq> []"
  shows "(l + 1) mod 16 = lp_phys (hd live) \<longleftrightarrow> length live = 16"
proof -
  have "lp_phys (hd live) = (l + 17 - length live) mod 16"
    using assms by (simp add: phys_ok_def hd_conv_nth)
  then show ?thesis using mod_add_le [of l "length live"] assms by (simp add: phys_ok_def)
qed

lemma phys_ok_advance:
  assumes "phys_ok l live" "lp_phys p = (l + 1) mod 16"
  shows "phys_ok ((l + 1) mod 16) ((if length live = 16 then tl live else live) @ [p])"
proof -
  let ?n = "length live" and ?l' = "(l + 1) mod 16"
  have a: "l < 16" "?n \<le> 16" "\<And>i. i < ?n \<Longrightarrow> lp_phys (live ! i) = (l + 17 - ?n + i) mod 16"
    using assms(1) by (simp_all add: phys_ok_def)
  have sh: "(?l' + 17 - m + i) mod 16 = (l + 18 - m + i) mod 16" if "m \<le> 16" for m i
  proof -
    have "?l' + 17 - m + i = ?l' + (17 - m + i)" using that by linarith
    then have "(?l' + 17 - m + i) mod 16 = (?l' + (17 - m + i)) mod 16" by (rule arg_cong)
    also have "\<dots> = (l + 1 + (17 - m + i)) mod 16" by (simp add: mod_simps)
    also have "l + 1 + (17 - m + i) = l + 18 - m + i" using that by linarith
    finally show ?thesis .
  qed
  show ?thesis
  proof (cases "?n = 16")
    case True
    have "lp_phys ((tl live @ [p]) ! i) = (?l' + 17 - 16 + i) mod 16" if "i < 16" for i
    proof (cases "i < 15")
      case True
      then show ?thesis
        using \<open>?n = 16\<close> a(3) [of "Suc i"] sh [of 16 i] by (simp add: nth_append nth_tl)
    next
      case False
      then have "i = 15" using that by simp
      then show ?thesis using \<open>?n = 16\<close> assms(2) sh [of 16 15] by (simp add: nth_append mod_simps)
    qed
    then show ?thesis using True by (simp add: phys_ok_def)
  next
    case False
    then have n: "Suc ?n \<le> 16" using a(2) by simp
    have "lp_phys ((live @ [p]) ! i) = (?l' + 17 - Suc ?n + i) mod 16" if "i < Suc ?n" for i
    proof (cases "i < ?n")
      case True
      have "l + 18 - Suc ?n + i = l + 17 - ?n + i" by simp
      then show ?thesis using True a(3) sh [OF n, of i] by (simp add: nth_append)
    next
      case False
      then have i: "i = ?n" using that by simp
      have "l + 18 - Suc ?n + ?n = l + 1 + 16" using n by linarith
      moreover have "(l + 1 + 16) mod 16 = (l + 1) mod 16" by (rule mod_add_self2)
      ultimately have "(l + 18 - Suc ?n + ?n) mod 16 = (l + 1) mod 16" by simp
      then show ?thesis using i assms(2) sh [OF n, of i] by (simp add: nth_append)
    qed
    then show ?thesis using False n by (simp add: phys_ok_def)
  qed
qed

lemma length_hdr_bytes [simp]: "length (hdr_bytes h) = 32"
  by (simp add: hdr_bytes_def)

text \<open>Erase and header: the new page is erased after its header, the others are untouched.\<close>

lemma open_page:
  assumes laws: "flash_laws dev c" and p: "nxt < 16"
  obtains f1 f2 where "fd_erase dev (page_off nxt) PAGE_SIZE f = (None, f1)"
    "fd_write dev (page_off nxt) (hdr_bytes h) f1 = (None, f2)"
    "erased c f2 (page_off nxt + 32) (page_off nxt + 2048)"
    "\<And>i. i < 32 \<Longrightarrow> c f2 (page_off nxt + i) = hdr_bytes h ! i"
    "\<And>x. x < page_off nxt \<or> page_off nxt + 2048 \<le> x \<Longrightarrow> c f2 x = c f x"
proof -
  have fin: "page_off nxt + 2048 \<le> FLASH_SIZE" "page_off nxt mod 2048 = 0" "page_off nxt mod 8 = 0"
    using p by (auto simp: page_off_def FLASH_SIZE_def page_consts)
  obtain f1 where f1: "fd_erase dev (page_off nxt) 2048 f = (None, f1)"
      "\<forall>x. c f1 x = (if page_off nxt \<le> x \<and> x < page_off nxt + 2048 then 0xFF else c f x)"
    using law_erase [OF laws, of "page_off nxt" 2048 f] fin by auto
  have "\<exists>f'. fd_write dev (page_off nxt) (hdr_bytes h) f1 = (None, f') \<and>
      (\<forall>i < length (hdr_bytes h). c f' (page_off nxt + i) = hdr_bytes h ! i) \<and>
      (\<forall>x. x < page_off nxt \<or> page_off nxt + length (hdr_bytes h) \<le> x \<longrightarrow> c f' x = c f1 x)"
    by (rule law_write [OF laws]) (use fin f1(2) in auto)
  then obtain f2 where f2: "fd_write dev (page_off nxt) (hdr_bytes h) f1 = (None, f2)"
      "\<forall>i < 32. c f2 (page_off nxt + i) = hdr_bytes h ! i"
      "\<forall>x. x < page_off nxt \<or> page_off nxt + 32 \<le> x \<longrightarrow> c f2 x = c f1 x"
    by auto
  show thesis
  proof (rule that [OF _ f2(1)])
    show "fd_erase dev (page_off nxt) PAGE_SIZE f = (None, f1)" using f1(1) by (simp add: PAGE_SIZE_def)
    show "erased c f2 (page_off nxt + 32) (page_off nxt + 2048)"
      unfolding erased_def
    proof (intro allI impI)
      fix x assume x: "page_off nxt + 32 \<le> x \<and> x < page_off nxt + 2048"
      then have "c f2 x = c f1 x" using f2(3) by blast
      then show "c f2 x = 0xFF" using f1(2) x by simp
    qed
    show "c f2 (page_off nxt + i) = hdr_bytes h ! i" if "i < 32" for i using f2(2) that by simp
    show "c f2 x = c f x" if "x < page_off nxt \<or> page_off nxt + 2048 \<le> x" for x
    proof -
      have "c f2 x = c f1 x" using f2(3) that by fastforce
      then show ?thesis using f1(2) that by auto
    qed
  qed
qed

abbreviation cview :: "('f \<Rightarrow> nat \<Rightarrow> u8) \<Rightarrow> nat \<Rightarrow> u32 \<Rightarrow> 'f flash_ring \<Rightarrow> (bytes option \<times> u32 \<times> bool) list" where
  "cview c sz iv r \<equiv> pages_view c sz iv (m_flash r) (m_live r) (m_abs_ord r) (head_bytes c r)"

lemma take_flushed: "n \<le> m \<Longrightarrow> take n (flushed c f data m) = flushed c f data n"
  by (simp add: flushed_def take_map)

text \<open>Padding the head's last double word shows in no record.\<close>

lemma flush_pad_view:
  assumes ok: "flash_ok c sz r" and ne: "m_live r \<noteq> []"
    and fl: "flushed c f' (lp_data (last (m_live r))) (dw' * 7) = head_bytes c r @ pad"
    and other: "\<And>x. x < lp_data (last (m_live r)) \<or> lp_data (last (m_live r)) + 2008 \<le> x \<Longrightarrow>
      c f' x = c (m_flash r) x"
    and v2: "lp_v2 (last (m_live r)) \<or> (\<forall>x. c f' x = c (m_flash r) x)"
  shows "pages_view c sz iv f' (m_live r) (m_abs_ord r) (flushed c f' (lp_data (last (m_live r))) (dw' * 7)) =
    cview c sz iv r"
proof -
  let ?h = "last (m_live r)"
  have po: "phys_ok (m_last_phys r) (m_live r)" and h: "head_ok c sz r" using ok ne by (simp_all add: flash_ok_def)
  have "(m_abs_ord r - lp_first_ord ?h) * sz \<le> length (head_bytes c r)"
    using h ne by (simp add: head_ok_def Let_def head_records_def head_bytes_def)
  then have "recs_view sz iv ?h (m_abs_ord r - lp_first_ord ?h) (head_bytes c r @ pad) =
      recs_view sz iv ?h (m_abs_ord r - lp_first_ord ?h) (head_bytes c r)"
    by (rule recs_view_prefix) simp
  then have "pages_view c sz iv f' (m_live r) (m_abs_ord r) (head_bytes c r @ pad) =
      pages_view c sz iv (m_flash r) (m_live r) (lp_first_ord ?h) [] @
        recs_view sz iv ?h (m_abs_ord r - lp_first_ord ?h) (head_bytes c r)"
    by (subst pages_view_stop [OF ne]) (simp only: pages_view_head_write [OF po ne other v2])
  also have "\<dots> = cview c sz iv r" by (rule pages_view_stop [OF ne, symmetric])
  finally show ?thesis unfolding fl .
qed

lemma sorted_firsts: "flash_ok c sz r \<Longrightarrow> sorted (map lp_first_ord (m_live r))"
  by (simp add: flash_ok_def sorted_append)

lemma advance_ok:
  assumes laws: "flash_laws dev c" and ok: "flash_ok c sz r"
  obtains ev r' where "advance_page dev crc16 env base synced r = (Inr ev, r')"
    "flash_ok c sz r'" "\<not> m_head_full r'" "m_stage r' = []" "m_head_dw r' = 0"
    "m_abs_ord r' = m_abs_ord r" "m_next_seq r' = m_next_seq r + 1"
    "m_last_phys r' = (m_last_phys r + 1) mod 16"
    "m_live r' = (if length (m_live r) = 16 then tl (m_live r) else m_live r) @
       [\<lparr>lp_first_ord = m_abs_ord r, lp_base_time = base, lp_phys = (m_last_phys r + 1) mod 16,
         lp_synced = synced, lp_cur_boot = True, lp_v2 = True, lp_fixup = False\<rparr>]"
    "ev = (if length (m_live r) = 16 then lp_first_ord (m_live r ! 1) - lp_first_ord (hd (m_live r)) else 0)"
    "cview c sz iv r' = drop ev (cview c sz iv r)"
    "\<And>i. i < 32 \<Longrightarrow> c (m_flash r') (page_off (m_last_phys r') + i) =
       hdr_bytes (new_hdr crc16 env base synced r) ! i"
    "erased c (m_flash r') (page_off (m_last_phys r') + 32) (page_off (m_last_phys r') + 2048)"
    "\<And>x. m_live r = [] \<or> \<not> lp_v2 (last (m_live r)) \<or> x < lp_data (last (m_live r)) \<or>
         lp_data (last (m_live r)) + 2008 \<le> x \<Longrightarrow>
       x < page_off (m_last_phys r') \<or> page_off (m_last_phys r') + 2048 \<le> x \<Longrightarrow>
       c (m_flash r') x = c (m_flash r) x"
proof -
  let ?live = "m_live r" and ?abs = "m_abs_ord r" and ?nxt = "(m_last_phys r + 1) mod 16"
  let ?new = "\<lparr>lp_first_ord = ?abs, lp_base_time = base, lp_phys = ?nxt,
         lp_synced = synced, lp_cur_boot = True, lp_v2 = True, lp_fixup = False\<rparr>"
  have po: "phys_ok (m_last_phys r) ?live" using ok by (simp add: flash_ok_def)
  obtain f' dw' pad where fl: "(if ?live \<noteq> [] then flush_stage_pad dev r else (None, r)) =
        (None, r\<lparr>m_flash := f', m_head_dw := dw', m_stage := (if ?live \<noteq> [] then [] else m_stage r)\<rparr>)"
      "?live \<noteq> [] \<Longrightarrow> flash_ok c sz (r\<lparr>m_flash := f', m_head_dw := dw', m_stage := [], m_head_full := True\<rparr>)"
      "?live \<noteq> [] \<Longrightarrow> flushed c f' (lp_data (last ?live)) (dw' * 7) = head_bytes c r @ pad"
      "\<And>x. ?live = [] \<or> x < lp_data (last ?live) \<or> lp_data (last ?live) + 2008 \<le> x \<Longrightarrow> c f' x = c (m_flash r) x"
      "?live \<noteq> [] \<Longrightarrow> lp_v2 (last ?live) \<or> (\<forall>x. c f' x = c (m_flash r) x)"
  proof (cases "?live = []")
    case True
    show thesis
    proof (rule that [where f' = "m_flash r" and dw' = "m_head_dw r" and pad = "[]"])
      show "(if ?live \<noteq> [] then flush_stage_pad dev r else (None, r)) =
        (None, r\<lparr>m_flash := m_flash r, m_head_dw := m_head_dw r, m_stage := (if ?live \<noteq> [] then [] else m_stage r)\<rparr>)"
        using True by simp
    qed (use True in blast)+
  next
    case False
    show thesis
    proof (rule flush_pad [OF laws ok False])
      fix f' dw' pad
      assume "flush_stage_pad dev r = (None, r\<lparr>m_flash := f', m_head_dw := dw', m_stage := []\<rparr>)"
        "flash_ok c sz (r\<lparr>m_flash := f', m_head_dw := dw', m_stage := [], m_head_full := True\<rparr>)"
        "flushed c f' (lp_data (last ?live)) (dw' * 7) = head_bytes c r @ pad"
        "\<And>x. x < lp_data (last ?live) \<or> lp_data (last ?live) + 2008 \<le> x \<Longrightarrow> c f' x = c (m_flash r) x"
        "lp_v2 (last ?live) \<or> (\<forall>x. c f' x = c (m_flash r) x)"
      then show thesis using that [where f' = f' and dw' = dw' and pad = pad] False by simp
    qed
  qed
  define rf where "rf = r\<lparr>m_flash := f', m_head_dw := dw', m_stage := (if ?live \<noteq> [] then [] else m_stage r)\<rparr>"
  have rf: "m_live rf = ?live" "m_abs_ord rf = ?abs" "m_last_phys rf = m_last_phys r" "m_flash rf = f'"
    "new_hdr crc16 env base synced rf = new_hdr crc16 env base synced r"
    by (simp_all add: rf_def new_hdr_def)
  obtain f1 f2 where op: "fd_erase dev (page_off ?nxt) PAGE_SIZE f' = (None, f1)"
      "fd_write dev (page_off ?nxt) (hdr_bytes (new_hdr crc16 env base synced r)) f1 = (None, f2)"
      "erased c f2 (page_off ?nxt + 32) (page_off ?nxt + 2048)"
      "\<And>i. i < 32 \<Longrightarrow> c f2 (page_off ?nxt + i) = hdr_bytes (new_hdr crc16 env base synced r) ! i"
      "\<And>x. x < page_off ?nxt \<or> page_off ?nxt + 2048 \<le> x \<Longrightarrow> c f2 x = c f' x"
    using open_page [OF laws, of ?nxt f' "new_hdr crc16 env base synced r"] by (metis mod_less_divisor zero_less_numeral)
  define ev where "ev = (if length ?live = 16 then lp_first_ord (?live ! 1) - lp_first_ord (hd ?live) else 0)"
  define live' where "live' = (if length ?live = 16 then tl ?live else ?live) @ [?new]"
  define r' where "r' = rf\<lparr>m_flash := f2, m_next_seq := m_next_seq r + 1, m_last_phys := ?nxt, m_live := live',
      m_head_dw := 0, m_stage := [], m_head_full := False\<rparr>"
  have wi: "(?live \<noteq> [] \<and> ?nxt = lp_phys (hd ?live)) = (length ?live = 16)"
    using evict_iff [OF po] by (cases "?live = []") auto
  have np: "HIST_NPAGES = 16" by (simp add: page_consts)
  have tail: "(if length ?live = 16 then (if 1 < length ?live then lp_first_ord (?live ! 1) - lp_first_ord (hd ?live)
      else ?abs - lp_first_ord (hd ?live)) else 0) = ev" by (simp add: ev_def)
  have seq: "m_next_seq rf = m_next_seq r" by (simp add: rf_def)
  have adv: "advance_page dev crc16 env base synced r = (Inr ev, r')"
    unfolding advance_page_def fl(1) rf_def [symmetric]
    by (simp only: prod.case option.case Let_def rf seq np wi op(1,2) tail r'_def live'_def)
  show thesis
  proof (rule that [OF adv])
    let ?r = r'
    have fields: "m_live r' = live'" "m_flash r' = f2" "m_abs_ord r' = ?abs" "m_last_phys r' = ?nxt"
      "m_next_seq r' = m_next_seq r + 1" "m_head_dw r' = 0" "m_stage r' = []" "\<not> m_head_full r'"
      "m_ready r' = m_ready r"
      by (simp_all add: r'_def rf_def)
    show "\<not> m_head_full r'" "m_stage r' = []" "m_head_dw r' = 0" "m_abs_ord r' = ?abs"
      "m_next_seq r' = m_next_seq r + 1" "m_last_phys r' = ?nxt" by (simp_all only: fields simp_thms)
    show "m_live r' = (if length ?live = 16 then tl ?live else ?live) @ [?new]"
      by (simp only: fields live'_def)
    show "ev = (if length ?live = 16 then lp_first_ord (?live ! 1) - lp_first_ord (hd ?live) else 0)"
      by (rule ev_def)
    show "c (m_flash r') (page_off (m_last_phys r') + i) = hdr_bytes (new_hdr crc16 env base synced r) ! i"
      if "i < 32" for i using op(4) [OF that] by (simp only: fields)
    show "erased c (m_flash r') (page_off (m_last_phys r') + 32) (page_off (m_last_phys r') + 2048)"
      using op(3) by (simp only: fields)
    show "c (m_flash r') x = c (m_flash r) x"
      if "?live = [] \<or> \<not> lp_v2 (last ?live) \<or> x < lp_data (last ?live) \<or> lp_data (last ?live) + 2008 \<le> x"
        "x < page_off (m_last_phys r') \<or> page_off (m_last_phys r') + 2048 \<le> x" for x
    proof -
      have "c f' x = c (m_flash r) x" using that(1) fl(4) [of x] fl(5) by blast
      then show ?thesis using op(5) [of x] that(2) by (simp only: fields)
    qed
    have po': "phys_ok ?nxt live'" unfolding live'_def by (rule phys_ok_advance [OF po]) simp
    have lastn: "last live' = ?new" "live' \<noteq> []" by (simp_all add: live'_def)
    have data: "lp_data ?new = page_off ?nxt + 40"
      by (simp add: lp_data_def page_data_off_def page_consts)
    have hok: "head_ok c sz r'"
    proof -
      have "erased c f2 (page_off ?nxt + 40) (page_off ?nxt + 2048)" using op(3) by (simp add: erased_def)
      moreover have "head_records r' = 0" by (simp add: head_records_def fields lastn)
      ultimately show ?thesis
        unfolding head_ok_def Let_def fields lastn data by (simp add: framed_def lp_cap_def add.commute)
    qed
    have srt: "sorted (map lp_first_ord ?live @ [?abs])" using ok by (simp add: flash_ok_def)
    show "flash_ok c sz r'"
      unfolding flash_ok_def fields
    proof (intro conjI impI allI)
      show "m_ready r" "0 < sz" "sz \<le> 1757" using ok by (simp_all add: flash_ok_def)
      show "phys_ok ?nxt live'" by (rule po')
      show "head_ok c sz r'" by (rule hok)
      show "sorted (map lp_first_ord live' @ [?abs])"
        using srt by (cases ?live) (auto simp: live'_def sorted_append)
      fix i assume i: "i < length live'"
      show "(page_end live' ?abs i - lp_first_ord (live' ! i)) * sz \<le> lp_cap (live' ! i)"
      proof (cases "i = length live' - 1")
        case True
        then have "live' ! i = ?new" "page_end live' ?abs i = ?abs"
          using lastn by (auto simp: last_conv_nth page_end_def)
        then show ?thesis by simp
      next
        case False
        let ?k = "if length ?live = 16 then Suc i else i"
        have k: "?k < length ?live" "live' ! i = ?live ! ?k"
          using False i by (auto simp: live'_def nth_append nth_tl split: if_splits)
        have "page_end live' ?abs i = page_end ?live ?abs ?k"
          using False i by (auto simp: page_end_def live'_def nth_append nth_tl split: if_splits)
        then show ?thesis using ok k by (simp add: flash_ok_def)
      qed
    qed simp_all
    show "cview c sz iv r' = drop ev (cview c sz iv r)"
    proof -
      have hb: "head_bytes c r' = []" by (simp add: head_bytes_def fields flushed_def)
      have c1: "cview c sz iv r' = pages_view c sz iv f' live' ?abs []"
        unfolding fields hb
      proof (rule pages_view_cong)
        fix p x
        assume p: "p \<in> set (butlast live')" and x: "page_off (lp_phys p) \<le> x" "x < page_off (lp_phys p) + 2048"
        obtain i where i: "i < length live' - 1" "p = live' ! i"
          using p by (auto simp: in_set_conv_nth nth_butlast)
        have "lp_phys p \<noteq> ?nxt"
          using phys_distinct [OF po', of i "length live' - 1"] i lastn by (simp add: last_conv_nth)
        then have "page_off (lp_phys p) + 2048 \<le> page_off ?nxt \<or> page_off ?nxt + 2048 \<le> page_off (lp_phys p)"
          by (auto simp: page_off_def PAGE_SIZE_def)
        then show "c f2 x = c f' x" using x by (intro op(5)) linarith
      qed
      show ?thesis
      proof (cases "?live = []")
        case True
        then show ?thesis unfolding c1 by (simp add: live'_def ev_def recs_view_def)
      next
        case False
        let ?hb = "flushed c f' (lp_data (last ?live)) (dw' * 7)"
        note v = flush_pad_view [OF ok False fl(3) [OF False] fl(4) [OF disjI2] fl(5) [OF False]]
        have hf: "head_ok c sz (r\<lparr>m_flash := f', m_head_dw := dw', m_stage := [], m_head_full := True\<rparr>)"
          using fl(2) [OF False] False by (simp add: flash_ok_def)
        have cap: "dw' * 7 \<le> lp_cap (last ?live)" "(?abs - lp_first_ord (last ?live)) * sz \<le> dw' * 7"
          using hf False by (simp_all add: head_ok_def Let_def head_records_def)
        have sn: "pages_view c sz iv f' (?live @ [?new]) ?abs [] = cview c sz iv r"
          using pages_view_snoc [OF False, of ?new ?abs sz ?hb c f' iv ?abs "[]"] cap take_flushed [OF cap(1), of c f'] v
          by (simp add: recs_view_def)
        show ?thesis
        proof (cases "length ?live = 16")
          case True
          have "pages_view c sz iv f' (tl (?live @ [?new])) ?abs [] =
              drop (lp_first_ord ((?live @ [?new]) ! 1) - lp_first_ord (hd (?live @ [?new])))
                (pages_view c sz iv f' (?live @ [?new]) ?abs [])"
            by (rule pages_view_tl) (use True srt in \<open>auto simp: sorted_append\<close>)
          then show ?thesis
            unfolding c1 using sn True False by (simp add: live'_def ev_def nth_append)
        next
          case ne: False
          then show ?thesis unfolding c1 using sn by (simp add: live'_def ev_def)
        qed
      qed
    qed
  qed
qed

end
