(* ===== verification/HistProps.thy ===== *)
theory HistProps
  imports History
begin

text \<open>
  The history on the RAM ring: every operation keeps the module consistent, the record of a slot is
  stamped within half an interval of it, a clock sync moves exactly the unsynced records, and a replay
  gives the host the records of the window with their times.
\<close>

subsection \<open>The segments of the ring tile it\<close>

lemma ram_segs_tile:
  assumes ok: "ram_ok sz r"
  shows "segs_tile (m_ram_first_abs r) (ram_segs r) (m_ram_first_abs r + m_ram_count r)"
proof (cases "m_ram_count r = 0")
  case False
  let ?segs = "m_ram_seg r" and ?stop = "m_ram_first_abs r + m_ram_count r"
  let ?n = "length ?segs"
  have o: "?segs \<noteq> []" "seg_origins_ok (m_ram_first_abs r) ?stop ?segs"
    using ok False by (simp_all add: ram_ok_def)
  have lt: "rs_origin (?segs ! i) < rs_origin (?segs ! j)" if "i < j" "j < ?n" for i j
    using o(2) that by (auto simp: seg_origins_ok_def sorted_wrt_iff_nth_less)
  have first: "m_ram_first_abs r < rs_origin (?segs ! j)" if "0 < j" "j < ?n" for j
  proof -
    have "?segs ! j \<in> set (tl ?segs)"
      using that o(1) by (cases ?segs) (auto simp: nth_Cons split: nat.splits)
    then show ?thesis using o(2) by (simp add: seg_origins_ok_def)
  qed
  have stop: "rs_origin (?segs ! i) < ?stop" if "i < ?n" for i
    using o(2) that by (simp add: seg_origins_ok_def)
  have hd0: "rs_origin (?segs ! 0) \<le> m_ram_first_abs r"
    using o by (simp add: seg_origins_ok_def hd_conv_nth)
  have main: "segs_tile (sg_first (ram_seg_get r i)) (map (ram_seg_get r) [i..<?n]) ?stop" if "i < ?n" for i
    using that
  proof (induction "?n - i" arbitrary: i)
    case (Suc m)
    have s: "sg_origin (ram_seg_get r i) \<le> sg_first (ram_seg_get r i)" using hd0 by (simp add: ram_seg_get_def)
    have e: "sg_first (ram_seg_get r i) < sg_end (ram_seg_get r i)"
      using lt [of i "Suc i"] first [of "Suc i"] stop [of i] Suc.prems False
      by (auto simp: ram_seg_get_def)
    have "segs_tile (sg_end (ram_seg_get r i)) (map (ram_seg_get r) [Suc i..<?n]) ?stop"
    proof (cases "Suc i < ?n")
      case True
      then have "sg_end (ram_seg_get r i) = sg_first (ram_seg_get r (Suc i))" by (simp add: ram_seg_get_def)
      then show ?thesis using Suc.hyps(1) [of "Suc i"] Suc.hyps(2) True by simp
    next
      case False
      then show ?thesis using Suc.prems by (simp add: ram_seg_get_def)
    qed
    then show ?case using Suc.prems s e by (simp add: upt_conv_Cons)
  qed simp
  have "sg_first (ram_seg_get r 0) = m_ram_first_abs r" by (simp add: ram_seg_get_def)
  then show ?thesis using main [of 0] o(1) False by (simp add: ram_segs_def ram_nseg_def)
qed (simp add: ram_segs_def ram_nseg_def)

lemma ram_reads_sized: "ram_ok sz r \<Longrightarrow> reads_sized sz (ram_read sz r)"
proof -
  assume ok: "ram_ok sz r"
  then have c: "0 < ram_capacity sz r" "0 < sz" by (simp_all add: ram_ok_def)
  show ?thesis
    unfolding reads_sized_def
  proof (intro allI impI)
    fix a rec
    assume "ram_read sz r a = Some rec"
    then show "length rec = sz"
      using slot_in [OF c, of "m_ram_start r + (a - m_ram_first_abs r)"]
      by (auto simp: ram_read_def Let_def split: if_splits)
  qed
qed

lemma ram_readable:
  "m_ram_first_abs r \<le> a \<Longrightarrow> a < m_ram_first_abs r + m_ram_count r \<Longrightarrow> ram_read sz r a \<noteq> None"
  by (simp add: ram_read_slot)

subsection \<open>The window of the whole ring\<close>

definition in_window :: "hist_query \<Rightarrow> u32 \<Rightarrow> bool \<Rightarrow> bool" where
  "in_window q t synced \<longleftrightarrow> (if synced then q_from q \<le> t \<and> t \<le> q_to q else q_unsynced q)"

lemma win_run_filter:
  assumes "sg_origin s \<le> sg_first s" "sg_first s \<le> sg_end s" "sg_end s \<le> end'" "a \<le> sg_first s"
    "seg_no_wrap (q_interval q) s" "0 < q_interval q"
  shows "win_run q a end' s =
    filter (\<lambda>x. in_window q (seg_time (q_interval q) s x) (sg_synced s)) [sg_first s..<sg_end s]"
proof -
  obtain lo hi where w: "q_window q s = (lo, hi)" by fastforce
  have iff: "lo \<le> x \<and> x < hi \<longleftrightarrow> sg_first s \<le> x \<and> x < sg_end s \<and>
      in_window q (seg_time (q_interval q) s x) (sg_synced s)" for x
  proof (cases "sg_synced s")
    case True
    then show ?thesis using seg_window_iff [OF True assms(1,2,5,6) w] by (simp add: in_window_def)
  next
    case False
    then show ?thesis using w assms(2) by (auto simp: seg_window_def in_window_def Let_def split: if_splits)
  qed
  have "set (win_run q a end' s) = set (filter (\<lambda>x. in_window q (seg_time (q_interval q) s x) (sg_synced s))
      [sg_first s..<sg_end s])" (is "?A = ?B")
  proof (rule set_eqI)
    fix x
    have "x \<in> ?A \<longleftrightarrow> a \<le> x \<and> x < end' \<and> (lo \<le> x \<and> x < hi)" by (auto simp: win_run_def w)
    also have "\<dots> \<longleftrightarrow> sg_first s \<le> x \<and> x < sg_end s \<and>
        in_window q (seg_time (q_interval q) s x) (sg_synced s)"
      unfolding iff using assms(3,4) by linarith
    also have "\<dots> \<longleftrightarrow> x \<in> ?B" by simp
    finally show "x \<in> ?A \<longleftrightarrow> x \<in> ?B" .
  qed
  moreover have "sorted (win_run q a end' s)" "distinct (win_run q a end' s)"
    by (simp_all add: win_run_def w)
  ultimately show ?thesis
    by (intro sorted_distinct_set_unique) (simp_all only: sorted_wrt_filter sorted_upt distinct_filter distinct_upt)
qed

lemma win_ords_filter:
  "segs_tile first segs stop \<Longrightarrow> stop \<le> end' \<Longrightarrow> a \<le> first \<Longrightarrow> 0 < q_interval q \<Longrightarrow>
   \<forall>s \<in> set segs. seg_no_wrap (q_interval q) s \<Longrightarrow>
   \<forall>s \<in> set segs. \<forall>x. sg_first s \<le> x \<and> x < sg_end s \<longrightarrow> so x = s \<Longrightarrow>
   win_ords q segs a end' =
     filter (\<lambda>x. in_window q (seg_time (q_interval q) (so x) x) (sg_synced (so x))) [first..<stop]"
proof (induction segs arbitrary: first)
  case (Cons s segs)
  let ?P = "\<lambda>x. in_window q (seg_time (q_interval q) (so x) x) (sg_synced (so x))"
  have t: "sg_first s = first" "sg_origin s \<le> first" "first \<le> sg_end s" "segs_tile (sg_end s) segs stop"
    using Cons.prems(1) by simp_all
  have le: "sg_end s \<le> stop" using segs_tile_le [OF t(4)] .
  have "win_run q a end' s = filter (\<lambda>x. in_window q (seg_time (q_interval q) s x) (sg_synced s)) [first..<sg_end s]"
    using win_run_filter [of s end' a q] t le Cons.prems by simp
  also have "\<dots> = filter ?P [first..<sg_end s]"
    using Cons.prems(6) t by (intro filter_cong) auto
  finally have "win_run q a end' s = filter ?P [first..<sg_end s]" .
  moreover have "win_ords q segs a end' = filter ?P [sg_end s..<stop]"
    using Cons.prems t by (intro Cons.IH) auto
  moreover have "[first..<stop] = [first..<sg_end s] @ [sg_end s..<stop]"
    using t(3) le by (metis less_imp_le_nat upt_add_eq_append le_add_diff_inverse)
  ultimately show ?case by simp
qed simp

text \<open>What a replay of any ring gives the host: the records of the window, of those stored.\<close>

lemma replay_view:
  assumes sz: "0 < sz" and rs: "reads_sized sz rd" and t: "segs_tile f segs e"
    and ra: "\<And>a. f \<le> a \<Longrightarrow> a < e \<Longrightarrow> rd a \<noteq> None"
    and q: "0 < q_interval q" "\<forall>s \<in> set segs. seg_no_wrap (q_interval q) s"
    and caps: "\<forall>cap \<in> set caps. sz \<le> cap" "e - f \<le> length caps"
  shows "concat (map (host_records sz (q_interval q)) (replay_frames rd sz segs f e q f e caps)) =
    map (\<lambda>(rec, t, synced). (the rec, t, synced))
      (filter (\<lambda>(rec, t, synced). in_window q t synced)
        (map (\<lambda>a. (rd a, seg_time (q_interval q) (seg_of segs a) a, sg_synced (seg_of segs a))) [f..<e]))"
proof -
  let ?P = "\<lambda>x. in_window q (seg_time (q_interval q) (seg_of segs x) x) (sg_synced (seg_of segs x))"
  have W: "win_ords q segs f e = filter ?P [f..<e]"
    using seg_of_tile [OF t] q by (intro win_ords_filter [OF t]) auto
  have "length (filter ?P [f..<e]) \<le> e - f"
    using length_filter_le [of ?P "[f..<e]"] by simp
  then have len: "length (win_ords q segs f e) \<le> length caps" using W caps(2) by simp
  have rd: "filter (\<lambda>x. rd x \<noteq> None) (filter ?P [f..<e]) = filter ?P [f..<e]"
    by (subst filter_id_conv) (auto simp: ra)
  show ?thesis
    unfolding replay_run [OF sz rs caps(1) t order_refl order_refl len] W rd
    by (simp add: filter_map comp_def stored_record_def)
qed

text \<open>
  A replay of the RAM ring gives the host, frame after frame and whatever each frame's size, the
  stored records whose time lies in the asked window, each once, in order, with the bytes, the time and
  the clock the ring holds for them (the time the host computes as \<open>t0 + j * interval\<close>); an unsynced
  record counts as inside exactly when the query takes unsynced records.
\<close>
theorem ram_replay_is_view:
  assumes "ram_ok sz r" "0 < q_interval q" "\<forall>s \<in> set (ram_segs r). seg_no_wrap (q_interval q) s"
    "\<forall>cap \<in> set caps. sz \<le> cap" "m_ram_count r \<le> length caps"
  shows "concat (map (host_records sz (q_interval q))
      (replay_frames (ram_read sz r) sz (ram_segs r) (m_ram_first_abs r)
        (m_ram_first_abs r + m_ram_count r) q (m_ram_first_abs r) (m_ram_first_abs r + m_ram_count r) caps)) =
    map (\<lambda>(rec, t, synced). (the rec, t, synced))
      (filter (\<lambda>(rec, t, synced). in_window q t synced) (ram_view sz (q_interval q) r))"
  unfolding ram_view_def
  by (rule replay_view [OF _ ram_reads_sized [OF assms(1)] ram_segs_tile [OF assms(1)] ram_readable assms(2,3,4)])
    (use assms in \<open>simp_all add: ram_ok_def\<close>)

subsection \<open>A consistent module\<close>

text \<open>What holds between any two operations of the module on the RAM ring.\<close>

definition hist_ok :: "ram_ring history \<Rightarrow> bool" where
  "hist_ok h \<longleftrightarrow> m_count h = m_ram_count (m_ring h) \<and> list_all col_ok (m_cols h) \<and>
     m_sample_size h = cols_size (m_cols h) \<and>
     m_capacity h = (if m_sample_size h \<noteq> 0 then ram_capacity (m_sample_size h) (m_ring h) else 0) \<and>
     (if 0 < m_capacity h then ram_ok (m_sample_size h) (m_ring h) else m_ram_count (m_ring h) = 0)"

lemma ram_ops_simps [simp]:
  "b_flash ram_ops = False" "b_ready ram_ops r = True" "b_init ram_ops r = (True, r)"
  "b_capacity ram_ops = ram_capacity" "b_mount ram_ops env r = (False, None, snd (ram_mount r))"
  "b_append ram_ops env = ram_append (he_sample_size env)" "b_read ram_ops env = ram_read (he_sample_size env)"
  "b_stored ram_ops = ram_stored" "b_first_abs ram_ops = ram_first_abs" "b_segs ram_ops = ram_segs"
  "b_seg_sync ram_ops = ram_seg_sync" "b_flush_fixups ram_ops r = r"
  "b_reset_logical ram_ops = ram_reset_logical" "b_erase ram_ops = ram_erase"
  by (simp_all add: ram_ops_def)

lemma env_of_simps [simp]:
  "he_sample_size (env_of h) = m_sample_size h" "he_interval (env_of h) = m_interval h"
  "he_layout (env_of h) = m_layout h" "he_replay (env_of h) = m_replay_active h"
  by (simp_all add: env_of_def)

lemma ram_capacity_ring [simp]:
  "ram_capacity sz (ram_reset_logical r) = ram_capacity sz r"
  "ram_capacity sz (snd (ram_mount r)) = ram_capacity sz r"
  "ram_capacity sz (snd (ram_seg_sync i off r)) = ram_capacity sz r"
  by (simp_all add: ram_capacity_def ram_reset_logical_def ram_mount_def ram_seg_sync_def)

lemma ram_count_ring [simp]:
  "m_ram_count (ram_reset_logical r) = 0" "m_ram_count (snd (ram_mount r)) = 0"
  "m_ram_count (snd (ram_seg_sync i off r)) = m_ram_count r"
  by (simp_all add: ram_reset_logical_def ram_mount_def ram_seg_sync_def)

lemma ram_ok_fresh:
  "0 < sz \<Longrightarrow> 0 < ram_capacity sz r \<Longrightarrow> ram_ok sz (ram_reset_logical r)"
  "0 < sz \<Longrightarrow> 0 < ram_capacity sz r \<Longrightarrow> ram_ok sz (snd (ram_mount r))"
  by (simp_all add: ram_ok_def) (simp_all add: ram_reset_logical_def ram_mount_def)

lemma layout_build_facts:
  assumes "layout_build ram_ops crc32 g h = (changed, h')"
  shows "list_all col_ok (m_cols h')" "m_sample_size h' = cols_size (m_cols h')" "m_ring h' = m_ring h"
    "m_capacity h' = (if m_sample_size h' \<noteq> 0 then ram_capacity (m_sample_size h') (m_ring h') else 0)"
    "m_count h' = m_count h" "m_interval h' = m_interval h" "m_remount_pending h' = m_remount_pending h"
    "\<not> changed \<Longrightarrow> m_sample_size h' = m_sample_size h"
  using assms layout_facts [of crc32 g "m_list h"]
  by (auto simp: layout_build_def Let_def split: prod.splits)

lemma layout_reset_ok:
  assumes "layout_build ram_ops crc32 g h = (changed, h1)"
  shows "hist_ok (layout_reset ram_ops h1)"
  using layout_build_facts [OF assms] ram_ok_fresh(1) [of "m_sample_size h1" "m_ring h1"]
  by (auto simp: hist_ok_def layout_reset_def)

lemma layout_build_ok:
  assumes "hist_ok h" "layout_build ram_ops crc32 g h = (False, h1)"
  shows "hist_ok h1"
  using assms(1) layout_build_facts [OF assms(2)] by (auto simp: hist_ok_def)

lemma hist_ok_cong:
  "hist_ok h \<Longrightarrow> m_count h' = m_count h \<Longrightarrow> m_ring h' = m_ring h \<Longrightarrow> m_cols h' = m_cols h \<Longrightarrow>
   m_sample_size h' = m_sample_size h \<Longrightarrow> m_capacity h' = m_capacity h \<Longrightarrow> hist_ok h'"
  unfolding hist_ok_def by metis

lemma hist_ok_ring: "hist_ok h \<Longrightarrow> 0 < m_capacity h \<Longrightarrow> ram_ok (m_sample_size h) (m_ring h)"
  unfolding hist_ok_def by metis

lemma capture_layout_ok: "hist_ok h \<Longrightarrow> hist_ok (capture_layout ram_ops crc32 g h)"
  using layout_reset_ok layout_build_ok by (fastforce simp: capture_layout_def split: prod.split)

lemma capture_remount_ok:
  assumes "hist_ok h"
  shows "hist_ok (capture_remount ram_ops crc32 g h)"
proof -
  have "hist_ok (h\<lparr>m_remount_pending := False\<rparr>)" by (rule hist_ok_cong [OF assms]) simp_all
  then have "hist_ok (capture_layout ram_ops crc32 g (h\<lparr>m_remount_pending := False\<rparr>))"
    by (rule capture_layout_ok)
  then show ?thesis
    using assms
    by (cases "layout_build ram_ops crc32 g (h\<lparr>m_remount_pending := False\<rparr>)")
      (auto simp: capture_remount_def capture_layout_def)
qed

lemma capture_interval_ok: "hist_ok h \<Longrightarrow> hist_ok (capture_interval ram_ops g h)"
  using ram_ok_fresh(1) [of "m_sample_size h" "m_ring h"]
  by (auto simp: capture_interval_def hist_ok_def)

lemma length_encode_record: "list_all col_ok cols \<Longrightarrow> length (fst (encode_record d cols i memo)) = cols_size cols"
proof (induction cols arbitrary: i memo)
  case (Cons c cols)
  have "hc_size c \<in> {1, 2, 4}" using Cons.prems he_size_cases by (auto simp: col_ok_def)
  then have "length (put_raw (hc_size c) w) = hc_size c" for w by (rule length_put_raw)
  moreover have "length (fst (encode_record d cols (Suc i) m)) = cols_size cols" for m
    using Cons by simp
  ultimately show ?case
    by (simp add: cols_size_def encode_value_def Let_def split: prod.split)
      (metis fst_conv)
qed (simp add: cols_size_def)

lemma capture_append_ok:
  assumes ok: "hist_ok h" and cap: "0 < m_capacity h"
  shows "hist_ok (capture_append ram_ops d now slot h)"
proof -
  obtain rec memo where e: "encode_record d (m_cols h) 0 (m_memo h) = (rec, memo)" by fastforce
  obtain base synced split where b: "record_base (m_interval h) slot (head_next_time ram_ops h) now = (base, synced, split)"
    by (metis prod_cases3)
  obtain ret r where a: "ram_append (m_sample_size h) rec base synced split (m_ring h) = (ret, r)" by fastforce
  have rok: "ram_ok (m_sample_size h) (m_ring h)" by (rule hist_ok_ring [OF ok cap])
  have len: "length rec = m_sample_size h"
    using length_encode_record [of "m_cols h" d 0 "m_memo h"] ok e by (simp add: hist_ok_def)
  have "ram_ok (m_sample_size h) r" "ram_capacity (m_sample_size h) r = ram_capacity (m_sample_size h) (m_ring h)"
    using ram_append_ok [OF rok len, of base synced split] ram_capacity_append [OF rok len, of base synced split] a
    by simp_all
  then show ?thesis using ok cap e b a by (simp add: capture_append_def hist_ok_def ram_stored_def)
qed

lemma capture_ok: "hist_ok h \<Longrightarrow> hist_ok (capture ram_ops crc32 g d now slot h)"
proof -
  assume ok: "hist_ok h"
  let ?h = "capture_layout ram_ops crc32 g (capture_interval ram_ops g (capture_remount ram_ops crc32 g
      (h\<lparr>m_ring := m_ring h\<rparr>)))"
  have "hist_ok (h\<lparr>m_ring := m_ring h\<rparr>)" by (rule hist_ok_cong [OF ok]) simp_all
  then have ok': "hist_ok ?h" by (intro capture_layout_ok capture_interval_ok capture_remount_ok)
  then show ?thesis
    using ok capture_append_ok [OF ok'] by (simp add: capture_def Let_def)
qed

subsection \<open>Clock sync\<close>

text \<open>Re-basing segment \<open>i\<close> moves the records it owns and no others.\<close>

lemma ram_seg_sync_ok:
  assumes "ram_ok sz r" "i < length (m_ram_seg r)"
  shows "ram_ok sz (snd (ram_seg_sync i off r))"
proof -
  let ?segs = "m_ram_seg r"
  let ?s = "(?segs ! i)\<lparr>rs_base := rs_base (?segs ! i) + off, rs_synced := True\<rparr>"
  have o: "map rs_origin (?segs[i := ?s]) = map rs_origin ?segs"
    by (rule nth_equalityI) (use assms(2) in \<open>auto simp: nth_list_update\<close>)
  have "seg_origins_ok f e (?segs[i := ?s]) \<longleftrightarrow> seg_origins_ok f e ?segs" if "?segs \<noteq> []" for f e
  proof -
    have "seg_origins_ok f e segs \<longleftrightarrow> sorted_wrt (<) (map rs_origin segs) \<and> hd (map rs_origin segs) \<le> f \<and>
        (\<forall>x \<in> set (tl (map rs_origin segs)). f < x) \<and> (\<forall>x \<in> set (map rs_origin segs). x < e)"
      if "segs \<noteq> []" for segs
      using that by (simp add: seg_origins_ok_def hd_map map_tl [symmetric])
    note eq = this [OF that] this [of "?segs[i := ?s]"]
    show ?thesis using that by (simp only: eq o list_update_nonempty simp_thms)
  qed
  then show ?thesis
    using assms(1) by (auto simp: ram_ok_def ram_seg_sync_def ram_capacity_def)
qed

definition unsynced_moved :: "u32 \<Rightarrow> bytes option \<times> u32 \<times> bool \<Rightarrow> bytes option \<times> u32 \<times> bool" where
  "unsynced_moved off x = (case x of (rec, t, synced) \<Rightarrow> if synced then x else (rec, t + off, True))"

text \<open>The segment table after the sync of the segments from \<open>i\<close> on.\<close>

lemma sync_segs_table:
  "i + n \<le> length (m_ram_seg r) \<Longrightarrow> m_ram_count r \<noteq> 0 \<Longrightarrow>
   snd (sync_segs ram_ops off i n r) = r\<lparr>m_ram_seg :=
     map (\<lambda>j. let s = m_ram_seg r ! j in
        if i \<le> j \<and> j < i + n \<and> \<not> rs_synced s then s\<lparr>rs_base := rs_base s + off, rs_synced := True\<rparr> else s)
       [0..<length (m_ram_seg r)]\<rparr>"
proof (induction n arbitrary: i r)
  case 0
  have "map (\<lambda>j. let s = m_ram_seg r ! j in
      if i \<le> j \<and> j < i + 0 \<and> \<not> rs_synced s then s\<lparr>rs_base := rs_base s + off, rs_synced := True\<rparr> else s)
      [0..<length (m_ram_seg r)] = m_ram_seg r"
    by (rule nth_equalityI) (auto simp: Let_def)
  then show ?case by simp
next
  case (Suc n)
  let ?segs = "m_ram_seg r" and ?s = "m_ram_seg r ! i"
  let ?f = "\<lambda>s. s\<lparr>rs_base := rs_base s + off, rs_synced := True\<rparr>"
  define r1 where "r1 = (if \<not> rs_synced ?s then snd (ram_seg_sync i off r) else r)"
  have i: "i < length ?segs" using Suc.prems(1) by simp
  have seg: "ram_segs r ! i = ram_seg_get r i" using i Suc.prems(2) by (simp add: ram_segs_def ram_nseg_def)
  have sy: "snd (sync_segs ram_ops off i (Suc n) r) = snd (sync_segs ram_ops off (Suc i) n r1)"
    by (auto simp: Let_def seg r1_def ram_seg_get_def split: prod.splits)
  have r1: "m_ram_count r1 \<noteq> 0" "length (m_ram_seg r1) = length ?segs"
    "m_ram_seg r1 = (if rs_synced ?s then ?segs else ?segs[i := ?f ?s])" "r1\<lparr>m_ram_seg := x\<rparr> = r\<lparr>m_ram_seg := x\<rparr>" for x
    using Suc.prems(2) by (simp_all add: r1_def ram_seg_sync_def)
  have "snd (sync_segs ram_ops off (Suc i) n r1) = r1\<lparr>m_ram_seg :=
     map (\<lambda>j. let s = m_ram_seg r1 ! j in
        if Suc i \<le> j \<and> j < Suc i + n \<and> \<not> rs_synced s then ?f s else s)
       [0..<length (m_ram_seg r1)]\<rparr>"
    using Suc.prems(1) r1 by (intro Suc.IH) simp_all
  also have "map (\<lambda>j. let s = m_ram_seg r1 ! j in
        if Suc i \<le> j \<and> j < Suc i + n \<and> \<not> rs_synced s then ?f s else s) [0..<length (m_ram_seg r1)] =
      map (\<lambda>j. let s = ?segs ! j in
        if i \<le> j \<and> j < i + Suc n \<and> \<not> rs_synced s then ?f s else s) [0..<length ?segs]"
    unfolding r1(2)
  proof (rule map_cong [OF refl])
    fix j assume "j \<in> set [0..<length ?segs]"
    then have j: "j < length ?segs" by simp
    show "(let s = m_ram_seg r1 ! j in if Suc i \<le> j \<and> j < Suc i + n \<and> \<not> rs_synced s then ?f s else s) =
        (let s = ?segs ! j in if i \<le> j \<and> j < i + Suc n \<and> \<not> rs_synced s then ?f s else s)"
    proof (cases "j = i")
      case True
      then show ?thesis using i by (simp add: r1(3) Let_def)
    next
      case False
      then have "m_ram_seg r1 ! j = ?segs ! j" by (simp add: r1(3))
      then show ?thesis using False by (auto simp: Let_def)
    qed
  qed
  finally show ?case using sy r1(4) by simp
qed

definition seg_synced :: "u32 \<Rightarrow> ram_seg \<Rightarrow> ram_seg" where
  "seg_synced off s = (if rs_synced s then s else s\<lparr>rs_base := rs_base s + off, rs_synced := True\<rparr>)"

lemma sync_all_table:
  assumes "m_ram_count r \<noteq> 0"
  shows "snd (sync_segs ram_ops off 0 (length (ram_segs r)) r) = r\<lparr>m_ram_seg := map (seg_synced off) (m_ram_seg r)\<rparr>"
proof -
  let ?segs = "m_ram_seg r"
  have "length (ram_segs r) = length ?segs" using assms by (simp add: ram_segs_def ram_nseg_def)
  moreover have "map (\<lambda>j. let s = ?segs ! j in
      if 0 \<le> j \<and> j < 0 + length ?segs \<and> \<not> rs_synced s then s\<lparr>rs_base := rs_base s + off, rs_synced := True\<rparr> else s)
      [0..<length ?segs] = map (seg_synced off) ?segs"
    by (rule nth_equalityI) (auto simp: seg_synced_def Let_def)
  ultimately show ?thesis using sync_segs_table [of 0 "length ?segs" r off] assms by simp
qed

lemma owner_seg_synced:
  assumes "segs \<noteq> []" "rs_origin (hd segs) \<le> a"
  shows "owner a (map (seg_synced off) segs) = seg_synced off (owner a segs)"
proof -
  have o: "rs_origin (seg_synced off s) = rs_origin s" for s by (simp add: seg_synced_def)
  have "filter (\<lambda>s. rs_origin s \<le> a) (map (seg_synced off) segs) =
      map (seg_synced off) (filter (\<lambda>s. rs_origin s \<le> a) segs)"
    by (simp add: filter_map comp_def o)
  moreover have "filter (\<lambda>s. rs_origin s \<le> a) segs \<noteq> []"
    using assms hd_in_set by (fastforce simp: filter_empty_conv)
  ultimately show ?thesis by (simp add: owner_def last_map)
qed

text \<open>
  At a clock sync exactly the records still on this boot's uptime move, all by the offset between
  the two clocks, and become synced; the synced ones and every stored byte stay.
\<close>
theorem clock_sync_moves_unsynced:
  assumes "ram_ok sz (m_ring h)"
  shows "ram_view sz interval (m_ring (snd (app_history_on_clock_sync ram_ops unix_now uptime_s h))) =
    map (unsynced_moved (unix_now - uptime_s)) (ram_view sz interval (m_ring h))"
proof (cases "m_ram_count (m_ring h) = 0")
  case True
  then have "ram_segs (m_ring h) = []" by (simp add: ram_segs_def ram_nseg_def)
  then show ?thesis using True by (simp add: app_history_on_clock_sync_def ram_view_def)
next
  case False
  let ?r = "m_ring h" and ?off = "unix_now - uptime_s"
  define r' where "r' = ?r\<lparr>m_ram_seg := map (seg_synced ?off) (m_ram_seg ?r)\<rparr>"
  have r': "m_ring (snd (app_history_on_clock_sync ram_ops unix_now uptime_s h)) = r'"
    using sync_all_table [OF False, of ?off]
    by (simp add: app_history_on_clock_sync_def r'_def split: prod.split) (metis snd_conv)
  have ne: "m_ram_seg ?r \<noteq> []" "rs_origin (hd (m_ram_seg ?r)) \<le> m_ram_first_abs ?r"
    using assms False by (auto simp: ram_ok_def origins_hd)
  have o: "rs_origin (seg_synced ?off s) = rs_origin s" for s by (simp add: seg_synced_def)
  have so: "seg_time interval (seg_of (ram_segs r') a) a = fst (owner_time interval (m_ram_seg r') a) \<and>
      sg_synced (seg_of (ram_segs r') a) = snd (owner_time interval (m_ram_seg r') a)"
    if "m_ram_first_abs ?r \<le> a" for a
    using False ne that by (simp add: r'_def owner_time_def seg_time_def Let_def seg_of_ram hd_map o)
  have ow: "owner_time interval (m_ram_seg r') a =
      (if snd (owner_time interval (m_ram_seg ?r) a) then owner_time interval (m_ram_seg ?r) a
       else (fst (owner_time interval (m_ram_seg ?r) a) + ?off, True))" if "m_ram_first_abs ?r \<le> a" for a
    using that ne by (simp add: owner_time_def r'_def owner_seg_synced Let_def) (simp add: seg_synced_def)
  have "ram_view sz interval r' = map (\<lambda>a. (ram_read sz ?r a, owner_time interval (m_ram_seg r') a))
      [m_ram_first_abs ?r..<m_ram_first_abs ?r + m_ram_count ?r]"
    unfolding ram_view_def
    by (rule map_cong) (auto simp: so, simp_all add: r'_def ram_read_def ram_capacity_def)
  also have "\<dots> = map (unsynced_moved ?off) (ram_view sz interval ?r)"
    unfolding ram_view_owner [OF assms] map_map
    by (rule map_cong) (auto simp: ow unsynced_moved_def split: prod.split)
  finally show ?thesis unfolding r' .
qed

subsection \<open>Every operation keeps the module consistent\<close>

datatype hist_op =
    HInit app_config
  | HCapture app_config app_sensor_data "u32 \<times> bool" "(u32 \<times> bool) option"
  | HClockSync u32 u32
  | HFixups
  | HClear
  | HSetChannels app_config "u8 list"
  | HSetEnabled bool
  | HReplayActive bool

fun hist_step :: "(u32 \<Rightarrow> bytes \<Rightarrow> u32) \<Rightarrow> hist_op \<Rightarrow> ram_ring history \<Rightarrow> ram_ring history" where
  "hist_step crc32 (HInit g) h = snd (app_history_init ram_ops crc32 g h)"
| "hist_step crc32 (HCapture g d now slot) h = capture ram_ops crc32 g d now slot h"
| "hist_step crc32 (HClockSync u t) h = snd (app_history_on_clock_sync ram_ops u t h)"
| "hist_step crc32 HFixups h = fixup_work_handler ram_ops h"
| "hist_step crc32 HClear h = app_history_clear ram_ops h"
| "hist_step crc32 (HSetChannels g sel) h = app_history_set_channels ram_ops crc32 g sel h"
| "hist_step crc32 (HSetEnabled b) h = app_history_set_enabled b h"
| "hist_step crc32 (HReplayActive b) h = app_history_set_replay_active b h"

lemma init_ok: "hist_ok (snd (app_history_init ram_ops crc32 g h))"
proof -
  obtain ch h1 where b: "layout_build ram_ops crc32 g (h\<lparr>m_enabled := history_enable g,
      m_list := history_channels g, m_ring := m_ring h\<rparr>) = (ch, h1)" by fastforce
  note f = layout_build_facts [OF b]
  then show ?thesis
    using ram_ok_fresh(2) [of "m_sample_size h1" "m_ring h1"] b
    by (auto simp: app_history_init_def hist_ok_def Let_def)
qed

lemma sync_segs_ok:
  "ram_ok sz r \<Longrightarrow> i + n \<le> length (m_ram_seg r) \<Longrightarrow>
   ram_ok sz (snd (sync_segs ram_ops off i n r)) \<and>
   m_ram_count (snd (sync_segs ram_ops off i n r)) = m_ram_count r \<and>
   length (m_ram (snd (sync_segs ram_ops off i n r))) = length (m_ram r)"
proof (induction n arbitrary: i r)
  case (Suc n)
  define r1 where "r1 = (if \<not> sg_synced (ram_segs r ! i) \<and> sg_cur_boot (ram_segs r ! i)
      then snd (ram_seg_sync i off r) else r)"
  have r1: "ram_ok sz r1" "length (m_ram_seg r1) = length (m_ram_seg r)" "m_ram_count r1 = m_ram_count r"
    "length (m_ram r1) = length (m_ram r)"
    using Suc.prems ram_seg_sync_ok [of sz r i off] by (auto simp: r1_def ram_seg_sync_def)
  have "snd (sync_segs ram_ops off i (Suc n) r) = snd (sync_segs ram_ops off (Suc i) n r1)"
    by (auto simp: Let_def r1_def split: prod.splits)
  then show ?case using Suc.IH [OF r1(1), of "Suc i"] Suc.prems(2) r1 by simp
qed simp

lemma clock_sync_ok:
  assumes "hist_ok h"
  shows "hist_ok (snd (app_history_on_clock_sync ram_ops u t h))"
proof -
  let ?r = "m_ring h"
  obtain p r where s: "sync_segs ram_ops (u - t) 0 (length (ram_segs ?r)) ?r = (p, r)" by fastforce
  have len: "length (ram_segs ?r) \<le> length (m_ram_seg ?r)" by (simp add: ram_segs_def ram_nseg_def)
  have e: "snd (app_history_on_clock_sync ram_ops u t h) = h\<lparr>m_ring := r\<rparr>"
    using s by (simp add: app_history_on_clock_sync_def)
  show ?thesis
  proof (cases "0 < m_capacity h")
    case True
    have "ram_ok (m_sample_size h) r \<and> m_ram_count r = m_ram_count ?r \<and> length (m_ram r) = length (m_ram ?r)"
      using sync_segs_ok [OF hist_ok_ring [OF assms True], of 0 "length (ram_segs ?r)" "u - t"] len s by simp
    then show ?thesis using assms True unfolding e by (auto simp: hist_ok_def ram_capacity_def)
  next
    case False
    then have "m_ram_count ?r = 0" using assms by (simp add: hist_ok_def)
    then have "r = ?r" using s by (simp add: ram_segs_def ram_nseg_def)
    then show ?thesis unfolding e by (intro hist_ok_cong [OF assms]) simp_all
  qed
qed

text \<open>
  C20: After any sequence of operations the history stays consistent: the cached count is the ring's,
  the record size is that of the columns, the capacity that of the record size, the ring's slots and
  segments are well formed for that size, and a ring with no capacity holds nothing.
\<close>
theorem hist_step_ok: "hist_ok h \<Longrightarrow> hist_ok (fold (hist_step crc32) ops h)"
proof (induction ops arbitrary: h)
  case (Cons op ops)
  note ok = Cons.prems
  have "hist_ok (hist_step crc32 op h)"
  proof (cases op)
    case (HInit g)
    then show ?thesis by (simp add: init_ok)
  next
    case (HCapture g d now slot)
    then show ?thesis using capture_ok [OF ok] by simp
  next
    case (HClockSync u t)
    then show ?thesis using clock_sync_ok [OF ok] by simp
  next
    case HClear
    then show ?thesis
      using ok ram_ok_fresh(1) [of "m_sample_size h" "m_ring h"]
      by (auto simp: app_history_clear_def hist_ok_def ram_erase_def)
  next
    case (HSetChannels g sel)
    let ?h = "h\<lparr>m_list := take APP_HISTORY_MAX_CH (sel @ replicate APP_HISTORY_MAX_CH APP_HISTORY_ENTRY_UNUSED),
        m_remount_pending := False\<rparr>"
    have "hist_ok ?h" by (rule hist_ok_cong [OF ok]) simp_all
    from capture_layout_ok [OF this, of crc32 g] HSetChannels show ?thesis
      by (simp add: app_history_set_channels_def capture_layout_def Let_def)
  qed (use ok in \<open>auto simp: fixup_work_handler_def app_history_set_enabled_def
        app_history_set_replay_active_def intro: hist_ok_cong\<close>)
  then show ?case using Cons.IH by simp
qed simp

subsection \<open>A record is stamped near its slot\<close>

lemma head_next_time_ram:
  assumes "ram_ok (m_sample_size h) (m_ring h)"
  shows "head_next_time ram_ops h =
    (let v = ram_view sz (m_interval h) (m_ring h)
     in if v = [] then None else Some (fst (snd (last v)) + m_interval h, snd (snd (last v))))"
proof (cases "m_ram_count (m_ring h) = 0")
  case True
  then show ?thesis by (simp add: head_next_time_def ram_segs_def ram_nseg_def ram_view_def)
next
  case False
  let ?r = "m_ring h" and ?segs = "ram_segs (m_ring h)" and ?iv = "m_interval h"
  let ?e = "m_ram_first_abs ?r + m_ram_count ?r"
  note t = ram_segs_tile [OF assms]
  have ne: "?segs \<noteq> []" using t False by auto
  have last: "sg_end (last segs) = stop \<and> sg_origin (last segs) \<le> sg_first (last segs)"
    if "segs_tile f segs stop" "segs \<noteq> []" for f segs stop
    using that by (induction segs arbitrary: f) fastforce+
  have sne: "m_ram_seg ?r \<noteq> []" using assms False by (simp add: ram_ok_def)
  then have "last ?segs = ram_seg_get ?r (length (m_ram_seg ?r) - 1)"
    using False by (simp add: ram_segs_def ram_nseg_def last_map)
  moreover have "rs_origin (m_ram_seg ?r ! (length (m_ram_seg ?r) - 1)) < ?e"
    using assms False sne by (simp add: ram_ok_def seg_origins_ok_def)
  ultimately have "sg_first (last ?segs) < ?e" using False by (simp add: ram_seg_get_def)
  then have l: "sg_end (last ?segs) = ?e" "sg_first (last ?segs) < ?e"
    "sg_origin (last ?segs) \<le> sg_first (last ?segs)"
    using last [OF t ne] by blast+
  have so: "seg_of ?segs (?e - 1) = last ?segs"
    using l ne by (intro seg_of_tile [OF t]) auto
  have boot: "sg_cur_boot (last ?segs)"
    using ne by (simp add: ram_segs_def last_map ram_seg_get_def)
  have "?e - sg_origin (last ?segs) = Suc (?e - 1 - sg_origin (last ?segs))" using l by linarith
  then have st: "seg_time ?iv (last ?segs) ?e = seg_time ?iv (last ?segs) (?e - 1) + ?iv"
    by (simp add: seg_time_def algebra_simps)
  have "[m_ram_first_abs ?r..<?e] = [m_ram_first_abs ?r..<?e - 1] @ [?e - 1]"
    using False by (metis One_nat_def Suc_diff_1 add_gr_0 add_leD1 le_add_diff_inverse2 neq0_conv
        Nat.add_diff_assoc Suc_leI le_add1 upt_Suc_append)
  then have "ram_view sz ?iv ?r \<noteq> []" "last (ram_view sz ?iv ?r) =
      (ram_read sz ?r (?e - 1), seg_time ?iv (seg_of ?segs (?e - 1)) (?e - 1), sg_synced (seg_of ?segs (?e - 1)))"
    unfolding ram_view_def by simp_all
  then show ?thesis using ne boot st so l by (simp add: head_next_time_def Let_def)
qed

lemma half_nonneg: "0 \<le> sint (iv div 2 :: u32)"
proof -
  have "uint (iv div 2) = uint iv div 2" by (simp add: uint_div_distrib)
  moreover have "uint iv < 4294967296" using uint_lt2p [of iv] by simp
  ultimately have "uint (iv div 2) < 2147483648" by simp
  then show ?thesis using uint_eq_sint_small by simp
qed

text \<open>
  C21: A record captured on a report slot is stored with the slot's clock flag and a time at most half
  an interval from the slot, whatever the ring held (an empty ring, a running segment, missed slots, a
  clock that became synced or stepped).
\<close>
theorem capture_time_near_slot:
  assumes ok: "hist_ok h" and cap: "0 < m_capacity h"
  shows "\<exists>rec t. last (ram_view (m_sample_size h) (m_interval h)
      (m_ring (capture_append ram_ops d now (Some (slot, slot_synced)) h))) = (Some rec, t, slot_synced) \<and>
    \<bar>sint (slot - t)\<bar> \<le> sint (m_interval h div 2) \<and>
    rec = fst (encode_record d (m_cols h) 0 (m_memo h))"
proof -
  let ?sz = "m_sample_size h" and ?iv = "m_interval h"
  let ?v = "ram_view ?sz ?iv (m_ring h)"
  obtain rec memo where e: "encode_record d (m_cols h) 0 (m_memo h) = (rec, memo)" by fastforce
  note rok = hist_ok_ring [OF ok cap]
  have len: "length rec = ?sz"
    using length_encode_record [of "m_cols h" d 0 "m_memo h"] ok e by (simp add: hist_ok_def)
  define split where "split = (snd (snd (record_base ?iv (Some (slot, slot_synced)) (head_next_time ram_ops h) now)))"
  have b: "record_base ?iv (Some (slot, slot_synced)) (head_next_time ram_ops h) now = (slot, slot_synced, split)"
    by (simp add: record_base_def split_def)
  let ?r' = "snd (ram_append ?sz rec slot slot_synced split (m_ring h))"
  have r': "m_ring (capture_append ram_ops d now (Some (slot, slot_synced)) h) = ?r'"
    by (simp add: capture_append_def e b split: prod.split)
  obtain ev where ev: "ram_view ?sz ?iv ?r' = drop ev (?v @ [(Some rec, next_stamp ?iv slot slot_synced split ?v)])"
      "ev \<le> m_ram_count (m_ring h)"
    using append_refines [OF rok len, of slot slot_synced split ?iv] by blast
  have "last (ram_view ?sz ?iv ?r') = (Some rec, next_stamp ?iv slot slot_synced split ?v)"
    using ev by (simp add: last_drop)
  moreover have "snd (next_stamp ?iv slot slot_synced split ?v) = slot_synced \<and>
      \<bar>sint (slot - fst (next_stamp ?iv slot slot_synced split ?v))\<bar> \<le> sint (?iv div 2)"
  proof (cases "split \<or> ?v = []")
    case True
    then show ?thesis by (simp add: next_stamp_def half_nonneg)
  next
    case False
    then have nv: "?v \<noteq> []" and sp: "\<not> split" by simp_all
    have "head_next_time ram_ops h = Some (fst (snd (last ?v)) + ?iv, snd (snd (last ?v)))"
      using head_next_time_ram [OF rok, of ?sz] nv by (simp add: Let_def)
    then have "slot_continues ?iv (fst (snd (last ?v)) + ?iv) (snd (snd (last ?v))) slot slot_synced"
      using sp by (simp add: split_def record_base_def)
    then show ?thesis
      using False by (auto simp: next_stamp_def slot_continues_def Let_def split: if_splits)
  qed
  ultimately show ?thesis unfolding r' e by (cases "next_stamp ?iv slot slot_synced split ?v") auto
qed

subsection \<open>Concrete instances\<close>

definition demo_full_query :: hist_query where
  "demo_full_query = \<lparr>q_interval = 60, q_from = 0, q_to = 0xFFFFFFFF, q_unsynced = True\<rparr>"

lemma ram_replay_is_view_witness:
  "concat (map (host_records 1 60)
      (replay_frames (ram_read 1 demo_ring) 1 (ram_segs demo_ring) 10 12 demo_full_query 10 12 [1, 5])) =
    map (\<lambda>(rec, t, synced). (the rec, t, synced))
      (filter (\<lambda>(rec, t, synced). in_window demo_full_query t synced) (ram_view 1 60 demo_ring))"
proof -
  have "\<forall>s \<in> set (ram_segs demo_ring). seg_no_wrap 60 s"
    by (simp add: demo_ring_def ram_segs_def ram_nseg_def ram_seg_get_def seg_no_wrap_def)
  then show ?thesis
    using ram_replay_is_view [OF demo_ring_ok, of demo_full_query "[1, 5]"]
    by (simp add: demo_full_query_def demo_ring_def)
qed

definition boot_history :: "ram_ring history" where
  "boot_history = \<lparr>m_enabled = False, m_list = replicate 24 0xFF, m_cols = [], m_w1_types = [0, 0, 0, 0],
     m_layout = 0, m_memo = \<lparr>pulses_prev = replicate 24 0, pulses_known = 0\<rparr>, m_sample_size = 0,
     m_capacity = 0, m_count = 0, m_interval = 0, m_replay_active = False, m_remount_pending = False,
     m_ring = \<lparr>m_ram = replicate 8 0, m_ram_start = 0, m_ram_count = 0, m_ram_first_abs = 0, m_ram_seg = []\<rparr>\<rparr>"

lemma boot_history_ok: "hist_ok boot_history"
  by (simp add: hist_ok_def boot_history_def cols_size_def)

lemma hist_step_ok_witness:
  "hist_ok (fold (hist_step (\<lambda>c bs. c + of_nat (length bs)))
     [HInit demo_config, HSetChannels demo_config [0], HClockSync 1700000000 5, HClear] boot_history)"
  by (rule hist_step_ok [OF boot_history_ok])

definition demo_history :: "ram_ring history" where
  "demo_history = boot_history\<lparr>m_enabled := True, m_cols :=
       [\<lparr>hc_desc = m_ch_motherboard ! 0, hc_entry = 0, hc_type = 1, hc_size = 2\<rparr>],
     m_sample_size := 2, m_capacity := 3, m_count := 1, m_interval := 60,
     m_ring := \<lparr>m_ram = [1, 2, 3, 4, 5, 6], m_ram_start = 0, m_ram_count = 1, m_ram_first_abs = 4,
       m_ram_seg = [\<lparr>rs_origin = 4, rs_base = 1000, rs_synced = False\<rparr>]\<rparr>\<rparr>"

lemma demo_history_ok: "hist_ok demo_history"
proof -
  have "list_all col_ok (m_cols demo_history)" by code_simp
  moreover have "ram_ok 2 (m_ring demo_history)" by code_simp
  ultimately show ?thesis
    by (simp add: hist_ok_def demo_history_def boot_history_def cols_size_def ram_capacity_def)
qed

lemma clock_sync_moves_unsynced_witness:
  "ram_view 2 60 (m_ring (snd (app_history_on_clock_sync ram_ops 1700000000 1100 demo_history))) =
     map (unsynced_moved (1700000000 - 1100)) (ram_view 2 60 (m_ring demo_history))"
  by (rule clock_sync_moves_unsynced) code_simp

lemma capture_time_near_slot_witness:
  "\<exists>rec t. last (ram_view 2 60 (m_ring (capture_append ram_ops
      \<lparr>sd_mb = \<lparr>mb_valid = 1, mb_v = (replicate 22 NAN)[0 := 0xC1C80000]\<rparr>, sd_w1 = []\<rparr>
      (0, False) (Some (1075, False)) demo_history))) = (Some rec, t, False) \<and> \<bar>sint (1075 - t)\<bar> \<le> 30"
proof -
  let ?d = "\<lparr>sd_mb = \<lparr>mb_valid = 1, mb_v = (replicate 22 NAN)[0 := 0xC1C80000]\<rparr>, sd_w1 = []\<rparr> :: app_sensor_data"
  have c: "0 < m_capacity demo_history" "m_sample_size demo_history = 2" "m_interval demo_history = 60"
    by (simp_all add: demo_history_def)
  have h: "sint (60 div 2 :: u32) = 30" by code_simp
  show ?thesis
    using capture_time_near_slot [OF demo_history_ok c(1), of ?d "(0, False)" 1075 False]
    unfolding c h by blast
qed

end
