(* ===== verification/FlashRefine.thy ===== *)
theory FlashRefine
  imports FlashAppend HistProps
begin

text \<open>
  The flash ring as a list of timed records: an append (with its closing of the head page, the next page it
  opens and the record it streams) adds one record and evicts only the oldest; the ring keeps the contract
  of a history backend, and a replay gives the host the records of its window.
\<close>

subsection \<open>Streaming a record\<close>

text \<open>Whether an append must open a page first.\<close>

definition opens_page :: "nat \<Rightarrow> 'f flash_ring \<Rightarrow> bool \<Rightarrow> bool" where
  "opens_page sz r split \<longleftrightarrow> m_live r = [] \<or> m_head_full r \<or> split \<or> records_per_page sz \<le> head_records r"

lemma records_per_page_fit: "0 < sz \<Longrightarrow> n < records_per_page sz \<Longrightarrow> n * sz + sz \<le> 1757"
proof -
  assume a: "0 < sz" "n < records_per_page sz"
  then have "Suc n * sz \<le> 1757 div sz * sz"
    by (intro mult_le_mono1) (simp add: records_per_page_def page_consts)
  also have "\<dots> \<le> 1757" by simp
  finally show ?thesis by simp
qed

lemma stream_record:
  assumes laws: "flash_laws dev c" and ok: "flash_ok c sz r" and ne: "m_live r \<noteq> []"
    and nf: "\<not> m_head_full r" and room: "head_records r < records_per_page sz" and len: "length rec = sz"
  obtains f' st' dw' where "stream_bytes dev (page_off (lp_phys (last (m_live r))) + HIST_HDR_SIZE_V2)
      (m_head_dw r) (length (m_stage r)) rec r = (None, r\<lparr>m_flash := f', m_head_dw := dw', m_stage := st'\<rparr>)"
    "flash_ok c sz (r\<lparr>m_flash := f', m_head_dw := dw', m_stage := st', m_abs_ord := m_abs_ord r + 1\<rparr>)"
    "cview c sz iv (r\<lparr>m_flash := f', m_head_dw := dw', m_stage := st', m_abs_ord := m_abs_ord r + 1\<rparr>) =
      cview c sz iv r @ [(Some rec, lp_base_time (last (m_live r)) + of_nat (head_records r) * iv,
        lp_synced (last (m_live r)))]"
    "\<And>x. x < lp_data (last (m_live r)) \<or> lp_data (last (m_live r)) + 2008 \<le> x \<Longrightarrow> c f' x = c (m_flash r) x"
proof -
  let ?h = "last (m_live r)"
  let ?data = "lp_data ?h"
  have po: "phys_ok (m_last_phys r) (m_live r)" and h: "head_ok c sz r" and st: "length (m_stage r) < 7"
    and sz: "0 < sz" using ok ne by (simp_all add: flash_ok_def)
  have v2: "lp_v2 ?h" and er: "erased c (m_flash r) (?data + m_head_dw r * 8) (?data + 2008)"
    and n: "m_head_dw r * 7 + length (m_stage r) = head_records r * sz"
    and fr: "framed c (m_flash r) ?data (m_head_dw r)"
    using h nf by (simp_all add: head_ok_def Let_def)
  have data: "page_off (lp_phys ?h) + HIST_HDR_SIZE_V2 = ?data"
    using v2 by (simp add: lp_data_def page_data_off_def)
  have fin: "?data + 2008 \<le> FLASH_SIZE"
    using data_bounds(3,4) [of ?h] lp_phys_last_lt [OF ok ne] v2 by (simp add: lp_cap_def)
  have fit: "m_head_dw r * 7 + length (m_stage r) + length rec \<le> 1757"
    using records_per_page_fit [OF sz room] n len by simp
  obtain f' st' dw' where sb: "stream_bytes dev ?data (m_head_dw r) (length (m_stage r)) rec r =
        (None, r\<lparr>m_flash := f', m_stage := st', m_head_dw := dw'\<rparr>)"
      "flushed c f' ?data (dw' * 7) @ st' = flushed c (m_flash r) ?data (m_head_dw r * 7) @ m_stage r @ rec"
      "length st' < 7" "erased c f' (?data + dw' * 8) (?data + 2008)" "framed c f' ?data dw'"
      "\<forall>x. x < ?data \<or> ?data + 2008 \<le> x \<longrightarrow> c f' x = c (m_flash r) x"
    using stream_bytes_ok [OF laws data_bounds(1) fin st fit er fr] by blast
  let ?r = "r\<lparr>m_flash := f', m_head_dw := dw', m_stage := st', m_abs_ord := m_abs_ord r + 1\<rparr>"
  have "length (flushed c f' ?data (dw' * 7) @ st') = length (flushed c (m_flash r) ?data (m_head_dw r * 7) @ m_stage r @ rec)"
    using sb(2) by (rule arg_cong)
  then have n': "dw' * 7 + length st' = head_records r * sz + sz" using n len by simp
  have le: "lp_first_ord ?h \<le> m_abs_ord r" using ok ne by (simp add: flash_ok_def sorted_append)
  have hr: "head_records ?r = Suc (head_records r)" using ne le by (simp add: head_records_def Suc_diff_le)
  have ho: "head_ok c sz ?r"
    unfolding head_ok_def Let_def hr using n' sb(4,5) v2 fit n len by (simp add: lp_cap_def)
  have "flash_ok c sz ?r"
    unfolding flash_ok_def
  proof (intro conjI allI impI)
    show "m_ready ?r" "0 < sz" "sz \<le> 1757" "phys_ok (m_last_phys ?r) (m_live ?r)"
      using ok by (simp_all add: flash_ok_def)
    show "length (m_stage ?r) < 7" using sb(3) by simp
    show "head_ok c sz ?r" by (rule ho)
    show "sorted (map lp_first_ord (m_live ?r) @ [m_abs_ord ?r])"
      using ok by (fastforce simp: flash_ok_def sorted_append)
    fix i assume i: "i < length (m_live ?r)"
    show "(page_end (m_live ?r) (m_abs_ord ?r) i - lp_first_ord (m_live ?r ! i)) * sz \<le> lp_cap (m_live ?r ! i)"
    proof (cases "i + 1 < length (m_live r)")
      case True
      then have "page_end (m_live ?r) (m_abs_ord ?r) i = page_end (m_live r) (m_abs_ord r) i"
        by (simp add: page_end_def)
      then show ?thesis using ok i by (simp add: flash_ok_def)
    next
      case False
      then have "m_live r ! i = ?h" "page_end (m_live ?r) (m_abs_ord ?r) i = m_abs_ord ?r"
        using i ne by (auto simp: last_conv_nth page_end_def intro!: arg_cong [where f = "\<lambda>k. m_live r ! k"])
      then show ?thesis using hr ne n' fit n len v2 by (simp add: head_records_def lp_cap_def)
    qed
  qed
  moreover have "cview c sz iv ?r = cview c sz iv r @ [(Some rec, lp_base_time ?h + of_nat (head_records r) * iv, lp_synced ?h)]"
  proof -
    have hb: "head_bytes c ?r = head_bytes c r @ rec" using sb(2) by (simp add: head_bytes_def)
    have l: "length (head_bytes c r) = head_records r * sz" using n by (simp add: head_bytes_def)
    have e: "m_abs_ord r - lp_first_ord ?h = head_records r" "Suc (m_abs_ord r) - lp_first_ord ?h = Suc (head_records r)"
      using ne le by (simp_all add: head_records_def Suc_diff_le)
    have "cview c sz iv ?r = pages_view c sz iv (m_flash r) (m_live r) (m_abs_ord r + 1) (head_bytes c r @ rec)"
      unfolding hb by simp (rule pages_view_head_write [OF po ne], use sb(6) v2 in auto)
    also have "\<dots> = pages_view c sz iv (m_flash r) (m_live r) (lp_first_ord ?h) [] @
        recs_view sz iv ?h (Suc (head_records r)) (head_bytes c r @ rec)"
      by (subst pages_view_stop [OF ne]) (simp add: e)
    also have "\<dots> = cview c sz iv r @ [(Some rec, lp_base_time ?h + of_nat (head_records r) * iv, lp_synced ?h)]"
      unfolding recs_view_Suc [OF l len]
      by (subst (2) pages_view_stop [OF ne]) (simp add: e)
    finally show ?thesis .
  qed
  moreover have "r\<lparr>m_flash := f', m_stage := st', m_head_dw := dw'\<rparr> = r\<lparr>m_flash := f', m_head_dw := dw', m_stage := st'\<rparr>" by simp
  ultimately show thesis
    using that [where f' = f' and st' = st' and dw' = dw'] sb(1,6) unfolding data by simp
qed

text \<open>Closing the head page shows in no record.\<close>

definition close_head :: "'f flash_dev \<Rightarrow> 'f flash_ring \<Rightarrow> 'f flash_ring" where
  "close_head dev r = snd (flush_stage_pad dev (r\<lparr>m_head_full := True\<rparr>))"

lemma close_head_ok:
  assumes laws: "flash_laws dev c" and ok: "flash_ok c sz r" and ne: "m_live r \<noteq> []"
  obtains f' dw' where "close_head dev r = r\<lparr>m_flash := f', m_head_dw := dw', m_stage := [], m_head_full := True\<rparr>"
    "flash_ok c sz (close_head dev r)" "cview c sz iv (close_head dev r) = cview c sz iv r"
    "\<And>x. x < lp_data (last (m_live r)) \<or> lp_data (last (m_live r)) + 2008 \<le> x \<Longrightarrow> c f' x = c (m_flash r) x"
    "lp_v2 (last (m_live r)) \<or> (\<forall>x. c f' x = c (m_flash r) x)"
    "if m_stage r = [] then f' = m_flash r \<and> dw' = m_head_dw r
     else dw' = m_head_dw r + 1 \<and> erased c f' (lp_data (last (m_live r)) + dw' * 8) (lp_data (last (m_live r)) + 2008)"
proof -
  let ?r = "r\<lparr>m_head_full := True\<rparr>"
  have ok': "flash_ok c sz ?r" "m_live ?r \<noteq> []" using ok ne flash_ok_full by auto
  show thesis
  proof (rule flush_pad [OF laws ok'])
    fix f' dw' pad
    assume f: "flush_stage_pad dev ?r = (None, ?r\<lparr>m_flash := f', m_head_dw := dw', m_stage := []\<rparr>)"
      "flash_ok c sz (?r\<lparr>m_flash := f', m_head_dw := dw', m_stage := [], m_head_full := True\<rparr>)"
      "flushed c f' (lp_data (last (m_live ?r))) (dw' * 7) = head_bytes c ?r @ pad"
      "\<And>x. x < lp_data (last (m_live ?r)) \<or> lp_data (last (m_live ?r)) + 2008 \<le> x \<Longrightarrow> c f' x = c (m_flash ?r) x"
      "lp_v2 (last (m_live ?r)) \<or> (\<forall>x. c f' x = c (m_flash ?r) x)"
      "if m_stage ?r = [] then f' = m_flash ?r \<and> dw' = m_head_dw ?r
       else dw' = m_head_dw ?r + 1 \<and> erased c f' (lp_data (last (m_live ?r)) + dw' * 8) (lp_data (last (m_live ?r)) + 2008)"
    have ch: "close_head dev r = r\<lparr>m_flash := f', m_head_dw := dw', m_stage := [], m_head_full := True\<rparr>"
      using f(1) by (simp add: close_head_def)
    have "cview c sz iv (close_head dev r) =
        pages_view c sz iv f' (m_live ?r) (m_abs_ord ?r) (flushed c f' (lp_data (last (m_live ?r))) (dw' * 7))"
      by (simp add: ch head_bytes_def)
    also have "\<dots> = cview c sz iv ?r" by (rule flush_pad_view [OF ok' f(3,4,5)])
    also have "\<dots> = cview c sz iv r" by (simp add: head_bytes_def)
    finally have v: "cview c sz iv (close_head dev r) = cview c sz iv r" .
    have ok2: "flash_ok c sz (close_head dev r)" using f(2) ch by simp
    have dw: "if m_stage r = [] then f' = m_flash r \<and> dw' = m_head_dw r
       else dw' = m_head_dw r + 1 \<and> erased c f' (lp_data (last (m_live r)) + dw' * 8) (lp_data (last (m_live r)) + 2008)"
      using f(6) by (cases "m_stage r = []") auto
    show thesis by (rule that [OF ch ok2 v _ _ dw]) (use f(4,5) in simp_all)
  qed
qed

lemma flash_append_close: "flash_append dev crc16 env rec base synced split r0 =
     (let rpp = records_per_page (he_sample_size env)
      in if \<not> m_ready r0 then (Inl ENODEV, r0)
         else if rpp = 0 then (Inl EINVAL, r0)
         else
           let r1 = (if split \<and> m_live r0 \<noteq> [] \<and> \<not> m_head_full r0 then close_head dev r0 else r0)
           in case (if opens_page (he_sample_size env) r1 False
                    then (if he_replay env then (Inl EBUSY, r1)
                          else advance_page dev crc16 env base synced r1)
                    else (Inr 0, r1)) of
                (Inl e, r2) \<Rightarrow> (Inl e, r2)
              | (Inr ev, r2) \<Rightarrow>
                  (case stream_bytes dev (page_off (lp_phys (last (m_live r2))) + HIST_HDR_SIZE_V2)
                          (m_head_dw r2) (length (m_stage r2)) rec r2 of
                     (Some e, r3) \<Rightarrow> (Inl e, r3)
                   | (None, r3) \<Rightarrow>
                       let r4 = r3\<lparr>m_abs_ord := m_abs_ord r3 + 1\<rparr>
                       in (Inr ev, if rpp \<le> head_records r4 then close_head dev r4 else r4)))"
  unfolding flash_append_def close_head_def opens_page_def by (simp add: Let_def less_Suc_eq_le)

text \<open>A record streamed into an open page, and the page closed when that filled it.\<close>

lemma finish_record:
  assumes laws: "flash_laws dev c" and ok: "flash_ok c sz r" and ne: "m_live r \<noteq> []"
    and nf: "\<not> m_head_full r" and room: "head_records r < records_per_page sz" and len: "length rec = sz"
  obtains r' where "(case stream_bytes dev (page_off (lp_phys (last (m_live r))) + HIST_HDR_SIZE_V2)
          (m_head_dw r) (length (m_stage r)) rec r of
        (Some e, r3) \<Rightarrow> (Inl e, r3)
      | (None, r3) \<Rightarrow> (let r4 = r3\<lparr>m_abs_ord := m_abs_ord r3 + 1\<rparr>
          in (Inr ev, if records_per_page sz \<le> head_records r4 then close_head dev r4 else r4))) = (Inr ev, r')"
    "flash_ok c sz r'" "m_live r' = m_live r" "m_abs_ord r' = m_abs_ord r + 1"
    "cview c sz iv r' = cview c sz iv r @ [(Some rec, lp_base_time (last (m_live r)) + of_nat (head_records r) * iv,
        lp_synced (last (m_live r)))]"
proof -
  obtain f' st' dw' where sb: "stream_bytes dev (page_off (lp_phys (last (m_live r))) + HIST_HDR_SIZE_V2)
      (m_head_dw r) (length (m_stage r)) rec r = (None, r\<lparr>m_flash := f', m_head_dw := dw', m_stage := st'\<rparr>)"
    "flash_ok c sz (r\<lparr>m_flash := f', m_head_dw := dw', m_stage := st', m_abs_ord := m_abs_ord r + 1\<rparr>)"
    "cview c sz iv (r\<lparr>m_flash := f', m_head_dw := dw', m_stage := st', m_abs_ord := m_abs_ord r + 1\<rparr>) =
      cview c sz iv r @ [(Some rec, lp_base_time (last (m_live r)) + of_nat (head_records r) * iv,
        lp_synced (last (m_live r)))]"
    by (rule stream_record [OF assms, where iv = iv])
  let ?r = "r\<lparr>m_flash := f', m_head_dw := dw', m_stage := st', m_abs_ord := m_abs_ord r + 1\<rparr>"
  have ne': "m_live ?r \<noteq> []" using ne by simp
  obtain g dw2 where cl: "close_head dev ?r = ?r\<lparr>m_flash := g, m_head_dw := dw2, m_stage := [], m_head_full := True\<rparr>"
      "flash_ok c sz (close_head dev ?r)" "cview c sz iv (close_head dev ?r) = cview c sz iv ?r"
    by (rule close_head_ok [OF laws sb(2) ne', where iv = iv])
  let ?r' = "if records_per_page sz \<le> head_records ?r then close_head dev ?r else ?r"
  show thesis
  proof (rule that [of ?r'])
    show "m_live ?r' = m_live r" "m_abs_ord ?r' = m_abs_ord r + 1" using cl(1) by simp_all
    show "flash_ok c sz ?r'" using sb(2) cl(2) by (cases "records_per_page sz \<le> head_records ?r") (simp_all only: if_True if_False)
    have "cview c sz iv ?r' = cview c sz iv ?r" 
      using cl(3) by (cases "records_per_page sz \<le> head_records ?r") (simp_all only: if_True if_False)
    then show "cview c sz iv ?r' = cview c sz iv r @ [(Some rec, lp_base_time (last (m_live r)) + of_nat (head_records r) * iv,
        lp_synced (last (m_live r)))]" unfolding sb(3) .
  qed (simp add: sb(1))
qed


text \<open>The time of the new record: the clock it was given when it opens a page, else on the grid of the head.\<close>

definition flash_stamp :: "nat \<Rightarrow> u32 \<Rightarrow> u32 \<Rightarrow> bool \<Rightarrow> bool \<Rightarrow> 'f flash_ring \<Rightarrow> u32 \<times> bool" where
  "flash_stamp sz iv base synced split r =
     (if opens_page sz r split then (base, synced)
      else (lp_base_time (last (m_live r)) + of_nat (head_records r) * iv, lp_synced (last (m_live r))))"

subsection \<open>The append\<close>

text \<open>A split closes the head page before anything else.\<close>

lemma split_ok:
  assumes laws: "flash_laws dev c" and ok: "flash_ok c sz r"
  obtains r1 where "(if split \<and> m_live r \<noteq> [] \<and> \<not> m_head_full r then close_head dev r else r) = r1"
    "flash_ok c sz r1" "m_live r1 = m_live r" "m_abs_ord r1 = m_abs_ord r" "cview c sz iv r1 = cview c sz iv r"
    "opens_page sz r1 False = opens_page sz r split" "opens_page sz r split \<or> r1 = r"
proof (cases "split \<and> m_live r \<noteq> [] \<and> \<not> m_head_full r")
  case True
  then have ne: "m_live r \<noteq> []" by simp
  obtain f' dw' where cl: "close_head dev r = r\<lparr>m_flash := f', m_head_dw := dw', m_stage := [], m_head_full := True\<rparr>"
    "flash_ok c sz (close_head dev r)" "cview c sz iv (close_head dev r) = cview c sz iv r"
    by (rule close_head_ok [OF laws ok ne, where iv = iv])
  show thesis
  proof (rule that [OF _ cl(2) _ _ cl(3)])
    show "m_live (close_head dev r) = m_live r" "m_abs_ord (close_head dev r) = m_abs_ord r"
      "opens_page sz (close_head dev r) False = opens_page sz r split"
      using True by (simp_all add: cl(1) opens_page_def)
    show "opens_page sz r split \<or> close_head dev r = r" using True by (simp add: opens_page_def)
  qed (use True in simp)
next
  case False
  show thesis
    by (rule that [of r]) (use False ok in \<open>auto simp: opens_page_def head_records_def\<close>)
qed

lemma flash_ok_rpp: "flash_ok c sz r \<Longrightarrow> 0 < records_per_page sz"
  by (simp add: flash_ok_def records_per_page_def page_consts div_greater_zero_iff)

lemma flash_append_busy:
  assumes laws: "flash_laws dev c" and ok: "flash_ok c (he_sample_size env) r"
    and op: "opens_page (he_sample_size env) r split" and busy: "he_replay env"
  obtains r1 where "flash_append dev crc16 env rec base synced split r = (Inl EBUSY, r1)"
    "flash_ok c (he_sample_size env) r1" "m_live r1 = m_live r" "m_abs_ord r1 = m_abs_ord r"
    "cview c (he_sample_size env) iv r1 = cview c (he_sample_size env) iv r"
proof -
  let ?sz = "he_sample_size env"
  obtain r1 where r1: "(if split \<and> m_live r \<noteq> [] \<and> \<not> m_head_full r then close_head dev r else r) = r1"
    "flash_ok c ?sz r1" "m_live r1 = m_live r" "m_abs_ord r1 = m_abs_ord r" "cview c ?sz iv r1 = cview c ?sz iv r"
    "opens_page ?sz r1 False = opens_page ?sz r split" "opens_page ?sz r split \<or> r1 = r"
    by (rule split_ok [OF laws ok, where split = split and iv = iv])
  have "flash_append dev crc16 env rec base synced split r = (Inl EBUSY, r1)"
    unfolding flash_append_close Let_def r1(1)
    using ok flash_ok_rpp [OF ok] op busy r1(6) by (simp add: flash_ok_def)
  with r1 show thesis by (intro that)
qed

lemma flash_append_done:
  assumes laws: "flash_laws dev c" and ok: "flash_ok c (he_sample_size env) r"
    and len: "length rec = he_sample_size env"
    and nb: "\<not> (opens_page (he_sample_size env) r split \<and> he_replay env)"
  obtains ev r' where "flash_append dev crc16 env rec base synced split r = (Inr ev, r')"
    "flash_ok c (he_sample_size env) r'" "flash_first_abs r' = flash_first_abs r + ev"
    "m_abs_ord r' = m_abs_ord r + 1" "m_live r' \<noteq> []" "ev = 0 \<or> length (m_live r) = 16"
    "length (m_live r') \<le> length (m_live r) + 1"
    "cview c (he_sample_size env) iv r' = drop ev (cview c (he_sample_size env) iv r) @
       [(Some rec, flash_stamp (he_sample_size env) iv base synced split r)]"
proof -
  let ?sz = "he_sample_size env"
  obtain r1 where r1: "(if split \<and> m_live r \<noteq> [] \<and> \<not> m_head_full r then close_head dev r else r) = r1"
    "flash_ok c ?sz r1" "m_live r1 = m_live r" "m_abs_ord r1 = m_abs_ord r" "cview c ?sz iv r1 = cview c ?sz iv r"
    "opens_page ?sz r1 False = opens_page ?sz r split" "opens_page ?sz r split \<or> r1 = r"
    by (rule split_ok [OF laws ok, where split = split and iv = iv])
  obtain ev r2 where r2: "(if opens_page ?sz r1 False then (if he_replay env then (Inl EBUSY, r1)
        else advance_page dev crc16 env base synced r1) else (Inr 0, r1)) = (Inr ev, r2)"
    "flash_ok c ?sz r2" "m_live r2 \<noteq> []" "\<not> m_head_full r2" "head_records r2 < records_per_page ?sz"
    "m_abs_ord r2 = m_abs_ord r" "flash_first_abs r2 = flash_first_abs r + ev" "ev = 0 \<or> length (m_live r) = 16"
    "length (m_live r2) \<le> length (m_live r) + 1"
    "cview c ?sz iv r2 = drop ev (cview c ?sz iv r)"
    "(lp_base_time (last (m_live r2)) + of_nat (head_records r2) * iv, lp_synced (last (m_live r2))) =
       flash_stamp ?sz iv base synced split r"
  proof (cases "opens_page ?sz r split")
    case True
    show thesis
    proof (rule advance_ok [OF laws r1(2), where env = env and ?crc16.0 = crc16 and base = base and synced = synced and iv = iv])
      fix ev r2
      assume a: "advance_page dev crc16 env base synced r1 = (Inr ev, r2)" "flash_ok c ?sz r2" "\<not> m_head_full r2"
        "m_abs_ord r2 = m_abs_ord r1"
        "m_live r2 = (if length (m_live r1) = 16 then tl (m_live r1) else m_live r1) @
           [\<lparr>lp_first_ord = m_abs_ord r1, lp_base_time = base, lp_phys = (m_last_phys r1 + 1) mod 16,
             lp_synced = synced, lp_cur_boot = True, lp_v2 = True, lp_fixup = False\<rparr>]"
        "ev = (if length (m_live r1) = 16 then lp_first_ord (m_live r1 ! 1) - lp_first_ord (hd (m_live r1)) else 0)"
        "cview c ?sz iv r2 = drop ev (cview c ?sz iv r1)"
      have hr: "head_records r2 = 0" by (simp add: head_records_def a(4,5))
      show thesis
      proof (rule that [OF _ a(2)])
        show "(if opens_page ?sz r1 False then (if he_replay env then (Inl EBUSY, r1)
          else advance_page dev crc16 env base synced r1) else (Inr 0, r1)) = (Inr ev, r2)"
          using True nb r1(6) a(1) by simp
        show "m_live r2 \<noteq> []" by (simp add: a(5))
        show "head_records r2 < records_per_page ?sz" using hr flash_ok_rpp [OF ok] by simp
        show "flash_first_abs r2 = flash_first_abs r + ev"
        proof (cases "length (m_live r) = 16")
          case l: True
          have "lp_first_ord (hd (m_live r)) \<le> lp_first_ord (m_live r ! 1)"
            using sorted_nth_mono [OF sorted_firsts [OF ok], of 0 1] l by (cases "m_live r"; cases "tl (m_live r)") auto
          moreover have "hd (tl (m_live r)) = m_live r ! 1" "tl (m_live r) \<noteq> []"
            using l by (cases "m_live r"; cases "tl (m_live r)"; simp)+
          ultimately show ?thesis using l a(5,6) r1(3) by (auto simp: flash_first_abs_def)
        next
          case False
          then show ?thesis using a(4,5,6) r1(3,4) by (cases "m_live r") (simp_all add: flash_first_abs_def)
        qed
        show "(lp_base_time (last (m_live r2)) + of_nat (head_records r2) * iv, lp_synced (last (m_live r2))) =
            flash_stamp ?sz iv base synced split r"
          by (simp add: hr a(5) flash_stamp_def True)
      qed (use a r1 in simp_all)
    qed
  next
    case False
    then have "r1 = r" using r1(7) by simp
    then show thesis
      by (intro that [of 0 r]) (use False r1 ok in \<open>auto simp: opens_page_def flash_stamp_def\<close>)
  qed
  obtain r' where r': "(case stream_bytes dev (page_off (lp_phys (last (m_live r2))) + HIST_HDR_SIZE_V2)
          (m_head_dw r2) (length (m_stage r2)) rec r2 of
        (Some e, r3) \<Rightarrow> (Inl e, r3)
      | (None, r3) \<Rightarrow> (let r4 = r3\<lparr>m_abs_ord := m_abs_ord r3 + 1\<rparr>
          in (Inr ev, if records_per_page ?sz \<le> head_records r4 then close_head dev r4 else r4))) = (Inr ev, r')"
    "flash_ok c ?sz r'" "m_live r' = m_live r2" "m_abs_ord r' = m_abs_ord r2 + 1"
    "cview c ?sz iv r' = cview c ?sz iv r2 @ [(Some rec, lp_base_time (last (m_live r2)) + of_nat (head_records r2) * iv,
        lp_synced (last (m_live r2)))]"
    by (rule finish_record [OF laws r2(2,3,4,5) len, where iv = iv and ev = ev])
  have "flash_append dev crc16 env rec base synced split r = (Inr ev, r')"
  proof -
    have "m_ready r" "records_per_page ?sz \<noteq> 0" using ok flash_ok_rpp [OF ok] by (simp_all add: flash_ok_def)
    then show ?thesis unfolding flash_append_close Let_def r1(1) r2(1) using r'(1) [unfolded Let_def] by simp
  qed
  then show thesis
    by (rule that) (use r' r2 in \<open>simp_all add: flash_first_abs_def\<close>)
qed

lemma ready: "flash_ok c sz r \<Longrightarrow> m_ready r"
  by (simp add: flash_ok_def)

lemma first_abs_le: "flash_ok c sz r \<Longrightarrow> flash_first_abs r \<le> m_abs_ord r"
  by (cases "m_live r") (auto simp: flash_ok_def flash_first_abs_def sorted_append)

lemma first_abs_stored: "flash_ok c sz r \<Longrightarrow> flash_first_abs r + flash_stored r = m_abs_ord r"
  using first_abs_le [of c sz r] by (auto simp: flash_first_abs_def flash_stored_def)

lemma view_read: "flash_first_abs r \<le> a \<Longrightarrow> a < m_abs_ord r \<Longrightarrow>
    fst (flash_view dev sz iv r ! (a - flash_first_abs r)) = flash_read dev sz r a"
  using nth_upt [of "flash_first_abs r" "a - flash_first_abs r" "m_abs_ord r"] by (simp add: flash_view_def)

lemma length_flash_view: "length (flash_view dev sz iv r) = m_abs_ord r - flash_first_abs r"
  by (simp add: flash_view_def)

text \<open>What an append does to the list of records a reader sees.\<close>

lemma append_view_busy:
  assumes "flash_laws dev c" "flash_ok c (he_sample_size env) r"
    "opens_page (he_sample_size env) r split" "he_replay env"
  obtains r1 where "flash_append dev crc16 env rec base synced split r = (Inl EBUSY, r1)"
    "flash_ok c (he_sample_size env) r1" "flash_first_abs r1 = flash_first_abs r" "m_abs_ord r1 = m_abs_ord r"
    "flash_view dev (he_sample_size env) iv r1 = flash_view dev (he_sample_size env) iv r"
proof (rule flash_append_busy [OF assms])
  fix r1
  assume "flash_append dev crc16 env rec base synced split r = (Inl EBUSY, r1)"
    "flash_ok c (he_sample_size env) r1" "m_live r1 = m_live r" "m_abs_ord r1 = m_abs_ord r"
    "cview c (he_sample_size env) iv r1 = cview c (he_sample_size env) iv r"
  then show thesis
    using that [of r1] flash_view_pages [OF assms(1,2), of iv] flash_view_pages [OF assms(1), of "he_sample_size env" r1 iv]
    by (simp add: flash_first_abs_def)
qed

lemma append_view_done:
  assumes "flash_laws dev c" "flash_ok c (he_sample_size env) r" "length rec = he_sample_size env"
    "\<not> (opens_page (he_sample_size env) r split \<and> he_replay env)"
  obtains ev r' where "flash_append dev crc16 env rec base synced split r = (Inr ev, r')"
    "flash_ok c (he_sample_size env) r'" "flash_first_abs r' = flash_first_abs r + ev"
    "m_abs_ord r' = m_abs_ord r + 1" "flash_first_abs r' \<le> m_abs_ord r" "ev = 0 \<or> length (m_live r) = 16"
    "length (m_live r') \<le> length (m_live r) + 1"
    "flash_view dev (he_sample_size env) iv r' = drop ev (flash_view dev (he_sample_size env) iv r) @
       [(Some rec, flash_stamp (he_sample_size env) iv base synced split r)]"
proof (rule flash_append_done [OF assms])
  fix ev r'
  let ?sz = "he_sample_size env"
  assume a: "flash_append dev crc16 env rec base synced split r = (Inr ev, r')"
    "flash_ok c ?sz r'" "flash_first_abs r' = flash_first_abs r + ev"
    "m_abs_ord r' = m_abs_ord r + 1" "m_live r' \<noteq> []" "ev = 0 \<or> length (m_live r) = 16"
    "length (m_live r') \<le> length (m_live r) + 1"
    "cview c ?sz iv r' = drop ev (cview c ?sz iv r) @ [(Some rec, flash_stamp ?sz iv base synced split r)]"
  have v: "flash_view dev ?sz iv r' = drop ev (flash_view dev ?sz iv r) @
       [(Some rec, flash_stamp ?sz iv base synced split r)]"
    using flash_view_pages [OF assms(1,2), of iv] flash_view_pages [OF assms(1) a(2), of iv] a(8) by simp
  then have "length (flash_view dev ?sz iv r') \<noteq> 0" by simp
  then have "flash_first_abs r' \<le> m_abs_ord r" using a(4) by (simp add: length_flash_view)
  then show thesis using that [OF a(1-4) _ a(6,7) v] by simp
qed

lemma append_view:
  assumes laws: "flash_laws dev c" and ok: "flash_ok c (he_sample_size env) r"
    and len: "length rec = he_sample_size env"
  shows "let sz = he_sample_size env; (res, r') = flash_append dev crc16 env rec base synced split r in
    flash_ok c sz r' \<and>
    (if opens_page sz r split \<and> he_replay env
     then res = Inl EBUSY \<and> flash_view dev sz iv r' = flash_view dev sz iv r
     else \<exists>ev. res = Inr ev \<and> flash_first_abs r' = flash_first_abs r + ev \<and>
       flash_view dev sz iv r' =
         drop ev (flash_view dev sz iv r) @ [(Some rec, flash_stamp sz iv base synced split r)])"
proof (cases "opens_page (he_sample_size env) r split \<and> he_replay env")
  case True
  then have "opens_page (he_sample_size env) r split" "he_replay env" by simp_all
  then show ?thesis
    by (rule append_view_busy [OF laws ok, where ?crc16.0 = crc16 and rec = rec and base = base and synced = synced and iv = iv])
      (simp add: Let_def True)
next
  case False
  then show ?thesis
    by (rule append_view_done [OF laws ok len, where ?crc16.0 = crc16 and base = base and synced = synced and iv = iv])
      (use False in \<open>simp add: Let_def\<close>)
qed

subsection \<open>The contract of a history backend\<close>

lemma flash_reset_ok: "flash_ok c sz r \<Longrightarrow> flash_ok c sz (flash_reset_logical r)"
  by (simp add: flash_ok_def flash_reset_logical_def phys_ok_def)

lemma flash_backend:
  assumes laws: "flash_laws dev c"
  shows "hist_backend (flash_append dev crc16 env) (flash_read dev (he_sample_size env)) flash_first_abs
    flash_stored flash_reset_logical (flash_ok c (he_sample_size env)) (he_sample_size env)"
proof
  let ?sz = "he_sample_size env"
  fix s :: "'a flash_ring" and rec :: bytes and base synced split
  assume ok: "flash_ok c ?sz s"
  show "flash_ok c ?sz (flash_reset_logical s)" by (rule flash_reset_ok [OF ok])
  show "flash_first_abs (flash_reset_logical s) = flash_first_abs s + flash_stored s \<and>
      flash_stored (flash_reset_logical s) = 0"
    using first_abs_stored [OF ok] by (simp add: flash_reset_logical_def flash_first_abs_def flash_stored_def)
  assume len: "length rec = ?sz"
  show "flash_ok c ?sz (snd (flash_append dev crc16 env rec base synced split s))"
    using append_view [OF laws ok len, of crc16 base synced split 0] by (simp add: Let_def split_beta)
  fix ev s' e a
  have nb: "\<not> (opens_page ?sz s split \<and> he_replay env)"
    if "flash_append dev crc16 env rec base synced split s = (Inr ev, s')" for ev s'
    using append_view [OF laws ok len, of crc16 base synced split 0] that by (auto simp: Let_def)
  note st = first_abs_stored [OF ok]
  show "ev \<le> flash_stored s \<and> flash_first_abs s' = flash_first_abs s + ev \<and>
      flash_stored s' = flash_stored s + 1 - ev"
    if e: "flash_append dev crc16 env rec base synced split s = (Inr ev, s')"
  proof (rule append_view_done [OF laws ok len nb [OF e], where ?crc16.0 = crc16 and base = base and synced = synced and iv = 0])
    fix ev' r'
    assume a: "flash_append dev crc16 env rec base synced split s = (Inr ev', r')" "flash_ok c ?sz r'"
      "flash_first_abs r' = flash_first_abs s + ev'" "m_abs_ord r' = m_abs_ord s + 1" "flash_first_abs r' \<le> m_abs_ord s"
    then show ?thesis using first_abs_stored [OF a(2)] st e by auto
  qed
  show "flash_read dev ?sz s' (flash_first_abs s + flash_stored s) = Some rec"
    if e: "flash_append dev crc16 env rec base synced split s = (Inr ev, s')"
  proof (rule append_view_done [OF laws ok len nb [OF e], where ?crc16.0 = crc16 and base = base and synced = synced and iv = 0])
    fix ev' r'
    assume a: "flash_append dev crc16 env rec base synced split s = (Inr ev', r')" "flash_ok c ?sz r'"
      "flash_first_abs r' = flash_first_abs s + ev'" "m_abs_ord r' = m_abs_ord s + 1" "flash_first_abs r' \<le> m_abs_ord s"
      "flash_view dev ?sz 0 r' = drop ev' (flash_view dev ?sz 0 s) @ [(Some rec, flash_stamp ?sz 0 base synced split s)]"
    have "length (drop ev' (flash_view dev ?sz 0 s)) = m_abs_ord s - flash_first_abs r'"
      using a(3) by (simp add: length_flash_view)
    then have "flash_view dev ?sz 0 r' ! (m_abs_ord s - flash_first_abs r') =
        (Some rec, flash_stamp ?sz 0 base synced split s)"
      unfolding a(6) by (metis nth_append_length)
    then show ?thesis
      using view_read [of r' "m_abs_ord s" dev ?sz 0] a(4,5) st e a(1) by simp
  qed
  show "flash_read dev ?sz (snd (flash_append dev crc16 env rec base synced split s)) a = flash_read dev ?sz s a"
    if a: "flash_first_abs (snd (flash_append dev crc16 env rec base synced split s)) \<le> a"
      "a < flash_first_abs s + flash_stored s"
  proof -
    obtain res r' where e: "flash_append dev crc16 env rec base synced split s = (res, r')" by fastforce
    have le: "flash_first_abs r' \<le> a" "a < m_abs_ord s" using a st e by simp_all
    show ?thesis
    proof (cases "opens_page ?sz s split \<and> he_replay env")
      case True
      then have op: "opens_page ?sz s split" "he_replay env" by simp_all
      show ?thesis
      proof (rule append_view_busy [OF laws ok op, where ?crc16.0 = crc16 and rec = rec and base = base and synced = synced and iv = 0])
        fix r1
        assume b: "flash_append dev crc16 env rec base synced split s = (Inl EBUSY, r1)"
          "flash_first_abs r1 = flash_first_abs s" "m_abs_ord r1 = m_abs_ord s"
          "flash_view dev ?sz 0 r1 = flash_view dev ?sz 0 s"
        then show ?thesis
          using le view_read [of r1 a dev ?sz 0] view_read [of s a dev ?sz 0] e by simp
      qed
    next
      case False
      show ?thesis
      proof (rule append_view_done [OF laws ok len False, where ?crc16.0 = crc16 and base = base and synced = synced and iv = 0])
        fix ev' r1
        assume b: "flash_append dev crc16 env rec base synced split s = (Inr ev', r1)"
          "flash_first_abs r1 = flash_first_abs s + ev'" "m_abs_ord r1 = m_abs_ord s + 1"
          "flash_view dev ?sz 0 r1 = drop ev' (flash_view dev ?sz 0 s) @ [(Some rec, flash_stamp ?sz 0 base synced split s)]"
        have r: "r' = r1" using e b(1) by simp
        have "flash_view dev ?sz 0 r1 ! (a - flash_first_abs r1) = flash_view dev ?sz 0 s ! (a - flash_first_abs s)"
        proof -
          have "a - flash_first_abs r1 < length (drop ev' (flash_view dev ?sz 0 s))"
            using le b(2) r by (simp add: length_flash_view)
          then show ?thesis unfolding b(4) using le b(2) r by (simp add: nth_append)
        qed
        then show ?thesis
          using le view_read [of r1 a dev ?sz 0] view_read [of s a dev ?sz 0] e b r by simp
      qed
    qed
  qed
  show "flash_first_abs s \<le> flash_first_abs s' \<and> flash_first_abs s' + flash_stored s' = flash_first_abs s + flash_stored s"
    if er: "flash_append dev crc16 env rec base synced split s = (Inl e, s')"
  proof (cases "opens_page ?sz s split \<and> he_replay env")
    case True
    then have op: "opens_page ?sz s split" "he_replay env" by simp_all
    show ?thesis
    proof (rule append_view_busy [OF laws ok op, where ?crc16.0 = crc16 and rec = rec and base = base and synced = synced and iv = 0])
      fix r1
      assume b: "flash_append dev crc16 env rec base synced split s = (Inl EBUSY, r1)" "flash_ok c ?sz r1"
        "flash_first_abs r1 = flash_first_abs s" "m_abs_ord r1 = m_abs_ord s"
      then show ?thesis using er st first_abs_stored [OF b(2)] by simp
    qed
  next
    case False
    then show ?thesis using append_view [OF laws ok len, of crc16 base synced split 0] er by (auto simp: Let_def)
  qed
qed


subsection \<open>A simulated NOR flash\<close>

text \<open>A program can only clear bits; an erase sets those of its range.\<close>

definition sim_dev :: "(nat \<Rightarrow> u8) flash_dev" where
  "sim_dev = \<lparr>fd_read = (\<lambda>f off n. Some (map f [off..<off + n])),
     fd_write = (\<lambda>off bs f. (None, \<lambda>x. if off \<le> x \<and> x < off + length bs then and (f x) (bs ! (x - off)) else f x)),
     fd_erase = (\<lambda>off n f. (None, \<lambda>x. if off \<le> x \<and> x < off + n then 0xFF else f x))\<rparr>"

lemma sim_laws: "flash_laws sim_dev id"
proof -
  have "and 0xFF b = b" for b :: u8
  proof -
    have "(0xFF :: u8) = - 1" by simp
    then show ?thesis by (simp only: and.left_neutral)
  qed
  then show ?thesis by (simp add: flash_laws_def sim_dev_def)
qed

definition sim_env :: "nat \<Rightarrow> hist_env" where
  "sim_env sz = \<lparr>he_sample_size = sz, he_layout = 7, he_interval = 60, he_replay = False\<rparr>"

definition sim_ring :: "(nat \<Rightarrow> u8) flash_ring" where
  "sim_ring = \<lparr>m_flash = (\<lambda>x. 0xFF), m_ready = True, m_live = [], m_next_seq = 0, m_abs_ord = 0,
     m_last_phys = 15, m_head_dw = 0, m_stage = [], m_head_full = False\<rparr>"

lemma sim_ring_ok: "0 < sz \<Longrightarrow> sz \<le> 1757 \<Longrightarrow> flash_ok id sz sim_ring"
  by (simp add: flash_ok_def sim_ring_def phys_ok_def)

interpretation fr: hist_backend "flash_append sim_dev crc16 env" "flash_read sim_dev (he_sample_size env)" flash_first_abs
    flash_stored flash_reset_logical "flash_ok id (he_sample_size env)" "he_sample_size env" for crc16 env
  by (rule flash_backend [OF sim_laws])

text \<open>
  C22: The flash ring implements a bounded list of timed records. An append adds the record at the
  end, stamped with the clock it was given when it opens a page and otherwise on the grid of the head page, and
  evicts only the oldest records; every stored byte is read back through the staging buffer and the double words
  of the pages. The one refusal is \<open>-EBUSY\<close>: a page would have to open during a replay; then no stored
  record changes.
\<close>
theorem flash_append_refines:
  assumes laws: "flash_laws dev c" and ok: "flash_ok c (he_sample_size env) r"
    and len: "length rec = he_sample_size env"
  shows "let sz = he_sample_size env; (res, r') = flash_append dev crc16 env rec base synced split r in
    flash_ok c sz r' \<and>
    (if opens_page sz r split \<and> he_replay env
     then res = Inl EBUSY \<and> flash_view dev sz iv r' = flash_view dev sz iv r
     else \<exists>ev. res = Inr ev \<and> flash_first_abs r' = flash_first_abs r + ev \<and>
       flash_view dev sz iv r' =
         drop ev (flash_view dev sz iv r) @ [(Some rec, flash_stamp sz iv base synced split r)])"
  using assms by (rule append_view)

definition sim_one :: "(nat \<Rightarrow> u8) flash_ring" where
  "sim_one = snd (flash_append sim_dev (\<lambda>s bs. 0) (sim_env 3) [1, 2, 3] 1000 True False sim_ring)"

lemma sim_one: "flash_ok id 3 sim_one" "length (m_live sim_one) \<le> 1" "flash_first_abs sim_one = 0" "m_abs_ord sim_one = 1"
  "flash_append sim_dev (\<lambda>s bs. 0) (sim_env 3) [1, 2, 3] 1000 True False sim_ring = (Inr 0, sim_one)"
proof -
  have a: "flash_ok id (he_sample_size (sim_env 3)) sim_ring" "length [1, 2, 3 :: u8] = he_sample_size (sim_env 3)"
      "\<not> (opens_page (he_sample_size (sim_env 3)) sim_ring False \<and> he_replay (sim_env 3))"
    using sim_ring_ok [of 3] by (simp_all add: sim_env_def)
  show "flash_ok id 3 sim_one" "length (m_live sim_one) \<le> 1" "flash_first_abs sim_one = 0" "m_abs_ord sim_one = 1"
    "flash_append sim_dev (\<lambda>s bs. 0) (sim_env 3) [1, 2, 3] 1000 True False sim_ring = (Inr 0, sim_one)"
    by (rule append_view_done [OF sim_laws a, where ?crc16.0 = "\<lambda>s bs. 0" and base = 1000 and synced = True and iv = 0];
      simp add: sim_one_def sim_ring_def sim_env_def flash_first_abs_def)+
qed

lemma flash_append_refines_witness:
  "flash_view sim_dev 3 60 sim_one = [(Some [1, 2, 3], 1000, True)]"
proof -
  let ?e = "sim_env 3"
  have e: "he_sample_size ?e = 3" "he_replay ?e = False" by (simp_all add: sim_env_def)
  have v: "flash_view sim_dev 3 60 sim_ring = []" "flash_stamp 3 60 1000 True False sim_ring = (1000, True)"
    by (simp_all add: flash_view_def sim_ring_def flash_first_abs_def flash_stamp_def opens_page_def)
  have "length [1, 2, 3 :: u8] = he_sample_size ?e" "flash_ok id (he_sample_size ?e) sim_ring"
    using sim_ring_ok [of 3] e by simp_all
  note flash_append_refines [OF sim_laws this(2,1), of "\<lambda>s bs. 0" 1000 True False 60, unfolded e Let_def sim_one(5)]
  then show ?thesis by (simp add: v)
qed

text \<open>
  C24: On flash too an absolute ordinal names one record for as long as it is stored, across appends, page
  changes, splits, evictions and resets.
\<close>
theorem flash_ordinals_stable:
  "flash_laws dev c \<Longrightarrow> flash_ok c (he_sample_size env) r \<Longrightarrow> edits_fit (he_sample_size env) es \<Longrightarrow>
   flash_first_abs (ring_edits (flash_append dev crc16 env) flash_reset_logical es r) \<le> a \<Longrightarrow>
   a < flash_first_abs r + flash_stored r \<Longrightarrow>
   flash_read dev (he_sample_size env) (ring_edits (flash_append dev crc16 env) flash_reset_logical es r) a =
     flash_read dev (he_sample_size env) r a"
  using hist_backend.ordinal_stable [OF flash_backend] .

lemma flash_ordinals_stable_witness:
  "flash_read sim_dev 3 (ring_edits (flash_append sim_dev (\<lambda>s bs. 0) (sim_env 3)) flash_reset_logical
      [Some ([4, 5, 6], 0, False, True)] sim_one) 0 = flash_read sim_dev 3 sim_one 0"
proof -
  let ?e = "sim_env 3"
  have e: "he_sample_size ?e = 3" "\<not> he_replay ?e" by (simp_all add: sim_env_def)
  have a: "flash_ok id (he_sample_size ?e) sim_one" "length [4, 5, 6 :: u8] = he_sample_size ?e"
      "\<not> (opens_page (he_sample_size ?e) sim_one True \<and> he_replay ?e)"
    using sim_one(1) e by simp_all
  have "flash_first_abs (snd (flash_append sim_dev (\<lambda>s bs. 0) ?e [4, 5, 6] 0 False True sim_one)) = 0"
    by (rule append_view_done [OF sim_laws a, where ?crc16.0 = "\<lambda>s bs. 0" and base = 0 and synced = False and iv = 0])
      (use sim_one(2,3) in auto)
  then show ?thesis
    using flash_ordinals_stable [OF sim_laws a(1), of "[Some ([4, 5, 6], 0, False, True)]" "\<lambda>s bs. 0" 0] sim_one
      first_abs_stored [OF sim_one(1)] e by (simp add: edits_fit_def)
qed

subsection \<open>Replay\<close>

lemma those_length: "those xs = Some ys \<Longrightarrow> length ys = length xs"
  by (induction xs arbitrary: ys) (auto split: option.splits)


lemma flash_read_sized: "reads_sized sz (flash_read dev sz r)"
  by (auto simp: reads_sized_def flash_read_def page_read_stream_def Let_def split: if_splits dest!: those_length)

lemma ord_page:
  assumes "sorted (map lp_first_ord live @ [stop])" "live \<noteq> []" "lp_first_ord (hd live) \<le> a" "a < stop"
  obtains i where "i < length live" "lp_first_ord (live ! i) \<le> a" "a < page_end live stop i"
proof -
  define P where "P i \<longleftrightarrow> i < length live \<and> lp_first_ord (live ! i) \<le> a" for i
  have p0: "P 0" using assms by (simp add: P_def hd_conv_nth)
  have b: "\<forall>i. P i \<longrightarrow> i \<le> length live" by (simp add: P_def)
  define i where "i = (GREATEST i. P i)"
  have i: "P i" unfolding i_def by (rule GreatestI_nat [where P = P and b = "length live", OF p0]) (use b in blast)
  have "a < page_end live stop i"
  proof (rule ccontr)
    assume n: "\<not> a < page_end live stop i"
    then have "P (Suc i)" using assms(4) i by (auto simp: P_def page_end_def split: if_splits)
    then have "Suc i \<le> i" unfolding i_def by (rule Greatest_le_nat [where P = P and b = "length live"]) (use b in blast)
    then show False by simp
  qed
  with i show thesis by (intro that) (simp_all add: P_def)
qed

lemma flash_readable:
  assumes "flash_laws dev c" "flash_ok c sz r" "flash_first_abs r \<le> a" "a < m_abs_ord r"
  shows "flash_read dev sz r a \<noteq> None"
proof -
  have "m_live r \<noteq> []" using assms(3,4) by (auto simp: flash_first_abs_def)
  then obtain i where "i < length (m_live r)" "lp_first_ord (m_live r ! i) \<le> a" "a < page_end (m_live r) (m_abs_ord r) i"
    using assms ord_page [of "m_live r" "m_abs_ord r" a] by (auto simp: flash_ok_def flash_first_abs_def)
  then show ?thesis using flash_read_page [OF assms(1,2)] by blast
qed

text \<open>
  A replay of the flash ring gives the host the stored records whose time lies in the asked window,
  each once, in order, with the bytes, time and clock flag the ring holds for them.
\<close>
theorem flash_replay_is_view:
  assumes "flash_laws dev c" "flash_ok c sz r" "0 < q_interval q"
    "\<forall>s \<in> set (flash_segs r). seg_no_wrap (q_interval q) s" "\<forall>cap \<in> set caps. sz \<le> cap"
    "flash_stored r \<le> length caps"
  shows "concat (map (host_records sz (q_interval q))
      (replay_frames (flash_read dev sz r) sz (flash_segs r) (flash_first_abs r) (m_abs_ord r) q
        (flash_first_abs r) (m_abs_ord r) caps)) =
    map (\<lambda>(rec, t, synced). (the rec, t, synced))
      (filter (\<lambda>(rec, t, synced). in_window q t synced) (flash_view dev sz (q_interval q) r))"
proof -
  have "sorted (map lp_first_ord (m_live r) @ [m_abs_ord r])" "0 < sz" using assms(2) by (simp_all add: flash_ok_def)
  note t = flash_segs_tile [OF this(1)] this(2)
  show ?thesis
    unfolding flash_view_def
    by (rule replay_view [OF t(2) flash_read_sized t(1) flash_readable [OF assms(1,2)] assms(3,4,5)])
      (use assms(6) first_abs_stored [OF assms(2)] in simp_all)
qed

lemma sim_one_live: "m_live sim_one = [\<lparr>lp_first_ord = 0, lp_base_time = 1000, lp_phys = 0, lp_synced = True,
    lp_cur_boot = True, lp_v2 = True, lp_fixup = False\<rparr>]"
  by (simp add: sim_one_def sim_ring_def sim_env_def flash_append_def records_per_page_def page_consts sim_dev_def
    advance_page_def Let_def head_records_def)

lemma flash_replay_is_view_witness:
  "concat (map (host_records 3 60)
      (replay_frames (flash_read sim_dev 3 sim_one) 3 (flash_segs sim_one) 0 1 demo_full_query 0 1 [51])) =
    map (\<lambda>(rec, t, synced). (the rec, t, synced))
      (filter (\<lambda>(rec, t, synced). in_window demo_full_query t synced) (flash_view sim_dev 3 60 sim_one))"
proof -
  have "\<forall>s \<in> set (flash_segs sim_one). seg_no_wrap 60 s"
    by (simp add: flash_segs_def flash_seg_def sim_one_live sim_one seg_no_wrap_def Let_def)
  moreover have "q_interval demo_full_query = 60" by (simp add: demo_full_query_def)
  ultimately show ?thesis
    using flash_replay_is_view [OF sim_laws sim_one(1), of demo_full_query "[51]"] sim_one(3,4) first_abs_stored [OF sim_one(1)]
    by simp
qed

end
