(* ===== verification/FlashDisk.thy ===== *)
theory FlashDisk
  imports FlashRefine
begin

text \<open>
  What the flash holds of the ring (\<open>durable\<close>): a valid header on every live page with its place in the
  sequence, older sequence numbers everywhere else, and a head page whose frame bytes stop at the write head.
  An append keeps it.
\<close>

subsection \<open>Headers\<close>

lemma take28_crc: "take 28 (hdr_bytes (h\<lparr>ph_crc := k\<rparr>)) = take 28 (hdr_bytes h)"
  by (simp add: hdr_bytes_def)

lemma hdr_roundtrip: "hdr_parse (hdr_bytes h) = h"
  by (cases h) (simp add: hdr_parse_def hdr_bytes_def nth_append)

lemma hdr_crc_valid: "ph_magic h = PAGE_MAGIC_V1 \<or> ph_magic h = PAGE_MAGIC_V2 \<Longrightarrow> hdr_valid crc16 (hdr_crc_set crc16 h)"
  by (auto simp: hdr_valid_def hdr_crc_set_def take28_crc)

definition page_hdr :: "('f \<Rightarrow> nat \<Rightarrow> u8) \<Rightarrow> 'f \<Rightarrow> nat \<Rightarrow> hist_page_hdr" where
  "page_hdr c f p = hdr_parse (map (c f) [page_off p..<page_off p + 32])"

definition fix_erased :: "('f \<Rightarrow> nat \<Rightarrow> u8) \<Rightarrow> 'f \<Rightarrow> nat \<Rightarrow> bool" where
  "fix_erased c f p = erased c f (page_off p + 32) (page_off p + 40)"

lemma page_fin: "p < 16 \<Longrightarrow> page_off p + 2048 \<le> FLASH_SIZE"
  by (simp add: page_off_def FLASH_SIZE_def page_consts)

lemma read_hdr_page: "flash_laws dev c \<Longrightarrow> p < 16 \<Longrightarrow> read_hdr dev f p = Some (page_hdr c f p)"
  using page_fin [of p] law_read [of dev c "page_off p" 32 f]
  by (simp add: read_hdr_def page_hdr_def HIST_HDR_SIZE_def)

lemma fixup_read_page: "flash_laws dev c \<Longrightarrow> p < 16 \<Longrightarrow> fixup_read dev crc16 f p h =
    (let b = map (c f) [page_off p + 32..<page_off p + 40] in
     if b ! 4 \<noteq> FIXUP_MARK then None
     else if crc16 (ph_crc h) (take 6 b) \<noteq> get_le16 (drop 6 b) then None
     else Some (ph_base_time h + get_le32 b))"
proof -
  assume "flash_laws dev c" "p < 16"
  then have "fd_read dev f (page_off p + 32) 8 = Some (map (c f) [page_off p + 32..<page_off p + 32 + 8])"
    using page_fin [of p] by (intro law_read) simp_all
  moreover have "page_off p + 32 + 8 = page_off p + 40" by simp
  ultimately show ?thesis by (simp only: fixup_read_def HIST_HDR_SIZE_def DW_SIZE_def Let_def option.case)
qed

lemma fixup_erased: "flash_laws dev c \<Longrightarrow> p < 16 \<Longrightarrow> fix_erased c f p \<Longrightarrow> fixup_read dev crc16 f p h = None"
  by (simp add: fixup_read_page fix_erased_def erased_def FIXUP_MARK_def Let_def)

text \<open>Only the first 40 bytes of a page count for its header and its fix-up.\<close>

lemma page_hdr_cong: "(\<And>x. page_off p \<le> x \<Longrightarrow> x < page_off p + 40 \<Longrightarrow> c f' x = c f x) \<Longrightarrow>
    page_hdr c f' p = page_hdr c f p"
  unfolding page_hdr_def by (intro arg_cong [where f = hdr_parse] map_cong) simp_all

lemma fix_erased_cong: "(\<And>x. page_off p \<le> x \<Longrightarrow> x < page_off p + 40 \<Longrightarrow> c f' x = c f x) \<Longrightarrow>
    fix_erased c f' p = fix_erased c f p"
  by (simp add: fix_erased_def erased_def)

lemma mount_page_cong:
  assumes laws: "flash_laws dev c" and p: "p < 16"
    and eq: "\<And>x. page_off p \<le> x \<Longrightarrow> x < page_off p + 40 \<Longrightarrow> c f' x = c f x"
  shows "mount_page dev crc16 f' p = mount_page dev crc16 f p"
proof -
  have "map (c f') [page_off p + 32..<page_off p + 40] = map (c f) [page_off p + 32..<page_off p + 40]"
    using eq by simp
  then have "fixup_read dev crc16 f' p h = fixup_read dev crc16 f p h" for h
    by (simp only: fixup_read_page [OF laws p])
  then show ?thesis
    using page_hdr_cong [of p c f' f] eq by (simp add: mount_page_def read_hdr_page [OF laws p] cong: if_cong)
qed

subsection \<open>What the flash holds of the ring\<close>

text \<open>A live page's header, with the number \<open>n\<close> in its sequence: a mount would bring the page back, with
  the clock of its header, or the one a fix-up gave it; a fix-up still to be written is the exception.\<close>

definition page_disk :: "'f flash_dev \<Rightarrow> ('f \<Rightarrow> nat \<Rightarrow> u8) \<Rightarrow> crc16 \<Rightarrow> hist_env \<Rightarrow> 'f \<Rightarrow> live_page \<Rightarrow> nat \<Rightarrow> bool" where
  "page_disk dev c crc16 env f lp n \<longleftrightarrow>
     (let h = page_hdr c f (lp_phys lp); m = mount_page dev crc16 f (lp_phys lp) in
      hdr_valid crc16 h \<and> unat (ph_seq h) = n \<and> layout_matches env h \<and> ph_interval h = he_interval env \<and>
      (lp_v2 lp \<and> (\<not> lp_synced lp \<or> lp_fixup lp) \<longrightarrow> ph_base_synced h = 0 \<and> fix_erased c f (lp_phys lp)) \<and>
      (lp_fixup lp \<longrightarrow> lp_v2 lp \<and> lp_synced lp) \<and>
      lp_first_ord m = lp_first_ord lp \<and> lp_v2 m = lp_v2 lp \<and>
      (\<not> lp_fixup lp \<longrightarrow> lp_base_time m = lp_base_time lp \<and> lp_synced m = lp_synced lp))"

definition pages_disk :: "'f flash_dev \<Rightarrow> ('f \<Rightarrow> nat \<Rightarrow> u8) \<Rightarrow> crc16 \<Rightarrow> hist_env \<Rightarrow> 'f \<Rightarrow> live_page list \<Rightarrow> u32 \<Rightarrow> bool" where
  "pages_disk dev c crc16 env f live nseq \<longleftrightarrow> length live \<le> unat nseq \<and>
     (\<forall>i < length live. page_disk dev c crc16 env f (live ! i) (unat nseq - (length live - i))) \<and>
     (\<forall>p < 16. p \<notin> lp_phys ` set live \<longrightarrow> hdr_valid crc16 (page_hdr c f p) \<longrightarrow>
        unat (ph_seq (page_hdr c f p)) + length live + 2 \<le> unat nseq)"

lemma page_disk_cong:
  assumes laws: "flash_laws dev c" and p: "lp_phys lp < 16"
    and eq: "\<And>x. page_off (lp_phys lp) \<le> x \<Longrightarrow> x < page_off (lp_phys lp) + 40 \<Longrightarrow> c f' x = c f x"
  shows "page_disk dev c crc16 env f' lp n = page_disk dev c crc16 env f lp n"
  unfolding page_disk_def
  by (simp only: page_hdr_cong [of "lp_phys lp" c f' f, OF eq] fix_erased_cong [of "lp_phys lp" c f' f, OF eq]
      mount_page_cong [of dev c "lp_phys lp" f' f, OF laws p eq])

lemma pages_disk_cong:
  assumes laws: "flash_laws dev c" and po: "phys_ok l live"
    and eq: "\<And>p x. p < 16 \<Longrightarrow> page_off p \<le> x \<Longrightarrow> x < page_off p + 40 \<Longrightarrow> c f' x = c f x"
    and d: "pages_disk dev c crc16 env f live nseq"
  shows "pages_disk dev c crc16 env f' live nseq"
proof -
  have "page_disk dev c crc16 env f' (live ! i) n = page_disk dev c crc16 env f (live ! i) n" if "i < length live" for i n
    using phys_lt [OF po, of "live ! i"] that eq by (intro page_disk_cong [OF laws]) auto
  moreover have "page_hdr c f' p = page_hdr c f p" if "p < 16" for p
    using that eq by (intro page_hdr_cong) auto
  ultimately show ?thesis using d by (simp add: pages_disk_def)
qed

text \<open>Writing to the data of a v2 head page leaves every header.\<close>

lemma hdr_outside_data:
  assumes "lp_v2 h" "page_off p \<le> x" "x < page_off p + 40"
  shows "x < lp_data h \<or> lp_data h + 2008 \<le> x"
proof -
  have d: "lp_data h = page_off (lp_phys h) + 40" using assms(1) by (simp add: lp_data_def page_data_off_def page_consts)
  show ?thesis
  proof (cases "p \<le> lp_phys h")
    case True
    then have "page_off p \<le> page_off (lp_phys h)" by (simp add: page_off_def)
    then show ?thesis using assms(3) d by linarith
  next
    case False
    then have "page_off (lp_phys h) + 2048 \<le> page_off p" by (simp add: page_off_def PAGE_SIZE_def)
    then show ?thesis using assms(2) d by linarith
  qed
qed

lemma head_data_no_hdr:
  assumes "lp_v2 h \<or> (\<forall>x. c f' x = c f x)"
    "\<And>x. x < lp_data h \<or> lp_data h + 2008 \<le> x \<Longrightarrow> c f' x = c f x"
    "page_off p \<le> x" "x < page_off p + 40"
  shows "c f' x = c f x"
proof (cases "\<forall>x. c f' x = c f x")
  case False
  then have "lp_v2 h" using assms(1) by blast
  then show ?thesis using assms(2) hdr_outside_data [OF _ assms(3,4)] by blast
qed simp

lemma phys_all: "phys_ok l live \<Longrightarrow> length live = 16 \<Longrightarrow> p < 16 \<Longrightarrow> p \<in> lp_phys ` set live"
proof -
  assume a: "phys_ok l live" "length live = 16" "p < 16"
  have "inj_on (\<lambda>i. lp_phys (live ! i)) {..<16}"
    using phys_distinct [OF a(1)] a(2) by (auto simp: inj_on_def)
  moreover have "(\<lambda>i. lp_phys (live ! i)) ` {..<16} \<subseteq> {..<16}"
    using phys_lt [OF a(1)] a(2) by auto
  ultimately have "(\<lambda>i. lp_phys (live ! i)) ` {..<16} = {..<16}"
    by (intro endo_inj_surj) simp_all
  then have "p \<in> (\<lambda>i. lp_phys (live ! i)) ` {..<16}" using a(3) by simp
  then show ?thesis using a(2) by auto
qed

lemma hdr_page: "(\<And>i. i < 32 \<Longrightarrow> c f (page_off p + i) = hdr_bytes h ! i) \<Longrightarrow> page_hdr c f p = h"
proof -
  assume a: "\<And>i. i < 32 \<Longrightarrow> c f (page_off p + i) = hdr_bytes h ! i"
  have "map (c f) [page_off p..<page_off p + 32] = hdr_bytes h"
    by (rule nth_equalityI) (use a in simp_all)
  then show ?thesis by (simp add: page_hdr_def hdr_roundtrip)
qed

lemma new_hdr_fields:
  "ph_magic (new_hdr crc16 env base synced r) = PAGE_MAGIC_V2"
  "ph_seq (new_hdr crc16 env base synced r) = m_next_seq r"
  "ph_layout (new_hdr crc16 env base synced r) = he_layout env"
  "ph_interval (new_hdr crc16 env base synced r) = he_interval env"
  "ph_base_time (new_hdr crc16 env base synced r) = base"
  "ph_first_ord (new_hdr crc16 env base synced r) = of_nat (m_abs_ord r)"
  "ph_sample_size (new_hdr crc16 env base synced r) = of_nat (he_sample_size env)"
  "ph_base_synced (new_hdr crc16 env base synced r) = (if synced then 1 else 0)"
  by (simp_all add: new_hdr_def hdr_crc_set_def)

lemma new_hdr_valid: "hdr_valid crc16 (new_hdr crc16 env base synced r)"
  unfolding new_hdr_def by (rule hdr_crc_valid) simp

text \<open>A page that has just opened.\<close>

lemma page_disk_new:
  assumes laws: "flash_laws dev c" and p: "lp_phys lp < 16" and hd: "page_hdr c f (lp_phys lp) = new_hdr crc16 env base synced r"
    and er: "fix_erased c f (lp_phys lp)" and sz: "he_sample_size env \<le> 1757" and ord: "m_abs_ord r < 2 ^ 32"
    and lp: "lp_first_ord lp = m_abs_ord r" "lp_base_time lp = base" "lp_synced lp = synced" "lp_v2 lp" "\<not> lp_fixup lp"
  shows "page_disk dev c crc16 env f lp (unat (m_next_seq r))"
proof -
  have v: "hdr_valid crc16 (page_hdr c f (lp_phys lp))" unfolding hd by (rule new_hdr_valid)
  have m: "mount_page dev crc16 f (lp_phys lp) = \<lparr>lp_first_ord = m_abs_ord r, lp_base_time = base,
      lp_phys = lp_phys lp, lp_synced = synced, lp_cur_boot = False, lp_v2 = True, lp_fixup = False\<rparr>"
    using ord by (simp add: mount_page_def read_hdr_page [OF laws p] hd Let_def new_hdr_fields fixup_erased [OF laws p er]
        unat_of_nat_small)
  have "unat (of_nat (he_sample_size env) :: u16) = he_sample_size env" using sz by (intro unat_of_nat_small) simp
  then have "layout_matches env (page_hdr c f (lp_phys lp))" unfolding hd by (simp add: layout_matches_def new_hdr_fields)
  then show ?thesis
    unfolding page_disk_def Let_def using v lp er by (simp add: hd new_hdr_fields m)
qed

text \<open>Opening a page keeps the headers in order.\<close>

lemma pages_disk_advance:
  assumes laws: "flash_laws dev c" and po: "phys_ok l live" and d: "pages_disk dev c crc16 env f live nseq"
    and eq: "\<And>p x. p < 16 \<Longrightarrow> p \<noteq> (l + 1) mod 16 \<Longrightarrow> page_off p \<le> x \<Longrightarrow> x < page_off p + 40 \<Longrightarrow> c f' x = c f x"
    and new: "page_disk dev c crc16 env f' lp (unat nseq)" "lp_phys lp = (l + 1) mod 16"
    and small: "unat nseq + 1 < 2 ^ 32"
  shows "pages_disk dev c crc16 env f' ((if length live = 16 then tl live else live) @ [lp]) (nseq + 1)"
proof -
  let ?nxt = "(l + 1) mod 16" and ?n = "length live"
  let ?live' = "(if length live = 16 then tl live else live) @ [lp]"
  have nn: "unat (nseq + 1) = unat nseq + 1" using small unat_Suc_small [of nseq] by simp
  have po': "phys_ok ?nxt ?live'" by (rule phys_ok_advance [OF po new(2)])
  have n16: "?n \<le> 16" and le: "?n \<le> unat nseq" using po d by (simp_all add: phys_ok_def pages_disk_def)
  have len': "length ?live' = (if ?n = 16 then 16 else ?n + 1)" by simp
  have old: "page_disk dev c crc16 env f' q n" if "q \<in> set live" "lp_phys q \<noteq> ?nxt" "page_disk dev c crc16 env f q n" for q n
  proof -
    have "lp_phys q < 16" using phys_lt [OF po that(1)] .
    then show ?thesis using page_disk_cong [OF laws, of q f' f] eq that by blast
  qed
  show ?thesis
    unfolding pages_disk_def nn
  proof (intro conjI allI impI)
    show "length ?live' \<le> unat nseq + 1" using le by simp
  next
    fix i assume i: "i < length ?live'"
    show "page_disk dev c crc16 env f' (?live' ! i) (unat nseq + 1 - (length ?live' - i))"
    proof (cases "i = length ?live' - 1")
      case True
      then have "?live' ! i = lp" "length ?live' - i = 1" using i by (auto simp: nth_append)
      then show ?thesis using new(1) by simp
    next
      case False
      let ?k = "if ?n = 16 then Suc i else i"
      have k: "?k < ?n" "?live' ! i = live ! ?k"
        using False i by (auto simp: nth_append nth_tl split: if_splits)
      have ph: "lp_phys (?live' ! i) \<noteq> ?nxt"
        using phys_distinct [OF po', of i "length ?live' - 1"] False i new(2) by (auto simp: nth_append)
      have "unat nseq + 1 - (length ?live' - i) = unat nseq - (?n - ?k)"
        using k(1) le False i by (auto split: if_splits)
      moreover have "page_disk dev c crc16 env f (live ! ?k) (unat nseq - (?n - ?k))"
        using d k(1) by (simp add: pages_disk_def)
      ultimately show ?thesis using old [of "live ! ?k"] k ph by simp
    qed
  next
    fix p assume p: "p < 16" "p \<notin> lp_phys ` set ?live'" "hdr_valid crc16 (page_hdr c f' p)"
    have ne: "?n \<noteq> 16"
    proof
      assume "?n = 16"
      then have "p \<in> lp_phys ` set ?live'" by (intro phys_all [OF po' _ p(1)]) simp
      then show False using p(2) by simp
    qed
    have pn: "p \<noteq> ?nxt" using p(2) new(2) by auto
    have h: "page_hdr c f' p = page_hdr c f p" using eq [OF p(1) pn] by (intro page_hdr_cong)
    have "unat (ph_seq (page_hdr c f p)) + ?n + 2 \<le> unat nseq"
      using d p ne h by (simp add: pages_disk_def)
    then show "unat (ph_seq (page_hdr c f' p)) + length ?live' + 2 \<le> unat nseq + 1"
      using ne h by simp
  qed
qed

subsection \<open>The head page on flash\<close>

text \<open>A scan stops at the write head, and when the page is closed it finds exactly its records.\<close>

definition head_disk :: "('f \<Rightarrow> nat \<Rightarrow> u8) \<Rightarrow> nat \<Rightarrow> 'f flash_ring \<Rightarrow> bool" where
  "head_disk c sz r \<longleftrightarrow> m_live r = [] \<or> (let h = last (m_live r) in
     (m_head_dw r = lp_cap h div 7 \<or> c (m_flash r) (lp_data h + m_head_dw r * 8 + 7) = 0xFF) \<and>
     (m_head_full r \<longrightarrow> m_stage r = [] \<and> min (m_head_dw r * 7 div sz) (lp_cap h div sz) = head_records r))"

definition head_scan :: "('f \<Rightarrow> nat \<Rightarrow> u8) \<Rightarrow> 'f flash_ring \<Rightarrow> bool" where
  "head_scan c r \<longleftrightarrow> m_live r = [] \<or> (let h = last (m_live r) in
     m_head_dw r = lp_cap h div 7 \<or> c (m_flash r) (lp_data h + m_head_dw r * 8 + 7) = 0xFF)"

lemma head_disk_scan: "head_disk c sz r \<Longrightarrow> head_scan c r"
  by (auto simp: head_disk_def head_scan_def Let_def)

definition durable :: "'f flash_dev \<Rightarrow> ('f \<Rightarrow> nat \<Rightarrow> u8) \<Rightarrow> crc16 \<Rightarrow> hist_env \<Rightarrow> 'f flash_ring \<Rightarrow> bool" where
  "durable dev c crc16 env r \<longleftrightarrow> flash_ok c (he_sample_size env) r \<and>
     pages_disk dev c crc16 env (m_flash r) (m_live r) (m_next_seq r) \<and> head_disk c (he_sample_size env) r"

lemma framed_last: "erased c f (data + dw * 8) (data + 2008) \<Longrightarrow> dw \<le> 251 \<Longrightarrow>
    dw = 251 \<or> c f (data + dw * 8 + 7) = 0xFF"
proof -
  assume a: "erased c f (data + dw * 8) (data + 2008)" "dw \<le> 251"
  show ?thesis
  proof (cases "dw = 251")
    case False
    then have "data + dw * 8 \<le> data + dw * 8 + 7" "data + dw * 8 + 7 < data + 2008" using a(2) by linarith+
    then show ?thesis using a(1) unfolding erased_def by blast
  qed simp
qed

lemma head_scan_close:
  assumes laws: "flash_laws dev c" and ok: "flash_ok c sz r" and ne: "m_live r \<noteq> []" and hd: "head_scan c r"
    and nf: "\<not> m_head_full r"
  shows "head_scan c (close_head dev r)"
proof (rule close_head_ok [OF laws ok ne, where iv = 0])
  fix f' dw'
  let ?h = "last (m_live r)"
  assume f: "close_head dev r = r\<lparr>m_flash := f', m_head_dw := dw', m_stage := [], m_head_full := True\<rparr>"
    "flash_ok c sz (close_head dev r)"
    "if m_stage r = [] then f' = m_flash r \<and> dw' = m_head_dw r
     else dw' = m_head_dw r + 1 \<and> erased c f' (lp_data ?h + dw' * 8) (lp_data ?h + 2008)"
  have "lp_v2 ?h" using ok ne nf by (simp add: flash_ok_def head_ok_def Let_def)
  then have cap: "lp_cap ?h = 1757" by (simp add: lp_cap_def)
  have "head_ok c sz (close_head dev r)" using f(2) ne by (simp add: flash_ok_def f(1))
  then have dw: "dw' * 7 \<le> 1757" using cap by (simp add: head_ok_def Let_def f(1))
  have "dw' = 251 \<or> c f' (lp_data ?h + dw' * 8 + 7) = 0xFF"
  proof (cases "m_stage r = []")
    case True
    then show ?thesis using hd f(3) ne cap by (auto simp: head_scan_def Let_def)
  next
    case False
    then have er: "erased c f' (lp_data ?h + dw' * 8) (lp_data ?h + 2008)" using f(3) by auto
    show ?thesis by (rule framed_last [OF er]) (use dw in simp)
  qed
  then show ?thesis by (simp add: head_scan_def f(1) cap Let_def)
qed

text \<open>Closing a page whose last double word has less than a record of padding, or that is full.\<close>

lemma head_disk_close:
  assumes laws: "flash_laws dev c" and ok: "flash_ok c sz r" and ne: "m_live r \<noteq> []" and hd: "head_disk c sz r"
    and nf: "\<not> m_head_full r" and pad: "m_stage r = [] \<or> 7 \<le> sz \<or> records_per_page sz = head_records r"
  shows "head_disk c sz (close_head dev r)"
proof (rule close_head_ok [OF laws ok ne, where iv = 0])
  fix f' dw'
  let ?h = "last (m_live r)"
  assume f: "close_head dev r = r\<lparr>m_flash := f', m_head_dw := dw', m_stage := [], m_head_full := True\<rparr>"
    "flash_ok c sz (close_head dev r)"
    "if m_stage r = [] then f' = m_flash r \<and> dw' = m_head_dw r
     else dw' = m_head_dw r + 1 \<and> erased c f' (lp_data ?h + dw' * 8) (lp_data ?h + 2008)"
  have ho: "head_ok c sz r" and st: "length (m_stage r) < 7" and sz: "0 < sz" using ok ne by (simp_all add: flash_ok_def)
  have v2: "lp_v2 ?h" and n: "m_head_dw r * 7 + length (m_stage r) = head_records r * sz"
    using ho nf by (simp_all add: head_ok_def Let_def)
  have cap: "lp_cap ?h = 1757" using v2 by (simp add: lp_cap_def)
  have "head_ok c sz (close_head dev r)" using f(2) ne by (simp add: flash_ok_def f(1))
  then have dw: "dw' * 7 \<le> 1757" "head_records r * sz \<le> dw' * 7"
    using cap ne by (simp_all add: head_ok_def Let_def f(1) head_records_def)
  have "dw' = 251 \<or> c f' (lp_data ?h + dw' * 8 + 7) = 0xFF"
    using head_scan_close [OF laws ok ne head_disk_scan [OF hd] nf] ne by (simp add: head_scan_def f(1) Let_def cap)
  moreover have "min (dw' * 7 div sz) (1757 div sz) = head_records r"
  proof -
    have a: "head_records r \<le> dw' * 7 div sz" using dw(2) sz by (simp add: less_eq_div_iff_mult_less_eq)
    moreover have "dw' * 7 div sz \<le> 1757 div sz" using dw(1) by (rule div_le_mono)
    moreover have "dw' * 7 div sz = head_records r" if "m_stage r = [] \<or> 7 \<le> sz"
    proof -
      have "dw' * 7 < head_records r * sz + sz"
      proof (cases "m_stage r = []")
        case False
        then have "0 < length (m_stage r)" "dw' = m_head_dw r + 1" "7 \<le> sz" using f(3) that by auto
        then show ?thesis using n by linarith
      qed (use f(3) n sz in simp)
      then have "dw' * 7 div sz < Suc (head_records r)" using sz by (simp add: div_less_iff_less_mult)
      then show ?thesis using a by simp
    qed
    moreover have "1757 div sz = head_records r" if "records_per_page sz = head_records r"
      using that sz by (simp add: records_per_page_def page_consts)
    ultimately show ?thesis using pad by (auto simp: min_def)
  qed
  ultimately show ?thesis by (simp add: head_disk_def Let_def f(1) cap head_records_def)
qed

lemma close_pages_disk:
  assumes laws: "flash_laws dev c" and ok: "flash_ok c sz r" and ne: "m_live r \<noteq> []"
    and d: "pages_disk dev c crc16 env (m_flash r) (m_live r) (m_next_seq r)"
  shows "pages_disk dev c crc16 env (m_flash (close_head dev r)) (m_live (close_head dev r)) (m_next_seq (close_head dev r))"
proof (rule close_head_ok [OF laws ok ne, where iv = 0])
  fix f' dw'
  assume f: "close_head dev r = r\<lparr>m_flash := f', m_head_dw := dw', m_stage := [], m_head_full := True\<rparr>"
    "\<And>x. x < lp_data (last (m_live r)) \<or> lp_data (last (m_live r)) + 2008 \<le> x \<Longrightarrow> c f' x = c (m_flash r) x"
    "lp_v2 (last (m_live r)) \<or> (\<forall>x. c f' x = c (m_flash r) x)"
  have "phys_ok (m_last_phys r) (m_live r)" using ok by (simp add: flash_ok_def)
  from pages_disk_cong [OF laws this head_data_no_hdr [OF f(3,2)] d] show ?thesis by (simp add: f(1))
qed

lemma head_disk_open: "flash_ok c sz r \<Longrightarrow> \<not> m_head_full r \<Longrightarrow> head_disk c sz r"
proof (cases "m_live r = []")
  case False
  assume ok: "flash_ok c sz r" and nf: "\<not> m_head_full r"
  let ?h = "last (m_live r)"
  have "head_ok c sz r" using ok False by (simp add: flash_ok_def)
  then have er: "erased c (m_flash r) (lp_data ?h + m_head_dw r * 8) (lp_data ?h + 2008)" and v2: "lp_v2 ?h"
    and n: "m_head_dw r * 7 + length (m_stage r) \<le> lp_cap ?h" using nf by (simp_all add: head_ok_def Let_def)
  have "m_head_dw r \<le> 251" using n v2 by (simp add: lp_cap_def)
  from framed_last [OF er this] show ?thesis using nf v2 by (auto simp: head_disk_def Let_def lp_cap_def)
qed (simp add: head_disk_def)

lemma advance_pages_disk:
  assumes laws: "flash_laws dev c" and ok: "flash_ok c (he_sample_size env) r"
    and d: "pages_disk dev c crc16 env (m_flash r) (m_live r) (m_next_seq r)"
    and small: "unat (m_next_seq r) + 1 < 2 ^ 32" "m_abs_ord r < 2 ^ 32"
    and adv: "advance_page dev crc16 env base synced r = (Inr ev, r')"
  shows "pages_disk dev c crc16 env (m_flash r') (m_live r') (m_next_seq r')"
proof (rule advance_ok [OF laws ok, where env = env and ?crc16.0 = crc16 and base = base and synced = synced and iv = 0])
  fix ev2 r2
  let ?nxt = "(m_last_phys r + 1) mod 16"
  let ?new = "\<lparr>lp_first_ord = m_abs_ord r, lp_base_time = base, lp_phys = ?nxt,
         lp_synced = synced, lp_cur_boot = True, lp_v2 = True, lp_fixup = False\<rparr>"
  assume a: "advance_page dev crc16 env base synced r = (Inr ev2, r2)"
    "m_next_seq r2 = m_next_seq r + 1" "m_last_phys r2 = ?nxt"
    "m_live r2 = (if length (m_live r) = 16 then tl (m_live r) else m_live r) @ [?new]"
    "\<And>i. i < 32 \<Longrightarrow> c (m_flash r2) (page_off (m_last_phys r2) + i) =
       hdr_bytes (new_hdr crc16 env base synced r) ! i"
    "erased c (m_flash r2) (page_off (m_last_phys r2) + 32) (page_off (m_last_phys r2) + 2048)"
    "\<And>x. m_live r = [] \<or> \<not> lp_v2 (last (m_live r)) \<or> x < lp_data (last (m_live r)) \<or>
         lp_data (last (m_live r)) + 2008 \<le> x \<Longrightarrow>
       x < page_off (m_last_phys r2) \<or> page_off (m_last_phys r2) + 2048 \<le> x \<Longrightarrow>
       c (m_flash r2) x = c (m_flash r) x"
  have po: "phys_ok (m_last_phys r) (m_live r)" and sz: "he_sample_size env \<le> 1757" using ok by (simp_all add: flash_ok_def)
  have er: "fix_erased c (m_flash r2) (lp_phys ?new)" using a(6) by (simp add: fix_erased_def erased_def a(3))
  have hd: "page_hdr c (m_flash r2) (lp_phys ?new) = new_hdr crc16 env base synced r"
    using a(5) by (intro hdr_page) (simp add: a(3))
  have eq: "c (m_flash r2) x = c (m_flash r) x"
    if p: "p < 16" "p \<noteq> ?nxt" "page_off p \<le> x" "x < page_off p + 40" for p x
  proof -
    have out: "x < page_off ?nxt \<or> page_off ?nxt + 2048 \<le> x"
    proof (cases "p < ?nxt")
      case True
      then have "page_off p + 2048 \<le> page_off ?nxt" by (simp add: page_off_def PAGE_SIZE_def)
      then show ?thesis using p(4) by linarith
    next
      case False
      then have "?nxt < p" using p(2) by simp
      then have "page_off ?nxt + 2048 \<le> page_off p" by (simp add: page_off_def PAGE_SIZE_def)
      then show ?thesis using p(3) by linarith
    qed
    show ?thesis
    proof (cases "m_live r = [] \<or> \<not> lp_v2 (last (m_live r))")
      case True
      then show ?thesis using out a(3) by (intro a(7)) auto
    next
      case False
      then show ?thesis
        using out a(3) hdr_outside_data [of "last (m_live r)" p x] p(3,4) by (intro a(7)) auto
    qed
  qed
  have new: "page_disk dev c crc16 env (m_flash r2) ?new (unat (m_next_seq r))"
    by (rule page_disk_new [OF laws _ hd er sz small(2)]) simp_all
  have "pages_disk dev c crc16 env (m_flash r2) (m_live r2) (m_next_seq r2)"
    unfolding a(2,4) by (rule pages_disk_advance [OF laws po d eq new _ small(1)]) simp_all
  then show ?thesis using a(1) adv by simp
qed

lemma stream_durable:
  assumes laws: "flash_laws dev c" and ok: "flash_ok c (he_sample_size env) r" and ne: "m_live r \<noteq> []"
    and nf: "\<not> m_head_full r" and room: "head_records r < records_per_page (he_sample_size env)"
    and len: "length rec = he_sample_size env"
    and d: "pages_disk dev c crc16 env (m_flash r) (m_live r) (m_next_seq r)"
    and fin: "(case stream_bytes dev (page_off (lp_phys (last (m_live r))) + HIST_HDR_SIZE_V2)
          (m_head_dw r) (length (m_stage r)) rec r of
        (Some e, r3) \<Rightarrow> (Inl e, r3)
      | (None, r3) \<Rightarrow> (let r4 = r3\<lparr>m_abs_ord := m_abs_ord r3 + 1\<rparr>
          in (Inr ev, if records_per_page (he_sample_size env) \<le> head_records r4 then close_head dev r4 else r4))) = (res, r')"
  shows "durable dev c crc16 env r'"
proof (rule stream_record [OF laws ok ne nf room len, where iv = 0])
  fix f' st' dw'
  let ?sz = "he_sample_size env" and ?h = "last (m_live r)"
  let ?r = "r\<lparr>m_flash := f', m_head_dw := dw', m_stage := st', m_abs_ord := m_abs_ord r + 1\<rparr>"
  assume a: "stream_bytes dev (page_off (lp_phys ?h) + HIST_HDR_SIZE_V2)
      (m_head_dw r) (length (m_stage r)) rec r = (None, r\<lparr>m_flash := f', m_head_dw := dw', m_stage := st'\<rparr>)"
    "flash_ok c ?sz ?r" "\<And>x. x < lp_data ?h \<or> lp_data ?h + 2008 \<le> x \<Longrightarrow> c f' x = c (m_flash r) x"
  have r': "r' = (if records_per_page ?sz \<le> head_records ?r then close_head dev ?r else ?r)"
    using fin unfolding a(1) by (auto simp: Let_def)
  have v2: "lp_v2 ?h" and po: "phys_ok (m_last_phys r) (m_live r)" using ok ne nf by (simp_all add: flash_ok_def head_ok_def Let_def)
  have "c f' x = c (m_flash r) x" if "page_off p \<le> x" "x < page_off p + 40" for p x
    using a(3) hdr_outside_data [OF v2 that] by blast
  then have d': "pages_disk dev c crc16 env (m_flash ?r) (m_live ?r) (m_next_seq ?r)"
    using pages_disk_cong [OF laws po _ d, of f'] by simp
  have hd: "head_disk c ?sz ?r" using head_disk_open [OF a(2)] nf by simp
  show ?thesis
  proof (cases "records_per_page ?sz \<le> head_records ?r")
    case False
    then show ?thesis using d' hd a(2) by (simp add: r' durable_def)
  next
    case True
    have ne': "m_live ?r \<noteq> []" "\<not> m_head_full ?r" using ne nf by simp_all
    have "lp_first_ord ?h \<le> m_abs_ord r" using ok ne by (simp add: flash_ok_def sorted_append)
    then have "head_records ?r = Suc (head_records r)" using ne by (simp add: head_records_def Suc_diff_le)
    then have "records_per_page ?sz = head_records ?r" using True room by simp
    then have "head_disk c ?sz (close_head dev ?r)" by (intro head_disk_close [OF laws a(2) ne'(1) hd ne'(2)]) simp
    moreover have "flash_ok c ?sz (close_head dev ?r)" by (rule close_head_ok [OF laws a(2) ne'(1), where iv = 0])
    ultimately show ?thesis
      using close_pages_disk [OF laws a(2) ne'(1) d'] True unfolding r' durable_def by (simp only: if_True simp_thms)
  qed
qed

lemma append_durable:
  assumes laws: "flash_laws dev c" and du: "durable dev c crc16 env r" and len: "length rec = he_sample_size env"
    and small: "unat (m_next_seq r) + 1 < 2 ^ 32" "m_abs_ord r < 2 ^ 32"
    and busy: "opens_page (he_sample_size env) r split \<and> he_replay env \<longrightarrow> \<not> split \<or> 7 \<le> he_sample_size env"
    and app: "flash_append dev crc16 env rec base synced split r = (res, r')"
  shows "durable dev c crc16 env r'"
proof -
  let ?sz = "he_sample_size env"
  have ok: "flash_ok c ?sz r" and d: "pages_disk dev c crc16 env (m_flash r) (m_live r) (m_next_seq r)"
    and hd: "head_disk c ?sz r" using du by (simp_all add: durable_def)
  obtain r1 where r1: "(if split \<and> m_live r \<noteq> [] \<and> \<not> m_head_full r then close_head dev r else r) = r1"
    "flash_ok c ?sz r1" "m_live r1 = m_live r" "m_abs_ord r1 = m_abs_ord r" "cview c ?sz 0 r1 = cview c ?sz 0 r"
    "opens_page ?sz r1 False = opens_page ?sz r split" "opens_page ?sz r split \<or> r1 = r"
    by (rule split_ok [OF laws ok, where split = split and iv = 0])
  have d1: "pages_disk dev c crc16 env (m_flash r1) (m_live r1) (m_next_seq r1) \<and> m_next_seq r1 = m_next_seq r"
  proof (cases "split \<and> m_live r \<noteq> [] \<and> \<not> m_head_full r")
    case True
    then have e: "close_head dev r = r1" "m_live r \<noteq> []" using r1(1) by simp_all
    have "m_next_seq (close_head dev r) = m_next_seq r"
      by (rule close_head_ok [OF laws ok e(2), where iv = 0]) simp
    then show ?thesis using close_pages_disk [OF laws ok e(2) d] e(1) by simp
  next
    case False
    then show ?thesis using r1(1) d by auto
  qed
  have rdy: "m_ready r" "records_per_page ?sz \<noteq> 0" using ok flash_ok_rpp [OF ok] by (simp_all add: flash_ok_def)
  note app = app [unfolded flash_append_close Let_def r1(1)]
  show ?thesis
  proof (cases "opens_page ?sz r split")
    case False
    then have "r1 = r" using r1(7) by simp
    then have "(case stream_bytes dev (page_off (lp_phys (last (m_live r))) + HIST_HDR_SIZE_V2)
          (m_head_dw r) (length (m_stage r)) rec r of
        (Some e, r3) \<Rightarrow> (Inl e, r3)
      | (None, r3) \<Rightarrow> (let r4 = r3\<lparr>m_abs_ord := m_abs_ord r3 + 1\<rparr>
          in (Inr 0, if records_per_page ?sz \<le> head_records r4 then close_head dev r4 else r4))) = (res, r')"
      unfolding Let_def using app rdy r1(6) False by simp
    then show ?thesis
      by (rule stream_durable [OF laws ok _ _ _ len d, rotated 3]) (use False in \<open>auto simp: opens_page_def\<close>)
  next
    case op: True
    show ?thesis
    proof (cases "he_replay env")
      case True
      then have r': "r' = r1" using app rdy r1(6) op by simp
      have "head_disk c ?sz r1"
      proof (cases "split \<and> m_live r \<noteq> [] \<and> \<not> m_head_full r")
        case True
        then have "7 \<le> ?sz" using busy op \<open>he_replay env\<close> by simp
        then show ?thesis using head_disk_close [OF laws ok _ hd] r1(1) True by auto
      next
        case False
        then show ?thesis using r1(1) hd by auto
      qed
      then show ?thesis using r1(2) d1 by (auto simp: r' durable_def)
    next
      case nr: False
      show ?thesis
      proof (rule advance_ok [OF laws r1(2), where env = env and ?crc16.0 = crc16 and base = base and synced = synced and iv = 0])
        fix ev r2
        assume a: "advance_page dev crc16 env base synced r1 = (Inr ev, r2)" "flash_ok c ?sz r2" "\<not> m_head_full r2"
          "m_abs_ord r2 = m_abs_ord r1"
          "m_live r2 = (if length (m_live r1) = 16 then tl (m_live r1) else m_live r1) @
             [\<lparr>lp_first_ord = m_abs_ord r1, lp_base_time = base, lp_phys = (m_last_phys r1 + 1) mod 16,
               lp_synced = synced, lp_cur_boot = True, lp_v2 = True, lp_fixup = False\<rparr>]"
        have d2: "pages_disk dev c crc16 env (m_flash r2) (m_live r2) (m_next_seq r2)"
          by (rule advance_pages_disk [OF laws r1(2) _ _ _ a(1)]) (use d1 small r1(4) in auto)
        have hr: "head_records r2 < records_per_page ?sz" using rdy(2) by (simp add: head_records_def a(4,5))
        have "(case stream_bytes dev (page_off (lp_phys (last (m_live r2))) + HIST_HDR_SIZE_V2)
            (m_head_dw r2) (length (m_stage r2)) rec r2 of
          (Some e, r3) \<Rightarrow> (Inl e, r3)
        | (None, r3) \<Rightarrow> (let r4 = r3\<lparr>m_abs_ord := m_abs_ord r3 + 1\<rparr>
            in (Inr ev, if records_per_page ?sz \<le> head_records r4 then close_head dev r4 else r4))) = (res, r')"
          unfolding Let_def using app rdy r1(6) op nr a(1) by simp
        then show ?thesis
          by (rule stream_durable [OF laws a(2) _ a(3) hr len d2, rotated]) (simp add: a(5))
      qed
    qed
  qed
qed

end
