(* ===== verification/FlashMount.thy ===== *)
theory FlashMount
  imports FlashDisk
begin

text \<open>
  Mounting: the scan for the newest page, the chain of pages before it and the scan of the head's frame bytes
  give back the ring the flash was written by, less the records staged in RAM.
\<close>

subsection \<open>Mounting\<close>

text \<open>The scan for the newest page.\<close>

lemma sint_diff_pos:
  "unat (a :: u32) < 2 ^ 31 \<Longrightarrow> unat b < 2 ^ 31 \<Longrightarrow> 0 < sint (a - b) \<longleftrightarrow> unat b < unat a"
proof -
  assume s: "unat a < 2 ^ 31" "unat b < 2 ^ 31"
  have "a - b = word_of_int (int (unat a) - int (unat b))" by simp
  moreover have "sint (word_of_int (int (unat a) - int (unat b)) :: u32) = int (unat a) - int (unat b)"
  proof (rule sint_of_int_small)
    have "int n < 2147483648" if "n < 2 ^ 31" for n using that by simp
    from this [OF s(1)] this [OF s(2)] have "int (unat a) < 2147483648" "int (unat b) < 2147483648" .
    then show "- (2 ^ (LENGTH(32) - 1)) \<le> int (unat a) - int (unat b)"
      "int (unat a) - int (unat b) < 2 ^ (LENGTH(32) - 1)" using of_nat_0_le_iff [of "unat a"] of_nat_0_le_iff [of "unat b"] by (simp_all del: of_nat_unat)
  qed
  ultimately have "sint (a - b) = int (unat a) - int (unat b)" by (simp only:)
  then show ?thesis by (simp del: of_nat_unat)
qed

lemma scan_newest:
  assumes laws: "flash_laws dev c" and sz: "he_sample_size env \<noteq> 0" and ps: "\<forall>p \<in> set ps. p < 16"
    and small: "\<forall>p < 16. hdr_valid crc16 (page_hdr c f p) \<longrightarrow> unat (ph_seq (page_hdr c f p)) < 2 ^ 31"
    and hp: "hp < 16" "hdr_valid crc16 (page_hdr c f hp)" "layout_matches env (page_hdr c f hp)"
    and newest: "\<forall>p \<in> set ps. p \<noteq> hp \<longrightarrow> hdr_valid crc16 (page_hdr c f p) \<longrightarrow>
      unat (ph_seq (page_hdr c f p)) < unat (ph_seq (page_hdr c f hp))"
    and acc: "hp \<in> set ps \<or> snd acc = Some (hp, page_hdr c f hp)"
      "case snd acc of None \<Rightarrow> True | Some (p, h) \<Rightarrow> p < 16 \<and> h = page_hdr c f p \<and> hdr_valid crc16 h \<and>
         (p \<noteq> hp \<longrightarrow> unat (ph_seq h) < unat (ph_seq (page_hdr c f hp)))"
  shows "snd (fold (mount_scan dev crc16 env f) ps acc) = Some (hp, page_hdr c f hp)"
  using ps newest acc
proof (induction ps arbitrary: acc)
  case (Cons p ps)
  obtain any head where a: "acc = (any, head)" by (cases acc)
  let ?h = "page_hdr c f p" and ?H = "page_hdr c f hp" and ?acc = "mount_scan dev crc16 env f p acc"
  have p: "p < 16" using Cons.prems(1) by simp
  have s: "snd ?acc = (if \<not> hdr_valid crc16 ?h \<or> \<not> layout_matches env ?h then head
      else case head of None \<Rightarrow> Some (p, ?h)
        | Some (p0, h0) \<Rightarrow> if 0 < sint (ph_seq ?h - ph_seq h0) then Some (p, ?h) else head)"
    using sz by (simp add: mount_scan_def a read_hdr_page [OF laws p])
  have inv: "case snd ?acc of None \<Rightarrow> True | Some (q, h) \<Rightarrow> q < 16 \<and> h = page_hdr c f q \<and> hdr_valid crc16 h \<and>
         (q \<noteq> hp \<longrightarrow> unat (ph_seq h) < unat (ph_seq ?H))"
  proof (cases "snd ?acc = head")
    case True
    then show ?thesis using Cons.prems(4) a by simp
  next
    case False
    then have "snd ?acc = Some (p, ?h)" "hdr_valid crc16 ?h"
      unfolding s by (auto split: option.splits if_splits)
    then show ?thesis using Cons.prems(2) p by auto
  qed
  have "hp \<in> set ps \<or> snd ?acc = Some (hp, ?H)"
  proof (cases "hp \<in> set ps")
    case False
    show ?thesis
    proof (cases "p = hp")
      case True
      show ?thesis
      proof (cases head)
        case None
        then show ?thesis using s True hp by simp
      next
        case (Some ph)
        obtain p0 h0 where ph: "ph = (p0, h0)" by (cases ph)
        then have h0: "p0 < 16" "h0 = page_hdr c f p0" "hdr_valid crc16 h0"
            "p0 \<noteq> hp \<longrightarrow> unat (ph_seq h0) < unat (ph_seq ?H)"
          using Cons.prems(4) Some a by auto
        have "0 < sint (ph_seq ?H - ph_seq h0) \<longleftrightarrow> unat (ph_seq h0) < unat (ph_seq ?H)"
          using small hp h0 by (intro sint_diff_pos) auto
        then show ?thesis using s True hp Some ph h0 by (cases "p0 = hp") auto
      qed
    next
      case pne: False
      then have hd: "head = Some (hp, ?H)" using Cons.prems(3) False a by simp
      have "\<not> 0 < sint (ph_seq ?h - ph_seq ?H)" if "hdr_valid crc16 ?h"
      proof -
        have "unat (ph_seq ?h) < unat (ph_seq ?H)" using Cons.prems(2) pne that by auto
        moreover have "0 < sint (ph_seq ?h - ph_seq ?H) \<longleftrightarrow> unat (ph_seq ?H) < unat (ph_seq ?h)"
          using small hp p that by (intro sint_diff_pos) auto
        ultimately show ?thesis by simp
      qed
      then show ?thesis using s hd by auto
    qed
  qed simp
  from Cons.IH [OF _ _ this inv] Cons.prems(1,2) show ?case by simp
qed simp

text \<open>The chain of pages before the head.\<close>

lemma pages_disk_nth:
  "pages_disk dev c crc16 env f live nseq \<Longrightarrow> i < length live \<Longrightarrow>
   page_disk dev c crc16 env f (live ! i) (unat nseq - (length live - i))"
  by (simp add: pages_disk_def)

lemma phys_prev:
  assumes "phys_ok l live" "i < length live"
  shows "(lp_phys (live ! i) + 15) mod 16 = (l + 16 - length live + i) mod 16"
proof -
  have n: "length live \<le> 16" using assms(1) by (simp add: phys_ok_def)
  have "lp_phys (live ! i) = (l + 17 - length live + i) mod 16" using assms by (simp add: phys_ok_def)
  then have "(lp_phys (live ! i) + 15) mod 16 = (l + 17 - length live + i + 15) mod 16" by (simp add: mod_simps)
  also have "l + 17 - length live + i + 15 = l + 16 - length live + i + 16" using n by linarith
  finally show ?thesis by simp
qed

lemma mount_chain_step:
  assumes laws: "flash_laws dev c" and prev: "(phys + 15) mod 16 = prev"
  shows "mount_chain dev crc16 env f iv phys seq (Suc n) =
    (let h = page_hdr c f prev in
     if \<not> hdr_valid crc16 h then []
     else if \<not> layout_matches env h \<or> ph_interval h \<noteq> iv \<or> seq - ph_seq h \<noteq> 1 then []
     else prev # mount_chain dev crc16 env f iv prev (ph_seq h) n)"
proof -
  have p: "prev < 16" using prev by auto
  have "(phys + HIST_NPAGES - 1) mod HIST_NPAGES = prev" using prev by (simp add: page_consts add.commute)
  then show ?thesis by (simp add: read_hdr_page [OF laws p] Let_def)
qed

lemma chain_stops:
  assumes laws: "flash_laws dev c" and po: "phys_ok l live" and d: "pages_disk dev c crc16 env f live nseq"
    and ne: "live \<noteq> []" and m: "length live = 16 \<longrightarrow> m = 0"
  shows "mount_chain dev crc16 env f iv (lp_phys (hd live)) (ph_seq (page_hdr c f (lp_phys (hd live)))) m = []"
proof (cases m)
  case (Suc k)
  let ?n = "length live" and ?prev = "(lp_phys (hd live) + 15) mod 16"
  let ?h = "page_hdr c f ?prev" and ?s = "ph_seq (page_hdr c f (lp_phys (hd live)))"
  have n: "?n < 16" "0 < ?n" using po m Suc ne by (auto simp: phys_ok_def)
  have pv: "?prev = (l + 16 - ?n) mod 16" using phys_prev [OF po, of 0] ne by (simp add: hd_conv_nth)
  have "?prev \<notin> lp_phys ` set live"
  proof
    assume "?prev \<in> lp_phys ` set live"
    then obtain i where i: "i < ?n" "lp_phys (live ! i) = ?prev" by (auto simp: in_set_conv_nth)
    then have "(l + 16 - ?n + 0) mod 16 = (l + 16 - ?n + Suc i) mod 16"
    proof -
      have "l + 17 - ?n + i = l + 16 - ?n + Suc i" using n by linarith
      then show ?thesis using i pv po by (simp add: phys_ok_def)
    qed
    moreover have "(l + 16 - ?n + 0) mod 16 \<noteq> (l + 16 - ?n + Suc i) mod 16"
      using i(1) n by (intro mod_distinct) simp_all
    ultimately show False by simp
  qed
  then have old: "hdr_valid crc16 ?h \<longrightarrow> unat (ph_seq ?h) + ?n + 2 \<le> unat nseq"
    using d by (simp add: pages_disk_def)
  have "unat ?s = unat nseq - ?n"
    using pages_disk_nth [OF d n(2)] ne by (simp add: page_disk_def Let_def hd_conv_nth)
  then have "hdr_valid crc16 ?h \<longrightarrow> unat (ph_seq ?h) + 1 < unat ?s" using old by linarith
  moreover have "?s - ph_seq ?h \<noteq> 1" if "unat (ph_seq ?h) + 1 < unat ?s"
  proof
    assume "?s - ph_seq ?h = 1"
    then have "?s = ph_seq ?h + 1" by (metis add.commute diff_add_cancel)
    moreover have "unat (ph_seq ?h + 1) = unat (ph_seq ?h) + 1"
    proof (rule unat_Suc_small)
      show "unat (ph_seq ?h) + 1 < 2 ^ LENGTH(32)" using that unsigned_less [of ?s, where ?'a = nat] by simp
    qed
    ultimately show False using that by simp
  qed
  ultimately show ?thesis
    unfolding Suc mount_chain_step [OF laws refl] by (auto simp: Let_def)
qed simp

lemma seq_succ:
  "unat (a :: u32) + 1 = unat b \<Longrightarrow> b - a = 1"
proof -
  assume e: "unat a + 1 = unat b"
  then have "unat (a + 1) = unat b" using unsigned_less [of b] by (subst unat_Suc_small) simp_all
  then have "a + 1 = b" by (simp only: unat_inj_iff)
  then show ?thesis by auto
qed

lemma chain_live:
  assumes laws: "flash_laws dev c" and po: "phys_ok l live" and d: "pages_disk dev c crc16 env f live nseq"
  shows "i < length live \<Longrightarrow>
    mount_chain dev crc16 env f (he_interval env) (lp_phys (live ! i)) (ph_seq (page_hdr c f (lp_phys (live ! i))))
      (16 - length live + i) = rev (map lp_phys (take i live))"
proof (induction i)
  case 0
  then have "live \<noteq> []" by auto
  from chain_stops [OF laws po d this, of "16 - length live"] this show ?case by (simp add: hd_conv_nth)
next
  case (Suc j)
  let ?n = "length live" and ?p = "live ! j" and ?q = "live ! Suc j"
  have n: "?n \<le> 16" "?n \<le> unat nseq" using po d by (simp_all add: phys_ok_def pages_disk_def)
  have pj: "page_disk dev c crc16 env f ?p (unat nseq - (?n - j))"
    and pq: "page_disk dev c crc16 env f ?q (unat nseq - (?n - Suc j))"
    using pages_disk_nth [OF d, of j] pages_disk_nth [OF d Suc.prems] Suc.prems by simp_all
  have "(lp_phys ?q + 15) mod 16 = (l + 16 - ?n + Suc j) mod 16" by (rule phys_prev [OF po Suc.prems])
  also have "l + 16 - ?n + Suc j = l + 17 - ?n + j" using n(1) by linarith
  also have "(l + 17 - ?n + j) mod 16 = lp_phys ?p" using po Suc.prems by (simp add: phys_ok_def)
  finally have pv: "(lp_phys ?q + 15) mod 16 = lp_phys ?p" .
  have p16: "lp_phys ?p < 16" using phys_lt [OF po, of ?p] Suc.prems by simp
  have sq: "ph_seq (page_hdr c f (lp_phys ?q)) - ph_seq (page_hdr c f (lp_phys ?p)) = 1"
    by (rule seq_succ) (use pj pq n Suc.prems in \<open>simp add: page_disk_def Let_def\<close>)
  have fuel: "16 - ?n + Suc j = Suc (16 - ?n + j)" by simp
  have "mount_chain dev crc16 env f (he_interval env) (lp_phys ?q) (ph_seq (page_hdr c f (lp_phys ?q)))
      (Suc (16 - ?n + j)) = lp_phys ?p # mount_chain dev crc16 env f (he_interval env) (lp_phys ?p)
        (ph_seq (page_hdr c f (lp_phys ?p))) (16 - ?n + j)"
    unfolding mount_chain_step [OF laws pv] using pj sq by (simp add: Let_def page_disk_def)
  then show ?case
    using Suc.IH Suc.prems unfolding fuel by (simp add: take_Suc_conv_app_nth)
qed

text \<open>The scan of the head's frame bytes.\<close>

lemma scan_from:
  assumes laws: "flash_laws dev c" and fit: "data + (dw + n) * 8 \<le> FLASH_SIZE"
    and fr: "framed c f data (dw + k)" and k: "k \<le> n" and stop: "k = n \<or> c f (data + (dw + k) * 8 + 7) = 0xFF"
  shows "scan_written_from dev f data dw n = dw + k"
  using assms(2-)
proof (induction n arbitrary: dw k)
  case (Suc n)
  have "(dw + 1) * 8 \<le> (dw + Suc n) * 8" by (intro mult_le_mono1) simp
  then have "data + dw * 8 + 7 + 1 \<le> FLASH_SIZE" using Suc.prems(1) by simp
  from law_read [OF laws this, of f]
  have rd: "fd_read dev f (data + dw * DW_SIZE + DW_DATA) 1 = Some [c f (data + dw * 8 + 7)]"
    unfolding DW_SIZE_def DW_DATA_def by (simp add: upt_rec)
  show ?case
  proof (cases k)
    case 0
    then have "c f (data + dw * 8 + 7) = 0xFF" using Suc.prems(4) by simp
    then show ?thesis using rd 0 by (simp add: ERASED_BYTE_def)
  next
    case (Suc k')
    then have "c f (data + dw * 8 + 7) \<noteq> 0xFF" using Suc.prems(2) by (simp add: framed_def)
    moreover have "scan_written_from dev f data (Suc dw) n = Suc dw + k'"
      using Suc.prems Suc by (intro Suc.IH) simp_all
    ultimately show ?thesis using rd Suc by (simp add: ERASED_BYTE_def)
  qed
qed simp

lemma scan_head:
  assumes laws: "flash_laws dev c" and ok: "flash_ok c sz r" and hd: "head_scan c r" and ne: "m_live r \<noteq> []"
  shows "scan_written_dw dev (m_flash r) (lp_phys (last (m_live r))) (lp_v2 (last (m_live r))) = m_head_dw r"
proof -
  let ?h = "last (m_live r)" and ?n = "lp_cap (last (m_live r)) div 7"
  have ho: "head_ok c sz r" using ok ne by (simp add: flash_ok_def)
  have n: "(if lp_v2 ?h then PAYLOAD_DW_V2 else PAYLOAD_DW_V1) = ?n" by (simp add: lp_cap_def page_consts)
  have "m_head_dw r * 7 \<le> lp_cap ?h" and fr: "framed c (m_flash r) (lp_data ?h) (0 + m_head_dw r)"
    using ho by (simp_all add: head_ok_def Let_def)
  then have le: "m_head_dw r \<le> ?n" by (simp add: lp_cap_def split: if_splits)
  have fit: "lp_data ?h + (0 + ?n) * 8 \<le> FLASH_SIZE"
    using data_bounds(3,4) [of ?h] lp_phys_last_lt [OF ok ne] by simp
  have "m_head_dw r = ?n \<or> c (m_flash r) (lp_data ?h + (0 + m_head_dw r) * 8 + 7) = 0xFF"
    using hd ne by (auto simp: head_scan_def Let_def)
  from scan_from [OF laws fit fr le this] show ?thesis
    by (simp only: scan_written_dw_def n lp_data_def [symmetric] add_0)
qed

text \<open>What a mount makes of the flash a ring left behind.\<close>

definition mounted :: "nat \<Rightarrow> 'f flash_ring \<Rightarrow> 'f flash_ring" where
  "mounted sz r = r\<lparr>m_live := map (\<lambda>p. p\<lparr>lp_cur_boot := False\<rparr>) (m_live r),
     m_abs_ord := lp_first_ord (last (m_live r)) +
       min (m_head_dw r * 7 div sz) (lp_cap (last (m_live r)) div sz),
     m_stage := [], m_head_full := True\<rparr>"

lemma mount_page_live:
  "page_disk dev c crc16 env f lp n \<Longrightarrow> \<not> lp_fixup lp \<Longrightarrow>
   mount_page dev crc16 f (lp_phys lp) = lp\<lparr>lp_cur_boot := False\<rparr>"
proof -
  assume d: "page_disk dev c crc16 env f lp n" "\<not> lp_fixup lp"
  have "lp_phys (mount_page dev crc16 f (lp_phys lp)) = lp_phys lp"
    "\<not> lp_cur_boot (mount_page dev crc16 f (lp_phys lp))" "\<not> lp_fixup (mount_page dev crc16 f (lp_phys lp))"
    by (simp_all add: mount_page_def Let_def)
  with d show ?thesis
    by (cases "mount_page dev crc16 f (lp_phys lp)", cases lp) (simp add: page_disk_def Let_def)
qed

lemma mount_eq:
  assumes laws: "flash_laws dev c" and ok: "flash_ok c (he_sample_size env) r"
    and d: "pages_disk dev c crc16 env (m_flash r) (m_live r) (m_next_seq r)" and hd: "head_scan c r"
    and ne: "m_live r \<noteq> []"
    and nofix: "\<forall>p \<in> set (m_live r). \<not> lp_fixup p" and small: "unat (m_next_seq r) < 2 ^ 31"
    and r0: "m_flash r0 = m_flash r" "m_ready r0"
  shows "flash_mount dev crc16 env r0 =
    (lp_first_ord (hd (m_live r)) < m_abs_ord (mounted (he_sample_size env) r), Some (he_interval env),
     mounted (he_sample_size env) r)"
proof -
  let ?sz = "he_sample_size env" and ?f = "m_flash r" and ?live = "m_live r" and ?l = "m_last_phys r"
  let ?h = "last ?live" and ?n = "length (m_live r)"
  have po: "phys_ok ?l ?live" and sz: "0 < ?sz" and rdy: "m_ready r" using ok by (simp_all add: flash_ok_def)
  have lph: "lp_phys ?h = ?l" by (rule phys_last [OF po ne])
  have l16: "?l < 16" using po by (simp add: phys_ok_def)
  let ?H = "page_hdr c ?f ?l"
  have n: "0 < ?n" "?n \<le> unat (m_next_seq r)" using ne d by (simp_all add: pages_disk_def)
  have ph: "page_disk dev c crc16 env ?f ?h (unat (m_next_seq r) - 1)"
    using pages_disk_nth [OF d, of "?n - 1"] ne n by (simp add: last_conv_nth)
  then have H: "hdr_valid crc16 ?H" "unat (ph_seq ?H) = unat (m_next_seq r) - 1" "layout_matches env ?H"
      "ph_interval ?H = he_interval env"
    by (simp_all add: page_disk_def lph Let_def)
  have mp: "mount_page dev crc16 ?f ?l = ?h\<lparr>lp_cur_boot := False\<rparr>"
    using mount_page_live [OF ph] nofix ne by (simp add: lph)
  have hv2: "(ph_magic ?H = PAGE_MAGIC_V2) = lp_v2 ?h" and hfo: "unat (ph_first_ord ?H) = lp_first_ord ?h"
    using arg_cong [OF mp, of lp_v2] arg_cong [OF mp, of lp_first_ord]
    by (simp_all add: mount_page_def read_hdr_page [OF laws l16] Let_def)
  have old: "unat (ph_seq (page_hdr c ?f p)) < unat (ph_seq ?H)"
    if p: "p < 16" "p \<noteq> ?l" "hdr_valid crc16 (page_hdr c ?f p)" for p
  proof (cases "p \<in> lp_phys ` set ?live")
    case True
    then obtain i where i: "i < ?n" "lp_phys (?live ! i) = p" by (auto simp: in_set_conv_nth)
    then have "i \<noteq> ?n - 1" using p(2) lph ne by (auto simp: last_conv_nth)
    then have "unat (m_next_seq r) - (?n - i) < unat (m_next_seq r) - 1" using i(1) n by linarith
    then show ?thesis using pages_disk_nth [OF d i(1)] i(2) H(2) by (simp add: page_disk_def Let_def)
  next
    case False
    then have "unat (ph_seq (page_hdr c ?f p)) + ?n + 2 \<le> unat (m_next_seq r)"
      using d p by (simp add: pages_disk_def)
    then show ?thesis using H(2) by linarith
  qed
  have sm: "\<forall>p < 16. hdr_valid crc16 (page_hdr c ?f p) \<longrightarrow> unat (ph_seq (page_hdr c ?f p)) < 2 ^ 31"
  proof (intro allI impI)
    fix p assume p: "p < 16" "hdr_valid crc16 (page_hdr c ?f p)"
    have "unat (ph_seq (page_hdr c ?f p)) \<le> unat (ph_seq ?H)" using old [OF p(1) _ p(2)] by (cases "p = ?l") auto
    then show "unat (ph_seq (page_hdr c ?f p)) < 2 ^ 31" using H(2) small by linarith
  qed
  have scan: "snd (fold (mount_scan dev crc16 env ?f) [0..<HIST_NPAGES] (None, None)) = Some (?l, ?H)"
    by (rule scan_newest [OF laws _ _ sm l16 H(1,3)]) (use sz l16 old in \<open>auto simp: page_consts\<close>)
  have chain: "mount_chain dev crc16 env ?f (he_interval env) ?l (ph_seq ?H) (HIST_NPAGES - 1) =
      rev (map lp_phys (take (?n - 1) ?live))"
  proof -
    have "?live ! (?n - 1) = ?h" using ne by (simp add: last_conv_nth)
    moreover have "?n \<le> 16" using po by (simp add: phys_ok_def)
    then have "16 - ?n + (?n - 1) = 15" using n(1) by linarith
    ultimately show ?thesis
      using chain_live [OF laws po d, of "?n - 1"] n(1) by (simp add: lph page_consts)
  qed
  have live: "map (mount_page dev crc16 ?f) (rev (?l # rev (map lp_phys (take (?n - 1) ?live)))) =
      map (\<lambda>p. p\<lparr>lp_cur_boot := False\<rparr>) ?live"
  proof -
    have sp: "take (?n - 1) ?live @ [?h] = ?live" using append_butlast_last_id [OF ne] by (simp only: butlast_conv_take)
    have "rev (?l # rev (map lp_phys (take (?n - 1) ?live))) = map lp_phys (take (?n - 1) ?live @ [?h])"
      by (simp add: lph)
    also have "\<dots> = map lp_phys ?live" by (simp only: sp)
    finally have e: "rev (?l # rev (map lp_phys (take (?n - 1) ?live))) = map lp_phys ?live" .
    have "mount_page dev crc16 ?f (lp_phys q) = q\<lparr>lp_cur_boot := False\<rparr>" if q: "q \<in> set ?live" for q
    proof -
      obtain i where "i < ?n" "q = ?live ! i" using q by (auto simp: in_set_conv_nth)
      then show ?thesis using mount_page_live [OF pages_disk_nth [OF d]] nofix q by blast
    qed
    then show ?thesis unfolding e by simp
  qed
  have cap: "(if lp_v2 ?h then PAGE_DATA_V2 else PAGE_DATA_V1) = lp_cap ?h" by (simp add: lp_cap_def page_consts)
  have seq: "ph_seq ?H + 1 = m_next_seq r"
  proof -
    have "unat (ph_seq ?H + 1) = unat (ph_seq ?H) + 1"
      using H(2) small by (intro unat_Suc_small) simp
    also have "\<dots> = unat (m_next_seq r)" unfolding H(2) using n by linarith
    finally show ?thesis by (simp only: unat_inj_iff)
  qed
  note sh = scan_head [OF laws ok hd ne, unfolded lph]
  have "flash_mount dev crc16 env r0 =
    (lp_first_ord (hd ?live) < m_abs_ord (mounted ?sz r), Some (he_interval env), mounted ?sz r)"
    if "fold (mount_scan dev crc16 env ?f) [0..<HIST_NPAGES] (None, None) = (any, Some (?l, ?H))" for any
  proof -
    let ?ord = "lp_first_ord ?h + min (m_head_dw r * 7 div ?sz) (lp_cap ?h div ?sz)"
    let ?r = "r0\<lparr>m_live := map (\<lambda>p. p\<lparr>lp_cur_boot := False\<rparr>) ?live, m_abs_ord := ?ord, m_next_seq := m_next_seq r,
      m_head_dw := m_head_dw r, m_stage := [], m_head_full := True, m_last_phys := ?l\<rparr>"
    have "flash_mount dev crc16 env r0 =
        (0 < ?ord - lp_first_ord (hd (map (\<lambda>p. p\<lparr>lp_cur_boot := False\<rparr>) ?live)), Some (he_interval env), ?r)"
      unfolding flash_mount_def Let_def
      using r0(2) by (cases any) (simp_all add: split_beta r0(1) that H(4) chain [unfolded One_nat_def] live [simplified] hv2 cap hfo sh seq DW_DATA_def)
    moreover have "?r = mounted ?sz r"
      using r0 rdy by (cases r0, cases r) (simp add: mounted_def)
    moreover have "lp_first_ord (hd (map (\<lambda>p. p\<lparr>lp_cur_boot := False\<rparr>) ?live)) = lp_first_ord (hd ?live)"
      using ne by (simp add: hd_map)
    moreover have "m_abs_ord (mounted ?sz r) = ?ord" by (simp add: mounted_def)
    ultimately show ?thesis by simp
  qed
  then show ?thesis using scan by (metis prod.collapse)
qed

lemma flash_mount_eq:
  assumes laws: "flash_laws dev c" and du: "durable dev c crc16 env r" and ne: "m_live r \<noteq> []"
    and nofix: "\<forall>p \<in> set (m_live r). \<not> lp_fixup p" and small: "unat (m_next_seq r) < 2 ^ 31"
    and r0: "m_flash r0 = m_flash r" "m_ready r0"
  shows "flash_mount dev crc16 env r0 =
    (lp_first_ord (hd (m_live r)) < m_abs_ord (mounted (he_sample_size env) r), Some (he_interval env),
     mounted (he_sample_size env) r)"
  by (rule mount_eq [OF laws _ _ _ ne nofix small r0]) (use du head_disk_scan in \<open>auto simp: durable_def\<close>)

subsection \<open>What a power loss costs\<close>

lemma mounted_simps [simp]:
  "m_live (mounted sz r) = map (\<lambda>p. p\<lparr>lp_cur_boot := False\<rparr>) (m_live r)"
  "m_flash (mounted sz r) = m_flash r" "m_stage (mounted sz r) = []" "m_head_full (mounted sz r)"
  "m_head_dw (mounted sz r) = m_head_dw r" "m_next_seq (mounted sz r) = m_next_seq r"
  "m_last_phys (mounted sz r) = m_last_phys r" "m_ready (mounted sz r) = m_ready r"
  by (simp_all add: mounted_def)

lemma cur_boot_simps [simp]:
  "lp_data (p\<lparr>lp_cur_boot := b\<rparr>) = lp_data p" "lp_cap (p\<lparr>lp_cur_boot := b\<rparr>) = lp_cap p"
  "page_disk dev c crc16 env f (p\<lparr>lp_cur_boot := b\<rparr>) n = page_disk dev c crc16 env f p n"
  by (simp_all add: lp_data_def lp_cap_def page_disk_def)

lemma mounted_records:
  assumes ok: "flash_ok c sz r" and hd: "head_disk c sz r" and ne: "m_live r \<noteq> []"
  shows "head_records (mounted sz r) = min (m_head_dw r * 7 div sz) (lp_cap (last (m_live r)) div sz)"
    and "head_records (mounted sz r) \<le> head_records r"
    and "head_records (mounted sz r) * sz \<le> m_head_dw r * 7"
    and "(head_records r - head_records (mounted sz r)) * sz < length (m_stage r) + sz"
    and "lp_first_ord (last (m_live r)) \<le> m_abs_ord (mounted sz r)" "m_abs_ord (mounted sz r) \<le> m_abs_ord r"
    and "m_abs_ord r - m_abs_ord (mounted sz r) = head_records r - head_records (mounted sz r)"
proof -
  let ?h = "last (m_live r)" and ?m = "min (m_head_dw r * 7 div sz) (lp_cap (last (m_live r)) div sz)"
  have ho: "head_ok c sz r" and sz: "0 < sz" using ok ne by (simp_all add: flash_ok_def)
  have le: "lp_first_ord ?h \<le> m_abs_ord r" using ok ne by (simp add: flash_ok_def sorted_append)
  show hr: "head_records (mounted sz r) = ?m" using ne by (simp add: head_records_def mounted_def last_map)
  have mle: "?m * sz \<le> m_head_dw r * 7"
  proof -
    have "?m * sz \<le> m_head_dw r * 7 div sz * sz" by (intro mult_le_mono1) simp
    also have "\<dots> \<le> m_head_dw r * 7" by simp
    finally show ?thesis .
  qed
  then show "head_records (mounted sz r) * sz \<le> m_head_dw r * 7" by (simp add: hr)
  have cap: "m_head_dw r * 7 \<le> lp_cap ?h" using ho by (simp add: head_ok_def Let_def)
  then have "m_head_dw r * 7 div sz \<le> lp_cap ?h div sz" by (rule div_le_mono)
  then have md: "?m = m_head_dw r * 7 div sz" by simp
  have m: "?m \<le> head_records r \<and> (head_records r - ?m) * sz < length (m_stage r) + sz"
  proof (cases "m_head_full r")
    case True
    then show ?thesis using hd ne sz by (simp add: head_disk_def Let_def)
  next
    case False
    then have n: "m_head_dw r * 7 + length (m_stage r) = head_records r * sz" using ho by (simp add: head_ok_def Let_def)
    then have "?m * sz \<le> head_records r * sz" using mle by linarith
    then have a: "?m \<le> head_records r" using sz by simp
    have "m_head_dw r * 7 < ?m * sz + sz"
      unfolding md using sz by (metis add.commute dividend_less_div_times)
    then have "head_records r * sz < ?m * sz + length (m_stage r) + sz" using n by linarith
    moreover have "?m * sz \<le> head_records r * sz" using a by (rule mult_le_mono1)
    ultimately have "head_records r * sz - ?m * sz < length (m_stage r) + sz" using sz by linarith
    then show ?thesis using a by (simp only: diff_mult_distrib simp_thms)
  qed
  show "head_records (mounted sz r) \<le> head_records r"
    "(head_records r - head_records (mounted sz r)) * sz < length (m_stage r) + sz"
    using m by (simp_all only: hr simp_thms)
  have ab: "m_abs_ord (mounted sz r) = lp_first_ord ?h + ?m" by (simp add: mounted_def)
  have hrr: "m_abs_ord r = lp_first_ord ?h + head_records r" using ne le by (simp add: head_records_def)
  show "lp_first_ord ?h \<le> m_abs_ord (mounted sz r)" "m_abs_ord (mounted sz r) \<le> m_abs_ord r"
    "m_abs_ord r - m_abs_ord (mounted sz r) = head_records r - head_records (mounted sz r)"
    unfolding hr ab hrr using m by simp_all
qed

lemma mounted_ok:
  assumes ok: "flash_ok c sz r" and hd: "head_disk c sz r" and ne: "m_live r \<noteq> []"
  shows "flash_ok c sz (mounted sz r)"
proof -
  let ?r = "mounted sz r" and ?live = "m_live r"
  note mr = mounted_records [OF ok hd ne]
  have ho: "head_ok c sz r" using ok ne by (simp add: flash_ok_def)
  show ?thesis
    unfolding flash_ok_def
  proof (intro conjI impI allI)
    show "m_ready ?r" "0 < sz" "sz \<le> 1757" "length (m_stage ?r) < 7" using ok by (simp_all add: flash_ok_def)
    show "phys_ok (m_last_phys ?r) (m_live ?r)" using ok by (simp add: flash_ok_def phys_ok_def)
    show "sorted (map lp_first_ord (m_live ?r) @ [m_abs_ord ?r])"
    proof -
      have s: "sorted (map lp_first_ord ?live)" by (rule sorted_firsts [OF ok])
      have "lp_first_ord p \<le> m_abs_ord ?r" if p: "p \<in> set ?live" for p
      proof -
        obtain i where i: "i < length ?live" "p = ?live ! i" using p by (auto simp: in_set_conv_nth)
        then have "lp_first_ord p \<le> lp_first_ord (last ?live)"
          using sorted_nth_mono [OF s, of i "length ?live - 1"] ne by (simp add: last_conv_nth)
        then show ?thesis using mr(5) by linarith
      qed
      then show ?thesis using s by (auto simp: sorted_append comp_def)
    qed
    show "head_ok c sz ?r"
      using mr(3) ho ne by (simp add: head_ok_def Let_def last_map)
    fix i assume i: "i < length (m_live ?r)"
    have "page_end (m_live ?r) (m_abs_ord ?r) i \<le> page_end ?live (m_abs_ord r) i"
      using i mr(6) by (simp add: page_end_def)
    then have "(page_end (m_live ?r) (m_abs_ord ?r) i - lp_first_ord (?live ! i)) * sz \<le>
        (page_end ?live (m_abs_ord r) i - lp_first_ord (?live ! i)) * sz"
      by (intro mult_le_mono1 diff_le_mono)
    also have "\<dots> \<le> lp_cap (?live ! i)" using ok i by (simp add: flash_ok_def)
    finally show "(page_end (m_live ?r) (m_abs_ord ?r) i - lp_first_ord (m_live ?r ! i)) * sz \<le> lp_cap (m_live ?r ! i)"
      using i by simp
  qed
qed

lemma mounted_durable:
  assumes du: "durable dev c crc16 env r" and ne: "m_live r \<noteq> []"
  shows "durable dev c crc16 env (mounted (he_sample_size env) r)"
proof -
  let ?sz = "he_sample_size env"
  have ok: "flash_ok c ?sz r" and d: "pages_disk dev c crc16 env (m_flash r) (m_live r) (m_next_seq r)"
    and hd: "head_disk c ?sz r" using du by (simp_all add: durable_def)
  have "pages_disk dev c crc16 env (m_flash r) (m_live (mounted ?sz r)) (m_next_seq r)"
    using d by (simp add: pages_disk_def image_image)
  moreover have "head_disk c ?sz (mounted ?sz r)"
    using hd ne mounted_records(1) [OF ok hd ne] by (auto simp: head_disk_def Let_def last_map)
  ultimately show ?thesis using mounted_ok [OF ok hd ne] by (simp add: durable_def)
qed

text \<open>The boot a page was opened in shows in no record.\<close>

lemma pages_view_cur_boot:
  "pages_view c sz iv f (map (\<lambda>p. p\<lparr>lp_cur_boot := False\<rparr>) live) stop hb = pages_view c sz iv f live stop hb"
  by (induction live rule: induct_list012) (simp_all add: recs_view_def)

lemma take_recs_view: "k \<le> n \<Longrightarrow> take k (recs_view sz iv p n bs) = recs_view sz iv p k bs"
  by (simp add: recs_view_def take_map)

lemma mounted_view:
  assumes ok: "flash_ok c sz r" and hd: "head_disk c sz r" and ne: "m_live r \<noteq> []"
  shows "cview c sz iv (mounted sz r) =
    take (length (cview c sz iv r) - (head_records r - head_records (mounted sz r))) (cview c sz iv r)"
proof -
  let ?h = "last (m_live r)" and ?r = "mounted sz r"
  let ?v = "pages_view c sz iv (m_flash r) (m_live r) (lp_first_ord ?h) []"
  let ?fl = "flushed c (m_flash r) (lp_data ?h) (m_head_dw r * 7)"
  note mr = mounted_records [OF ok hd ne]
  have le: "lp_first_ord ?h \<le> m_abs_ord r" using ok ne by (simp add: flash_ok_def sorted_append)
  have hb: "head_bytes c r = ?fl @ m_stage r" "head_bytes c ?r = ?fl"
    using ne by (simp_all add: head_bytes_def last_map)
  have e: "m_abs_ord r - lp_first_ord ?h = head_records r" "m_abs_ord ?r - lp_first_ord ?h = head_records ?r"
    using ne by (simp_all add: head_records_def last_map)
  have v: "cview c sz iv r = ?v @ recs_view sz iv ?h (head_records r) (?fl @ m_stage r)"
    unfolding hb(1) by (subst pages_view_stop [OF ne]) (simp only: e)
  have "cview c sz iv ?r = pages_view c sz iv (m_flash r) (m_live r) (m_abs_ord ?r) ?fl"
    unfolding hb(2) by (simp add: pages_view_cur_boot)
  also have "\<dots> = ?v @ recs_view sz iv ?h (head_records ?r) ?fl"
    by (subst pages_view_stop [OF ne]) (simp only: e)
  also have "recs_view sz iv ?h (head_records ?r) ?fl = recs_view sz iv ?h (head_records ?r) (?fl @ m_stage r)"
    using mr(3) by (intro recs_view_prefix [symmetric]) simp_all
  also have "\<dots> = take (head_records ?r) (recs_view sz iv ?h (head_records r) (?fl @ m_stage r))"
    by (rule take_recs_view [symmetric, OF mr(2)])
  finally have c1: "cview c sz iv ?r = ?v @ take (head_records ?r) (recs_view sz iv ?h (head_records r) (?fl @ m_stage r))" .
  have "length (cview c sz iv r) - (head_records r - head_records ?r) = length ?v + head_records ?r"
    unfolding v using mr(2) by (simp add: recs_view_def)
  then show ?thesis unfolding c1 v by simp
qed

lemma power_loss:
  assumes laws: "flash_laws dev c" and du: "durable dev c crc16 env r" and ne: "m_live r \<noteq> []"
    and nofix: "\<forall>p \<in> set (m_live r). \<not> lp_fixup p" and small: "unat (m_next_seq r) < 2 ^ 31"
    and r0: "m_flash r0 = m_flash r" "m_ready r0"
  shows "let sz = he_sample_size env; v = flash_view dev sz iv r; (found, iv', r') = flash_mount dev crc16 env r0 in
    durable dev c crc16 env r' \<and> flash_first_abs r' = flash_first_abs r \<and>
    found = (0 < flash_stored r') \<and> iv' = Some (he_interval env) \<and>
    (\<exists>lost. lost * sz < length (m_stage r) + sz \<and> flash_view dev sz iv r' = take (length v - lost) v)"
proof -
  let ?sz = "he_sample_size env" and ?r = "mounted (he_sample_size env) r"
  have ok: "flash_ok c ?sz r" and hd: "head_disk c ?sz r" using du by (simp_all add: durable_def)
  note mr = mounted_records [OF ok hd ne] and ok' = mounted_ok [OF ok hd ne]
  have fa: "flash_first_abs ?r = flash_first_abs r" using ne by (simp add: flash_first_abs_def hd_map)
  have st: "flash_stored ?r = m_abs_ord ?r - lp_first_ord (hd (m_live r))" using ne by (simp add: flash_stored_def hd_map)
  have "flash_view dev ?sz iv ?r = take (length (flash_view dev ?sz iv r) - (head_records r - head_records ?r)) (flash_view dev ?sz iv r)"
    unfolding flash_view_pages [OF laws ok] flash_view_pages [OF laws ok'] by (rule mounted_view [OF ok hd ne])
  then have "\<exists>lost. lost * ?sz < length (m_stage r) + ?sz \<and>
      flash_view dev ?sz iv ?r = take (length (flash_view dev ?sz iv r) - lost) (flash_view dev ?sz iv r)"
    using mr(4) by blast
  then show ?thesis
    unfolding flash_mount_eq [OF laws du ne nofix small r0] Let_def prod.case
    using mounted_durable [OF du ne] fa st by auto
qed

end
