(* ===== verification/FlashRun.thy ===== *)
theory FlashRun
  imports FlashMount
begin

text \<open>
  Clock sync and its fix-ups, and runs of the ring across power losses.
\<close>

subsection \<open>Clock sync and fix-ups\<close>

text \<open>Moving an unsynced page to unix time leaves its fix-up to be written.\<close>

lemma seg_sync_durable:
  assumes du: "durable dev c crc16 env r" and i: "i < length (m_live r)" "\<not> lp_synced (m_live r ! i)" "lp_v2 (m_live r ! i)"
  shows "durable dev c crc16 env (snd (flash_seg_sync i off r))"
proof -
  let ?sz = "he_sample_size env" and ?live = "m_live r" and ?r = "snd (flash_seg_sync i off r)"
  let ?p = "m_live r ! i"
  let ?q = "?p\<lparr>lp_base_time := lp_base_time ?p + off, lp_synced := True, lp_fixup := True\<rparr>"
  have ok: "flash_ok c ?sz r" and d: "pages_disk dev c crc16 env (m_flash r) ?live (m_next_seq r)"
    and hd: "head_disk c ?sz r" using du by (simp_all add: durable_def)
  have r: "?r = r\<lparr>m_live := ?live[i := ?q]\<rparr>" using i(3) by (simp add: flash_seg_sync_def Let_def)
  have ne: "?live \<noteq> []" using i(1) by auto
  have f: "lp_first_ord (?live[i := ?q] ! j) = lp_first_ord (?live ! j)" "lp_phys (?live[i := ?q] ! j) = lp_phys (?live ! j)"
    "lp_data (?live[i := ?q] ! j) = lp_data (?live ! j)" "lp_cap (?live[i := ?q] ! j) = lp_cap (?live ! j)"
    "lp_v2 (?live[i := ?q] ! j) = lp_v2 (?live ! j)"
    if "j < length ?live" for j
    using that i(1) by (cases "j = i"; simp add: lp_data_def lp_cap_def)+
  have m: "map lp_first_ord (?live[i := ?q]) = map lp_first_ord ?live" "map lp_phys (?live[i := ?q]) = map lp_phys ?live"
    by (rule nth_equalityI; simp add: f)+
  have l: "last (?live[i := ?q]) = ?live[i := ?q] ! (length ?live - Suc 0)" "last ?live = ?live ! (length ?live - Suc 0)"
    using ne by (simp_all add: last_conv_nth)
  have n1: "length ?live - Suc 0 < length ?live" using ne by simp
  have pe: "page_end (?live[i := ?q]) s j = page_end ?live s j" if "j < length ?live" for s j
    using that by (simp add: page_end_def f)
  have hr: "head_records ?r = head_records r" using ne by (simp add: r head_records_def l f [OF n1])
  have "flash_ok c ?sz ?r"
    using ok ne unfolding flash_ok_def r by (simp add: m phys_ok_def f pe head_ok_def Let_def hr [unfolded r] l f [OF n1])
  moreover have "head_disk c ?sz ?r"
    using hd ne unfolding head_disk_def r by (simp add: Let_def hr [unfolded r] l f [OF n1])
  moreover have "pages_disk dev c crc16 env (m_flash r) (?live[i := ?q]) (m_next_seq r)"
  proof -
    have "page_disk dev c crc16 env (m_flash r) ?q n" if "page_disk dev c crc16 env (m_flash r) ?p n" for n
      using that i(2,3) by (simp add: page_disk_def Let_def)
    then have "page_disk dev c crc16 env (m_flash r) (?live[i := ?q] ! j) (unat (m_next_seq r) - (length ?live - j))"
      if "j < length ?live" for j
      using pages_disk_nth [OF d that] i(1) by (cases "j = i") simp_all
    moreover have "lp_phys ` set (?live[i := ?q]) = lp_phys ` set ?live" using m(2) by (metis set_map)
    ultimately show ?thesis using d unfolding pages_disk_def by simp
  qed
  ultimately show ?thesis unfolding durable_def by (simp add: r)
qed

text \<open>Writing the fix-up of one page.\<close>

lemma flush_fixup_ok:
  assumes laws: "flash_laws dev c" and p: "lp_phys lp < 16" and d: "page_disk dev c crc16 env f lp n" and fx: "lp_fixup lp"
  shows "page_disk dev c crc16 env (flush_fixup dev crc16 lp f) (lp\<lparr>lp_fixup := False\<rparr>) n"
    and "x < page_off (lp_phys lp) + 32 \<or> page_off (lp_phys lp) + 40 \<le> x \<Longrightarrow> c (flush_fixup dev crc16 lp f) x = c f x"
proof -
  let ?h = "page_hdr c f (lp_phys lp)" and ?o = "page_off (lp_phys lp) + 32"
  let ?body = "put_le32 (lp_base_time lp - ph_base_time ?h) @ [FIXUP_MARK, 0]"
  let ?bs = "?body @ put_le16 (crc16 (ph_crc ?h) ?body)"
  have h: "hdr_valid crc16 ?h" "ph_base_synced ?h = 0" "fix_erased c f (lp_phys lp)" "lp_v2 lp" "lp_synced lp"
    using d fx by (simp_all add: page_disk_def Let_def)
  have "\<exists>f'. fd_write dev ?o ?bs f = (None, f') \<and> (\<forall>i < length ?bs. c f' (?o + i) = ?bs ! i) \<and>
      (\<forall>x. x < ?o \<or> ?o + length ?bs \<le> x \<longrightarrow> c f' x = c f x)"
  proof (rule law_write [OF laws])
    show "?o + length ?bs \<le> FLASH_SIZE" using page_fin [OF p] by simp
    show "?o mod 8 = 0" by (simp add: page_off_def PAGE_SIZE_def)
    show "c f x = 0xFF" if "?o \<le> x" "x < ?o + length ?bs" for x
      using h(3) that by (simp add: fix_erased_def erased_def)
  qed simp
  then obtain f' where w: "fd_write dev ?o ?bs f = (None, f')" "\<forall>i < 8. c f' (?o + i) = ?bs ! i"
      "\<forall>x. x < ?o \<or> ?o + 8 \<le> x \<longrightarrow> c f' x = c f x" by auto
  have ff: "flush_fixup dev crc16 lp f = f'"
    using h w(1) by (simp add: flush_fixup_def read_hdr_page [OF laws p] Let_def HIST_HDR_SIZE_def)
  show "c (flush_fixup dev crc16 lp f) x = c f x"
    if "x < page_off (lp_phys lp) + 32 \<or> page_off (lp_phys lp) + 40 \<le> x" for x
  proof -
    have "x < ?o \<or> ?o + 8 \<le> x" using that by linarith
    then show ?thesis unfolding ff using w(3) by blast
  qed
  have hd: "page_hdr c f' (lp_phys lp) = ?h"
  proof -
    have "map (c f') [page_off (lp_phys lp)..<page_off (lp_phys lp) + 32] = map (c f) [page_off (lp_phys lp)..<page_off (lp_phys lp) + 32]"
      using w(3) by simp
    then show ?thesis by (simp only: page_hdr_def)
  qed
  have bs: "map (c f') [?o..<page_off (lp_phys lp) + 40] = ?bs"
    by (rule nth_equalityI) (use w(2) in simp_all)
  have "fixup_read dev crc16 f' (lp_phys lp) ?h = Some (lp_base_time lp)"
    unfolding fixup_read_page [OF laws p] bs by (simp add: Let_def nth_append)
  then have m: "mount_page dev crc16 f' (lp_phys lp) = (mount_page dev crc16 f (lp_phys lp))
      \<lparr>lp_base_time := lp_base_time lp, lp_synced := True\<rparr>"
    using h(2) d h(4) by (auto simp: mount_page_def read_hdr_page [OF laws p] hd Let_def page_disk_def)
  show "page_disk dev c crc16 env (flush_fixup dev crc16 lp f) (lp\<lparr>lp_fixup := False\<rparr>) n"
    unfolding ff using d h(5) by (simp add: page_disk_def Let_def hd m)
qed

lemma flush_fixups_pages:
  assumes laws: "flash_laws dev c"
  shows "distinct (map lp_phys ps) \<Longrightarrow> \<forall>p \<in> set ps. lp_phys p < 16 \<and> (\<exists>n. page_disk dev c crc16 env f p n) \<Longrightarrow>
    f' = fold (\<lambda>lp f. if lp_fixup lp then flush_fixup dev crc16 lp f else f) ps f \<Longrightarrow>
    (\<forall>p \<in> set ps. \<forall>n. page_disk dev c crc16 env f p n \<longrightarrow> page_disk dev c crc16 env f' (p\<lparr>lp_fixup := False\<rparr>) n) \<and>
    (\<forall>x. (\<forall>p \<in> set ps. lp_fixup p \<longrightarrow> x < page_off (lp_phys p) + 32 \<or> page_off (lp_phys p) + 40 \<le> x) \<longrightarrow> c f' x = c f x)"
proof (induction ps arbitrary: f)
  case (Cons p ps)
  define f1 where "f1 = (if lp_fixup p then flush_fixup dev crc16 p f else f)"
  have p: "lp_phys p < 16" "\<exists>n. page_disk dev c crc16 env f p n" using Cons.prems(2) by simp_all
  have same: "p\<lparr>lp_fixup := False\<rparr> = p" if "\<not> lp_fixup p" using that by (cases p) simp
  have f1p: "page_disk dev c crc16 env f1 (p\<lparr>lp_fixup := False\<rparr>) n" if "page_disk dev c crc16 env f p n" for n
  proof (cases "lp_fixup p")
    case True
    then show ?thesis using flush_fixup_ok(1) [OF laws p(1) that] by (simp add: f1_def)
  next
    case False
    then show ?thesis using that unfolding same [OF False] f1_def by simp
  qed
  have f1x: "c f1 x = c f x" if "lp_fixup p \<longrightarrow> x < page_off (lp_phys p) + 32 \<or> page_off (lp_phys p) + 40 \<le> x" for x
  proof (cases "lp_fixup p")
    case True
    obtain n where "page_disk dev c crc16 env f p n" using p(2) by blast
    from flush_fixup_ok(2) [OF laws p(1) this True] show ?thesis using that True by (simp add: f1_def)
  qed (simp add: f1_def)
  have far: "x < page_off (lp_phys a) + 32 \<or> page_off (lp_phys a) + 40 \<le> x"
    if "lp_phys a \<noteq> lp_phys b" "page_off (lp_phys b) \<le> x" "x < page_off (lp_phys b) + 40" for a b x
    using that by (auto simp: page_off_def PAGE_SIZE_def)
  have other: "page_disk dev c crc16 env f1 q n = page_disk dev c crc16 env f q n" if q: "q \<in> set ps" for q n
  proof -
    have ph: "lp_phys p \<noteq> lp_phys q" using Cons.prems(1) q by auto
    show ?thesis
      by (rule page_disk_cong [OF laws]) (use Cons.prems(2) q far [OF ph] f1x in auto)
  qed
  have f': "f' = fold (\<lambda>lp f. if lp_fixup lp then flush_fixup dev crc16 lp f else f) ps f1"
    using Cons.prems(3) by (simp add: f1_def)
  have "distinct (map lp_phys ps)" "\<forall>q \<in> set ps. lp_phys q < 16 \<and> (\<exists>n. page_disk dev c crc16 env f1 q n)"
    using Cons.prems(1,2) other by simp_all
  note ih = Cons.IH [OF this f']
  have keep: "page_disk dev c crc16 env f' (p\<lparr>lp_fixup := False\<rparr>) n = page_disk dev c crc16 env f1 (p\<lparr>lp_fixup := False\<rparr>) n" for n
  proof (rule page_disk_cong [OF laws])
    fix x assume x: "page_off (lp_phys (p\<lparr>lp_fixup := False\<rparr>)) \<le> x" "x < page_off (lp_phys (p\<lparr>lp_fixup := False\<rparr>)) + 40"
    have "x < page_off (lp_phys q) + 32 \<or> page_off (lp_phys q) + 40 \<le> x" if "q \<in> set ps" for q
    proof -
      have "lp_phys p \<notin> lp_phys ` set ps" using Cons.prems(1) by simp
      then have "lp_phys q \<noteq> lp_phys p" using that by (metis imageI)
      from far [OF this] x show ?thesis by simp
    qed
    then show "c f' x = c f1 x" using ih by blast
  qed (use p in simp)
  show ?case
  proof (intro conjI ballI allI impI)
    fix q n assume q: "q \<in> set (p # ps)" "page_disk dev c crc16 env f q n"
    show "page_disk dev c crc16 env f' (q\<lparr>lp_fixup := False\<rparr>) n"
    proof (cases "q = p")
      case True
      then show ?thesis using q f1p keep by simp
    next
      case False
      then have "q \<in> set ps" using q(1) by simp
      then show ?thesis using ih other q(2) by blast
    qed
  next
    fix x
    assume a: "\<forall>p \<in> set (p # ps). lp_fixup p \<longrightarrow> x < page_off (lp_phys p) + 32 \<or> page_off (lp_phys p) + 40 \<le> x"
    then have "c f' x = c f1 x" using ih by simp
    also have "\<dots> = c f x" using a by (intro f1x) simp
    finally show "c f' x = c f x" .
  qed
qed simp

lemma phys_ok_distinct: "phys_ok l live \<Longrightarrow> distinct (map lp_phys live)"
  using phys_distinct [of l live] by (auto simp: distinct_conv_nth)

lemma flush_fixups_durable:
  assumes laws: "flash_laws dev c" and du: "durable dev c crc16 env r"
  shows "durable dev c crc16 env (flash_flush_fixups dev crc16 r)"
    and "p \<in> set (m_live (flash_flush_fixups dev crc16 r)) \<Longrightarrow> \<not> lp_fixup p"
proof -
  let ?sz = "he_sample_size env" and ?live = "m_live r" and ?r = "flash_flush_fixups dev crc16 r"
  let ?g = "\<lambda>p. p\<lparr>lp_fixup := False\<rparr>"
  have ok: "flash_ok c ?sz r" and d: "pages_disk dev c crc16 env (m_flash r) ?live (m_next_seq r)"
    and hd: "head_disk c ?sz r" using du by (simp_all add: durable_def)
  have po: "phys_ok (m_last_phys r) ?live" using ok by (simp add: flash_ok_def)
  define f' where "f' = m_flash ?r"
  have f': "f' = fold (\<lambda>lp f. if lp_fixup lp then flush_fixup dev crc16 lp f else f) ?live (m_flash r)"
    by (simp add: f'_def flash_flush_fixups_def)
  have r: "?r = r\<lparr>m_flash := f', m_live := map ?g ?live\<rparr>" by (simp add: f'_def flash_flush_fixups_def)
  have pd: "\<forall>p \<in> set ?live. lp_phys p < 16 \<and> (\<exists>n. page_disk dev c crc16 env (m_flash r) p n)"
  proof
    fix p assume p: "p \<in> set ?live"
    then obtain i where "i < length ?live" "p = ?live ! i" by (auto simp: in_set_conv_nth)
    then show "lp_phys p < 16 \<and> (\<exists>n. page_disk dev c crc16 env (m_flash r) p n)"
      using pages_disk_nth [OF d] phys_lt [OF po p] by blast
  qed
  note fp = flush_fixups_pages [OF laws phys_ok_distinct [OF po] pd f']
  have v2: "lp_v2 p" if p: "p \<in> set ?live" "lp_fixup p" for p
    using pd p by (auto simp: page_disk_def Let_def)
  have out: "c f' x = c (m_flash r) x"
    if "\<And>p. p \<in> set ?live \<Longrightarrow> lp_fixup p \<Longrightarrow> x < page_off (lp_phys p) + 32 \<or> page_off (lp_phys p) + 40 \<le> x" for x
    using fp that by blast
  have far: "x < page_off p + 32 \<or> page_off p + 40 \<le> x" if "p \<noteq> q" "page_off q \<le> x" "x < page_off q + 2048" for p q x
    using that by (auto simp: page_off_def PAGE_SIZE_def)
  have data: "c f' x = c (m_flash r) x"
    if h: "h \<in> set ?live" and x: "lp_data h \<le> x" "x < page_off (lp_phys h) + 2048" for h x
  proof (rule out)
    fix p assume p: "p \<in> set ?live" "lp_fixup p"
    show "x < page_off (lp_phys p) + 32 \<or> page_off (lp_phys p) + 40 \<le> x"
    proof (cases "lp_phys p = lp_phys h")
      case True
      then have "p = h" using phys_ok_distinct [OF po] p(1) h by (auto simp: distinct_map inj_on_def)
      then show ?thesis using v2 [OF p] x(1) by (simp add: lp_data_def page_data_off_def page_consts)
    next
      case False
      then show ?thesis using far [OF False] x data_bounds(2) [of h] by simp
    qed
  qed
  have g: "lp_data (?g p) = lp_data p" "lp_cap (?g p) = lp_cap p" for p by (simp_all add: lp_data_def lp_cap_def)
  have hr: "head_records ?r = head_records r" by (simp add: r head_records_def last_map)
  have scan: "framed c f' (lp_data h) dw = framed c (m_flash r) (lp_data h) dw"
    "erased c f' (lp_data h + dw * 8) (lp_data h + 2008) = erased c (m_flash r) (lp_data h + dw * 8) (lp_data h + 2008)"
    "dw = lp_cap h div 7 \<or> c f' (lp_data h + dw * 8 + 7) = 0xFF \<longleftrightarrow> dw = lp_cap h div 7 \<or> c (m_flash r) (lp_data h + dw * 8 + 7) = 0xFF"
    if h: "h \<in> set ?live" and dw: "dw * 7 \<le> lp_cap h" for h dw
  proof -
    have e: "lp_data h + lp_cap h div 7 * 8 = page_off (lp_phys h) + 2048" by (rule data_bounds(3))
    have le: "dw \<le> lp_cap h div 7" using dw by (simp add: less_eq_div_iff_mult_less_eq)
    then have b: "lp_data h + dw * 8 \<le> page_off (lp_phys h) + 2048" using e by simp
    have eq: "c f' x = c (m_flash r) x" if "lp_data h \<le> x" "x < page_off (lp_phys h) + 2048" for x
      using data [OF h that] .
    show "framed c f' (lp_data h) dw = framed c (m_flash r) (lp_data h) dw"
      unfolding framed_def
    proof (intro all_cong1 imp_cong refl)
      fix j assume "j < dw"
      then have "lp_data h + j * 8 + 7 < page_off (lp_phys h) + 2048" using b by simp
      then show "(c f' (lp_data h + j * 8 + 7) \<noteq> 0xFF) = (c (m_flash r) (lp_data h + j * 8 + 7) \<noteq> 0xFF)" by (simp add: eq)
    qed
    have "lp_data h + 2008 \<le> page_off (lp_phys h) + 2048" using e by (simp add: lp_cap_def split: if_splits)
    then show "erased c f' (lp_data h + dw * 8) (lp_data h + 2008) = erased c (m_flash r) (lp_data h + dw * 8) (lp_data h + 2008)"
      unfolding erased_def by (intro all_cong1 imp_cong refl) (simp add: eq)
    have "lp_data h + dw * 8 + 7 < page_off (lp_phys h) + 2048" if "dw \<noteq> lp_cap h div 7"
    proof -
      have "dw + 1 \<le> lp_cap h div 7" using le that by simp
      then have "(dw + 1) * 8 \<le> lp_cap h div 7 * 8" by (rule mult_le_mono1)
      then show ?thesis using e by simp
    qed
    then show "dw = lp_cap h div 7 \<or> c f' (lp_data h + dw * 8 + 7) = 0xFF \<longleftrightarrow> dw = lp_cap h div 7 \<or> c (m_flash r) (lp_data h + dw * 8 + 7) = 0xFF"
      using eq [of "lp_data h + dw * 8 + 7"] by (cases "dw = lp_cap h div 7") simp_all
  qed
  have dw: "m_head_dw r * 7 \<le> lp_cap (last ?live)" if "?live \<noteq> []"
    using ok that by (simp add: flash_ok_def head_ok_def Let_def)
  note sc = scan [OF last_in_set dw]
  have "flash_ok c ?sz ?r"
    unfolding flash_ok_def
  proof (intro conjI impI allI)
    show "m_ready ?r" "0 < ?sz" "?sz \<le> 1757" "length (m_stage ?r) < 7" "phys_ok (m_last_phys ?r) (m_live ?r)"
      "sorted (map lp_first_ord (m_live ?r) @ [m_abs_ord ?r])"
      using ok by (simp_all add: flash_ok_def r phys_ok_def comp_def)
    show "(page_end (m_live ?r) (m_abs_ord ?r) i - lp_first_ord (m_live ?r ! i)) * ?sz \<le> lp_cap (m_live ?r ! i)"
      if i: "i < length (m_live ?r)" for i
    proof -
      have "page_end (m_live ?r) (m_abs_ord ?r) i = page_end ?live (m_abs_ord r) i"
        using i by (simp add: page_end_def r)
      then show ?thesis using ok i by (simp add: flash_ok_def r g)
    qed
    show "head_ok c ?sz ?r" if "m_live ?r \<noteq> []"
    proof -
      have ne: "?live \<noteq> []" using that by (simp add: r)
      then show ?thesis
        using ok sc(1,2) [OF ne ne] unfolding flash_ok_def head_ok_def Let_def hr by (simp add: r last_map g)
    qed
  qed
  moreover have "head_disk c ?sz ?r"
  proof (cases "?live = []")
    case False
    then show ?thesis
      using hd sc(3) [OF False False] unfolding head_disk_def Let_def hr by (simp add: r last_map g)
  qed (simp add: head_disk_def r)
  moreover have "pages_disk dev c crc16 env f' (map ?g ?live) (m_next_seq r)"
  proof -
    have "page_disk dev c crc16 env f' (?g (?live ! i)) (unat (m_next_seq r) - (length ?live - i))" if "i < length ?live" for i
      using fp pages_disk_nth [OF d that] that by simp
    moreover have "page_hdr c f' p = page_hdr c (m_flash r) p" if p: "p < 16" "p \<notin> lp_phys ` set ?live" for p
    proof (rule page_hdr_cong, rule out)
      fix x q assume x: "page_off p \<le> x" "x < page_off p + 40" and q: "q \<in> set ?live"
      have "lp_phys q \<noteq> p" using p(2) q by auto
      from far [OF this x(1)] x(2) show "x < page_off (lp_phys q) + 32 \<or> page_off (lp_phys q) + 40 \<le> x" by simp
    qed
    ultimately show ?thesis using d by (simp add: pages_disk_def image_image)
  qed
  ultimately show "durable dev c crc16 env ?r" by (simp add: durable_def r)
  show "p \<in> set (m_live ?r) \<Longrightarrow> \<not> lp_fixup p" by (auto simp: r)
qed

lemma reset_durable:
  assumes "durable dev c crc16 env r" "unat (m_next_seq r) + 1 < 2 ^ 32"
  shows "durable dev c crc16 env (flash_reset_logical r)"
proof -
  let ?live = "m_live r"
  have d: "pages_disk dev c crc16 env (m_flash r) ?live (m_next_seq r)" using assms by (simp add: durable_def)
  have nn: "unat (m_next_seq r + 1) = unat (m_next_seq r) + 1" using assms(2) unat_Suc_small [of "m_next_seq r"] by simp
  have "unat (ph_seq (page_hdr c (m_flash r) p)) + 2 \<le> unat (m_next_seq r) + 1"
    if p: "p < 16" "hdr_valid crc16 (page_hdr c (m_flash r) p)" for p
  proof (cases "p \<in> lp_phys ` set ?live")
    case True
    then obtain i where i: "i < length ?live" "lp_phys (?live ! i) = p" by (auto simp: in_set_conv_nth)
    have "length ?live \<le> unat (m_next_seq r)" using d by (simp add: pages_disk_def)
    then have "unat (m_next_seq r) - (length ?live - i) + 1 \<le> unat (m_next_seq r)" using i(1) by linarith
    moreover have "unat (ph_seq (page_hdr c (m_flash r) p)) = unat (m_next_seq r) - (length ?live - i)"
      using pages_disk_nth [OF d i(1)] i(2) by (simp add: page_disk_def Let_def)
    ultimately show ?thesis by linarith
  next
    case False
    then have "unat (ph_seq (page_hdr c (m_flash r) p)) + length ?live + 2 \<le> unat (m_next_seq r)"
      using d p by (simp add: pages_disk_def)
    then show ?thesis by linarith
  qed
  then show ?thesis
    using assms(1) flash_reset_ok [of c "he_sample_size env" r]
    by (simp add: durable_def flash_reset_logical_def pages_disk_def nn head_disk_def)
qed

subsection \<open>Runs\<close>

text \<open>
  Everything that happens to the ring between two boots and across them. An append is any the upper layer
  makes but a split refused during a replay while records are shorter than a double word (see
  \<open>phantom_record\<close>); a power loss keeps the flash and leaves nothing else, the RAM of \<open>r0\<close> is arbitrary.
\<close>

inductive flash_run :: "'f flash_dev \<Rightarrow> crc16 \<Rightarrow> hist_env \<Rightarrow> 'f flash_ring \<Rightarrow> 'f flash_ring \<Rightarrow> bool"
  for dev crc16 env where
  run_start: "flash_run dev crc16 env r r"
| run_append: "flash_run dev crc16 env r r1 \<Longrightarrow> length rec = he_sample_size env \<Longrightarrow>
    he_sample_size e = he_sample_size env \<Longrightarrow> he_layout e = he_layout env \<Longrightarrow> he_interval e = he_interval env \<Longrightarrow>
    \<not> (he_replay e \<and> split \<and> he_sample_size env < 7) \<Longrightarrow>
    unat (m_next_seq r1) + 1 < 2 ^ 31 \<Longrightarrow> m_abs_ord r1 < 2 ^ 32 \<Longrightarrow>
    flash_run dev crc16 env r (snd (flash_append dev crc16 e rec base synced split r1))"
| run_reset: "flash_run dev crc16 env r r1 \<Longrightarrow> unat (m_next_seq r1) + 1 < 2 ^ 31 \<Longrightarrow>
    flash_run dev crc16 env r (flash_reset_logical r1)"
| run_sync: "flash_run dev crc16 env r r1 \<Longrightarrow> i < length (m_live r1) \<Longrightarrow> \<not> lp_synced (m_live r1 ! i) \<Longrightarrow>
    lp_v2 (m_live r1 ! i) \<Longrightarrow> flash_run dev crc16 env r (snd (flash_seg_sync i off r1))"
| run_fixups: "flash_run dev crc16 env r r1 \<Longrightarrow> flash_run dev crc16 env r (flash_flush_fixups dev crc16 r1)"
| run_power_loss: "flash_run dev crc16 env r r1 \<Longrightarrow> m_live r1 \<noteq> [] \<Longrightarrow>
    \<forall>p \<in> set (m_live r1). \<not> lp_fixup p \<Longrightarrow> unat (m_next_seq r1) < 2 ^ 31 \<Longrightarrow>
    m_flash r0 = m_flash r1 \<Longrightarrow> m_ready r0 \<Longrightarrow>
    flash_run dev crc16 env r (snd (snd (flash_mount dev crc16 env r0)))"

lemma durable_env: "he_sample_size e = he_sample_size env \<Longrightarrow> he_layout e = he_layout env \<Longrightarrow>
    he_interval e = he_interval env \<Longrightarrow> durable dev c crc16 e r = durable dev c crc16 env r"
  by (simp add: durable_def pages_disk_def page_disk_def layout_matches_def)

lemma run_durable:
  assumes laws: "flash_laws dev c"
  shows "flash_run dev crc16 env r r' \<Longrightarrow> durable dev c crc16 env r \<Longrightarrow> durable dev c crc16 env r'"
proof (induction rule: flash_run.induct)
  case (run_append r r1 rec e split base synced)
  then have e: "durable dev c crc16 e r1" using durable_env [of e env dev c crc16 r1] by simp
  obtain res r2 where a: "flash_append dev crc16 e rec base synced split r1 = (res, r2)" by fastforce
  have "durable dev c crc16 e r2"
    by (rule append_durable [OF laws e _ _ _ _ a]) (use run_append in auto)
  then show ?case using a run_append durable_env [of e env dev c crc16 r2] by simp
next
  case (run_reset r r1)
  then show ?case by (intro reset_durable) simp_all
next
  case (run_sync r r1 i off)
  then show ?case by (intro seg_sync_durable) simp_all
next
  case (run_fixups r r1)
  then show ?case by (intro flush_fixups_durable(1) [OF laws]) simp_all
next
  case (run_power_loss r r1 r0)
  then have "snd (snd (flash_mount dev crc16 env r0)) = mounted (he_sample_size env) r1"
    using flash_mount_eq [OF laws, of crc16 env r1 r0] by simp
  then show ?case using run_power_loss mounted_durable [of dev c crc16 env r1] by simp
qed

text \<open>
  C23: Whatever ran before (appends, page changes, evictions, replays, resets, clock syncs, fix-ups and
  earlier power losses), a mount after a power loss brings the stored records back in order, with their bytes, times
  and clock flags and under the same ordinals. Lost are at most the newest records of the head page whose last
  bytes were still staged in RAM: fewer than seven bytes rounded up to records.
\<close>
theorem flash_run_recovers:
  assumes "flash_laws dev c" "durable dev c crc16 env r" "flash_run dev crc16 env r r'"
    "m_live r' \<noteq> []" "\<forall>p \<in> set (m_live r'). \<not> lp_fixup p" "unat (m_next_seq r') < 2 ^ 31"
    "m_flash r0 = m_flash r'" "m_ready r0"
  shows "let sz = he_sample_size env; v = flash_view dev sz iv r'; (found, iv', r'') = flash_mount dev crc16 env r0 in
    durable dev c crc16 env r'' \<and> flash_first_abs r'' = flash_first_abs r' \<and>
    found = (0 < flash_stored r'') \<and> iv' = Some (he_interval env) \<and>
    (\<exists>lost. lost * sz < length (m_stage r') + sz \<and> flash_view dev sz iv r'' = take (length v - lost) v)"
  by (rule power_loss [OF assms(1) run_durable [OF assms(1,3,2)] assms(4-8)])

lemma sim_ring_durable: "0 < he_sample_size env \<Longrightarrow> he_sample_size env \<le> 1757 \<Longrightarrow>
    durable sim_dev id (\<lambda>s bs. 0) env sim_ring"
proof -
  assume "0 < he_sample_size env" "he_sample_size env \<le> 1757"
  moreover have "\<not> hdr_valid (\<lambda>s bs. 0) (page_hdr id (\<lambda>x. 0xFF) p)" for p
  proof -
    have "map (id (\<lambda>x. 0xFF :: u8)) [page_off p..<page_off p + 32] = replicate 32 0xFF"
      by (rule nth_equalityI) simp_all
    moreover have "ph_magic (hdr_parse (replicate 32 0xFF)) = 0xFFFFFFFF" by code_simp
    ultimately show ?thesis by (simp add: page_hdr_def hdr_valid_def PAGE_MAGIC_V1_def PAGE_MAGIC_V2_def del: id_apply)
  qed
  ultimately show ?thesis
    using sim_ring_ok by (simp add: durable_def pages_disk_def head_disk_def sim_ring_def)
qed

lemma sim_run: "flash_run sim_dev (\<lambda>s bs. 0) (sim_env 3) sim_ring sim_one"
  unfolding sim_one_def
  by (rule run_append [OF run_start]) (simp_all add: sim_env_def sim_ring_def)

lemma sim_one_fields: "m_next_seq sim_one = 1" "m_stage sim_one = [1, 2, 3]" "\<not> m_head_full sim_one" "m_head_dw sim_one = 0"
  by (simp_all add: sim_one_def sim_ring_def sim_env_def flash_append_def records_per_page_def page_consts sim_dev_def
    advance_page_def Let_def head_records_def)

lemma flash_run_recovers_witness:
  "\<exists>lost. lost * 3 < 6 \<and> flash_view sim_dev 3 60 (snd (snd (flash_mount sim_dev (\<lambda>s bs. 0) (sim_env 3)
      (sim_ring\<lparr>m_flash := m_flash sim_one\<rparr>)))) = take (1 - lost) (flash_view sim_dev 3 60 sim_one)"
proof -
  let ?r0 = "sim_ring\<lparr>m_flash := m_flash sim_one\<rparr>"
  have e: "he_sample_size (sim_env 3) = 3" by (simp add: sim_env_def)
  have du: "durable sim_dev id (\<lambda>s bs. 0) (sim_env 3) sim_ring" by (rule sim_ring_durable) (simp_all add: e)
  have l: "length (flash_view sim_dev 3 60 sim_one) = 1" using sim_one by (simp add: length_flash_view)
  have "m_live sim_one \<noteq> []" "\<forall>p \<in> set (m_live sim_one). \<not> lp_fixup p" "unat (m_next_seq sim_one) < 2 ^ 31"
    "m_flash ?r0 = m_flash sim_one" "m_ready ?r0"
    by (simp_all add: sim_one_live sim_one_fields sim_ring_def)
  from flash_run_recovers [OF sim_laws du sim_run this, of 60] show ?thesis
    unfolding e Let_def l by (auto simp: sim_one_fields split: prod.splits)
qed

subsection \<open>A refused split\<close>

text \<open>
  C25: The exception of \<open>run_append\<close>: a split closes the head page first, so the zeros that pad its last double
  word are in the flash when the append then fails with \<open>-EBUSY\<close>. When they make up a record, a mount takes
  them for one: it stores more records than the ring did.
\<close>

theorem phantom_record:
  assumes laws: "flash_laws dev c" and du: "durable dev c crc16 env r" and ne: "m_live r \<noteq> []"
    and nofix: "\<forall>p \<in> set (m_live r). \<not> lp_fixup p" and small: "unat (m_next_seq r) < 2 ^ 31"
    and nf: "\<not> m_head_full r" and st: "m_stage r \<noteq> []" "he_sample_size env + length (m_stage r) \<le> 7"
    and room: "head_records r < records_per_page (he_sample_size env)"
    and e: "he_sample_size e = he_sample_size env" "he_replay e"
  shows "\<exists>r1. flash_append dev crc16 e rec base synced True r = (Inl EBUSY, r1) \<and> flash_stored r1 = flash_stored r \<and>
    (\<forall>r0. m_flash r0 = m_flash r1 \<and> m_ready r0 \<longrightarrow>
       flash_stored r < flash_stored (snd (snd (flash_mount dev crc16 env r0))))"
proof -
  let ?sz = "he_sample_size env" and ?h = "last (m_live r)"
  have ok: "flash_ok c ?sz r" and d: "pages_disk dev c crc16 env (m_flash r) (m_live r) (m_next_seq r)"
    and hd: "head_disk c ?sz r" using du by (simp_all add: durable_def)
  have sz: "0 < ?sz" and rdy: "m_ready r" using ok by (simp_all add: flash_ok_def)
  show ?thesis
  proof (rule close_head_ok [OF laws ok ne, where iv = 0])
    fix f' dw'
    let ?r1 = "close_head dev r"
    assume f: "?r1 = r\<lparr>m_flash := f', m_head_dw := dw', m_stage := [], m_head_full := True\<rparr>" "flash_ok c ?sz ?r1"
      "if m_stage r = [] then f' = m_flash r \<and> dw' = m_head_dw r
       else dw' = m_head_dw r + 1 \<and> erased c f' (lp_data ?h + dw' * 8) (lp_data ?h + 2008)"
    have app: "flash_append dev crc16 e rec base synced True r = (Inl EBUSY, ?r1)"
      unfolding flash_append_close using rdy flash_ok_rpp [OF ok] ne nf e by (simp add: opens_page_def f(1) Let_def)
    have v2: "lp_v2 ?h" and n: "m_head_dw r * 7 + length (m_stage r) = head_records r * ?sz"
      using ok ne nf by (simp_all add: flash_ok_def head_ok_def Let_def)
    have "head_scan c ?r1" by (rule head_scan_close [OF laws ok ne head_disk_scan [OF hd] nf])
    then have m: "flash_mount dev crc16 env r0 =
        (lp_first_ord (hd (m_live ?r1)) < m_abs_ord (mounted ?sz ?r1), Some (he_interval env), mounted ?sz ?r1)"
      if "m_flash r0 = m_flash ?r1" "m_ready r0" for r0
      using that nofix small ne by (intro mount_eq [OF laws f(2) close_pages_disk [OF laws ok ne d]]) (simp_all add: f(1))
    have dw: "dw' = m_head_dw r + 1" using f(3) st(1) by simp
    have "(head_records r + 1) * ?sz \<le> dw' * 7" using n st(2) dw by simp
    then have "head_records r + 1 \<le> dw' * 7 div ?sz" using sz by (simp add: less_eq_div_iff_mult_less_eq)
    moreover have "head_records r + 1 \<le> lp_cap ?h div ?sz"
      using room v2 sz by (simp add: records_per_page_def page_consts lp_cap_def)
    ultimately have "head_records r < min (dw' * 7 div ?sz) (lp_cap ?h div ?sz)" by simp
    moreover have "lp_first_ord ?h \<le> m_abs_ord r" using ok ne by (simp add: flash_ok_def sorted_append)
    then have "m_abs_ord r = lp_first_ord ?h + head_records r" using ne by (simp add: head_records_def)
    moreover have "m_abs_ord (mounted ?sz ?r1) = lp_first_ord ?h + min (dw' * 7 div ?sz) (lp_cap ?h div ?sz)"
      by (simp add: mounted_def f(1))
    ultimately have "m_abs_ord r < m_abs_ord (mounted ?sz ?r1)" by linarith
    moreover have "flash_first_abs r \<le> m_abs_ord r" by (rule first_abs_le [OF ok])
    ultimately have "flash_stored r < flash_stored (mounted ?sz ?r1)"
      using ne by (simp add: flash_stored_def flash_first_abs_def f(1) hd_map)
    moreover have "flash_stored ?r1 = flash_stored r" by (simp add: flash_stored_def f(1))
    ultimately show ?thesis using app m by (intro exI [of _ ?r1]) simp
  qed
qed

lemma phantom_record_witness:
  "\<exists>r1. flash_append sim_dev (\<lambda>s bs. 0) ((sim_env 3)\<lparr>he_replay := True\<rparr>) [4, 5, 6] 9000 True True sim_one = (Inl EBUSY, r1) \<and>
    flash_stored r1 = flash_stored sim_one \<and> (\<forall>r0. m_flash r0 = m_flash r1 \<and> m_ready r0 \<longrightarrow>
       flash_stored sim_one < flash_stored (snd (snd (flash_mount sim_dev (\<lambda>s bs. 0) (sim_env 3) r0))))"
proof (rule phantom_record [OF sim_laws])
  have "durable sim_dev id (\<lambda>s bs. 0) (sim_env 3) sim_ring" by (rule sim_ring_durable) (simp_all add: sim_env_def)
  then show "durable sim_dev id (\<lambda>s bs. 0) (sim_env 3) sim_one" by (rule run_durable [OF sim_laws sim_run])
  show "head_records sim_one < records_per_page (he_sample_size (sim_env 3))"
    by (simp add: head_records_def sim_one_live sim_one sim_env_def records_per_page_def page_consts)
qed (simp_all add: sim_one_live sim_one_fields sim_env_def)

end
