(* ===== verification/Slot.thy ===== *)
theory Slot
  imports Prelude
begin

text \<open>
  The report-cadence slot grid, \<open>app/src/app_slot.c\<close>: the grid point nearest to a time
  (\<open>app_slot_round\<close>) and the step that keeps, re-lays or carries over the grid and returns
  the delay to the next report (\<open>app_slot_next\<close>). Times are \<open>uint32_t\<close>; every cast to
  \<open>int32_t\<close> is \<open>sint\<close> of the word, and the value cast back is \<open>word_of_int\<close>.
\<close>

record app_slot =
  anchor :: u32
  interval :: u32
  synced :: bool
  valid :: bool

definition APP_SLOT_TOLERANCE_S :: u32 where
  "APP_SLOT_TOLERANCE_S = 15"

definition floor_div :: "int \<Rightarrow> int \<Rightarrow> int" where
  "floor_div a b =
     (let q = a sdiv b in if a smod b \<noteq> 0 \<and> a < 0 then q - 1 else q)"

text \<open>\<open>interval == 0\<close> is treated as 1, in both functions.\<close>

definition norm_interval :: "u32 \<Rightarrow> u32" where
  "norm_interval i = (if i = 0 then 1 else i)"

definition app_slot_round :: "u32 \<Rightarrow> u32 \<Rightarrow> u32 \<Rightarrow> u32" where
  "app_slot_round anc ivl t =
     (let i = norm_interval ivl;
          d = sint (t - anc);
          half = sint (i div 2);
          k = (if d > 2147483647 - half then floor_div d (sint i) + 1
               else floor_div (d + half) (sint i))
      in anc + word_of_int k * i)"

text \<open>
  The grid the first half of \<open>app_slot_next\<close> leaves: fresh at \<open>now\<close> when there was none or
  the interval changed, else carried over a change of the clock domain.
\<close>

definition slot_grid :: "app_slot \<Rightarrow> u32 \<Rightarrow> u32 \<Rightarrow> bool \<Rightarrow> u32 \<Rightarrow> app_slot" where
  "slot_grid s i now sy uptime =
     (if \<not> valid s \<or> interval s \<noteq> i
      then s\<lparr>valid := True, interval := i, synced := sy, anchor := now\<rparr>
      else if synced s \<noteq> sy
      then s\<lparr>anchor := (if sy then anchor s + (now - uptime) else now), synced := sy\<rparr>
      else s)"

definition slot_tol :: "u32 \<Rightarrow> u32" where
  "slot_tol i = (if i div 2 < APP_SLOT_TOLERANCE_S then i div 2 else APP_SLOT_TOLERANCE_S)"

definition app_slot_next ::
  "app_slot \<Rightarrow> u32 \<Rightarrow> u32 \<Rightarrow> bool \<Rightarrow> u32 \<Rightarrow> bool \<Rightarrow> app_slot \<times> u32 \<times> u32" where
  "app_slot_next s0 ivl now sy uptime periodic =
     (let i = norm_interval ivl;
          s = slot_grid s0 i now sy uptime;
          cur0 = app_slot_round (anchor s) i now;
          tol = slot_tol i;
          off = sint (now - cur0);
          relay = periodic \<and> (off > sint tol \<or> off < - sint tol);
          s' = (if relay then s\<lparr>anchor := now\<rparr> else s);
          cur = (if relay then now else cur0);
          nxt = (if periodic then cur + i
                 else if sint (cur - now) > 0 then cur else cur + i);
          delay = sint (nxt - now)
      in (s', cur, if delay > 0 then nxt - now else 1))"

subsection \<open>Floor division and rounding to the grid\<close>

lemma floor_div_eq: "0 < b \<Longrightarrow> floor_div a b = a div b"
proof -
  assume b: "0 < b"
  show ?thesis
  proof (cases "a < 0")
    case False
    with b show ?thesis by (simp add: floor_div_def Let_def sdiv_pos)
  next
    case True
    have "a smod b = - ((- a) mod b)"
      using b True by (simp add: signed_modulo_int_def sdiv_neg minus_div_mult_eq_mod [symmetric] algebra_simps)
    moreover have "b \<noteq> a mod b" using pos_mod_bound [OF b, of a] by linarith
    ultimately show ?thesis
      using b True
      by (simp add: floor_div_def Let_def sdiv_neg zdiv_zminus1_eq_if zmod_zminus1_eq_if)
  qed
qed

text \<open>The nearest grid point, ties up: the remainder lies in \<open>[-\<lfloor>i/2\<rfloor>, i - \<lfloor>i/2\<rfloor>)\<close>.\<close>

lemma round_div_bounds:
  assumes "0 < (i::int)"
  shows "- (i div 2) \<le> d - ((d + i div 2) div i) * i"
    and "d - ((d + i div 2) div i) * i < i - i div 2"
proof -
  have *: "(d + i div 2) - ((d + i div 2) div i) * i = (d + i div 2) mod i"
    by (simp add: minus_div_mult_eq_mod)
  have "0 \<le> (d + i div 2) mod i" "(d + i div 2) mod i < i"
    using assms by simp_all
  with * show "- (i div 2) \<le> d - ((d + i div 2) div i) * i"
    "d - ((d + i div 2) div i) * i < i - i div 2" by linarith+
qed

text \<open>
  The intervals and distances the grid is meant for: a positive \<open>int32_t\<close> interval, and a time
  whose signed distance from the anchor leaves room to add half an interval.
\<close>

definition slot_dom :: "u32 \<Rightarrow> u32 \<Rightarrow> u32 \<Rightarrow> bool" where
  "slot_dom anc i t \<longleftrightarrow> 0 < uint i \<and> uint i < 2147483648 \<and>
     sint (t - anc) \<le> 2147483647 - uint i div 2"

lemma norm_interval_pos [simp]: "0 < uint i \<Longrightarrow> norm_interval i = i"
  by (auto simp: norm_interval_def)

lemma sint_half: "sint ((i::u32) div 2) = uint i div 2"
proof -
  have "uint (i div 2) = uint i div 2" by (simp add: uint_div)
  moreover have "uint i div 2 < 2147483648" using uint_bounded [of i] by simp
  ultimately show ?thesis by (simp add: uint_eq_sint_small)
qed

lemma app_slot_round_eq:
  assumes "slot_dom anc i t"
  shows "app_slot_round anc i t =
    anc + word_of_int ((sint (t - anc) + uint i div 2) div uint i) * i"
  using assms
  by (simp add: slot_dom_def app_slot_round_def Let_def sint_half uint_eq_sint_small floor_div_eq)

lemma slot_round_offset:
  assumes "slot_dom anc i t"
  shows "sint (t - app_slot_round anc i t) =
    sint (t - anc) - ((sint (t - anc) + uint i div 2) div uint i) * uint i"
proof -
  define d where "d = sint (t - anc)"
  define k where "k = (d + uint i div 2) div uint i"
  have i: "0 < uint i" "uint i < 2147483648" using assms by (simp_all add: slot_dom_def)
  have b: "- (uint i div 2) \<le> d - k * uint i" "d - k * uint i < uint i - uint i div 2"
    unfolding k_def by (rule round_div_bounds [OF i(1)])+
  have "t - anc = word_of_int d" by (simp add: d_def)
  then have t: "t = anc + word_of_int d" by (simp add: algebra_simps)
  have "t - (anc + word_of_int k * i) = word_of_int (d - k * uint i)"
    by (simp add: t wi_hom_syms algebra_simps)
  moreover have "sint (word_of_int (d - k * uint i) :: u32) = d - k * uint i"
    by (rule sint_of_int_small) (use b i in \<open>simp_all add: div_le_dividend\<close>)
  ultimately show ?thesis
    using app_slot_round_eq [OF assms] by (simp add: d_def k_def diff_diff_eq)
qed

subsection \<open>Properties of the grid\<close>

text \<open>\<open>app_slot_round\<close> returns a point \<open>anchor + k * interval\<close> of the grid, and no grid
  point is nearer: the signed distance from it to \<open>t\<close> lies in
  \<open>[- (interval / 2), interval - interval / 2)\<close>, ties rounding up.\<close>

theorem app_slot_round_nearest:
  assumes "slot_dom anc i t"
  shows "(\<exists>k. app_slot_round anc i t = anc + word_of_int k * i) \<and>
    - (uint i div 2) \<le> sint (t - app_slot_round anc i t) \<and>
    sint (t - app_slot_round anc i t) < uint i - uint i div 2"
proof -
  have "0 < uint i" using assms by (simp add: slot_dom_def)
  from round_div_bounds [OF this, of "sint (t - anc)"]
  have "- (uint i div 2) \<le> sint (t - app_slot_round anc i t)"
    "sint (t - app_slot_round anc i t) < uint i - uint i div 2"
    unfolding slot_round_offset [OF assms] by blast+
  with app_slot_round_eq [OF assms] show ?thesis by blast
qed

theorem app_slot_round_nearest_witness:
  "(\<exists>k. app_slot_round 1000 60 1130 = 1000 + word_of_int k * (60 :: u32)) \<and>
    - (uint (60 :: u32) div 2) \<le> sint (1130 - app_slot_round 1000 60 1130) \<and>
    sint (1130 - app_slot_round 1000 60 1130) < uint (60 :: u32) - uint (60 :: u32) div 2"
  by (rule app_slot_round_nearest) (simp add: slot_dom_def)

text \<open>A time \<open>e\<close> seconds off slot \<open>m\<close>, less than half an interval, rounds to slot \<open>m\<close>.\<close>

lemma div_near:
  assumes "0 < (i::int)" "- (i div 2) \<le> e" "2 * e < i"
  shows "(m * i + e + i div 2) div i = m"
proof -
  have "(e + i div 2 + m * i) div i = m + (e + i div 2) div i"
    using assms(1) by simp
  moreover have "(e + i div 2) div i = 0"
    by (rule div_pos_pos_trivial) (use assms in linarith)+
  ultimately show ?thesis by (simp add: algebra_simps)
qed

lemma app_slot_round_near:
  assumes i: "0 < uint i" "uint i < 2147483648"
    and e: "- (uint i div 2) \<le> e" "2 * e < uint i"
    and m: "- 2147483648 \<le> m * uint i + e" "m * uint i + e + uint i div 2 \<le> 2147483647"
  shows "app_slot_round anc i (anc + word_of_int m * i + word_of_int e) = anc + word_of_int m * i"
proof -
  let ?t = "anc + word_of_int m * i + word_of_int e"
  have "?t - anc = word_of_int (m * uint i + e)" by (simp add: wi_hom_syms)
  moreover have "sint (word_of_int (m * uint i + e) :: u32) = m * uint i + e"
    using m i uint_ge_0 [of i] by (intro sint_of_int_small) auto
  ultimately have d: "sint (?t - anc) = m * uint i + e" by simp
  have "slot_dom anc i ?t"
    unfolding slot_dom_def d using i m by linarith
  from app_slot_round_eq [OF this] d show ?thesis
    using div_near [OF i(1) e, of m] by simp
qed

lemma sint_slot_tol: "sint (slot_tol i) = min (uint i div 2) 15"
proof -
  have "i div 2 < 15 \<longleftrightarrow> uint i div 2 < 15" by (simp add: word_less_def uint_div)
  then show ?thesis
    by (simp add: slot_tol_def APP_SLOT_TOLERANCE_S_def sint_half)
qed

text \<open>The lateness a cadence run may have: within the tolerance, and nearer to its own slot.\<close>

definition on_time :: "u32 \<Rightarrow> int \<Rightarrow> bool" where
  "on_time i e \<longleftrightarrow> \<bar>e\<bar> \<le> min (uint i div 2) 15 \<and> 2 * e < uint i"

definition grid_state :: "app_slot \<Rightarrow> u32 \<Rightarrow> bool \<Rightarrow> bool" where
  "grid_state s i sy \<longleftrightarrow> valid s \<and> interval s = i \<and> synced s = sy \<and>
     0 < uint i \<and> uint i \<le> 1073741824"

lemma periodic_on_slot:
  assumes g: "grid_state s i sy" and e: "on_time i e"
    and m: "0 \<le> m" "(m + 1) * uint i \<le> 2147483647"
  shows "app_slot_next s i (anchor s + word_of_int m * i + word_of_int e) sy up True =
    (s, anchor s + word_of_int m * i, i - word_of_int e)"
proof -
  let ?now = "anchor s + word_of_int m * i + word_of_int e"
  let ?cur = "anchor s + word_of_int m * i"
  have i: "0 < uint i" "uint i < 2147483648" "uint i \<le> 1073741824"
    using g by (simp_all add: grid_state_def)
  have e': "- (uint i div 2) \<le> e" "2 * e < uint i" "\<bar>e\<bar> \<le> 15"
    using e by (auto simp: on_time_def)
  have mi: "0 \<le> m * uint i" "m * uint i + uint i \<le> 2147483647"
    using m i by (simp_all add: algebra_simps)
  have "app_slot_round (anchor s) i ?now = ?cur"
    by (rule app_slot_round_near) (use i e' mi in linarith)+
  moreover have off: "sint (?now - ?cur) = e"
    using e' by (simp add: sint_of_int_small)
  moreover have "sint (?cur + i - ?now) = uint i - e"
  proof -
    have "?cur + i - ?now = word_of_int (uint i - e)" by (simp add: wi_hom_syms)
    moreover have "sint (word_of_int (uint i - e) :: u32) = uint i - e"
      by (rule sint_of_int_small) (use i e' in auto)
    ultimately show ?thesis by simp
  qed
  moreover have "slot_grid s i ?now sy up = s"
    using g by (simp add: slot_grid_def grid_state_def)
  moreover have "\<not> (e > sint (slot_tol i) \<or> e < - sint (slot_tol i))"
    using e by (auto simp: sint_slot_tol on_time_def)
  moreover have "0 < uint i - e" using e' by linarith
  ultimately show ?thesis
    using i by (simp add: app_slot_next_def Let_def)
qed

fun slot_cadence :: "app_slot \<Rightarrow> u32 \<Rightarrow> bool \<Rightarrow> u32 \<Rightarrow> u32 list \<Rightarrow> app_slot \<times> u32 list" where
  "slot_cadence s i sy up [] = (s, [])"
| "slot_cadence s i sy up (t # ts) =
     (let (s', cur, _) = app_slot_next s i t sy up True;
          (s'', curs) = slot_cadence s' i sy up ts
      in (s'', cur # curs))"

text \<open>The times of consecutive cadence runs, the \<open>j\<close>-th one \<open>e\<close> seconds off slot \<open>m + j\<close>.\<close>

fun wake_times :: "u32 \<Rightarrow> u32 \<Rightarrow> int \<Rightarrow> int list \<Rightarrow> u32 list" where
  "wake_times anc i m [] = []"
| "wake_times anc i m (e # es) =
     (anc + word_of_int m * i + word_of_int e) # wake_times anc i (m + 1) es"

lemma slot_cadence_from:
  assumes "grid_state s i sy" "list_all (on_time i) es"
    and "0 \<le> m" "(m + int (length es)) * uint i \<le> 2147483647"
  shows "slot_cadence s i sy up (wake_times (anchor s) i m es) =
    (s, map (\<lambda>j. anchor s + word_of_int (m + int j) * i) [0..<length es])"
  using assms
proof (induction es arbitrary: m)
  case Nil
  then show ?case by simp
next
  case (Cons e es)
  have i: "0 < uint i" using Cons.prems(1) by (simp add: grid_state_def)
  have b: "(m + 1 + int (length es)) * uint i \<le> 2147483647"
    using Cons.prems(4) by (simp add: algebra_simps)
  have "(m + 1) * uint i \<le> (m + 1 + int (length es)) * uint i"
    using i by (intro mult_right_mono) simp_all
  with b have "(m + 1) * uint i \<le> 2147483647" by linarith
  with Cons.prems have step:
    "app_slot_next s i (anchor s + word_of_int m * i + word_of_int e) sy up True =
      (s, anchor s + word_of_int m * i, i - word_of_int e)"
    by (intro periodic_on_slot) simp_all
  have IH: "slot_cadence s i sy up (wake_times (anchor s) i (m + 1) es) =
    (s, map (\<lambda>j. anchor s + word_of_int (m + 1 + int j) * i) [0..<length es])"
    using Cons.prems b by (intro Cons.IH) simp_all
  show ?case
    using step IH
    by (simp add: map_upt_Suc add.assoc del: upt_Suc)
qed



lemma sint_uminus_bounded: "\<bar>sint (w :: u32)\<bar> < 2147483648 \<Longrightarrow> sint (- w) = - sint w"
proof -
  assume a: "\<bar>sint w\<bar> < 2147483648"
  have "- w = word_of_int (- sint w)" by (simp add: wi_hom_neg)
  moreover have "sint (word_of_int (- sint w) :: u32) = - sint w"
    by (rule sint_of_int_small) (use a in auto)
  ultimately show ?thesis by simp
qed

text \<open>armed from outside the cadence, the timer is set to a point of the grid, after now and
  at most one interval away.\<close>

theorem app_slot_next_arms_next_slot:
  assumes "grid_state s i sy" "slot_dom (anchor s) i now"
  shows "\<exists>k delay. app_slot_next s i now sy up False =
      (s, app_slot_round (anchor s) i now, delay) \<and>
    now + delay = anchor s + word_of_int k * i \<and> 0 < uint delay \<and> uint delay \<le> uint i"
proof -
  define r where "r = app_slot_round (anchor s) i now"
  define off where "off = sint (now - r)"
  obtain k where k: "r = anchor s + word_of_int k * i"
    and o: "- (uint i div 2) \<le> off" "off < uint i - uint i div 2"
    using app_slot_round_nearest [OF assms(2)] unfolding r_def off_def by blast
  have i: "0 < uint i" "uint i \<le> 1073741824" using assms(1) by (simp_all add: grid_state_def)
  have w: "now - r = word_of_int off" by (simp add: off_def)
  have sr: "sint (r - now) = - off"
    using sint_uminus_bounded [of "now - r"] o i by (simp add: off_def)
  have g: "slot_grid s i now sy up = s"
    using assms(1) by (simp add: slot_grid_def grid_state_def)
  show ?thesis
  proof (cases "off < 0")
    case True
    have d: "uint (r - now) = - off"
      using uint_eq_sint_nonneg [of "r - now"] sr True by simp
    have "app_slot_next s i now sy up False = (s, r, r - now)"
      using True sr g i by (simp add: app_slot_next_def Let_def r_def)
    moreover have "now + (r - now) = anchor s + word_of_int k * i" using k by simp
    ultimately show ?thesis using d True o i unfolding r_def
      by (intro exI [of _ k] exI [of _ "r - now"]) (auto simp: r_def)
  next
    case False
    have "off < uint i" using o i by linarith
    have n: "r + i - now = word_of_int (uint i - off)"
      using w by (simp add: wi_hom_syms) (simp add: algebra_simps off_def)
    have sn: "sint (r + i - now) = uint i - off"
      unfolding n by (rule sint_of_int_small) (use False o i in auto)
    have un: "uint (r + i - now) = uint i - off"
      unfolding n by (rule uint_of_int_small) (use False o i in auto)
    have "app_slot_next s i now sy up False = (s, r, r + i - now)"
      using False sr sn g i o \<open>off < uint i\<close> by (simp add: app_slot_next_def Let_def r_def)
    moreover have "now + (r + i - now) = anchor s + word_of_int (k + 1) * i"
      using k by (simp add: algebra_simps)
    ultimately show ?thesis using un False o i unfolding r_def
      by (intro exI [of _ "k + 1"] exI [of _ "r + i - now"]) (auto simp: r_def)
  qed
qed

theorem app_slot_next_arms_next_slot_witness:
  "\<exists>k delay. app_slot_next \<lparr>anchor = 1000, interval = 900, synced = True, valid = True\<rparr>
      900 2000 True 0 False =
      (\<lparr>anchor = 1000, interval = 900, synced = True, valid = True\<rparr>,
       app_slot_round 1000 900 2000, delay) \<and>
    2000 + delay = 1000 + word_of_int k * 900 \<and> 0 < uint delay \<and> uint delay \<le> uint (900::u32)"
  using app_slot_next_arms_next_slot
    [of "\<lparr>anchor = 1000, interval = 900, synced = True, valid = True\<rparr>" 900 True 2000 0]
  by (simp add: grid_state_def slot_dom_def del: uint_word_ariths)

end
