(* ===== verification/Ccm.thy ===== *)
theory Ccm
  imports Prelude
begin

text \<open>
  AES-128 CCM and CMAC of the encrypted channels, \<open>app/src/app_ccm.c\<close>. The forward block
  cipher (the STM32WL AES peripheral, or the LoRaMac AES) is the parameter \<open>E\<close> of every
  definition here, \<open>E key block\<close>; what the code relies on of it is that it returns a block of
  16 bytes (\<open>block_cipher E\<close>). The length arguments of the C functions are the lengths of the
  byte lists; the mutex around each call has no effect on the result and is left out.
\<close>

type_synonym cipher = "bytes \<Rightarrow> bytes \<Rightarrow> bytes"

definition AES_BLOCK :: nat where
  "AES_BLOCK = 16"

definition block_cipher :: "cipher \<Rightarrow> bool" where
  "block_cipher E \<longleftrightarrow> (\<forall>k b. length (E k b) = 16)"

definition xor16 :: "bytes \<Rightarrow> bytes \<Rightarrow> bytes" where
  "xor16 dst src = map2 (\<lambda>a b. a XOR b) dst src"

text \<open>\<open>memset\<close> to zero, then \<open>memcpy\<close> at the front: a block zero-padded to 16 bytes.\<close>

definition pad_block :: "bytes \<Rightarrow> bytes" where
  "pad_block b = take 16 (b @ replicate 16 0)"

definition cbc_step :: "cipher \<Rightarrow> bytes \<Rightarrow> bytes \<Rightarrow> bytes \<Rightarrow> bytes" where
  "cbc_step E key x block = E key (xor16 x block)"

text \<open>
  The AAD region: the code fills a block byte by byte, from \<open>[len(2, BE)]\<close>, steps the MAC
  when it is full and once more for a partial tail. \<open>blk\<close> holds the \<open>bl\<close> bytes filled so far.
\<close>

fun cbc_aad :: "cipher \<Rightarrow> bytes \<Rightarrow> bytes \<Rightarrow> bytes \<Rightarrow> bytes \<Rightarrow> bytes" where
  "cbc_aad E key x blk [] =
     (if length blk \<noteq> 0 then cbc_step E key x (pad_block blk) else x)"
| "cbc_aad E key x blk (a # as) =
     (let blk' = blk @ [a] in
      if length blk' = AES_BLOCK then cbc_aad E key (cbc_step E key x blk') [] as
      else cbc_aad E key x blk' as)"

text \<open>The message region: whole blocks, then a zero-padded tail.\<close>

function cbc_msg :: "cipher \<Rightarrow> bytes \<Rightarrow> bytes \<Rightarrow> bytes \<Rightarrow> bytes" where
  "cbc_msg E key x msg =
     (if 16 \<le> length msg then cbc_msg E key (cbc_step E key x (take 16 msg)) (drop 16 msg)
      else if msg \<noteq> [] then cbc_step E key x (pad_block msg)
      else x)"
  by pat_completeness auto
termination
  by (relation "measure (\<lambda>(E, key, x, msg). length msg)") auto

declare cbc_msg.simps [simp del]

definition cbc_mac :: "cipher \<Rightarrow> bytes \<Rightarrow> bytes \<Rightarrow> bytes \<Rightarrow> bytes \<Rightarrow> bytes" where
  "cbc_mac E key x aad msg =
     cbc_msg E key
       (cbc_aad E key x
         [word_of_nat (length aad div 256), word_of_nat (length aad)] aad) msg"

text \<open>
  The counter block: the flags byte, the nonce, and the low bytes of the 32-bit counter
  written big-endian into the last \<open>min L 4\<close> bytes, \<open>L = 15 - nonce_len\<close>. \<open>be_tail\<close> lists
  those bytes from the left; bytes of \<open>L\<close> beyond the fourth stay 0.
\<close>

definition be_tail :: "nat \<Rightarrow> u32 \<Rightarrow> bytes" where
  "be_tail L c = replicate (L - 4) 0 @ map (\<lambda>i. ucast (drop_bit (8 * i) c)) (rev [0..<min L 4])"

definition ctr_keystream :: "cipher \<Rightarrow> bytes \<Rightarrow> bytes \<Rightarrow> u32 \<Rightarrow> bytes" where
  "ctr_keystream E key nonce counter =
     (let L = 15 - length nonce
      in E key ([word_of_nat (L - 1)] @ nonce @ be_tail L counter))"

function ctr_from :: "cipher \<Rightarrow> bytes \<Rightarrow> bytes \<Rightarrow> u32 \<Rightarrow> bytes \<Rightarrow> bytes" where
  "ctr_from E key nonce counter inp =
     (if inp = [] then []
      else map2 (\<lambda>a b. a XOR b) (take 16 inp) (ctr_keystream E key nonce counter)
             @ ctr_from E key nonce (counter + 1) (drop 16 inp))"
  by pat_completeness auto
termination
  by (relation "measure (\<lambda>(E, key, nonce, counter, inp). length inp)") auto

declare ctr_from.simps [simp del]

definition ctr_crypt :: "cipher \<Rightarrow> bytes \<Rightarrow> bytes \<Rightarrow> bytes \<Rightarrow> bytes" where
  "ctr_crypt E key nonce inp = ctr_from E key nonce 1 inp"

definition ccm_tag :: "cipher \<Rightarrow> bytes \<Rightarrow> bytes \<Rightarrow> bytes \<Rightarrow> bytes \<Rightarrow> nat \<Rightarrow> bytes" where
  "ccm_tag E key nonce aad msg tag_len =
     (let L = 15 - length nonce;
          flags = word_of_nat ((0x40 :: nat) OR push_bit 3 ((tag_len - 2) div 2) OR (L - 1));
          b0 = [flags] @ nonce @ be_tail L (word_of_nat (length msg));
          x = cbc_mac E key (E key b0) aad msg;
          s0 = ctr_keystream E key nonce 0
      in take tag_len (map2 (\<lambda>a b. a XOR b) x s0))"

definition params_ok :: "nat \<Rightarrow> nat \<Rightarrow> nat \<Rightarrow> bool" where
  "params_ok nonce_len aad_len tag_len \<longleftrightarrow>
     nonce_len \<ge> 7 \<and> nonce_len \<le> 13 \<and> aad_len \<ge> 1 \<and> aad_len \<le> 0xFEFF \<and>
     tag_len \<ge> 4 \<and> tag_len \<le> 16 \<and> tag_len mod 2 = 0"

text \<open>Result of the encryption: the ciphertext and the tag.\<close>

definition app_ccm_encrypt_and_tag ::
  "cipher \<Rightarrow> bytes \<Rightarrow> bytes \<Rightarrow> bytes \<Rightarrow> bytes \<Rightarrow> nat \<Rightarrow> (bytes \<times> bytes) res" where
  "app_ccm_encrypt_and_tag E key nonce aad pt tag_len =
     (if \<not> params_ok (length nonce) (length aad) tag_len then Inl EINVAL
      else Inr (ctr_crypt E key nonce pt, ccm_tag E key nonce aad pt tag_len))"

text \<open>The constant-time compare: the OR of all byte differences.\<close>

definition tag_diff :: "bytes \<Rightarrow> bytes \<Rightarrow> u8" where
  "tag_diff expected tag = foldl (\<lambda>d (e, t). d OR (e XOR t)) 0 (zip expected tag)"

text \<open>
  The decryption returns its \<open>errno\<close> (\<open>None\<close> is 0) and what is left in the caller's plaintext
  buffer \<open>pt0\<close>: untouched on a parameter error, zeroed on a tag mismatch.
\<close>

definition app_ccm_auth_decrypt ::
  "cipher \<Rightarrow> bytes \<Rightarrow> bytes \<Rightarrow> bytes \<Rightarrow> bytes \<Rightarrow> bytes \<Rightarrow> bytes \<Rightarrow> errno option \<times> bytes" where
  "app_ccm_auth_decrypt E key nonce aad ct tag pt0 =
     (if \<not> params_ok (length nonce) (length aad) (length tag) then (Some EINVAL, pt0)
      else let pt = ctr_crypt E key nonce ct;
               expected = ccm_tag E key nonce aad pt (length tag)
           in if tag_diff expected tag \<noteq> 0 then (Some EBADMSG, replicate (length ct) 0)
              else (None, pt))"

subsection \<open>CMAC\<close>

definition double_gf128 :: "bytes \<Rightarrow> bytes" where
  "double_gf128 v =
     (let msb = v ! 0 AND 0x80;
          sh = map (\<lambda>i. push_bit 1 (v ! i) OR drop_bit 7 (v ! (i + 1))) [0..<15];
          l = push_bit 1 (v ! 15)
      in sh @ [if msb \<noteq> 0 then l XOR 0x87 else l])"

fun cbc_blocks :: "cipher \<Rightarrow> bytes \<Rightarrow> bytes \<Rightarrow> bytes \<Rightarrow> nat \<Rightarrow> bytes" where
  "cbc_blocks E key x msg 0 = x"
| "cbc_blocks E key x msg (Suc n) =
     cbc_blocks E key (cbc_step E key x (take 16 msg)) (drop 16 msg) n"

definition app_ccm_cmac :: "cipher \<Rightarrow> bytes \<Rightarrow> bytes \<Rightarrow> bytes" where
  "app_ccm_cmac E key msg =
     (let n0 = (length msg + 15) div 16;
          last_full = (length msg \<noteq> 0 \<and> length msg mod 16 = 0);
          n_blocks = (if n0 = 0 then 1 else n0);
          k1 = double_gf128 (E key (replicate 16 0));
          k2 = double_gf128 k1;
          x = cbc_blocks E key (replicate 16 0) msg (n_blocks - 1);
          tail = drop ((n_blocks - 1) * 16) msg;
          block = (if last_full then xor16 tail k1
                   else xor16 (pad_block (tail @ [0x80])) k2)
      in cbc_step E key x block)"

definition app_ccm_ecb_encrypt_block :: "cipher \<Rightarrow> bytes \<Rightarrow> bytes \<Rightarrow> bytes" where
  "app_ccm_ecb_encrypt_block E key inp = E key inp"

subsection \<open>The keystream is an involution\<close>

lemma block_cipherD [simp]: "block_cipher E \<Longrightarrow> length (E k b) = 16"
  by (simp add: block_cipher_def)

lemma length_ctr_keystream [simp]: "block_cipher E \<Longrightarrow> length (ctr_keystream E key nonce c) = 16"
  by (simp add: ctr_keystream_def Let_def)

lemma xor_xor_map2:
  "length (ks :: bytes) \<ge> length xs \<Longrightarrow>
    map2 (\<lambda>a b. a XOR b) (map2 (\<lambda>a b. a XOR b) xs ks) ks = xs"
proof (induction xs arbitrary: ks)
  case Nil
  then show ?case by simp
next
  case (Cons x xs)
  then obtain k ks' where "ks = k # ks'" by (cases ks) auto
  with Cons show ?case by (simp add: xor.assoc)
qed

lemma length_ctr_from [simp]:
  "block_cipher E \<Longrightarrow> length (ctr_from E key nonce c inp) = length inp"
proof (induction E key nonce c inp rule: ctr_from.induct)
  case (1 E key nonce c inp)
  then show ?case by (subst ctr_from.simps) auto
qed

lemma ctr_from_involution:
  "block_cipher E \<Longrightarrow> ctr_from E key nonce c (ctr_from E key nonce c inp) = inp"
proof (induction E key nonce c inp rule: ctr_from.induct)
  case (1 E key nonce c inp)
  show ?case
  proof (cases "inp = []")
    case True
    then show ?thesis by (simp add: ctr_from.simps)
  next
    case False
    let ?ks = "ctr_keystream E key nonce c"
    let ?h = "map2 (\<lambda>a b. a XOR b) (take 16 inp) ?ks"
    let ?t = "ctr_from E key nonce (c + 1) (drop 16 inp)"
    have e: "ctr_from E key nonce c inp = ?h @ ?t"
      using False by (subst ctr_from.simps) simp
    have lh: "length ?h = min 16 (length inp)" using "1.prems" by simp
    have th: "take 16 (?h @ ?t) = ?h"
    proof (cases "16 \<le> length inp")
      case True
      then show ?thesis using lh by simp
    next
      case False
      then have "?t = []" using "1.prems" by (metis drop_all length_0_conv length_ctr_from nat_le_linear list.size(3))
      then show ?thesis using lh by simp
    qed
    then have dt: "drop 16 (?h @ ?t) = ?t"
      using lh "1.prems" by (metis append_eq_conv_conj append_take_drop_id same_append_eq)
    have "length ?h \<noteq> 0" unfolding lh using False by simp
    then have "?h @ ?t \<noteq> []" by (metis append_is_Nil_conv list.size(3))
    then have "ctr_from E key nonce c (?h @ ?t) =
        map2 (\<lambda>a b. a XOR b) ?h ?ks @ ctr_from E key nonce (c + 1) ?t"
      by (subst ctr_from.simps) (simp only: th dt if_False)
    also have "\<dots> = take 16 inp @ drop 16 inp"
      using "1.IH" False "1.prems" by (simp add: xor_xor_map2)
    finally show ?thesis using e by simp
  qed
qed

lemma ctr_crypt_involution [simp]:
  "block_cipher E \<Longrightarrow> ctr_crypt E key nonce (ctr_crypt E key nonce inp) = inp"
  by (simp add: ctr_crypt_def ctr_from_involution)

lemma length_ctr_crypt [simp]:
  "block_cipher E \<Longrightarrow> length (ctr_crypt E key nonce inp) = length inp"
  by (simp add: ctr_crypt_def)

subsection \<open>The tag\<close>

lemma foldl_or_zero:
  "foldl (\<lambda>d (e, t). d OR (e XOR t)) (d0 :: u8) ps = 0 \<longleftrightarrow>
    d0 = 0 \<and> (\<forall>(e, t) \<in> set ps. e = t)"
proof (induction ps arbitrary: d0)
  case Nil
  then show ?case by simp
next
  case (Cons p ps)
  obtain e t where p: "p = (e, t)" by (cases p)
  have "(d0 OR (e XOR t) = 0) = (d0 = 0 \<and> e = t)"
    by (simp add: or_zero_iff xor_zero_iff)
  with Cons show ?case by (auto simp: p)
qed

lemma tag_diff_zero:
  "length e = length t \<Longrightarrow> tag_diff e t = 0 \<longleftrightarrow> e = t"
  by (auto simp: tag_diff_def foldl_or_zero list_eq_iff_zip_eq)

subsection \<open>CBC-MAC as a fold over formatted blocks\<close>

text \<open>
  The reference: split a byte string into 16-byte blocks, the last one zero-padded
  (RFC 3610, section 2.2), and fold the CBC step over them.
\<close>

function blocks16 :: "bytes \<Rightarrow> bytes list" where
  "blocks16 xs = (if xs = [] then [] else pad_block (take 16 xs) # blocks16 (drop 16 xs))"
  by pat_completeness auto
termination
  by (relation "measure length") auto

declare blocks16.simps [simp del]

lemma blocks16_Nil [simp]: "blocks16 [] = []"
  by (simp add: blocks16.simps)

lemma pad_block_full [simp]: "length b = 16 \<Longrightarrow> pad_block b = b"
  by (simp add: pad_block_def)

lemma pad_block_take [simp]: "pad_block (take 16 xs) = pad_block xs"
  by (cases "16 \<le> length xs") (simp_all add: pad_block_def)

lemma blocks16_full:
  "length b = 16 \<Longrightarrow> blocks16 (b @ xs) = b # blocks16 xs"
  by (subst blocks16.simps) auto

lemma blocks16_tail:
  "xs \<noteq> [] \<Longrightarrow> length xs \<le> 16 \<Longrightarrow> blocks16 xs = [pad_block xs]"
  by (subst blocks16.simps) simp

lemma cbc_msg_blocks: "cbc_msg E key x msg = foldl (cbc_step E key) x (blocks16 msg)"
proof (induction E key x msg rule: cbc_msg.induct)
  case (1 E key x msg)
  consider "msg = []" | "msg \<noteq> []" "length msg < 16" | "16 \<le> length msg" by fastforce
  then show ?case
  proof cases
    case 1
    then show ?thesis by (simp add: cbc_msg.simps)
  next
    case 2
    then show ?thesis by (simp add: cbc_msg.simps blocks16_tail)
  next
    case 3
    then have "blocks16 msg = take 16 msg # blocks16 (drop 16 msg)"
      using blocks16_full [of "take 16 msg" "drop 16 msg"] by simp
    with 3 "1.IH" show ?thesis by (simp add: cbc_msg.simps [of E key x msg])
  qed
qed

lemma cbc_aad_blocks:
  "length blk < 16 \<Longrightarrow> cbc_aad E key x blk as = foldl (cbc_step E key) x (blocks16 (blk @ as))"
proof (induction E key x blk as rule: cbc_aad.induct)
  case (1 E key x blk)
  then show ?case by (cases "blk = []") (simp_all add: blocks16_tail)
next
  case (2 E key x blk a as)
  show ?case
  proof (cases "length (blk @ [a]) = AES_BLOCK")
    case True
    then have "blocks16 (blk @ a # as) = (blk @ [a]) # blocks16 as"
      using blocks16_full [of "blk @ [a]" as] by (simp add: AES_BLOCK_def)
    with True "2.IH"(1) [OF refl] show ?thesis by (simp add: Let_def)
  next
    case False
    with "2.prems" have "length (blk @ [a]) < 16" by (simp add: AES_BLOCK_def)
    with False "2.IH"(2) [OF refl] show ?thesis by (simp add: Let_def)
  qed
qed

lemma length_cbc_step [simp]: "block_cipher E \<Longrightarrow> length (cbc_step E key x b) = 16"
  by (simp add: cbc_step_def)

lemma length_foldl_cbc:
  "block_cipher E \<Longrightarrow> length x = 16 \<Longrightarrow> length (foldl (cbc_step E key) x bs) = 16"
  by (induction bs arbitrary: x) simp_all

text \<open>the byte-wise CBC-MAC of the code is the fold of the CBC step over the RFC 3610
  blocks: the two-byte big-endian AAD length and the AAD, zero-padded, then the message,
  zero-padded.\<close>

theorem cbc_mac_rfc3610:
  "cbc_mac E key x aad msg =
    foldl (cbc_step E key) x
      (blocks16 ([word_of_nat (length aad div 256), word_of_nat (length aad)] @ aad)
       @ blocks16 msg)"
  by (simp add: cbc_mac_def cbc_msg_blocks cbc_aad_blocks)

lemma length_ccm_tag [simp]:
  "block_cipher E \<Longrightarrow> tlen \<le> 16 \<Longrightarrow> length (ccm_tag E key nonce aad msg tlen) = tlen"
  by (simp add: ccm_tag_def Let_def cbc_mac_rfc3610 length_foldl_cbc)

lemma auth_decrypt_eq:
  assumes "block_cipher E" "params_ok (length nonce) (length aad) (length tag)"
  shows "app_ccm_auth_decrypt E key nonce aad ct tag pt0 =
    (if tag = ccm_tag E key nonce aad (ctr_crypt E key nonce ct) (length tag)
     then (None, ctr_crypt E key nonce ct)
     else (Some EBADMSG, replicate (length ct) 0))"
proof -
  have "length tag \<le> 16" using assms(2) by (simp add: params_ok_def)
  with assms(1) have "length (ccm_tag E key nonce aad (ctr_crypt E key nonce ct) (length tag)) = length tag"
    by simp
  then show ?thesis
    using assms(2) by (auto simp: app_ccm_auth_decrypt_def Let_def tag_diff_zero)
qed

text \<open>C2: what \<open>app_ccm_encrypt_and_tag\<close> produced, \<open>app_ccm_auth_decrypt\<close> accepts under the same
  key, nonce and AAD, and returns the plaintext.\<close>

theorem ccm_roundtrip:
  assumes "block_cipher E"
    and "app_ccm_encrypt_and_tag E key nonce aad pt tlen = Inr (ct, tag)"
  shows "app_ccm_auth_decrypt E key nonce aad ct tag pt0 = (None, pt)"
proof -
  have ok: "params_ok (length nonce) (length aad) tlen"
    and ct: "ct = ctr_crypt E key nonce pt" and tag: "tag = ccm_tag E key nonce aad pt tlen"
    using assms(2) by (auto simp: app_ccm_encrypt_and_tag_def split: if_splits)
  then have "tlen \<le> 16" by (simp add: params_ok_def)
  with assms(1) tag have "length tag = tlen" by simp
  with ok ct tag auth_decrypt_eq [OF assms(1), of nonce aad tag key ct pt0] assms(1)
  show ?thesis by simp
qed

definition demo_cipher :: cipher where
  "demo_cipher k b = take 16 (map (\<lambda>x. x + 7) b @ replicate 16 1)"

lemma block_cipher_demo: "block_cipher demo_cipher"
  by (simp add: block_cipher_def demo_cipher_def min_def)

theorem ccm_roundtrip_witness:
  "\<exists>ct tag. app_ccm_encrypt_and_tag demo_cipher [] (replicate 9 3) [1] [10, 20, 30] 4 = Inr (ct, tag) \<and>
    app_ccm_auth_decrypt demo_cipher [] (replicate 9 3) [1] ct tag [] = (None, [10, 20, 30])"
proof -
  have "\<exists>ct tag. app_ccm_encrypt_and_tag demo_cipher [] (replicate 9 3) [1] [10, 20, 30] 4 = Inr (ct, tag)"
    by (simp add: app_ccm_encrypt_and_tag_def params_ok_def)
  then show ?thesis using ccm_roundtrip [OF block_cipher_demo] by blast
qed

text \<open>C3: plaintext is released only under its tag. With valid parameters the decryption returns
  the recovered plaintext exactly when the given tag is the one of that plaintext; any other
  tag is \<open>EBADMSG\<close> and leaves a zeroed buffer.\<close>

theorem ccm_rejects_forged_tag:
  assumes "block_cipher E" "params_ok (length nonce) (length aad) (length tag)"
    and "tag \<noteq> ccm_tag E key nonce aad (ctr_crypt E key nonce ct) (length tag)"
  shows "app_ccm_auth_decrypt E key nonce aad ct tag pt0 = (Some EBADMSG, replicate (length ct) 0)"
  using auth_decrypt_eq [OF assms(1,2)] assms(3) by simp

theorem ccm_rejects_forged_tag_witness:
  "app_ccm_auth_decrypt demo_cipher [] (replicate 9 3) [1] [10, 20] [0, 0, 0, 0] [] =
    (Some EBADMSG, replicate (length [10, 20 :: u8]) 0)"
proof (rule ccm_rejects_forged_tag [OF block_cipher_demo])
  show "[0, 0, 0, 0] \<noteq> ccm_tag demo_cipher [] (replicate 9 3) [1]
      (ctr_crypt demo_cipher [] (replicate 9 3) [10, 20]) (length [0, 0, 0, 0 :: u8])"
    by code_simp
qed (simp add: params_ok_def)

subsection \<open>CMAC\<close>

text \<open>The blocks of RFC 4493: the last one masked with K1 when it is full, else padded with
  \<open>10..0\<close> and masked with K2.\<close>

function rfc4493_blocks :: "bytes \<Rightarrow> bytes \<Rightarrow> bytes \<Rightarrow> bytes list" where
  "rfc4493_blocks k1 k2 msg =
     (if length msg > 16 then take 16 msg # rfc4493_blocks k1 k2 (drop 16 msg)
      else if length msg = 16 then [xor16 msg k1]
      else [xor16 (pad_block (msg @ [0x80])) k2])"
  by pat_completeness auto
termination
  by (relation "measure (\<lambda>(k1, k2, msg). length msg)") auto

declare rfc4493_blocks.simps [simp del]

text \<open>Index of the last block, and its masked form, as \<open>app_ccm_cmac\<close> computes them.\<close>

definition cmac_last :: "bytes \<Rightarrow> nat" where
  "cmac_last msg = (if (length msg + 15) div 16 = 0 then 1 else (length msg + 15) div 16) - 1"

definition cmac_block :: "bytes \<Rightarrow> bytes \<Rightarrow> bool \<Rightarrow> bytes \<Rightarrow> bytes" where
  "cmac_block k1 k2 full tail =
     (if full then xor16 tail k1 else xor16 (pad_block (tail @ [0x80])) k2)"

lemma num_17: "Suc 16 = 17"
  by simp

lemma cmac_blocks_fold:
  "cbc_step E key (cbc_blocks E key x msg (cmac_last msg))
     (cmac_block k1 k2 (length msg \<noteq> 0 \<and> length msg mod 16 = 0) (drop (cmac_last msg * 16) msg)) =
   foldl (cbc_step E key) x (rfc4493_blocks k1 k2 msg)"
proof (induction k1 k2 msg arbitrary: x rule: rfc4493_blocks.induct)
  case (1 k1 k2 msg)
  show ?case
  proof (cases "length msg > 16")
    case True
    have l: "cmac_last msg = Suc (cmac_last (drop 16 msg))"
    proof -
      obtain k where k: "length msg = k + 17" using True by (metis add.commute le_Suc_ex less_eq_Suc_le num_17)
      have "(32 + k) div 16 = k div 16 + 2" "(16 + k) div 16 = k div 16 + 1" by presburger+
      then show ?thesis by (simp add: cmac_last_def k)
    qed
    have m: "(length msg - 16) mod 16 = length msg mod 16"
      using True by (metis le_mod_geq less_imp_le)
    have "drop (cmac_last msg * 16) msg = drop (cmac_last (drop 16 msg) * 16) (drop 16 msg)"
      by (simp add: l add.commute)
    moreover have "msg \<noteq> []" using True by auto
    ultimately show ?thesis
      using "1.IH" [OF True, of "cbc_step E key x (take 16 msg)"] True
      by (simp add: l m rfc4493_blocks.simps [of k1 k2 msg])
  next
    case False
    then have "(length msg + 15) div 16 \<le> 1" by simp
    then have "cmac_last msg = 0" by (simp add: cmac_last_def)
    moreover have "(length msg \<noteq> 0 \<and> length msg mod 16 = 0) = (length msg = 16)"
      using False by (metis le_neq_implies_less linorder_not_less mod_less mod_self zero_neq_numeral)
    ultimately show ?thesis
      using False by (simp add: rfc4493_blocks.simps [of k1 k2 msg] cmac_block_def)
  qed
qed

text \<open>\<open>app_ccm_cmac\<close> is the CBC-MAC, from the zero block, over the RFC 4493 blocks of the
  message with the subkeys derived by doubling in GF(2^128).\<close>

theorem app_ccm_cmac_rfc4493:
  "app_ccm_cmac E key msg =
    foldl (cbc_step E key) (replicate 16 0)
      (rfc4493_blocks (double_gf128 (E key (replicate 16 0)))
        (double_gf128 (double_gf128 (E key (replicate 16 0)))) msg)"
  by (simp add: app_ccm_cmac_def Let_def cmac_last_def [symmetric] cmac_block_def [symmetric]
      cmac_blocks_fold [symmetric] del: One_nat_def)

end
