(* ===== verification/AlarmRules.thy ===== *)
theory AlarmRules
  imports SensorTypes
begin

text \<open>
  The alarm rule store (\<open>app/src/app_alarm_rules.c\<close>): sixteen rules kept twice, as 18 packed
  bytes each in the staged \<open>app_config\<close> and decoded in the cache \<open>m_rules\<close>. Every function runs
  under \<open>m_lock\<close>, so it is one atomic step from a configuration and a cache to their successors.
  The interface \<open>rule_store\<close> states what the evaluator and the shell rely on; it is interpreted
  on the functions of this file.
\<close>

unbundle bit_operations_syntax

subsection \<open>Rules and the cache\<close>

definition APP_ALARM_RULE_COUNT :: nat where "APP_ALARM_RULE_COUNT = 16"
definition APP_ALARM_SLOT_MB :: u8 where "APP_ALARM_SLOT_MB = 0"
definition APP_ALARM_SLOT_MAX :: u8 where "APP_ALARM_SLOT_MAX = 4"
definition RULE_PACK_LEN :: nat where "RULE_PACK_LEN = 18"
definition RULE_FLAG_PRESENT :: u8 where "RULE_FLAG_PRESENT = 0x01"
definition RULE_FLAG_ENABLED :: u8 where "RULE_FLAG_ENABLED = 0x02"

lemmas rule_consts = APP_ALARM_RULE_COUNT_def APP_ALARM_SLOT_MB_def APP_ALARM_SLOT_MAX_def
  RULE_PACK_LEN_def RULE_FLAG_PRESENT_def RULE_FLAG_ENABLED_def

record app_alarm_rule =
  r_slot :: u8
  r_channel :: u8
  r_sensor_type :: u8
  r_enabled :: u8
  r_from_state :: u8
  r_to_state :: u8
  r_lo :: f32
  r_hi :: f32
  r_dwell :: f32

record app_alarm_entry =
  e_used :: bool
  e_rule :: app_alarm_rule

record rule_cache =
  m_rules :: "app_alarm_entry list"
  m_invalid_mask :: u32

definition zero_rule :: app_alarm_rule where
  "zero_rule = \<lparr>r_slot = 0, r_channel = 0, r_sensor_type = 0, r_enabled = 0, r_from_state = 0,
     r_to_state = 0, r_lo = 0, r_hi = 0, r_dwell = 0\<rparr>"

text \<open>The cache at boot: static storage, all zero.\<close>

definition boot_cache :: rule_cache where
  "boot_cache = \<lparr>m_rules = replicate APP_ALARM_RULE_COUNT \<lparr>e_used = False, e_rule = zero_rule\<rparr>,
     m_invalid_mask = 0\<rparr>"

subsection \<open>Slot names\<close>

definition m_slot_names :: "string list" where
  "m_slot_names = [''mb'', ''s1'', ''s2'', ''s3'', ''s4'']"

definition app_alarm_slot_name :: "u8 \<Rightarrow> string" where
  "app_alarm_slot_name slot =
     (if slot \<le> APP_ALARM_SLOT_MAX then m_slot_names ! unat slot else ''?'')"

fun find_name :: "string list \<Rightarrow> string \<Rightarrow> int \<Rightarrow> int" where
  "find_name [] name k = - 1"
| "find_name (n # ns) name k = (if n = name then k else find_name ns name (k + 1))"

definition app_alarm_slot_by_name :: "string \<Rightarrow> int" where
  "app_alarm_slot_by_name name = find_name m_slot_names name 0"

subsection \<open>Target validity\<close>

text \<open>The configured type of a slot under a configuration (staged or runtime).\<close>

definition slot_type_in :: "app_config \<Rightarrow> u8 \<Rightarrow> u8" where
  "slot_type_in c slot =
     (if slot = 0 then APP_SENSOR_TYPE_MOTHERBOARD
      else if slot = 1 then sensor_types c ! 0
      else if slot = 2 then sensor_types c ! 1
      else if slot = 3 then sensor_types c ! 2
      else if slot = 4 then sensor_types c ! 3
      else APP_SENSOR_TYPE_NONE)"

definition app_alarm_slot_type :: "app_config \<Rightarrow> u8 \<Rightarrow> u8" where
  "app_alarm_slot_type g slot = slot_type_in g slot"

definition app_alarm_rule_valid :: "u8 \<Rightarrow> u8 \<Rightarrow> u8 \<Rightarrow> bool" where
  "app_alarm_rule_valid slot channel sty = (case app_sensor_type_get sty of
     None \<Rightarrow> False
   | Some t \<Rightarrow>
       if APP_ALARM_SLOT_MAX < slot then False
       else if (slot = APP_ALARM_SLOT_MB) \<noteq> (sty = APP_SENSOR_TYPE_MOTHERBOARD) \<or>
               (slot \<noteq> APP_ALARM_SLOT_MB \<and> ty_w1_family t = 0) then False
       else (case app_sensor_channel_get sty channel of
               None \<Rightarrow> False
             | Some c \<Rightarrow> ch_kind c \<noteq> KIND_NONE \<and>
                 ch_flags c AND (APP_SENSOR_F_RETIRED OR APP_SENSOR_F_WATCHDOG_ONLY) = 0))"

definition app_alarm_rule_channel :: "app_alarm_rule \<Rightarrow> sensor_channel option" where
  "app_alarm_rule_channel r =
     (if \<not> app_alarm_rule_valid (r_slot r) (r_channel r) (r_sensor_type r) then None
      else app_sensor_channel_get (r_sensor_type r) (r_channel r))"

definition rule_stale_in :: "app_config \<Rightarrow> app_alarm_rule \<Rightarrow> bool" where
  "rule_stale_in c r \<longleftrightarrow> r_sensor_type r \<noteq> slot_type_in c (r_slot r)"

definition app_alarm_rule_stale :: "app_config \<Rightarrow> app_alarm_rule \<Rightarrow> bool" where
  "app_alarm_rule_stale g r = rule_stale_in g r"

definition app_alarm_rule_armed :: "app_config \<Rightarrow> app_alarm_rule \<Rightarrow> bool" where
  "app_alarm_rule_armed g r = (case app_alarm_rule_channel r of
     None \<Rightarrow> False
   | Some c \<Rightarrow>
       if r_enabled r = 0 \<or> app_alarm_rule_stale g r then False
       else app_sensor_channel_cap_on g c)"

subsection \<open>Shape checks\<close>

text \<open>\<open>3600.0f\<close> and \<open>(float)UINT32_MAX\<close> (which rounds to \<open>2^32\<close>).\<close>

definition RULE_DWELL_MAX_S :: f32 where "RULE_DWELL_MAX_S = 0x45610000"
definition UINT32_MAX_F :: f32 where "UINT32_MAX_F = 0x4F800000"

definition rule_dwell_range_valid :: "app_alarm_rule \<Rightarrow> sensor_channel \<Rightarrow> bool" where
  "rule_dwell_range_valid r c =
     (if ch_kind c = KIND_THRESHOLD
      then f32_le 0 (r_dwell r) \<and> f32_le (r_dwell r) (f32_sub (r_hi r) (r_lo r))
      else f32_le 0 (r_dwell r) \<and> f32_le (r_dwell r) RULE_DWELL_MAX_S)"

definition rule_threshold_band_valid :: "app_alarm_rule \<Rightarrow> sensor_channel \<Rightarrow> bool" where
  "rule_threshold_band_valid r c \<longleftrightarrow>
     ch_kind c \<noteq> KIND_THRESHOLD \<or> f32_lt (r_lo r) (r_hi r)"

definition rule_state_levels_valid :: "app_alarm_rule \<Rightarrow> sensor_channel \<Rightarrow> bool" where
  "rule_state_levels_valid r c \<longleftrightarrow>
     ch_kind c \<noteq> KIND_STATE \<or> (r_from_state r \<le> 1 \<and> r_to_state r \<le> 1)"

definition rule_rate_limit_valid :: "app_alarm_rule \<Rightarrow> sensor_channel \<Rightarrow> bool" where
  "rule_rate_limit_valid r c \<longleftrightarrow>
     ch_kind c \<noteq> KIND_RATE \<or> (f32_le 0 (r_hi r) \<and> f32_le (r_hi r) UINT32_MAX_F)"

definition rule_valid :: "app_alarm_rule \<Rightarrow> bool" where
  "rule_valid r = (case app_alarm_rule_channel r of
     None \<Rightarrow> False
   | Some c \<Rightarrow> rule_dwell_range_valid r c \<and> rule_threshold_band_valid r c \<and>
       rule_state_levels_valid r c \<and> rule_rate_limit_valid r c)"

subsection \<open>Packed form\<close>

text \<open>\<open>rule_field\<close> returns a pointer to one of the sixteen members; here, its index, if any.\<close>

definition rule_field :: "u8 \<Rightarrow> nat option" where
  "rule_field rule = (if unat rule < 16 then Some (unat rule) else None)"

definition pack_rule :: "app_alarm_rule \<Rightarrow> bytes" where
  "pack_rule r =
     [RULE_FLAG_PRESENT OR (if r_enabled r \<noteq> 0 then RULE_FLAG_ENABLED else 0),
      r_slot r, r_channel r, r_sensor_type r, r_from_state r, r_to_state r]
     @ put_le32 (r_lo r) @ put_le32 (r_hi r) @ put_le32 (r_dwell r)"

definition unpack_rule :: "bytes \<Rightarrow> app_alarm_rule option" where
  "unpack_rule b =
     (if b ! 0 AND RULE_FLAG_PRESENT = 0 then None
      else Some \<lparr>r_slot = b ! 1, r_channel = b ! 2, r_sensor_type = b ! 3,
        r_enabled = (if b ! 0 AND RULE_FLAG_ENABLED \<noteq> 0 then 1 else 0),
        r_from_state = b ! 4, r_to_state = b ! 5,
        r_lo = get_le32 (drop 6 b), r_hi = get_le32 (drop 10 b), r_dwell = get_le32 (drop 14 b)\<rparr>)"

subsection \<open>Store operations\<close>

definition app_alarm_rules_count :: "rule_cache \<Rightarrow> nat" where
  "app_alarm_rules_count s = length (filter e_used (m_rules s))"

definition app_alarm_rules_get :: "rule_cache \<Rightarrow> u8 \<Rightarrow> app_alarm_rule option" where
  "app_alarm_rules_get s rule =
     (if unat rule < APP_ALARM_RULE_COUNT \<and> e_used (m_rules s ! unat rule)
      then Some (e_rule (m_rules s ! unat rule)) else None)"

definition app_alarm_rules_occupied :: "rule_cache \<Rightarrow> u8 \<Rightarrow> bool" where
  "app_alarm_rules_occupied s rule =
     (if APP_ALARM_RULE_COUNT \<le> unat rule then False else e_used (m_rules s ! unat rule))"

fun free_from :: "app_alarm_entry list \<Rightarrow> int \<Rightarrow> int" where
  "free_from [] k = - 1"
| "free_from (e # es) k = (if \<not> e_used e then k else free_from es (k + 1))"

definition app_alarm_rules_first_free :: "rule_cache \<Rightarrow> int" where
  "app_alarm_rules_first_free s = free_from (m_rules s) 0"

definition app_alarm_rules_set ::
    "u8 \<Rightarrow> app_alarm_rule \<Rightarrow> app_config \<times> rule_cache \<Rightarrow> unit res \<times> app_config \<times> rule_cache" where
  "app_alarm_rules_set rule r cs = (case cs of (c, s) \<Rightarrow>
     if APP_ALARM_RULE_COUNT \<le> unat rule \<or> \<not> rule_valid r then (Inl EINVAL, c, s)
     else case rule_field rule of
       None \<Rightarrow> (Inl EINVAL, c, s)
     | Some i \<Rightarrow>
       let c' = c\<lparr>alarm_fields := (alarm_fields c)[i := pack_rule r]\<rparr>;
           old = e_rule (m_rules s ! i);
           new = (case unpack_rule (alarm_fields c' ! i) of None \<Rightarrow> old | Some r' \<Rightarrow> r')
       in (Inr (), c', s\<lparr>m_rules := (m_rules s)[i := \<lparr>e_used = True, e_rule = new\<rparr>]\<rparr>))"

definition app_alarm_rules_clear ::
    "u8 \<Rightarrow> app_config \<times> rule_cache \<Rightarrow> unit res \<times> app_config \<times> rule_cache" where
  "app_alarm_rules_clear rule cs = (case cs of (c, s) \<Rightarrow>
     if APP_ALARM_RULE_COUNT \<le> unat rule then (Inl EINVAL, c, s)
     else let i = unat rule;
              ret = (if e_used (m_rules s ! i) then Inr () else Inl ENOENT)
          in (ret, c\<lparr>alarm_fields := (alarm_fields c)[i := replicate RULE_PACK_LEN 0]\<rparr>,
              s\<lparr>m_rules := (m_rules s)[i := (m_rules s ! i)\<lparr>e_used := False\<rparr>]\<rparr>))"

definition app_alarm_rules_clear_all :: "app_config \<times> rule_cache \<Rightarrow> app_config \<times> rule_cache" where
  "app_alarm_rules_clear_all cs = (case cs of (c, s) \<Rightarrow>
     (c\<lparr>alarm_fields := map (\<lambda>_. replicate RULE_PACK_LEN 0) (alarm_fields c)\<rparr>,
      s\<lparr>m_rules := map (\<lambda>e. e\<lparr>e_used := False\<rparr>) (m_rules s)\<rparr>))"

text \<open>\<open>mask |= BIT(i)\<close> over the entries that satisfy the condition.\<close>

fun mask_from :: "(app_alarm_entry \<Rightarrow> bool) \<Rightarrow> app_alarm_entry list \<Rightarrow> nat \<Rightarrow> u32 \<Rightarrow> u32" where
  "mask_from P [] i m = m"
| "mask_from P (e # es) i m = mask_from P es (Suc i) (if P e then m OR BIT32 i else m)"

definition app_alarm_rules_stale_mask :: "app_config \<Rightarrow> rule_cache \<Rightarrow> u32" where
  "app_alarm_rules_stale_mask c s =
     mask_from (\<lambda>e. e_used e \<and> rule_stale_in c (e_rule e)) (m_rules s) 0 0"

definition app_alarm_rules_stale_count :: "app_config \<Rightarrow> rule_cache \<Rightarrow> nat" where
  "app_alarm_rules_stale_count c s =
     length (filter (bit (app_alarm_rules_stale_mask c s)) [0..<32])"

definition app_alarm_rules_invalid_mask :: "rule_cache \<Rightarrow> u32" where
  "app_alarm_rules_invalid_mask s = m_invalid_mask s"

text \<open>One turn of the reload loop, for rule \<open>i\<close>; the \<open>int\<close> is the fault counter.\<close>

definition reload_one ::
    "nat \<Rightarrow> app_config \<times> rule_cache \<times> int \<Rightarrow> app_config \<times> rule_cache \<times> int" where
  "reload_one i st = (case st of (c, s, faults) \<Rightarrow>
     let field = alarm_fields c ! i;
         reject =
           (let bad = field ! 0 AND RULE_FLAG_PRESENT \<noteq> 0
            in (c\<lparr>alarm_fields := (alarm_fields c)[i := replicate RULE_PACK_LEN 0]\<rparr>,
                s\<lparr>m_invalid_mask := (if bad then m_invalid_mask s OR BIT32 i else m_invalid_mask s),
                  m_rules := (m_rules s)[i := (m_rules s ! i)\<lparr>e_used := False\<rparr>]\<rparr>,
                if bad then faults + 1 else faults))
     in case unpack_rule field of
          None \<Rightarrow> reject
        | Some r \<Rightarrow>
            if rule_valid r
            then (c, s\<lparr>m_rules := (m_rules s)[i := \<lparr>e_used = True, e_rule = r\<rparr>]\<rparr>,
                  if rule_stale_in c r then faults + 1 else faults)
            else reject)"

definition app_alarm_rules_reload_from_config ::
    "app_config \<times> rule_cache \<Rightarrow> int \<times> app_config \<times> rule_cache" where
  "app_alarm_rules_reload_from_config cs = (case cs of (c, s) \<Rightarrow>
     case fold reload_one [0..<APP_ALARM_RULE_COUNT] (c, s\<lparr>m_invalid_mask := 0\<rparr>, 0) of
       (c', s', faults) \<Rightarrow> (faults, c', s'))"

definition app_alarm_rules_init :: "app_config \<times> rule_cache \<Rightarrow> app_config \<times> rule_cache" where
  "app_alarm_rules_init cs = snd (app_alarm_rules_reload_from_config cs)"

subsection \<open>The packed form round-trips\<close>

definition norm_rule :: "app_alarm_rule \<Rightarrow> app_alarm_rule" where
  "norm_rule r = r\<lparr>r_enabled := (if r_enabled r \<noteq> 0 then 1 else 0)\<rparr>"

lemma length_pack_rule [simp]: "length (pack_rule r) = RULE_PACK_LEN"
  by (simp add: pack_rule_def RULE_PACK_LEN_def)

lemma pack_present: "pack_rule r ! 0 AND RULE_FLAG_PRESENT \<noteq> 0"
  by (simp add: pack_rule_def rule_consts)

lemma unpack_pack [simp]: "unpack_rule (pack_rule r) = Some (norm_rule r)"
  by (simp add: unpack_rule_def pack_rule_def rule_consts norm_rule_def numeral_eq_Suc put_le32_nth)

lemma unpack_zero [simp]: "unpack_rule (replicate RULE_PACK_LEN 0) = None"
  by (simp add: unpack_rule_def RULE_PACK_LEN_def)

lemma zero_field_absent [simp]: "replicate RULE_PACK_LEN (0 :: u8) ! 0 AND RULE_FLAG_PRESENT = 0"
  by (simp add: RULE_PACK_LEN_def)

lemma norm_rule_valid [simp]: "rule_valid (norm_rule r) = rule_valid r"
  by (auto simp: rule_valid_def app_alarm_rule_channel_def norm_rule_def rule_dwell_range_valid_def
      rule_threshold_band_valid_def rule_state_levels_valid_def rule_rate_limit_valid_def
      split: option.splits)

lemma norm_rule_stale [simp]: "rule_stale_in c (norm_rule r) = rule_stale_in c r"
  by (simp add: rule_stale_in_def norm_rule_def)

lemma norm_rule_idem [simp]: "norm_rule (norm_rule r) = norm_rule r"
  by (simp add: norm_rule_def)

subsection \<open>Consistency of cache and configuration\<close>

text \<open>The shape C's array types give, and the agreement the code maintains on top of it.\<close>

definition store_shape :: "app_config \<Rightarrow> rule_cache \<Rightarrow> bool" where
  "store_shape c s \<longleftrightarrow> length (alarm_fields c) = APP_ALARM_RULE_COUNT \<and>
     list_all (\<lambda>b. length b = RULE_PACK_LEN) (alarm_fields c) \<and>
     length (m_rules s) = APP_ALARM_RULE_COUNT"

definition entry_ok :: "bytes \<Rightarrow> app_alarm_entry \<Rightarrow> bool" where
  "entry_ok b e =
     (if e_used e then unpack_rule b = Some (e_rule e) \<and> rule_valid (e_rule e)
      else b = replicate RULE_PACK_LEN 0)"

definition store_ok :: "app_config \<times> rule_cache \<Rightarrow> bool" where
  "store_ok cs = (case cs of (c, s) \<Rightarrow>
     store_shape c s \<and> list_all2 entry_ok (alarm_fields c) (m_rules s))"

lemma store_ok_entry:
  "store_ok (c, s) \<Longrightarrow> i < APP_ALARM_RULE_COUNT \<Longrightarrow> entry_ok (alarm_fields c ! i) (m_rules s ! i)"
  by (simp add: store_ok_def store_shape_def list_all2_conv_all_nth)

lemma store_ok_update:
  assumes "store_ok (c, s)" "entry_ok b e" "length b = RULE_PACK_LEN"
  shows "store_ok (c\<lparr>alarm_fields := (alarm_fields c)[i := b]\<rparr>, s\<lparr>m_rules := (m_rules s)[i := e]\<rparr>)"
proof -
  have "list_all (\<lambda>b. length b = RULE_PACK_LEN) ((alarm_fields c)[i := b])"
    using assms by (simp add: store_ok_def store_shape_def list_all_update)
  moreover have "list_all2 entry_ok ((alarm_fields c)[i := b]) ((m_rules s)[i := e])"
    using assms by (auto simp: store_ok_def intro!: list_all2_update_cong)
  ultimately show ?thesis using assms by (simp add: store_ok_def store_shape_def)
qed

lemma entry_ok_set: "rule_valid r \<Longrightarrow> entry_ok (pack_rule r) \<lparr>e_used = True, e_rule = norm_rule r\<rparr>"
  by (simp add: entry_ok_def)

lemma entry_ok_clear: "entry_ok (replicate RULE_PACK_LEN 0) (e\<lparr>e_used := False\<rparr>)"
  by (simp add: entry_ok_def)

text \<open>The closed forms of the two writers on a well-shaped store.\<close>

lemma rules_set_ok:
  assumes "store_shape c s" "unat i < APP_ALARM_RULE_COUNT" "rule_valid r"
  shows "app_alarm_rules_set i r (c, s) =
    (Inr (), c\<lparr>alarm_fields := (alarm_fields c)[unat i := pack_rule r]\<rparr>,
     s\<lparr>m_rules := (m_rules s)[unat i := \<lparr>e_used = True, e_rule = norm_rule r\<rparr>]\<rparr>)"
  using assms by (simp add: app_alarm_rules_set_def rule_field_def store_shape_def rule_consts)

lemma rules_set_err:
  "\<not> (unat i < APP_ALARM_RULE_COUNT \<and> rule_valid r) \<Longrightarrow>
   app_alarm_rules_set i r (c, s) = (Inl EINVAL, c, s)"
  by (auto simp: app_alarm_rules_set_def)

lemma rules_clear_ok:
  "unat i < APP_ALARM_RULE_COUNT \<Longrightarrow>
   app_alarm_rules_clear i (c, s) =
    (if e_used (m_rules s ! unat i) then Inr () else Inl ENOENT,
     c\<lparr>alarm_fields := (alarm_fields c)[unat i := replicate RULE_PACK_LEN 0]\<rparr>,
     s\<lparr>m_rules := (m_rules s)[unat i := (m_rules s ! unat i)\<lparr>e_used := False\<rparr>]\<rparr>)"
  by (simp add: app_alarm_rules_clear_def Let_def)

lemma store_ok_shape: "store_ok (c, s) \<Longrightarrow> store_shape c s"
  by (simp add: store_ok_def)

lemma set_store_ok: "store_ok cs \<Longrightarrow> store_ok (snd (app_alarm_rules_set i r cs))"
  by (cases cs; cases "unat i < APP_ALARM_RULE_COUNT \<and> rule_valid r")
     (simp_all add: rules_set_ok rules_set_err store_ok_shape store_ok_update entry_ok_set)

lemma clear_store_ok: "store_ok cs \<Longrightarrow> store_ok (snd (app_alarm_rules_clear i cs))"
  by (cases cs; cases "unat i < APP_ALARM_RULE_COUNT")
     (simp_all add: rules_clear_ok store_ok_update entry_ok_clear,
      simp add: app_alarm_rules_clear_def)

lemma clear_all_store_ok: "store_ok cs \<Longrightarrow> store_ok (app_alarm_rules_clear_all cs)"
  by (auto simp: app_alarm_rules_clear_all_def store_ok_def store_shape_def
      list_all2_conv_all_nth list_all_length entry_ok_def)

subsection \<open>The interface the evaluator and the shell use\<close>

locale rule_store =
  fixes get :: "'s \<Rightarrow> u8 \<Rightarrow> app_alarm_rule option"
    and set :: "u8 \<Rightarrow> app_alarm_rule \<Rightarrow> 's \<Rightarrow> unit res \<times> 's"
    and clear :: "u8 \<Rightarrow> 's \<Rightarrow> unit res \<times> 's"
    and ok :: "'s \<Rightarrow> bool"
  assumes ok_set: "ok s \<Longrightarrow> ok (snd (set i r s))"
    and ok_clear: "ok s \<Longrightarrow> ok (snd (clear i s))"
    and get_valid: "ok s \<Longrightarrow> get s i = Some r \<Longrightarrow> rule_valid r"
    and set_result: "ok s \<Longrightarrow>
      fst (set i r s) = (if unat i < APP_ALARM_RULE_COUNT \<and> rule_valid r then Inr () else Inl EINVAL)"
    and set_error: "fst (set i r s) = Inl e \<Longrightarrow> snd (set i r s) = s"
    and get_set: "ok s \<Longrightarrow> fst (set i r s) = Inr () \<Longrightarrow>
      get (snd (set i r s)) j = (if j = i then Some (norm_rule r) else get s j)"
    and get_clear: "ok s \<Longrightarrow> get (snd (clear i s)) j = (if j = i then None else get s j)"
    and clear_result: "ok s \<Longrightarrow> unat i < APP_ALARM_RULE_COUNT \<Longrightarrow>
      fst (clear i s) = (if get s i = None then Inl ENOENT else Inr ())"
begin

text \<open>A rule survives any edit of another position, and an edit sequence only sees the last one.\<close>

lemma get_set_result:
  assumes "ok s"
  shows "get (snd (set i r s)) j =
    (if j = i \<and> unat i < APP_ALARM_RULE_COUNT \<and> rule_valid r then Some (norm_rule r) else get s j)"
  using assms get_set [of s i r j] set_result [of s i r] set_error [of i r s]
  by (auto split: if_splits)

lemma set_clear_absent: "ok s \<Longrightarrow> get (snd (clear i (snd (set i r s)))) i = None"
  by (simp add: get_clear ok_set)

lemma clear_twice: "ok s \<Longrightarrow> unat i < APP_ALARM_RULE_COUNT \<Longrightarrow>
    fst (clear i (snd (clear i s))) = Inl ENOENT"
  by (simp add: clear_result ok_clear get_clear)

lemma set_overwrites:
  "ok s \<Longrightarrow> unat i < APP_ALARM_RULE_COUNT \<Longrightarrow> rule_valid r' \<Longrightarrow>
   get (snd (set i r' (snd (set i r s)))) i = Some (norm_rule r')"
  by (simp add: get_set_result ok_set)

lemma edits_get_valid:
  "ok s \<Longrightarrow> get (fold (\<lambda>(i, e) s. case e of None \<Rightarrow> snd (clear i s) | Some r \<Rightarrow> snd (set i r s))
      edits s) j = Some r \<Longrightarrow> rule_valid r"
proof (induction edits arbitrary: s)
  case (Cons e es)
  then show ?case
    by (cases e) (auto intro: Cons.IH ok_set ok_clear split: option.splits)
qed (auto intro: get_valid)

end

definition rules_get :: "app_config \<times> rule_cache \<Rightarrow> u8 \<Rightarrow> app_alarm_rule option" where
  "rules_get cs i = app_alarm_rules_get (snd cs) i"

lemma get_set_rules:
  assumes "store_ok cs" "fst (app_alarm_rules_set i r cs) = Inr ()"
  shows "rules_get (snd (app_alarm_rules_set i r cs)) j =
    (if j = i then Some (norm_rule r) else rules_get cs j)"
proof -
  obtain c s where cs: "cs = (c, s)" by (cases cs)
  have p: "unat i < APP_ALARM_RULE_COUNT" "rule_valid r"
    using assms(2) by (auto simp: cs app_alarm_rules_set_def split: if_splits)
  have len: "length (m_rules s) = APP_ALARM_RULE_COUNT"
    using assms(1) by (simp add: cs store_ok_def store_shape_def)
  show ?thesis
    using assms(1) p len
    by (auto simp: cs rules_set_ok store_ok_shape rules_get_def app_alarm_rules_get_def
        nth_list_update)
qed

lemma get_clear_rules:
  assumes "store_ok cs"
  shows "rules_get (snd (app_alarm_rules_clear i cs)) j = (if j = i then None else rules_get cs j)"
proof -
  obtain c s where cs: "cs = (c, s)" by (cases cs)
  have "length (m_rules s) = APP_ALARM_RULE_COUNT"
    using assms(1) by (simp add: cs store_ok_def store_shape_def)
  then show ?thesis
    by (cases "unat i < APP_ALARM_RULE_COUNT")
       (auto simp: cs rules_clear_ok rules_get_def app_alarm_rules_get_def nth_list_update
         app_alarm_rules_clear_def Let_def)
qed

lemma rules_get_valid: "store_ok cs \<Longrightarrow> rules_get cs i = Some r \<Longrightarrow> rule_valid r"
  by (cases cs)
     (auto simp: rules_get_def app_alarm_rules_get_def entry_ok_def
      dest!: store_ok_entry split: if_splits)

interpretation rs: rule_store rules_get app_alarm_rules_set app_alarm_rules_clear store_ok
proof unfold_locales
  fix i j :: u8 and r :: app_alarm_rule and s :: "app_config \<times> rule_cache" and e
  show "store_ok s \<Longrightarrow> store_ok (snd (app_alarm_rules_set i r s))" by (rule set_store_ok)
  show "store_ok s \<Longrightarrow> store_ok (snd (app_alarm_rules_clear i s))" by (rule clear_store_ok)
  show "store_ok s \<Longrightarrow> rules_get s i = Some r \<Longrightarrow> rule_valid r" by (rule rules_get_valid)
  show "store_ok s \<Longrightarrow> fst (app_alarm_rules_set i r s) =
      (if unat i < APP_ALARM_RULE_COUNT \<and> rule_valid r then Inr () else Inl EINVAL)"
    by (cases s) (auto simp: rules_set_ok rules_set_err store_ok_shape)
  show "fst (app_alarm_rules_set i r s) = Inl e \<Longrightarrow> snd (app_alarm_rules_set i r s) = s"
    by (cases s) (auto simp: app_alarm_rules_set_def Let_def split: if_splits option.splits)
  show "store_ok s \<Longrightarrow> fst (app_alarm_rules_set i r s) = Inr () \<Longrightarrow>
      rules_get (snd (app_alarm_rules_set i r s)) j =
      (if j = i then Some (norm_rule r) else rules_get s j)" by (rule get_set_rules)
  show "store_ok s \<Longrightarrow> rules_get (snd (app_alarm_rules_clear i s)) j =
      (if j = i then None else rules_get s j)" by (rule get_clear_rules)
  show "store_ok s \<Longrightarrow> unat i < APP_ALARM_RULE_COUNT \<Longrightarrow> fst (app_alarm_rules_clear i s) =
      (if rules_get s i = None then Inl ENOENT else Inr ())"
    by (cases s) (simp add: rules_clear_ok rules_get_def app_alarm_rules_get_def)
qed

subsection \<open>Reload\<close>

text \<open>What a packed field holds: a rule that may be used, or nothing.\<close>

definition accepted :: "bytes \<Rightarrow> app_alarm_rule option" where
  "accepted b = (case unpack_rule b of None \<Rightarrow> None | Some r \<Rightarrow> if rule_valid r then Some r else None)"

definition field_bad :: "bytes \<Rightarrow> bool" where
  "field_bad b \<longleftrightarrow> b ! 0 AND RULE_FLAG_PRESENT \<noteq> 0 \<and> accepted b = None"

definition field_fault :: "app_config \<Rightarrow> bytes \<Rightarrow> bool" where
  "field_fault c b \<longleftrightarrow> field_bad b \<or> (\<exists>r \<in> set_option (accepted b). rule_stale_in c r)"

definition clean_field :: "bytes \<Rightarrow> bytes" where
  "clean_field b = (if accepted b = None then replicate RULE_PACK_LEN 0 else b)"

definition load_entry :: "bytes \<Rightarrow> app_alarm_entry \<Rightarrow> app_alarm_entry" where
  "load_entry b e = (case accepted b of None \<Rightarrow> e\<lparr>e_used := False\<rparr>
     | Some r \<Rightarrow> \<lparr>e_used = True, e_rule = r\<rparr>)"

lemma stale_fields [simp]:
  "rule_stale_in (c\<lparr>alarm_fields := x\<rparr>) r = rule_stale_in c r"
  by (simp add: rule_stale_in_def slot_type_in_def)

lemma list_update_same_nth [simp]: "xs[i := xs ! i] = xs"
  by simp

lemma alarm_fields_id [simp]: "c\<lparr>alarm_fields := alarm_fields c\<rparr> = c"
  by simp

lemma accepted_present: "accepted b = Some r \<Longrightarrow> b ! 0 AND RULE_FLAG_PRESENT \<noteq> 0"
  by (auto simp: accepted_def unpack_rule_def split: option.splits if_splits)

lemma reload_one_eq:
  "reload_one i (c, s, f) =
    (c\<lparr>alarm_fields := (alarm_fields c)[i := clean_field (alarm_fields c ! i)]\<rparr>,
     s\<lparr>m_rules := (m_rules s)[i := load_entry (alarm_fields c ! i) (m_rules s ! i)],
       m_invalid_mask := (if field_bad (alarm_fields c ! i) then m_invalid_mask s OR BIT32 i
                          else m_invalid_mask s)\<rparr>,
     if field_fault c (alarm_fields c ! i) then f + 1 else f)"
  by (auto simp: reload_one_def accepted_def clean_field_def load_entry_def field_bad_def
      field_fault_def Let_def unpack_rule_def split: option.splits)

text \<open>After \<open>k\<close> turns: the first \<open>k\<close> fields are clean and loaded, the others untouched.\<close>

definition reload_inv ::
    "nat \<Rightarrow> app_config \<Rightarrow> rule_cache \<Rightarrow> bytes list \<Rightarrow> rule_cache \<Rightarrow> bool" where
  "reload_inv k c0 s0 x s \<longleftrightarrow>
    length x = APP_ALARM_RULE_COUNT \<and> length (m_rules s) = APP_ALARM_RULE_COUNT \<and>
    (\<forall>i < APP_ALARM_RULE_COUNT.
       x ! i = (if i < k then clean_field (alarm_fields c0 ! i) else alarm_fields c0 ! i) \<and>
       m_rules s ! i = (if i < k then load_entry (alarm_fields c0 ! i) (m_rules s0 ! i)
                        else m_rules s0 ! i)) \<and>
    (\<forall>i < 32. bit (m_invalid_mask s) i = (i < k \<and> field_bad (alarm_fields c0 ! i)))"

definition faults_upto :: "nat \<Rightarrow> app_config \<Rightarrow> int" where
  "faults_upto k c = int (length (filter (field_fault c) (take k (alarm_fields c))))"

lemma field_fault_fields [simp]: "field_fault (c\<lparr>alarm_fields := x\<rparr>) b = field_fault c b"
  by (simp add: field_fault_def)

lemma reload_inv_step:
  assumes inv: "reload_inv k c0 s0 x s" and k: "k < APP_ALARM_RULE_COUNT"
  shows "reload_inv (Suc k) c0 s0 (x[k := clean_field (alarm_fields c0 ! k)])
    (s\<lparr>m_rules := (m_rules s)[k := load_entry (alarm_fields c0 ! k) (m_rules s0 ! k)],
       m_invalid_mask := (if field_bad (alarm_fields c0 ! k) then m_invalid_mask s OR BIT32 k
                          else m_invalid_mask s)\<rparr>)"
proof -
  have "k < 32" using k by (simp add: APP_ALARM_RULE_COUNT_def)
  then show ?thesis
    using inv k by (auto simp: reload_inv_def nth_list_update less_Suc_eq bit_valid_update(1))
qed

lemma faults_upto_Suc:
  "k < length (alarm_fields c) \<Longrightarrow>
   faults_upto (Suc k) c = faults_upto k c + (if field_fault c (alarm_fields c ! k) then 1 else 0)"
  by (simp add: faults_upto_def take_Suc_conv_app_nth)

lemma reload_fold:
  assumes "store_shape c0 s0" "m_invalid_mask s0 = 0" "k \<le> APP_ALARM_RULE_COUNT"
  shows "\<exists>x s. fold reload_one [0..<k] (c0, s0, 0) =
      (c0\<lparr>alarm_fields := x\<rparr>, s, faults_upto k c0) \<and> reload_inv k c0 s0 x s"
  using assms(3)
proof (induction k)
  case 0
  show ?case
    by (rule exI [of _ "alarm_fields c0"], rule exI [of _ s0])
       (use assms in \<open>simp add: store_shape_def reload_inv_def faults_upto_def\<close>)
next
  case (Suc k)
  then obtain x s where IH: "fold reload_one [0..<k] (c0, s0, 0) =
      (c0\<lparr>alarm_fields := x\<rparr>, s, faults_upto k c0)" "reload_inv k c0 s0 x s"
    by fastforce
  have k: "k < APP_ALARM_RULE_COUNT" "k < length (alarm_fields c0)"
    using Suc.prems assms by (simp_all add: store_shape_def)
  have xk: "x ! k = alarm_fields c0 ! k" "m_rules s ! k = m_rules s0 ! k"
    using IH(2) k(1) by (simp_all add: reload_inv_def)
  have "fold reload_one [0..<Suc k] (c0, s0, 0) =
     (c0\<lparr>alarm_fields := x[k := clean_field (alarm_fields c0 ! k)]\<rparr>,
      s\<lparr>m_rules := (m_rules s)[k := load_entry (alarm_fields c0 ! k) (m_rules s0 ! k)],
       m_invalid_mask := (if field_bad (alarm_fields c0 ! k) then m_invalid_mask s OR BIT32 k
                          else m_invalid_mask s)\<rparr>,
      faults_upto (Suc k) c0)"
    using xk faults_upto_Suc [OF k(2)] by (simp add: IH(1) reload_one_eq)
  with reload_inv_step [OF IH(2) k(1)] show ?case by metis
qed

text \<open>
  The reload in closed form: every field is read once, kept when it holds a valid rule and zeroed
  otherwise; the cache, the invalid mask and the fault count follow from the fields as they were.
\<close>

lemma reload_closed:
  assumes "store_shape c s"
  obtains s' where
    "app_alarm_rules_reload_from_config (c, s) =
       (int (length (filter (field_fault c) (alarm_fields c))),
        c\<lparr>alarm_fields := map clean_field (alarm_fields c)\<rparr>, s')"
    "m_rules s' = map2 load_entry (alarm_fields c) (m_rules s)"
    "\<And>i. i < 32 \<Longrightarrow> bit (m_invalid_mask s') i =
       (i < APP_ALARM_RULE_COUNT \<and> field_bad (alarm_fields c ! i))"
proof -
  let ?n = APP_ALARM_RULE_COUNT
  have len: "length (alarm_fields c) = ?n" "length (m_rules s) = ?n"
    using assms by (simp_all add: store_shape_def)
  have "store_shape c (s\<lparr>m_invalid_mask := 0\<rparr>)" using assms by (simp add: store_shape_def)
  from reload_fold [OF this _ order_refl]
  obtain x s' where r: "fold reload_one [0..<?n] (c, s\<lparr>m_invalid_mask := 0\<rparr>, 0) =
      (c\<lparr>alarm_fields := x\<rparr>, s', faults_upto ?n c)"
      "reload_inv ?n c (s\<lparr>m_invalid_mask := 0\<rparr>) x s'"
    by auto
  have "x = map clean_field (alarm_fields c)"
    by (rule nth_equalityI) (use r(2) len in \<open>auto simp: reload_inv_def\<close>)
  moreover have "m_rules s' = map2 load_entry (alarm_fields c) (m_rules s)"
    by (rule nth_equalityI) (use r(2) len in \<open>auto simp: reload_inv_def\<close>)
  moreover have "bit (m_invalid_mask s') i = (i < ?n \<and> field_bad (alarm_fields c ! i))"
      if "i < 32" for i
    using r(2) that by (simp add: reload_inv_def)
  moreover have "faults_upto ?n c = int (length (filter (field_fault c) (alarm_fields c)))"
    by (simp add: faults_upto_def len(1) [symmetric])
  ultimately show ?thesis
    using r(1) by (intro that [of s']) (simp_all add: app_alarm_rules_reload_from_config_def)
qed

lemma load_entry_ok: "entry_ok (clean_field b) (load_entry b e)"
  by (auto simp: entry_ok_def clean_field_def load_entry_def accepted_def split: option.splits
      if_splits)

lemma clean_field_length: "length b = RULE_PACK_LEN \<Longrightarrow> length (clean_field b) = RULE_PACK_LEN"
  by (simp add: clean_field_def)

lemma reload_store_ok:
  assumes "store_shape c s"
  shows "store_ok (snd (app_alarm_rules_reload_from_config (c, s)))"
proof -
  obtain s' where r: "app_alarm_rules_reload_from_config (c, s) =
       (int (length (filter (field_fault c) (alarm_fields c))),
        c\<lparr>alarm_fields := map clean_field (alarm_fields c)\<rparr>, s')"
    "m_rules s' = map2 load_entry (alarm_fields c) (m_rules s)"
    using reload_closed [OF assms] by metis
  show ?thesis
    using assms
    by (auto simp: r store_ok_def store_shape_def list_all_length list_all2_conv_all_nth
        load_entry_ok clean_field_length)
qed

lemma rules_get_accepted:
  assumes "store_ok (c, s)" "unat i < APP_ALARM_RULE_COUNT"
  shows "rules_get (c, s) i = accepted (alarm_fields c ! unat i)"
  using store_ok_entry [OF assms] assms(2)
  by (auto simp: rules_get_def app_alarm_rules_get_def entry_ok_def accepted_def split: if_splits)

lemma store_ok_clean:
  assumes "store_ok (c, s)"
  shows "map clean_field (alarm_fields c) = alarm_fields c"
proof (rule map_idI)
  fix b assume "b \<in> set (alarm_fields c)"
  then obtain i where "i < APP_ALARM_RULE_COUNT" "b = alarm_fields c ! i"
    using assms by (auto simp: in_set_conv_nth store_ok_def store_shape_def)
  with store_ok_entry [OF assms] show "clean_field b = b"
    by (fastforce simp: entry_ok_def clean_field_def accepted_def split: if_splits)
qed

lemma accepted_not_bad: "clean_field b = b \<Longrightarrow> \<not> field_bad b"
  by (auto simp: clean_field_def field_bad_def split: if_splits)

lemma mask_from_bit:
  "i + length es \<le> 32 \<Longrightarrow> k < 32 \<Longrightarrow>
   bit (mask_from P es i m) k = (bit m k \<or> (i \<le> k \<and> k < i + length es \<and> P (es ! (k - i))))"
proof (induction es arbitrary: i m)
  case (Cons e es)
  have "bit (mask_from P es (Suc i) (if P e then m OR BIT32 i else m)) k =
     (bit (if P e then m OR BIT32 i else m) k \<or>
      (Suc i \<le> k \<and> k < Suc i + length es \<and> P (es ! (k - Suc i))))"
    by (rule Cons.IH) (use Cons.prems in auto)
  then show ?case
    using Cons.prems
    by (cases "k \<le> i") (auto simp: bit_valid_update(1) Suc_diff_Suc [symmetric])
qed auto

subsection \<open>Properties of the store\<close>

definition demo_rule :: app_alarm_rule where
  "demo_rule = \<lparr>r_slot = 0, r_channel = 0, r_sensor_type = 1, r_enabled = 7, r_from_state = 0,
     r_to_state = 0, r_lo = 0x40A00000, r_hi = 0x41C80000, r_dwell = 0x3F800000\<rparr>"

lemma demo_rule_valid: "rule_valid demo_rule"
  by code_simp

lemma demo_store_ok: "store_ok (demo_config, boot_cache)"
  by code_simp

text \<open>
  C6: a rule that \<open>app_alarm_rules_set\<close> accepts is the one \<open>app_alarm_rules_get\<close> returns there
  (with the enabled byte as 0 or 1), a rejected one changes nothing, and no other position moves.
\<close>

theorem alarm_rules_set_get:
  assumes "store_ok cs"
  shows "rules_get (snd (app_alarm_rules_set i r cs)) j =
    (if j = i \<and> unat i < APP_ALARM_RULE_COUNT \<and> rule_valid r then Some (norm_rule r)
     else rules_get cs j)"
  using assms by (rule rs.get_set_result)

lemma alarm_rules_set_get_witness:
  "rules_get (snd (app_alarm_rules_set 3 demo_rule (demo_config, boot_cache))) 3
     = Some (norm_rule demo_rule)"
  by (simp add: alarm_rules_set_get [OF demo_store_ok] demo_rule_valid APP_ALARM_RULE_COUNT_def)

text \<open>
  C5: loading the rules from any configuration (a SetParam may have written any bytes) leaves
  cache and configuration consistent; the rules served are exactly the fields that hold a
  present and valid rule, and the fault count and the invalid mask report the others and the
  stale ones.
\<close>

theorem alarm_rules_reload_sanitizes:
  assumes "store_shape c s"
    and "app_alarm_rules_reload_from_config (c, s) = (faults, c', s')"
  shows "store_ok (c', s') \<and>
    (\<forall>i. unat i < APP_ALARM_RULE_COUNT \<longrightarrow>
       rules_get (c', s') i = accepted (alarm_fields c ! unat i) \<and>
       bit (app_alarm_rules_invalid_mask s') (unat i) = field_bad (alarm_fields c ! unat i)) \<and>
    faults = int (length (filter (field_fault c) (alarm_fields c)))"
proof -
  obtain s1 where r: "app_alarm_rules_reload_from_config (c, s) =
       (int (length (filter (field_fault c) (alarm_fields c))),
        c\<lparr>alarm_fields := map clean_field (alarm_fields c)\<rparr>, s1)"
    "\<And>i. i < 32 \<Longrightarrow> bit (m_invalid_mask s1) i =
       (i < APP_ALARM_RULE_COUNT \<and> field_bad (alarm_fields c ! i))"
    using reload_closed [OF assms(1)] by metis
  have ok: "store_ok (c', s')" using reload_store_ok [OF assms(1)] assms(2) by simp
  have acc: "accepted (clean_field b) = accepted b" for b
    by (auto simp: clean_field_def accepted_def split: option.splits)
  have len: "length (alarm_fields c) = APP_ALARM_RULE_COUNT"
    using assms(1) by (simp add: store_shape_def)
  have "rules_get (c', s') i = accepted (alarm_fields c ! unat i) \<and>
       bit (app_alarm_rules_invalid_mask s') (unat i) = field_bad (alarm_fields c ! unat i)"
    if "unat i < APP_ALARM_RULE_COUNT" for i
  proof -
    have "unat i < 32" using that by (simp add: APP_ALARM_RULE_COUNT_def)
    then show ?thesis
      using rules_get_accepted [OF ok that] r(2) [of "unat i"] assms(2) r(1) that len acc
      by (auto simp: app_alarm_rules_invalid_mask_def)
  qed
  then show ?thesis using ok assms(2) r(1) by auto
qed

lemma alarm_rules_reload_sanitizes_witness:
  "store_ok (snd (app_alarm_rules_reload_from_config
     (demo_config\<lparr>alarm_fields := (replicate 16 (replicate 18 0))[2 := replicate 18 0xFF]\<rparr>,
      boot_cache)))"
proof -
  let ?c = "demo_config\<lparr>alarm_fields := (replicate 16 (replicate 18 0))[2 := replicate 18 0xFF]\<rparr>"
  obtain f c' s' where "app_alarm_rules_reload_from_config (?c, boot_cache) = (f, c', s')"
    by (metis prod_cases3)
  moreover have "store_shape ?c boot_cache" by code_simp
  ultimately show ?thesis
    using alarm_rules_reload_sanitizes by fastforce
qed

text \<open>
  A reload of a consistent store changes neither the configuration nor any rule that
  \<open>app_alarm_rules_get\<close> returns, and the faults it reports are the stale rules alone.
\<close>

theorem alarm_rules_reload_stable:
  assumes "store_ok (c, s)"
    and "app_alarm_rules_reload_from_config (c, s) = (faults, c', s')"
  shows "c' = c \<and> (\<forall>i. rules_get (c', s') i = rules_get (c, s) i) \<and>
    app_alarm_rules_invalid_mask s' = 0 \<and>
    app_alarm_rules_stale_mask c s' = app_alarm_rules_stale_mask c s"
proof -
  have sh: "store_shape c s" using assms(1) by (rule store_ok_shape)
  obtain s1 where r: "app_alarm_rules_reload_from_config (c, s) =
       (int (length (filter (field_fault c) (alarm_fields c))),
        c\<lparr>alarm_fields := map clean_field (alarm_fields c)\<rparr>, s1)"
    "m_rules s1 = map2 load_entry (alarm_fields c) (m_rules s)"
    "\<And>i. i < 32 \<Longrightarrow> bit (m_invalid_mask s1) i =
       (i < APP_ALARM_RULE_COUNT \<and> field_bad (alarm_fields c ! i))"
    using reload_closed [OF sh] by metis
  have len: "length (alarm_fields c) = APP_ALARM_RULE_COUNT" "length (m_rules s) = APP_ALARM_RULE_COUNT"
    using sh by (simp_all add: store_shape_def)
  have c': "c' = c" and s': "s' = s1" using r(1) assms store_ok_clean by auto
  have e: "e_used (m_rules s1 ! i) = e_used (m_rules s ! i) \<and>
      (e_used (m_rules s ! i) \<longrightarrow> m_rules s1 ! i = m_rules s ! i)"
    if "i < APP_ALARM_RULE_COUNT" for i
    using store_ok_entry [OF assms(1) that] that len r(2)
    by (auto simp: entry_ok_def load_entry_def accepted_def split: option.splits if_splits)
  have "m_invalid_mask s1 = 0"
  proof (rule bit_word_eqI)
    fix i assume "i < LENGTH(32)"
    moreover have "\<not> field_bad (alarm_fields c ! i)" if "i < APP_ALARM_RULE_COUNT"
      using store_ok_clean [OF assms(1)] that len accepted_not_bad
      by (metis nth_map)
    ultimately show "bit (m_invalid_mask s1) i = bit 0 i" using r(3) by auto
  qed
  moreover have "mask_from P (m_rules s1) 0 0 = mask_from P (m_rules s) 0 0"
    if P: "P = (\<lambda>e. e_used e \<and> rule_stale_in c (e_rule e))" for P
    by (rule bit_word_eqI) (use e len r(2) P in \<open>auto simp: mask_from_bit APP_ALARM_RULE_COUNT_def\<close>)
  ultimately show ?thesis
    using e by (auto simp: c' s' rules_get_def app_alarm_rules_get_def app_alarm_rules_invalid_mask_def
        app_alarm_rules_stale_mask_def)
qed

lemma alarm_rules_reload_stable_witness:
  "let cs = snd (app_alarm_rules_set 3 demo_rule (demo_config, boot_cache))
   in fst (snd (app_alarm_rules_reload_from_config cs)) = fst cs"
proof -
  obtain c s where cs: "snd (app_alarm_rules_set 3 demo_rule (demo_config, boot_cache)) = (c, s)"
    by (metis surj_pair)
  obtain f c' s' where r: "app_alarm_rules_reload_from_config (c, s) = (f, c', s')"
    by (metis prod_cases3)
  have "store_ok (c, s)" using set_store_ok [OF demo_store_ok, of 3 demo_rule] cs by simp
  from alarm_rules_reload_stable [OF this r] show ?thesis by (simp add: cs r)
qed

end
