(* ===== verification/Hall.thy ===== *)
theory Hall
  imports SensorTypes
begin

text \<open>
  The hall switch driver (\<open>app/src/app_hall.c\<close>). The GPIO driver is Zephyr's: its return values
  during one poll are the argument \<open>hall_io\<close>. \<open>app_alarm_event\<close> calls are returned as a list of
  (channel, level), in call order; the mutexes make each function one atomic step.
\<close>

unbundle bit_operations_syntax

record app_hall_data =
  left_is_active :: bool
  right_is_active :: bool
  left_count :: u32
  right_count :: u32

definition hall_zero :: app_hall_data where
  "hall_zero = \<lparr>left_is_active = False, right_is_active = False, left_count = 0, right_count = 0\<rparr>"

text \<open>Results of the GPIO calls of one poll: pull-up, read, and pull-down, left and right.\<close>

record hall_io =
  up_l :: int
  up_r :: int
  val_l :: int
  val_r :: int
  down_l :: int
  down_r :: int

definition CH_HALL_LEFT_STATE :: u8 where "CH_HALL_LEFT_STATE = 5"
definition CH_HALL_LEFT_COUNT :: u8 where "CH_HALL_LEFT_COUNT = 6"
definition CH_HALL_RIGHT_STATE :: u8 where "CH_HALL_RIGHT_STATE = 7"
definition CH_HALL_RIGHT_COUNT :: u8 where "CH_HALL_RIGHT_COUNT = 8"

type_synonym alarm_event = "u8 \<times> bool"

text \<open>The error that reaches \<open>restore\<close>, and the error after it.\<close>

definition hall_read_ret :: "app_config \<Rightarrow> hall_io \<Rightarrow> int" where
  "hall_read_ret cfg io =
     (if cap_hall_left cfg \<and> up_l io \<noteq> 0 then up_l io
      else if cap_hall_right cfg \<and> up_r io \<noteq> 0 then up_r io
      else if cap_hall_left cfg \<and> val_l io < 0 then val_l io
      else if cap_hall_right cfg \<and> val_r io < 0 then val_r io
      else 0)"

definition hall_restore_ret :: "app_config \<Rightarrow> hall_io \<Rightarrow> int \<Rightarrow> int" where
  "hall_restore_ret cfg io ret =
     (let ret1 = (if cap_hall_left cfg \<and> down_l io \<noteq> 0 \<and> ret = 0 then down_l io else ret)
      in if cap_hall_right cfg \<and> down_r io \<noteq> 0 \<and> ret1 = 0 then down_r io else ret1)"

definition hall_poll_impl ::
    "app_config \<Rightarrow> hall_io \<Rightarrow> bool \<Rightarrow> app_hall_data \<Rightarrow> int \<times> app_hall_data \<times> alarm_event list" where
  "hall_poll_impl cfg io prime d =
     (let ret = hall_restore_ret cfg io (hall_read_ret cfg io);
          l = (cap_hall_left cfg \<and> val_l io \<noteq> 0);
          r = (cap_hall_right cfg \<and> val_r io \<noteq> 0)
      in if ret \<noteq> 0 then (ret, d, [])
         else
           let left_rise = (\<not> prime \<and> \<not> left_is_active d \<and> l);
               left_fall = (\<not> prime \<and> left_is_active d \<and> \<not> l);
               right_rise = (\<not> prime \<and> \<not> right_is_active d \<and> r);
               right_fall = (\<not> prime \<and> right_is_active d \<and> \<not> r)
           in (0,
               d\<lparr>left_is_active := l, right_is_active := r,
                 left_count := (if left_rise \<and> hall_left_counter cfg then left_count d + 1
                                else left_count d),
                 right_count := (if right_rise \<and> hall_right_counter cfg then right_count d + 1
                                 else right_count d)\<rparr>,
               (if left_rise then [(CH_HALL_LEFT_STATE, True)]
                else if left_fall then [(CH_HALL_LEFT_STATE, False)] else []) @
               (if right_rise then [(CH_HALL_RIGHT_STATE, True)]
                else if right_fall then [(CH_HALL_RIGHT_STATE, False)] else [])))"

definition hall_poll ::
    "app_config \<Rightarrow> hall_io \<Rightarrow> app_hall_data \<Rightarrow> int \<times> app_hall_data \<times> alarm_event list" where
  "hall_poll cfg io d = hall_poll_impl cfg io False d"

definition hall_poll_work_handler ::
    "app_config \<Rightarrow> hall_io \<Rightarrow> app_hall_data \<Rightarrow> app_hall_data \<times> alarm_event list" where
  "hall_poll_work_handler cfg io d =
     (if \<not> cap_hall_left cfg \<and> \<not> cap_hall_right cfg then (d, []) else snd (hall_poll cfg io d))"

text \<open>
  \<open>app_hall_init\<close>: device readiness, the two idle configurations, then the priming poll. The
  boolean says whether the 100 ms timer was started.
\<close>

definition app_hall_init ::
    "app_config \<Rightarrow> bool \<times> bool \<Rightarrow> int \<times> int \<Rightarrow> hall_io \<Rightarrow> app_hall_data
       \<Rightarrow> int res \<times> app_hall_data \<times> bool" where
  "app_hall_init cfg ready conf io d =
     (if \<not> fst ready then (Inl ENODEV, d, False)
      else if \<not> snd ready then (Inl ENODEV, d, False)
      else if fst conf \<noteq> 0 then (Inr (fst conf), d, False)
      else if snd conf \<noteq> 0 then (Inr (snd conf), d, False)
      else case hall_poll_impl cfg io True d of (ret, d', _) \<Rightarrow>
        if ret \<noteq> 0 then (Inr ret, d', False) else (Inr 0, d', True))"

definition app_hall_get_data :: "app_hall_data \<Rightarrow> app_hall_data" where
  "app_hall_get_data d = d"

definition app_hall_reset_count :: "bool \<Rightarrow> bool \<Rightarrow> app_hall_data \<Rightarrow> app_hall_data" where
  "app_hall_reset_count left right d =
     (let d1 = (if left then d\<lparr>left_count := 0\<rparr> else d)
      in if right then d1\<lparr>right_count := 0\<rparr> else d1)"

definition app_hall_reset_counts :: "app_hall_data \<Rightarrow> app_hall_data" where
  "app_hall_reset_counts d = app_hall_reset_count True True d"

definition app_hall_set_counts :: "u32 \<Rightarrow> u32 \<Rightarrow> app_hall_data \<Rightarrow> app_hall_data" where
  "app_hall_set_counts left right d = d\<lparr>left_count := left, right_count := right\<rparr>"

subsection \<open>Facts\<close>

lemma hall_error_keeps:
  "fst (hall_poll_impl cfg io prime d) \<noteq> 0 \<Longrightarrow> snd (hall_poll_impl cfg io prime d) = (d, [])"
  by (auto simp: hall_poll_impl_def Let_def split: if_splits)

lemma hall_prime_silent:
  "snd (snd (hall_poll_impl cfg io True d)) = [] \<and>
   left_count (fst (snd (hall_poll_impl cfg io True d))) = left_count d \<and>
   right_count (fst (snd (hall_poll_impl cfg io True d))) = right_count d"
  by (simp add: hall_poll_impl_def Let_def)

text \<open>The levels of one side over a sequence of successful polls, and its rising edges.\<close>

definition left_level :: "app_config \<Rightarrow> hall_io \<Rightarrow> bool" where
  "left_level cfg io \<longleftrightarrow> cap_hall_left cfg \<and> val_l io \<noteq> 0"

definition hall_ok :: "app_config \<Rightarrow> hall_io \<Rightarrow> bool" where
  "hall_ok cfg io \<longleftrightarrow> hall_restore_ret cfg io (hall_read_ret cfg io) = 0"

fun rises :: "bool \<Rightarrow> bool list \<Rightarrow> nat" where
  "rises p [] = 0"
| "rises p (x # xs) = (if \<not> p \<and> x then 1 else 0) + rises x xs"

definition hall_run :: "app_config \<Rightarrow> hall_io list \<Rightarrow> app_hall_data \<Rightarrow> app_hall_data \<times> alarm_event list"
  where "hall_run cfg ios d =
    fold (\<lambda>io (d, evs). case hall_poll cfg io d of (_, d', e) \<Rightarrow> (d', evs @ e)) ios (d, [])"

lemma hall_poll_ok:
  assumes "hall_ok cfg io"
  shows "left_is_active (fst (snd (hall_poll cfg io d))) = left_level cfg io"
    and "left_count (fst (snd (hall_poll cfg io d))) = left_count d +
      (if hall_left_counter cfg \<and> \<not> left_is_active d \<and> left_level cfg io then 1 else 0)"
  using assms by (auto simp: hall_poll_def hall_poll_impl_def hall_ok_def left_level_def Let_def)

lemma hall_poll_bad: "\<not> hall_ok cfg io \<Longrightarrow> fst (snd (hall_poll cfg io d)) = d"
  by (simp add: hall_poll_def hall_poll_impl_def hall_ok_def Let_def)

lemma hall_run_snoc:
  "hall_run cfg (ios @ [io]) d =
    (case hall_run cfg ios d of (d1, evs) \<Rightarrow> case hall_poll cfg io d1 of (_, d', e) \<Rightarrow> (d', evs @ e))"
  by (simp add: hall_run_def split_def)

lemma rises_snoc: "rises p (xs @ [x]) = rises p xs + (if \<not> last (p # xs) \<and> x then 1 else 0)"
  by (induction xs arbitrary: p) auto

lemma last_Cons_snoc: "last (p # xs @ [x]) = x"
  by simp

text \<open>
  Over any sequence of polls the left totalizer advances by exactly the number of rising
  edges of the level (polls that failed are skipped), and not at all when counting is off.
\<close>

theorem hall_left_count_rises:
  "left_count (fst (hall_run cfg ios d)) = left_count d +
     (if hall_left_counter cfg
      then of_nat (rises (left_is_active d) (map (left_level cfg) (filter (hall_ok cfg) ios))) else 0)
   \<and> left_is_active (fst (hall_run cfg ios d)) =
       last (left_is_active d # map (left_level cfg) (filter (hall_ok cfg) ios))"
proof (induction ios rule: rev_induct)
  case Nil
  then show ?case by (simp add: hall_run_def)
next
  case (snoc io ios)
  let ?d1 = "fst (hall_run cfg ios d)"
  have st: "fst (hall_run cfg (ios @ [io]) d) = fst (snd (hall_poll cfg io ?d1))"
    by (simp add: hall_run_snoc split_def)
  show ?case
  proof (cases "hall_ok cfg io")
    case True
    then show ?thesis
      using snoc by (simp add: st hall_poll_ok rises_snoc last_Cons_snoc del: last.simps)
  next
    case False
    then show ?thesis
      using snoc by (simp add: st hall_poll_bad)
  qed
qed

end
