(* ===== verification/Input.thy ===== *)
theory Input
  imports SensorTypes
begin

text \<open>
  The digital and pulse inputs (\<open>app/src/app_input.c\<close>). A pulse pin counts in its interrupt
  handler \<open>pulse_handler\<close>, which only bumps \<open>pending\<close>; the 100 ms poll folds it into the totals.
  GPIO results and the uptime are arguments. Alarm events and activity marks are returned.
\<close>

unbundle bit_operations_syntax

record app_input_data =
  input_a_is_active :: bool
  input_b_is_active :: bool
  input_a_count :: u32
  input_b_count :: u32

definition PULSE_DEBOUNCE_MS :: u32 where "PULSE_DEBOUNCE_MS = 20"

record pulse_state =
  pending :: u32
  idle_level :: int
  last_edge_ms :: u32

record input_state =
  m_input_data :: app_input_data
  m_pulse_a :: pulse_state
  m_pulse_b :: pulse_state

definition input_zero :: input_state where
  "input_zero = \<lparr>m_input_data = \<lparr>input_a_is_active = False, input_b_is_active = False,
       input_a_count = 0, input_b_count = 0\<rparr>,
     m_pulse_a = \<lparr>pending = 0, idle_level = 0, last_edge_ms = 0\<rparr>,
     m_pulse_b = \<lparr>pending = 0, idle_level = 0, last_edge_ms = 0\<rparr>\<rparr>"

definition CH_INPUT_A_STATE :: u8 where "CH_INPUT_A_STATE = 9"
definition CH_INPUT_A_COUNT :: u8 where "CH_INPUT_A_COUNT = 10"
definition CH_INPUT_B_STATE :: u8 where "CH_INPUT_B_STATE = 12"
definition CH_INPUT_B_COUNT :: u8 where "CH_INPUT_B_COUNT = 13"

text \<open>The interrupt: \<open>now\<close> is \<open>k_uptime_get_32\<close>, \<open>level\<close> the raw pin (negative on error).\<close>

definition pulse_handler :: "u32 \<Rightarrow> int \<Rightarrow> pulse_state \<Rightarrow> pulse_state" where
  "pulse_handler now level st =
     (let prev = last_edge_ms st;
          st1 = st\<lparr>last_edge_ms := now\<rparr>
      in if level < 0 \<or> now - prev < PULSE_DEBOUNCE_MS then st1
         else if level \<noteq> idle_level st1 then st1\<lparr>pending := pending st1 + 1\<rparr>
         else st1)"

definition pulse_setup :: "int \<Rightarrow> u32 \<Rightarrow> int \<Rightarrow> int \<Rightarrow> pulse_state \<Rightarrow> int \<times> pulse_state" where
  "pulse_setup level now add_cb conf_irq st =
     (if level < 0 then (level, st)
      else let st1 = st\<lparr>idle_level := level, last_edge_ms := now\<rparr>
           in if add_cb \<noteq> 0 then (add_cb, st1)
              else if conf_irq \<noteq> 0 then (conf_irq, st1)
              else (0, st1))"

text \<open>What one poll tells the alarm engine: an edge, or activity of a pulse channel.\<close>

datatype input_note = Input_edge u8 bool | Input_activity u8

definition input_poll_impl ::
    "app_config \<Rightarrow> int \<times> int \<Rightarrow> bool \<Rightarrow> input_state \<Rightarrow> int \<times> input_state \<times> input_note list" where
  "input_poll_impl cfg vals prime s =
     (let pulse_a = (cap_gpio_input_a cfg = APP_CONFIG_GPIO_INPUT_PULSE);
          pulse_b = (cap_gpio_input_b cfg = APP_CONFIG_GPIO_INPUT_PULSE);
          is_a = app_sensor_gpio_is_input (cap_gpio_input_a cfg);
          is_b = app_sensor_gpio_is_input (cap_gpio_input_b cfg)
      in if is_a \<and> fst vals < 0 then (fst vals, s, [])
         else if is_b \<and> snd vals < 0 then (snd vals, s, [])
         else
           let d = m_input_data s;
               a = (is_a \<and> fst vals \<noteq> 0);
               b = (is_b \<and> snd vals \<noteq> 0);
               a_rise = (\<not> prime \<and> \<not> pulse_a \<and> \<not> input_a_is_active d \<and> a);
               a_fall = (\<not> prime \<and> \<not> pulse_a \<and> input_a_is_active d \<and> \<not> a);
               b_rise = (\<not> prime \<and> \<not> pulse_b \<and> \<not> input_b_is_active d \<and> b);
               b_fall = (\<not> prime \<and> \<not> pulse_b \<and> input_b_is_active d \<and> \<not> b);
               a_pulses = (if pulse_a then pending (m_pulse_a s) else 0);
               b_pulses = (if pulse_b then pending (m_pulse_b s) else 0);
               ca = input_a_count d + a_pulses;
               cb = input_b_count d + b_pulses
           in (0,
               s\<lparr>m_input_data := d\<lparr>input_a_is_active := a, input_b_is_active := b,
                    input_a_count := (if a_rise \<and> input_a_counter cfg then ca + 1 else ca),
                    input_b_count := (if b_rise \<and> input_b_counter cfg then cb + 1 else cb)\<rparr>,
                 m_pulse_a := (if pulse_a then (m_pulse_a s)\<lparr>pending := 0\<rparr> else m_pulse_a s),
                 m_pulse_b := (if pulse_b then (m_pulse_b s)\<lparr>pending := 0\<rparr> else m_pulse_b s)\<rparr>,
               (if a_rise then [Input_edge CH_INPUT_A_STATE True]
                else if a_fall then [Input_edge CH_INPUT_A_STATE False] else []) @
               (if b_rise then [Input_edge CH_INPUT_B_STATE True]
                else if b_fall then [Input_edge CH_INPUT_B_STATE False] else []) @
               (if a_pulses \<noteq> 0 then [Input_activity CH_INPUT_A_COUNT] else []) @
               (if b_pulses \<noteq> 0 then [Input_activity CH_INPUT_B_COUNT] else [])))"

definition input_poll ::
    "app_config \<Rightarrow> int \<times> int \<Rightarrow> input_state \<Rightarrow> int \<times> input_state \<times> input_note list" where
  "input_poll cfg vals s = input_poll_impl cfg vals False s"

definition input_poll_work_handler ::
    "app_config \<Rightarrow> int \<times> int \<Rightarrow> input_state \<Rightarrow> input_state \<times> input_note list" where
  "input_poll_work_handler cfg vals s =
     (if \<not> app_sensor_gpio_is_input (cap_gpio_input_a cfg) \<and>
         \<not> app_sensor_gpio_is_input (cap_gpio_input_b cfg) then (s, [])
      else snd (input_poll cfg vals s))"

text \<open>The arguments of one \<open>pulse_setup\<close>: level, uptime, and the two driver results.\<close>

type_synonym setup_io = "int \<times> u32 \<times> int \<times> int"

definition app_input_init ::
    "app_config \<Rightarrow> bool \<times> bool \<Rightarrow> int \<times> int \<Rightarrow> int \<times> int \<Rightarrow> setup_io \<Rightarrow> setup_io \<Rightarrow> input_state
       \<Rightarrow> int res \<times> input_state \<times> bool" where
  "app_input_init cfg ready conf vals io_a io_b s =
     (if \<not> fst ready then (Inl ENODEV, s, False)
      else if \<not> snd ready then (Inl ENODEV, s, False)
      else if fst conf \<noteq> 0 then (Inr (fst conf), s, False)
      else if snd conf \<noteq> 0 then (Inr (snd conf), s, False)
      else case input_poll_impl cfg vals True s of (ret, s1, _) \<Rightarrow>
        if ret \<noteq> 0 then (Inr ret, s1, False)
        else
          let (ra, pa) = (if cap_gpio_input_a cfg = APP_CONFIG_GPIO_INPUT_PULSE
                          then (case io_a of (l, t, c, i) \<Rightarrow> pulse_setup l t c i (m_pulse_a s1))
                          else (0, m_pulse_a s1));
              s2 = s1\<lparr>m_pulse_a := pa\<rparr>
          in if ra \<noteq> 0 then (Inr ra, s2, False)
             else
               let (rb, pb) = (if cap_gpio_input_b cfg = APP_CONFIG_GPIO_INPUT_PULSE
                               then (case io_b of (l, t, c, i) \<Rightarrow> pulse_setup l t c i (m_pulse_b s2))
                               else (0, m_pulse_b s2));
                   s3 = s2\<lparr>m_pulse_b := pb\<rparr>
               in if rb \<noteq> 0 then (Inr rb, s3, False) else (Inr 0, s3, True))"

definition app_input_get_data :: "input_state \<Rightarrow> app_input_data" where
  "app_input_get_data s = m_input_data s"

definition app_input_reset_count :: "bool \<Rightarrow> bool \<Rightarrow> input_state \<Rightarrow> input_state" where
  "app_input_reset_count a b s =
     (let s1 = (if a then s\<lparr>m_input_data := (m_input_data s)\<lparr>input_a_count := 0\<rparr>,
                            m_pulse_a := (m_pulse_a s)\<lparr>pending := 0\<rparr>\<rparr> else s)
      in if b then s1\<lparr>m_input_data := (m_input_data s1)\<lparr>input_b_count := 0\<rparr>,
                      m_pulse_b := (m_pulse_b s1)\<lparr>pending := 0\<rparr>\<rparr> else s1)"

definition app_input_reset_counts :: "input_state \<Rightarrow> input_state" where
  "app_input_reset_counts s = app_input_reset_count True True s"

definition app_input_set_counts :: "u32 \<Rightarrow> u32 \<Rightarrow> input_state \<Rightarrow> input_state" where
  "app_input_set_counts a b s =
     s\<lparr>m_input_data := (m_input_data s)\<lparr>input_a_count := a, input_b_count := b\<rparr>\<rparr>"

subsection \<open>Debounce\<close>

text \<open>
  A burst is what one mechanical or electrical transition produces: a first edge after at least
  20 ms of quiet, then bounce edges each within 20 ms of the edge before it.
\<close>

fun bounces :: "u32 \<Rightarrow> (u32 \<times> int) list \<Rightarrow> bool" where
  "bounces t [] = True"
| "bounces t ((t', l) # es) = (t' - t < PULSE_DEBOUNCE_MS \<and> bounces t' es)"

definition pulse_run :: "(u32 \<times> int) list \<Rightarrow> pulse_state \<Rightarrow> pulse_state" where
  "pulse_run es st = fold (\<lambda>(t, l) st. pulse_handler t l st) es st"

lemma bounces_no_count:
  "bounces (last_edge_ms st) es \<Longrightarrow>
   pending (pulse_run es st) = pending st \<and> idle_level (pulse_run es st) = idle_level st"
proof (induction es arbitrary: st)
  case (Cons e es)
  obtain t l where e: "e = (t, l)" by (cases e)
  with Cons.prems have b: "t - last_edge_ms st < PULSE_DEBOUNCE_MS" "bounces t es" by auto
  have "pulse_handler t l st = st\<lparr>last_edge_ms := t\<rparr>" using b(1) by (simp add: pulse_handler_def)
  with Cons.IH [of "st\<lparr>last_edge_ms := t\<rparr>"] b(2) show ?case
    by (simp add: pulse_run_def e)
qed (simp add: pulse_run_def)

text \<open>
  C7: however many times a pulse pin bounces, one transition of the line counts at most once, and
  exactly when its first edge reads a level away from idle: a pulse (a transition away from idle
  and one back) adds one.
\<close>

theorem pulse_burst_counts_once:
  assumes "PULSE_DEBOUNCE_MS \<le> t - last_edge_ms st" and "0 \<le> l" and "bounces t es"
  shows "pending (pulse_run ((t, l) # es) st) = pending st + (if l \<noteq> idle_level st then 1 else 0)
    \<and> idle_level (pulse_run ((t, l) # es) st) = idle_level st"
proof -
  let ?st = "pulse_handler t l st"
  have h: "last_edge_ms ?st = t" "idle_level ?st = idle_level st"
      "pending ?st = pending st + (if l \<noteq> idle_level st then 1 else 0)"
    using assms(1,2) by (auto simp: pulse_handler_def Let_def not_less)
  have "pulse_run ((t, l) # es) st = pulse_run es ?st" by (simp add: pulse_run_def)
  with bounces_no_count [of ?st es] assms(3) h show ?thesis by simp
qed

lemma pulse_burst_counts_once_witness:
  "pending (pulse_run [(1000, 1), (1003, 0), (1004, 1)]
     \<lparr>pending = 7, idle_level = 0, last_edge_ms = 400\<rparr>) = 8"
  using pulse_burst_counts_once [of 1000 "\<lparr>pending = 7, idle_level = 0, last_edge_ms = 400\<rparr>" 1
      "[(1003, 0), (1004, 1)]"]
  by (simp add: PULSE_DEBOUNCE_MS_def)

lemma input_pulse_conserved:
  "cap_gpio_input_a cfg = APP_CONFIG_GPIO_INPUT_PULSE \<Longrightarrow>
   input_a_count (m_input_data (fst (snd (input_poll_impl cfg vals prime s)))) +
     pending (m_pulse_a (fst (snd (input_poll_impl cfg vals prime s)))) =
   input_a_count (m_input_data s) + pending (m_pulse_a s)"
  by (simp add: input_poll_impl_def Let_def)

end
