(* ===== verification/AlarmEval.thy ===== *)
theory AlarmEval
  imports AlarmRules Hall Input
begin

text \<open>
  The alarm evaluator (\<open>app/src/app_alarm.c\<close>, all but the event batch, which is \<open>AlarmBatch\<close>).
  One call of the C code is one function here: it takes the environment it reads (runtime
  configuration, uptime, rule cache, sensor data, 1-Wire slot table) and returns the new latches
  and the events handed to \<open>alarm_collect\<close>, in call order. Every \<open>*should_send = true\<close> of the
  code stands next to an \<open>alarm_collect\<close>, so \<open>should_send\<close> is "some event was collected". The
  uptime is read once per call; the code reads it again inside the helpers.
\<close>

unbundle bit_operations_syntax

subsection \<open>Constants\<close>

definition APP_ALARM_NO_DATA_MS :: u32 where "APP_ALARM_NO_DATA_MS = 5000"
definition APP_ALARM_WATCHDOG_RULE :: u8 where "APP_ALARM_WATCHDOG_RULE = 0xFF"
definition APP_ALARM_BATTERY_RULE :: u8 where "APP_ALARM_BATTERY_RULE = 0xFE"
definition APP_ALARM_BATTERY_HYST_V :: f32 where "APP_ALARM_BATTERY_HYST_V = 0x3E99999A"
definition CH_BATTERY_VOLTAGE :: u8 where "CH_BATTERY_VOLTAGE = 20"

definition ALARM_TYPE_NONE :: u8 where "ALARM_TYPE_NONE = 0"
definition ALARM_TYPE_LOW :: u8 where "ALARM_TYPE_LOW = 1"
definition ALARM_TYPE_HIGH :: u8 where "ALARM_TYPE_HIGH = 2"
definition ALARM_TYPE_TRIGGER :: u8 where "ALARM_TYPE_TRIGGER = 3"
definition ALARM_TYPE_NO_DATA :: u8 where "ALARM_TYPE_NO_DATA = 4"
definition ALARM_TYPE_SENSOR_MISMATCH :: u8 where "ALARM_TYPE_SENSOR_MISMATCH = 5"
definition ALARM_EDGE_ACT :: u8 where "ALARM_EDGE_ACT = 0"
definition ALARM_EDGE_DEACT :: u8 where "ALARM_EDGE_DEACT = 1"

lemmas alarm_types = ALARM_TYPE_NONE_def ALARM_TYPE_LOW_def ALARM_TYPE_HIGH_def
  ALARM_TYPE_TRIGGER_def ALARM_TYPE_NO_DATA_def ALARM_TYPE_SENSOR_MISMATCH_def

subsection \<open>State\<close>

record rstate =
  rt_used :: bool
  rt_active :: bool
  rt_type :: u8
  rt_prev_state :: u8
  rt_have_prev_state :: bool
  rt_prev_count :: u32
  rt_have_prev_count :: bool
  rt_count_window_start :: int
  rt_oneshot_expiry :: int
  rt_confirm_deadline :: int
  rt_last_rule :: app_alarm_rule

definition rt_zero :: rstate where
  "rt_zero = \<lparr>rt_used = False, rt_active = False, rt_type = 0, rt_prev_state = 0,
     rt_have_prev_state = False, rt_prev_count = 0, rt_have_prev_count = False,
     rt_count_window_start = 0, rt_oneshot_expiry = 0, rt_confirm_deadline = 0,
     rt_last_rule = zero_rule\<rparr>"

record nodata_latch =
  nd_nan_since :: u32
  nd_nan :: bool
  nd_active :: bool
  nd_seen :: bool
  nd_channel :: u8

text \<open>
  The flat \<open>m_nodata\<close> array is one list per slot here (\<open>nodata_latches\<close> is list indexing): six
  motherboard latches, then six for each 1-Wire slot.
\<close>

record alarm_state =
  m_rt :: "rstate list"
  m_nodata :: "nodata_latch list list"
  m_nodata_type :: "u8 list"
  m_battery_low_active :: bool
  m_mismatch_active :: "bool list"
  m_mismatch_expected :: "u8 list"
  m_mismatch_detected :: "u8 list"
  m_last_alarm_send_ms :: int
  m_active_mask :: u32
  m_activation_seq :: u32

definition NODATA_SLOTS :: nat where "NODATA_SLOTS = 5"
definition APP_ALARM_NODATA_MB_MAX :: nat where "APP_ALARM_NODATA_MB_MAX = 6"
definition APP_ALARM_NODATA_W1_MAX :: nat where
  "APP_ALARM_NODATA_W1_MAX = 1 + APP_SENSOR_W1_PART_MAX"

definition nd_zero :: nodata_latch where
  "nd_zero = \<lparr>nd_nan_since = 0, nd_nan = False, nd_active = False, nd_seen = False, nd_channel = 0\<rparr>"

definition boot_alarm :: alarm_state where
  "boot_alarm = \<lparr>m_rt = replicate APP_ALARM_RULE_COUNT rt_zero,
     m_nodata = replicate APP_ALARM_NODATA_MB_MAX nd_zero
       # replicate 4 (replicate APP_ALARM_NODATA_W1_MAX nd_zero),
     m_nodata_type = replicate NODATA_SLOTS 0,
     m_battery_low_active = False, m_mismatch_active = replicate APP_W1_SLOT_COUNT False,
     m_mismatch_expected = replicate APP_W1_SLOT_COUNT 0,
     m_mismatch_detected = replicate APP_W1_SLOT_COUNT 0,
     m_last_alarm_send_ms = - 1, m_active_mask = 0, m_activation_seq = 0\<rparr>"

text \<open>
  What a call reads: \<open>g_app_config\<close>, \<open>k_uptime_get()\<close>, the rule cache, \<open>g_app_sensor_data\<close>, the
  live hall and input data, and per 1-Wire slot the answers of \<open>app_w1_slots\<close>: state is
  mismatch, slot is configured, expected type, detected type.
\<close>

record alarm_env =
  cfg :: app_config
  now :: int
  rules :: rule_cache
  sdata :: app_sensor_data
  hall :: app_hall_data
  inp :: app_input_data
  w1_mismatch :: "bool list"
  w1_configured :: "bool list"
  w1_expected :: "u8 list"
  w1_detected :: "u8 list"

text \<open>\<open>struct app_cmd_alarm_event\<close>; \<open>rel_s\<close> is filled in by \<open>alarm_queue\<close>.\<close>

record app_cmd_alarm_event =
  ev_rule :: u8
  ev_slot :: u8
  ev_channel :: u8
  ev_edge :: u8
  ev_type :: u8
  ev_sensor_type :: u8
  ev_has_value :: bool
  ev_value :: int
  ev_rel_s :: u32

type_synonym events = "app_cmd_alarm_event list"

subsection \<open>Collecting events\<close>

definition edge_of :: "bool \<Rightarrow> u8" where
  "edge_of active = (if active then ALARM_EDGE_ACT else ALARM_EDGE_DEACT)"

definition alarm_collect :: "nat \<Rightarrow> app_alarm_rule \<Rightarrow> bool \<Rightarrow> u8 \<Rightarrow> bool \<Rightarrow> int \<Rightarrow> events" where
  "alarm_collect idx rule active ty has_value v =
     [\<lparr>ev_rule = of_nat idx, ev_slot = r_slot rule, ev_channel = r_channel rule,
       ev_edge = edge_of active, ev_type = ty, ev_sensor_type = r_sensor_type rule,
       ev_has_value = has_value, ev_value = v, ev_rel_s = 0\<rparr>]"

definition alarm_collect_nodata :: "nat \<Rightarrow> u8 \<Rightarrow> u8 \<Rightarrow> bool \<Rightarrow> events" where
  "alarm_collect_nodata slot channel sty active =
     [\<lparr>ev_rule = APP_ALARM_WATCHDOG_RULE, ev_slot = of_nat slot, ev_channel = channel,
       ev_edge = edge_of active, ev_type = ALARM_TYPE_NO_DATA, ev_sensor_type = sty,
       ev_has_value = False, ev_value = 0, ev_rel_s = 0\<rparr>]"

definition alarm_collect_mismatch :: "nat \<Rightarrow> u8 \<Rightarrow> u8 \<Rightarrow> bool \<Rightarrow> events" where
  "alarm_collect_mismatch w1_slot expected detected active =
     [\<lparr>ev_rule = APP_ALARM_WATCHDOG_RULE, ev_slot = of_nat (w1_slot + 1), ev_channel = 0,
       ev_edge = edge_of active, ev_type = ALARM_TYPE_SENSOR_MISMATCH, ev_sensor_type = expected,
       ev_has_value = True, ev_value = uint detected, ev_rel_s = 0\<rparr>]"

definition alarm_scale :: "sensor_channel option \<Rightarrow> f32 \<Rightarrow> int" where
  "alarm_scale c v =
     lroundf (f32_mul v (case c of None \<Rightarrow> 0x3F800000 | Some d \<Rightarrow> ch_wire_scale d))"

definition rule_scale :: "app_alarm_rule \<Rightarrow> f32 \<Rightarrow> int" where
  "rule_scale rule v = alarm_scale (app_alarm_rule_channel rule) v"

definition alarm_collect_battery :: "bool \<Rightarrow> f32 \<Rightarrow> events" where
  "alarm_collect_battery active voltage =
     [\<lparr>ev_rule = APP_ALARM_BATTERY_RULE, ev_slot = APP_ALARM_SLOT_MB,
       ev_channel = CH_BATTERY_VOLTAGE, ev_edge = edge_of active, ev_type = ALARM_TYPE_LOW,
       ev_sensor_type = APP_SENSOR_TYPE_MOTHERBOARD, ev_has_value = True,
       ev_value = alarm_scale (app_sensor_channel_get APP_SENSOR_TYPE_MOTHERBOARD CH_BATTERY_VOLTAGE)
         voltage, ev_rel_s = 0\<rparr>]"

definition rt_edge_type :: "rstate \<Rightarrow> u8" where
  "rt_edge_type rt = (if rt_type rt \<noteq> ALARM_TYPE_NONE then rt_type rt else ALARM_TYPE_TRIGGER)"

text \<open>\<open>(int64_t)(dwell * 1000.0f)\<close>, negative and NaN clamped to 0.\<close>

definition rule_hold_ms :: "app_alarm_rule \<Rightarrow> int" where
  "rule_hold_ms rule =
     (let s = (if f32_le 0 (r_dwell rule) then r_dwell rule else 0)
      in f32_trunc (f32_mul s 0x447A0000))"

subsection \<open>Latch synchronisation\<close>

definition rt_sync ::
    "alarm_env \<Rightarrow> nat \<Rightarrow> rstate \<Rightarrow> app_alarm_rule option \<times> rstate \<times> events" where
  "rt_sync env idx rt = (case app_alarm_rules_get (rules env) (of_nat idx) of
     None \<Rightarrow>
       (if rt_used rt
        then (None, rt_zero,
              if rt_active rt
              then alarm_collect idx (rt_last_rule rt) False (rt_edge_type rt) False 0 else [])
        else (None, rt, []))
   | Some rule \<Rightarrow>
       (if \<not> rt_used rt \<or> rt_last_rule rt \<noteq> rule
        then (Some rule, rt_zero\<lparr>rt_used := True, rt_last_rule := rule\<rparr>,
              if rt_active rt
              then alarm_collect idx (rt_last_rule rt) False (rt_edge_type rt) False 0 else [])
        else (Some rule, rt, [])))"

definition rt_sync_armed ::
    "alarm_env \<Rightarrow> nat \<Rightarrow> rstate \<Rightarrow> app_alarm_rule option \<times> rstate \<times> events" where
  "rt_sync_armed env idx rt = (case rt_sync env idx rt of
     (None, rt', evs) \<Rightarrow> (None, rt', evs)
   | (Some rule, rt', evs) \<Rightarrow>
       (Some (if app_alarm_rule_armed (cfg env) rule then rule else rule\<lparr>r_enabled := 0\<rparr>), rt', evs))"

subsection \<open>Reading values\<close>

definition read_value :: "alarm_env \<Rightarrow> u8 \<Rightarrow> u8 \<Rightarrow> u8 \<Rightarrow> f32" where
  "read_value env slot ch sty =
     (let d = sdata env
      in if slot = APP_ALARM_SLOT_MB
         then (if unat ch < length m_ch_motherboard then mb_v (sd_mb d) ! unat ch else NAN)
         else if APP_ALARM_SLOT_MAX < slot \<or> APP_SENSOR_W1_CH_MAX \<le> unat ch \<or>
                 w1_type (sd_w1 d ! (unat slot - 1)) \<noteq> sty then NAN
         else w1_v (sd_w1 d ! (unat slot - 1)) ! unat ch)"

definition read_counter :: "alarm_env \<Rightarrow> app_alarm_rule \<Rightarrow> sensor_channel \<Rightarrow> u32 option" where
  "read_counter env rule c =
     (if r_slot rule \<noteq> APP_ALARM_SLOT_MB \<or> \<not> has_flag c APP_SENSOR_F_COUNTER then None
      else if r_channel rule = CH_HALL_LEFT_COUNT \<or> r_channel rule = CH_HALL_RIGHT_COUNT
      then (let hd = app_hall_get_data (hall env)
            in Some (if r_channel rule = CH_HALL_LEFT_COUNT then left_count hd else right_count hd))
      else if r_channel rule = CH_INPUT_A_COUNT \<or> r_channel rule = CH_INPUT_B_COUNT
      then Some (if r_channel rule = CH_INPUT_A_COUNT then input_a_count (inp env)
                 else input_b_count (inp env))
      else Some (mb_v (sd_mb (sdata env)) ! unat (r_channel rule)))"

definition read_poll_state :: "alarm_env \<Rightarrow> app_alarm_rule \<Rightarrow> sensor_channel \<Rightarrow> bool option" where
  "read_poll_state env rule c =
     (if has_flag c APP_SENSOR_F_MOMENTARY then None
      else if r_slot rule = APP_ALARM_SLOT_MB \<and>
              (r_channel rule = CH_HALL_LEFT_STATE \<or> r_channel rule = CH_HALL_RIGHT_STATE)
      then Some (if r_channel rule = CH_HALL_LEFT_STATE then left_is_active (hall env)
                 else right_is_active (hall env))
      else if r_slot rule = APP_ALARM_SLOT_MB \<and>
              (r_channel rule = CH_INPUT_A_STATE \<or> r_channel rule = CH_INPUT_B_STATE)
      then Some (if r_channel rule = CH_INPUT_A_STATE then input_a_is_active (inp env)
                 else input_b_is_active (inp env))
      else let v = read_value env (r_slot rule) (r_channel rule) (r_sensor_type rule)
           in if f32_nan v then None else Some (f32_eq v 0x3F800000))"

subsection \<open>Rule evaluation\<close>

text \<open>Threshold: activate outside \<open>[lo, hi]\<close>, clear past the deadband \<open>dwell\<close>.\<close>

definition threshold_want :: "app_alarm_rule \<Rightarrow> f32 \<Rightarrow> u8" where
  "threshold_want rule v =
     (if f32_lt v (r_lo rule) then ALARM_TYPE_LOW
      else if f32_lt (r_hi rule) v then ALARM_TYPE_HIGH
      else ALARM_TYPE_NONE)"

definition threshold_db :: "app_alarm_rule \<Rightarrow> f32" where
  "threshold_db rule = (if f32_le 0 (r_dwell rule) then r_dwell rule else 0)"

definition threshold_cleared :: "app_alarm_rule \<Rightarrow> u8 \<Rightarrow> f32 \<Rightarrow> bool" where
  "threshold_cleared rule ty v =
     (if ty = ALARM_TYPE_HIGH then f32_lt v (f32_sub (r_hi rule) (threshold_db rule))
      else f32_lt (f32_add (r_lo rule) (threshold_db rule)) v)"

definition eval_threshold ::
    "nat \<Rightarrow> app_alarm_rule \<Rightarrow> rstate \<Rightarrow> f32 \<Rightarrow> rstate \<times> events" where
  "eval_threshold idx rule rt v =
     (if r_enabled rule = 0 \<or> f32_nan v
      then (if rt_active rt
            then (rt\<lparr>rt_active := False\<rparr>, alarm_collect idx rule False (rt_type rt) False 0)
            else (rt, []))
      else
        let want = threshold_want rule v;
            activate = (\<lambda>rt evs. if want = ALARM_TYPE_NONE then (rt, evs)
                          else (rt\<lparr>rt_active := True, rt_type := want\<rparr>,
                                evs @ alarm_collect idx rule True want True (rule_scale rule v)))
        in if rt_active rt
           then (if want = rt_type rt then (rt, [])
                 else if \<not> threshold_cleared rule (rt_type rt) v \<and> want = ALARM_TYPE_NONE
                 then (rt, [])
                 else activate (rt\<lparr>rt_active := False\<rparr>)
                        (alarm_collect idx rule False (rt_type rt) True (rule_scale rule v)))
           else activate rt [])"

definition rule_is_momentary :: "app_alarm_rule \<Rightarrow> bool" where
  "rule_is_momentary rule = (case app_alarm_rule_channel rule of
     None \<Rightarrow> False | Some c \<Rightarrow> has_flag c APP_SENSOR_F_MOMENTARY)"

definition rule_is_stillness :: "app_alarm_rule \<Rightarrow> bool" where
  "rule_is_stillness rule \<longleftrightarrow> r_from_state rule = 0 \<and> r_to_state rule = 0"

definition rule_is_edge :: "app_alarm_rule \<Rightarrow> bool" where
  "rule_is_edge rule \<longleftrightarrow> r_from_state rule \<noteq> r_to_state rule"

text \<open>\<open>have_prev_state = true; prev_state = cur_lvl\<close>, at the end of every path of \<open>eval_state\<close>.\<close>

definition seen_level :: "bool \<Rightarrow> rstate \<Rightarrow> rstate" where
  "seen_level cur rt = rt\<lparr>rt_have_prev_state := True, rt_prev_state := of_bool cur\<rparr>"

text \<open>The branches of \<open>eval_state\<close>, each without the final \<open>seen_level\<close>.\<close>

definition state_disabled :: "nat \<Rightarrow> app_alarm_rule \<Rightarrow> rstate \<Rightarrow> rstate \<times> events" where
  "state_disabled idx rule rt =
     (if rt_active rt
      then (rt\<lparr>rt_active := False, rt_oneshot_expiry := 0, rt_confirm_deadline := 0\<rparr>,
            alarm_collect idx rule False ALARM_TYPE_TRIGGER True 0)
      else (rt\<lparr>rt_confirm_deadline := 0\<rparr>, []))"

definition state_stillness ::
    "int \<Rightarrow> nat \<Rightarrow> app_alarm_rule \<Rightarrow> rstate \<Rightarrow> bool \<Rightarrow> rstate \<times> events" where
  "state_stillness t idx rule rt cur =
     (if cur
      then (let rt1 = rt\<lparr>rt_confirm_deadline := t + rule_hold_ms rule\<rparr>
            in if rt_active rt
               then (rt1\<lparr>rt_active := False\<rparr>, alarm_collect idx rule False ALARM_TYPE_TRIGGER True 1)
               else (rt1, []))
      else (rt, []))"

definition state_momentary ::
    "int \<Rightarrow> nat \<Rightarrow> app_alarm_rule \<Rightarrow> rstate \<Rightarrow> bool \<Rightarrow> rstate \<times> events" where
  "state_momentary t idx rule rt cur =
     (let lapsed = (rt_active rt \<and> rt_oneshot_expiry rt \<noteq> 0 \<and> rt_oneshot_expiry rt \<le> t);
          rt1 = (if lapsed then rt\<lparr>rt_active := False, rt_oneshot_expiry := 0\<rparr> else rt);
          ev1 = (if lapsed \<and> \<not> rule_is_edge rule
                 then alarm_collect idx rule False ALARM_TYPE_TRIGGER True 0 else [])
      in if cur \<and> \<not> rt_active rt1
         then (rt1\<lparr>rt_active := True, rt_oneshot_expiry := t + rule_hold_ms rule\<rparr>,
               ev1 @ alarm_collect idx rule True ALARM_TYPE_TRIGGER True (of_bool cur))
         else if cur \<and> \<not> rule_is_edge rule
         then (rt1\<lparr>rt_oneshot_expiry := t + rule_hold_ms rule\<rparr>, ev1)
         else (rt1, ev1))"

definition state_edge ::
    "int \<Rightarrow> nat \<Rightarrow> app_alarm_rule \<Rightarrow> rstate \<Rightarrow> bool \<Rightarrow> rstate \<times> events" where
  "state_edge t idx rule rt cur =
     (let lvl = (of_bool cur :: u8);
          hold = rule_hold_ms rule;
          raw = (rt_have_prev_state rt \<and> rt_prev_state rt = r_from_state rule \<and> lvl = r_to_state rule)
      in if raw \<and> rt_confirm_deadline rt = 0
         then (if hold \<le> 0
               then (rt\<lparr>rt_active := True, rt_oneshot_expiry := t\<rparr>,
                     alarm_collect idx rule True ALARM_TYPE_TRIGGER True (of_bool cur))
               else (rt\<lparr>rt_confirm_deadline := t + hold\<rparr>, []))
         else if rt_confirm_deadline rt \<noteq> 0 \<and> lvl \<noteq> r_to_state rule
         then (rt\<lparr>rt_confirm_deadline := 0\<rparr>, [])
         else if rt_confirm_deadline rt \<noteq> 0 \<and> rt_confirm_deadline rt \<le> t
         then (rt\<lparr>rt_confirm_deadline := 0, rt_active := True, rt_oneshot_expiry := t + hold\<rparr>,
               alarm_collect idx rule True ALARM_TYPE_TRIGGER True (of_bool cur))
         else (rt, []))"

definition state_level ::
    "int \<Rightarrow> nat \<Rightarrow> app_alarm_rule \<Rightarrow> rstate \<Rightarrow> bool \<Rightarrow> rstate \<times> events" where
  "state_level t idx rule rt cur =
     (let hold = rule_hold_ms rule
      in if (of_bool cur :: u8) \<noteq> r_to_state rule
         then (if rt_active rt
               then (rt\<lparr>rt_confirm_deadline := 0, rt_active := False\<rparr>,
                     alarm_collect idx rule False ALARM_TYPE_TRIGGER True (of_bool cur))
               else (rt\<lparr>rt_confirm_deadline := 0\<rparr>, []))
         else if \<not> rt_active rt
         then (if hold \<le> 0
               then (rt\<lparr>rt_active := True\<rparr>,
                     alarm_collect idx rule True ALARM_TYPE_TRIGGER True (of_bool cur))
               else if rt_confirm_deadline rt = 0
               then (rt\<lparr>rt_confirm_deadline := t + hold\<rparr>, [])
               else if rt_confirm_deadline rt \<le> t
               then (rt\<lparr>rt_confirm_deadline := 0, rt_active := True\<rparr>,
                     alarm_collect idx rule True ALARM_TYPE_TRIGGER True (of_bool cur))
               else (rt, []))
         else (rt, []))"

definition eval_state ::
    "int \<Rightarrow> nat \<Rightarrow> app_alarm_rule \<Rightarrow> rstate \<Rightarrow> bool \<Rightarrow> rstate \<times> events" where
  "eval_state t idx rule rt cur =
     (let (rt', evs) =
        (if r_enabled rule = 0 then state_disabled idx rule rt
         else if rule_is_momentary rule \<and> rule_is_stillness rule
         then state_stillness t idx rule rt cur
         else if rule_is_momentary rule then state_momentary t idx rule rt cur
         else if rule_is_edge rule then state_edge t idx rule rt cur
         else state_level t idx rule rt cur)
      in (seen_level cur rt', evs))"

text \<open>Counter rate: a tumbling window from its baseline, of \<open>dwell\<close> or the report interval.\<close>

definition rate_window_ms :: "app_config \<Rightarrow> app_alarm_rule \<Rightarrow> int" where
  "rate_window_ms g rule =
     (if f32_lt 0 (r_dwell rule) then rule_hold_ms rule else interval_report g * 1000)"

definition rate_over :: "app_alarm_rule \<Rightarrow> u32 \<Rightarrow> bool" where
  "rate_over rule delta \<longleftrightarrow>
     f32_lt 0 (r_hi rule) \<and> f32_le (r_hi rule) (f32_of_int (uint delta))"

definition eval_count ::
    "app_config \<Rightarrow> int \<Rightarrow> nat \<Rightarrow> app_alarm_rule \<Rightarrow> rstate \<Rightarrow> u32 \<Rightarrow> rstate \<times> events" where
  "eval_count g t idx rule rt cur =
     (let rebase = (\<lambda>rt. rt\<lparr>rt_prev_count := cur, rt_count_window_start := t\<rparr>)
      in if \<not> rt_have_prev_count rt \<or> r_enabled rule = 0
         then (rebase (rt\<lparr>rt_active := False, rt_have_prev_count := True\<rparr>),
               if rt_active rt
               then alarm_collect idx rule False ALARM_TYPE_TRIGGER True (sint cur) else [])
         else if cur < rt_prev_count rt then (rebase rt, [])
         else
           let closed = (rate_window_ms g rule \<le> t - rt_count_window_start rt);
               over = rate_over rule (cur - rt_prev_count rt)
           in if \<not> rt_active rt
              then (if over
                    then (rebase (rt\<lparr>rt_active := True\<rparr>),
                          alarm_collect idx rule True ALARM_TYPE_TRIGGER True (sint cur))
                    else if \<not> closed then (rt, []) else (rebase rt, []))
              else if \<not> closed then (rt, [])
              else if \<not> over
              then (rebase (rt\<lparr>rt_active := False\<rparr>),
                    alarm_collect idx rule False ALARM_TYPE_TRIGGER True (sint cur))
              else (rebase rt, []))"

definition eval_rule :: "alarm_env \<Rightarrow> nat \<Rightarrow> app_alarm_rule \<Rightarrow> rstate \<Rightarrow> rstate \<times> events" where
  "eval_rule env idx rule rt = (case app_alarm_rule_channel rule of
     None \<Rightarrow> (rt, [])
   | Some c \<Rightarrow> (case ch_kind c of
       KIND_THRESHOLD \<Rightarrow>
         eval_threshold idx rule rt (read_value env (r_slot rule) (r_channel rule) (r_sensor_type rule))
     | KIND_STATE \<Rightarrow>
         (let drop_it = (r_enabled rule = 0 \<and> rt_active rt \<and> \<not> has_flag c APP_SENSOR_F_MOMENTARY)
          in case read_poll_state env rule c of
               Some st \<Rightarrow> eval_state (now env) idx rule rt st
             | None \<Rightarrow>
                 if drop_it then eval_state (now env) idx rule rt (rt_prev_state rt \<noteq> 0)
                 else (rt, []))
     | KIND_RATE \<Rightarrow>
         (case read_counter env rule c of
            None \<Rightarrow> (rt, [])
          | Some cnt \<Rightarrow> eval_count (cfg env) (now env) idx rule rt cnt)
     | KIND_NONE \<Rightarrow> (rt, [])))"

text \<open>One rule of the first loop of \<open>app_alarm_poll\<close>, and of the sweep after the watchdogs.\<close>

definition poll_rule :: "alarm_env \<Rightarrow> nat \<Rightarrow> rstate \<Rightarrow> rstate \<times> events" where
  "poll_rule env idx rt = (case rt_sync_armed env idx rt of
     (None, rt1, ev1) \<Rightarrow> (rt1, ev1)
   | (Some rule, rt1, ev1) \<Rightarrow>
       (case eval_rule env idx rule rt1 of (rt2, ev2) \<Rightarrow> (rt2, ev1 @ ev2)))"

definition sweep_stillness :: "alarm_env \<Rightarrow> nat \<Rightarrow> rstate \<Rightarrow> rstate \<times> events" where
  "sweep_stillness env i rt =
     (let lr = rt_last_rule rt
      in if app_alarm_rule_armed (cfg env) lr \<and> rule_is_momentary lr \<and> rule_is_stillness lr \<and>
            \<not> rt_active rt
         then (if rt_confirm_deadline rt = 0
               then (rt\<lparr>rt_confirm_deadline := now env + rule_hold_ms lr\<rparr>, [])
               else if rt_confirm_deadline rt \<le> now env
               then (rt\<lparr>rt_confirm_deadline := 0, rt_active := True\<rparr>,
                     alarm_collect i lr True ALARM_TYPE_TRIGGER True 0)
               else (rt, []))
         else (rt, []))"

definition sweep_oneshot :: "alarm_env \<Rightarrow> nat \<Rightarrow> rstate \<Rightarrow> rstate \<times> events" where
  "sweep_oneshot env i rt =
     (if rt_oneshot_expiry rt \<noteq> 0 \<and> rt_oneshot_expiry rt \<le> now env
      then (let lr = rt_last_rule rt
            in (rt\<lparr>rt_active := False, rt_oneshot_expiry := 0\<rparr>,
                if rt_active rt \<and> rule_is_momentary lr \<and> r_from_state lr = 1 \<and> r_to_state lr = 1
                then alarm_collect i lr False ALARM_TYPE_TRIGGER True 0 else []))
      else (rt, []))"

definition sweep_rule :: "alarm_env \<Rightarrow> nat \<Rightarrow> rstate \<Rightarrow> rstate \<times> events" where
  "sweep_rule env i rt =
     (if \<not> rt_used rt then (rt, [])
      else case sweep_stillness env i rt of (rt1, ev1) \<Rightarrow>
        case sweep_oneshot env i rt1 of (rt2, ev2) \<Rightarrow> (rt2, ev1 @ ev2))"

text \<open>A loop over the latches, collecting the events in index order.\<close>

fun each_rt :: "(nat \<Rightarrow> rstate \<Rightarrow> rstate \<times> events) \<Rightarrow> nat \<Rightarrow> rstate list \<Rightarrow> rstate list \<times> events" where
  "each_rt f i [] = ([], [])"
| "each_rt f i (rt # rts) =
     (case f i rt of (rt', ev) \<Rightarrow> case each_rt f (Suc i) rts of (rts', evs) \<Rightarrow> (rt' # rts', ev @ evs))"

subsection \<open>Watchdogs\<close>

text \<open>Is 1-Wire slot \<open>s\<close> in mismatch now (the \<open>CONFIG_W1\<close> build)?\<close>

definition mismatch_now :: "alarm_env \<Rightarrow> nat \<Rightarrow> bool" where
  "mismatch_now env s \<longleftrightarrow> cap_w1_sensors (cfg env) \<and> w1_mismatch env ! s"

definition nodata_slot_type :: "alarm_env \<Rightarrow> alarm_state \<Rightarrow> nat \<Rightarrow> u8" where
  "nodata_slot_type env st slot =
     (if slot = 0 then APP_SENSOR_TYPE_MOTHERBOARD
      else let s = slot - 1
           in if \<not> cap_w1_sensors (cfg env) \<or> \<not> w1_configured env ! s \<or> m_mismatch_active st ! s
              then APP_SENSOR_TYPE_NONE
              else let ty = w1_expected env ! s
                   in if ty \<noteq> APP_SENSOR_TYPE_NONE then ty else w1_type (sd_w1 (sdata env) ! s))"

definition nodata_channel_enabled :: "alarm_env \<Rightarrow> sensor_channel \<Rightarrow> bool" where
  "nodata_channel_enabled env c = app_sensor_channel_cap_on (cfg env) c"

definition nodata_reset :: "nat \<Rightarrow> u8 \<Rightarrow> nodata_latch \<Rightarrow> nodata_latch \<times> events" where
  "nodata_reset slot ty l =
     (l\<lparr>nd_nan := False, nd_active := False, nd_seen := False\<rparr>,
      if nd_active l then alarm_collect_nodata slot (nd_channel l) ty False else [])"

definition nodata_step :: "nat \<Rightarrow> u8 \<Rightarrow> bool \<Rightarrow> u32 \<Rightarrow> nodata_latch \<Rightarrow> nodata_latch \<times> events" where
  "nodata_step slot ty ok t l =
     (if ok
      then (l\<lparr>nd_nan := False, nd_active := False\<rparr>,
            if nd_active l then alarm_collect_nodata slot (nd_channel l) ty False else [])
      else
        let l1 = (if \<not> nd_nan l then l\<lparr>nd_nan := True, nd_nan_since := t\<rparr> else l)
        in if \<not> nd_active l1 \<and> APP_ALARM_NO_DATA_MS \<le> t - nd_nan_since l1
           then (l1\<lparr>nd_active := True\<rparr>, alarm_collect_nodata slot (nd_channel l1) ty True)
           else (l1, []))"

text \<open>One slot of \<open>mismatch_poll\<close>.\<close>

definition mismatch_slot :: "alarm_env \<Rightarrow> nat \<Rightarrow> alarm_state \<times> events \<Rightarrow> alarm_state \<times> events" where
  "mismatch_slot env s stev = (case stev of (st, evs) \<Rightarrow>
     let mm = mismatch_now env s
     in if mm \<and> \<not> m_mismatch_active st ! s
        then (st\<lparr>m_mismatch_expected := (m_mismatch_expected st)[s := w1_expected env ! s],
                m_mismatch_detected := (m_mismatch_detected st)[s := w1_detected env ! s],
                m_mismatch_active := (m_mismatch_active st)[s := True]\<rparr>,
              evs @ alarm_collect_mismatch s (w1_expected env ! s) (w1_detected env ! s) True)
        else if \<not> mm \<and> m_mismatch_active st ! s
        then (st\<lparr>m_mismatch_active := (m_mismatch_active st)[s := False]\<rparr>,
              evs @ alarm_collect_mismatch s (m_mismatch_expected st ! s)
                (m_mismatch_detected st ! s) False)
        else (st, evs))"

definition mismatch_poll :: "alarm_env \<Rightarrow> alarm_state \<Rightarrow> alarm_state \<times> events" where
  "mismatch_poll env st = fold (mismatch_slot env) [0..<APP_W1_SLOT_COUNT] (st, [])"

text \<open>
  \<open>nodata_poll_mb\<close>: the k-th liveness channel takes the k-th latch; the loop breaks when the
  latches run out.
\<close>

fun nodata_poll_mb ::
    "alarm_env \<Rightarrow> u8 \<Rightarrow> u32 \<Rightarrow> sensor_channel list \<Rightarrow> u8 \<Rightarrow> nodata_latch list
       \<Rightarrow> nodata_latch list \<times> events" where
  "nodata_poll_mb env ty t [] ch ls = (ls, [])"
| "nodata_poll_mb env ty t (c # cs) ch ls =
     (if \<not> has_flag c APP_SENSOR_F_LIVENESS \<or> has_flag c APP_SENSOR_F_RETIRED
      then nodata_poll_mb env ty t cs (ch + 1) ls
      else case ls of
        [] \<Rightarrow> ([], [])
      | l # ls' \<Rightarrow>
          (let l1 = l\<lparr>nd_channel := ch\<rparr>;
               (l2, ev) = (if \<not> nodata_channel_enabled env c then nodata_reset 0 ty l1
                           else nodata_step 0 ty (\<not> f32_nan (read_value env APP_ALARM_SLOT_MB ch ty)) t l1);
               (ls2, evs) = nodata_poll_mb env ty t cs (ch + 1) ls'
           in (l2 # ls2, ev @ evs)))"

definition reported_mask :: "alarm_env \<Rightarrow> nat \<Rightarrow> sensor_type \<Rightarrow> u32" where
  "reported_mask env slot t =
     fold (\<lambda>ch m. if \<not> f32_nan (read_value env (of_nat slot) (of_nat ch) (ty_id t))
                  then m OR BIT32 ch else m) [0..<length (ty_channels t)] 0"

definition part_channels :: "sensor_type \<Rightarrow> nat \<Rightarrow> nat list" where
  "part_channels t p =
     filter (\<lambda>ch. unat (ch_part (ty_channels t ! ch)) = p \<and>
                  \<not> has_flag (ty_channels t ! ch) APP_SENSOR_F_RETIRED) [0..<length (ty_channels t)]"

definition part_mask :: "sensor_type \<Rightarrow> nat \<Rightarrow> u32" where
  "part_mask t p = fold (\<lambda>ch m. m OR BIT32 ch) (part_channels t p) 0"

definition nodata_part ::
    "nat \<Rightarrow> sensor_type \<Rightarrow> u32 \<Rightarrow> u32 \<Rightarrow> nat \<Rightarrow> nodata_latch \<Rightarrow> nodata_latch \<times> events" where
  "nodata_part slot t reported tm p l =
     (let m = part_mask t p;
          l1 = (case part_channels t p of [] \<Rightarrow> l | ch # _ \<Rightarrow> l\<lparr>nd_channel := of_nat ch\<rparr>)
      in if reported = 0 then (l1\<lparr>nd_nan := False\<rparr>, [])
         else let l2 = (if reported AND m \<noteq> 0 then l1\<lparr>nd_seen := True\<rparr> else l1)
              in if nd_seen l2 then nodata_step slot (ty_id t) (reported AND m = m) tm l2
                 else (l2, []))"

fun nodata_parts ::
    "nat \<Rightarrow> sensor_type \<Rightarrow> u32 \<Rightarrow> u32 \<Rightarrow> nat \<Rightarrow> nodata_latch list \<Rightarrow> nodata_latch list \<times> events"
  where
  "nodata_parts slot t reported tm p [] = ([], [])"
| "nodata_parts slot t reported tm p (l # ls) =
     (if p < unat (ty_part_count t)
      then (let (l', ev) = nodata_part slot t reported tm p l;
                (ls', evs) = nodata_parts slot t reported tm (Suc p) ls
            in (l' # ls', ev @ evs))
      else (l # ls, []))"

definition nodata_poll_w1 ::
    "alarm_env \<Rightarrow> nat \<Rightarrow> sensor_type \<Rightarrow> u32 \<Rightarrow> nodata_latch list \<Rightarrow> nodata_latch list \<times> events" where
  "nodata_poll_w1 env slot t tm latch = (case latch of
     [] \<Rightarrow> ([], [])
   | l0 # ls \<Rightarrow>
       (let reported = reported_mask env slot t;
            (l0', ev0) = nodata_step slot (ty_id t) (reported \<noteq> 0) tm
                           (l0\<lparr>nd_channel := APP_SENSOR_CH_DEVICE\<rparr>);
            (ls', evs) = nodata_parts slot t reported tm 0 ls
        in (l0' # ls', ev0 @ evs)))"

fun reset_latches :: "nat \<Rightarrow> u8 \<Rightarrow> nodata_latch list \<Rightarrow> nodata_latch list \<times> events" where
  "reset_latches slot ty [] = ([], [])"
| "reset_latches slot ty (l # ls) =
     (case nodata_reset slot ty l of (l', ev) \<Rightarrow> case reset_latches slot ty ls of (ls', evs) \<Rightarrow>
        (l' # ls', ev @ evs))"

definition nodata_slot :: "alarm_env \<Rightarrow> nat \<Rightarrow> alarm_state \<times> events \<Rightarrow> alarm_state \<times> events" where
  "nodata_slot env slot stev = (case stev of (st, evs) \<Rightarrow>
     let ty = nodata_slot_type env st slot;
         latch = m_nodata st ! slot;
         tm = (word_of_int (now env) :: u32);
         (latch1, ev1) = (if ty \<noteq> m_nodata_type st ! slot
                          then reset_latches slot (m_nodata_type st ! slot) latch else (latch, []));
         (latch2, ev2) = (case app_sensor_type_get ty of
            None \<Rightarrow> (latch1, [])
          | Some t \<Rightarrow> if slot = 0 then nodata_poll_mb env (ty_id t) tm (ty_channels t) 0 latch1
                      else nodata_poll_w1 env slot t tm latch1)
     in (st\<lparr>m_nodata_type := (m_nodata_type st)[slot := ty],
           m_nodata := (m_nodata st)[slot := latch2]\<rparr>, evs @ ev1 @ ev2))"

definition nodata_poll :: "alarm_env \<Rightarrow> alarm_state \<Rightarrow> alarm_state \<times> events" where
  "nodata_poll env st = fold (nodata_slot env) [0..<NODATA_SLOTS] (st, [])"

definition nodata_slot_active :: "alarm_state \<Rightarrow> nat \<Rightarrow> bool" where
  "nodata_slot_active st slot = list_ex nd_active (m_nodata st ! slot)"

definition battery_poll :: "alarm_env \<Rightarrow> alarm_state \<Rightarrow> alarm_state \<times> events" where
  "battery_poll env st =
     (let v = read_value env APP_ALARM_SLOT_MB CH_BATTERY_VOLTAGE APP_SENSOR_TYPE_MOTHERBOARD;
          threshold = f32_div (f32_of_int (battery_level (cfg env))) 0x447A0000
      in if \<not> f32_lt 0x3F000000 v then (st, [])
         else if \<not> m_battery_low_active st
         then (if f32_lt v threshold
               then (st\<lparr>m_battery_low_active := True\<rparr>, alarm_collect_battery True v)
               else (st, []))
         else if f32_lt (f32_add threshold APP_ALARM_BATTERY_HYST_V) v
         then (st\<lparr>m_battery_low_active := False\<rparr>, alarm_collect_battery False v)
         else (st, []))"

subsection \<open>Poll and event\<close>

definition ALARM_MASK_NODATA_SHIFT :: nat where "ALARM_MASK_NODATA_SHIFT = APP_ALARM_RULE_COUNT"
definition ALARM_MASK_BATTERY_SHIFT :: nat where
  "ALARM_MASK_BATTERY_SHIFT = APP_ALARM_RULE_COUNT + NODATA_SLOTS"
definition ALARM_MASK_MISMATCH_SHIFT :: nat where
  "ALARM_MASK_MISMATCH_SHIFT = ALARM_MASK_BATTERY_SHIFT + 1"

definition set_bits :: "(nat \<Rightarrow> bool) \<Rightarrow> nat \<Rightarrow> nat \<Rightarrow> u32 \<Rightarrow> u32" where
  "set_bits P shift n m = fold (\<lambda>i m. if P i then m OR BIT32 (shift + i) else m) [0..<n] m"

definition collect_mask :: "alarm_state \<Rightarrow> u32" where
  "collect_mask st =
     (let m1 = set_bits (nodata_slot_active st) ALARM_MASK_NODATA_SHIFT NODATA_SLOTS 0;
          m2 = (if m_battery_low_active st then m1 OR BIT32 ALARM_MASK_BATTERY_SHIFT else m1);
          m3 = set_bits (\<lambda>s. m_mismatch_active st ! s) ALARM_MASK_MISMATCH_SHIFT APP_W1_SLOT_COUNT m2
      in set_bits (\<lambda>i. rt_used (m_rt st ! i) \<and> rt_active (m_rt st ! i)) 0 APP_ALARM_RULE_COUNT m3)"

text \<open>\<open>alarm_send\<close>: the new send time and whether \<open>app_report_trigger\<close> is called.\<close>

definition alarm_send :: "alarm_env \<Rightarrow> alarm_state \<Rightarrow> alarm_state \<times> bool" where
  "alarm_send env st =
     (let limit = alarm_limit (cfg env)
      in if 0 < limit \<and> m_last_alarm_send_ms st \<noteq> - 1 \<and>
            now env - m_last_alarm_send_ms st < limit * 1000
         then (st, False)
         else (st\<lparr>m_last_alarm_send_ms := now env\<rparr>, True))"

datatype buzzer_req = Buzzer_none | Buzzer_stop | Buzzer_alarm u16

definition alarm_buzzer_repeat_s :: "u8 \<Rightarrow> u16" where
  "alarm_buzzer_repeat_s mode =
     (if mode = 1 then 0 else if mode = 2 then 120 else if mode = 4 then 10
      else if mode = 5 then 1 else 30)"

definition alarm_buzzer_sync :: "app_config \<Rightarrow> u32 \<Rightarrow> bool \<Rightarrow> buzzer_req" where
  "alarm_buzzer_sync g new_bits all_cleared =
     (if \<not> app_sensor_gpio_buzzer g then Buzzer_none
      else if all_cleared then Buzzer_stop
      else if new_bits = 0 \<or> alarm_buzzer_mode g = 0 then Buzzer_none
      else Buzzer_alarm (alarm_buzzer_repeat_s (alarm_buzzer_mode g)))"

text \<open>What a call of the evaluator produces besides the new state.\<close>

record alarm_out =
  ao_events :: events
  ao_trigger :: bool
  ao_buzzer :: buzzer_req
  ao_active :: bool

definition poll_latches :: "alarm_env \<Rightarrow> alarm_state \<Rightarrow> alarm_state \<times> events" where
  "poll_latches env st =
     (let (rts, ev1) = each_rt (poll_rule env) 0 (m_rt st);
          (st2, ev2) = mismatch_poll env (st\<lparr>m_rt := rts\<rparr>);
          (st3, ev3) = nodata_poll env st2;
          (st4, ev4) = battery_poll env st3;
          (rts5, ev5) = each_rt (sweep_rule env) 0 (m_rt st4)
      in (st4\<lparr>m_rt := rts5\<rparr>, ev1 @ ev2 @ ev3 @ ev4 @ ev5))"

definition app_alarm_poll :: "alarm_env \<Rightarrow> alarm_state \<Rightarrow> alarm_state \<times> alarm_out" where
  "app_alarm_poll env st =
     (let (st1, evs) = poll_latches env st;
          active_mask = collect_mask st1;
          new_bits = active_mask AND NOT (m_active_mask st);
          all_cleared = (active_mask = 0 \<and> m_active_mask st \<noteq> 0);
          st2 = st1\<lparr>m_active_mask := active_mask,
                    m_activation_seq := (if new_bits \<noteq> 0 then m_activation_seq st1 + 1
                                         else m_activation_seq st1)\<rparr>;
          (st3, trig) = (if evs \<noteq> [] then alarm_send env st2 else (st2, False))
      in (st3, \<lparr>ao_events = evs, ao_trigger = trig,
                ao_buzzer = alarm_buzzer_sync (cfg env) new_bits all_cleared,
                ao_active = (active_mask \<noteq> 0)\<rparr>))"

definition app_alarm_active_mask :: "alarm_state \<Rightarrow> u32" where
  "app_alarm_active_mask st = m_active_mask st"

definition app_alarm_activation_seq :: "alarm_state \<Rightarrow> u32" where
  "app_alarm_activation_seq st = m_activation_seq st"

definition event_rule :: "alarm_env \<Rightarrow> u8 \<Rightarrow> bool \<Rightarrow> nat \<Rightarrow> rstate \<Rightarrow> rstate \<times> events" where
  "event_rule env channel active idx rt = (case rt_sync_armed env idx rt of
     (None, rt1, ev1) \<Rightarrow> (rt1, ev1)
   | (Some rule, rt1, ev1) \<Rightarrow>
       (case app_alarm_rule_channel rule of
          None \<Rightarrow> (rt1, ev1)
        | Some c \<Rightarrow>
            if r_slot rule \<noteq> APP_ALARM_SLOT_MB \<or> r_channel rule \<noteq> channel \<or> ch_kind c \<noteq> KIND_STATE
            then (rt1, ev1)
            else (case eval_state (now env) idx rule rt1 active of (rt2, ev2) \<Rightarrow> (rt2, ev1 @ ev2))))"

text \<open>\<open>app_alarm_event\<close>; the callback gets (channel, active) whenever one is registered.\<close>

definition app_alarm_event ::
    "alarm_env \<Rightarrow> u8 \<Rightarrow> bool \<Rightarrow> alarm_state \<Rightarrow> alarm_state \<times> events \<times> bool" where
  "app_alarm_event env channel active st =
     (let (rts, evs) = each_rt (event_rule env channel active) 0 (m_rt st);
          st1 = st\<lparr>m_rt := rts\<rparr>;
          (st2, trig) = (if evs \<noteq> [] then alarm_send env st1 else (st1, False))
      in (st2, evs, trig))"

subsection \<open>Read-only views\<close>

definition APP_DEVICE_STATUS_ALARM_ANY :: u32 where "APP_DEVICE_STATUS_ALARM_ANY = BIT32 0"
definition APP_DEVICE_STATUS_ALARM_THRESHOLD :: u32 where
  "APP_DEVICE_STATUS_ALARM_THRESHOLD = BIT32 1"
definition APP_DEVICE_STATUS_ALARM_STATE :: u32 where "APP_DEVICE_STATUS_ALARM_STATE = BIT32 2"
definition APP_DEVICE_STATUS_ALARM_RATE :: u32 where "APP_DEVICE_STATUS_ALARM_RATE = BIT32 3"
definition APP_DEVICE_STATUS_ALARM_NO_DATA :: u32 where "APP_DEVICE_STATUS_ALARM_NO_DATA = BIT32 4"
definition APP_DEVICE_STATUS_ALARM_LOW_BATT :: u32 where "APP_DEVICE_STATUS_ALARM_LOW_BATT = BIT32 5"
definition APP_DEVICE_STATUS_ALARM_SENSOR_MISMATCH :: u32 where
  "APP_DEVICE_STATUS_ALARM_SENSOR_MISMATCH = BIT32 6"

lemmas status_bits = APP_DEVICE_STATUS_ALARM_ANY_def APP_DEVICE_STATUS_ALARM_THRESHOLD_def
  APP_DEVICE_STATUS_ALARM_STATE_def APP_DEVICE_STATUS_ALARM_RATE_def
  APP_DEVICE_STATUS_ALARM_NO_DATA_def APP_DEVICE_STATUS_ALARM_LOW_BATT_def
  APP_DEVICE_STATUS_ALARM_SENSOR_MISMATCH_def

definition rt_kind :: "rstate \<Rightarrow> app_sensor_kind" where
  "rt_kind rt = (case app_alarm_rule_channel (rt_last_rule rt) of
     None \<Rightarrow> KIND_NONE | Some c \<Rightarrow> ch_kind c)"

definition rt_flags :: "rstate \<Rightarrow> u32 \<Rightarrow> u32" where
  "rt_flags rt flags =
     (if \<not> rt_used rt \<or> \<not> rt_active rt then flags
      else flags OR APP_DEVICE_STATUS_ALARM_ANY OR (case rt_kind rt of
        KIND_THRESHOLD \<Rightarrow> APP_DEVICE_STATUS_ALARM_THRESHOLD
      | KIND_STATE \<Rightarrow> APP_DEVICE_STATUS_ALARM_STATE
      | KIND_RATE \<Rightarrow> APP_DEVICE_STATUS_ALARM_RATE
      | KIND_NONE \<Rightarrow> 0))"

definition app_alarm_status_flags :: "alarm_state \<Rightarrow> u32" where
  "app_alarm_status_flags st =
     (let f1 = (if list_ex (nodata_slot_active st) [0..<NODATA_SLOTS]
                then APP_DEVICE_STATUS_ALARM_NO_DATA OR APP_DEVICE_STATUS_ALARM_ANY else 0);
          f2 = (if m_battery_low_active st
                then f1 OR APP_DEVICE_STATUS_ALARM_LOW_BATT OR APP_DEVICE_STATUS_ALARM_ANY else f1);
          f3 = (if list_ex (\<lambda>s. m_mismatch_active st ! s) [0..<APP_W1_SLOT_COUNT]
                then f2 OR APP_DEVICE_STATUS_ALARM_SENSOR_MISMATCH OR APP_DEVICE_STATUS_ALARM_ANY
                else f2)
      in fold (\<lambda>i. rt_flags (m_rt st ! i)) [0..<APP_ALARM_RULE_COUNT] f3)"

record app_alarm_active =
  aa_slot :: u8
  aa_channel :: u8
  aa_sensor_type :: u8
  aa_type :: u8

text \<open>Every entry the snapshot would write with unlimited room, in the code's order.\<close>

definition active_nodata :: "alarm_state \<Rightarrow> app_alarm_active list" where
  "active_nodata st = concat (map (\<lambda>slot. map (\<lambda>l. \<lparr>aa_slot = of_nat slot, aa_channel = nd_channel l,
       aa_sensor_type = m_nodata_type st ! slot, aa_type = ALARM_TYPE_NO_DATA\<rparr>)
     (filter nd_active (m_nodata st ! slot))) [0..<NODATA_SLOTS])"

definition active_watchdogs :: "alarm_state \<Rightarrow> app_alarm_active list" where
  "active_watchdogs st =
     (if m_battery_low_active st
      then [\<lparr>aa_slot = APP_ALARM_SLOT_MB, aa_channel = CH_BATTERY_VOLTAGE,
             aa_sensor_type = APP_SENSOR_TYPE_MOTHERBOARD, aa_type = ALARM_TYPE_LOW\<rparr>] else []) @
     map (\<lambda>s. \<lparr>aa_slot = of_nat (s + 1), aa_channel = 0, aa_sensor_type = m_mismatch_expected st ! s,
              aa_type = ALARM_TYPE_SENSOR_MISMATCH\<rparr>)
       (filter (\<lambda>s. m_mismatch_active st ! s) [0..<APP_W1_SLOT_COUNT])"

definition active_rules :: "alarm_state \<Rightarrow> app_alarm_active list" where
  "active_rules st = map (\<lambda>rt. \<lparr>aa_slot = r_slot (rt_last_rule rt),
       aa_channel = r_channel (rt_last_rule rt), aa_sensor_type = r_sensor_type (rt_last_rule rt),
       aa_type = rt_edge_type rt\<rparr>) (filter (\<lambda>rt. rt_used rt \<and> rt_active rt) (m_rt st))"

text \<open>The three groups of loops all stop at \<open>max\<close> entries.\<close>

definition app_alarm_active_snapshot :: "alarm_state \<Rightarrow> nat \<Rightarrow> app_alarm_active list" where
  "app_alarm_active_snapshot st mx =
     take mx (active_nodata st @ active_watchdogs st @ active_rules st)"

subsection \<open>Loop lemmas\<close>

lemma each_rt_length [simp]: "length (fst (each_rt f i rts)) = length rts"
  by (induction rts arbitrary: i) (simp_all add: split_def)

lemma each_rt_nth:
  "k < length rts \<Longrightarrow> fst (each_rt f i rts) ! k = fst (f (i + k) (rts ! k))"
proof (induction rts arbitrary: i k)
  case (Cons rt rts)
  then show ?case by (cases k) (simp_all add: split_def)
qed simp

lemma each_rt_events:
  "snd (each_rt f i rts) = concat (map (\<lambda>k. snd (f (i + k) (rts ! k))) [0..<length rts])"
proof (induction rts arbitrary: i)
  case (Cons rt rts)
  have "[0..<length (rt # rts)] = 0 # map Suc [0..<length rts]"
    by (simp add: upt_conv_Cons map_Suc_upt del: upt_Suc)
  then show ?case by (simp add: split_def Cons.IH comp_def)
qed simp

lemma set_bits_bit:
  "shift + n \<le> 32 \<Longrightarrow> k < 32 \<Longrightarrow>
   bit (set_bits P shift n m) k = (bit m k \<or> (shift \<le> k \<and> k < shift + n \<and> P (k - shift)))"
proof (induction n)
  case (Suc n)
  then show ?case
    by (auto simp: set_bits_def bit_valid_update(1) less_Suc_eq)
qed (auto simp: set_bits_def)

lemmas mask_shifts = ALARM_MASK_NODATA_SHIFT_def ALARM_MASK_BATTERY_SHIFT_def
  ALARM_MASK_MISMATCH_SHIFT_def APP_ALARM_RULE_COUNT_def NODATA_SLOTS_def APP_W1_SLOT_COUNT_def

lemma collect_mask_bit:
  "k < 32 \<Longrightarrow> bit (collect_mask st) k =
     (if k < 16 then rt_used (m_rt st ! k) \<and> rt_active (m_rt st ! k)
      else if k < 21 then nodata_slot_active st (k - 16)
      else if k = 21 then m_battery_low_active st
      else if k < 26 then m_mismatch_active st ! (k - 22) else False)"
  by (auto simp: collect_mask_def Let_def set_bits_bit bit_valid_update(1) mask_shifts)

lemma word_zero_bits: "(w :: u32) = 0 \<longleftrightarrow> (\<forall>k < 32. \<not> bit w k)"
  by (auto intro: bit_word_eqI)

end
