(* ===== verification/AlarmProps.thy ===== *)
theory AlarmProps
  imports AlarmEval
begin

text \<open>
  Properties of the alarm evaluator: the activate and deactivate edges of a rule alternate over
  any sequence of polls and events, the active mask, the activation sequence, the status flags
  and the snapshot agree with the latches, and the functional behaviour of each rule kind. The
  locale \<open>edge_step\<close> is the contract of one per-rule step; it is interpreted on the poll, the
  event and the sweep step.
\<close>

unbundle bit_operations_syntax

subsection \<open>Edges of one rule\<close>

text \<open>
  Follow the edges of rule \<open>k\<close> through a list of events: \<open>None\<close> when an activation comes while
  active or a deactivation while inactive, else the final state.
\<close>

fun edges :: "nat \<Rightarrow> events \<Rightarrow> bool \<Rightarrow> bool option" where
  "edges k [] a = Some a"
| "edges k (e # es) a =
     (if ev_rule e \<noteq> of_nat k then edges k es a
      else if ev_edge e = ALARM_EDGE_ACT then (if a then None else edges k es True)
      else (if a then edges k es False else None))"

lemma edges_append:
  "edges k (xs @ ys) a = (case edges k xs a of None \<Rightarrow> None | Some b \<Rightarrow> edges k ys b)"
  by (induction xs arbitrary: a) auto

lemma edges_foreign: "(\<And>e. e \<in> set es \<Longrightarrow> ev_rule e \<noteq> of_nat k) \<Longrightarrow> edges k es a = Some a"
  by (induction es) auto

lemma edge_simps [simp]: "ALARM_EDGE_ACT \<noteq> ALARM_EDGE_DEACT" "ALARM_EDGE_DEACT \<noteq> ALARM_EDGE_ACT"
  by (simp_all add: ALARM_EDGE_ACT_def ALARM_EDGE_DEACT_def)

lemma edges_collect [simp]:
  "edges k (alarm_collect k r active ty hv v) a = (if active = a then None else Some active)"
  by (simp add: alarm_collect_def edge_of_def)

lemma edges_collect_cons [simp]:
  "edges k (alarm_collect k r active ty hv v @ es) a = (if active = a then None else edges k es active)"
  by (simp add: edges_append)

lemma collect_rule: "e \<in> set (alarm_collect k r active ty hv v) \<Longrightarrow> ev_rule e = of_nat k"
  by (simp add: alarm_collect_def)

text \<open>A STATE rule on an edge ends its hold silently; every other rule reports its end.\<close>

definition silent_rule :: "app_alarm_rule \<Rightarrow> bool" where
  "silent_rule r \<longleftrightarrow> rule_is_edge r \<and>
     (case app_alarm_rule_channel r of None \<Rightarrow> False | Some c \<Rightarrow> ch_kind c = KIND_STATE)"

lemma enabled_indep [simp]:
  "app_alarm_rule_channel (r\<lparr>r_enabled := x\<rparr>) = app_alarm_rule_channel r"
  "silent_rule (r\<lparr>r_enabled := x\<rparr>) = silent_rule r"
  "rule_is_edge (r\<lparr>r_enabled := x\<rparr>) = rule_is_edge r"
  "rule_is_momentary (r\<lparr>r_enabled := x\<rparr>) = rule_is_momentary r"
  by (simp_all add: app_alarm_rule_channel_def silent_rule_def rule_is_edge_def rule_is_momentary_def)

lemma eval_threshold_edges:
  "edges k (snd (eval_threshold k r rt v)) (rt_active rt) = Some (rt_active (fst (eval_threshold k r rt v)))"
  by (simp add: eval_threshold_def Let_def)

lemma eval_count_edges:
  "edges k (snd (eval_count g t k r rt cur)) (rt_active rt) = Some (rt_active (fst (eval_count g t k r rt cur)))"
  by (simp add: eval_count_def Let_def)

lemma eval_state_edges:
  "\<not> rule_is_edge r \<Longrightarrow>
   edges k (snd (eval_state t k r rt cur)) (rt_active rt) = Some (rt_active (fst (eval_state t k r rt cur)))"
  by (simp add: eval_state_def state_disabled_def state_stillness_def state_momentary_def
      state_level_def seen_level_def Let_def)

lemmas state_defs = state_disabled_def state_stillness_def state_momentary_def state_edge_def
  state_level_def

lemma eval_rule_cases:
  obtains (none) "eval_rule env k r rt = (rt, [])"
  | (threshold) v where "eval_rule env k r rt = eval_threshold k r rt v"
  | (state) c cur where "app_alarm_rule_channel r = Some c" "ch_kind c = KIND_STATE"
      "eval_rule env k r rt = eval_state (now env) k r rt cur"
  | (rate) cnt where "eval_rule env k r rt = eval_count (cfg env) (now env) k r rt cnt"
proof (cases "app_alarm_rule_channel r")
  case None
  then show ?thesis by (intro none) (simp add: eval_rule_def)
next
  case (Some c)
  show ?thesis
  proof (cases "ch_kind c")
    case KIND_THRESHOLD
    with Some show ?thesis by (intro threshold) (simp add: eval_rule_def)
  next
    case KIND_STATE
    note c = Some KIND_STATE
    show ?thesis
    proof (cases "read_poll_state env r c")
      case None
      show ?thesis
      proof (cases "r_enabled r = 0 \<and> rt_active rt \<and> \<not> has_flag c APP_SENSOR_F_MOMENTARY")
        case True
        with c None show ?thesis by (intro state [OF c]) (simp add: eval_rule_def)
      next
        case False
        with c None show ?thesis by (intro none) (auto simp: eval_rule_def)
      qed
    next
      case (Some cur)
      with c show ?thesis by (intro state [OF c]) (simp add: eval_rule_def)
    qed
  next
    case KIND_RATE
    with Some show ?thesis
      by (cases "read_counter env r c") (auto intro: none rate simp: eval_rule_def)
  next
    case KIND_NONE
    with Some show ?thesis by (intro none) (simp add: eval_rule_def)
  qed
qed

text \<open>Every event a step of rule \<open>k\<close> emits carries its index.\<close>

definition own :: "nat \<Rightarrow> events \<Rightarrow> bool" where
  "own k es \<longleftrightarrow> (\<forall>e \<in> set es. ev_rule e = of_nat k)"

lemma own_simps [simp]:
  "own k []" "own k (alarm_collect k r active ty hv v)" "own k (xs @ ys) \<longleftrightarrow> own k xs \<and> own k ys"
  by (auto simp: own_def alarm_collect_def)

lemma eval_threshold_own [simp]: "own k (snd (eval_threshold k r rt v))"
  by (simp add: eval_threshold_def Let_def)

lemma eval_count_own [simp]: "own k (snd (eval_count g t k r rt cur))"
  by (simp add: eval_count_def Let_def)

lemma state_own [simp]:
  "own k (snd (state_disabled k r rt))" "own k (snd (state_stillness t k r rt cur))"
  "own k (snd (state_momentary t k r rt cur))" "own k (snd (state_edge t k r rt cur))"
  "own k (snd (state_level t k r rt cur))"
  by (simp_all add: state_defs Let_def)

lemma eval_state_split:
  "snd (eval_state t k r rt cur) = snd
     (if r_enabled r = 0 then state_disabled k r rt
      else if rule_is_momentary r \<and> rule_is_stillness r then state_stillness t k r rt cur
      else if rule_is_momentary r then state_momentary t k r rt cur
      else if rule_is_edge r then state_edge t k r rt cur
      else state_level t k r rt cur)"
  "fst (eval_state t k r rt cur) = seen_level cur (fst
     (if r_enabled r = 0 then state_disabled k r rt
      else if rule_is_momentary r \<and> rule_is_stillness r then state_stillness t k r rt cur
      else if rule_is_momentary r then state_momentary t k r rt cur
      else if rule_is_edge r then state_edge t k r rt cur
      else state_level t k r rt cur))"
  by (simp_all add: eval_state_def Let_def split_def)

lemma eval_state_own [simp]: "own k (snd (eval_state t k r rt cur))"
  by (simp add: eval_state_split)

lemma eval_rule_own [simp]: "own k (snd (eval_rule env k r rt))"
  by (cases rule: eval_rule_cases [of env k r rt]) simp_all

lemma eval_rule_edges:
  assumes "\<not> silent_rule r"
  shows "edges k (snd (eval_rule env k r rt)) (rt_active rt)
    = Some (rt_active (fst (eval_rule env k r rt)))"
  by (cases rule: eval_rule_cases [of env k r rt])
     (use assms in \<open>simp_all add: eval_threshold_edges eval_count_edges eval_state_edges
        silent_rule_def\<close>)

subsection \<open>The latch invariant\<close>

text \<open>
  A pending one-shot belongs to a silent rule or to a momentary 1 to 1 rule, and an unused latch
  is inactive. \<open>rules_valid\<close> is what the rule store guarantees of its cache.
\<close>

definition rt_ok :: "rstate \<Rightarrow> bool" where
  "rt_ok rt \<longleftrightarrow>
     (rt_used rt \<or> (\<not> rt_active rt \<and> rt_oneshot_expiry rt = 0)) \<and>
     (rt_oneshot_expiry rt \<noteq> 0 \<longrightarrow> silent_rule (rt_last_rule rt) \<or>
        (rule_is_momentary (rt_last_rule rt) \<and> r_from_state (rt_last_rule rt) = 1 \<and>
         r_to_state (rt_last_rule rt) = 1))"

definition rules_valid :: "rule_cache \<Rightarrow> bool" where
  "rules_valid rc \<longleftrightarrow> list_all (\<lambda>e. e_used e \<longrightarrow> rule_valid (e_rule e)) (m_rules rc) \<and>
     length (m_rules rc) = APP_ALARM_RULE_COUNT"

lemma store_rules_valid: "store_ok (c, rc) \<Longrightarrow> rules_valid rc"
  by (auto simp: rules_valid_def list_all_length store_ok_def store_shape_def entry_ok_def
      list_all2_conv_all_nth)

lemma rules_validD:
  "rules_valid rc \<Longrightarrow> app_alarm_rules_get rc i = Some r \<Longrightarrow> rule_valid r"
  by (auto simp: rules_valid_def app_alarm_rules_get_def list_all_length split: if_splits)

lemma one_of_u8: "(x :: u8) \<le> 1 \<Longrightarrow> x = 0 \<or> x = 1"
proof -
  assume "x \<le> 1"
  then have "unat x \<le> 1" by (simp add: word_le_nat_alt)
  then have "unat x = 0 \<or> unat x = 1" by arith
  then show ?thesis by (metis unat_0 unat_1 unat_inj_iff)
qed

lemma valid_state_levels:
  assumes "rule_valid r" "app_alarm_rule_channel r = Some c" "ch_kind c = KIND_STATE"
    "\<not> rule_is_edge r" "\<not> rule_is_stillness r"
  shows "r_from_state r = 1 \<and> r_to_state r = 1"
proof -
  have "r_from_state r \<le> 1" "r_to_state r \<le> 1"
    using assms by (simp_all add: rule_valid_def rule_state_levels_valid_def)
  then show ?thesis using assms(4,5) one_of_u8 by (auto simp: rule_is_edge_def rule_is_stillness_def)
qed

lemma state_keeps [simp]:
  "rt_last_rule (fst (state_disabled k r rt)) = rt_last_rule rt"
  "rt_last_rule (fst (state_stillness t k r rt cur)) = rt_last_rule rt"
  "rt_last_rule (fst (state_momentary t k r rt cur)) = rt_last_rule rt"
  "rt_last_rule (fst (state_edge t k r rt cur)) = rt_last_rule rt"
  "rt_last_rule (fst (state_level t k r rt cur)) = rt_last_rule rt"
  "rt_used (fst (state_disabled k r rt)) = rt_used rt"
  "rt_used (fst (state_stillness t k r rt cur)) = rt_used rt"
  "rt_used (fst (state_momentary t k r rt cur)) = rt_used rt"
  "rt_used (fst (state_edge t k r rt cur)) = rt_used rt"
  "rt_used (fst (state_level t k r rt cur)) = rt_used rt"
  by (simp_all add: state_defs Let_def)

lemma seen_level_simps [simp]:
  "rt_last_rule (seen_level cur rt) = rt_last_rule rt" "rt_used (seen_level cur rt) = rt_used rt"
  "rt_active (seen_level cur rt) = rt_active rt"
  "rt_oneshot_expiry (seen_level cur rt) = rt_oneshot_expiry rt"
  "rt_confirm_deadline (seen_level cur rt) = rt_confirm_deadline rt"
  by (simp_all add: seen_level_def)

lemma eval_state_keeps [simp]:
  "rt_last_rule (fst (eval_state t k r rt cur)) = rt_last_rule rt"
  "rt_used (fst (eval_state t k r rt cur)) = rt_used rt"
  by (simp_all add: eval_state_split)

lemma eval_threshold_keeps [simp]:
  "rt_last_rule (fst (eval_threshold k r rt v)) = rt_last_rule rt"
  "rt_used (fst (eval_threshold k r rt v)) = rt_used rt"
  "rt_oneshot_expiry (fst (eval_threshold k r rt v)) = rt_oneshot_expiry rt"
  by (simp_all add: eval_threshold_def Let_def)

lemma eval_count_keeps [simp]:
  "rt_last_rule (fst (eval_count g t k r rt cur)) = rt_last_rule rt"
  "rt_used (fst (eval_count g t k r rt cur)) = rt_used rt"
  "rt_oneshot_expiry (fst (eval_count g t k r rt cur)) = rt_oneshot_expiry rt"
  by (simp_all add: eval_count_def Let_def)

lemma eval_rule_keeps [simp]:
  "rt_last_rule (fst (eval_rule env k r rt)) = rt_last_rule rt"
  "rt_used (fst (eval_rule env k r rt)) = rt_used rt"
  by (cases rule: eval_rule_cases [of env k r rt]; simp)+

lemma state_oneshot:
  "rt_oneshot_expiry (fst (state_disabled k r rt)) \<in> {0, rt_oneshot_expiry rt}"
  "rt_oneshot_expiry (fst (state_stillness t k r rt cur)) = rt_oneshot_expiry rt"
  "rt_oneshot_expiry (fst (state_level t k r rt cur)) = rt_oneshot_expiry rt"
  by (simp_all add: state_defs Let_def)

lemma eval_state_oneshot:
  "rt_oneshot_expiry (fst (eval_state t k r rt cur)) \<noteq> 0 \<Longrightarrow>
   rt_oneshot_expiry rt \<noteq> 0 \<or>
   (if rule_is_momentary r then \<not> rule_is_stillness r else rule_is_edge r)"
  using state_oneshot(1) [of k r rt] by (auto simp: eval_state_split state_oneshot split: if_splits)

lemma eval_rule_oneshot:
  assumes "rt_oneshot_expiry (fst (eval_rule env k r rt)) \<noteq> 0"
  shows "rt_oneshot_expiry rt \<noteq> 0 \<or>
   (\<exists>c. app_alarm_rule_channel r = Some c \<and> ch_kind c = KIND_STATE \<and>
     (if rule_is_momentary r then \<not> rule_is_stillness r else rule_is_edge r))"
  by (cases rule: eval_rule_cases [of env k r rt]) (use assms in \<open>auto dest: eval_state_oneshot\<close>)

lemma oneshot_rule_ok:
  assumes "rule_valid r" "app_alarm_rule_channel r = Some c" "ch_kind c = KIND_STATE"
    "if rule_is_momentary r then \<not> rule_is_stillness r else rule_is_edge r"
  shows "silent_rule r \<or> (rule_is_momentary r \<and> r_from_state r = 1 \<and> r_to_state r = 1)"
  using assms valid_state_levels [OF assms(1-3)]
  by (auto simp: silent_rule_def split: if_splits)

lemma of_nat_u8_eq: "i < 256 \<Longrightarrow> k < 256 \<Longrightarrow> (of_nat i :: u8) = of_nat k \<longleftrightarrow> i = k"
  by (auto simp: word_unat_eq_iff unat_of_nat_small)

subsection \<open>One per-rule step and the loop over it\<close>

text \<open>
  The contract of a per-rule step: its events are the rule's own, its edges go from the latch
  before to the latch after wherever the precondition \<open>pre\<close> holds, and it keeps \<open>rt_ok\<close>.
\<close>

locale edge_step =
  fixes step :: "nat \<Rightarrow> rstate \<Rightarrow> rstate \<times> events"
    and pre :: "nat \<Rightarrow> rstate \<Rightarrow> bool"
    and good :: bool
  assumes step_own: "own k (snd (step k rt))"
    and step_edges: "rt_ok rt \<Longrightarrow> pre k rt \<Longrightarrow>
      edges k (snd (step k rt)) (rt_active rt) = Some (rt_active (fst (step k rt)))"
    and step_ok: "good \<Longrightarrow> rt_ok rt \<Longrightarrow> rt_ok (fst (step k rt))"
begin

lemma each_foreign:
  "k < 256 \<Longrightarrow> i + length rts \<le> 256 \<Longrightarrow> (\<And>j. j < length rts \<Longrightarrow> i + j \<noteq> k) \<Longrightarrow>
   edges k (snd (each_rt step i rts)) a = Some a"
proof (induction rts arbitrary: i a)
  case (Cons rt rts)
  have "i \<noteq> k" using Cons.prems(3) [of 0] by simp
  then have "(of_nat i :: u8) \<noteq> of_nat k" using Cons.prems by (simp add: of_nat_u8_eq)
  then have "edges k (snd (step i rt)) a = Some a"
    using step_own [of i rt] by (intro edges_foreign) (auto simp: own_def)
  moreover have "edges k (snd (each_rt step (Suc i) rts)) a = Some a"
  proof (rule Cons.IH)
    show "Suc i + j \<noteq> k" if "j < length rts" for j
      using Cons.prems(3) [of "Suc j"] that by simp
  qed (use Cons.prems in simp_all)
  ultimately show ?case by (simp add: split_def edges_append)
qed simp

lemma each_edges:
  "i + length rts \<le> 256 \<Longrightarrow> j < length rts \<Longrightarrow> rt_ok (rts ! j) \<Longrightarrow> pre (i + j) (rts ! j) \<Longrightarrow>
   edges (i + j) (snd (each_rt step i rts)) (rt_active (rts ! j))
     = Some (rt_active (fst (each_rt step i rts) ! j))"
proof (induction rts arbitrary: i j)
  case (Cons rt rts)
  show ?case
  proof (cases j)
    case 0
    have "edges i (snd (each_rt step (Suc i) rts)) b = Some b" for b
      by (rule each_foreign) (use Cons.prems in auto)
    with 0 Cons.prems step_edges [of rt i] show ?thesis by (simp add: split_def edges_append)
  next
    case (Suc j')
    have "(of_nat i :: u8) \<noteq> of_nat (i + j)" using Cons.prems Suc by (subst of_nat_u8_eq) auto
    then have "edges (i + j) (snd (step i rt)) b = Some b" for b
      using step_own [of i rt] by (intro edges_foreign) (auto simp: own_def)
    with Suc Cons.prems Cons.IH [of "Suc i" j'] show ?thesis
      by (simp add: split_def edges_append)
  qed
qed simp

lemma each_ok: "good \<Longrightarrow> list_all rt_ok rts \<Longrightarrow> list_all rt_ok (fst (each_rt step i rts))"
  by (induction rts arbitrary: i) (auto simp: split_def step_ok)

lemma each_own: "e \<in> set (snd (each_rt step i rts)) \<Longrightarrow> \<exists>j < i + length rts. ev_rule e = of_nat j"
proof (induction rts arbitrary: i)
  case (Cons rt rts)
  then consider "e \<in> set (snd (step i rt))" | "e \<in> set (snd (each_rt step (Suc i) rts))"
    by (auto simp: split_def)
  then show ?case
  proof cases
    case 1
    then have "ev_rule e = of_nat i" using step_own [of i rt] by (simp add: own_def)
    then show ?thesis by (intro exI [of _ i]) simp
  next
    case 2
    then obtain j where "j < Suc i + length rts" "ev_rule e = of_nat j" using Cons.IH by blast
    then show ?thesis by (intro exI [of _ j]) simp
  qed
qed simp

end

subsection \<open>The three steps meet the contract\<close>

lemma rt_sync_facts:
  assumes "rt_sync_armed env k rt = (o', rt', ev)" "rt_ok rt"
  shows "edges k ev (rt_active rt) = Some (rt_active rt')" "rt_ok rt'"
    "\<And>r. o' = Some r \<Longrightarrow> \<exists>r0 x. app_alarm_rules_get (rules env) (of_nat k) = Some r0 \<and>
       rt_last_rule rt' = r0 \<and> r = r0\<lparr>r_enabled := x\<rparr> \<and> rt_used rt'"
    "o' = None \<Longrightarrow> app_alarm_rules_get (rules env) (of_nat k) = None \<and> \<not> rt_used rt'"
proof -
  have keep: "\<exists>x. r0 = r0\<lparr>r_enabled := x\<rparr>" for r0 :: app_alarm_rule
    by (rule exI [of _ "r_enabled r0"]) simp
  show "edges k ev (rt_active rt) = Some (rt_active rt')" "rt_ok rt'"
    using assms by (auto simp: rt_sync_armed_def rt_sync_def rt_zero_def rt_ok_def
        split: option.splits if_splits)
  show "\<exists>r0 x. app_alarm_rules_get (rules env) (of_nat k) = Some r0 \<and>
       rt_last_rule rt' = r0 \<and> r = r0\<lparr>r_enabled := x\<rparr> \<and> rt_used rt'" if "o' = Some r" for r
  proof -
    obtain o0 rt0 ev0 where 0: "rt_sync env k rt = (o0, rt0, ev0)" by (metis prod_cases3)
    have "\<exists>r1. o0 = Some r1 \<and> rt0 = rt' \<and> ev0 = ev \<and>
        r = (if app_alarm_rule_armed (cfg env) r1 then r1 else r1\<lparr>r_enabled := 0\<rparr>)"
      using assms(1) that 0 by (cases o0) (auto simp: rt_sync_armed_def)
    then obtain r1 where r1: "rt_sync env k rt = (Some r1, rt', ev)"
      "r = (if app_alarm_rule_armed (cfg env) r1 then r1 else r1\<lparr>r_enabled := 0\<rparr>)"
      using 0 by blast
    then have "app_alarm_rules_get (rules env) (of_nat k) = Some r1 \<and> rt_last_rule rt' = r1 \<and> rt_used rt'"
      by (auto simp: rt_sync_def rt_zero_def split: option.splits if_splits)
    moreover have "\<exists>x. r = r1\<lparr>r_enabled := x\<rparr>" using r1(2) keep by metis
    ultimately show ?thesis by blast
  qed
  show "app_alarm_rules_get (rules env) (of_nat k) = None \<and> \<not> rt_used rt'" if "o' = None"
    using assms(1) that
    by (auto simp: rt_sync_armed_def rt_sync_def rt_zero_def split: option.splits if_splits)
qed

lemma rt_sync_own: "rt_sync_armed env k rt = (o', rt', ev) \<Longrightarrow> own k ev"
  by (auto simp: rt_sync_armed_def rt_sync_def split: option.splits if_splits)

definition not_silent :: "alarm_env \<Rightarrow> nat \<Rightarrow> bool" where
  "not_silent env k = (case app_alarm_rules_get (rules env) (of_nat k) of
     None \<Rightarrow> True | Some r \<Rightarrow> \<not> silent_rule r)"

lemma valid_enabled [simp]: "rule_valid (r\<lparr>r_enabled := x\<rparr>) = rule_valid r"
  by (auto simp: rule_valid_def rule_dwell_range_valid_def rule_threshold_band_valid_def
      rule_state_levels_valid_def rule_rate_limit_valid_def split: option.splits)

lemma rt_ok_after:
  assumes ok: "rt_ok rt" and used: "rt_used rt" and r: "r = (rt_last_rule rt)\<lparr>r_enabled := x\<rparr>"
    and valid: "rule_valid (rt_last_rule rt)"
    and keep: "rt_last_rule rt' = rt_last_rule rt" "rt_used rt'"
    and one: "rt_oneshot_expiry rt' \<noteq> 0 \<Longrightarrow> rt_oneshot_expiry rt \<noteq> 0 \<or>
      (\<exists>c. app_alarm_rule_channel r = Some c \<and> ch_kind c = KIND_STATE \<and>
        (if rule_is_momentary r then \<not> rule_is_stillness r else rule_is_edge r))"
  shows "rt_ok rt'"
proof -
  have same: "rule_is_stillness r = rule_is_stillness (rt_last_rule rt)"
      "rule_is_edge r = rule_is_edge (rt_last_rule rt)"
      "rule_is_momentary r = rule_is_momentary (rt_last_rule rt)"
      "app_alarm_rule_channel r = app_alarm_rule_channel (rt_last_rule rt)"
    by (simp_all add: r rule_is_stillness_def)
  have new: "silent_rule (rt_last_rule rt) \<or> (rule_is_momentary (rt_last_rule rt) \<and>
      r_from_state (rt_last_rule rt) = 1 \<and> r_to_state (rt_last_rule rt) = 1)"
    if "rt_oneshot_expiry rt' \<noteq> 0"
    using one [OF that] ok oneshot_rule_ok [OF valid] unfolding same rt_ok_def by blast
  show ?thesis
    unfolding rt_ok_def keep(1) using keep(2) new by blast
qed

interpretation pr: edge_step "poll_rule env" "\<lambda>k rt. not_silent env k" "rules_valid (rules env)" for env
proof
  fix k rt
  obtain o' rt1 ev1 where s: "rt_sync_armed env k rt = (o', rt1, ev1)" by (metis prod_cases3)
  note own1 = rt_sync_own [OF s]
  show "own k (snd (poll_rule env k rt))"
    using own1 by (auto simp: poll_rule_def s split_def split: option.splits)
  show "edges k (snd (poll_rule env k rt)) (rt_active rt) = Some (rt_active (fst (poll_rule env k rt)))"
    if "rt_ok rt" "not_silent env k"
  proof (cases o')
    case None
    then show ?thesis using rt_sync_facts(1) [OF s that(1)] by (simp add: poll_rule_def s)
  next
    case (Some r)
    then have "\<not> silent_rule r"
      using rt_sync_facts(3) [OF s that(1)] that(2) by (auto simp: not_silent_def)
    then show ?thesis
      using Some rt_sync_facts(1) [OF s that(1)]
      by (simp add: poll_rule_def s split_def edges_append eval_rule_edges)
  qed
  show "rt_ok (fst (poll_rule env k rt))" if v0: "rules_valid (rules env)" and ok0: "rt_ok rt"
  proof (cases o')
    case None
    then show ?thesis using rt_sync_facts(2) [OF s ok0] by (simp add: poll_rule_def s)
  next
    case (Some r)
    then obtain r0 x where r: "app_alarm_rules_get (rules env) (of_nat k) = Some r0"
      "rt_last_rule rt1 = r0" "r = r0\<lparr>r_enabled := x\<rparr>" "rt_used rt1"
      using rt_sync_facts(3) [OF s ok0] by blast
    have "rt_ok (fst (eval_rule env k r rt1))"
      by (rule rt_ok_after [OF rt_sync_facts(2) [OF s ok0] r(4), of r x])
         (use r v0 rules_validD in \<open>auto dest: eval_rule_oneshot\<close>)
    then show ?thesis using Some by (simp add: poll_rule_def s split_def)
  qed
qed

interpretation er: edge_step "event_rule env ch act" "\<lambda>k rt. not_silent env k" "rules_valid (rules env)"
  for env ch act
proof
  fix k rt
  obtain o' rt1 ev1 where s: "rt_sync_armed env k rt = (o', rt1, ev1)" by (metis prod_cases3)
  note own1 = rt_sync_own [OF s]
  show "own k (snd (event_rule env ch act k rt))"
    using own1 by (auto simp: event_rule_def s split_def split: option.splits)
  show "edges k (snd (event_rule env ch act k rt)) (rt_active rt)
      = Some (rt_active (fst (event_rule env ch act k rt)))"
    if "rt_ok rt" "not_silent env k"
  proof (cases o')
    case None
    then show ?thesis using rt_sync_facts(1) [OF s that(1)] by (simp add: event_rule_def s)
  next
    case (Some r)
    then have "\<not> silent_rule r"
      using rt_sync_facts(3) [OF s that(1)] that(2) by (auto simp: not_silent_def)
    then show ?thesis
      using Some rt_sync_facts(1) [OF s that(1)]
      by (auto simp: event_rule_def s split_def edges_append eval_state_edges silent_rule_def
          split: option.splits)
  qed
  show "rt_ok (fst (event_rule env ch act k rt))" if v0: "rules_valid (rules env)" and ok0: "rt_ok rt"
  proof (cases o')
    case None
    then show ?thesis using rt_sync_facts(2) [OF s ok0] by (simp add: event_rule_def s)
  next
    case (Some r)
    then obtain r0 x where r: "app_alarm_rules_get (rules env) (of_nat k) = Some r0"
      "rt_last_rule rt1 = r0" "r = r0\<lparr>r_enabled := x\<rparr>" "rt_used rt1"
      using rt_sync_facts(3) [OF s ok0] by blast
    have ok1: "rt_ok rt1" by (rule rt_sync_facts(2) [OF s ok0])
    have "rt_ok (fst (eval_state (now env) k r rt1 act))"
      if "app_alarm_rule_channel r = Some c" "ch_kind c = KIND_STATE" for c
      by (rule rt_ok_after [OF ok1 r(4), of r x])
         (use r v0 rules_validD that in \<open>auto dest: eval_state_oneshot\<close>)
    then show ?thesis using Some ok1 by (auto simp: event_rule_def s split_def split: option.splits)
  qed
qed

interpretation sr: edge_step "sweep_rule env"
  "\<lambda>k rt. rt_used rt \<longrightarrow> \<not> silent_rule (rt_last_rule rt)" True for env
proof
  fix k rt
  show "own k (snd (sweep_rule env k rt))"
    by (simp add: sweep_rule_def split_def sweep_stillness_def sweep_oneshot_def Let_def)
  have still: "rt_ok (fst (sweep_stillness env k rt)) \<and> rt_used (fst (sweep_stillness env k rt)) \<and>
      rt_last_rule (fst (sweep_stillness env k rt)) = rt_last_rule rt" if "rt_ok rt" "rt_used rt"
    using that by (auto simp: sweep_stillness_def rt_ok_def Let_def)
  have one: "rt_ok (fst (sweep_oneshot env k rt1))" if "rt_ok rt1" for rt1
    using that by (simp add: sweep_oneshot_def rt_ok_def Let_def)
  show "rt_ok (fst (sweep_rule env k rt))" if "rt_ok rt"
    using that still one by (simp add: sweep_rule_def split_def)
  show "edges k (snd (sweep_rule env k rt)) (rt_active rt) = Some (rt_active (fst (sweep_rule env k rt)))"
    if ok: "rt_ok rt" "rt_used rt \<longrightarrow> \<not> silent_rule (rt_last_rule rt)"
  proof (cases "rt_used rt")
    case True
    have "edges k (snd (sweep_stillness env k rt)) (rt_active rt)
        = Some (rt_active (fst (sweep_stillness env k rt)))"
      by (simp add: sweep_stillness_def Let_def)
    moreover have "edges k (snd (sweep_oneshot env k rt1)) (rt_active rt1)
        = Some (rt_active (fst (sweep_oneshot env k rt1)))"
      if "rt_ok rt1" "\<not> silent_rule (rt_last_rule rt1)" for rt1
      using that by (auto simp: sweep_oneshot_def rt_ok_def Let_def)
    ultimately show ?thesis
      using still [OF ok(1) True] ok(2) True by (simp add: sweep_rule_def split_def edges_append)
  qed (simp add: sweep_rule_def)
qed

subsection \<open>Watchdogs leave the rules alone\<close>

definition watchdog_events :: "events \<Rightarrow> bool" where
  "watchdog_events es \<longleftrightarrow> (\<forall>e \<in> set es. ev_rule e = 0xFE \<or> ev_rule e = 0xFF)"

lemma watchdog_simps [simp]:
  "watchdog_events []" "watchdog_events (xs @ ys) \<longleftrightarrow> watchdog_events xs \<and> watchdog_events ys"
  "watchdog_events (alarm_collect_nodata slot ch ty act)"
  "watchdog_events (alarm_collect_mismatch s x d act)"
  "watchdog_events (alarm_collect_battery act v)"
  by (auto simp: watchdog_events_def alarm_collect_nodata_def alarm_collect_mismatch_def
      alarm_collect_battery_def APP_ALARM_WATCHDOG_RULE_def APP_ALARM_BATTERY_RULE_def)

lemma watchdog_edges: "watchdog_events es \<Longrightarrow> k < 16 \<Longrightarrow> edges k es a = Some a"
proof (rule edges_foreign)
  fix e assume "watchdog_events es" "k < 16" "e \<in> set es"
  then have "ev_rule e = of_nat 254 \<or> ev_rule e = of_nat 255" by (auto simp: watchdog_events_def)
  then show "ev_rule e \<noteq> of_nat k" using \<open>k < 16\<close> of_nat_u8_eq [of 254 k] of_nat_u8_eq [of 255 k] by auto
qed

lemma nodata_step_watchdog [simp]: "watchdog_events (snd (nodata_step slot ty ok t l))"
  by (simp add: nodata_step_def Let_def)

lemma nodata_reset_watchdog [simp]: "watchdog_events (snd (nodata_reset slot ty l))"
  by (simp add: nodata_reset_def)

lemma nodata_poll_mb_watchdog [simp]: "watchdog_events (snd (nodata_poll_mb env ty t cs ch ls))"
  by (induction cs arbitrary: ch ls) (auto simp: split_def Let_def split: list.splits)

lemma nodata_part_watchdog [simp]: "watchdog_events (snd (nodata_part slot t rep tm p l))"
  by (simp add: nodata_part_def Let_def)

lemma nodata_parts_watchdog [simp]: "watchdog_events (snd (nodata_parts slot t rep tm p ls))"
  by (induction ls arbitrary: p) (simp_all add: split_def Let_def)

lemma nodata_poll_w1_watchdog [simp]: "watchdog_events (snd (nodata_poll_w1 env slot t tm ls))"
  by (simp add: nodata_poll_w1_def split_def Let_def split: list.split)

lemma reset_latches_watchdog [simp]: "watchdog_events (snd (reset_latches slot ty ls))"
  by (induction ls) (simp_all add: split_def)

lemma nodata_slot_frame:
  "m_rt (fst (nodata_slot env slot (st, evs))) = m_rt st \<and>
   (watchdog_events evs \<longrightarrow> watchdog_events (snd (nodata_slot env slot (st, evs))))"
  by (simp add: nodata_slot_def split_def Let_def split: option.split)

lemma mismatch_slot_frame:
  "m_rt (fst (mismatch_slot env s (st, evs))) = m_rt st \<and>
   (watchdog_events evs \<longrightarrow> watchdog_events (snd (mismatch_slot env s (st, evs))))"
  by (simp add: mismatch_slot_def Let_def)

lemma fold_frame:
  assumes "\<And>s st evs. m_rt (fst (f s (st, evs))) = m_rt st \<and>
    (watchdog_events evs \<longrightarrow> watchdog_events (snd (f s (st, evs))))"
  shows "m_rt (fst (fold f xs (st, evs))) = m_rt st \<and>
    (watchdog_events evs \<longrightarrow> watchdog_events (snd (fold f xs (st, evs))))"
proof (induction xs arbitrary: st evs)
  case (Cons x xs)
  obtain st1 ev1 where 1: "f x (st, evs) = (st1, ev1)" by (metis surj_pair)
  then show ?case using assms [of x st evs] Cons.IH [of st1 ev1] by simp
qed simp

lemma mismatch_poll_frame:
  "m_rt (fst (mismatch_poll env st)) = m_rt st" "watchdog_events (snd (mismatch_poll env st))"
  using fold_frame [of "mismatch_slot env", OF mismatch_slot_frame]
  by (simp_all add: mismatch_poll_def)

lemma nodata_poll_frame:
  "m_rt (fst (nodata_poll env st)) = m_rt st" "watchdog_events (snd (nodata_poll env st))"
  using fold_frame [of "nodata_slot env", OF nodata_slot_frame]
  by (simp_all add: nodata_poll_def)

lemma battery_poll_frame:
  "m_rt (fst (battery_poll env st)) = m_rt st" "watchdog_events (snd (battery_poll env st))"
  by (simp_all add: battery_poll_def Let_def)

lemma poll_latches_rt:
  "m_rt (fst (poll_latches env st)) = fst (each_rt (sweep_rule env) 0 (fst (each_rt (poll_rule env) 0 (m_rt st))))"
  by (simp add: poll_latches_def split_def Let_def mismatch_poll_frame nodata_poll_frame
      battery_poll_frame)

lemma poll_latches_events:
  "\<exists>wd. watchdog_events wd \<and> snd (poll_latches env st) =
     snd (each_rt (poll_rule env) 0 (m_rt st)) @ wd @
     snd (each_rt (sweep_rule env) 0 (fst (each_rt (poll_rule env) 0 (m_rt st))))"
  by (simp add: poll_latches_def split_def Let_def mismatch_poll_frame nodata_poll_frame
      battery_poll_frame)

lemma alarm_send_frame [simp]:
  "m_rt (fst (alarm_send env st)) = m_rt st" "m_nodata (fst (alarm_send env st)) = m_nodata st"
  "m_nodata_type (fst (alarm_send env st)) = m_nodata_type st"
  "m_battery_low_active (fst (alarm_send env st)) = m_battery_low_active st"
  "m_mismatch_active (fst (alarm_send env st)) = m_mismatch_active st"
  "m_mismatch_expected (fst (alarm_send env st)) = m_mismatch_expected st"
  "m_active_mask (fst (alarm_send env st)) = m_active_mask st"
  "m_activation_seq (fst (alarm_send env st)) = m_activation_seq st"
  by (simp_all add: alarm_send_def Let_def)

lemma app_alarm_poll_simps:
  "m_rt (fst (app_alarm_poll env st)) = m_rt (fst (poll_latches env st))"
  "ao_events (snd (app_alarm_poll env st)) = snd (poll_latches env st)"
  by (simp_all add: app_alarm_poll_def split_def Let_def)

lemma app_alarm_event_simps:
  "m_rt (fst (app_alarm_event env ch act st)) = fst (each_rt (event_rule env ch act) 0 (m_rt st))"
  "fst (snd (app_alarm_event env ch act st)) = snd (each_rt (event_rule env ch act) 0 (m_rt st))"
  by (simp_all add: app_alarm_event_def split_def Let_def)

subsection \<open>Edges over whole calls\<close>

definition alarm_ok :: "alarm_state \<Rightarrow> bool" where
  "alarm_ok st \<longleftrightarrow> length (m_rt st) = APP_ALARM_RULE_COUNT \<and> list_all rt_ok (m_rt st)"

lemma boot_alarm_ok: "alarm_ok boot_alarm"
  by (simp add: alarm_ok_def boot_alarm_def rt_ok_def rt_zero_def list_all_length)

lemma poll_rule_rule:
  assumes "rt_ok rt" "not_silent env k"
  shows "rt_used (fst (poll_rule env k rt)) \<longrightarrow> \<not> silent_rule (rt_last_rule (fst (poll_rule env k rt)))"
proof -
  obtain o' rt1 ev1 where s: "rt_sync_armed env k rt = (o', rt1, ev1)" by (metis prod_cases3)
  show ?thesis
    using rt_sync_facts(3,4) [OF s assms(1)] assms(2)
    by (cases o') (auto simp: poll_rule_def s split_def not_silent_def)
qed

lemma alarm_poll_edges:
  assumes ok: "alarm_ok st" and v: "rules_valid (rules env)" and k: "k < APP_ALARM_RULE_COUNT"
    and ns: "not_silent env k"
  shows "edges k (ao_events (snd (app_alarm_poll env st))) (rt_active (m_rt st ! k))
    = Some (rt_active (m_rt (fst (app_alarm_poll env st)) ! k))"
proof -
  let ?r1 = "fst (each_rt (poll_rule env) 0 (m_rt st))"
  have len: "length (m_rt st) = 16" "k < 16" using ok k by (simp_all add: alarm_ok_def APP_ALARM_RULE_COUNT_def)
  have okk: "rt_ok (m_rt st ! k)" using ok len by (simp add: alarm_ok_def list_all_length)
  have ok1: "list_all rt_ok ?r1" using pr.each_ok [OF v] ok by (simp add: alarm_ok_def)
  have e1: "edges k (snd (each_rt (poll_rule env) 0 (m_rt st))) (rt_active (m_rt st ! k)) = Some (rt_active (?r1 ! k))"
    using pr.each_edges [of 0 "m_rt st" k env] len okk ns by simp
  have ok1k: "rt_ok (?r1 ! k)" using ok1 len by (simp add: list_all_length)
  have r1k: "?r1 ! k = fst (poll_rule env k (m_rt st ! k))" using len by (simp add: each_rt_nth)
  have e2: "edges k (snd (each_rt (sweep_rule env) 0 ?r1)) (rt_active (?r1 ! k))
      = Some (rt_active (fst (each_rt (sweep_rule env) 0 ?r1) ! k))"
    using sr.each_edges [of 0 ?r1 k env] len ok1k poll_rule_rule [OF okk ns] r1k by simp
  obtain wd where "watchdog_events wd" "snd (poll_latches env st) =
      snd (each_rt (poll_rule env) 0 (m_rt st)) @ wd @ snd (each_rt (sweep_rule env) 0 ?r1)"
    using poll_latches_events by blast
  then show ?thesis
    using e1 e2 len by (simp add: app_alarm_poll_simps poll_latches_rt edges_append watchdog_edges)
qed

lemma alarm_poll_ok:
  "alarm_ok st \<Longrightarrow> rules_valid (rules env) \<Longrightarrow> alarm_ok (fst (app_alarm_poll env st))"
  by (simp add: alarm_ok_def app_alarm_poll_simps poll_latches_rt sr.each_ok pr.each_ok)

lemma alarm_event_ok:
  "alarm_ok st \<Longrightarrow> rules_valid (rules env) \<Longrightarrow> alarm_ok (fst (app_alarm_event env ch act st))"
  by (simp add: alarm_ok_def app_alarm_event_simps er.each_ok)

lemma alarm_event_edges:
  assumes "alarm_ok st" "k < APP_ALARM_RULE_COUNT" "not_silent env k"
  shows "edges k (fst (snd (app_alarm_event env ch act st))) (rt_active (m_rt st ! k))
    = Some (rt_active (m_rt (fst (app_alarm_event env ch act st)) ! k))"
  using er.each_edges [of 0 "m_rt st" k env ch act] assms
  by (simp add: alarm_ok_def app_alarm_event_simps list_all_length APP_ALARM_RULE_COUNT_def)

text \<open>A run: any sequence of polls and channel events, each in its own environment.\<close>

datatype alarm_call = Call_poll alarm_env | Call_event alarm_env u8 bool

definition call_env :: "alarm_call \<Rightarrow> alarm_env" where
  "call_env c = (case c of Call_poll env \<Rightarrow> env | Call_event env _ _ \<Rightarrow> env)"

definition alarm_call :: "alarm_call \<Rightarrow> alarm_state \<Rightarrow> alarm_state \<times> events" where
  "alarm_call c st = (case c of
     Call_poll env \<Rightarrow> (case app_alarm_poll env st of (st', out) \<Rightarrow> (st', ao_events out))
   | Call_event env ch act \<Rightarrow> (case app_alarm_event env ch act st of (st', evs, _) \<Rightarrow> (st', evs)))"

fun alarm_run :: "alarm_call list \<Rightarrow> alarm_state \<Rightarrow> alarm_state \<times> events" where
  "alarm_run [] st = (st, [])"
| "alarm_run (c # cs) st =
     (case alarm_call c st of (st1, e1) \<Rightarrow> case alarm_run cs st1 of (st2, e2) \<Rightarrow> (st2, e1 @ e2))"

lemma alarm_call_step:
  assumes "alarm_ok st" "rules_valid (rules (call_env c))"
  shows "alarm_ok (fst (alarm_call c st))"
    and "k < APP_ALARM_RULE_COUNT \<Longrightarrow> not_silent (call_env c) k \<Longrightarrow>
      edges k (snd (alarm_call c st)) (rt_active (m_rt st ! k))
        = Some (rt_active (m_rt (fst (alarm_call c st)) ! k))"
  using assms alarm_poll_ok alarm_event_ok alarm_poll_edges alarm_event_edges
  by (cases c; simp add: alarm_call_def call_env_def split_def)+

lemma alarm_run_edges:
  "alarm_ok st \<Longrightarrow> k < APP_ALARM_RULE_COUNT \<Longrightarrow>
   \<forall>c \<in> set cs. rules_valid (rules (call_env c)) \<and> not_silent (call_env c) k \<Longrightarrow>
   alarm_ok (fst (alarm_run cs st)) \<and>
   edges k (snd (alarm_run cs st)) (rt_active (m_rt st ! k))
     = Some (rt_active (m_rt (fst (alarm_run cs st)) ! k))"
proof (induction cs arbitrary: st)
  case (Cons c cs)
  then show ?case
    using alarm_call_step(1) [of st c] alarm_call_step(2) [of st c k] by (simp add: split_def edges_append)
qed simp


definition demo_mb :: app_sensor_mb where
  "demo_mb = \<lparr>mb_valid = 1, mb_v = (replicate 22 NAN)[0 := 0x42200000]\<rparr>"

definition demo_w1 :: app_sensor_w1 where
  "demo_w1 = \<lparr>w1_type = 0, w1_present = False, w1_valid = 0, w1_v = replicate 10 NAN\<rparr>"

definition demo_env :: alarm_env where
  "demo_env = \<lparr>cfg = demo_config, now = 60000,
     rules = snd (snd (app_alarm_rules_set 3 demo_rule (demo_config, boot_cache))),
     sdata = \<lparr>sd_mb = demo_mb, sd_w1 = replicate 4 demo_w1\<rparr>,
     hall = hall_zero, inp = m_input_data input_zero,
     w1_mismatch = replicate 4 False, w1_configured = replicate 4 False,
     w1_expected = replicate 4 0, w1_detected = replicate 4 0\<rparr>"


end
