(* ===== verification/AlarmViews.thy ===== *)
theory AlarmViews
  imports AlarmProps
begin

text \<open>
  Functional properties of the alarm evaluator: agreement of the views of the latches, and what
  each rule kind and watchdog does with its input.
\<close>

unbundle bit_operations_syntax

subsection \<open>The views\<close>

lemma nodata_active_frame [simp]:
  "nodata_slot_active (st\<lparr>m_active_mask := a, m_activation_seq := b\<rparr>) = nodata_slot_active st"
  "nodata_slot_active (fst (alarm_send env st)) = nodata_slot_active st"
  by (rule ext, simp add: nodata_slot_active_def)+

lemma poll_mask:
  "m_active_mask (fst (app_alarm_poll env st)) = collect_mask (fst (poll_latches env st))"
  "collect_mask (fst (app_alarm_poll env st)) = collect_mask (fst (poll_latches env st))"
  "ao_active (snd (app_alarm_poll env st)) = (collect_mask (fst (poll_latches env st)) \<noteq> 0)"
  by (simp_all add: app_alarm_poll_def split_def Let_def collect_mask_def)

lemma poll_seq_frame: "m_activation_seq (fst (poll_latches env st)) = m_activation_seq st"
proof -
  have f: "m_activation_seq (fst (fold f xs (s, evs))) = m_activation_seq s"
    if "\<And>x s evs. m_activation_seq (fst (f x (s, evs))) = m_activation_seq s"
    for f :: "nat \<Rightarrow> alarm_state \<times> events \<Rightarrow> alarm_state \<times> events" and xs s evs
  proof (induction xs arbitrary: s evs)
    case (Cons x xs)
    obtain s1 e1 where "f x (s, evs) = (s1, e1)" by (metis surj_pair)
    then show ?case using that [of x s evs] Cons.IH [of s1 e1] by simp
  qed simp
  have "m_activation_seq (fst (mismatch_slot env k (s, evs))) = m_activation_seq s" for k s evs
    by (simp add: mismatch_slot_def Let_def)
  moreover have "m_activation_seq (fst (nodata_slot env k (s, evs))) = m_activation_seq s" for k s evs
    by (simp add: nodata_slot_def split_def Let_def)
  moreover have "m_activation_seq (fst (battery_poll env s)) = m_activation_seq s" for s
    by (simp add: battery_poll_def Let_def)
  ultimately show ?thesis
    by (simp add: poll_latches_def split_def Let_def mismatch_poll_def nodata_poll_def f)
qed

lemma poll_seq:
  "m_activation_seq (fst (app_alarm_poll env st)) = m_activation_seq st +
    (if \<exists>k < 32. bit (m_active_mask (fst (app_alarm_poll env st))) k \<and> \<not> bit (m_active_mask st) k
     then 1 else 0)"
proof -
  let ?new = "collect_mask (fst (poll_latches env st)) AND NOT (m_active_mask st)"
  have "(?new \<noteq> 0) = (\<exists>k < 32. bit (collect_mask (fst (poll_latches env st))) k \<and> \<not> bit (m_active_mask st) k)"
    by (auto simp: word_zero_bits bit_simps)
  moreover have "m_activation_seq (fst (app_alarm_poll env st)) =
      m_activation_seq st + (if ?new \<noteq> 0 then 1 else 0)"
    by (simp add: app_alarm_poll_def split_def Let_def poll_seq_frame)
  ultimately show ?thesis unfolding poll_mask(1) by presburger
qed

definition some_latch :: "alarm_state \<Rightarrow> bool" where
  "some_latch st \<longleftrightarrow> (\<exists>slot < NODATA_SLOTS. nodata_slot_active st slot) \<or> m_battery_low_active st \<or>
     (\<exists>s < APP_W1_SLOT_COUNT. m_mismatch_active st ! s) \<or>
     (\<exists>i < APP_ALARM_RULE_COUNT. rt_used (m_rt st ! i) \<and> rt_active (m_rt st ! i))"

lemma mask_some_latch: "collect_mask st \<noteq> 0 \<longleftrightarrow> some_latch st"
proof -
  have "collect_mask st \<noteq> 0 \<longleftrightarrow> (\<exists>k < 32. bit (collect_mask st) k)" by (simp add: word_zero_bits)
  also have "\<dots> \<longleftrightarrow> some_latch st"
  proof
    assume "\<exists>k < 32. bit (collect_mask st) k"
    then obtain k where k: "k < 32" "bit (collect_mask st) k" by blast
    then consider "k < 16" "rt_used (m_rt st ! k) \<and> rt_active (m_rt st ! k)"
      | "16 \<le> k" "k < 21" "nodata_slot_active st (k - 16)" | "m_battery_low_active st"
      | "22 \<le> k" "k < 26" "m_mismatch_active st ! (k - 22)"
      by (auto simp: collect_mask_bit split: if_splits)
    then show "some_latch st"
    proof cases
      case 1 then show ?thesis by (auto simp: some_latch_def APP_ALARM_RULE_COUNT_def)
    next
      case 2 then have "k - 16 < NODATA_SLOTS" by (simp add: NODATA_SLOTS_def)
      with 2 show ?thesis unfolding some_latch_def by blast
    next
      case 3 then show ?thesis by (simp add: some_latch_def)
    next
      case 4 then have "k - 22 < APP_W1_SLOT_COUNT" by (simp add: APP_W1_SLOT_COUNT_def)
      with 4 show ?thesis unfolding some_latch_def by blast
    qed
  next
    assume "some_latch st"
    then consider i where "i < 16" "rt_used (m_rt st ! i) \<and> rt_active (m_rt st ! i)"
      | slot where "slot < 5" "nodata_slot_active st slot" | "m_battery_low_active st"
      | s where "s < 4" "m_mismatch_active st ! s"
      by (auto simp: some_latch_def APP_ALARM_RULE_COUNT_def NODATA_SLOTS_def APP_W1_SLOT_COUNT_def)
    then show "\<exists>k < 32. bit (collect_mask st) k"
    proof cases
      case (1 i) then show ?thesis by (intro exI [of _ i]) (simp add: collect_mask_bit)
    next
      case (2 slot) then show ?thesis by (intro exI [of _ "16 + slot"]) (simp add: collect_mask_bit)
    next
      case 3 then show ?thesis by (intro exI [of _ 21]) (simp add: collect_mask_bit)
    next
      case (4 s) then show ?thesis by (intro exI [of _ "22 + s"]) (simp add: collect_mask_bit)
    qed
  qed
  finally show ?thesis .
qed

lemma rt_flags_any: "bit (rt_flags rt m) 0 = (bit m 0 \<or> (rt_used rt \<and> rt_active rt))"
  by (auto simp: rt_flags_def status_bits bit_simps BIT32_bit)

lemma fold_flags_any:
  "bit (fold (\<lambda>i. rt_flags (f i)) xs m) 0 = (bit m 0 \<or> (\<exists>i \<in> set xs. rt_used (f i) \<and> rt_active (f i)))"
  by (induction xs arbitrary: m) (auto simp: rt_flags_any)

lemma flags_some_latch: "bit (app_alarm_status_flags st) 0 \<longleftrightarrow> some_latch st"
  by (auto simp: app_alarm_status_flags_def Let_def fold_flags_any some_latch_def list_ex_iff
      status_bits bit_simps BIT32_bit)

lemma snapshot_some_latch:
  assumes "length (m_rt st) = APP_ALARM_RULE_COUNT" "0 < mx"
  shows "app_alarm_active_snapshot st mx \<noteq> [] \<longleftrightarrow> some_latch st"
proof -
  have "active_nodata st \<noteq> [] \<longleftrightarrow> (\<exists>slot < NODATA_SLOTS. nodata_slot_active st slot)"
    by (auto simp: active_nodata_def nodata_slot_active_def list_ex_iff filter_empty_conv)
  moreover have "active_watchdogs st \<noteq> [] \<longleftrightarrow> m_battery_low_active st \<or>
      (\<exists>s < APP_W1_SLOT_COUNT. m_mismatch_active st ! s)"
    by (auto simp: active_watchdogs_def filter_empty_conv)
  moreover have "active_rules st \<noteq> [] \<longleftrightarrow>
      (\<exists>i < APP_ALARM_RULE_COUNT. rt_used (m_rt st ! i) \<and> rt_active (m_rt st ! i))"
    using assms(1) nth_mem [of _ "m_rt st"]
    by (auto simp: active_rules_def filter_empty_conv in_set_conv_nth)
  ultimately show ?thesis
    using assms(2) by (auto simp: app_alarm_active_snapshot_def some_latch_def)
qed



subsection \<open>Threshold rules\<close>

definition threshold_channel :: "app_alarm_rule \<Rightarrow> bool" where
  "threshold_channel r = (case app_alarm_rule_channel r of
     None \<Rightarrow> False | Some c \<Rightarrow> ch_kind c = KIND_THRESHOLD)"

lemma threshold_ruleD:
  assumes "rule_valid r" "threshold_channel r"
  shows "f32_lt (r_lo r) (r_hi r)" "f32_le 0 (r_dwell r)" "threshold_db r = r_dwell r"
  using assms
  by (auto simp: rule_valid_def threshold_channel_def rule_dwell_range_valid_def
      rule_threshold_band_valid_def threshold_db_def split: option.splits)

text \<open>
  C11: a latched threshold rule that is enabled and reads a number keeps its latch silently
  exactly while the reading stays beyond the same limit or inside the deadband; otherwise it
  sends one deactivate, followed by an activate exactly when the reading is beyond the opposite
  limit. An unlatched one fires exactly when the reading is outside the band.
\<close>

theorem threshold_behaviour:
  assumes "rule_valid r" and "threshold_channel r" and "r_enabled r \<noteq> 0" and "\<not> f32_nan v"
    and "rt_active rt \<longrightarrow> rt_type rt = ALARM_TYPE_HIGH \<or> rt_type rt = ALARM_TYPE_LOW"
  shows "eval_threshold k r rt v =
   (let high = f32_lt (r_hi r) v; low = f32_lt v (r_lo r); s = rule_scale r v;
        act = (\<lambda>ty. alarm_collect k r True ty True s);
        deact = alarm_collect k r False (rt_type rt) True s
    in if \<not> rt_active rt then
         (if low then (rt\<lparr>rt_active := True, rt_type := ALARM_TYPE_LOW\<rparr>, act ALARM_TYPE_LOW)
          else if high then (rt\<lparr>rt_active := True, rt_type := ALARM_TYPE_HIGH\<rparr>, act ALARM_TYPE_HIGH)
          else (rt, []))
       else if rt_type rt = ALARM_TYPE_HIGH then
         (if low then (rt\<lparr>rt_active := True, rt_type := ALARM_TYPE_LOW\<rparr>, deact @ act ALARM_TYPE_LOW)
          else if \<not> high \<and> f32_lt v (f32_sub (r_hi r) (r_dwell r))
          then (rt\<lparr>rt_active := False\<rparr>, deact) else (rt, []))
       else
         (if high then (rt\<lparr>rt_active := True, rt_type := ALARM_TYPE_HIGH\<rparr>, deact @ act ALARM_TYPE_HIGH)
          else if \<not> low \<and> f32_lt (f32_add (r_lo r) (r_dwell r)) v
          then (rt\<lparr>rt_active := False\<rparr>, deact) else (rt, [])))"
proof -
  have excl: "\<not> (f32_lt v (r_lo r) \<and> f32_lt (r_hi r) v)"
    using threshold_ruleD(1) [OF assms(1,2)] by (auto simp: f32_lt_def)
  show ?thesis
    using assms(3-5) excl threshold_ruleD(3) [OF assms(1,2)]
    by (auto simp: eval_threshold_def threshold_want_def threshold_cleared_def Let_def alarm_types)
qed

lemma threshold_behaviour_witness:
  "eval_threshold 3 demo_rule rt_zero 0x42200000
     = (rt_zero\<lparr>rt_active := True, rt_type := ALARM_TYPE_HIGH\<rparr>,
        alarm_collect 3 demo_rule True ALARM_TYPE_HIGH True (rule_scale demo_rule 0x42200000))"
proof -
  have h: "threshold_channel demo_rule" "r_enabled demo_rule \<noteq> 0" "\<not> f32_nan 0x42200000"
    by code_simp+
  have v: "f32_lt (r_hi demo_rule) 0x42200000" "\<not> f32_lt 0x42200000 (r_lo demo_rule)" by code_simp+
  show ?thesis
    using threshold_behaviour [OF demo_rule_valid h, of rt_zero 3] v by (simp add: rt_zero_def Let_def)
qed

text \<open>
  No valid threshold rule latches for good: any reading at or above \<open>lo\<close> and below
  \<open>hi - dwell\<close> clears a HIGH latch, any reading up to \<open>hi\<close> and above \<open>lo + dwell\<close> a LOW one, and
  a lost reading (NaN) or a disabled rule clears both; each of them sends one deactivate.
\<close>

theorem threshold_clears:
  assumes "rule_valid r" and "threshold_channel r" and "rt_active rt"
    and "rt_type rt = ALARM_TYPE_HIGH \<or> rt_type rt = ALARM_TYPE_LOW"
    and "f32_nan v \<or> r_enabled r = 0 \<or>
      (rt_type rt = ALARM_TYPE_HIGH \<and> f32_le (r_lo r) v \<and> f32_lt v (f32_sub (r_hi r) (r_dwell r))
         \<and> f32_le v (r_hi r)) \<or>
      (rt_type rt = ALARM_TYPE_LOW \<and> f32_le v (r_hi r) \<and> f32_lt (f32_add (r_lo r) (r_dwell r)) v
         \<and> f32_le (r_lo r) v)"
  shows "fst (eval_threshold k r rt v) = rt\<lparr>rt_active := False\<rparr> \<and>
    length (snd (eval_threshold k r rt v)) = 1"
proof (cases "f32_nan v \<or> r_enabled r = 0")
  case True
  with assms(3) show ?thesis by (auto simp: eval_threshold_def alarm_collect_def)
next
  case False
  have "\<not> f32_lt v (r_lo r)" "\<not> f32_lt (r_hi r) v"
    using assms(5) False by (auto simp: f32_lt_def f32_le_def)
  with assms(3-5) False threshold_ruleD(3) [OF assms(1,2)] show ?thesis
    by (auto simp: eval_threshold_def threshold_want_def threshold_cleared_def Let_def alarm_types
        alarm_collect_def)
qed

lemma threshold_clears_witness:
  "fst (eval_threshold 3 demo_rule (rt_zero\<lparr>rt_active := True, rt_type := ALARM_TYPE_HIGH\<rparr>) 0x41A00000)
     = rt_zero\<lparr>rt_active := False, rt_type := ALARM_TYPE_HIGH\<rparr>"
proof -
  have h: "threshold_channel demo_rule" by code_simp
  have v: "f32_le (r_lo demo_rule) 0x41A00000" "f32_le 0x41A00000 (r_hi demo_rule)"
      "f32_lt 0x41A00000 (f32_sub (r_hi demo_rule) (r_dwell demo_rule))" by code_simp+
  show ?thesis
    using threshold_clears [OF demo_rule_valid h,
        of "rt_zero\<lparr>rt_active := True, rt_type := ALARM_TYPE_HIGH\<rparr>" "0x41A00000" 3] v
    by simp
qed

subsection \<open>Rate rules\<close>

text \<open>Successive polls of one rate rule: (uptime, counter) observations in order.\<close>

definition rate_run ::
    "app_config \<Rightarrow> nat \<Rightarrow> app_alarm_rule \<Rightarrow> (int \<times> u32) list \<Rightarrow> rstate \<Rightarrow> rstate \<times> events" where
  "rate_run g k r obs rt = run_steps (\<lambda>(t, c) rt. eval_count g t k r rt c) obs rt"

lemma rate_run_Cons:
  "rate_run g k r ((t, c) # obs) rt =
    (case eval_count g t k r rt c of (rt1, e1) \<Rightarrow>
       case rate_run g k r obs rt1 of (rt2, e2) \<Rightarrow> (rt2, e1 @ e2))"
  by (simp add: rate_run_def)

text \<open>Observations inside one window: in time and counter order, before the window closes.\<close>

definition in_window :: "app_config \<Rightarrow> app_alarm_rule \<Rightarrow> int \<Rightarrow> u32 \<Rightarrow> (int \<times> u32) list \<Rightarrow> bool" where
  "in_window g r start base obs \<longleftrightarrow>
     sorted_wrt (\<lambda>a b. fst a \<le> fst b \<and> snd a \<le> snd b) obs \<and>
     (\<forall>o' \<in> set obs. start \<le> fst o' \<and> fst o' - start < rate_window_ms g r \<and> base \<le> snd o')"

lemma rate_run_active:
  assumes "rt_active rt" "rt_have_prev_count rt" "r_enabled r \<noteq> 0"
    "in_window g r (rt_count_window_start rt) (rt_prev_count rt) obs"
  shows "rate_run g k r obs rt = (rt, [])"
  using assms(4)
proof (induction obs)
  case Nil
  show ?case by (simp add: rate_run_def)
next
  case (Cons x obs)
  obtain t c where x: "x = (t, c)" by (cases x)
  have "eval_count g t k r rt c = (rt, [])"
    using assms(1-3) Cons.prems by (auto simp: eval_count_def in_window_def x Let_def not_less)
  moreover have "in_window g r (rt_count_window_start rt) (rt_prev_count rt) obs"
    using Cons.prems by (simp add: in_window_def)
  ultimately show ?case using Cons.IH by (simp add: x rate_run_Cons)
qed

text \<open>
  C12: however the polls fall inside one window, a rate alarm that is not active becomes active
  exactly when some poll saw the counter at least \<open>hi\<close> above the window's baseline, and it sends
  exactly one event then; it does not wait for the window to end.
\<close>

theorem rate_detects_in_window:
  assumes "\<not> rt_active rt" and "rt_have_prev_count rt" and "r_enabled r \<noteq> 0"
    and "in_window g r (rt_count_window_start rt) (rt_prev_count rt) obs"
  shows "rt_active (fst (rate_run g k r obs rt)) = (\<exists>o' \<in> set obs. rate_over r (snd o' - rt_prev_count rt))
    \<and> length (snd (rate_run g k r obs rt)) = (if \<exists>o' \<in> set obs. rate_over r (snd o' - rt_prev_count rt) then 1 else 0)"
  using assms(4)
proof (induction obs)
  case Nil
  show ?case using assms(1) by (simp add: rate_run_def)
next
  case (Cons x obs)
  obtain t c where x: "x = (t, c)" by (cases x)
  have w: "in_window g r (rt_count_window_start rt) (rt_prev_count rt) obs"
    using Cons.prems by (simp add: in_window_def)
  show ?case
  proof (cases "rate_over r (c - rt_prev_count rt)")
    case False
    then have "eval_count g t k r rt c = (rt, [])"
      using assms(1-3) Cons.prems by (auto simp: eval_count_def in_window_def x Let_def not_less)
    then show ?thesis using False Cons.IH [OF w] by (simp add: x rate_run_Cons split_def)
  next
    case True
    let ?rt = "rt\<lparr>rt_active := True, rt_prev_count := c, rt_count_window_start := t\<rparr>"
    have e: "eval_count g t k r rt c = (?rt, alarm_collect k r True ALARM_TYPE_TRIGGER True (sint c))"
      using assms(1-3) True Cons.prems by (auto simp: eval_count_def in_window_def x Let_def not_less)
    have "in_window g r t c obs"
      using Cons.prems by (fastforce simp: in_window_def x)
    then have "rate_run g k r obs ?rt = (?rt, [])"
      using assms(2,3) by (intro rate_run_active) simp_all
    then show ?thesis using True by (simp add: x rate_run_Cons e alarm_collect_def)
  qed
qed

definition demo_rate :: app_alarm_rule where
  "demo_rate = \<lparr>r_slot = 0, r_channel = 6, r_sensor_type = 1, r_enabled = 1, r_from_state = 0,
     r_to_state = 0, r_lo = 0, r_hi = 0x41200000, r_dwell = 0x42700000\<rparr>"

lemma rate_detects_in_window_witness:
  "let rt = rt_zero\<lparr>rt_used := True, rt_have_prev_count := True, rt_prev_count := 100,
              rt_count_window_start := 1000\<rparr>
   in rt_active (fst (rate_run demo_config 2 demo_rate [(4000, 105), (7000, 111), (10000, 130)] rt))"
proof -
  let ?rt = "rt_zero\<lparr>rt_used := True, rt_have_prev_count := True, rt_prev_count := 100,
              rt_count_window_start := 1000\<rparr>"
  let ?obs = "[(4000, 105), (7000, 111), (10000, 130)] :: (int \<times> u32) list"
  have w: "in_window demo_config demo_rate (rt_count_window_start ?rt) (rt_prev_count ?rt) ?obs"
    by code_simp
  have "\<exists>o' \<in> set ?obs. rate_over demo_rate (snd o' - rt_prev_count ?rt)" by code_simp
  with rate_detects_in_window [of ?rt demo_rate demo_config ?obs 2, OF _ _ _ w] show ?thesis
    by (simp add: rt_zero_def demo_rate_def)
qed

subsection \<open>The no-data watchdog\<close>

definition nodata_run :: "nat \<Rightarrow> u8 \<Rightarrow> (u32 \<times> bool) list \<Rightarrow> nodata_latch \<Rightarrow> nodata_latch \<times> events" where
  "nodata_run slot ty obs l = run_steps (\<lambda>(t, ok) l. nodata_step slot ty ok t l) obs l"

lemma nodata_run_snoc:
  "nodata_run slot ty (obs @ [(t, ok)]) l =
    (case nodata_run slot ty obs l of (l1, e1) \<Rightarrow>
       case nodata_step slot ty ok t l1 of (l2, e2) \<Rightarrow> (l2, e1 @ e2))"
  by (simp add: nodata_run_def run_steps_append split_def)



end
