(* ===== verification/DutyLedger.thy ===== *)
theory DutyLedger
  imports Prelude
begin

text \<open>
  The duty-cycle ledger of \<open>src/app/src/app_radio.c\<close> (types and constants in
  \<open>app_radio.h\<close>): a ring of 49 entries (end time, air) that admits a frame only when the air
  of the trailing hour plus this frame fits the allowance.  The uptime is the \<open>int\<close> number of
  milliseconds \<open>k_uptime_get()\<close> returns; the ledger keeps it truncated to 32 bits, so every
  comparison below is the wrapping one of the code.  The indices \<open>head\<close>, \<open>count\<close> (bytes that
  never exceed 49) are naturals.

  The ring is read through \<open>live\<close>, the list of its entries from the oldest to the newest; each
  operation is shown to be an operation on that list (\<open>expire_list\<close>, \<open>charge_list\<close>,
  \<open>used_list\<close>, \<open>wait_list\<close>), for every reachable ring.
\<close>

subsection \<open>The code\<close>

text \<open>The depth of the transmit queues, which the alarm batch is written for too.\<close>

definition APP_RADIO_TX_QUEUE_DEPTH :: nat where "APP_RADIO_TX_QUEUE_DEPTH = 4"

definition APP_RADIO_DUTY_WINDOW_MS :: u32 where "APP_RADIO_DUTY_WINDOW_MS = 3600000"
definition APP_RADIO_DUTY_1PCT_MS :: u32 where "APP_RADIO_DUTY_1PCT_MS = 36000"
definition APP_RADIO_DUTY_SLOT_MS :: u32 where
  "APP_RADIO_DUTY_SLOT_MS = APP_RADIO_DUTY_WINDOW_MS div 48"
definition APP_RADIO_DUTY_LEDGER_ENTRIES :: nat where
  "APP_RADIO_DUTY_LEDGER_ENTRIES =
     unat (APP_RADIO_DUTY_WINDOW_MS div APP_RADIO_DUTY_SLOT_MS + 1)"

record duty_entry =
  de_end :: u32
  de_air :: u32

record duty =
  du_entries :: "duty_entry list"
  du_budget :: u32
  du_head :: nat
  du_count :: nat

definition app_radio_duty_budget_ms :: "u32 \<Rightarrow> u32" where
  "app_radio_duty_budget_ms freq_hz =
     (if (865000000 \<le> freq_hz \<and> freq_hz \<le> 868600000)
         \<or> (869700000 \<le> freq_hz \<and> freq_hz \<le> 870000000)
      then APP_RADIO_DUTY_1PCT_MS
      else if 869400000 \<le> freq_hz \<and> freq_hz \<le> 869650000 then APP_RADIO_DUTY_1PCT_MS * 10
      else APP_RADIO_DUTY_1PCT_MS div 10)"

definition duty_slot :: "duty \<Rightarrow> nat \<Rightarrow> nat" where
  "duty_slot d i = (du_head d + i) mod APP_RADIO_DUTY_LEDGER_ENTRIES"

definition duty_at :: "duty \<Rightarrow> nat \<Rightarrow> duty_entry" where
  "duty_at d i = du_entries d ! duty_slot d i"

function duty_expire :: "duty \<Rightarrow> u32 \<Rightarrow> duty" where
  "duty_expire d now =
     (if 0 < du_count d
         \<and> APP_RADIO_DUTY_WINDOW_MS \<le> now - de_end (du_entries d ! du_head d)
      then duty_expire (d\<lparr>du_head := duty_slot d 1, du_count := du_count d - 1\<rparr>) now
      else d)"
  by pat_completeness auto
termination by (relation "measure (\<lambda>(d, _). du_count d)") auto

declare duty_expire.simps [simp del]

lemma duty_expire_stop:
  "du_count d = 0 \<or> now - de_end (du_entries d ! du_head d) < APP_RADIO_DUTY_WINDOW_MS
     \<Longrightarrow> duty_expire d now = d"
  by (subst duty_expire.simps) auto

definition duty_fold_oldest :: "duty \<Rightarrow> duty" where
  "duty_fold_oldest d =
     (let oldest = du_entries d ! du_head d;
          n = duty_slot d 1;
          next = du_entries d ! n
      in d\<lparr>du_entries := (du_entries d)[n := next\<lparr>de_air := de_air next + de_air oldest\<rparr>],
           du_head := n,
           du_count := du_count d - 1\<rparr>)"

definition app_radio_ledger_used_ms :: "duty \<Rightarrow> int \<Rightarrow> u32" where
  "app_radio_ledger_used_ms d now_ms =
     (let now = word_of_int now_ms
      in foldl (\<lambda>used i. let e = duty_at d i
                        in if now - de_end e < APP_RADIO_DUTY_WINDOW_MS then used + de_air e
                           else used)
           0 [0..<du_count d])"

definition app_radio_ledger_init :: "duty \<Rightarrow> u32 \<Rightarrow> duty" where
  "app_radio_ledger_init d budget_ms = d\<lparr>du_budget := budget_ms, du_head := 0, du_count := 0\<rparr>"

definition app_radio_ledger_charge :: "duty \<Rightarrow> int \<Rightarrow> u32 \<Rightarrow> duty" where
  "app_radio_ledger_charge d0 now_ms air_ms =
     (let now = word_of_int now_ms;
          d = duty_expire d0 now;
          newest = duty_at d (du_count d - 1)
      in if 0 < du_count d
            \<and> now - de_end newest < APP_RADIO_DUTY_SLOT_MS
            \<and> now div APP_RADIO_DUTY_SLOT_MS = de_end newest div APP_RADIO_DUTY_SLOT_MS
         then d\<lparr>du_entries := (du_entries d)
                  [duty_slot d (du_count d - 1) := \<lparr>de_end = now, de_air = de_air newest + air_ms\<rparr>]\<rparr>
         else (let d' = (if APP_RADIO_DUTY_LEDGER_ENTRIES \<le> du_count d then duty_fold_oldest d else d)
               in d'\<lparr>du_entries := (du_entries d')
                       [duty_slot d' (du_count d') := \<lparr>de_end = now, de_air = air_ms\<rparr>],
                     du_count := du_count d' + 1\<rparr>))"

text \<open>The loop of \<open>app_radio_ledger_wait_ms\<close>: the entry whose leaving frees \<open>over\<close>.\<close>

function duty_free_idx :: "duty \<Rightarrow> u32 \<Rightarrow> u32 \<Rightarrow> nat \<Rightarrow> nat" where
  "duty_free_idx d over freed i =
     (if i < du_count d - 1
      then (let freed' = freed + de_air (duty_at d i)
            in if over \<le> freed' then i else duty_free_idx d over freed' (i + 1))
      else i)"
  by pat_completeness auto
termination by (relation "measure (\<lambda>(d, _, _, i). du_count d - 1 - i)") auto

declare duty_free_idx.simps [simp del]

lemma duty_free_idx_stop: "du_count d - 1 \<le> i \<Longrightarrow> duty_free_idx d over freed i = i"
  by (subst duty_free_idx.simps) simp

definition app_radio_ledger_wait_ms :: "duty \<Rightarrow> int \<Rightarrow> u32 \<Rightarrow> int \<times> duty" where
  "app_radio_ledger_wait_ms d0 now_ms air_ms =
     (let now = word_of_int now_ms;
          d = duty_expire d0 now;
          used = app_radio_ledger_used_ms d now_ms
      in if du_budget d = 0 \<or> used + air_ms \<le> du_budget d \<or> du_count d = 0 then (0, d)
         else (let over = used + air_ms - du_budget d;
                   i = duty_free_idx d over 0 0
               in (uint (APP_RADIO_DUTY_WINDOW_MS - (now - de_end (duty_at d i))), d)))"

subsection \<open>The ring as a list\<close>

lemma ENTRIES [simp]: "APP_RADIO_DUTY_LEDGER_ENTRIES = 49"
  by (simp add: APP_RADIO_DUTY_LEDGER_ENTRIES_def APP_RADIO_DUTY_SLOT_MS_def
      APP_RADIO_DUTY_WINDOW_MS_def)

lemma SLOT: "APP_RADIO_DUTY_SLOT_MS = 75000"
  by (simp add: APP_RADIO_DUTY_SLOT_MS_def APP_RADIO_DUTY_WINDOW_MS_def)

definition duty_wf :: "duty \<Rightarrow> bool" where
  "duty_wf d \<longleftrightarrow> length (du_entries d) = 49 \<and> du_head d < 49 \<and> du_count d \<le> 49"

definition live :: "duty \<Rightarrow> duty_entry list" where
  "live d = map (duty_at d) [0..<du_count d]"

lemma length_live [simp]: "length (live d) = du_count d"
  by (simp add: live_def)

lemma live_nth [simp]: "i < du_count d \<Longrightarrow> live d ! i = duty_at d i"
  by (simp add: live_def)

lemma live_Nil_iff [simp]: "live d = [] \<longleftrightarrow> du_count d = 0"
  by (simp add: live_def)

lemma duty_slot_less [simp]: "duty_slot d i < 49"
  by (simp add: duty_slot_def)

lemma duty_slot_0: "duty_wf d \<Longrightarrow> duty_slot d 0 = du_head d"
  by (simp add: duty_slot_def duty_wf_def)

lemma duty_slot_inj:
  assumes "i < 49" "j < 49" "duty_slot d i = duty_slot d j"
  shows "i = j"
proof -
  have less: "i' = j'" if "i' \<le> j'" "j' < 49" "duty_slot d i' = duty_slot d j'" for i' j' :: nat
  proof -
    have "49 dvd (du_head d + j') - (du_head d + i')"
      by (subst mod_eq_dvd_iff_nat [symmetric])
        (use that in \<open>simp_all add: duty_slot_def\<close>)
    then have "49 dvd j' - i'" by simp
    moreover have "j' - i' < 49" using that(2) by simp
    ultimately have "j' - i' = 0" by (metis nat_dvd_not_less neq0_conv)
    then show ?thesis using that(1) by simp
  qed
  show ?thesis
    using less [of i j] less [of j i] assms by (cases "i \<le> j") simp_all
qed

lemma duty_slot_Suc: "duty_slot d (Suc i) = (duty_slot d 1 + i) mod 49"
  unfolding duty_slot_def ENTRIES mod_add_left_eq by simp

lemma duty_slot_upd [simp]:
  "duty_slot (d\<lparr>du_entries := e\<rparr>) k = duty_slot d k"
  "duty_slot (d\<lparr>du_count := c\<rparr>) k = duty_slot d k"
  by (simp_all add: duty_slot_def)

lemma map_upt_Suc_tl: "0 < n \<Longrightarrow> map (\<lambda>i. f (Suc i)) [0..<n - 1] = tl (map f [0..<n])"
  by (cases n) (simp_all add: upt_conv_Cons map_Suc_upt [symmetric] del: upt_Suc)

text \<open>Dropping the oldest entry, and writing one entry.\<close>

lemma live_drop:
  assumes "0 < du_count d" "c = du_count d - 1" "h = duty_slot d 1"
  shows "live (d\<lparr>du_head := h, du_count := c\<rparr>) = tl (live d)"
proof -
  have "duty_at (d\<lparr>du_head := h, du_count := c\<rparr>) i = duty_at d (Suc i)" for i
    using assms(3) by (simp add: duty_at_def duty_slot_Suc [of d i]) (simp add: duty_slot_def)
  then show ?thesis using assms(1,2) map_upt_Suc_tl [of "du_count d" "duty_at d"]
    by (simp add: live_def cong: map_cong)
qed

lemma live_update:
  assumes "duty_wf d" "j < 49" "du_count d \<le> 49"
  shows "live (d\<lparr>du_entries := (du_entries d)[duty_slot d j := x]\<rparr>) = (live d)[j := x]"
proof (rule nth_equalityI)
  fix i assume "i < length (live (d\<lparr>du_entries := (du_entries d)[duty_slot d j := x]\<rparr>))"
  then have i: "i < du_count d" by simp
  have "duty_slot d i = duty_slot d j \<longleftrightarrow> i = j"
    using duty_slot_inj [of i j d] i assms(2,3) by auto
  then show "live (d\<lparr>du_entries := (du_entries d)[duty_slot d j := x]\<rparr>) ! i = (live d)[j := x] ! i"
    using i assms by (auto simp: nth_list_update duty_at_def duty_wf_def)
qed simp

lemma live_append:
  assumes "duty_wf d" "du_count d < 49"
  shows "live (d\<lparr>du_entries := (du_entries d)[duty_slot d (du_count d) := x],
                du_count := du_count d + 1\<rparr>) = live d @ [x]"
proof (rule nth_equalityI)
  let ?d = "d\<lparr>du_entries := (du_entries d)[duty_slot d (du_count d) := x],
                du_count := du_count d + 1\<rparr>"
  fix i assume "i < length (live ?d)"
  then have i: "i < du_count d + 1" by simp
  have "duty_slot d i = duty_slot d (du_count d) \<longleftrightarrow> i = du_count d"
    using duty_slot_inj [of i "du_count d" d] i assms(2) by auto
  then show "live ?d ! i = (live d @ [x]) ! i"
    using i assms by (auto simp: nth_append nth_list_update duty_at_def duty_wf_def)
qed simp

subsection \<open>The operations on the list\<close>

definition expired :: "u32 \<Rightarrow> duty_entry \<Rightarrow> bool" where
  "expired now e \<longleftrightarrow> APP_RADIO_DUTY_WINDOW_MS \<le> now - de_end e"

definition expire_list :: "u32 \<Rightarrow> duty_entry list \<Rightarrow> duty_entry list" where
  "expire_list now l = dropWhile (expired now) l"

definition used_list :: "u32 \<Rightarrow> duty_entry list \<Rightarrow> u32" where
  "used_list now l = sum_list (map de_air (filter (\<lambda>e. \<not> expired now e) l))"

fun fold_list :: "duty_entry list \<Rightarrow> duty_entry list" where
  "fold_list (a # b # l) = b\<lparr>de_air := de_air b + de_air a\<rparr> # l"
| "fold_list l = l"

definition same_slot :: "u32 \<Rightarrow> duty_entry \<Rightarrow> bool" where
  "same_slot now e \<longleftrightarrow> now - de_end e < APP_RADIO_DUTY_SLOT_MS
     \<and> now div APP_RADIO_DUTY_SLOT_MS = de_end e div APP_RADIO_DUTY_SLOT_MS"

definition charge_list :: "u32 \<Rightarrow> u32 \<Rightarrow> duty_entry list \<Rightarrow> duty_entry list" where
  "charge_list now air l0 =
     (let l = expire_list now l0
      in if l \<noteq> [] \<and> same_slot now (last l)
         then butlast l @ [\<lparr>de_end = now, de_air = de_air (last l) + air\<rparr>]
         else (if 49 \<le> length l then fold_list l else l) @ [\<lparr>de_end = now, de_air = air\<rparr>])"

fun free_idx :: "u32 \<Rightarrow> u32 \<Rightarrow> duty_entry list \<Rightarrow> nat" where
  "free_idx over freed (a # b # l) =
     (if over \<le> freed + de_air a then 0 else Suc (free_idx over (freed + de_air a) (b # l)))"
| "free_idx over freed l = 0"

definition wait_list :: "u32 \<Rightarrow> u32 \<Rightarrow> u32 \<Rightarrow> duty_entry list \<Rightarrow> int" where
  "wait_list budget now air l0 =
     (let l = expire_list now l0; used = used_list now l
      in if budget = 0 \<or> used + air \<le> budget \<or> l = [] then 0
         else uint (APP_RADIO_DUTY_WINDOW_MS
                - (now - de_end (l ! free_idx (used + air - budget) 0 l))))"

lemma length_fold_list: "2 \<le> length l \<Longrightarrow> length (fold_list l) = length l - 1"
  by (cases l rule: fold_list.cases) simp_all

lemma length_expire_list: "length (expire_list now l) \<le> length l"
  by (simp add: expire_list_def length_dropWhile_le)

lemma duty_expire_sim:
  assumes "duty_wf d"
  shows "live (duty_expire d now) = expire_list now (live d)" (is ?live)
    and "duty_wf (duty_expire d now)" (is ?wf)
    and "du_budget (duty_expire d now) = du_budget d" (is ?budget)
proof -
  have "duty_wf d \<Longrightarrow> live (duty_expire d now) = expire_list now (live d)
      \<and> duty_wf (duty_expire d now) \<and> du_budget (duty_expire d now) = du_budget d" for d
  proof (induction d now rule: duty_expire.induct)
    case (1 d now)
    let ?d = "d\<lparr>du_head := duty_slot d 1, du_count := du_count d - 1\<rparr>"
    have hd: "hd (live d) = du_entries d ! du_head d" if "0 < du_count d"
      using that 1(2) live_nth [of 0 d] by (simp add: hd_conv_nth duty_at_def duty_slot_0)
    show ?case
    proof (cases "0 < du_count d \<and> expired now (du_entries d ! du_head d)")
      case True
      have wf: "duty_wf ?d" using 1(2) by (auto simp: duty_wf_def)
      have "live d = du_entries d ! du_head d # tl (live d)"
        using True hd by (metis list.collapse live_Nil_iff not_gr_zero)
      then have "expire_list now (live d) = expire_list now (live ?d)"
        using True unfolding expire_list_def
        by (subst live_drop [OF _ refl refl], simp, metis dropWhile.simps(2))
      moreover have "duty_expire d now = duty_expire ?d now"
        using True by (subst duty_expire.simps) (simp add: expired_def)
      ultimately show ?thesis
        using 1(1) [OF _ wf] True by (simp add: expired_def)
    next
      case alive: False
      have "expire_list now (live d) = live d"
      proof (cases "du_count d = 0")
        case False
        with alive hd have "\<not> expired now (hd (live d))" by simp
        then show ?thesis
          unfolding expire_list_def by (cases "live d") (use False in auto)
      qed (simp add: expire_list_def live_def)
      moreover have "duty_expire d now = d"
        using alive by (subst duty_expire.simps) (auto simp: expired_def)
      ultimately show ?thesis using 1(2) by simp
    qed
  qed
  from this [OF assms] show ?live ?wf ?budget by simp_all
qed

lemma duty_fold_sim:
  assumes "duty_wf d" "2 \<le> du_count d"
  shows "live (duty_fold_oldest d) = fold_list (live d)" "duty_wf (duty_fold_oldest d)"
    and "du_count (duty_fold_oldest d) = du_count d - 1"
    and "du_budget (duty_fold_oldest d) = du_budget d"
proof -
  let ?n = "duty_at d 1" and ?o = "duty_at d 0"
  let ?u = "d\<lparr>du_entries := (du_entries d)[duty_slot d 1 := ?n\<lparr>de_air := de_air ?n + de_air ?o\<rparr>]\<rparr>"
  have o: "?o = du_entries d ! du_head d" by (simp add: duty_at_def duty_slot_0 assms(1))
  have eq: "duty_fold_oldest d = ?u\<lparr>du_head := duty_slot ?u 1, du_count := du_count ?u - 1\<rparr>"
    unfolding duty_fold_oldest_def Let_def o by (simp add: duty_at_def)
  have "live (duty_fold_oldest d) = tl (live ?u)"
    unfolding eq by (rule live_drop) (use assms(2) in simp_all)
  also have "\<dots> = tl ((live d)[1 := ?n\<lparr>de_air := de_air ?n + de_air ?o\<rparr>])"
    using live_update [OF assms(1), of 1] assms(1) by (simp add: duty_wf_def)
  also have "\<dots> = fold_list (live d)"
  proof -
    obtain a b l where l: "live d = a # b # l"
      using assms(2) by (metis Suc_le_length_iff length_live numeral_2_eq_2)
    have "a = ?o" "b = ?n"
      using live_nth [of 0 d] live_nth [of 1 d] assms(2) by (simp_all add: l)
    then show ?thesis by (simp add: l)
  qed
  finally show "live (duty_fold_oldest d) = fold_list (live d)" .
  show "duty_wf (duty_fold_oldest d)" "du_count (duty_fold_oldest d) = du_count d - 1"
    "du_budget (duty_fold_oldest d) = du_budget d"
    using assms(1) unfolding eq by (auto simp: duty_wf_def)
qed

lemma foldl_used:
  "foldl (\<lambda>used e. if now - de_end e < APP_RADIO_DUTY_WINDOW_MS then used + de_air e else used) u l
     = u + used_list now l"
  by (induction l arbitrary: u)
    (auto simp: used_list_def expired_def not_le add.assoc)

lemma ledger_used_sim: "app_radio_ledger_used_ms d t = used_list (word_of_int t) (live d)"
proof -
  have "app_radio_ledger_used_ms d t
      = foldl (\<lambda>used e. if word_of_int t - de_end e < APP_RADIO_DUTY_WINDOW_MS
                        then used + de_air e else used) 0 (live d)"
    by (simp add: app_radio_ledger_used_ms_def live_def foldl_map Let_def)
  then show ?thesis by (simp add: foldl_used)
qed

lemma charge_sim:
  assumes "duty_wf d"
  shows "live (app_radio_ledger_charge d t air) = charge_list (word_of_int t) air (live d)"
    and "duty_wf (app_radio_ledger_charge d t air)"
    and "du_budget (app_radio_ledger_charge d t air) = du_budget d"
proof -
  define now :: u32 where "now = word_of_int t"
  define e where "e = duty_expire d now"
  define c where "c = app_radio_ledger_charge d t air"
  define f where "f = (if 49 \<le> du_count e then duty_fold_oldest e else e)"
  define new where "new = \<lparr>de_end = now, de_air = air\<rparr>"
  note e = duty_expire_sim [OF assms, of now, folded e_def]
  have last: "last (live e) = duty_at e (du_count e - 1)" if "0 < du_count e"
    using that by (simp add: last_conv_nth)
  define co where "co \<longleftrightarrow> 0 < du_count e \<and> same_slot now (last (live e))"
  have code: "c = (if co
      then e\<lparr>du_entries := (du_entries e)[duty_slot e (du_count e - 1) :=
               \<lparr>de_end = now, de_air = de_air (last (live e)) + air\<rparr>]\<rparr>
      else f\<lparr>du_entries := (du_entries f)[duty_slot f (du_count f) := new],
             du_count := du_count f + 1\<rparr>)"
    using last unfolding c_def app_radio_ledger_charge_def Let_def now_def [symmetric]
      e_def [symmetric] f_def [symmetric] new_def [symmetric] ENTRIES co_def same_slot_def
    by auto
  have "live c = charge_list now air (live d) \<and> duty_wf c \<and> du_budget c = du_budget d"
  proof (cases co)
    case True
    then have pos: "0 < du_count e" by (simp add: co_def)
    then have lt: "du_count e - 1 < 49" "du_count e \<le> 49" using e(2) by (auto simp: duty_wf_def)
    have "live c = (live e)[du_count e - 1 := \<lparr>de_end = now, de_air = de_air (last (live e)) + air\<rparr>]"
      unfolding code using True live_update [OF e(2) lt] by simp
    also have "\<dots> = butlast (live e) @ [\<lparr>de_end = now, de_air = de_air (last (live e)) + air\<rparr>]"
      using pos list_update_length [of "butlast (live e)" "last (live e)" "[]"]
      by (metis append_butlast_last_id length_butlast length_live less_numeral_extra(3) live_Nil_iff)
    finally show ?thesis
      using True pos e unfolding charge_list_def Let_def e(1) [symmetric]
      by (simp add: co_def code duty_wf_def)
  next
    case False
    have f: "live f = (if 49 \<le> length (live e) then fold_list (live e) else live e)"
      "duty_wf f" "du_count f < 49" "du_budget f = du_budget d"
      using duty_fold_sim [OF e(2)] e(2,3) unfolding f_def by (auto simp: duty_wf_def)
    have "live c = live f @ [new]"
      unfolding code using False live_append [OF f(2,3)] by simp
    then show ?thesis
      using False f e(1) unfolding charge_list_def Let_def e(1) [symmetric]
      by (auto simp: co_def code new_def duty_wf_def)
  qed
  then show "live (app_radio_ledger_charge d t air) = charge_list (word_of_int t) air (live d)"
    and "duty_wf (app_radio_ledger_charge d t air)"
    and "du_budget (app_radio_ledger_charge d t air) = du_budget d"
    by (simp_all add: c_def now_def)
qed

lemma free_idx_short: "length l \<le> 1 \<Longrightarrow> free_idx over freed l = 0"
  by (cases "(over, freed, l)" rule: free_idx.cases) auto

lemma free_idx_sim:
  "i \<le> du_count d \<Longrightarrow> duty_free_idx d over freed i = i + free_idx over freed (drop i (live d))"
proof (induction d over freed i rule: duty_free_idx.induct)
  case (1 d over freed i)
  show ?case
  proof (cases "i < du_count d - 1")
    case True
    then have "drop i (live d) = duty_at d i # duty_at d (i + 1) # drop (i + 2) (live d)"
      using Cons_nth_drop_Suc [of i "live d"] Cons_nth_drop_Suc [of "Suc i" "live d"] by simp
    moreover have "drop (i + 1) (live d) = duty_at d (i + 1) # drop (i + 2) (live d)"
      using True Cons_nth_drop_Suc [of "Suc i" "live d"] by simp
    ultimately show ?thesis
      using 1 True by (subst duty_free_idx.simps) (simp add: Let_def)
  next
    case False
    then have "length (drop i (live d)) \<le> 1" by simp
    then have "free_idx over freed (drop i (live d)) = 0" by (rule free_idx_short)
    then show ?thesis using False by (subst duty_free_idx.simps) simp
  qed
qed

lemma free_idx_less: "l \<noteq> [] \<Longrightarrow> free_idx over freed l < length l"
  by (induction over freed l rule: free_idx.induct) auto

lemma wait_sim:
  assumes "duty_wf d"
  shows "app_radio_ledger_wait_ms d t air =
    (wait_list (du_budget d) (word_of_int t) air (live d), duty_expire d (word_of_int t))"
proof -
  define now :: u32 where "now = word_of_int t"
  define e where "e = duty_expire d now"
  note e = duty_expire_sim [OF assms, of now, folded e_def]
  have idx: "duty_free_idx e over 0 0 = free_idx over 0 (live e)" for over
    using free_idx_sim [of 0 e over 0] by simp
  have at: "duty_at e (free_idx over 0 (live e)) = live e ! free_idx over 0 (live e)"
    if "du_count e \<noteq> 0" for over
    using free_idx_less [of "live e" over 0] that by simp
  have used: "app_radio_ledger_used_ms e t = used_list now (live e)"
    by (simp add: ledger_used_sim now_def)
  show ?thesis
    using at unfolding app_radio_ledger_wait_ms_def wait_list_def Let_def now_def [symmetric]
      e_def [symmetric] e(3) e(1) [symmetric] used idx by auto
qed

text \<open>The ring implements the list operations, for every operation of the ledger.\<close>

text \<open>
  C26: On a well-formed ring (\<open>head\<close> and \<open>count\<close> within the 49 entries) every operation of the
  ledger is the operation on the list of its live entries, oldest first: dropping the entries
  that left the window, charging a frame (folding the two oldest when full), the air in use and
  the wait for a frame.  Charging and asking keep the ring well formed.
\<close>

theorem duty_ring_refines_list:
  assumes "duty_wf d"
  shows "live (duty_expire d now) = expire_list now (live d)
    \<and> live (app_radio_ledger_charge d t air) = charge_list (word_of_int t) air (live d)
    \<and> app_radio_ledger_used_ms d t = used_list (word_of_int t) (live d)
    \<and> fst (app_radio_ledger_wait_ms d t air)
           = wait_list (du_budget d) (word_of_int t) air (live d)
    \<and> duty_wf (app_radio_ledger_charge d t air)
    \<and> duty_wf (snd (app_radio_ledger_wait_ms d t air))"
  using duty_expire_sim [OF assms] charge_sim [OF assms] wait_sim [OF assms]
  by (simp add: ledger_used_sim)

end
