(* ===== verification/AlarmBatch.thy ===== *)
theory AlarmBatch
  imports AlarmEval DutyLedger
begin

text \<open>
  The alarm-detail batch (\<open>app/src/app_alarm.c\<close>, \<open>alarm_queue\<close> and \<open>alarm_batch_flush\<close>): events
  collected by the evaluator are gathered in a window and paged into AlarmReport frames. The
  protobuf encoder behind \<open>app_cmd_build_alarm_report\<close> (nanopb) is the parameter \<open>build\<close>: base
  time, total, synced flag, events, page index, page count and capacity to a frame, if it fits.
  The radio's answers are fields of the environment, its calls are outputs.
\<close>

unbundle bit_operations_syntax

definition ALARM_BATCH_MAX :: nat where "ALARM_BATCH_MAX = APP_ALARM_RULE_COUNT"
definition ALARM_FRAME_MAX :: nat where "ALARM_FRAME_MAX = 64"
definition ALARM_PAGE_BOUND :: nat where "ALARM_PAGE_BOUND = 127"

record batch_state =
  m_batch :: events
  m_window_total :: u16
  m_window_base_unix :: u32
  m_window_base_synced :: bool
  m_window_start_ms :: int
  m_window_open :: bool
  m_batch_held :: bool

definition batch_zero :: batch_state where
  "batch_zero = \<lparr>m_batch = [], m_window_total = 0, m_window_base_unix = 0,
     m_window_base_synced = False, m_window_start_ms = 0, m_window_open = False,
     m_batch_held = False\<rparr>"

text \<open>
  \<open>k_uptime_get\<close>, \<open>alarm_limit\<close>, \<open>app_clock_get_unix\<close> (if synced), \<open>app_radio_data_hold_ms\<close>,
  \<open>app_radio_get_max_payload\<close> and \<open>app_radio_tx_alarm_free\<close> at the call.
\<close>

record batch_env =
  b_now :: int
  b_limit :: int
  b_clock :: "u32 option"
  b_hold_ms :: int
  b_max_payload :: u8
  b_free :: nat

datatype batch_out =
    Work_schedule int     \<comment> \<open>\<open>k_work_schedule\<close>, delay in ms\<close>
  | Work_reschedule int   \<comment> \<open>\<open>k_work_reschedule\<close>, delay in ms\<close>
  | Send_alarm bytes      \<comment> \<open>\<open>app_radio_send_alarm\<close>\<close>

type_synonym builder =
  "u32 \<Rightarrow> u16 \<Rightarrow> bool \<Rightarrow> events \<Rightarrow> nat \<Rightarrow> nat \<Rightarrow> nat \<Rightarrow> bytes option"

definition uptime_s :: "batch_env \<Rightarrow> u32" where
  "uptime_s env = word_of_int (b_now env div 1000)"

definition now_seconds :: "batch_env \<Rightarrow> u32 \<times> bool" where
  "now_seconds env = (case b_clock env of Some u \<Rightarrow> (u, True) | None \<Rightarrow> (uptime_s env, False))"

subsection \<open>Flush\<close>

definition frame_cap :: "batch_env \<Rightarrow> nat" where
  "frame_cap env = (let dr = unat (b_max_payload env)
     in if 0 < dr \<and> dr < ALARM_FRAME_MAX then dr else ALARM_FRAME_MAX)"

text \<open>The largest prefix, of at most \<open>n\<close> events, that fits one frame; 0 when none does.\<close>

fun page_fit :: "builder \<Rightarrow> u32 \<Rightarrow> u16 \<Rightarrow> bool \<Rightarrow> nat \<Rightarrow> events \<Rightarrow> nat \<Rightarrow> nat" where
  "page_fit build base tot synced cap es 0 = 0"
| "page_fit build base tot synced cap es (Suc n) =
     (if build base tot synced (take (Suc n) es) ALARM_PAGE_BOUND ALARM_PAGE_BOUND cap \<noteq> None
      then Suc n else page_fit build base tot synced cap es n)"

text \<open>Pass 1: the pages laid out, the events left over, and whether the rest is skipped.\<close>

fun lay_pages ::
    "builder \<Rightarrow> u32 \<Rightarrow> u16 \<Rightarrow> bool \<Rightarrow> nat \<Rightarrow> events \<Rightarrow> nat \<Rightarrow> events list \<times> events \<times> bool" where
  "lay_pages build base tot synced cap es 0 = ([], es, False)"
| "lay_pages build base tot synced cap es (Suc room) =
     (if es = [] then ([], [], False)
      else let n = page_fit build base tot synced cap es (length es)
           in if n = 0 then ([], es, True)
              else case lay_pages build base tot synced cap (drop n es) room of
                (ps, rest, skipped) \<Rightarrow> (take n es # ps, rest, skipped))"

text \<open>Pass 2: build and send the pages with their real numbers; a failed build stops it.\<close>

fun send_pages ::
    "builder \<Rightarrow> u32 \<Rightarrow> u16 \<Rightarrow> bool \<Rightarrow> nat \<Rightarrow> nat \<Rightarrow> nat \<Rightarrow> events list \<Rightarrow> batch_out list" where
  "send_pages build base tot synced cap pages p [] = []"
| "send_pages build base tot synced cap pages p (es # ps) =
     (case build base tot synced es p pages cap of
        None \<Rightarrow> []
      | Some frame \<Rightarrow> Send_alarm frame # send_pages build base tot synced cap pages (Suc p) ps)"

definition reanchor :: "batch_env \<Rightarrow> batch_state \<Rightarrow> u32 \<times> bool" where
  "reanchor env s =
     (if \<not> m_window_base_synced s
      then (case b_clock env of
              Some u \<Rightarrow> (m_window_base_unix s + (u - uptime_s env), True)
            | None \<Rightarrow> (m_window_base_unix s, False))
      else (m_window_base_unix s, True))"

definition alarm_batch_flush ::
    "builder \<Rightarrow> batch_env \<Rightarrow> batch_state \<Rightarrow> batch_state \<times> batch_out list" where
  "alarm_batch_flush build env s =
     (if m_batch s = [] then (s\<lparr>m_window_open := False, m_window_total := 0\<rparr>, [])
      else if b_hold_ms env \<noteq> 0
      then (s\<lparr>m_batch_held := True, m_window_open := True\<rparr>,
            if 0 < b_hold_ms env then [Work_reschedule (b_hold_ms env)] else [])
      else
        let (base, synced) = reanchor env s;
            s1 = s\<lparr>m_batch_held := False, m_window_base_unix := base\<rparr>;
            cap = frame_cap env;
            (pages, rest, skipped) =
              lay_pages build base (m_window_total s1) synced cap (m_batch s1) APP_RADIO_TX_QUEUE_DEPTH
        in if b_free env < length pages \<and> b_free env < APP_RADIO_TX_QUEUE_DEPTH
           then (s1\<lparr>m_batch_held := True, m_window_open := True\<rparr>, [])
           else
             let left = (if skipped then [] else rest);
                 tot = m_window_total s1 - of_nat (length left);
                 out = send_pages build base tot synced cap (length pages) 0 pages
             in if left \<noteq> []
                then (s1\<lparr>m_batch := left, m_window_total := of_nat (length left),
                         m_window_base_synced := synced, m_batch_held := True,
                         m_window_open := True\<rparr>, out)
                else (s1\<lparr>m_batch := [], m_window_total := 0, m_window_open := False\<rparr>, out))"

definition app_alarm_flush_held :: "batch_state \<Rightarrow> batch_out list" where
  "app_alarm_flush_held s = (if m_batch_held s then [Work_reschedule 0] else [])"

definition app_alarm_flush_pending :: "batch_env \<Rightarrow> batch_state \<Rightarrow> bool \<times> batch_out list" where
  "app_alarm_flush_pending env s =
     (let waiting = (m_batch s \<noteq> [] \<and> b_hold_ms env = 0)
      in (waiting, if waiting then [Work_reschedule 0] else []))"

subsection \<open>Queueing one event\<close>

definition add_event :: "batch_env \<Rightarrow> app_cmd_alarm_event \<Rightarrow> batch_state \<Rightarrow> batch_state" where
  "add_event env ev s =
     (let s1 = s\<lparr>m_window_total := m_window_total s + 1\<rparr>
      in if length (m_batch s1) < ALARM_BATCH_MAX
         then s1\<lparr>m_batch := m_batch s1 @
                  [ev\<lparr>ev_rel_s := word_of_int (min ((b_now env - m_window_start_ms s1) div 1000) 0xFFFF)\<rparr>]\<rparr>
         else s1)"

definition open_window :: "batch_env \<Rightarrow> batch_state \<Rightarrow> batch_state" where
  "open_window env s =
     (case now_seconds env of (base, synced) \<Rightarrow>
        s\<lparr>m_window_start_ms := b_now env, m_window_base_unix := base, m_window_base_synced := synced,
          m_window_total := 0\<rparr>)"

definition alarm_queue ::
    "builder \<Rightarrow> batch_env \<Rightarrow> app_cmd_alarm_event \<Rightarrow> batch_state \<Rightarrow> batch_state \<times> batch_out list" where
  "alarm_queue build env ev s =
     (if b_limit env \<le> 0
      then alarm_batch_flush build env
             (add_event env ev (if m_batch s = [] then open_window env s else s))
      else
        let (s1, out1) =
              (if \<not> m_window_open s
               then ((open_window env s)\<lparr>m_window_open := True, m_batch := []\<rparr>,
                     [Work_schedule (b_limit env * 1000)])
               else (s, []));
            s2 = add_event env ev s1
        in (s2, out1 @ (if length (m_batch s2) = ALARM_BATCH_MAX \<and> \<not> m_batch_held s2
                        then [Work_reschedule 0] else [])))"

subsection \<open>Paging facts\<close>

lemma page_fit_le: "page_fit build base tot synced cap es n \<le> n"
  by (induction n) auto

lemma page_fit_builds:
  "page_fit build base tot synced cap es n = m \<Longrightarrow> m \<noteq> 0 \<Longrightarrow>
   build base tot synced (take m es) ALARM_PAGE_BOUND ALARM_PAGE_BOUND cap \<noteq> None"
  by (induction n) (auto split: if_splits)

lemma page_fit_max:
  "page_fit build base tot synced cap es n < k \<Longrightarrow> k \<le> n \<Longrightarrow>
   build base tot synced (take k es) ALARM_PAGE_BOUND ALARM_PAGE_BOUND cap = None"
  by (induction n) (auto simp: le_Suc_eq split: if_splits)

lemma lay_pages_concat:
  "lay_pages build base tot synced cap es room = (ps, rest, skipped) \<Longrightarrow> concat ps @ rest = es"
proof (induction room arbitrary: es ps rest skipped)
  case (Suc room)
  show ?case
  proof (cases "es = [] \<or> page_fit build base tot synced cap es (length es) = 0")
    case True
    with Suc.prems show ?thesis by (auto split: if_splits)
  next
    case False
    let ?n = "page_fit build base tot synced cap es (length es)"
    obtain ps' rest' sk where l: "lay_pages build base tot synced cap (drop ?n es) room = (ps', rest', sk)"
      by (metis prod_cases3)
    with False Suc.prems have "ps = take ?n es # ps'" "rest = rest'" by auto
    with Suc.IH [OF l] show ?thesis by simp
  qed
qed simp

lemma lay_pages_facts:
  "lay_pages build base tot synced cap es room = (ps, rest, skipped) \<Longrightarrow>
   length ps \<le> room \<and> (rest \<noteq> [] \<longrightarrow> skipped \<or> length ps = room) \<and>
   list_all (\<lambda>p. p \<noteq> [] \<and> build base tot synced p ALARM_PAGE_BOUND ALARM_PAGE_BOUND cap \<noteq> None) ps \<and>
   (skipped \<longrightarrow> rest \<noteq> [] \<and>
      (\<forall>k. 0 < k \<and> k \<le> length rest \<longrightarrow>
        build base tot synced (take k rest) ALARM_PAGE_BOUND ALARM_PAGE_BOUND cap = None))"
proof (induction room arbitrary: es ps rest skipped)
  case (Suc room)
  let ?n = "page_fit build base tot synced cap es (length es)"
  consider "es = []" | "es \<noteq> []" "?n = 0" | "es \<noteq> []" "?n \<noteq> 0" by blast
  then show ?case
  proof cases
    case 1
    with Suc.prems show ?thesis by auto
  next
    case 2
    with Suc.prems have r: "ps = []" "rest = es" "skipped" by auto
    have "build base tot synced (take k es) ALARM_PAGE_BOUND ALARM_PAGE_BOUND cap = None"
      if "0 < k" "k \<le> length es" for k
      by (rule page_fit_max [where n = "length es"]) (use that 2(2) in auto)
    with r 2(1) show ?thesis by simp
  next
    case 3
    obtain ps' rest' sk where l: "lay_pages build base tot synced cap (drop ?n es) room = (ps', rest', sk)"
      by (metis prod_cases3)
    with 3 Suc.prems have r: "ps = take ?n es # ps'" "rest = rest'" "skipped = sk" by auto
    have "take ?n es \<noteq> []" using 3 by simp
    moreover have "build base tot synced (take ?n es) ALARM_PAGE_BOUND ALARM_PAGE_BOUND cap \<noteq> None"
      using page_fit_builds [OF refl 3(2)] .
    ultimately show ?thesis using Suc.IH [OF l] r by auto
  qed
qed auto

text \<open>
  What the code relies on of the encoder: a set of events that fits with the largest one-byte
  page numbers fits with the real ones, whatever total is reported (both are varints and the
  report total never grows).
\<close>

definition build_shrinks :: "builder \<Rightarrow> bool" where
  "build_shrinks build \<longleftrightarrow> (\<forall>base tot tot' synced es p pages cap.
     p < pages \<and> pages \<le> APP_RADIO_TX_QUEUE_DEPTH \<and> tot' \<le> tot \<longrightarrow>
     build base tot synced es ALARM_PAGE_BOUND ALARM_PAGE_BOUND cap \<noteq> None \<longrightarrow>
     build base tot' synced es p pages cap \<noteq> None)"

lemma send_pages_all:
  assumes "build_shrinks build" "tot' \<le> tot" "pages \<le> APP_RADIO_TX_QUEUE_DEPTH"
  shows "list_all (\<lambda>p. p \<noteq> [] \<and> build base tot synced p ALARM_PAGE_BOUND ALARM_PAGE_BOUND cap \<noteq> None) ps
    \<Longrightarrow> p + length ps \<le> pages \<Longrightarrow>
    send_pages build base tot' synced cap pages p ps =
      map (\<lambda>k. Send_alarm (the (build base tot' synced (ps ! k) (p + k) pages cap))) [0..<length ps]"
proof (induction ps arbitrary: p)
  case (Cons es ps)
  then have "build base tot' synced es p pages cap \<noteq> None"
    using assms unfolding build_shrinks_def by fastforce
  then obtain f where f: "build base tot' synced es p pages cap = Some f" by blast
  have "[0..<length (es # ps)] = 0 # map Suc [0..<length ps]"
    by (simp add: upt_conv_Cons map_Suc_upt del: upt_Suc)
  with f Cons show ?case by (simp add: comp_def)
qed simp

subsection \<open>Properties\<close>


text \<open>A builder for the witness: base time, page and total in the header, two bytes per event.\<close>

definition demo_build :: builder where
  "demo_build base tot synced es p pages cap =
     (let f = put_le32 base @ [of_nat p, of_nat pages, ucast tot] @
              concat (map (\<lambda>e. [ev_rule e, ev_edge e]) es)
      in if length f \<le> cap then Some f else None)"

lemma demo_build_shrinks: "build_shrinks demo_build"
  by (simp add: build_shrinks_def demo_build_def Let_def)

definition demo_event :: "u8 \<Rightarrow> app_cmd_alarm_event" where
  "demo_event r = \<lparr>ev_rule = r, ev_slot = 0, ev_channel = 0, ev_edge = 0, ev_type = 3,
     ev_sensor_type = 1, ev_has_value = False, ev_value = 0, ev_rel_s = 0\<rparr>"

definition demo_batch_env :: batch_env where
  "demo_batch_env = \<lparr>b_now = 200000, b_limit = 0, b_clock = Some 1000000, b_hold_ms = 0,
     b_max_payload = 11, b_free = 4\<rparr>"


text \<open>
  with a report window open, queueing events collects the first sixteen in order and counts
  every one of them; nothing is sent before the window's timer or the batch is full.
\<close>

theorem alarm_window_collects:
  assumes "0 < b_limit env" and "m_window_open s" and "m_batch s = []"
  shows "let s' = fst (run_steps (alarm_queue build env) evs s)
         in map (\<lambda>e. e\<lparr>ev_rel_s := 0\<rparr>) (m_batch s') = map (\<lambda>e. e\<lparr>ev_rel_s := 0\<rparr>) (take ALARM_BATCH_MAX evs) \<and>
            m_window_total s' = m_window_total s + of_nat (length evs) \<and>
            (\<forall>o' \<in> set (snd (run_steps (alarm_queue build env) evs s)). o' = Work_reschedule 0)"
proof -
  have "m_window_open (fst (run_steps (alarm_queue build env) evs s)) \<and>
      map (\<lambda>e. e\<lparr>ev_rel_s := 0\<rparr>) (m_batch (fst (run_steps (alarm_queue build env) evs s)))
        = map (\<lambda>e. e\<lparr>ev_rel_s := 0\<rparr>) (take ALARM_BATCH_MAX evs) \<and>
      m_window_total (fst (run_steps (alarm_queue build env) evs s)) = m_window_total s + of_nat (length evs) \<and>
      (\<forall>o' \<in> set (snd (run_steps (alarm_queue build env) evs s)). o' = Work_reschedule 0)"
  proof (induction evs rule: rev_induct)
    case Nil
    then show ?case using assms by simp
  next
    case (snoc e evs)
    define s1 where "s1 = fst (run_steps (alarm_queue build env) evs s)"
    have IH: "m_window_open s1"
      "map (\<lambda>e. e\<lparr>ev_rel_s := 0\<rparr>) (m_batch s1) = map (\<lambda>e. e\<lparr>ev_rel_s := 0\<rparr>) (take ALARM_BATCH_MAX evs)"
      "m_window_total s1 = m_window_total s + of_nat (length evs)"
      "\<forall>o' \<in> set (snd (run_steps (alarm_queue build env) evs s)). o' = Work_reschedule 0"
      using snoc by (simp_all add: s1_def)
    have q: "alarm_queue build env e s1 = (add_event env e s1,
        if length (m_batch (add_event env e s1)) = ALARM_BATCH_MAX \<and> \<not> m_batch_held (add_event env e s1)
        then [Work_reschedule 0] else [])"
      using assms(1) IH(1) by (simp add: alarm_queue_def Let_def)
    have len: "length (m_batch s1) = length (take ALARM_BATCH_MAX evs)"
      using IH(2) by (metis length_map)
    have add: "m_window_open (add_event env e s1)"
      "map (\<lambda>e. e\<lparr>ev_rel_s := 0\<rparr>) (m_batch (add_event env e s1))
         = map (\<lambda>e. e\<lparr>ev_rel_s := 0\<rparr>) (take ALARM_BATCH_MAX (evs @ [e]))"
      "m_window_total (add_event env e s1) = m_window_total s + of_nat (length (evs @ [e]))"
      using IH len by (auto simp: add_event_def Let_def)
    have r: "run_steps (alarm_queue build env) (evs @ [e]) s =
        (fst (alarm_queue build env e s1),
         snd (run_steps (alarm_queue build env) evs s) @ snd (alarm_queue build env e s1))"
      by (simp add: run_steps_snoc split_def s1_def)
    show ?case using add IH(4) unfolding r q by auto
  qed
  then show ?thesis by (simp add: Let_def)
qed

lemma alarm_window_collects_witness:
  "length (m_batch (fst (run_steps (alarm_queue demo_build (demo_batch_env\<lparr>b_limit := 60\<rparr>))
     (map demo_event [1, 2, 3]) (batch_zero\<lparr>m_window_open := True\<rparr>)))) = 3"
  using alarm_window_collects [of "demo_batch_env\<lparr>b_limit := 60\<rparr>" "batch_zero\<lparr>m_window_open := True\<rparr>"
      demo_build "map demo_event [1, 2, 3]"]
  by (simp add: demo_batch_env_def batch_zero_def Let_def ALARM_BATCH_MAX_def APP_ALARM_RULE_COUNT_def)
     (metis length_map length_Cons list.size(3) numeral_3_eq_3)

text \<open>
  A flush that re-anchors the base time to UTC and then holds the batch for lack of queue slots
  stores the shifted base but not that it is synced, so the next flush shifts it again: the
  report below is sent with a base time 999800 s in the future of the events.
\<close>

lemma flush_reanchors_twice:
  "let s = batch_zero\<lparr>m_batch := [demo_event 1], m_window_total := 1, m_window_base_unix := 100\<rparr>;
       s1 = fst (alarm_batch_flush demo_build (demo_batch_env\<lparr>b_free := 0\<rparr>) s);
       out = snd (alarm_batch_flush demo_build demo_batch_env s1)
   in out = [Send_alarm (put_le32 (100 + 2 * 999800) @ [0, 1, 1, 1, 0])]"
  by code_simp

end
