(* ===== verification/Counters.thy ===== *)
theory Counters
  imports Hall Input
begin

text \<open>
  Persistence of the pulse totalizers (\<open>app/src/app_counters.c\<close>) on top of the hall and input
  drivers. Zephyr's settings store is the field \<open>nvs\<close> (the value stored under
  \<open>counters/totals\<close>, if any) and the results of its calls are arguments. The counters modules
  only see the drivers through \<open>counter_source\<close>, interpreted on both of them below.
\<close>

unbundle bit_operations_syntax

subsection \<open>The interface to a totalizer pair\<close>

locale counter_source =
  fixes get :: "'s \<Rightarrow> u32 \<times> u32"
    and set_counts :: "u32 \<Rightarrow> u32 \<Rightarrow> 's \<Rightarrow> 's"
    and reset_count :: "bool \<Rightarrow> bool \<Rightarrow> 's \<Rightarrow> 's"
  assumes get_set: "get (set_counts x y s) = (x, y)"
    and get_reset: "get (reset_count a b s) =
      (if a then 0 else fst (get s), if b then 0 else snd (get s))"
begin

lemma restore_total:
  "get (set_counts (x + fst (get s)) (y + snd (get s)) s) = (x + fst (get s), y + snd (get s))"
  by (rule get_set)

lemma reset_all: "get (reset_count True True s) = (0, 0)"
  by (simp add: get_reset)

lemma reset_none: "get (reset_count False False s) = get s"
  by (simp add: get_reset)

lemma reset_then_restore: "get (set_counts x y (reset_count a b s)) = (x, y)"
  by (rule get_set)

end

definition hall_counts :: "app_hall_data \<Rightarrow> u32 \<times> u32" where
  "hall_counts d = (left_count (app_hall_get_data d), right_count (app_hall_get_data d))"

definition input_counts :: "input_state \<Rightarrow> u32 \<times> u32" where
  "input_counts s = (input_a_count (app_input_get_data s), input_b_count (app_input_get_data s))"

interpretation hc: counter_source hall_counts app_hall_set_counts app_hall_reset_count
  by unfold_locales
     (auto simp: hall_counts_def app_hall_get_data_def app_hall_set_counts_def
       app_hall_reset_count_def)

interpretation ic: counter_source input_counts app_input_set_counts app_input_reset_count
  by unfold_locales
     (auto simp: input_counts_def app_input_get_data_def app_input_set_counts_def
       app_input_reset_count_def)

subsection \<open>The stored blob\<close>

definition BLOB_VERSION :: u8 where "BLOB_VERSION = 1"

record counters_blob =
  version :: u8
  pad :: bytes
  b_hall_left :: u32
  b_hall_right :: u32
  b_input_a :: u32
  b_input_b :: u32

definition blob_bytes :: "counters_blob \<Rightarrow> bytes" where
  "blob_bytes b = version b # pad b @ put_le32 (b_hall_left b) @ put_le32 (b_hall_right b)
     @ put_le32 (b_input_a b) @ put_le32 (b_input_b b)"

definition bytes_blob :: "bytes \<Rightarrow> counters_blob" where
  "bytes_blob d = \<lparr>version = d ! 0, pad = take 3 (drop 1 d), b_hall_left = get_le32 (drop 4 d),
     b_hall_right = get_le32 (drop 8 d), b_input_a = get_le32 (drop 12 d),
     b_input_b = get_le32 (drop 16 d)\<rparr>"

definition BLOB_SIZE :: nat where "BLOB_SIZE = 20"

definition zero_blob :: counters_blob where
  "zero_blob = \<lparr>version = BLOB_VERSION, pad = [0, 0, 0], b_hall_left = 0, b_hall_right = 0,
     b_input_a = 0, b_input_b = 0\<rparr>"

subsection \<open>State and operations\<close>

record counters_sys =
  m_last_saved :: counters_blob
  m_loaded :: bool
  m_persist_disabled :: bool
  cs_hall :: app_hall_data
  cs_input :: input_state
  nvs :: "bytes option"

definition gather :: "counters_sys \<Rightarrow> counters_blob" where
  "gather s = \<lparr>version = BLOB_VERSION, pad = [0, 0, 0],
     b_hall_left = left_count (app_hall_get_data (cs_hall s)),
     b_hall_right = right_count (app_hall_get_data (cs_hall s)),
     b_input_a = input_a_count (app_input_get_data (cs_input s)),
     b_input_b = input_b_count (app_input_get_data (cs_input s))\<rparr>"

text \<open>The settings handler: \<open>data\<close> is the stored value, \<open>n\<close> what \<open>read_cb\<close> returned.\<close>

definition counters_settings_set ::
    "string \<Rightarrow> bytes \<Rightarrow> int \<Rightarrow> counters_sys \<Rightarrow> unit res \<times> counters_sys" where
  "counters_settings_set name data n s =
     (if name \<noteq> ''totals'' then (Inl ENOENT, s)
      else if length data \<noteq> BLOB_SIZE then (Inr (), s)
      else if n \<noteq> int BLOB_SIZE then (Inr (), s)
      else let blob = bytes_blob data
           in if version blob \<noteq> BLOB_VERSION then (Inr (), s)
              else (Inr (), s\<lparr>m_last_saved := blob, m_loaded := True\<rparr>))"

definition totals_eq :: "counters_blob \<Rightarrow> counters_blob \<Rightarrow> bool" where
  "totals_eq a b \<longleftrightarrow> b_hall_left a = b_hall_left b \<and> b_hall_right a = b_hall_right b \<and>
     b_input_a a = b_input_a b \<and> b_input_b a = b_input_b b"

text \<open>\<open>save_ret\<close> is the result of \<open>settings_save_one\<close>; 0 is success and stores the value.\<close>

definition app_counters_save :: "bool \<Rightarrow> int \<Rightarrow> counters_sys \<Rightarrow> int res \<times> counters_sys" where
  "app_counters_save force save_ret s =
     (if m_persist_disabled s then (Inl EIO, s)
      else let blob = gather s
           in if \<not> force \<and> totals_eq blob (m_last_saved s) then (Inr 0, s)
              else if save_ret \<noteq> 0 then (Inr save_ret, s)
              else (Inr 0, s\<lparr>m_last_saved := blob, nvs := Some (blob_bytes blob)\<rparr>))"

text \<open>
  \<open>settings_load_subtree\<close> hands the stored value, if any, to the handler and returns \<open>load_ret\<close>;
  \<open>n\<close> is what the value's \<open>read_cb\<close> returns.
\<close>

definition settings_load_counters :: "int \<Rightarrow> counters_sys \<Rightarrow> counters_sys" where
  "settings_load_counters n s = (case nvs s of None \<Rightarrow> s
     | Some d \<Rightarrow> snd (counters_settings_set ''totals'' d n s))"

definition app_counters_init ::
    "unit res \<Rightarrow> int \<Rightarrow> int \<Rightarrow> counters_sys \<Rightarrow> int res \<times> counters_sys" where
  "app_counters_init reg load_ret n s =
     (if \<not> (case reg of Inr _ \<Rightarrow> True | Inl e \<Rightarrow> e = EEXIST)
      then (case reg of Inl e \<Rightarrow> (Inl e, s) | Inr _ \<Rightarrow> (Inr 0, s))
      else
        let hb = app_hall_get_data (cs_hall s);
            ib = app_input_get_data (cs_input s);
            s1 = settings_load_counters n s
        in if load_ret \<noteq> 0 then (Inr load_ret, s1\<lparr>m_persist_disabled := True\<rparr>)
           else if m_loaded s1
           then let ls = m_last_saved s1
                in (Inr 0, s1\<lparr>
                     cs_hall := app_hall_set_counts (b_hall_left ls + left_count hb)
                       (b_hall_right ls + right_count hb) (cs_hall s1),
                     cs_input := app_input_set_counts (b_input_a ls + input_a_count ib)
                       (b_input_b ls + input_b_count ib) (cs_input s1)\<rparr>)
           else (Inr 0, s1))"

subsection \<open>Facts\<close>

lemma length_blob_bytes: "length (pad b) = 3 \<Longrightarrow> length (blob_bytes b) = BLOB_SIZE"
  by (simp add: blob_bytes_def BLOB_SIZE_def)

lemma bytes_blob_bytes: "length (pad b) = 3 \<Longrightarrow> bytes_blob (blob_bytes b) = b"
  by (cases b) (simp add: bytes_blob_def blob_bytes_def)

lemma gather_simps [simp]: "version (gather s) = BLOB_VERSION" "length (pad (gather s)) = 3"
  by (simp_all add: gather_def)

type_synonym totals = "(u32 \<times> u32) \<times> (u32 \<times> u32)"

definition live :: "counters_sys \<Rightarrow> totals" where
  "live s = (hall_counts (cs_hall s), input_counts (cs_input s))"

definition blob_totals :: "counters_blob \<Rightarrow> totals" where
  "blob_totals b = ((b_hall_left b, b_hall_right b), (b_input_a b, b_input_b b))"

definition plus_totals :: "totals \<Rightarrow> totals \<Rightarrow> totals" where
  "plus_totals x y = ((fst (fst x) + fst (fst y), snd (fst x) + snd (fst y)),
     (fst (snd x) + fst (snd y), snd (snd x) + snd (snd y)))"

lemma blob_totals_gather: "blob_totals (gather s) = live s"
  by (simp add: blob_totals_def gather_def live_def hall_counts_def input_counts_def)

lemma totals_eq_iff: "totals_eq a b \<longleftrightarrow> blob_totals a = blob_totals b"
  by (auto simp: totals_eq_def blob_totals_def)

text \<open>What a boot would read back: the stored totals, or zero when nothing usable is stored.\<close>

definition stored_totals :: "bytes option \<Rightarrow> totals" where
  "stored_totals v = (case v of None \<Rightarrow> ((0, 0), (0, 0))
     | Some d \<Rightarrow> if length d = BLOB_SIZE \<and> version (bytes_blob d) = BLOB_VERSION
                 then blob_totals (bytes_blob d) else ((0, 0), (0, 0)))"

definition counters_ok :: "counters_sys \<Rightarrow> bool" where
  "counters_ok s \<longleftrightarrow> \<not> m_persist_disabled s \<and> blob_totals (m_last_saved s) = stored_totals (nvs s)"

text \<open>A boot: static data of the counters module reset, the drivers already counting.\<close>

definition boot_sys :: "bytes option \<Rightarrow> app_hall_data \<Rightarrow> input_state \<Rightarrow> counters_sys" where
  "boot_sys v h i = \<lparr>m_last_saved = zero_blob, m_loaded = False, m_persist_disabled = False,
     cs_hall = h, cs_input = i, nvs = v\<rparr>"

lemma plus_totals_0: "plus_totals ((0, 0), (0, 0)) x = x"
  by (simp add: plus_totals_def)

lemma init_live:
  "live (snd (app_counters_init (Inr ()) 0 (int BLOB_SIZE) (boot_sys v h i)))
     = plus_totals (stored_totals v) (hall_counts h, input_counts i)"
proof (cases v)
  case None
  then show ?thesis
    by (simp add: app_counters_init_def settings_load_counters_def boot_sys_def live_def
        stored_totals_def plus_totals_def)
next
  case (Some d)
  then show ?thesis
    by (auto simp: app_counters_init_def settings_load_counters_def boot_sys_def live_def
        counters_settings_set_def Let_def stored_totals_def plus_totals_def blob_totals_def
        hc.get_set ic.get_set)
       (simp_all add: hall_counts_def input_counts_def app_hall_get_data_def app_input_get_data_def)
qed

lemma save_ok_stores:
  assumes "counters_ok s" "app_counters_save force 0 s = (Inr 0, s')"
  shows "stored_totals (nvs s') = live s \<and> counters_ok s'"
proof (cases "\<not> force \<and> totals_eq (gather s) (m_last_saved s)")
  case True
  with assms show ?thesis
    by (simp add: app_counters_save_def counters_ok_def totals_eq_iff blob_totals_gather)
next
  case False
  with assms have "s' = s\<lparr>m_last_saved := gather s, nvs := Some (blob_bytes (gather s))\<rparr>"
    by (auto simp: app_counters_save_def counters_ok_def Let_def split: if_splits)
  with assms show ?thesis
    by (simp add: counters_ok_def stored_totals_def length_blob_bytes bytes_blob_bytes
        blob_totals_gather)
qed

text \<open>
  C8: across a save and a reboot no pulse is lost or counted twice: the restored totals are the
  live totals at the save plus the pulses the drivers counted in the boot window, modulo
  \<open>2^32\<close>, also when the save was skipped because nothing had changed.
\<close>

theorem counters_power_cycle:
  assumes "counters_ok s" "app_counters_save force 0 s = (Inr 0, s')"
  shows "live (snd (app_counters_init (Inr ()) 0 (int BLOB_SIZE) (boot_sys (nvs s') h i)))
     = plus_totals (live s) (hall_counts h, input_counts i)"
  using save_ok_stores [OF assms] by (simp add: init_live)

lemma counters_power_cycle_witness:
  "live (snd (app_counters_init (Inr ()) 0 20
      (boot_sys (nvs (snd (app_counters_save False 0
          (boot_sys None (hall_zero\<lparr>left_count := 7\<rparr>) input_zero))))
        (hall_zero\<lparr>left_count := 2\<rparr>) input_zero))) = ((9, 0), (0, 0))"
proof -
  let ?s = "boot_sys None (hall_zero\<lparr>left_count := 7\<rparr>) input_zero"
  have "counters_ok ?s"
    by (simp add: counters_ok_def boot_sys_def zero_blob_def blob_totals_def stored_totals_def)
  moreover have "app_counters_save False 0 ?s = (Inr 0, snd (app_counters_save False 0 ?s))"
    by code_simp
  ultimately have "live (snd (app_counters_init (Inr ()) 0 (int BLOB_SIZE)
      (boot_sys (nvs (snd (app_counters_save False 0 ?s))) (hall_zero\<lparr>left_count := 2\<rparr>) input_zero)))
      = plus_totals (live ?s) (hall_counts (hall_zero\<lparr>left_count := 2\<rparr>), input_counts input_zero)"
    by (rule counters_power_cycle)
  moreover have "plus_totals (live ?s) (hall_counts (hall_zero\<lparr>left_count := 2\<rparr>), input_counts input_zero)
      = ((9, 0), (0, 0))" by code_simp
  ultimately show ?thesis by (simp add: BLOB_SIZE_def)
qed

text \<open>
  Once a boot failed to load the totals, no save of that run, forced or not, touches the
  stored value: the last good totals survive until a boot that can read them.
\<close>

theorem counters_failed_load_keeps_store:
  assumes "load_ret \<noteq> 0"
  shows "nvs (fold (\<lambda>(force, ret, h, i) s.
           snd (app_counters_save force ret (s\<lparr>cs_hall := h, cs_input := i\<rparr>))) saves
         (snd (app_counters_init (Inr ()) load_ret n (boot_sys v h0 i0)))) = v"
proof -
  let ?s0 = "snd (app_counters_init (Inr ()) load_ret n (boot_sys v h0 i0))"
  have init: "nvs ?s0 = v \<and> m_persist_disabled ?s0"
    using assms
    by (simp add: app_counters_init_def settings_load_counters_def boot_sys_def Let_def
        counters_settings_set_def split: option.splits)
  have "nvs s = v \<Longrightarrow> m_persist_disabled s \<Longrightarrow> nvs (fold (\<lambda>(force, ret, h, i) s.
      snd (app_counters_save force ret (s\<lparr>cs_hall := h, cs_input := i\<rparr>))) saves s) = v" for s
    by (induction saves arbitrary: s) (auto simp: app_counters_save_def)
  then show ?thesis using init by blast
qed

lemma counters_failed_load_keeps_store_witness:
  "nvs (snd (app_counters_save True 0 ((snd (app_counters_init (Inr ()) (- 5) 20
      (boot_sys (Some (blob_bytes zero_blob)) hall_zero input_zero)))
      \<lparr>cs_hall := hall_zero, cs_input := input_zero\<rparr>))) = Some (blob_bytes zero_blob)"
  using counters_failed_load_keeps_store [of "- 5" "[(True, 0, hall_zero, input_zero)]" 20
      "Some (blob_bytes zero_blob)" hall_zero input_zero] by simp

text \<open>
  A value that is present but cannot be read in full is treated like an absent one: the totals
  restart from zero and the next save overwrites the stored value.
\<close>

lemma counters_short_read_overwrites:
  "let d = blob_bytes (zero_blob\<lparr>b_hall_left := 1000\<rparr>);
       s = snd (app_counters_init (Inr ()) 0 (- 5) (boot_sys (Some d) (hall_zero\<lparr>left_count := 1\<rparr>) input_zero))
   in \<not> m_persist_disabled s \<and>
      stored_totals (nvs (snd (app_counters_save False 0 s))) = ((1, 0), (0, 0))"
  by code_simp

end
