(* ===== verification/DutyProps.thy ===== *)
theory DutyProps
  imports DutyLedger
begin

text \<open>
  What the duty-cycle ledger guarantees.  \<open>duty_reach\<close> is the life of a ledger: set up by
  \<open>app_radio_ledger_init\<close>, asked by \<open>app_radio_ledger_wait_ms\<close>, charged by
  \<open>app_radio_ledger_charge\<close> with the air of a frame that was admitted; it carries the list of
  the frames sent (end time, air).  The invariant \<open>duty_inv\<close> ties the 32-bit ring to true
  times and true air; the sliding-hour bound, the exactness of the wait and the precision of the
  accounting follow from it.
\<close>

subsection \<open>Timed entries\<close>

type_synonym frame_log = "(int \<times> nat) list"

abbreviation HOUR :: int where "HOUR \<equiv> 3600000"
abbreviation SLOTI :: int where "SLOTI \<equiv> 75000"

definition asum :: "(int \<Rightarrow> bool) \<Rightarrow> frame_log \<Rightarrow> nat" where
  "asum P L = sum_list (map snd (filter (\<lambda>p. P (fst p)) L))"

text \<open>The air that ended in the hour after \<open>x\<close>.\<close>

definition window_air :: "int \<Rightarrow> frame_log \<Rightarrow> nat" where
  "window_air x L = asum (\<lambda>t. x < t \<and> t \<le> x + HOUR) L"

definition conc :: "int \<times> nat \<Rightarrow> duty_entry" where
  "conc p = \<lparr>de_end = word_of_int (fst p), de_air = of_nat (snd p)\<rparr>"

definition recent :: "int \<Rightarrow> frame_log \<Rightarrow> frame_log" where
  "recent now L = filter (\<lambda>p. now - HOUR < fst p) L"

definition timed :: "int \<Rightarrow> frame_log \<Rightarrow> bool" where
  "timed z L \<longleftrightarrow> sorted (map fst L) \<and> (\<forall>p \<in> set L. fst p \<le> z \<and> z - HOUR < fst p)"

lemma asum_Nil [simp]: "asum P [] = 0"
  and asum_Cons [simp]: "asum P (p # L) = (if P (fst p) then snd p else 0) + asum P L"
  and asum_append [simp]: "asum P (L @ L') = asum P L + asum P L'"
  by (simp_all add: asum_def)

lemma asum_mono: "(\<And>p. p \<in> set L \<Longrightarrow> P (fst p) \<Longrightarrow> Q (fst p)) \<Longrightarrow> asum P L \<le> asum Q L"
  by (induction L) (auto intro: add_mono trans_le_add2)

lemma asum_cong: "(\<And>p. p \<in> set L \<Longrightarrow> P (fst p) = Q (fst p)) \<Longrightarrow> asum P L = asum Q L"
  by (induction L) auto

lemma asum_none: "(\<And>p. p \<in> set L \<Longrightarrow> \<not> P (fst p)) \<Longrightarrow> asum P L = 0"
  by (induction L) auto

lemma asum_filter: "asum P (filter (\<lambda>p. Q (fst p)) L) = asum (\<lambda>t. P t \<and> Q t) L"
  by (induction L) auto

lemma asum_recent: "asum P (recent now L) = asum (\<lambda>t. P t \<and> now - HOUR < t) L"
  unfolding recent_def by (rule asum_filter)

lemma timed_recent:
  "timed z L \<Longrightarrow> z \<le> now \<Longrightarrow> timed now (recent now L)"
  unfolding timed_def recent_def
  by (auto simp: sorted_wrt_map intro: sorted_wrt_filter)

lemma dropWhile_sorted:
  "sorted (map fst L) \<Longrightarrow> dropWhile (\<lambda>p. fst p \<le> x) L = filter (\<lambda>p. x < fst p) (L :: frame_log)"
proof (induction L)
  case (Cons p L)
  then have "filter (\<lambda>p. x < fst p) L = L" if "x < fst p"
    using that by (fastforce simp: filter_id_conv)
  with Cons show ?case by auto
qed simp

lemma time_diff:
  "0 \<le> now - e \<Longrightarrow> now - e < 2 ^ 32 \<Longrightarrow>
     uint (word_of_int now - word_of_int e :: u32) = now - e"
  by (simp add: uint_of_int_small flip: of_int_diff)

lemma expired_conc:
  assumes "0 \<le> now - fst p" "now - fst p < 2 ^ 32"
  shows "expired (word_of_int now) (conc p) \<longleftrightarrow> fst p \<le> now - HOUR"
  using time_diff [OF assms]
  by (auto simp: expired_def conc_def APP_RADIO_DUTY_WINDOW_MS_def word_le_def)

lemma expire_conc:
  assumes "timed z L" "z \<le> now" "now - z < 2 ^ 32 - HOUR"
  shows "expire_list (word_of_int now) (map conc L) = map conc (recent now L)"
proof -
  have "expired (word_of_int now) (conc p) \<longleftrightarrow> fst p \<le> now - HOUR" if "p \<in> set L" for p
    using assms that by (intro expired_conc) (force simp: timed_def)+
  then have "dropWhile (expired (word_of_int now) \<circ> conc) L = dropWhile (\<lambda>p. fst p \<le> now - HOUR) L"
    by (intro dropWhile_cong) auto
  then show ?thesis
    using dropWhile_sorted [of L "now - HOUR"] assms(1)
    by (simp add: expire_list_def dropWhile_map timed_def recent_def)
qed

lemma used_conc:
  assumes "timed now L"
  shows "used_list (word_of_int now) (map conc L) = of_nat (sum_list (map snd L))"
proof -
  have "\<not> expired (word_of_int now) (conc p)" if "p \<in> set L" for p
    using assms that expired_conc [of now p] by (force simp: timed_def)
  then have "filter (\<lambda>e. \<not> expired (word_of_int now) e) (map conc L) = map conc L"
    by (auto simp: filter_id_conv)
  moreover have "sum_list (map de_air (map conc L)) = of_nat (sum_list (map snd L))"
    by (induction L) (simp_all add: conc_def)
  ultimately show ?thesis by (simp add: used_list_def)
qed

text \<open>A charge over true times; \<open>co\<close> is the code's test for the newest entry's slot.\<close>

fun fold_log :: "frame_log \<Rightarrow> frame_log" where
  "fold_log (p # q # L) = (fst q, snd q + snd p) # L"
| "fold_log L = L"

definition charge_log :: "(int \<times> nat \<Rightarrow> bool) \<Rightarrow> int \<Rightarrow> nat \<Rightarrow> frame_log \<Rightarrow> frame_log" where
  "charge_log co now a L =
     (if L \<noteq> [] \<and> co (last L) then butlast L @ [(now, snd (last L) + a)]
      else (if 49 \<le> length L then fold_log L else L) @ [(now, a)])"

definition same :: "int \<Rightarrow> int \<times> nat \<Rightarrow> bool" where
  "same now p \<longleftrightarrow> same_slot (word_of_int now) (conc p)"

lemma fold_list_conc: "fold_list (map conc L) = map conc (fold_log L)"
  by (cases L rule: fold_log.cases) (simp_all add: conc_def)

lemma charge_conc:
  assumes "timed z L" "z \<le> now" "now - z < 2 ^ 32 - HOUR"
  shows "charge_list (word_of_int now) air (map conc L)
    = map conc (charge_log (same now) now (unat air) (recent now L))"
proof -
  have last: "last (map conc (recent now L)) = conc (last (recent now L))"
    if "recent now L \<noteq> []"
    using that by (simp add: last_map)
  show ?thesis
    using last unfolding charge_list_def expire_conc [OF assms] Let_def charge_log_def same_def
    by (auto simp: fold_list_conc conc_def map_butlast)
qed

lemma split_last: "L \<noteq> [] \<Longrightarrow> (\<And>M e a. L = M @ [(e, a)] \<Longrightarrow> thesis) \<Longrightarrow> thesis"
  by (metis append_butlast_last_id surj_pair)

lemma timed_snoc:
  "timed now (M @ [(e, a)]) \<longleftrightarrow>
     timed now M \<and> (\<forall>p \<in> set M. fst p \<le> e) \<and> e \<le> now \<and> now - HOUR < e"
  by (auto simp: timed_def sorted_append)

lemma timed_fold: "timed now L \<Longrightarrow> timed now (fold_log L)"
  by (cases L rule: fold_log.cases) (auto simp: timed_def)

lemma timed_charge:
  assumes "timed now L"
  shows "timed now (charge_log co now a L)"
proof (cases "L \<noteq> [] \<and> co (last L)")
  case True
  then obtain M e b where L: "L = M @ [(e, b)]" using split_last by blast
  then show ?thesis
    using assms True by (force simp: charge_log_def timed_snoc)
next
  case False
  then show ?thesis
    using assms timed_fold [OF assms]
    by (auto simp: charge_log_def timed_snoc) (auto simp: timed_def)
qed

lemma sum_fold_log: "sum_list (map snd (fold_log L)) = sum_list (map snd L)"
  by (cases L rule: fold_log.cases) simp_all

lemma sum_charge_log:
  "sum_list (map snd (charge_log co now a L)) = sum_list (map snd L) + a"
proof (cases "L \<noteq> [] \<and> co (last L)")
  case True
  then obtain M e b where L: "L = M @ [(e, b)]" using split_last by blast
  then show ?thesis using True by (simp add: charge_log_def)
qed (auto simp: charge_log_def sum_fold_log)

lemma after_fold:
  "timed now L \<Longrightarrow> asum (\<lambda>t. x < t) L \<le> asum (\<lambda>t. x < t) (fold_log L)"
  by (cases L rule: fold_log.cases) (auto simp: timed_def)

text \<open>A charge never loses air that is still in the window.\<close>

lemma after_charge:
  assumes "timed now L"
  shows "asum (\<lambda>t. x < t) L + (if x < now then a else 0)
    \<le> asum (\<lambda>t. x < t) (charge_log co now a L)"
proof (cases "L \<noteq> [] \<and> co (last L)")
  case True
  then obtain M e b where L: "L = M @ [(e, b)]" using split_last by blast
  then show ?thesis using True assms by (auto simp: charge_log_def timed_snoc)
next
  case False
  then show ?thesis
    using after_fold [OF assms, of x] by (auto simp: charge_log_def)
qed

subsection \<open>The life of a ledger\<close>

inductive duty_reach :: "u32 \<Rightarrow> int \<Rightarrow> duty \<Rightarrow> frame_log \<Rightarrow> bool" for budget :: u32 where
  dr_init: "duty_wf d \<Longrightarrow> 0 \<le> t \<Longrightarrow> duty_reach budget t (app_radio_ledger_init d budget) []"
| dr_held: "duty_reach budget z d sent \<Longrightarrow> z \<le> t \<Longrightarrow> t - z < 2 ^ 32 - 3600000 \<Longrightarrow>
    duty_reach budget t (snd (app_radio_ledger_wait_ms d t air)) sent"
| dr_sent: "duty_reach budget z d sent \<Longrightarrow> z \<le> t \<Longrightarrow> t - z < 2 ^ 32 - 3600000 \<Longrightarrow>
    unat air \<le> unat budget \<Longrightarrow> app_radio_ledger_wait_ms d t air = (0, d') \<Longrightarrow>
    t \<le> t' \<Longrightarrow> t' - t < 2 ^ 32 - 3600000 \<Longrightarrow>
    duty_reach budget t' (app_radio_ledger_charge d' t' air) (sent @ [(t', unat air)])"

definition duty_inv :: "u32 \<Rightarrow> int \<Rightarrow> duty \<Rightarrow> frame_log \<Rightarrow> frame_log \<Rightarrow> bool" where
  "duty_inv budget z d sent L \<longleftrightarrow>
     duty_wf d \<and> du_budget d = budget \<and> live d = map conc L \<and> timed z L
     \<and> sum_list (map snd L) \<le> unat budget
     \<and> (\<forall>x \<ge> z - HOUR. asum (\<lambda>t. x < t) sent \<le> asum (\<lambda>t. x < t) L)
     \<and> (\<forall>p \<in> set sent. fst p \<le> z)
     \<and> (\<forall>x. window_air x sent \<le> unat budget)"

lemma duty_inv_expire:
  assumes "duty_inv budget z d sent L" "z \<le> t" "t - z < 2 ^ 32 - HOUR"
  shows "duty_inv budget t (duty_expire d (word_of_int t)) sent (recent t L)"
proof -
  have wf: "duty_wf d" and L: "live d = map conc L" and T: "timed z L"
    using assms(1) by (simp_all add: duty_inv_def)
  have "asum (\<lambda>s. x < s) sent \<le> asum (\<lambda>s. x < s) (recent t L)" if "t - HOUR \<le> x" for x
  proof -
    have "asum (\<lambda>s. x < s) (recent t L) = asum (\<lambda>s. x < s) L"
      unfolding asum_recent by (rule asum_cong) (use that in auto)
    then show ?thesis using assms(1,2) that by (simp add: duty_inv_def)
  qed
  moreover have "sum_list (map snd (recent t L)) \<le> sum_list (map snd L)"
    unfolding recent_def by (induction L) auto
  moreover have "\<forall>p \<in> set sent. fst p \<le> t"
    using assms(1,2) by (force simp: duty_inv_def)
  ultimately show ?thesis
    using assms(1) timed_recent [OF T assms(2)] expire_conc [OF T assms(2,3)]
      duty_expire_sim [OF wf, of "word_of_int t"] L
    unfolding duty_inv_def by (auto intro: le_trans)
qed

lemma duty_inv_used:
  assumes "duty_inv budget z d sent L"
  shows "unat (used_list (word_of_int z) (map conc L)) = sum_list (map snd L)"
proof -
  have "sum_list (map snd L) < 2 ^ 32"
    using assms unsigned_less [where ?'a = nat, of budget] by (auto simp: duty_inv_def)
  then show ?thesis
    using assms used_conc [of z L] by (simp add: duty_inv_def unat_of_nat_small)
qed

lemma sum_recent_le: "sum_list (map snd (recent t L)) \<le> sum_list (map snd L)"
  unfolding recent_def by (induction L) auto

lemma duty_inv_charge:
  assumes "duty_inv budget z d sent L" "z \<le> t" "t - z < 2 ^ 32 - HOUR"
    and room: "sum_list (map snd (recent t L)) + unat air \<le> unat budget"
  shows "duty_inv budget t (app_radio_ledger_charge d t air) (sent @ [(t, unat air)])
    (charge_log (same t) t (unat air) (recent t L))"
proof -
  let ?R = "recent t L" and ?C = "charge_log (same t) t (unat air) (recent t L)"
  have wf: "duty_wf d" and L: "live d = map conc L" and T: "timed z L"
    using assms(1) by (simp_all add: duty_inv_def)
  have TR: "timed t ?R" by (rule timed_recent [OF T assms(2)])
  have cover: "asum (\<lambda>s. x < s) sent \<le> asum (\<lambda>s. x < s) ?R" if "t - HOUR \<le> x" for x
    using duty_inv_expire [OF assms(1-3)] that by (simp add: duty_inv_def)
  have "asum (\<lambda>s. x < s) (sent @ [(t, unat air)]) \<le> asum (\<lambda>s. x < s) ?C" if "t - HOUR \<le> x" for x
    using cover [OF that] after_charge [OF TR, of x "unat air" "same t"] by auto
  moreover have "window_air x (sent @ [(t, unat air)]) \<le> unat budget" for x
  proof (cases "x < t \<and> t \<le> x + HOUR")
    case True
    have "window_air x sent \<le> asum (\<lambda>s. x < s) sent"
      unfolding window_air_def by (rule asum_mono) simp
    also have "\<dots> \<le> asum (\<lambda>s. x < s) ?R" using True by (intro cover) simp
    also have "\<dots> \<le> asum (\<lambda>s. True) ?R" by (rule asum_mono) simp
    finally show ?thesis using room True by (simp add: window_air_def asum_def)
  next
    case False
    then show ?thesis using assms(1) by (auto simp: window_air_def duty_inv_def)
  qed
  moreover have "\<forall>p \<in> set (sent @ [(t, unat air)]). fst p \<le> t"
    using assms(1,2) by (force simp: duty_inv_def)
  ultimately show ?thesis
    using assms(1) room timed_charge [OF TR] charge_sim [OF wf]
      charge_conc [OF T assms(2,3), of air] L
    by (simp add: duty_inv_def sum_charge_log)
qed

text \<open>The wait, over true times and true air.\<close>

lemma wait_value:
  assumes inv: "duty_inv budget z d sent L" "z \<le> t" "t - z < 2 ^ 32 - HOUR"
    and b: "budget \<noteq> 0" "unat budget + unat air < 2 ^ 32"
  shows "fst (app_radio_ledger_wait_ms d t air) =
    (let R = recent t L; need = sum_list (map snd R) + unat air
     in if need \<le> unat budget \<or> R = [] then 0
        else HOUR - (t - fst (R ! free_idx (of_nat (need - unat budget)) 0 (map conc R))))"
proof -
  let ?now = "word_of_int t :: u32" and ?R = "recent t L"
  have wf: "duty_wf d" and L: "live d = map conc L" and T: "timed z L"
    and bud: "du_budget d = budget"
    using inv(1) by (simp_all add: duty_inv_def)
  note inv' = duty_inv_expire [OF inv]
  have TR: "timed t ?R" by (rule timed_recent [OF T inv(2)])
  define used where "used = used_list ?now (map conc ?R)"
  have used: "unat used = sum_list (map snd ?R)"
    unfolding used_def by (rule duty_inv_used [OF inv'])
  have le: "unat used \<le> unat budget" using inv' used by (simp add: duty_inv_def)
  have sum: "unat (used + air) = unat used + unat air"
    by (rule unat_plus_small) (use le b in simp)
  have over: "used + air - budget = of_nat (sum_list (map snd ?R) + unat air - unat budget)"
    if "\<not> used + air \<le> budget"
  proof -
    have "unat (used + air - budget) = unat used + unat air - unat budget"
      using that sum by (simp add: unat_diff_le)
    then show ?thesis using used by (metis of_nat_unat ucast_id)
  qed
  have time: "uint (APP_RADIO_DUTY_WINDOW_MS - (?now - de_end (map conc ?R ! i)))
      = HOUR - (t - fst (?R ! i))" if i: "i < length ?R" for i
  proof -
    have "?R ! i \<in> set ?R" using i by simp
    then have r: "0 \<le> t - fst (?R ! i)" "t - fst (?R ! i) < HOUR"
      using TR by (force simp: timed_def)+
    then have "uint (?now - de_end (map conc ?R ! i)) = t - fst (?R ! i)"
      using i time_diff [of t "fst (?R ! i)"] by (simp add: conc_def)
    then show ?thesis
      using r(2) uint_diff_le [of "?now - de_end (map conc ?R ! i)" APP_RADIO_DUTY_WINDOW_MS]
      by (simp add: APP_RADIO_DUTY_WINDOW_MS_def word_le_def)
  qed
  have "fst (app_radio_ledger_wait_ms d t air) = wait_list budget ?now air (map conc L)"
    by (simp add: wait_sim [OF wf] L bud)
  also have "\<dots> = (if used + air \<le> budget \<or> ?R = [] then 0
      else uint (APP_RADIO_DUTY_WINDOW_MS - (?now - de_end
         (map conc ?R ! free_idx (used + air - budget) 0 (map conc ?R)))))"
    using b(1) unfolding wait_list_def Let_def expire_conc [OF T inv(2,3)] used_def [symmetric]
    by simp
  also have "used + air \<le> budget \<longleftrightarrow> sum_list (map snd ?R) + unat air \<le> unat budget"
    using sum used by (simp add: word_le_nat_alt)
  finally show ?thesis
    using time [OF free_idx_less [of "map conc ?R", simplified]] over sum used
    unfolding Let_def by (auto simp: word_le_nat_alt)
qed

text \<open>An admitted frame fits what the hour has left.\<close>

lemma wait_admits:
  assumes inv: "duty_inv budget z d sent L" "z \<le> t" "t - z < 2 ^ 32 - HOUR"
    and b: "budget \<noteq> 0" "unat budget < 2 ^ 31" "unat air \<le> unat budget"
    and w: "app_radio_ledger_wait_ms d t air = (0, d')"
  shows "d' = duty_expire d (word_of_int t)"
    and "sum_list (map snd (recent t L)) + unat air \<le> unat budget"
proof -
  let ?R = "recent t L"
  have T: "timed z L" and wf: "duty_wf d" using inv(1) by (simp_all add: duty_inv_def)
  show "d' = duty_expire d (word_of_int t)" using w by (simp add: wait_sim [OF wf])
  have later: "t - HOUR < fst (?R ! i)" if "i < length ?R" for i
    using nth_mem [OF that] timed_recent [OF T inv(2)] by (force simp: timed_def)
  show "sum_list (map snd ?R) + unat air \<le> unat budget"
  proof (rule ccontr)
    assume blocked: "\<not> ?thesis"
    then have R: "?R \<noteq> []" using b(3) by auto
    let ?i = "free_idx (of_nat (sum_list (map snd ?R) + unat air - unat budget)) 0 (map conc ?R)"
    have "HOUR - (t - fst (?R ! ?i)) = 0"
      using wait_value [OF inv b(1), of air] w b(2,3) blocked R by (simp add: Let_def)
    then show False using later [of ?i] free_idx_less [of "map conc ?R"] R by simp
  qed
qed

text \<open>
  Precision, while the uptime has not wrapped: the entries sit in distinct slots, and the air
  they hold at or after a time was sent in its slot or later.
\<close>

lemma slot_floor: "SLOTI * (x div SLOTI) \<le> x" "x < SLOTI * (x div SLOTI) + SLOTI"
  using mult_div_mod_eq [of SLOTI x] pos_mod_bound [of SLOTI x] pos_mod_sign [of SLOTI x]
  by linarith+

lemma slot_hour: "(t - HOUR) div SLOTI = t div SLOTI - 48"
  using div_mult_self1 [of SLOTI t "-48"] by simp

definition duty_prec :: "int \<Rightarrow> frame_log \<Rightarrow> frame_log \<Rightarrow> bool" where
  "duty_prec z sent L \<longleftrightarrow> 0 \<le> z \<and> (\<forall>p \<in> set L. 0 \<le> fst p)
     \<and> sorted_wrt (\<lambda>p q. fst p div SLOTI < fst q div SLOTI) L
     \<and> (\<forall>x. asum (\<lambda>t. x \<le> t) L \<le> asum (\<lambda>t. SLOTI * (x div SLOTI) \<le> t) sent)"

lemma same_iff:
  assumes "0 \<le> fst p" "fst p \<le> now" "now < 2 ^ 32"
  shows "same now p \<longleftrightarrow> now div SLOTI = fst p div SLOTI"
proof -
  have u: "uint (word_of_int now :: u32) = now" "uint (word_of_int (fst p) :: u32) = fst p"
    using assms by (simp_all add: uint_of_int_small)
  have "word_of_int now div APP_RADIO_DUTY_SLOT_MS = word_of_int (fst p) div APP_RADIO_DUTY_SLOT_MS
      \<longleftrightarrow> now div SLOTI = fst p div SLOTI"
    unfolding word_uint_eq_iff by (simp add: uint_div SLOT u)
  moreover have "word_of_int now - word_of_int (fst p) < APP_RADIO_DUTY_SLOT_MS \<longleftrightarrow> now - fst p < SLOTI"
    using assms time_diff [of now "fst p"] by (simp add: SLOT word_less_def)
  moreover have "now - fst p < SLOTI" if "now div SLOTI = fst p div SLOTI"
    using slot_floor [of now] slot_floor [of "fst p"] that by linarith
  ultimately show ?thesis by (auto simp: same_def same_slot_def conc_def)
qed

lemma prec_expire:
  assumes "duty_prec z sent L" "z \<le> t"
  shows "duty_prec t sent (recent t L)"
proof -
  have "asum (\<lambda>s. x \<le> s) (recent t L) \<le> asum (\<lambda>s. x \<le> s) L" for x
    unfolding asum_recent by (rule asum_mono) simp
  then show ?thesis
    using assms unfolding duty_prec_def by (auto simp: recent_def intro: sorted_wrt_filter le_trans)
qed

lemma strict_length:
  "sorted_wrt (<) (xs :: int list) \<Longrightarrow> set xs \<subseteq> {a..<b} \<Longrightarrow> length xs \<le> nat (b - a)"
proof -
  assume xs: "sorted_wrt (<) xs" "set xs \<subseteq> {a..<b}"
  then have "length xs = card (set xs)"
    by (simp add: distinct_card strict_sorted_iff)
  also have "\<dots> \<le> card {a..<b}" using xs(2) by (intro card_mono) simp_all
  finally show ?thesis by simp
qed

text \<open>Unless the newest entry shares the slot, the ring has room.\<close>

lemma prec_room:
  assumes "timed t L" "duty_prec t sent L" "t < 2 ^ 32" "L = [] \<or> \<not> same t (last L)"
  shows "length L < 49" and "\<forall>p \<in> set L. fst p div SLOTI < t div SLOTI"
proof -
  show newest: "\<forall>p \<in> set L. fst p div SLOTI < t div SLOTI"
  proof (cases "L = []")
    case False
    then obtain M e b where L: "L = M @ [(e, b)]" using split_last by blast
    have "e \<le> t" "0 \<le> e" using assms(1,2) by (auto simp: L timed_snoc duty_prec_def)
    then have "t div SLOTI \<noteq> e div SLOTI" "e div SLOTI \<le> t div SLOTI"
      using assms(3,4) same_iff [of "(e, b)" t] by (auto simp: L zdiv_mono1)
    then have "e div SLOTI < t div SLOTI" by simp
    then show ?thesis
      using assms(2) by (auto simp: L duty_prec_def sorted_wrt_append dest: less_trans)
  qed simp
  have "t div SLOTI - 48 \<le> fst p div SLOTI" if "p \<in> set L" for p
  proof -
    have "t - HOUR \<le> fst p" using assms(1) that by (force simp: timed_def)
    then have "(t - HOUR) div SLOTI \<le> fst p div SLOTI" by (rule zdiv_mono1) simp
    then show ?thesis by (simp add: slot_hour)
  qed
  then have "set (map (\<lambda>p. fst p div SLOTI) L) \<subseteq> {t div SLOTI - 48..<t div SLOTI}"
    using newest by auto
  then have "length (map (\<lambda>p. fst p div SLOTI) L) \<le> nat (t div SLOTI - (t div SLOTI - 48))"
    using assms(2) by (intro strict_length) (simp_all add: duty_prec_def sorted_wrt_map)
  then show "length L < 49" by simp
qed

lemma prec_charge:
  assumes "timed t L" "duty_prec t sent L" "t < 2 ^ 32"
  shows "duty_prec t (sent @ [(t, a)]) (charge_log (same t) t a L)"
proof (cases "L \<noteq> [] \<and> same t (last L)")
  case True
  then obtain M e b where L: "L = M @ [(e, b)]" using split_last by blast
  have e: "e \<le> t" "0 \<le> e" using assms(1,2) by (auto simp: L timed_snoc duty_prec_def)
  then have slot: "t div SLOTI = e div SLOTI"
    using True assms(3) same_iff [of "(e, b)" t] by (simp add: L)
  have "asum (\<lambda>s. x \<le> s) (M @ [(t, b + a)])
      \<le> asum (\<lambda>s. SLOTI * (x div SLOTI) \<le> s) (sent @ [(t, a)])" for x
  proof -
    have inv: "asum (\<lambda>s. y \<le> s) (M @ [(e, b)]) \<le> asum (\<lambda>s. SLOTI * (y div SLOTI) \<le> s) sent" for y
      using assms(2) by (simp add: duty_prec_def L)
    have fl: "SLOTI * (x div SLOTI) \<le> x" by (rule slot_floor)
    consider "x \<le> e" | "e < x" "x \<le> t" | "t < x" by linarith
    then show ?thesis
    proof cases
      case 1
      then show ?thesis using inv [of x] e fl by simp
    next
      case 2
      then have "x div SLOTI = e div SLOTI"
        using slot zdiv_mono1 [of x t SLOTI] zdiv_mono1 [of e x SLOTI] by simp
      moreover have "asum (\<lambda>s. x \<le> s) M = 0"
        using assms(1) 2 by (intro asum_none) (force simp: L timed_snoc)
      ultimately show ?thesis using inv [of e] 2 fl by simp
    next
      case 3
      then have "asum (\<lambda>s. x \<le> s) M = 0"
        using assms(1) by (intro asum_none) (force simp: L timed_snoc timed_def)
      then show ?thesis using 3 by simp
    qed
  qed
  then show ?thesis
    using assms(2) True e slot
    by (auto simp: duty_prec_def charge_log_def L sorted_wrt_append)
next
  case False
  then have room: "length L < 49" "\<forall>p \<in> set L. fst p div SLOTI < t div SLOTI"
    using prec_room [OF assms] by auto
  have "asum (\<lambda>s. x \<le> s) (L @ [(t, a)])
      \<le> asum (\<lambda>s. SLOTI * (x div SLOTI) \<le> s) (sent @ [(t, a)])" for x
  proof -
    have "SLOTI * (x div SLOTI) \<le> x" by (rule slot_floor)
    moreover have "asum (\<lambda>s. x \<le> s) L \<le> asum (\<lambda>s. SLOTI * (x div SLOTI) \<le> s) sent"
      using assms(2) by (simp add: duty_prec_def)
    ultimately show ?thesis by simp
  qed
  then show ?thesis
    using assms(2) False room by (auto simp: duty_prec_def charge_log_def sorted_wrt_append)
qed

lemma duty_reach_full:
  assumes "budget \<noteq> 0" "unat budget < 2 ^ 31" "duty_reach budget z d sent"
  shows "\<exists>L. duty_inv budget z d sent L \<and> (z < 2 ^ 32 \<longrightarrow> duty_prec z sent L)"
  using assms(3)
proof induction
  case (dr_init d t)
  have "duty_inv budget t (app_radio_ledger_init d budget) [] [] \<and> duty_prec t [] []"
    using dr_init
    by (auto simp: duty_inv_def app_radio_ledger_init_def duty_wf_def live_def timed_def
        window_air_def duty_prec_def)
  then show ?case by blast
next
  case (dr_held z d sent t air)
  then obtain L where L: "duty_inv budget z d sent L" "z < 2 ^ 32 \<longrightarrow> duty_prec z sent L" by blast
  have "snd (app_radio_ledger_wait_ms d t air) = duty_expire d (word_of_int t)"
    using L(1) by (simp add: wait_sim duty_inv_def)
  then show ?case
    using duty_inv_expire [OF L(1)] prec_expire [of z sent L t] L(2) dr_held(2,3)
    by (intro exI [of _ "recent t L"]) auto
next
  case (dr_sent z d sent t air d' t')
  then obtain L where L: "duty_inv budget z d sent L" "z < 2 ^ 32 \<longrightarrow> duty_prec z sent L" by blast
  note adm = wait_admits [OF L(1) dr_sent(2,3) assms(1,2) dr_sent(4,5)]
  let ?R = "recent t L"
  have inv: "duty_inv budget t d' sent ?R"
    unfolding adm(1) by (rule duty_inv_expire [OF L(1) dr_sent(2,3)])
  have room: "sum_list (map snd (recent t' ?R)) + unat air \<le> unat budget"
    using adm(2) sum_recent_le [of t' ?R] by simp
  have "duty_prec t' (sent @ [(t', unat air)])
      (charge_log (same t') t' (unat air) (recent t' ?R))" if "t' < 2 ^ 32"
  proof (rule prec_charge)
    show "timed t' (recent t' ?R)"
      using inv dr_sent(6) by (auto simp: duty_inv_def intro: timed_recent)
    show "duty_prec t' sent (recent t' ?R)"
      using L(2) that dr_sent(2,6) by (intro prec_expire [of t] prec_expire [of z]) auto
  qed (rule that)
  with duty_inv_charge [OF inv dr_sent(6,7) room] show ?case by blast
qed

lemma duty_reach_inv:
  assumes "budget \<noteq> 0" "unat budget < 2 ^ 31" "duty_reach budget z d sent"
  shows "\<exists>L. duty_inv budget z d sent L"
  using duty_reach_full [OF assms] by blast

lemma duty_reach_window:
  assumes "budget \<noteq> 0" "unat budget < 2 ^ 31" "duty_reach budget z d sent"
  shows "window_air x sent \<le> unat budget"
  using duty_reach_inv [OF assms] by (auto simp: duty_inv_def)


subsection \<open>The wait is exact\<close>

lemma free_idx_spec:
  assumes "R \<noteq> []" "unat freed < unat over" "unat freed + sum_list (map snd R) < 2 ^ 32"
  shows "unat freed + sum_list (map snd (take (free_idx over freed (map conc R)) R)) < unat over
    \<and> (Suc (free_idx over freed (map conc R)) = length R
       \<or> unat over \<le> unat freed
           + sum_list (map snd (take (Suc (free_idx over freed (map conc R))) R)))"
  using assms
proof (induction R arbitrary: freed rule: induct_list012)
  case (3 p q R)
  have air: "de_air (conc p) = of_nat (snd p)" by (simp add: conc_def)
  have "unat (of_nat (snd p) :: u32) = snd p"
    by (rule unat_of_nat_small) (use 3(5) in simp)
  then have add: "unat (freed + of_nat (snd p)) = unat freed + snd p"
    using 3(5) unat_plus_small [of freed "of_nat (snd p)"] by simp
  show ?case
  proof (cases "over \<le> freed + de_air (conc p)")
    case True
    then show ?thesis using 3(4) add air by (simp add: word_le_nat_alt)
  next
    case False
    then have "unat (freed + of_nat (snd p)) < unat over"
      using air by (simp add: word_le_nat_alt)
    then show ?thesis using 3(2) [of "freed + of_nat (snd p)"] 3(5) add air False
      by (simp add: add.assoc)
  qed
qed simp_all

lemma sorted_recent_drop:
  assumes "timed t R" "i < length R" "fst (R ! i) \<le> t' - HOUR"
  shows "sum_list (map snd (recent t' R)) \<le> sum_list (map snd (drop (Suc i) R))"
    and "Suc i = length R \<Longrightarrow> recent t' R = []"
proof -
  have "fst p \<le> t' - HOUR" if p: "p \<in> set (take (Suc i) R)" for p
  proof -
    obtain k where "k < Suc i" "p = R ! k" using p assms(2) by (auto simp: in_set_conv_nth)
    then have "fst p \<le> fst (R ! i)"
      using assms(1,2) sorted_nth_mono [of "map fst R" k i] by (simp add: timed_def)
    then show ?thesis using assms(3) by simp
  qed
  then have "recent t' (take (Suc i) R) = []"
    by (force simp: recent_def filter_empty_conv)
  then have eq: "recent t' R = recent t' (drop (Suc i) R)"
    by (metis append_Nil append_take_drop_id filter_append recent_def)
  then show "sum_list (map snd (recent t' R)) \<le> sum_list (map snd (drop (Suc i) R))"
    by (simp add: sum_recent_le)
  show "recent t' R = []" if "Suc i = length R"
    unfolding eq by (simp add: that recent_def)
qed

lemma sorted_recent_keep:
  assumes "timed t R" "i < length R" "t' - HOUR < fst (R ! i)"
  shows "sum_list (map snd (drop i R)) \<le> sum_list (map snd (recent t' R))" "recent t' R \<noteq> []"
proof -
  have "t' - HOUR < fst p" if p: "p \<in> set (drop i R)" for p
  proof -
    obtain k where k: "k < length R - i" "p = R ! (i + k)"
      using p by (auto simp: in_set_conv_nth)
    then have "fst (R ! i) \<le> fst p"
      using assms(1) sorted_nth_mono [of "map fst R" i "i + k"] by (simp add: timed_def)
    then show ?thesis using assms(3) by simp
  qed
  then have "recent t' (drop i R) = drop i R"
    by (force simp: recent_def filter_id_conv)
  then have eq: "recent t' R = recent t' (take i R) @ drop i R"
    by (metis append_take_drop_id filter_append recent_def)
  then show "sum_list (map snd (drop i R)) \<le> sum_list (map snd (recent t' R))" by simp
  show "recent t' R \<noteq> []" using eq assms(2) by simp
qed

text \<open>
  C28: A wait the ledger answers is exact: it is at most an hour, the same frame is
  admitted when it is over, and at no time before.
\<close>

theorem duty_wait_exact:
  assumes "budget \<noteq> 0" "unat budget < 2 ^ 31" "duty_reach budget z d sent"
    and "unat budget + unat air < 2 ^ 32" "z \<le> t" "t - z < 2 ^ 32 - 3600000"
    and "app_radio_ledger_wait_ms d t air = (w, d')" "0 < w"
  shows "w \<le> 3600000
    \<and> fst (app_radio_ledger_wait_ms d' (t + w) air) = 0
    \<and> (t \<le> t' \<and> t' < t + w \<longrightarrow> 0 < fst (app_radio_ledger_wait_ms d' t' air))"
proof (intro conjI)
  obtain L where L: "duty_inv budget z d sent L" using duty_reach_inv [OF assms(1-3)] by blast
  have wf: "duty_wf d" and T: "timed z L" using L by (simp_all add: duty_inv_def)
  define R where "R = recent t L"
  define need where "need = sum_list (map snd R) + unat air"
  define i where "i = free_idx (of_nat (need - unat budget)) 0 (map conc R)"
  have inv: "duty_inv budget t d' sent R"
    using duty_inv_expire [OF L assms(5,6)] assms(7) by (simp add: wait_sim [OF wf] R_def)
  have TR: "timed t R" and le: "sum_list (map snd R) \<le> unat budget"
    using inv by (simp_all add: duty_inv_def)
  have blocked: "unat budget < need" "R \<noteq> []" and w: "w = HOUR - (t - fst (R ! i))"
    using wait_value [OF L assms(5,6,1,4)] assms(7,8)
    by (auto simp: Let_def need_def i_def R_def split: if_splits)
  have i: "i < length R" using free_idx_less [of "map conc R"] blocked(2) by (simp add: i_def)
  have over: "unat (of_nat (need - unat budget) :: u32) = need - unat budget"
    by (rule unat_of_nat_small) (use assms(4) le in \<open>simp add: need_def\<close>)
  have small: "sum_list (map snd R) < 2 ^ 32"
    using le unsigned_less [where ?'a = nat, of budget] by simp
  have before: "sum_list (map snd (take i R)) < need - unat budget"
    and after: "Suc i = length R \<or> need - unat budget \<le> sum_list (map snd (take (Suc i) R))"
    using free_idx_spec [of R 0 "of_nat (need - unat budget)", folded i_def] over small blocked
    by auto
  have split: "sum_list (map snd R)
      = sum_list (map snd (take k R)) + sum_list (map snd (drop k R))" for k
    by (metis append_take_drop_id map_append sum_list_append)
  have ri: "fst (R ! i) \<le> t" using TR i by (force simp: timed_def)
  show "w \<le> 3600000" using ri w by simp
  have "fst (R ! i) \<le> t + w - HOUR" using w by simp
  note room = sorted_recent_drop [OF TR i this]
  have "recent (t + w) R = [] \<or> sum_list (map snd (recent (t + w) R)) + unat air \<le> unat budget"
    using room after split [of "Suc i"] by (auto simp: need_def)
  moreover have "t + w - t < 2 ^ 32 - HOUR" using \<open>w \<le> 3600000\<close> by simp
  ultimately show "fst (app_radio_ledger_wait_ms d' (t + w) air) = 0"
    using wait_value [OF inv _ _ assms(1,4), of "t + w"] assms(8) by (auto simp: Let_def)
  show "t \<le> t' \<and> t' < t + w \<longrightarrow> 0 < fst (app_radio_ledger_wait_ms d' t' air)"
  proof
    assume t': "t \<le> t' \<and> t' < t + w"
    then have "t' - HOUR < fst (R ! i)" using w by simp
    note full = sorted_recent_keep [OF TR i this]
    have gap: "t' - t < 2 ^ 32 - HOUR" using t' \<open>w \<le> 3600000\<close> by simp
    have "\<not> sum_list (map snd (recent t' R)) + unat air \<le> unat budget"
      using full(1) before split [of i] blocked(1) by (simp add: need_def)
    then obtain k where k: "k < length (recent t' R)"
      "fst (app_radio_ledger_wait_ms d' t' air) = HOUR - (t' - fst (recent t' R ! k))"
      using wait_value [OF inv _ gap assms(1,4)] t' full(2) free_idx_less [of "map conc (recent t' R)"]
      by (auto simp: Let_def)
    moreover have "t' - HOUR < fst (recent t' R ! k)"
      using nth_mem [OF k(1)] by (auto simp: recent_def)
    ultimately show "0 < fst (app_radio_ledger_wait_ms d' t' air)" by linarith
  qed
qed

subsection \<open>The accounting is precise\<close>

text \<open>
  While the uptime has not wrapped, the air in use is at least that of the frames of the
  last hour and counts nothing older than one 75 s slot more; the fold of two entries never
  happens.
\<close>

theorem duty_used_precise:
  assumes "budget \<noteq> 0" "unat budget < 2 ^ 31" "duty_reach budget z d sent"
    and "z \<le> t" "t < 2 ^ 32 - 3600000"
  shows "window_air (t - 3600000) sent \<le> unat (app_radio_ledger_used_ms d t)
    \<and> unat (app_radio_ledger_used_ms d t) \<le> asum (\<lambda>e. t - 3600000 - 75000 < e) sent
    \<and> (du_count (duty_expire d (word_of_int t)) < 49
      \<or> same_slot (word_of_int t) (last (live (duty_expire d (word_of_int t)))))"
proof (intro conjI)
  obtain L where L: "duty_inv budget z d sent L" "z < 2 ^ 32 \<longrightarrow> duty_prec z sent L"
    using duty_reach_full [OF assms(1-3)] by blast
  let ?R = "recent t L" and ?now = "word_of_int t :: u32"
  have wf: "duty_wf d" and conc: "live d = map conc L" and T: "timed z L"
    using L(1) by (simp_all add: duty_inv_def)
  have z: "0 \<le> z" using L(2) assms(4,5) by (simp add: duty_prec_def)
  then have gap: "t - z < 2 ^ 32 - HOUR" using assms(5) by simp
  note inv = duty_inv_expire [OF L(1) assms(4) gap]
  have P: "duty_prec t sent ?R" using L(2) assms(4,5) by (intro prec_expire) auto
  have TR: "timed t ?R" by (rule timed_recent [OF T assms(4)])
  have dw: "dropWhile (expired ?now) (live d) = map conc ?R"
    using expire_conc [OF T assms(4) gap] by (simp add: expire_list_def conc)
  have "filter (\<lambda>e. \<not> expired ?now e) (takeWhile (expired ?now) (live d)) = []"
    by (auto simp: filter_empty_conv dest: set_takeWhileD)
  then have "used_list ?now (live d) = used_list ?now (map conc ?R)"
    by (metis append_Nil dw filter_append takeWhile_dropWhile_id used_list_def)
  then have used: "unat (app_radio_ledger_used_ms d t) = asum (\<lambda>_. True) ?R"
    using duty_inv_used [OF inv] by (simp add: ledger_used_sim asum_def)
  have "asum (\<lambda>e. t - HOUR < e) ?R \<le> asum (\<lambda>_. True) ?R" by (rule asum_mono) simp
  moreover have "window_air (t - HOUR) sent \<le> asum (\<lambda>e. t - HOUR < e) sent"
    unfolding window_air_def by (rule asum_mono) simp
  moreover have "asum (\<lambda>e. t - HOUR < e) sent \<le> asum (\<lambda>e. t - HOUR < e) ?R"
    using inv by (simp add: duty_inv_def)
  ultimately show "window_air (t - 3600000) sent \<le> unat (app_radio_ledger_used_ms d t)"
    using used by simp
  have "asum (\<lambda>_. True) ?R = asum (\<lambda>e. t - HOUR + 1 \<le> e) ?R"
    by (rule asum_cong) (auto simp: recent_def)
  also have "\<dots> \<le> asum (\<lambda>e. SLOTI * ((t - HOUR + 1) div SLOTI) \<le> e) sent"
    using P by (simp add: duty_prec_def)
  also have "\<dots> \<le> asum (\<lambda>e. t - 3600000 - 75000 < e) sent"
    by (rule asum_mono) (use slot_floor [of "t - HOUR + 1"] in linarith)
  finally show "unat (app_radio_ledger_used_ms d t) \<le> asum (\<lambda>e. t - 3600000 - 75000 < e) sent"
    using used by simp
  have live: "live (duty_expire d ?now) = map conc ?R"
    using duty_expire_sim [OF wf, of ?now] dw by (simp add: expire_list_def)
  show "du_count (duty_expire d ?now) < 49
      \<or> same_slot ?now (last (live (duty_expire d ?now)))"
  proof (cases "?R = [] \<or> \<not> same t (last ?R)")
    case True
    then show ?thesis
      using prec_room(1) [OF TR P _ True] assms(5) length_live [of "duty_expire d ?now"] live
      by simp
  next
    case False
    then show ?thesis by (simp add: live last_map same_def)
  qed
qed

subsection \<open>The loops end\<close>

definition duty_drop :: "duty \<Rightarrow> duty" where
  "duty_drop d = d\<lparr>du_head := duty_slot d 1, du_count := du_count d - 1\<rparr>"

lemma live_duty_drop: "0 < du_count d \<Longrightarrow> live (duty_drop d) = tl (live d)"
  unfolding duty_drop_def by (rule live_drop) simp_all

lemma duty_wf_drop: "duty_wf d \<Longrightarrow> duty_wf (duty_drop d)"
  by (auto simp: duty_wf_def duty_drop_def)

text \<open>
  C29: The loops of the ledger end.  \<open>duty_expire\<close> drops one entry per round, as many as are
  expired in front, never more than there are; the search of \<open>app_radio_ledger_wait_ms\<close> for the
  entry that frees enough air stops inside the live entries.
\<close>

theorem duty_loops_end:
  assumes "duty_wf d"
  shows "duty_expire d now
      = (duty_drop ^^ length (takeWhile (expired now) (live d))) d
    \<and> length (takeWhile (expired now) (live d)) \<le> du_count d
    \<and> (0 < du_count d \<longrightarrow> duty_free_idx d over freed 0 < du_count d)"
proof (intro conjI)
  show "duty_expire d now = (duty_drop ^^ length (takeWhile (expired now) (live d))) d"
    using assms
  proof (induction d now rule: duty_expire.induct)
    case (1 d now)
    show ?case
    proof (cases "0 < du_count d \<and> expired now (du_entries d ! du_head d)")
      case True
      then have "live d = du_entries d ! du_head d # tl (live d)"
        using 1(2) live_nth [of 0 d]
        by (metis duty_at_def duty_slot_0 hd_Cons_tl hd_conv_nth live_Nil_iff not_gr_zero)
      then have "takeWhile (expired now) (live d)
          = du_entries d ! du_head d # takeWhile (expired now) (live (duty_drop d))"
        using True live_duty_drop [of d] by (metis takeWhile.simps(2))
      moreover have "duty_expire d now = duty_expire (duty_drop d) now"
        using True by (subst duty_expire.simps) (simp add: expired_def duty_drop_def)
      moreover have "duty_expire (duty_drop d) now
          = (duty_drop ^^ length (takeWhile (expired now) (live (duty_drop d)))) (duty_drop d)"
        using 1(1) [folded duty_drop_def expired_def, OF True] 1(2) by (simp add: duty_wf_drop)
      ultimately show ?thesis by (simp add: funpow_swap1)
    next
      case alive: False
      have "takeWhile (expired now) (live d) = []"
      proof (cases "du_count d = 0")
        case False
        then have "hd (live d) = du_entries d ! du_head d"
          using 1(2) live_nth [of 0 d] by (simp add: hd_conv_nth duty_at_def duty_slot_0)
        then show ?thesis using alive False by (cases "live d") auto
      next
        case True
        then have "live d = []" by simp
        then show ?thesis by (simp only: takeWhile.simps)
      qed
      then show ?thesis using alive by (subst duty_expire.simps) (auto simp: expired_def)
    qed
  qed
  show "length (takeWhile (expired now) (live d)) \<le> du_count d"
    using length_takeWhile_le [of "expired now" "live d"] by simp
  show "0 < du_count d \<longrightarrow> duty_free_idx d over freed 0 < du_count d"
    using free_idx_sim [of 0 d over freed] free_idx_less [of "live d" over freed] by simp
qed

subsection \<open>Concrete ledgers\<close>

definition duty_zero :: duty where
  "duty_zero = \<lparr>du_entries = replicate 49 \<lparr>de_end = 0, de_air = 0\<rparr>, du_budget = 0,
                du_head = 0, du_count = 0\<rparr>"

lemma duty_wf_zero [simp]: "duty_wf duty_zero"
  by (simp add: duty_wf_def duty_zero_def)

text \<open>A one-entry ledger: a 30 s frame that ended at 1 s, under the 1 % allowance.\<close>

definition duty_one :: duty where
  "duty_one = app_radio_ledger_charge (app_radio_ledger_init duty_zero 36000) 1000 30000"

lemma duty_one_eval:
  "duty_one = \<lparr>du_entries = \<lparr>de_end = 1000, de_air = 30000\<rparr> # replicate 48 \<lparr>de_end = 0, de_air = 0\<rparr>,
               du_budget = 36000, du_head = 0, du_count = 1\<rparr>"
  using replicate_Suc [of 48 "\<lparr>de_end = 0, de_air = 0\<rparr>"]
  unfolding duty_one_def app_radio_ledger_charge_def app_radio_ledger_init_def duty_zero_def
  by (simp add: duty_expire_stop Let_def duty_slot_def)

lemma duty_wf_one [simp]: "duty_wf duty_one"
  by (simp add: duty_wf_def duty_one_eval)

lemma wait_init_zero:
  "app_radio_ledger_wait_ms (app_radio_ledger_init duty_zero b) t a
     = (0, app_radio_ledger_init duty_zero b)"
  by (simp add: app_radio_ledger_wait_ms_def app_radio_ledger_init_def duty_expire_stop Let_def)

lemma duty_one_reach: "duty_reach 36000 1000 duty_one [(1000, 30000)]"
  using dr_sent [OF dr_init [OF duty_wf_zero, of 0 36000], of 500 30000 _ 1000]
  by (simp add: wait_init_zero duty_one_def)

lemma duty_one_wait:
  "app_radio_ledger_wait_ms duty_one 2000 30000 = (3599000, duty_one)"
  unfolding app_radio_ledger_wait_ms_def
  by (simp add: duty_one_eval duty_expire_stop duty_free_idx_stop Let_def duty_at_def
      duty_slot_def app_radio_ledger_used_ms_def APP_RADIO_DUTY_WINDOW_MS_def)

theorem duty_ring_refines_list_witness:
  "live (app_radio_ledger_charge duty_one 2000 500)
     = charge_list (word_of_int 2000) 500 (live duty_one)
   \<and> app_radio_ledger_used_ms duty_one 2000 = used_list (word_of_int 2000) (live duty_one)"
  using duty_ring_refines_list [of duty_one] duty_wf_one by blast


theorem duty_wait_exact_witness:
  "(3599000 :: int) \<le> 3600000
   \<and> fst (app_radio_ledger_wait_ms duty_one 3601000 30000) = 0
   \<and> 0 < fst (app_radio_ledger_wait_ms duty_one 3600999 30000)"
  using duty_wait_exact [OF _ _ duty_one_reach _ _ _ duty_one_wait, of 3600999] by simp

theorem duty_used_precise_witness:
  "window_air (2000 - 3600000) [(1000, 30000)] \<le> unat (app_radio_ledger_used_ms duty_one 2000)
   \<and> unat (app_radio_ledger_used_ms duty_one 2000)
       \<le> asum (\<lambda>e. 2000 - 3600000 - 75000 < e) [(1000, 30000)]"
  using duty_used_precise [OF _ _ duty_one_reach, of 2000] by simp

theorem duty_loops_end_witness:
  "duty_expire duty_one 4000000
     = (duty_drop ^^ length (takeWhile (expired 4000000) (live duty_one))) duty_one
   \<and> duty_free_idx duty_one 5 0 0 < 1"
  using duty_loops_end [OF duty_wf_one, of 4000000 5 0] by (simp add: duty_one_eval)

text \<open>
  The comment of \<open>duty_expire\<close> says the 32-bit difference can never alias.  Entries are dropped
  only when the ledger is used, so after 49.7 days without a frame it does: the air of the last
  frame counts again, and a frame waits for it.
\<close>

lemma duty_aliases_after_wrap:
  "app_radio_ledger_used_ms duty_one (1000 + 2 ^ 32) = 30000"
  "fst (app_radio_ledger_wait_ms duty_one (1000 + 2 ^ 32) 30000) = 3600000"
  unfolding app_radio_ledger_wait_ms_def
  by (simp_all add: duty_one_eval duty_expire_stop duty_free_idx_stop Let_def duty_at_def
      duty_slot_def app_radio_ledger_used_ms_def APP_RADIO_DUTY_WINDOW_MS_def)

end
