(* ===== verification/RadioPolicy.thy ===== *)
theory RadioPolicy
  imports Complex_Main DutyLedger
begin

text \<open>
  The pure rules of \<open>src/app/src/app_radio.h\<close> both radios share: the time on air of a frame,
  the link-check cadence, the Ack backoff, the rejoin backoff and its jitter, and the
  stale-uplink watchdog (M-2) with its duty-cycle excuse.  Times (\<open>int64_t\<close> milliseconds of
  uptime) are \<open>int\<close>.
\<close>

subsection \<open>Time on air\<close>

definition app_radio_lora_toa_ms :: "u32 \<Rightarrow> u32 \<Rightarrow> nat \<Rightarrow> u32" where
  "app_radio_lora_toa_ms sf bw_hz len =
     (let low_dr = (bw_hz = 125000 \<and> 11 \<le> sf) \<or> (bw_hz = 250000 \<and> sf = 12);
          num0 = 8 * int (min len 255) + 16 - 4 * sint sf + 20;
          den0 = 4 * sint sf;
          (n0, num, den) =
            (if sf \<le> 6 then (12 + 12 + 2, num0, den0)
             else (8 + 12, num0 + 8, if low_dr then 4 * (sint sf - 2) else den0));
          n_sym = n0 + word_of_int ((max num 0 + den - 1) sdiv den) * 5 :: u32;
          num_ms = ucast (4 * n_sym + 1) * ucast (push_bit (unat (sf - 2)) 1 :: u32) * 1000 :: u64
      in ucast ((num_ms + ucast bw_hz - 1) div ucast bw_hz))"

subsection \<open>Link-check cadence and backoffs\<close>

definition app_radio_link_check_due :: "u32 \<Rightarrow> int \<Rightarrow> bool \<Rightarrow> bool" where
  "app_radio_link_check_due report_idx interval warning =
     (if warning then True
      else if interval \<le> 0 then False
      else report_idx mod word_of_int interval = 0)"

definition APP_RADIO_ACK_MAX_RETRIES :: nat where "APP_RADIO_ACK_MAX_RETRIES = 3"
definition APP_RADIO_ACK_BACKOFF_MIN_MS :: u32 where "APP_RADIO_ACK_BACKOFF_MIN_MS = 1000"

definition app_radio_ack_backoff_ms :: "nat \<Rightarrow> u32 \<Rightarrow> u32" where
  "app_radio_ack_backoff_ms retry rand32 =
     (let n = max 1 (min retry APP_RADIO_ACK_MAX_RETRIES);
          max_ms = push_bit n APP_RADIO_ACK_BACKOFF_MIN_MS
      in APP_RADIO_ACK_BACKOFF_MIN_MS + rand32 mod (max_ms - APP_RADIO_ACK_BACKOFF_MIN_MS))"

definition APP_RADIO_REJOIN_BACKOFF_BASE_MS :: u32 where
  "APP_RADIO_REJOIN_BACKOFF_BASE_MS = 60000"
definition APP_RADIO_REJOIN_BACKOFF_MAX_MS :: u32 where
  "APP_RADIO_REJOIN_BACKOFF_MAX_MS = 3600000"

text \<open>The doubling loop, with \<open>attempt - i\<close> rounds left.\<close>

fun rejoin_double :: "nat \<Rightarrow> u32 \<Rightarrow> u32" where
  "rejoin_double 0 ms = ms"
| "rejoin_double (Suc n) ms =
     (if ms < APP_RADIO_REJOIN_BACKOFF_MAX_MS then rejoin_double n (ms * 2) else ms)"

definition app_radio_rejoin_backoff_ms :: "u32 \<Rightarrow> u32" where
  "app_radio_rejoin_backoff_ms attempt =
     min (rejoin_double (unat attempt) APP_RADIO_REJOIN_BACKOFF_BASE_MS)
       APP_RADIO_REJOIN_BACKOFF_MAX_MS"

definition app_radio_backoff_jitter_ms :: "int \<Rightarrow> int \<Rightarrow> u32 \<Rightarrow> u32 \<Rightarrow> int" where
  "app_radio_backoff_jitter_ms wait_ms floor_ms base_ms rand32 =
     (let jittered = wait_ms - uint (base_ms div 4) + uint (rand32 mod (base_ms div 2 + 1))
      in max jittered (if 0 < floor_ms then floor_ms else 0))"

subsection \<open>The stale-uplink watchdog\<close>

definition APP_RADIO_STALE_FACTOR :: int where "APP_RADIO_STALE_FACTOR = 4"
definition APP_RADIO_STALE_DC_HOLD_MAX_MS :: int where
  "APP_RADIO_STALE_DC_HOLD_MAX_MS = 75 * 60 * 1000"
definition APP_RADIO_STALE_DC_RECENT_MARGIN_MS :: int where
  "APP_RADIO_STALE_DC_RECENT_MARGIN_MS = 3 * 60 * 1000"

datatype app_radio_stale = STALE_OK | STALE_HOLD_DC | STALE_REJOIN

record stale_dc =
  dc_since :: int
  dc_last :: int
  dc_until :: int

definition stale_dc0 :: stale_dc where
  "stale_dc0 = \<lparr>dc_since = 0, dc_last = 0, dc_until = 0\<rparr>"

definition app_radio_stale_note :: "stale_dc \<Rightarrow> bool \<Rightarrow> bool \<Rightarrow> int \<Rightarrow> stale_dc" where
  "app_radio_stale_note dc sent held now_ms =
     (if sent then (if now_ms < dc_until dc then dc else stale_dc0)
      else if held
      then dc\<lparr>dc_since := if dc_since dc = 0 then now_ms else dc_since dc, dc_last := now_ms\<rparr>
      else dc)"

definition app_radio_stale_note_hold :: "stale_dc \<Rightarrow> int \<Rightarrow> int \<Rightarrow> stale_dc" where
  "app_radio_stale_note_hold dc now_ms hold_ms =
     (let dc' = app_radio_stale_note dc False True now_ms
      in if dc_until dc' < now_ms + hold_ms then dc'\<lparr>dc_until := now_ms + hold_ms\<rparr> else dc')"

definition app_radio_stale_check :: "int \<Rightarrow> int \<Rightarrow> stale_dc \<Rightarrow> u32 \<Rightarrow> app_radio_stale" where
  "app_radio_stale_check now_ms last_uplink_ms dc interval_s =
     (if last_uplink_ms = 0 \<or> interval_s = 0 then STALE_OK
      else (let interval_ms = uint interval_s * 1000
            in if now_ms - last_uplink_ms \<le> interval_ms * APP_RADIO_STALE_FACTOR then STALE_OK
               else (let recent_ms = (if dc_last dc < dc_until dc then dc_until dc else dc_last dc)
                     in if dc_since dc \<noteq> 0 \<and> recent_ms \<noteq> 0
                          \<and> now_ms - recent_ms \<le> interval_ms + APP_RADIO_STALE_DC_RECENT_MARGIN_MS
                          \<and> now_ms - dc_since dc < APP_RADIO_STALE_DC_HOLD_MAX_MS
                        then STALE_HOLD_DC else STALE_REJOIN)))"

subsection \<open>The air of a frame is the datasheet's\<close>

lemma ceil_div:
  assumes "0 < b"
  shows "(a + b - 1) div b = \<lceil>real_of_int a / real_of_int b\<rceil>"
proof -
  define k where "k = (a + b - 1) div b"
  have "k * b + (a + b - 1) mod b = a + b - 1" by (simp only: k_def div_mult_mod_eq)
  then have "k * b \<le> a + b - 1" "a + b - 1 < k * b + b"
    using pos_mod_bound [OF assms, of "a + b - 1"] pos_mod_sign [OF assms, of "a + b - 1"]
    by linarith+
  then have "(k - 1) * b < a" "a \<le> k * b" by (simp_all add: algebra_simps)
  then have "real_of_int ((k - 1) * b) < real_of_int a" "real_of_int a \<le> real_of_int (k * b)"
    by (simp_all only: of_int_less_iff of_int_le_iff)
  then have "\<lceil>real_of_int a / real_of_int b\<rceil> = k"
    using assms by (intro ceiling_unique) (simp_all add: field_simps)
  then show ?thesis by (simp add: k_def)
qed

lemma toa_words:
  fixes q n0 k :: nat and bw :: u32
  assumes "q \<le> 200" "n0 \<le> 26" "k \<le> 10" "bw \<noteq> 0"
  shows "unat (ucast ((ucast (4 * (of_nat n0 + of_nat q * 5 :: u32) + 1)
                 * ucast (push_bit k 1 :: u32) * 1000 + ucast bw - 1 :: u64) div ucast bw) :: u32)
    = ((4 * (n0 + 5 * q) + 1) * 2 ^ k * 1000 + unat bw - 1) div unat bw"
proof -
  define n where "n = 4 * (n0 + 5 * q) + 1"
  define X where "X = n * 2 ^ k * 1000"
  have n: "n \<le> 4105" "0 < n" using assms(1,2) by (simp_all add: n_def)
  have k: "(2::nat) ^ k \<le> 1024" using power_increasing [OF assms(3), of "2 :: nat"] by simp
  have X: "X \<le> 4105 * 1024 * 1000"
    unfolding X_def by (intro mult_le_mono n k) simp
  have bw: "0 < unat bw" "unat bw < 2 ^ 32"
    using assms(4) unsigned_less [where ?'a = nat, of bw] by (simp_all add: unat_gt_0)
  have sym: "ucast (4 * (of_nat n0 + of_nat q * 5 :: u32) + 1) = (of_nat n :: u64)"
  proof -
    have "4 * (of_nat n0 + of_nat q * 5 :: u32) + 1 = of_nat n"
      by (simp add: n_def algebra_simps)
    moreover have "unat (of_nat n :: u32) = n" by (rule unat_of_nat_small) (use n in simp)
    ultimately show ?thesis by (metis of_nat_unat)
  qed
  have pow: "ucast (push_bit k 1 :: u32) = (of_nat (2 ^ k) :: u64)"
  proof -
    have "unat (push_bit k 1 :: u32) = 2 ^ k"
      using k unat_of_nat_small [of "2 ^ k", where 'a = 32] by (simp add: push_bit_eq_mult)
    then show ?thesis by (metis of_nat_unat)
  qed
  have bwc: "(ucast bw :: u64) = of_nat (unat bw)" by simp
  have "ucast (4 * (of_nat n0 + of_nat q * 5 :: u32) + 1) * ucast (push_bit k 1 :: u32) * 1000
      + ucast bw - 1 = (of_nat (X + unat bw - 1) :: u64)"
    unfolding sym pow bwc X_def using bw by (simp add: of_nat_diff)
  moreover have "unat (of_nat (X + unat bw - 1) :: u64) = X + unat bw - 1"
    by (rule unat_of_nat_small) (use X bw in simp)
  moreover have "unat (ucast bw :: u64) = unat bw"
    unfolding bwc by (rule unat_of_nat_small) (use bw in simp)
  moreover have "(X + unat bw - 1) div unat bw < 2 ^ 32"
  proof -
    have "(X + unat bw - 1) div unat bw \<le> X"
    proof -
      have "X + unat bw - 1 \<le> X * unat bw + unat bw - 1"
        using bw(1) by (simp add: diff_le_mono)
      also have "\<dots> < (X + 1) * unat bw" using bw(1) by simp
      finally have "(X + unat bw - 1) div unat bw < X + 1"
        by (simp add: less_mult_imp_div_less)
      then show ?thesis by simp
    qed
    then show ?thesis using X by simp
  qed
  ultimately show ?thesis
    by (simp add: unat_div X_def n_def unsigned_ucast_eq take_bit_nat_eq_self)
qed

text \<open>The symbols of the payload, and the frame, by the formula of the SX126x datasheet.\<close>

definition toa_low_dr :: "nat \<Rightarrow> u32 \<Rightarrow> bool" where
  "toa_low_dr s bw \<longleftrightarrow> (bw = 125000 \<and> 11 \<le> s) \<or> (bw = 250000 \<and> s = 12)"

definition toa_bits :: "nat \<Rightarrow> nat \<Rightarrow> int" where
  "toa_bits s len = max (8 * int (min len 255) + 16 - 4 * int s + (if s \<le> 6 then 20 else 28)) 0"

definition toa_den :: "nat \<Rightarrow> u32 \<Rightarrow> int" where
  "toa_den s bw = 4 * (int s - (if toa_low_dr s bw then 2 else 0))"

lemma sf_cases:
  assumes "5 \<le> s" "s \<le> 12"
  obtains "s = 5" | "s = 6" | "s = 7" | "s = 8" | "s = 9" | "s = 10" | "s = 11" | "s = (12 :: nat)"
  using assms by linarith

lemma toa_bounds:
  assumes "5 \<le> s" "s \<le> 12"
  shows "0 \<le> toa_bits s len" "20 \<le> toa_den s bw" "toa_bits s len \<le> 2056"
  using assms by (auto simp: toa_bits_def toa_den_def toa_low_dr_def)

lemma int_div_less:
  assumes "0 < (b :: int)" "a < k * b"
  shows "a div b < k"
proof (rule ccontr)
  assume "\<not> a div b < k"
  then have "k * b \<le> a div b * b" using assms(1) by (intro mult_right_mono) simp_all
  then show False
    using assms div_mult_mod_eq [of a b] pos_mod_sign [OF assms(1), of a] by linarith
qed

lemma toa_sym_bound:
  assumes "5 \<le> s" "s \<le> 12"
  shows "0 \<le> (toa_bits s len + toa_den s bw - 1) div toa_den s bw"
    and "(toa_bits s len + toa_den s bw - 1) div toa_den s bw \<le> 200"
proof -
  note b = toa_bounds [OF assms]
  show "0 \<le> (toa_bits s len + toa_den s bw - 1) div toa_den s bw"
    using b(1) [of len] b(2) [of bw] by (intro pos_imp_zdiv_nonneg_iff [THEN iffD2]) simp_all
  have "toa_bits s len + toa_den s bw - 1 < 201 * toa_den s bw"
    using b(3) [of len] b(2) [of bw] by simp
  then have "(toa_bits s len + toa_den s bw - 1) div toa_den s bw < 201"
    using b(2) [of bw] by (intro int_div_less) simp_all
  then show "(toa_bits s len + toa_den s bw - 1) div toa_den s bw \<le> 200" by simp
qed

lemma toa_code:
  assumes "5 \<le> s" "s \<le> 12"
  shows "app_radio_lora_toa_ms (of_nat s) bw len =
    ucast ((ucast (4 * (of_nat (if s \<le> 6 then 26 else 20)
        + of_nat (nat ((toa_bits s len + toa_den s bw - 1) div toa_den s bw)) * 5 :: u32) + 1)
      * ucast (push_bit (s - 2) 1 :: u32) * 1000 + ucast bw - 1 :: u64) div ucast bw)"
proof -
  define q where "q = (toa_bits s len + toa_den s bw - 1) div toa_den s bw"
  have q: "word_of_int q = (of_nat (nat q) :: u32)"
    using toa_sym_bound [OF assms] by (simp add: q_def)
  have sd: "(toa_bits s len + toa_den s bw - 1) sdiv toa_den s bw = q"
    unfolding q_def using toa_bounds(1) [OF assms, of len] toa_bounds(2) [OF assms, of bw]
    by (intro sdiv_pos) simp_all
  show ?thesis
    unfolding q_def [symmetric] unfolding q [symmetric] unfolding sd [symmetric]
    by (rule sf_cases [OF assms])
      (simp_all add: app_radio_lora_toa_ms_def Let_def toa_bits_def toa_den_def toa_low_dr_def)
qed

text \<open>
  C30: For every spreading factor of the modem (5 to 12), bandwidth and length,
  \<open>app_radio_lora_toa_ms\<close> (32- and 64-bit arithmetic) is the formula of the SX126x datasheet
  over the reals, rounded up to a millisecond: 8 preamble symbols, the sync word and header of the
  spreading factor, and 5 symbols for each started group of payload bits.
\<close>

theorem toa_datasheet:
  assumes "5 \<le> s" "s \<le> 12" "bw \<noteq> 0"
  shows "int (unat (app_radio_lora_toa_ms (of_nat s) bw len)) =
    \<lceil>1000 * (2 ^ s / real (unat bw)) *
      ((if s \<le> 6 then 12 + 25 / 4 else 8 + 17 / 4) + 8
       + 5 * real_of_int \<lceil>real_of_int (toa_bits s len) / real_of_int (toa_den s bw)\<rceil>)\<rceil>"
proof -
  define q where "q = nat ((toa_bits s len + toa_den s bw - 1) div toa_den s bw)"
  define n0 :: nat where "n0 = (if s \<le> 6 then 26 else 20)"
  define X where "X = (4 * (n0 + 5 * q) + 1) * 2 ^ (s - 2) * 1000"
  have bw: "0 < unat bw" using assms(3) by (simp add: unat_gt_0)
  have "q \<le> 200" using toa_sym_bound(2) [OF assms(1,2), of len bw] by (simp add: q_def)
  then have "unat (app_radio_lora_toa_ms (of_nat s) bw len) = (X + unat bw - 1) div unat bw"
    unfolding toa_code [OF assms(1,2)] q_def [symmetric] n0_def [symmetric] X_def
    by (rule toa_words) (use assms in \<open>simp_all add: n0_def\<close>)
  then have "int (unat (app_radio_lora_toa_ms (of_nat s) bw len))
      = (int X + int (unat bw) - 1) div int (unat bw)"
    using bw by (simp add: zdiv_int of_nat_diff)
  also have "\<dots> = \<lceil>real X / real (unat bw)\<rceil>"
    using ceil_div [of "int (unat bw)" "int X"] bw
    by (simp only: of_nat_0_less_iff of_int_of_nat_eq)
  also have "real X = 1000 * 2 ^ s * ((if s \<le> 6 then 12 + 25 / 4 else 8 + 17 / 4) + 8 + 5 * real q)"
  proof -
    have "(2::real) ^ s = 4 * 2 ^ (s - 2)"
    proof -
      obtain k where "s = 2 + k" using le_Suc_ex [of 2 s] assms(1) by auto
      then show ?thesis by simp
    qed
    then show ?thesis by (simp add: X_def n0_def algebra_simps)
  qed
  also have "real q = real_of_int \<lceil>real_of_int (toa_bits s len) / real_of_int (toa_den s bw)\<rceil>"
    using ceil_div [of "toa_den s bw" "toa_bits s len"] toa_bounds(2) [OF assms(1,2), of bw]
      toa_sym_bound(1) [OF assms(1,2), of len bw]
    by (simp add: q_def)
  finally show ?thesis by (simp add: field_simps)
qed

theorem toa_datasheet_witness:
  "int (unat (app_radio_lora_toa_ms (of_nat 12) 125000 51))
     = \<lceil>1000 * (2 ^ 12 / 125000) * ((8 + 17 / 4) + 8 + 5 * real_of_int \<lceil>404 / 40 :: real\<rceil>) :: real\<rceil>"
  using toa_datasheet [of 12 125000 51] by (simp add: toa_bits_def toa_den_def toa_low_dr_def)

text \<open>Every frame at 125 kHz or more fits the 1 % allowance of an hour.\<close>

lemma toa_max:
  assumes "5 \<le> s" "s \<le> 12" "125000 \<le> bw"
  shows "unat (app_radio_lora_toa_ms (of_nat s) bw len) \<le> 9020"
proof -
  define q where "q = nat ((toa_bits s len + toa_den s bw - 1) div toa_den s bw)"
  define n0 :: nat where "n0 = (if s \<le> 6 then 26 else 20)"
  have bw: "125000 \<le> unat bw" using assms(3) by (simp add: word_le_nat_alt)
  have q200: "q \<le> 200" using toa_sym_bound(2) [OF assms(1,2), of len bw] by (simp add: q_def)
  have ub: "unat (app_radio_lora_toa_ms (of_nat s) bw len)
      = ((4 * (n0 + 5 * q) + 1) * 2 ^ (s - 2) * 1000 + unat bw - 1) div unat bw"
    unfolding toa_code [OF assms(1,2)] q_def [symmetric] n0_def [symmetric]
    by (rule toa_words) (use assms q200 bw in \<open>auto simp: n0_def\<close>)
  have "(4 * (n0 + 5 * q) + 1) * 2 ^ (s - 2) * 1000 \<le> 9020 * unat bw"
  proof -
    define b where "b = 2056 - 4 * int s + (if s \<le> 6 then 20 else 28)"
    have "q \<le> nat ((b + toa_den s bw - 1) div toa_den s bw)"
      unfolding q_def
    proof (intro nat_mono zdiv_mono1)
      show "toa_bits s len + toa_den s bw - 1 \<le> b + toa_den s bw - 1"
        using assms by (auto simp: toa_bits_def b_def)
      show "0 < toa_den s bw" using toa_bounds(2) [OF assms(1,2), of bw] by simp
    qed
    then show ?thesis
      using bw by (rule_tac sf_cases [OF assms(1,2)];
          cases "toa_low_dr s bw"; simp add: toa_den_def n0_def b_def toa_low_dr_def)
  qed
  then have "(4 * (n0 + 5 * q) + 1) * 2 ^ (s - 2) * 1000 + unat bw - 1 < 9021 * unat bw"
    using bw by simp
  then show ?thesis unfolding ub by (simp add: less_mult_imp_div_less less_Suc_eq_le [symmetric])
qed

text \<open>
  On the 1 % and 10 % sub-bands any one frame at 125 kHz or more fits the hour's
  allowance (at most 9.02 s of air), so the ledger can always admit it.
\<close>

theorem airtime_fits_hour:
  assumes "5 \<le> s" "s \<le> 12" "125000 \<le> bw"
    and "(865000000 \<le> freq \<and> freq \<le> 868600000) \<or> (869400000 \<le> freq \<and> freq \<le> 869650000)
      \<or> (869700000 \<le> freq \<and> freq \<le> 870000000)"
  shows "unat (app_radio_lora_toa_ms (of_nat s) bw len) \<le> 9020
    \<and> app_radio_lora_toa_ms (of_nat s) bw len \<le> app_radio_duty_budget_ms freq"
proof -
  have "36000 \<le> app_radio_duty_budget_ms freq"
    using assms(4) by (auto simp: app_radio_duty_budget_ms_def APP_RADIO_DUTY_1PCT_MS_def)
  then have "36000 \<le> unat (app_radio_duty_budget_ms freq)" by (simp add: word_le_nat_alt)
  then show ?thesis using toa_max [OF assms(1-3), of len] by (simp add: word_le_nat_alt)
qed

theorem airtime_fits_hour_witness:
  "app_radio_lora_toa_ms (of_nat 12) 125000 255 \<le> app_radio_duty_budget_ms 868100000"
  using airtime_fits_hour [of 12 125000 868100000 255] by simp

text \<open>A 10-byte frame at the slowest rate already overruns the allowance of a 0.1 % sub-band.\<close>

lemma airtime_over_strict_budget:
  "app_radio_duty_budget_ms 869000000 < app_radio_lora_toa_ms 12 125000 100"
  by (simp add: app_radio_duty_budget_ms_def APP_RADIO_DUTY_1PCT_MS_def app_radio_lora_toa_ms_def
      sdiv_pos Let_def)

subsection \<open>Backoffs\<close>

lemma ack_backoff_range:
  assumes "1 \<le> retry" "retry \<le> 3"
  shows "1000 \<le> unat (app_radio_ack_backoff_ms retry r)
    \<and> unat (app_radio_ack_backoff_ms retry r) < 1000 * 2 ^ retry"
proof -
  consider "retry = 1" | "retry = 2" | "retry = 3" using assms by linarith
  then show ?thesis
  proof cases
    case 1
    then show ?thesis
      by (simp add: app_radio_ack_backoff_ms_def APP_RADIO_ACK_MAX_RETRIES_def
          APP_RADIO_ACK_BACKOFF_MIN_MS_def unat_word_ariths unat_mod)
  next
    case 2
    then show ?thesis
      by (simp add: app_radio_ack_backoff_ms_def APP_RADIO_ACK_MAX_RETRIES_def
          APP_RADIO_ACK_BACKOFF_MIN_MS_def unat_word_ariths unat_mod)
  next
    case 3
    then show ?thesis
      by (simp add: app_radio_ack_backoff_ms_def APP_RADIO_ACK_MAX_RETRIES_def
          APP_RADIO_ACK_BACKOFF_MIN_MS_def unat_word_ariths unat_mod)
  qed
qed

lemma rejoin_double_unat:
  "unat ms < 3600000 * 2 \<Longrightarrow> 0 < unat ms \<Longrightarrow>
    min (unat (rejoin_double n ms)) 3600000 = min (unat ms * 2 ^ n) 3600000"
proof (induction n arbitrary: ms)
  case (Suc n)
  show ?case
  proof (cases "ms < APP_RADIO_REJOIN_BACKOFF_MAX_MS")
    case True
    then have small: "unat ms < 3600000"
      by (simp add: APP_RADIO_REJOIN_BACKOFF_MAX_MS_def word_less_nat_alt)
    then have "unat (ms * 2) = unat ms * 2" by (simp add: unat_word_ariths)
    then show ?thesis using True Suc.IH [of "ms * 2"] small Suc.prems by (simp add: mult.assoc)
  next
    case False
    then have "3600000 \<le> unat ms"
      by (simp add: APP_RADIO_REJOIN_BACKOFF_MAX_MS_def word_less_nat_alt)
    moreover have "unat ms \<le> unat ms * 2 ^ Suc n" by simp
    ultimately have "3600000 \<le> unat ms * 2 ^ Suc n" by linarith
    then show ?thesis using False \<open>3600000 \<le> unat ms\<close> by simp
  qed
qed simp

lemma quarter_le: "0 \<le> b \<Longrightarrow> b div 4 \<le> (b :: int)"
  by presburger

lemma jitter_range:
  "0 \<le> R \<Longrightarrow> R \<le> H \<Longrightarrow> 0 \<le> Q \<Longrightarrow> Q \<le> B \<Longrightarrow> 0 \<le> H \<Longrightarrow>
     fl \<le> max (B - Q + R) (if 0 < fl then fl else 0)
     \<and> B - Q \<le> max (B - Q + R) (if 0 < fl then fl else 0)
     \<and> max (B - Q + R) (if 0 < fl then fl else 0) \<le> max fl (B - Q + H :: int)"
  by (auto simp: max_def)

text \<open>
  The rejoin backoff is \<open>60 s * 2\<^sup>n\<close> capped at an hour; with its jitter it lies within
  a quarter below and above, and never under the floor the duty cycle gives.
\<close>

theorem rejoin_backoff_spread:
  "unat (app_radio_rejoin_backoff_ms attempt) = min (60000 * 2 ^ unat attempt) 3600000
   \<and> (let b = app_radio_rejoin_backoff_ms attempt;
          w = app_radio_backoff_jitter_ms (uint b) fl b r
      in fl \<le> w \<and> uint b - uint b div 4 \<le> w
         \<and> w \<le> max fl (uint b - uint b div 4 + uint b div 2))"
proof
  let ?b = "app_radio_rejoin_backoff_ms attempt"
  show eq: "unat ?b = min (60000 * 2 ^ unat attempt) 3600000"
    using rejoin_double_unat [of 60000 "unat attempt"]
    by (simp add: app_radio_rejoin_backoff_ms_def APP_RADIO_REJOIN_BACKOFF_BASE_MS_def
        APP_RADIO_REJOIN_BACKOFF_MAX_MS_def min_def word_le_nat_alt split: if_splits)
  then have b: "0 < unat ?b" "unat ?b \<le> 3600000" by simp_all
  have ub: "0 < uint ?b" "uint ?b \<le> 3600000" 
  proof -
    have "uint ?b = int (unat ?b)" by simp
    then show "0 < uint ?b" "uint ?b \<le> 3600000" using b by linarith+
  qed
  then have half: "uint (?b div 2 + 1) = uint ?b div 2 + 1"
    by (simp add: uint_word_ariths uint_div mod_pos_pos_trivial)
  have "0 \<le> uint (r mod (?b div 2 + 1))" "uint (r mod (?b div 2 + 1)) \<le> uint ?b div 2"
    unfolding uint_mod half using ub pos_mod_bound [of "uint ?b div 2 + 1" "uint r"]
    by (simp_all add: pos_imp_zdiv_nonneg_iff)
  moreover have "0 \<le> uint ?b div 4" "uint ?b div 4 \<le> uint ?b" "0 \<le> uint ?b div 2"
    using ub quarter_le [of "uint ?b"] by (simp_all add: pos_imp_zdiv_nonneg_iff)
  moreover have "uint (?b div 4) = uint ?b div 4" by (simp add: uint_div)
  ultimately show "let b = ?b; w = app_radio_backoff_jitter_ms (uint b) fl b r
      in fl \<le> w \<and> uint b - uint b div 4 \<le> w
         \<and> w \<le> max fl (uint b - uint b div 4 + uint b div 2)"
    unfolding Let_def app_radio_backoff_jitter_ms_def
    by (simp only:) (rule jitter_range)
qed

end
