(* ===== verification/RadioState.thy ===== *)
theory RadioState
  imports DutyProps RadioPolicy
begin

text \<open>
  The state of \<open>src/app/src/app_radio.c\<close>'s transmit path, and the services it is built on: the
  duty ledger behind \<open>m_duty_lock\<close>, the network backoff, the M-2 clock, the work items and the
  link supervision.

  The backend (\<open>struct app_radio_backend\<close>: LoRaWAN or P2P, not modelled) and the modules the
  path calls (\<open>app_compose\<close>, \<open>app_alarm\<close>, \<open>app_cmd\<close>, \<open>app_clock\<close>, the random source) are
  parameters: functions over an environment state \<open>'b\<close>.  A \<open>send\<close> of the backend blocks for
  the frame and its receive windows and calls back into \<open>app_radio\<close> meanwhile; it is described
  by the list of what happens until it returns (\<open>radio_cb\<close>: time passes, air is charged, an
  answer is queued by a received command, a link check succeeds, \<open>...\<close>;
  \<open>CB_checked\<close> is a frame of the backend's own, a repetition or an ACK, that it asks the ledger
  about first), and \<open>app_radio\<close> carries
  these out.  \<open>rd_now\<close> is what \<open>k_uptime_get()\<close> returns.  \<open>rd_air\<close>, \<open>rd_in\<close> and \<open>rd_out\<close> are
  history variables, not code: the frames handed to the backend with their result, the frames
  taken into a queue, and the queued frames that left their path with their fate; so is \<open>rd_replayed\<close>, the history frames sent (frame
  index, cursor before, cursor after, bytes), and \<open>rd_charged\<close>, the air charged to the ledger
  (end, milliseconds).  The snapshot of the record layout and interval a
  replay takes at its start is the environment of that moment (\<open>rd_hist_layout\<close>): only
  \<open>be_hist_cap\<close> and \<open>be_hist_frame\<close> read it.
\<close>

datatype frame_kind = K_ANSWER | K_ALARM | K_TELEMETRY | K_HISTORY
datatype frame_tag = TAG_OTHER | TAG_CMD_RESPONSE | TAG_INFO | TAG_SETTINGS

definition APP_RADIO_TX_SLOT_SIZE :: nat where "APP_RADIO_TX_SLOT_SIZE = 64"
definition TX_RETRY_MS :: u32 where "TX_RETRY_MS = 15000"
definition TX_MAX_RETRIES :: nat where "TX_MAX_RETRIES = 8"
definition TX_DUTY_MARGIN_MS :: u32 where "TX_DUTY_MARGIN_MS = 50"
definition APP_RADIO_LINK_WARNING_THRESHOLD :: u32 where "APP_RADIO_LINK_WARNING_THRESHOLD = 3"
definition APP_RADIO_BACKOFF_MAX_S :: u32 where "APP_RADIO_BACKOFF_MAX_S = 3600"

text \<open>A slot's \<open>buf[0..len)\<close> is the list \<open>ts_buf\<close>; the unused rest of the array is not kept.\<close>

record tx_slot =
  ts_tag :: frame_tag
  ts_port :: u8
  ts_buf :: bytes

record radio_frame =
  fr_kind :: frame_kind
  fr_tag :: frame_tag
  fr_port :: u8
  fr_confirmed :: bool
  fr_link_check :: bool
  fr_more :: bool
  fr_attempt :: nat
  fr_buf :: bytes

datatype tx_ret = TX_OK | TX_ACK_RETRY | TX_ERR errno

record tx_result =
  tr_wait :: u32
  tr_budget :: u8
  tr_held :: bool

definition tx_result0 :: tx_result where
  "tx_result0 = \<lparr>tr_wait = 0, tr_budget = 0, tr_held = False\<rparr>"

text \<open>A delayable work item of the radio work queue: submitted, and the time it is due.\<close>

record work =
  wk_queued :: bool
  wk_at :: "int option"

definition scheduled :: "work \<Rightarrow> bool" where
  "scheduled w \<longleftrightarrow> wk_queued w \<or> wk_at w \<noteq> None"

definition work_schedule_now :: "work \<Rightarrow> work" where
  "work_schedule_now w = (if scheduled w then w else w\<lparr>wk_queued := True\<rparr>)"

definition work_reschedule :: "int \<Rightarrow> int \<Rightarrow> work \<Rightarrow> work" where
  "work_reschedule now delay w =
     (if delay = 0 then \<lparr>wk_queued = True, wk_at = None\<rparr>
      else w\<lparr>wk_at := Some (now + delay)\<rparr>)"

record radio_link =
  lk_reports :: u32
  lk_fail_streak :: u32
  lk_warning_fails :: u32
  lk_warning :: bool

record radio_flags =
  rf_confirmed :: bool
  rf_link_check :: bool

record radio_cfg =
  cfg_alarm_ack :: bool
  cfg_fail_rejoin :: int
  cfg_check_interval :: int
  cfg_interval_report :: int
  cfg_calibration :: bool
  cfg_tx_mute :: bool

datatype radio_cb =
    CB_time nat
  | CB_charge u32
  | CB_checked u32 nat
  | CB_queue frame_kind frame_tag u8 bytes
  | CB_link_result bool
  | CB_note_send bool bool
  | CB_backoff u32

datatype compose_ret =
    CMP_OK bytes bool
  | CMP_EAGAIN
  | CMP_ERR

record 'b backend =
  be_send :: "radio_frame \<Rightarrow> 'b \<Rightarrow> errno option \<times> tx_result \<times> radio_cb list \<times> 'b"
  be_budget :: "'b \<Rightarrow> u8"
  be_tx_ready :: "'b \<Rightarrow> bool"
  be_report_flags :: "bool \<Rightarrow> 'b \<Rightarrow> radio_flags \<times> 'b"
  be_healthy :: "'b \<Rightarrow> bool"
  be_warning_step :: "'b \<Rightarrow> bool \<times> 'b"
  be_rejoin :: "bool \<Rightarrow> 'b \<Rightarrow> bool \<times> 'b"
  be_airtime :: "'b \<Rightarrow> nat \<Rightarrow> u32"
  be_confirms :: "frame_kind \<Rightarrow> bool"
  be_frame_gap :: u32
  be_compose :: "u8 \<Rightarrow> 'b \<Rightarrow> compose_ret \<times> 'b"
  be_compose_reset :: "'b \<Rightarrow> 'b"
  be_flush_held :: "'b \<Rightarrow> bytes list \<times> 'b"
  be_rearm :: "bool \<Rightarrow> 'b \<Rightarrow> 'b"
  be_budget_error :: "u32 \<Rightarrow> nat \<Rightarrow> bytes option"
  be_rand :: "'b \<Rightarrow> u32 \<times> 'b"
  be_time_unset :: "'b \<Rightarrow> bool"
  be_time_request :: "'b \<Rightarrow> 'b"
  be_ready_kick :: "'b \<Rightarrow> 'b"
  be_replay_active :: "bool \<Rightarrow> 'b \<Rightarrow> 'b"
  be_hist_cap :: "'b \<Rightarrow> u32 \<Rightarrow> u32 \<Rightarrow> u8 \<Rightarrow> nat"
  be_hist_count :: "'b \<Rightarrow> u32 \<Rightarrow> u32 \<Rightarrow> nat \<Rightarrow> u32"
  be_hist_span :: "'b \<Rightarrow> u32 \<times> u32"
  be_hist_export ::
    "'b \<Rightarrow> u32 \<Rightarrow> u32 \<Rightarrow> u32 \<Rightarrow> u32 \<Rightarrow> nat \<Rightarrow> bytes \<times> u32 \<times> bool \<times> nat \<times> u32"
  be_hist_frame ::
    "'b \<Rightarrow> u32 \<Rightarrow> u32 \<Rightarrow> u32 \<Rightarrow> u32 \<Rightarrow> bool \<Rightarrow> bytes \<Rightarrow> bytes option"

datatype slot_fate = F_sent | F_dropped

record 'b radio =
  rd_env :: 'b
  rd_now :: int
  rd_duty :: duty
  rd_duty_on :: bool
  rd_duty_since :: int
  rd_backoff_until :: int
  rd_answer_q :: "tx_slot list"
  rd_alarm_q :: "tx_slot list"
  rd_cur :: tx_slot
  rd_cur_kind :: frame_kind
  rd_cur_valid :: bool
  rd_cur_retries :: nat
  rd_tlm_requested :: bool
  rd_tlm_open :: bool
  rd_tlm_frame :: bool
  rd_tlm_first :: bool
  rd_tlm_more :: bool
  rd_tlm_flags :: radio_flags
  rd_tlm_retries :: nat
  rd_tlm_open_ms :: int
  rd_tlm_buf :: bytes
  rd_tlm_done_valid :: bool
  rd_tlm_done_ms :: int
  rd_ack_pending :: bool
  rd_ack_kind :: frame_kind
  rd_ack_retries :: nat
  rd_link :: radio_link
  rd_link_forced :: bool
  rd_last_uplink :: int
  rd_dc :: stale_dc
  rd_time_wanted :: bool
  rd_hist_active :: bool
  rd_hist_from :: u32
  rd_hist_to :: u32
  rd_hist_seq :: u32
  rd_hist_count :: u32
  rd_hist_idx :: u32
  rd_hist_bound :: u32
  rd_hist_cursor :: u32
  rd_hist_end :: u32
  rd_hist_layout :: 'b
  rd_hist_retries :: nat
  rd_hist_n :: nat
  rd_hist_next :: u32
  rd_hist_buf :: bytes
  rd_tx_work :: work
  rd_hist_work :: work
  rd_cnt_fail :: u32
  rd_cnt_retry :: u32
  rd_air :: "(radio_frame \<times> errno option) list"
  rd_in :: "(frame_kind \<times> tx_slot) list"
  rd_out :: "(frame_kind \<times> tx_slot \<times> slot_fate) list"
  rd_replayed :: "(u32 \<times> u32 \<times> u32 \<times> bytes) list"
  rd_charged :: frame_log

subsection \<open>The duty ledger, the backoff and the M-2 notes\<close>

definition app_radio_set_duty_held :: "bool \<Rightarrow> 'b radio \<Rightarrow> 'b radio" where
  "app_radio_set_duty_held held r =
     (if \<not> held then r\<lparr>rd_duty_since := 0\<rparr>
      else if rd_duty_since r = 0 then r\<lparr>rd_duty_since := max (rd_now r) 1\<rparr>
      else r)"

definition app_radio_duty_init :: "u32 \<Rightarrow> 'b radio \<Rightarrow> 'b radio" where
  "app_radio_duty_init budget_ms r =
     r\<lparr>rd_duty := app_radio_ledger_init (rd_duty r) budget_ms, rd_duty_on := True\<rparr>"

definition app_radio_duty_wait_ms :: "u32 \<Rightarrow> 'b radio \<Rightarrow> int \<times> 'b radio" where
  "app_radio_duty_wait_ms air_ms r =
     (let (w, d) = app_radio_ledger_wait_ms (rd_duty r) (rd_now r) air_ms;
          r' = r\<lparr>rd_duty := d\<rparr>
      in (w, if 0 < w then app_radio_set_duty_held True r' else r'))"

definition app_radio_duty_charge :: "u32 \<Rightarrow> 'b radio \<Rightarrow> 'b radio" where
  "app_radio_duty_charge air_ms r =
     app_radio_set_duty_held False
       (r\<lparr>rd_duty := app_radio_ledger_charge (rd_duty r) (rd_now r) air_ms,
          rd_charged := rd_charged r @ [(rd_now r, unat air_ms)]\<rparr>)"

definition app_radio_backoff_set :: "u32 \<Rightarrow> 'b radio \<Rightarrow> 'b radio" where
  "app_radio_backoff_set s0 r =
     (let s = min s0 APP_RADIO_BACKOFF_MAX_S
      in r\<lparr>rd_backoff_until := if s \<noteq> 0 then rd_now r + uint s * 1000 else 0\<rparr>)"

definition app_radio_backoff_wait_ms :: "'b radio \<Rightarrow> int \<times> 'b radio" where
  "app_radio_backoff_wait_ms r =
     (let left = (if rd_backoff_until r \<noteq> 0 then rd_backoff_until r - rd_now r else 0);
          expired = (rd_backoff_until r \<noteq> 0 \<and> left \<le> 0)
      in (max left 0, if expired then r\<lparr>rd_backoff_until := 0\<rparr> else r))"

definition app_radio_note_send :: "bool \<Rightarrow> bool \<Rightarrow> 'b radio \<Rightarrow> 'b radio" where
  "app_radio_note_send sent duty_held r =
     r\<lparr>rd_dc := app_radio_stale_note (rd_dc r) sent duty_held (rd_now r)\<rparr>"

definition stale_note_hold :: "int \<Rightarrow> 'b radio \<Rightarrow> 'b radio" where
  "stale_note_hold hold_ms r =
     r\<lparr>rd_dc := app_radio_stale_note_hold (rd_dc r) (rd_now r) hold_ms\<rparr>"

definition app_radio_note_uplink :: "'b radio \<Rightarrow> 'b radio" where
  "app_radio_note_uplink r = r\<lparr>rd_last_uplink := max (rd_now r) 1\<rparr>"

definition count_retry :: "'b radio \<Rightarrow> 'b radio" where
  "count_retry r = r\<lparr>rd_cnt_retry := rd_cnt_retry r + 1\<rparr>"

subsection \<open>Work items\<close>

definition tx_schedule :: "u32 \<Rightarrow> 'b radio \<Rightarrow> 'b radio" where
  "tx_schedule delay_ms r =
     r\<lparr>rd_tx_work := work_reschedule (rd_now r) (uint delay_ms) (rd_tx_work r)\<rparr>"

definition tx_work_kick :: "'b radio \<Rightarrow> 'b radio" where
  "tx_work_kick r = r\<lparr>rd_tx_work := work_schedule_now (rd_tx_work r)\<rparr>"

definition hist_work_kick :: "'b radio \<Rightarrow> 'b radio" where
  "hist_work_kick r = r\<lparr>rd_hist_work := work_schedule_now (rd_hist_work r)\<rparr>"

definition app_radio_tx_kick :: "'b radio \<Rightarrow> 'b radio" where
  "app_radio_tx_kick r =
     (let r' = tx_work_kick r in if rd_hist_active r' then hist_work_kick r' else r')"

definition tx_request_telemetry :: "'b radio \<Rightarrow> 'b radio" where
  "tx_request_telemetry r = app_radio_tx_kick (r\<lparr>rd_tlm_requested := True\<rparr>)"

definition ack_release :: "frame_kind \<Rightarrow> 'b radio \<Rightarrow> 'b radio" where
  "ack_release kind r =
     (if \<not> rd_ack_pending r \<or> rd_ack_kind r \<noteq> kind then r
      else (let r' = r\<lparr>rd_ack_pending := False\<rparr>
            in if kind = K_HISTORY then tx_work_kick r'
               else if rd_hist_active r' then hist_work_kick r'
               else r'))"

end
