(* ===== verification/RadioTx.thy ===== *)
theory RadioTx
  imports RadioState
begin

text \<open>
  The transmit path and the link supervision of \<open>src/app/src/app_radio.c\<close>: one scheduler run
  sends one frame, the frame a retry waits for first, then answers, then alarms, then the report
  (\<open>tx_work_handler\<close>, \<open>tx_queued_step\<close>, \<open>tlm_step\<close>); every send goes through \<open>tx_send\<close>, which
  applies the duty ledger, the network backoff and the ladder of confirmed retries.
\<close>

subsection \<open>Link supervision\<close>

definition link_set_streak :: "u32 \<Rightarrow> 'b radio \<Rightarrow> 'b radio" where
  "link_set_streak n r = r\<lparr>rd_link := (rd_link r)\<lparr>lk_fail_streak := n\<rparr>\<rparr>"

definition link_clear :: "'b radio \<Rightarrow> 'b radio" where
  "link_clear r =
     r\<lparr>rd_link := (rd_link r)\<lparr>lk_fail_streak := 0, lk_warning := False, lk_warning_fails := 0\<rparr>\<rparr>"

definition warning_step :: "'b backend \<Rightarrow> 'b radio \<Rightarrow> bool \<times> 'b radio" where
  "warning_step be r =
     (let (stepped, e) = be_warning_step be (rd_env r) in (stepped, r\<lparr>rd_env := e\<rparr>))"

definition app_radio_link_result ::
  "radio_cfg \<Rightarrow> 'b backend \<Rightarrow> bool \<Rightarrow> 'b radio \<Rightarrow> 'b radio" where
  "app_radio_link_result cfg be ok r0 =
     (let r = (if ok then r0 else r0\<lparr>rd_cnt_fail := rd_cnt_fail r0 + 1\<rparr>)
      in if \<not> be_healthy be (rd_env r) then r
         else if ok then link_clear r
         else (let r = link_set_streak (lk_fail_streak (rd_link r) + 1) r
               in if \<not> lk_warning (rd_link r)
                  then (if APP_RADIO_LINK_WARNING_THRESHOLD \<le> lk_fail_streak (rd_link r)
                        then snd (warning_step be
                               (r\<lparr>rd_link := (rd_link r)\<lparr>lk_warning := True, lk_warning_fails := 0\<rparr>\<rparr>))
                        else r)
                  else (let (stepped, r) = warning_step be r;
                            budget = max (cfg_fail_rejoin cfg) 1;
                            r = r\<lparr>rd_link := (rd_link r)
                                    \<lparr>lk_warning_fails := lk_warning_fails (rd_link r) + 1\<rparr>\<rparr>
                        in if stepped \<or> lk_warning_fails (rd_link r) < word_of_int budget then r
                           else (let (ok, e) = be_rejoin be False (rd_env r);
                                     r = r\<lparr>rd_env := e\<rparr>
                                 in if \<not> ok
                                    then r\<lparr>rd_link := (rd_link r)\<lparr>lk_warning_fails := 0\<rparr>\<rparr>
                                    else r))))"

definition app_radio_force_link_check :: "'b radio \<Rightarrow> 'b radio" where
  "app_radio_force_link_check r = r\<lparr>rd_link_forced := True\<rparr>"

definition report_flags :: "radio_cfg \<Rightarrow> 'b backend \<Rightarrow> 'b radio \<Rightarrow> radio_flags \<times> 'b radio" where
  "report_flags cfg be r =
     (let forced = rd_link_forced r;
          due = (forced \<or> app_radio_link_check_due (lk_reports (rd_link r))
                   (cfg_check_interval cfg) (lk_warning (rd_link r)));
          (flags, e) = be_report_flags be due (rd_env r);
          r = r\<lparr>rd_env := e\<rparr>
      in (flags,
          if forced \<and> (rf_link_check flags \<or> rf_confirmed flags)
          then r\<lparr>rd_link_forced := False\<rparr> else r))"

definition stale_tick :: "radio_cfg \<Rightarrow> 'b backend \<Rightarrow> 'b radio \<Rightarrow> 'b radio" where
  "stale_tick cfg be r =
     (if \<not> be_healthy be (rd_env r) then r
      else (case app_radio_stale_check (rd_now r) (rd_last_uplink r) (rd_dc r)
                   (word_of_int (cfg_interval_report cfg)) of
              STALE_REJOIN \<Rightarrow>
                (let (_, e) = be_rejoin be True (rd_env r)
                 in r\<lparr>rd_last_uplink := rd_now r, rd_env := e\<rparr>)
            | _ \<Rightarrow> r))"

subsection \<open>Queueing\<close>

definition app_radio_tx_queue ::
  "frame_kind \<Rightarrow> frame_tag \<Rightarrow> u8 \<Rightarrow> bytes \<Rightarrow> 'b radio \<Rightarrow> errno option \<times> 'b radio" where
  "app_radio_tx_queue kind tag port buf r =
     (let alarm = (kind = K_ALARM)
      in if buf = [] \<or> (\<not> alarm \<and> kind \<noteq> K_ANSWER) then (Some EINVAL, r)
         else if APP_RADIO_TX_SLOT_SIZE < length buf then (Some EMSGSIZE, r)
         else (let slot = \<lparr>ts_tag = tag, ts_port = port, ts_buf = buf\<rparr>;
                   q = (if alarm then rd_alarm_q r else rd_answer_q r)
               in if APP_RADIO_TX_QUEUE_DEPTH \<le> length q then (Some ENOMEM, r)
                  else (let r = r\<lparr>rd_in := rd_in r @ [(kind, slot)]\<rparr>;
                            r = (if alarm then r\<lparr>rd_alarm_q := q @ [slot]\<rparr>
                                 else r\<lparr>rd_answer_q := q @ [slot]\<rparr>);
                            (backoff, r) = (if alarm then app_radio_backoff_wait_ms r else (0, r))
                        in (None,
                            if alarm \<and> (0 < backoff \<or> \<not> rd_ack_pending r)
                            then tx_schedule 0 r
                            else app_radio_tx_kick r))))"

definition app_radio_tx_answer_pending :: "'b radio \<Rightarrow> bool" where
  "app_radio_tx_answer_pending r \<longleftrightarrow>
     rd_answer_q r \<noteq> [] \<or> (rd_cur_valid r \<and> rd_cur_kind r = K_ANSWER)"

definition app_radio_tx_alarm_pending :: "'b radio \<Rightarrow> bool" where
  "app_radio_tx_alarm_pending r \<longleftrightarrow>
     rd_alarm_q r \<noteq> [] \<or> (rd_cur_valid r \<and> rd_cur_kind r = K_ALARM)"

definition app_radio_tx_answer_free :: "'b radio \<Rightarrow> nat" where
  "app_radio_tx_answer_free r = APP_RADIO_TX_QUEUE_DEPTH - length (rd_answer_q r)"

definition app_radio_tx_alarm_free :: "'b radio \<Rightarrow> nat" where
  "app_radio_tx_alarm_free r = APP_RADIO_TX_QUEUE_DEPTH - length (rd_alarm_q r)"

definition app_radio_tx_answer_cap :: "'b backend \<Rightarrow> 'b radio \<Rightarrow> nat \<Rightarrow> nat" where
  "app_radio_tx_answer_cap be r buf_size =
     (let cap = min buf_size APP_RADIO_TX_SLOT_SIZE;
          budget = be_budget be (rd_env r)
      in if 0 < budget \<and> unat budget < cap then unat budget else cap)"

subsection \<open>Sending one frame\<close>

text \<open>What the backend calls back while a send is running.\<close>

fun radio_callback :: "radio_cfg \<Rightarrow> 'b backend \<Rightarrow> radio_cb \<Rightarrow> 'b radio \<Rightarrow> 'b radio" where
  "radio_callback cfg be (CB_time dt) r = r\<lparr>rd_now := rd_now r + int dt\<rparr>"
| "radio_callback cfg be (CB_charge air) r = app_radio_duty_charge air r"
| "radio_callback cfg be (CB_checked air dt) r =
     (let (w, r) = app_radio_duty_wait_ms air r
      in if 0 < w then r else app_radio_duty_charge air (r\<lparr>rd_now := rd_now r + int dt\<rparr>))"
| "radio_callback cfg be (CB_queue kind tag port buf) r = snd (app_radio_tx_queue kind tag port buf r)"
| "radio_callback cfg be (CB_link_result ok) r = app_radio_link_result cfg be ok r"
| "radio_callback cfg be (CB_note_send sent held) r = app_radio_note_send sent held r"
| "radio_callback cfg be (CB_backoff s) r = app_radio_backoff_set s r"

definition backend_send ::
  "radio_cfg \<Rightarrow> 'b backend \<Rightarrow> radio_frame \<Rightarrow> 'b radio \<Rightarrow> errno option \<times> tx_result \<times> 'b radio" where
  "backend_send cfg be f r =
     (let (ret, res, cbs, e) = be_send be f (rd_env r);
          r = fold (radio_callback cfg be) cbs (r\<lparr>rd_env := e\<rparr>)
      in (ret, res, r\<lparr>rd_air := rd_air r @ [(f, ret)]\<rparr>))"

definition kind_confirmed :: "radio_cfg \<Rightarrow> 'b backend \<Rightarrow> frame_kind \<Rightarrow> bool" where
  "kind_confirmed cfg be kind =
     (if kind = K_ALARM then cfg_alarm_ack cfg else be_confirms be kind)"

definition ack_backoff :: "'b backend \<Rightarrow> 'b radio \<Rightarrow> u32 \<times> 'b radio" where
  "ack_backoff be r =
     (let (x, e) = be_rand be (rd_env r)
      in (app_radio_ack_backoff_ms (rd_ack_retries r) x, r\<lparr>rd_env := e\<rparr>))"

text \<open>The duty ledger and the backoff: how long the frame is held.\<close>

definition tx_hold :: "'b backend \<Rightarrow> radio_frame \<Rightarrow> 'b radio \<Rightarrow> int \<times> 'b radio" where
  "tx_hold be f r =
     (let (hold, r) = app_radio_duty_wait_ms (be_airtime be (rd_env r) (length (fr_buf f))) r;
          (backoff, r) = (if fr_kind f = K_ALARM then (0, r) else app_radio_backoff_wait_ms r)
      in (if hold < backoff then backoff else hold, r))"

text \<open>The outcome of the send, or of the hold.\<close>

definition tx_attempt ::
  "radio_cfg \<Rightarrow> 'b backend \<Rightarrow> radio_frame \<Rightarrow> 'b radio \<Rightarrow> errno option \<times> tx_result \<times> 'b radio" where
  "tx_attempt cfg be f r =
     (let (hold, r) = tx_hold be f r
      in if 0 < hold
         then (Some EAGAIN,
               \<lparr>tr_wait = word_of_int hold + TX_DUTY_MARGIN_MS, tr_budget = 0, tr_held = True\<rparr>,
               stale_note_hold hold r)
         else backend_send cfg be f r)"

text \<open>What the confirmed ladder makes of it; \<open>f\<close> carries the flags it was sent with.\<close>

definition tx_settle ::
  "radio_cfg \<Rightarrow> 'b backend \<Rightarrow> bool \<Rightarrow> radio_frame \<Rightarrow> errno option \<Rightarrow> tx_result \<Rightarrow> 'b radio \<Rightarrow>
     tx_ret \<times> tx_result \<times> 'b radio" where
  "tx_settle cfg be retry f ret res r =
     (case ret of
        None \<Rightarrow> (TX_OK, res, ack_release (fr_kind f) r)
      | Some ETIMEDOUT \<Rightarrow>
          (if \<not> fr_confirmed f then (TX_ERR EIO, res, r)
           else if APP_RADIO_ACK_MAX_RETRIES \<le> rd_ack_retries r
           then (let r = ack_release (fr_kind f) r
                 in (TX_OK, res,
                     if fr_link_check f then app_radio_link_result cfg be False r else r))
           else (let r = r\<lparr>rd_ack_pending := True, rd_ack_kind := fr_kind f,
                           rd_ack_retries := rd_ack_retries r + 1\<rparr>;
                     (w, r) = ack_backoff be r
                 in (TX_ACK_RETRY, res\<lparr>tr_wait := w\<rparr>, r)))
      | Some EAGAIN \<Rightarrow>
          (if retry
           then (let (w, r) = ack_backoff be r
                 in (TX_ERR EAGAIN,
                     res\<lparr>tr_wait := (if tr_wait res \<noteq> 0 then tr_wait res else TX_RETRY_MS) + w\<rparr>, r))
           else (TX_ERR EAGAIN, res, r))
      | Some EMSGSIZE \<Rightarrow> (TX_ERR EMSGSIZE, res, ack_release (fr_kind f) r)
      | Some e \<Rightarrow> (TX_ERR e, res, r))"

definition tx_send ::
  "radio_cfg \<Rightarrow> 'b backend \<Rightarrow> radio_frame \<Rightarrow> 'b radio \<Rightarrow> tx_ret \<times> tx_result \<times> 'b radio" where
  "tx_send cfg be f0 r0 =
     (let retry = (rd_ack_pending r0 \<and> rd_ack_kind r0 = fr_kind f0)
      in if rd_ack_pending r0 \<and> \<not> retry then (TX_ERR EBUSY, tx_result0, r0)
         else (let r = (if retry then r0 else r0\<lparr>rd_ack_retries := 0\<rparr>);
                   f = f0\<lparr>fr_confirmed := retry \<or> fr_confirmed f0, fr_attempt := rd_ack_retries r\<rparr>;
                   (ret, res, r) = tx_attempt cfg be f r;
                   r = (if retry \<and> (ret = None \<or> ret = Some ETIMEDOUT) then count_retry r else r)
               in tx_settle cfg be retry f ret res r))"

end
