(* ===== verification/RadioReplay.thy ===== *)
theory RadioReplay
  imports RadioTx
begin

text \<open>
  The history replay of \<open>src/app/src/app_radio.c\<close> (ReqHistory): the records of a window go back
  as history frames, one per run of the work queue.  \<open>app_history\<close> and the frame encoder of
  \<open>app_cmd\<close> are the parameters \<open>be_hist_*\<close>.
\<close>

definition HIST_FRAME_GAP_MS :: u32 where "HIST_FRAME_GAP_MS = 3000"
definition APP_CMD_HISTORY_FRAME_BUF_SIZE :: nat where "APP_CMD_HISTORY_FRAME_BUF_SIZE = 256"
definition READY_COALESCE_MS :: int where "READY_COALESCE_MS = 10000"

definition hist_schedule :: "u32 \<Rightarrow> 'b radio \<Rightarrow> 'b radio" where
  "hist_schedule delay_ms r =
     r\<lparr>rd_hist_work := work_reschedule (rd_now r) (uint delay_ms) (rd_hist_work r)\<rparr>"

definition hist_frame_cap :: "'b backend \<Rightarrow> 'b radio \<Rightarrow> u8 \<Rightarrow> nat" where
  "hist_frame_cap be r budget = be_hist_cap be (rd_hist_layout r) (rd_hist_seq r) (rd_hist_bound r) budget"

definition hist_end :: "'b backend \<Rightarrow> 'b radio \<Rightarrow> 'b radio" where
  "hist_end be r =
     ack_release K_HISTORY
       (r\<lparr>rd_hist_active := False, rd_env := be_replay_active be False (rd_env r)\<rparr>)"

text \<open>
  A link-ready report is folded into one on its way, and skipped right after one.  Whether a
  report waits in the fleet jitter or the boot hold (\<open>m_jitter_work\<close>, \<open>m_telemetry_held\<close>) is known to
  the environment: \<open>be_ready_kick\<close> does nothing then.
\<close>

definition ready_kick :: "'b backend \<Rightarrow> 'b radio \<Rightarrow> 'b radio" where
  "ready_kick be r =
     (if rd_tlm_open r \<or> rd_tlm_requested r then r
      else if rd_tlm_done_valid r \<and> rd_now r - rd_tlm_done_ms r < READY_COALESCE_MS then r
      else r\<lparr>rd_env := be_ready_kick be (rd_env r)\<rparr>)"

definition hist_finish :: "'b backend \<Rightarrow> 'b radio \<Rightarrow> 'b radio" where
  "hist_finish be r = ready_kick be (app_radio_tx_kick (hist_end be r))"

definition hist_drop :: "'b backend \<Rightarrow> 'b radio \<Rightarrow> 'b radio" where
  "hist_drop be r =
     (if rd_hist_active r
      then hist_end be (r\<lparr>rd_hist_work := \<lparr>wk_queued = False, wk_at = None\<rparr>\<rparr>) else r)"

definition hist_budget_error :: "'b backend \<Rightarrow> 'b radio \<Rightarrow> 'b radio" where
  "hist_budget_error be r =
     (case be_budget_error be (rd_hist_seq r) (app_radio_tx_answer_cap be r 16) of
        Some err \<Rightarrow> snd (app_radio_tx_queue K_ANSWER TAG_OTHER 0 err r)
      | None \<Rightarrow> r)"

text \<open>Build the next frame; \<open>Inl\<close>: the replay is over.\<close>

definition hist_build :: "'b backend \<Rightarrow> u8 \<Rightarrow> 'b radio \<Rightarrow> 'b radio + 'b radio" where
  "hist_build be budget r0 =
     (let r = (if rd_hist_bound r0 \<le> rd_hist_idx r0 then r0\<lparr>rd_hist_bound := - 1\<rparr> else r0);
          cap = min (hist_frame_cap be r budget) APP_CMD_HISTORY_FRAME_BUF_SIZE;
          (samples, t0, synced, n, next) =
            (if 0 < cap
             then be_hist_export be (rd_env r) (rd_hist_from r) (rd_hist_to r)
                    (rd_hist_cursor r) (rd_hist_end r) cap
             else ([], 0, False, 0, rd_hist_cursor r));
          r = r\<lparr>rd_hist_next := next\<rparr>
      in if n = 0
         then Inl (hist_finish be
                (if rd_hist_end r \<le> next then r else hist_budget_error be r))
         else (case be_hist_frame be (rd_hist_layout r) (rd_hist_seq r) (rd_hist_idx r)
                      (rd_hist_count r) t0 synced samples of
                 None \<Rightarrow> Inl (hist_finish be r)
               | Some buf \<Rightarrow> Inr (r\<lparr>rd_hist_buf := buf, rd_hist_n := n\<rparr>)))"

definition hist_frame_of :: "radio_cfg \<Rightarrow> 'b backend \<Rightarrow> 'b radio \<Rightarrow> radio_frame" where
  "hist_frame_of cfg be r =
     \<lparr>fr_kind = K_HISTORY, fr_tag = TAG_OTHER, fr_port = 0,
      fr_confirmed = kind_confirmed cfg be K_HISTORY, fr_link_check = False, fr_more = False,
      fr_attempt = 0, fr_buf = rd_hist_buf r\<rparr>"

text \<open>The frame of this run: as built when it waits for its Ack retry, else built now.\<close>

definition hist_prepare :: "'b backend \<Rightarrow> 'b radio \<Rightarrow> 'b radio + 'b radio" where
  "hist_prepare be r =
     (if rd_ack_pending r \<and> rd_ack_kind r = K_HISTORY then Inr r
      else (let budget = be_budget be (rd_env r);
                r = r\<lparr>rd_hist_buf := [], rd_hist_n := 0, rd_hist_next := rd_hist_cursor r\<rparr>
            in if 0 < budget then hist_build be budget r else Inr r))"

definition hist_sent :: "'b backend \<Rightarrow> 'b radio \<Rightarrow> 'b radio" where
  "hist_sent be r0 =
     (let r = app_radio_note_uplink (r0\<lparr>rd_hist_retries := 0\<rparr>);
          r = r\<lparr>rd_replayed := rd_replayed r
                  @ [(rd_hist_idx r, rd_hist_cursor r, rd_hist_next r, rd_hist_buf r)],
                rd_hist_cursor := rd_hist_next r, rd_hist_idx := rd_hist_idx r + 1\<rparr>
      in if rd_hist_cursor r < rd_hist_end r then hist_schedule HIST_FRAME_GAP_MS r
         else hist_finish be r)"

definition hist_again :: "'b backend \<Rightarrow> u32 \<Rightarrow> 'b radio \<Rightarrow> 'b radio" where
  "hist_again be delay r0 =
     (let r = r0\<lparr>rd_hist_retries := rd_hist_retries r0 + 1\<rparr>
      in if TX_MAX_RETRIES < rd_hist_retries r then hist_finish be r
         else hist_schedule delay (count_retry r))"

definition hist_settle :: "'b backend \<Rightarrow> tx_ret \<Rightarrow> tx_result \<Rightarrow> 'b radio \<Rightarrow> 'b radio" where
  "hist_settle be ret res r =
     (case ret of
        TX_OK \<Rightarrow> hist_sent be r
      | TX_ERR EBUSY \<Rightarrow> r
      | TX_ERR ENOTCONN \<Rightarrow> hist_finish be r
      | TX_ACK_RETRY \<Rightarrow> hist_schedule (tr_wait res) r
      | TX_ERR EAGAIN \<Rightarrow>
          hist_again be (if tr_wait res \<noteq> 0 then tr_wait res else TX_RETRY_MS) r
      | TX_ERR _ \<Rightarrow> hist_again be TX_RETRY_MS r)"

definition hist_work_handler :: "radio_cfg \<Rightarrow> 'b backend \<Rightarrow> 'b radio \<Rightarrow> 'b radio" where
  "hist_work_handler cfg be r =
     (if \<not> rd_hist_active r then r
      else if \<not> be_tx_ready be (rd_env r) then hist_finish be r
      else (case hist_prepare be r of
              Inl r \<Rightarrow> r
            | Inr r \<Rightarrow>
                (let (ret, res, r) = tx_send cfg be (hist_frame_of cfg be r) r;
                     ret = (if ret = TX_OK \<and> rd_hist_buf r = [] then TX_ERR EAGAIN else ret)
                 in hist_settle be ret res r)))"

definition app_radio_history_replay_start ::
  "'b backend \<Rightarrow> u32 \<Rightarrow> u32 \<Rightarrow> u32 \<Rightarrow> 'b radio \<Rightarrow> errno option \<times> 'b radio" where
  "app_radio_history_replay_start be from_unix to_unix seq r0 =
     (if \<not> be_tx_ready be (rd_env r0) then (Some EAGAIN, r0)
      else if rd_hist_active r0 then (None, r0)
      else (let r = r0\<lparr>rd_hist_from := from_unix, rd_hist_to := to_unix, rd_hist_seq := seq,
                       rd_hist_layout := rd_env r0, rd_hist_bound := - 1, rd_replayed := []\<rparr>;
                budget = (if be_budget be (rd_env r) = 0 then - 1 else be_budget be (rd_env r));
                cap = hist_frame_cap be r budget;
                n = (if 0 < cap then be_hist_count be (rd_env r) from_unix to_unix cap else 0);
                (n, r) =
                  (if 0 < n
                   then (let r = r\<lparr>rd_hist_bound := n\<rparr>
                         in (be_hist_count be (rd_env r) from_unix to_unix (hist_frame_cap be r budget), r))
                   else (n, r))
            in if n = 0
               then (if 0 < be_hist_count be (rd_env r) from_unix to_unix APP_CMD_HISTORY_FRAME_BUF_SIZE
                     then (Some EMSGSIZE, r) else (Some ENODATA, r))
               else (let (start, last_end) = be_hist_span be (rd_env r);
                         r = r\<lparr>rd_hist_count := n, rd_hist_idx := 0, rd_hist_cursor := start,
                               rd_hist_end := last_end, rd_hist_retries := 0, rd_hist_active := True,
                               rd_env := be_replay_active be True (rd_env r)\<rparr>
                     in (None, hist_schedule 0 r))))"

end
