(* ===== verification/RadioSched.thy ===== *)
theory RadioSched
  imports RadioReplay
begin

text \<open>
  The scheduler of \<open>src/app/src/app_radio.c\<close>: \<open>tx_work_handler\<close> and the steps it takes, and the
  link-up.  \<open>radio_step\<close> is one thing that happens to the module on the radio work queue: a
  scheduler run, a replay run, a frame queued by another module, a telemetry request, a link-up, time passing.
\<close>

subsection \<open>Over-budget frames\<close>

text \<open>\<open>seq\<close> of an encoded response: a varint from byte 2, seven bits a byte.\<close>

fun seq_varint :: "bytes \<Rightarrow> nat \<Rightarrow> u32 \<Rightarrow> u32" where
  "seq_varint [] shift seq = seq"
| "seq_varint (b # bs) shift seq =
     (if 32 \<le> shift then seq
      else (let seq = seq OR push_bit shift (ucast (b AND 0x7f))
            in if b AND 0x80 = 0 then seq else seq_varint bs (shift + 7) seq))"

definition response_seq :: "tx_slot \<Rightarrow> u32" where
  "response_seq tx =
     (if length (ts_buf tx) < 2 \<or> ts_buf tx ! 1 \<noteq> 0x08 then 0
      else seq_varint (drop 2 (ts_buf tx)) 0 0)"

definition rearm :: "'b backend \<Rightarrow> bool \<Rightarrow> 'b radio \<Rightarrow> 'b radio" where
  "rearm be settings r = r\<lparr>rd_env := be_rearm be settings (rd_env r)\<rparr>"

definition recover_over_budget ::
  "'b backend \<Rightarrow> tx_slot \<Rightarrow> frame_kind \<Rightarrow> u8 \<Rightarrow> 'b radio \<Rightarrow> tx_slot option \<times> 'b radio" where
  "recover_over_budget be tx kind budget r =
     (if kind = K_ALARM then (None, r)
      else (case ts_tag tx of
              TAG_INFO \<Rightarrow> (None, rearm be False r)
            | TAG_SETTINGS \<Rightarrow> (None, rearm be True r)
            | TAG_CMD_RESPONSE \<Rightarrow>
                (case be_budget_error be (response_seq tx)
                        (min (unat budget) APP_RADIO_TX_SLOT_SIZE) of
                   Some buf \<Rightarrow> (Some (tx\<lparr>ts_buf := buf, ts_tag := TAG_OTHER\<rparr>), r)
                 | None \<Rightarrow> (None, r))
            | TAG_OTHER \<Rightarrow> (None, r)))"

subsection \<open>The queued frames\<close>

definition backoff_yield_to_alarm :: "'b radio \<Rightarrow> 'b radio" where
  "backoff_yield_to_alarm r =
     (if rd_alarm_q r = [] then r
      else (let (backoff, r) = app_radio_backoff_wait_ms r
            in if backoff = 0 then r
               else (let full = (rd_cur_valid r \<and> rd_cur_kind r = K_ANSWER
                                 \<and> APP_RADIO_TX_QUEUE_DEPTH \<le> length (rd_answer_q r));
                         r1 = (if rd_cur_valid r \<and> rd_cur_kind r = K_ANSWER
                               then r\<lparr>rd_answer_q := rd_cur r # rd_answer_q r, rd_cur_valid := False\<rparr>
                               else r)
                     in if full then r
                        else if rd_ack_pending r1 \<and> rd_ack_kind r1 \<noteq> K_ALARM
                        then ack_release (rd_ack_kind r1) r1
                        else r1)))"

text \<open>\<open>app_alarm_flush_held()\<close>: the batches held for room, queued one after another.\<close>

definition flush_held :: "'b backend \<Rightarrow> 'b radio \<Rightarrow> 'b radio" where
  "flush_held be r =
     (let (bs, e) = be_flush_held be (rd_env r)
      in fold (\<lambda>b r. snd (app_radio_tx_queue K_ALARM TAG_OTHER 0 b r)) bs (r\<lparr>rd_env := e\<rparr>))"

definition take_cur :: "'b backend \<Rightarrow> frame_kind \<Rightarrow> tx_slot \<Rightarrow> 'b radio \<Rightarrow> 'b radio" where
  "take_cur be kind slot r =
     (let r = r\<lparr>rd_cur := slot, rd_cur_kind := kind, rd_cur_valid := True, rd_cur_retries := 0\<rparr>
      in if kind = K_ALARM then flush_held be r else r)"

text \<open>Take the next frame off its queue; \<open>Inl stop\<close> ends the step with that answer.\<close>

definition pick_cur :: "'b backend \<Rightarrow> 'b radio \<Rightarrow> (bool \<times> 'b radio) + 'b radio" where
  "pick_cur be r =
     (if rd_cur_valid r then Inr r
      else (let (backoff, r) = app_radio_backoff_wait_ms r
            in case rd_answer_q r of
                 a # as \<Rightarrow>
                   (if backoff = 0 then Inr (take_cur be K_ANSWER a (r\<lparr>rd_answer_q := as\<rparr>))
                    else (case rd_alarm_q r of
                            b # bs \<Rightarrow> Inr (take_cur be K_ALARM b (r\<lparr>rd_alarm_q := bs\<rparr>))
                          | [] \<Rightarrow> Inl (True, tx_schedule (word_of_int backoff + TX_DUTY_MARGIN_MS)
                                              (stale_note_hold backoff r))))
               | [] \<Rightarrow>
                   (case rd_alarm_q r of
                      b # bs \<Rightarrow> Inr (take_cur be K_ALARM b (r\<lparr>rd_alarm_q := bs\<rparr>))
                    | [] \<Rightarrow> Inl (False, r))))"

definition cur_frame :: "radio_cfg \<Rightarrow> 'b backend \<Rightarrow> 'b radio \<Rightarrow> radio_frame" where
  "cur_frame cfg be r =
     \<lparr>fr_kind = rd_cur_kind r, fr_tag = ts_tag (rd_cur r), fr_port = ts_port (rd_cur r),
      fr_confirmed = kind_confirmed cfg be (rd_cur_kind r), fr_link_check = False,
      fr_more = False, fr_attempt = 0, fr_buf = ts_buf (rd_cur r)\<rparr>"

definition cur_done :: "slot_fate \<Rightarrow> 'b radio \<Rightarrow> 'b radio" where
  "cur_done fate r =
     r\<lparr>rd_cur_valid := False, rd_out := rd_out r @ [(rd_cur_kind r, rd_cur r, fate)]\<rparr>"

text \<open>The rule for a send result of a queued frame.\<close>

definition cur_settle :: "'b backend \<Rightarrow> tx_ret \<Rightarrow> tx_result \<Rightarrow> 'b radio \<Rightarrow> 'b radio" where
  "cur_settle be ret res r =
     (case ret of
        TX_OK \<Rightarrow> tx_schedule 0 (cur_done F_sent r)
      | TX_ERR EMSGSIZE \<Rightarrow>
          (case recover_over_budget be (rd_cur r) (rd_cur_kind r) (tr_budget res) r of
             (Some slot, r) \<Rightarrow> tx_schedule 0 (r\<lparr>rd_cur := slot\<rparr>)
           | (None, r) \<Rightarrow> tx_schedule 0 (cur_done F_dropped r))
      | TX_ERR EBUSY \<Rightarrow> r
      | TX_ERR ENOTCONN \<Rightarrow> r
      | TX_ERR EAGAIN \<Rightarrow> tx_schedule (if tr_wait res \<noteq> 0 then tr_wait res else TX_RETRY_MS) r
      | TX_ACK_RETRY \<Rightarrow> tx_schedule (tr_wait res) r
      | TX_ERR _ \<Rightarrow>
          (let r = r\<lparr>rd_cur_retries := rd_cur_retries r + 1\<rparr>
           in if TX_MAX_RETRIES < rd_cur_retries r
              then tx_schedule 0 (ack_release (rd_cur_kind r) (cur_done F_dropped r))
              else tx_schedule TX_RETRY_MS (count_retry r)))"

definition tx_queued_step :: "radio_cfg \<Rightarrow> 'b backend \<Rightarrow> 'b radio \<Rightarrow> bool \<times> 'b radio" where
  "tx_queued_step cfg be r =
     (let r = backoff_yield_to_alarm r
      in if rd_ack_pending r \<and> rd_ack_kind r = K_TELEMETRY then (False, r)
         else (case pick_cur be r of
                 Inl stop \<Rightarrow> stop
               | Inr r \<Rightarrow>
                   (let (ret, res, r) = tx_send cfg be (cur_frame cfg be r) r
                    in (True, cur_settle be ret res r))))"

subsection \<open>The report\<close>

definition tlm_close :: "'b backend \<Rightarrow> bool \<Rightarrow> 'b radio \<Rightarrow> 'b radio" where
  "tlm_close be reset_snapshot r =
     ack_release K_TELEMETRY
       ((if reset_snapshot then r\<lparr>rd_env := be_compose_reset be (rd_env r)\<rparr> else r)
        \<lparr>rd_tlm_open := False, rd_tlm_frame := False\<rparr>)"

definition tlm_held_long :: "radio_cfg \<Rightarrow> 'b radio \<Rightarrow> bool" where
  "tlm_held_long cfg r \<longleftrightarrow> cfg_interval_report cfg * 1000 \<le> rd_now r - rd_tlm_open_ms r"

text \<open>Budget 0: an empty frame lets the MAC drain its answers.\<close>

definition tlm_flush :: "radio_cfg \<Rightarrow> 'b backend \<Rightarrow> 'b radio \<Rightarrow> 'b radio" where
  "tlm_flush cfg be r =
     (let f = \<lparr>fr_kind = K_TELEMETRY, fr_tag = TAG_OTHER, fr_port = 0, fr_confirmed = False,
               fr_link_check = False, fr_more = False, fr_attempt = 0, fr_buf = []\<rparr>;
          (ret, res, r) = tx_send cfg be f r
      in if ret = TX_ERR EBUSY then r
         else if ret = TX_ERR EAGAIN \<and> tr_held res \<and> \<not> tlm_held_long cfg r
         then tx_schedule (tr_wait res) r
         else tlm_close be (\<not> rd_tlm_first r) r)"

definition tlm_begin :: "'b radio \<Rightarrow> 'b radio" where
  "tlm_begin r =
     r\<lparr>rd_tlm_requested := False, rd_tlm_open := True, rd_tlm_open_ms := rd_now r,
       rd_tlm_first := True, rd_tlm_frame := False\<rparr>"

text \<open>Compose the next frame; \<open>Inl\<close> ends the step.\<close>

definition tlm_compose :: "radio_cfg \<Rightarrow> 'b backend \<Rightarrow> 'b radio \<Rightarrow> 'b radio + 'b radio" where
  "tlm_compose cfg be r =
     (if rd_tlm_frame r then Inr r
      else (let (cr, e) = be_compose be (be_budget be (rd_env r)) (rd_env r);
                r = r\<lparr>rd_env := e\<rparr>
            in case cr of
                 CMP_EAGAIN \<Rightarrow> Inl (tlm_flush cfg be r)
               | CMP_ERR \<Rightarrow> Inl (tlm_close be False r)
               | CMP_OK buf mr \<Rightarrow>
                   (let r = r\<lparr>rd_tlm_buf := buf, rd_tlm_more := mr\<rparr>
                    in if buf = [] then Inl (tlm_close be False r)
                       else (let r = (if rd_tlm_first r
                                      then (let (fl, r) = report_flags cfg be r
                                            in r\<lparr>rd_tlm_flags := fl\<rparr>)
                                      else r)
                             in Inr (r\<lparr>rd_tlm_frame := True, rd_tlm_retries := 0\<rparr>)))))"

definition tlm_frame_of :: "'b radio \<Rightarrow> radio_frame" where
  "tlm_frame_of r =
     \<lparr>fr_kind = K_TELEMETRY, fr_tag = TAG_OTHER, fr_port = 0,
      fr_confirmed = rf_confirmed (rd_tlm_flags r),
      fr_link_check = rf_link_check (rd_tlm_flags r) \<and> rd_tlm_first r,
      fr_more = rd_tlm_more r, fr_attempt = 0, fr_buf = rd_tlm_buf r\<rparr>"

text \<open>The frame is done with (\<open>sent\<close>, or dropped over budget): the next one, or the end.\<close>

definition tlm_next :: "'b backend \<Rightarrow> bool \<Rightarrow> 'b radio \<Rightarrow> 'b radio" where
  "tlm_next be sent r =
     (let r = r\<lparr>rd_tlm_frame := False, rd_tlm_first := False\<rparr>
      in if rd_tlm_more r then tx_schedule (be_frame_gap be) r
         else (let r = (if sent
                        then r\<lparr>rd_link := (rd_link r)\<lparr>lk_reports := lk_reports (rd_link r) + 1\<rparr>,
                               rd_tlm_done_ms := rd_now r, rd_tlm_done_valid := True\<rparr>
                        else r);
                   r = tlm_close be False r
               in if rd_tlm_requested r then tx_schedule (be_frame_gap be) r else r))"

definition tlm_settle :: "radio_cfg \<Rightarrow> 'b backend \<Rightarrow> tx_ret \<Rightarrow> tx_result \<Rightarrow> 'b radio \<Rightarrow> 'b radio" where
  "tlm_settle cfg be ret res r =
     (case ret of
        TX_OK \<Rightarrow> tlm_next be True (r\<lparr>rd_last_uplink := rd_now r\<rparr>)
      | TX_ERR EMSGSIZE \<Rightarrow> tlm_next be False r
      | TX_ERR EBUSY \<Rightarrow> r
      | TX_ERR ENOTCONN \<Rightarrow> tlm_close be True r
      | TX_ACK_RETRY \<Rightarrow> tx_schedule (tr_wait res) r
      | TX_ERR EAGAIN \<Rightarrow>
          (if tlm_held_long cfg r then tlm_close be True r
           else tx_schedule (if tr_wait res \<noteq> 0 then tr_wait res else TX_RETRY_MS) r)
      | TX_ERR _ \<Rightarrow>
          (let r = r\<lparr>rd_tlm_retries := rd_tlm_retries r + 1\<rparr>
           in if TX_MAX_RETRIES < rd_tlm_retries r then tlm_close be True r
              else tx_schedule TX_RETRY_MS (count_retry r)))"

definition tlm_step :: "radio_cfg \<Rightarrow> 'b backend \<Rightarrow> 'b radio \<Rightarrow> 'b radio" where
  "tlm_step cfg be r =
     (if \<not> rd_tlm_open r \<and> (\<not> rd_tlm_requested r \<or> rd_hist_active r) then r
      else (let r = (if rd_tlm_open r then r else tlm_begin r)
            in case tlm_compose cfg be r of
                 Inl r \<Rightarrow> r
               | Inr r \<Rightarrow>
                   (let (ret, res, r) = (if cfg_tx_mute cfg then (TX_ERR EIO, tx_result0, r)
                                         else tx_send cfg be (tlm_frame_of r) r)
                    in tlm_settle cfg be ret res r)))"

definition tx_work_handler :: "radio_cfg \<Rightarrow> 'b backend \<Rightarrow> 'b radio \<Rightarrow> 'b radio" where
  "tx_work_handler cfg be r =
     (if cfg_calibration cfg then r
      else if \<not> be_tx_ready be (rd_env r)
      then (if rd_tlm_open r then tlm_close be True r else r)
      else (let (done, r) = tx_queued_step cfg be r
            in if done then r else tlm_step cfg be r))"

subsection \<open>Link-up, and what happens to the module\<close>

definition time_request_run :: "'b backend \<Rightarrow> 'b radio \<Rightarrow> 'b radio" where
  "time_request_run be r =
     r\<lparr>rd_time_wanted := True, rd_env := be_time_request be (rd_env r)\<rparr>"

definition app_radio_link_up :: "'b backend \<Rightarrow> 'b radio \<Rightarrow> 'b radio" where
  "app_radio_link_up be r0 =
     (let r = hist_drop be r0;
          r = link_clear (r\<lparr>rd_ack_pending := False\<rparr>);
          r = r\<lparr>rd_link := (rd_link r)\<lparr>lk_reports := 0\<rparr>, rd_link_forced := False,
                rd_last_uplink := max (rd_now r) 1, rd_dc := stale_dc0\<rparr>
      in if be_time_unset be (rd_env r) then time_request_run be r else r)"

text \<open>A run starts: the item leaves the queue, or its time has come.\<close>

definition tx_due :: "'b radio \<Rightarrow> bool" where
  "tx_due r \<longleftrightarrow> wk_queued (rd_tx_work r)
     \<or> (case wk_at (rd_tx_work r) of Some t \<Rightarrow> t \<le> rd_now r | None \<Rightarrow> False)"

definition tx_dequeue :: "'b radio \<Rightarrow> 'b radio" where
  "tx_dequeue r =
     r\<lparr>rd_tx_work := (if wk_queued (rd_tx_work r) then (rd_tx_work r)\<lparr>wk_queued := False\<rparr>
                      else (rd_tx_work r)\<lparr>wk_at := None\<rparr>)\<rparr>"

definition hist_due :: "'b radio \<Rightarrow> bool" where
  "hist_due r \<longleftrightarrow> wk_queued (rd_hist_work r)
     \<or> (case wk_at (rd_hist_work r) of Some t \<Rightarrow> t \<le> rd_now r | None \<Rightarrow> False)"

definition hist_dequeue :: "'b radio \<Rightarrow> 'b radio" where
  "hist_dequeue r =
     r\<lparr>rd_hist_work := (if wk_queued (rd_hist_work r) then (rd_hist_work r)\<lparr>wk_queued := False\<rparr>
                        else (rd_hist_work r)\<lparr>wk_at := None\<rparr>)\<rparr>"

datatype radio_ev =
    EV_run
  | EV_hist_run
  | EV_replay u32 u32 u32
  | EV_time nat
  | EV_queue frame_kind frame_tag u8 bytes
  | EV_request
  | EV_kick
  | EV_link_up
  | EV_link_result bool
  | EV_stale_tick
  | EV_force_check
  | EV_backoff u32

fun radio_step :: "radio_cfg \<Rightarrow> 'b backend \<Rightarrow> radio_ev \<Rightarrow> 'b radio \<Rightarrow> 'b radio" where
  "radio_step cfg be EV_run r = (if tx_due r then tx_work_handler cfg be (tx_dequeue r) else r)"
| "radio_step cfg be EV_hist_run r =
     (if hist_due r then hist_work_handler cfg be (hist_dequeue r) else r)"
| "radio_step cfg be (EV_replay from to seq) r =
     snd (app_radio_history_replay_start be from to seq r)"
| "radio_step cfg be (EV_time dt) r = r\<lparr>rd_now := rd_now r + int dt\<rparr>"
| "radio_step cfg be (EV_queue kind tag port buf) r = snd (app_radio_tx_queue kind tag port buf r)"
| "radio_step cfg be EV_request r = tx_request_telemetry r"
| "radio_step cfg be EV_kick r = app_radio_tx_kick r"
| "radio_step cfg be EV_link_up r = app_radio_link_up be r"
| "radio_step cfg be (EV_link_result ok) r = app_radio_link_result cfg be ok r"
| "radio_step cfg be EV_stale_tick r = stale_tick cfg be r"
| "radio_step cfg be EV_force_check r = app_radio_force_link_check r"
| "radio_step cfg be (EV_backoff s) r = app_radio_backoff_set s r"

end
