(* ===== verification/RadioFrame.thy ===== *)
theory RadioFrame
  imports RadioSched
begin

text \<open>
  What each operation of the radio module leaves alone.  \<open>core_eq\<close> is equality on the fields the
  queues, the confirmed ladder and the paths are about; \<open>grow\<close> allows frames to be queued
  behind those already there, which is what happens while the backend sends.
\<close>

definition core_eq :: "'b radio \<Rightarrow> 'b radio \<Rightarrow> bool" where
  "core_eq r r' \<longleftrightarrow>
     rd_in r' = rd_in r \<and> rd_out r' = rd_out r \<and> rd_answer_q r' = rd_answer_q r
     \<and> rd_alarm_q r' = rd_alarm_q r \<and> rd_cur r' = rd_cur r \<and> rd_cur_kind r' =
     rd_cur_kind r \<and> rd_cur_valid r' = rd_cur_valid r \<and> rd_cur_retries r' =
     rd_cur_retries r \<and> rd_ack_pending r' = rd_ack_pending r \<and> rd_ack_kind r' =
     rd_ack_kind r \<and> rd_ack_retries r' = rd_ack_retries r \<and> rd_tlm_open r' =
     rd_tlm_open r \<and> rd_tlm_frame r' = rd_tlm_frame r \<and> rd_tlm_retries r' =
     rd_tlm_retries r \<and> rd_tlm_buf r' = rd_tlm_buf r \<and> rd_hist_active r' =
     rd_hist_active r \<and> rd_hist_retries r' = rd_hist_retries r \<and> rd_hist_buf r' =
     rd_hist_buf r \<and> rd_air r' = rd_air r"

text \<open>The paths' own fields, and those of the confirmed ladder.\<close>

definition own_eq :: "'b radio \<Rightarrow> 'b radio \<Rightarrow> bool" where
  "own_eq r r' \<longleftrightarrow>
     rd_out r' = rd_out r \<and> rd_cur r' = rd_cur r \<and> rd_cur_kind r' = rd_cur_kind r
     \<and> rd_cur_valid r' = rd_cur_valid r \<and> rd_cur_retries r' = rd_cur_retries r
     \<and> rd_tlm_open r' = rd_tlm_open r \<and> rd_tlm_frame r' = rd_tlm_frame r \<and>
     rd_tlm_retries r' = rd_tlm_retries r \<and> rd_tlm_buf r' = rd_tlm_buf r \<and>
     rd_hist_active r' = rd_hist_active r \<and> rd_hist_retries r' = rd_hist_retries r
     \<and> rd_hist_buf r' = rd_hist_buf r"

definition ack_eq :: "'b radio \<Rightarrow> 'b radio \<Rightarrow> bool" where
  "ack_eq r r' \<longleftrightarrow>
     rd_ack_pending r' = rd_ack_pending r \<and> rd_ack_kind r' = rd_ack_kind r \<and>
     rd_ack_retries r' = rd_ack_retries r \<and> rd_air r' = rd_air r"

definition of_kind :: "frame_kind \<Rightarrow> (frame_kind \<times> tx_slot) list \<Rightarrow> tx_slot list" where
  "of_kind k xs = map snd (filter (\<lambda>p. fst p = k) xs)"

definition own_grow :: "'b radio \<Rightarrow> 'b radio \<Rightarrow> bool" where
  "own_grow r r' \<longleftrightarrow> own_eq r r'
     \<and> (\<exists>as. rd_answer_q r' = rd_answer_q r @ as
          \<and> of_kind K_ANSWER (rd_in r') = of_kind K_ANSWER (rd_in r) @ as)
     \<and> (\<exists>bs. rd_alarm_q r' = rd_alarm_q r @ bs
          \<and> of_kind K_ALARM (rd_in r') = of_kind K_ALARM (rd_in r) @ bs)
     \<and> (length (rd_answer_q r) \<le> 4 \<longrightarrow> length (rd_answer_q r') \<le> 4)
     \<and> (length (rd_alarm_q r) \<le> 4 \<longrightarrow> length (rd_alarm_q r') \<le> 4)"

definition grow :: "'b radio \<Rightarrow> 'b radio \<Rightarrow> bool" where
  "grow r r' \<longleftrightarrow> own_grow r r' \<and> ack_eq r r'"

lemmas core_eqD = core_eq_def [THEN iffD1]

lemma core_eq_refl [simp]: "core_eq r r"
  by (simp add: core_eq_def)

lemma core_eq_trans: "core_eq r s \<Longrightarrow> core_eq s t \<Longrightarrow> core_eq r t"
  by (simp add: core_eq_def)

lemma own_eq_trans: "own_eq r s \<Longrightarrow> own_eq s t \<Longrightarrow> own_eq r t"
  by (simp add: own_eq_def)

lemma of_kind_append [simp]: "of_kind k (xs @ ys) = of_kind k xs @ of_kind k ys"
  by (simp add: of_kind_def)

lemma own_grow_refl [simp]: "own_grow r r"
  by (simp add: own_grow_def own_eq_def)

lemma own_grow_trans: "own_grow r s \<Longrightarrow> own_grow s t \<Longrightarrow> own_grow r t"
  unfolding own_grow_def by (auto intro: own_eq_trans)

lemma grow_refl [simp]: "grow r r"
  by (simp add: grow_def ack_eq_def)

lemma grow_trans: "grow r s \<Longrightarrow> grow s t \<Longrightarrow> grow r t"
  unfolding grow_def by (auto intro: own_grow_trans simp: ack_eq_def)

lemma core_eq_grow: "core_eq r s \<Longrightarrow> grow r s"
  by (auto simp: grow_def own_grow_def own_eq_def ack_eq_def core_eq_def)

lemma grow_own: "grow r s \<Longrightarrow> own_grow r s"
  by (simp add: grow_def)

lemma core_eq_own: "core_eq r s \<Longrightarrow> own_grow r s"
  by (rule grow_own [OF core_eq_grow])

subsection \<open>The small operations\<close>

lemma core_duty_wait: "core_eq r (snd (app_radio_duty_wait_ms a r))"
  by (simp add: app_radio_duty_wait_ms_def app_radio_set_duty_held_def core_eq_def split_def Let_def)

lemma core_duty_charge: "core_eq r (app_radio_duty_charge a r)"
  by (simp add: app_radio_duty_charge_def app_radio_set_duty_held_def core_eq_def)

lemma core_backoff_set: "core_eq r (app_radio_backoff_set s r)"
  by (simp add: app_radio_backoff_set_def core_eq_def Let_def)

lemma core_backoff_wait: "core_eq r (snd (app_radio_backoff_wait_ms r))"
  by (simp add: app_radio_backoff_wait_ms_def core_eq_def Let_def)

lemma core_notes:
  "core_eq r (app_radio_note_send s h r)" "core_eq r (stale_note_hold w r)"
  "core_eq r (app_radio_note_uplink r)" "core_eq r (count_retry r)"
  "core_eq r (tx_schedule d r)" "core_eq r (tx_work_kick r)" "core_eq r (hist_work_kick r)"
  "core_eq r (app_radio_tx_kick r)" "core_eq r (tx_request_telemetry r)"
  "core_eq r (link_set_streak n r)" "core_eq r (link_clear r)"
  "core_eq r (app_radio_force_link_check r)" "core_eq r (hist_schedule d r)"
  "core_eq r (ready_kick be r)" "core_eq r (rearm be st r)" "core_eq r (time_request_run be r)"
  "core_eq r (tx_dequeue r)" "core_eq r (hist_dequeue r)"
  by (simp_all add: app_radio_note_send_def stale_note_hold_def app_radio_note_uplink_def
      count_retry_def tx_schedule_def tx_work_kick_def hist_work_kick_def app_radio_tx_kick_def
      tx_request_telemetry_def link_set_streak_def link_clear_def app_radio_force_link_check_def
      hist_schedule_def ready_kick_def rearm_def time_request_run_def tx_dequeue_def
      hist_dequeue_def core_eq_def Let_def)

lemma core_warning_step: "core_eq r (snd (warning_step be r))"
  by (simp add: warning_step_def core_eq_def split_def Let_def)

lemma core_link_result: "core_eq r (app_radio_link_result cfg be ok r)"
  by (simp add: app_radio_link_result_def warning_step_def link_clear_def link_set_streak_def
      core_eq_def split_def Let_def)

lemma core_report_flags: "core_eq r (snd (report_flags cfg be r))"
  by (simp add: report_flags_def core_eq_def split_def Let_def)

lemma core_stale_tick: "core_eq r (stale_tick cfg be r)"
  by (simp add: stale_tick_def core_eq_def split_def split: app_radio_stale.split)

lemma core_ack_backoff: "core_eq r (snd (ack_backoff be r))"
  by (simp add: ack_backoff_def core_eq_def split_def Let_def)

lemma core_tx_hold: "core_eq r (snd (tx_hold be f r))"
proof -
  have "core_eq r (snd (app_radio_backoff_wait_ms (snd (app_radio_duty_wait_ms a r))))" for a
    by (rule core_eq_trans [OF core_duty_wait core_backoff_wait])
  then show ?thesis by (simp add: tx_hold_def split_def Let_def core_duty_wait)
qed

lemmas core_ops = core_duty_wait core_duty_charge core_backoff_set core_backoff_wait core_notes
  core_warning_step core_link_result core_report_flags core_stale_tick core_ack_backoff core_tx_hold

lemmas core_simps [simp] = core_ops [THEN core_eqD]

subsection \<open>Queueing and sending\<close>

lemma tx_queue_grow: "grow r (snd (app_radio_tx_queue kind tag port buf r))"
proof -
  have "grow r s \<Longrightarrow> grow r (tx_schedule d s)" "grow r s \<Longrightarrow> grow r (app_radio_tx_kick s)"
    "grow r s \<Longrightarrow> grow r (snd (app_radio_backoff_wait_ms s))" for s d
    by (auto intro: grow_trans core_eq_grow core_ops)
  moreover have "grow r (r\<lparr>rd_in := rd_in r @ [(K_ALARM, x)], rd_alarm_q := rd_alarm_q r @ [x]\<rparr>)"
    if "length (rd_alarm_q r) < 4" for x
    using that by (auto simp: grow_def own_grow_def own_eq_def ack_eq_def of_kind_def)
  moreover have "grow r (r\<lparr>rd_in := rd_in r @ [(K_ANSWER, x)], rd_answer_q := rd_answer_q r @ [x]\<rparr>)"
    if "length (rd_answer_q r) < 4" for x
    using that by (auto simp: grow_def own_grow_def own_eq_def ack_eq_def of_kind_def)
  ultimately show ?thesis
    by (auto simp: app_radio_tx_queue_def APP_RADIO_TX_QUEUE_DEPTH_def Let_def split_def)
qed

lemma core_checked: "core_eq r (radio_callback cfg be (CB_checked air dt) r)"
proof -
  define s where "s = snd (app_radio_duty_wait_ms air r)"
  have "core_eq r s" by (simp add: s_def core_duty_wait)
  moreover have "core_eq s (app_radio_duty_charge air (s\<lparr>rd_now := n\<rparr>))" for n
    by (rule core_eq_trans [OF _ core_duty_charge]) (simp add: core_eq_def)
  ultimately show ?thesis by (auto simp: s_def split_def Let_def intro: core_eq_trans)
qed

lemma callback_grow: "grow r (radio_callback cfg be cb r)"
proof (cases cb)
  case (CB_checked air dt)
  then show ?thesis using core_eq_grow [OF core_checked] by blast
qed (auto intro: core_eq_grow core_ops tx_queue_grow simp: core_eq_def)

lemma callbacks_grow: "grow r (fold (radio_callback cfg be) cbs r)"
  by (induction cbs arbitrary: r) (auto intro: grow_trans callback_grow)

lemma flush_held_grow: "grow r (flush_held be r)"
proof -
  have "grow s (fold (\<lambda>b r. snd (app_radio_tx_queue K_ALARM TAG_OTHER 0 b r)) bs s)" for bs s
    by (induction bs arbitrary: s) (auto intro: grow_trans tx_queue_grow)
  moreover have "grow r (r\<lparr>rd_env := e\<rparr>)" for e
    by (rule core_eq_grow) (simp add: core_eq_def)
  ultimately show ?thesis by (auto simp: flush_held_def split_def Let_def intro: grow_trans)
qed

lemma backend_send_grow:
  assumes "backend_send cfg be f r = (ret, res, r')"
  obtains s where "grow r s" "r' = s\<lparr>rd_air := rd_air s @ [(f, ret)]\<rparr>"
proof -
  obtain cbs e where be: "be_send be f (rd_env r) = (ret, res, cbs, e)"
    using assms by (auto simp: backend_send_def split_def Let_def) (metis surjective_pairing)
  have "grow r (r\<lparr>rd_env := e\<rparr>)" by (rule core_eq_grow) (simp add: core_eq_def)
  then have "grow r (fold (radio_callback cfg be) cbs (r\<lparr>rd_env := e\<rparr>))"
    by (rule grow_trans) (rule callbacks_grow)
  moreover have "rd_air (fold (radio_callback cfg be) cbs (r\<lparr>rd_env := e\<rparr>)) = rd_air r"
    using calculation by (simp add: grow_def ack_eq_def)
  ultimately show ?thesis
    using assms be by (intro that) (auto simp: backend_send_def Let_def)
qed

text \<open>A frame held by the ledger or the backoff is not sent; an attempt sends it once.\<close>

lemma tx_attempt_cases:
  assumes "tx_attempt cfg be f r = (ret, res, r')"
  obtains (held) "core_eq r r'" "ret = Some EAGAIN" "tr_held res"
  | (sent) s where "grow r s" "r' = s\<lparr>rd_air := rd_air s @ [(f, ret)]\<rparr>"
proof -
  let ?h = "snd (tx_hold be f r)"
  have h: "grow r ?h" by (rule core_eq_grow [OF core_tx_hold])
  show ?thesis
  proof (cases "0 < fst (tx_hold be f r)")
    case True
    then have "core_eq r r'" "ret = Some EAGAIN" "tr_held res"
      using assms core_eq_trans [OF core_tx_hold core_notes(2)]
      by (auto simp: tx_attempt_def split_def Let_def)
    then show ?thesis by (rule held)
  next
    case False
    then have "backend_send cfg be f ?h = (ret, res, r')"
      using assms by (simp add: tx_attempt_def split_def Let_def)
    from backend_send_grow [OF this] obtain s where
      "grow ?h s" "r' = s\<lparr>rd_air := rd_air s @ [(f, ret)]\<rparr>" .
    then show ?thesis using sent grow_trans [OF h] by blast
  qed
qed

subsection \<open>Releasing the ladder\<close>

lemma ack_release_cases:
  obtains "ack_release k r = r" "\<not> (rd_ack_pending r \<and> rd_ack_kind r = k)"
  | "\<not> rd_ack_pending (ack_release k r)"
  by (cases "rd_ack_pending r \<and> rd_ack_kind r = k")
    (auto simp: ack_release_def Let_def)

lemma ack_release_released [simp]:
  "\<not> (rd_ack_pending (ack_release k r) \<and> rd_ack_kind (ack_release k r) = k)"
  by (cases rule: ack_release_cases [of k r]) auto

lemma ack_release_pendingD:
  "rd_ack_pending (ack_release k r) \<Longrightarrow> rd_ack_pending r \<and> rd_ack_kind r \<noteq> k"
  by (cases rule: ack_release_cases [of k r]) auto

lemma ack_release_own: "own_grow r (ack_release k r)"
  by (auto simp: ack_release_def own_grow_def own_eq_def Let_def)

lemma ack_release_own_eq:
  "own_eq r (ack_release k r)" "rd_answer_q (ack_release k r) = rd_answer_q r"
  "rd_alarm_q (ack_release k r) = rd_alarm_q r" "rd_in (ack_release k r) = rd_in r"
  "rd_air (ack_release k r) = rd_air r" "rd_ack_retries (ack_release k r) = rd_ack_retries r"
  "rd_ack_kind (ack_release k r) = rd_ack_kind r"
  by (auto simp: ack_release_def own_eq_def Let_def)

lemmas own_eqD = own_eq_def [THEN iffD1]
lemmas ack_release_simps [simp] = ack_release_own_eq(1) [THEN own_eqD] ack_release_own_eq(2-)

end
