(* ===== verification/RadioInv.thy ===== *)
theory RadioInv
  imports RadioFrame
begin

text \<open>
  The invariant of the radio module.  \<open>ladder\<close>: while a confirmed frame waits for its retry, its
  path still holds it, byte for byte, and no other frame went on the air since.  \<open>fifo\<close>: every
  frame taken into a queue is, in the order of arrival, among the frames that left, the current
  frame or the queue.  \<open>limits\<close>: the queues and the retry counters stay within their bounds.
\<close>

definition path_holds :: "frame_kind \<Rightarrow> 'b radio \<Rightarrow> bool" where
  "path_holds k r = (case k of
     K_ANSWER \<Rightarrow> rd_cur_valid r \<and> rd_cur_kind r = K_ANSWER
   | K_ALARM \<Rightarrow> rd_cur_valid r \<and> rd_cur_kind r = K_ALARM
   | K_TELEMETRY \<Rightarrow> rd_tlm_open r \<and> rd_tlm_frame r
   | K_HISTORY \<Rightarrow> rd_hist_active r)"

definition path_buf :: "frame_kind \<Rightarrow> 'b radio \<Rightarrow> bytes" where
  "path_buf k r = (case k of
     K_TELEMETRY \<Rightarrow> rd_tlm_buf r | K_HISTORY \<Rightarrow> rd_hist_buf r | _ \<Rightarrow> ts_buf (rd_cur r))"

definition ladder :: "'b radio \<Rightarrow> bool" where
  "ladder r \<longleftrightarrow> (rd_ack_pending r \<longrightarrow>
     path_holds (rd_ack_kind r) r \<and> 1 \<le> rd_ack_retries r \<and> rd_ack_retries r \<le> 3
     \<and> rd_air r \<noteq> [] \<and> fr_kind (fst (last (rd_air r))) = rd_ack_kind r
     \<and> fr_buf (fst (last (rd_air r))) = path_buf (rd_ack_kind r) r
     \<and> fr_confirmed (fst (last (rd_air r))))"

definition limits :: "'b radio \<Rightarrow> bool" where
  "limits r \<longleftrightarrow> length (rd_answer_q r) \<le> 4 \<and> length (rd_alarm_q r) \<le> 4
     \<and> (rd_cur_valid r \<longrightarrow> rd_cur_retries r \<le> 8 \<and> (rd_cur_kind r = K_ANSWER \<or> rd_cur_kind r = K_ALARM))
     \<and> (rd_tlm_frame r \<longrightarrow> rd_tlm_open r \<and> rd_tlm_retries r \<le> 8)
     \<and> (rd_hist_active r \<longrightarrow> rd_hist_retries r \<le> 8)"

text \<open>A command answer may leave as the over-budget error that carries its \<open>seq\<close>.\<close>

definition answers_as :: "'b backend \<Rightarrow> tx_slot \<Rightarrow> tx_slot \<Rightarrow> bool" where
  "answers_as be s s' \<longleftrightarrow> s' = s \<or> (\<exists>n. ts_tag s = TAG_CMD_RESPONSE \<and> ts_tag s' = TAG_OTHER
     \<and> be_budget_error be (response_seq s) n = Some (ts_buf s'))"

definition gone :: "frame_kind \<Rightarrow> 'b radio \<Rightarrow> tx_slot list" where
  "gone k r = map (\<lambda>x. fst (snd x)) (filter (\<lambda>x. fst x = k) (rd_out r))"

definition in_hand :: "frame_kind \<Rightarrow> 'b radio \<Rightarrow> tx_slot list" where
  "in_hand k r = (if rd_cur_valid r \<and> rd_cur_kind r = k then [rd_cur r] else [])"

definition fifo :: "'b backend \<Rightarrow> 'b radio \<Rightarrow> bool" where
  "fifo be r \<longleftrightarrow>
     of_kind K_ALARM (rd_in r) = gone K_ALARM r @ in_hand K_ALARM r @ rd_alarm_q r
     \<and> list_all2 (answers_as be) (of_kind K_ANSWER (rd_in r))
         (gone K_ANSWER r @ in_hand K_ANSWER r @ rd_answer_q r)"

definition own_inv :: "'b backend \<Rightarrow> 'b radio \<Rightarrow> bool" where
  "own_inv be r \<longleftrightarrow> fifo be r \<and> limits r"

definition radio_inv :: "'b backend \<Rightarrow> 'b radio \<Rightarrow> bool" where
  "radio_inv be r \<longleftrightarrow> ladder r \<and> own_inv be r"

lemma answers_as_refl [simp]: "answers_as be s s"
  by (simp add: answers_as_def)

lemma list_all2_answers_refl [simp]: "list_all2 (answers_as be) xs xs"
  by (simp add: list_all2_same)

lemma fifo_own_grow:
  assumes "fifo be r" "own_grow r r'"
  shows "fifo be r'"
proof -
  obtain as bs where new: "rd_answer_q r' = rd_answer_q r @ as" "rd_alarm_q r' = rd_alarm_q r @ bs"
    "of_kind K_ANSWER (rd_in r') = of_kind K_ANSWER (rd_in r) @ as"
    "of_kind K_ALARM (rd_in r') = of_kind K_ALARM (rd_in r) @ bs"
    using assms(2) by (auto simp: own_grow_def)
  have same: "gone k r' = gone k r" "in_hand k r' = in_hand k r" for k
    using assms(2) by (simp_all add: own_grow_def own_eq_def gone_def in_hand_def)
  have "list_all2 (answers_as be) (of_kind K_ANSWER (rd_in r) @ as)
      ((gone K_ANSWER r @ in_hand K_ANSWER r @ rd_answer_q r) @ as)"
    using assms(1) by (intro list_all2_appendI) (simp_all add: fifo_def)
  then show ?thesis using assms(1) by (simp add: fifo_def same new)
qed

lemma limits_own_grow: "limits r \<Longrightarrow> own_grow r r' \<Longrightarrow> limits r'"
  unfolding limits_def own_grow_def by (auto simp: own_eq_def)

lemma own_inv_grow: "own_inv be r \<Longrightarrow> own_grow r r' \<Longrightarrow> own_inv be r'"
  unfolding own_inv_def by (blast intro: fifo_own_grow limits_own_grow)

lemma path_own_eq: "own_eq r r' \<Longrightarrow> path_holds k r' = path_holds k r \<and> path_buf k r' = path_buf k r"
  by (simp add: own_eq_def path_holds_def path_buf_def split: frame_kind.split)

lemma ladder_grow: "ladder r \<Longrightarrow> grow r r' \<Longrightarrow> ladder r'"
  unfolding ladder_def grow_def own_grow_def using path_own_eq [of r r']
  by (auto simp: ack_eq_def)

lemma radio_inv_grow: "radio_inv be r \<Longrightarrow> grow r r' \<Longrightarrow> radio_inv be r'"
  unfolding radio_inv_def by (blast intro: ladder_grow own_inv_grow grow_own)

lemma radio_inv_core: "radio_inv be r \<Longrightarrow> core_eq r r' \<Longrightarrow> radio_inv be r'"
  by (blast intro: radio_inv_grow core_eq_grow)

lemma ladder_release: "ladder r \<Longrightarrow> ladder (ack_release k r)"
  by (cases rule: ack_release_cases [of k r]) (simp_all add: ladder_def)

lemma ladder_idle: "\<not> rd_ack_pending r \<Longrightarrow> ladder r"
  by (simp add: ladder_def)

lemma radio_inv_release: "radio_inv be r \<Longrightarrow> radio_inv be (ack_release k r)"
  unfolding radio_inv_def by (blast intro: ladder_release own_inv_grow ack_release_own)

subsection \<open>Sending\<close>

text \<open>
  A send by the path that holds the frame, or of a frame that asks for no Ack outside the
  ladder: only the queues grow, and the ladder describes the new state.
\<close>

definition may_send :: "radio_frame \<Rightarrow> 'b radio \<Rightarrow> bool" where
  "may_send f r \<longleftrightarrow>
     (path_holds (fr_kind f) r \<and> fr_buf f = path_buf (fr_kind f) r)
     \<or> (\<not> fr_confirmed f \<and> \<not> (rd_ack_pending r \<and> rd_ack_kind r = fr_kind f))"

lemma tx_settle_own:
  assumes "tx_settle cfg be retry f ret res r = (ret', res', r')"
  shows "own_grow r r'"
  using assms core_eq_own [OF core_link_result] core_eq_own [OF core_ack_backoff]
    own_grow_trans [OF ack_release_own core_eq_own [OF core_link_result]]
    own_grow_trans [OF _ core_eq_own [OF core_ack_backoff], of r "r\<lparr>rd_ack_pending := True,
      rd_ack_kind := fr_kind f, rd_ack_retries := rd_ack_retries r + 1\<rparr>" be]
  by (auto simp: tx_settle_def split_def Let_def own_grow_def own_eq_def ack_release_own
      split: option.splits errno.splits if_splits)

definition just_aired :: "radio_frame \<Rightarrow> 'b radio \<Rightarrow> bool" where
  "just_aired f r \<longleftrightarrow> path_holds (fr_kind f) r \<and> fr_buf f = path_buf (fr_kind f) r
     \<and> rd_air r \<noteq> [] \<and> fst (last (rd_air r)) = f"

lemma path_simps:
  "path_holds k (r\<lparr>rd_ack_pending := p\<rparr>) = path_holds k r"
  "path_buf k (r\<lparr>rd_ack_pending := p\<rparr>) = path_buf k r"
  "path_holds k (r\<lparr>rd_ack_kind := q\<rparr>) = path_holds k r"
  "path_buf k (r\<lparr>rd_ack_kind := q\<rparr>) = path_buf k r"
  "path_holds k (r\<lparr>rd_air := a\<rparr>) = path_holds k r"
  "path_buf k (r\<lparr>rd_air := a\<rparr>) = path_buf k r"
  "path_holds k (r\<lparr>rd_ack_retries := n\<rparr>) = path_holds k r"
  "path_buf k (r\<lparr>rd_ack_retries := n\<rparr>) = path_buf k r"
  "path_holds k (r\<lparr>rd_cur_retries := n\<rparr>) = path_holds k r"
  "path_buf k (r\<lparr>rd_cur_retries := n\<rparr>) = path_buf k r"
  "path_holds k (r\<lparr>rd_tlm_retries := n\<rparr>) = path_holds k r"
  "path_buf k (r\<lparr>rd_tlm_retries := n\<rparr>) = path_buf k r"
  "path_holds k (r\<lparr>rd_hist_retries := n\<rparr>) = path_holds k r"
  "path_buf k (r\<lparr>rd_hist_retries := n\<rparr>) = path_buf k r"
  by (simp_all add: path_holds_def path_buf_def split: frame_kind.split)

lemma tx_settle_ladder:
  assumes "tx_settle cfg be retry f ret res r = (ret', res', r')" "ladder r"
    and "ret = Some ETIMEDOUT \<Longrightarrow> fr_confirmed f \<Longrightarrow> just_aired f r"
  shows "ladder r'"
proof -
  have core: "ladder t" if "ladder s" "core_eq s t" for s t :: "'a radio"
    using that by (blast intro: ladder_grow core_eq_grow)
  have pend: "ladder (r\<lparr>rd_ack_pending := True, rd_ack_kind := fr_kind f,
      rd_ack_retries := rd_ack_retries r + 1\<rparr>)"
    if "ret = Some ETIMEDOUT" "fr_confirmed f" "\<not> 3 \<le> rd_ack_retries r"
    using assms(3) [OF that(1,2)] that by (simp add: ladder_def just_aired_def path_simps)
  show ?thesis
    using assms(1,2) pend core [OF _ core_link_result] core [OF _ core_ack_backoff]
      core [OF ladder_release core_link_result]
    by (auto simp: tx_settle_def split_def Let_def APP_RADIO_ACK_MAX_RETRIES_def
        intro: ladder_release split: option.splits errno.splits if_splits)
qed

lemma tx_settle_released:
  assumes "tx_settle cfg be retry f ret res r = (ret', res', r')"
    and "ret' = TX_OK \<or> ret' = TX_ERR EMSGSIZE"
  shows "\<not> (rd_ack_pending r' \<and> rd_ack_kind r' = fr_kind f)"
  using assms
  by (auto simp: tx_settle_def split_def Let_def dest!: ack_release_pendingD
      split: option.splits errno.splits if_splits)

lemma tx_settle_air: "tx_settle cfg be retry f ret res r = (ret', res', r') \<Longrightarrow> rd_air r' = rd_air r"
  by (auto simp: tx_settle_def split_def Let_def split: option.splits errno.splits if_splits)

lemma tx_send_inv:
  assumes inv: "radio_inv be r" and may: "may_send f r"
    and send: "tx_send cfg be f r = (ret, res, r')"
  shows "radio_inv be r'" and "own_grow r r'"
    and "ret = TX_OK \<or> ret = TX_ERR EMSGSIZE \<Longrightarrow>
           \<not> (rd_ack_pending r' \<and> rd_ack_kind r' = fr_kind f)"
    and "rd_air r' = rd_air r \<or> (\<exists>x. rd_air r' = rd_air r @
           [(f\<lparr>fr_confirmed := rd_ack_pending r \<or> fr_confirmed f,
               fr_attempt := if rd_ack_pending r then rd_ack_retries r else 0\<rparr>, x)]
           \<and> (rd_ack_pending r \<longrightarrow> rd_ack_kind r = fr_kind f))"
proof -
  define retry where "retry \<longleftrightarrow> rd_ack_pending r \<and> rd_ack_kind r = fr_kind f"
  have "radio_inv be r' \<and> own_grow r r'
    \<and> (ret = TX_OK \<or> ret = TX_ERR EMSGSIZE \<longrightarrow>
         \<not> (rd_ack_pending r' \<and> rd_ack_kind r' = fr_kind f))
    \<and> (rd_air r' = rd_air r \<or> (\<exists>x. rd_air r' = rd_air r @
           [(f\<lparr>fr_confirmed := rd_ack_pending r \<or> fr_confirmed f,
               fr_attempt := if rd_ack_pending r then rd_ack_retries r else 0\<rparr>, x)]
           \<and> (rd_ack_pending r \<longrightarrow> rd_ack_kind r = fr_kind f)))"
  proof (cases "rd_ack_pending r \<and> \<not> retry")
    case True
    then show ?thesis using send inv by (auto simp: tx_send_def retry_def)
  next
    case go: False
    define r1 where "r1 = (if retry then r else r\<lparr>rd_ack_retries := 0\<rparr>)"
    define f1 where "f1 = f\<lparr>fr_confirmed := retry \<or> fr_confirmed f, fr_attempt := rd_ack_retries r1\<rparr>"
    obtain ret1 res1 r2 where att: "tx_attempt cfg be f1 r1 = (ret1, res1, r2)"
      using prod_cases3 by blast
    define r3 where "r3 = (if retry \<and> (ret1 = None \<or> ret1 = Some ETIMEDOUT)
      then count_retry r2 else r2)"
    have settle: "tx_settle cfg be retry f1 ret1 res1 r3 = (ret, res, r')"
      using send go att unfolding tx_send_def retry_def [symmetric] Let_def
        r1_def [symmetric] f1_def [symmetric] r3_def [symmetric]
      by (simp add: r3_def)
    have kind: "fr_kind f1 = fr_kind f" and buf: "fr_buf f1 = fr_buf f" by (simp_all add: f1_def)
    have own1: "own_grow r r1" by (simp add: r1_def own_grow_def own_eq_def)
    have "\<not> retry \<Longrightarrow> \<not> rd_ack_pending r" using go by simp
    then have l1: "ladder r1" using inv by (auto simp: r1_def radio_inv_def ladder_def)
    have path1: "path_holds k r1 = path_holds k r" "path_buf k r1 = path_buf k r" for k
      by (simp_all add: r1_def path_simps)
    have holds: "path_holds (fr_kind f) r1 \<and> fr_buf f = path_buf (fr_kind f) r1"
      if "fr_confirmed f1"
      using that may go by (auto simp: may_send_def f1_def retry_def path1)
    have frame: "f1 = f\<lparr>fr_confirmed := rd_ack_pending r \<or> fr_confirmed f,
        fr_attempt := if rd_ack_pending r then rd_ack_retries r else 0\<rparr>"
      using go by (auto simp: f1_def r1_def retry_def)
    have "ladder r2 \<and> own_grow r1 r2
      \<and> (ret1 = Some ETIMEDOUT \<longrightarrow> fr_confirmed f1 \<longrightarrow> just_aired f1 r2)
      \<and> (rd_air r2 = rd_air r \<or> (\<exists>x. rd_air r2 = rd_air r @ [(f1, x)]))"
      using att
    proof (cases rule: tx_attempt_cases)
      case (held)
      then show ?thesis
        using l1 core_eq_own [of r1 r2] ladder_grow [OF _ core_eq_grow, of r1 r2]
        by (simp add: core_eq_def) (simp add: r1_def)
    next
      case (sent s)
      have air: "rd_air s = rd_air r" using sent(1) by (simp add: grow_def ack_eq_def r1_def)
      have path: "path_holds k s = path_holds k r1" "path_buf k s = path_buf k r1" for k
        using sent(1) path_own_eq [of r1 s] by (simp_all add: grow_def own_grow_def)
      have own: "own_grow r1 r2"
        using sent by (auto simp: grow_def own_grow_def own_eq_def)
      have "ladder r2"
      proof (cases retry)
        case True
        have s: "rd_ack_pending s" "rd_ack_kind s = fr_kind f" "rd_ack_retries s = rd_ack_retries r1"
          using sent(1) True by (simp_all add: grow_def ack_eq_def r1_def retry_def)
        show ?thesis
          using True holds l1 s unfolding ladder_def sent(2)
          by (simp add: path_simps path kind buf) (simp add: f1_def r1_def retry_def)
      next
        case False
        then have "\<not> rd_ack_pending r2"
          using sent go by (simp add: grow_def ack_eq_def r1_def)
        then show ?thesis by (rule ladder_idle)
      qed
      moreover have "ret1 = Some ETIMEDOUT \<longrightarrow> fr_confirmed f1 \<longrightarrow> just_aired f1 r2"
        using holds by (simp add: just_aired_def sent(2) path_simps path kind buf)
      moreover have "rd_air r2 = rd_air r @ [(f1, ret1)]" by (simp add: sent(2) air)
      ultimately show ?thesis using own by blast
    qed
    then have r3: "ladder r3" "own_grow r1 r3"
      "ret1 = Some ETIMEDOUT \<Longrightarrow> fr_confirmed f1 \<Longrightarrow> just_aired f1 r3"
      "rd_air r3 = rd_air r \<or> (\<exists>x. rd_air r3 = rd_air r @ [(f1, x)])"
      unfolding r3_def
      by (auto intro: ladder_grow core_eq_grow core_notes own_grow_trans core_eq_own
          simp: just_aired_def path_holds_def path_buf_def split: frame_kind.splits)
    have "own_grow r r'"
      using own_grow_trans [OF own1 own_grow_trans [OF r3(2) tx_settle_own [OF settle]]] .
    moreover have "radio_inv be r'"
      using tx_settle_ladder [OF settle r3(1,3)] inv own_inv_grow [OF _ calculation]
      by (simp add: radio_inv_def)
    moreover have "ret = TX_OK \<or> ret = TX_ERR EMSGSIZE \<longrightarrow>
         \<not> (rd_ack_pending r' \<and> rd_ack_kind r' = fr_kind f)"
      using tx_settle_released [OF settle] by (simp add: kind)
    moreover have "rd_air r' = rd_air r \<or> (\<exists>x. rd_air r' = rd_air r @ [(f1, x)])"
      using r3(4) tx_settle_air [OF settle] by simp
    ultimately show ?thesis using go frame by (auto simp: retry_def)
  qed
  then show "radio_inv be r'" "own_grow r r'"
    "ret = TX_OK \<or> ret = TX_ERR EMSGSIZE \<Longrightarrow>
       \<not> (rd_ack_pending r' \<and> rd_ack_kind r' = fr_kind f)"
    "rd_air r' = rd_air r \<or> (\<exists>x. rd_air r' = rd_air r @
           [(f\<lparr>fr_confirmed := rd_ack_pending r \<or> fr_confirmed f,
               fr_attempt := if rd_ack_pending r then rd_ack_retries r else 0\<rparr>, x)]
           \<and> (rd_ack_pending r \<longrightarrow> rd_ack_kind r = fr_kind f))"
    by blast+
qed

end
