(* ===== verification/RadioSteps.thy ===== *)
theory RadioSteps
  imports RadioInv
begin

text \<open>Every step of the radio module keeps the invariant of RadioInv.\<close>

subsection \<open>The queued frames\<close>

lemma ladder_not:
  "radio_inv be r \<Longrightarrow> \<not> path_holds k r \<Longrightarrow> rd_ack_pending r \<Longrightarrow> rd_ack_kind r \<noteq> k"
  by (auto simp: radio_inv_def ladder_def)

lemma ladder_elsewhere:
  assumes "ladder r" "\<not> (rd_ack_pending r \<and> rd_ack_kind r \<in> ks)"
    and "\<And>k. k \<notin> ks \<Longrightarrow> path_holds k r' = path_holds k r \<and> path_buf k r' = path_buf k r"
    and "ack_eq r r'"
  shows "ladder r'"
  using assms by (auto simp: ladder_def ack_eq_def)

lemma backoff_yield_inv:
  assumes "radio_inv be r"
  shows "radio_inv be (backoff_yield_to_alarm r)"
proof -
  let ?b = "snd (app_radio_backoff_wait_ms r)"
  have b: "radio_inv be ?b" by (rule radio_inv_core [OF assms core_backoff_wait])
  define s where "s = ?b\<lparr>rd_answer_q := rd_cur ?b # rd_answer_q ?b, rd_cur_valid := False\<rparr>"
  have own: "own_inv be s" if "rd_cur_valid ?b \<and> rd_cur_kind ?b = K_ANSWER"
    "\<not> APP_RADIO_TX_QUEUE_DEPTH \<le> length (rd_answer_q ?b)"
    using b that unfolding radio_inv_def own_inv_def s_def
    by (simp add: fifo_def limits_def gone_def in_hand_def APP_RADIO_TX_QUEUE_DEPTH_def)
  have lad: "ladder (if rd_ack_pending s \<and> rd_ack_kind s \<noteq> K_ALARM
      then ack_release (rd_ack_kind s) s else s)"
    if "rd_cur_valid ?b \<and> rd_cur_kind ?b = K_ANSWER"
  proof (cases "rd_ack_pending s")
    case True
    then have "rd_ack_kind s \<noteq> K_ALARM"
      using b that by (auto simp: radio_inv_def ladder_def s_def path_holds_def)
    then show ?thesis
      using True ack_release_pendingD [of "rd_ack_kind s" s] by (auto intro: ladder_idle)
  qed (simp add: ladder_idle)
  have "own_inv be (if rd_ack_pending s \<and> rd_ack_kind s \<noteq> K_ALARM
      then ack_release (rd_ack_kind s) s else s)" if "own_inv be s"
    using that own_inv_grow [OF that ack_release_own] by simp
  then show ?thesis
    using assms b own lad radio_inv_release [OF b]
    unfolding backoff_yield_to_alarm_def split_def Let_def s_def [symmetric]
    by (auto simp: radio_inv_def)
qed

lemma take_cur_own:
  "own_eq (r\<lparr>rd_cur := s, rd_cur_kind := k, rd_cur_valid := True, rd_cur_retries := 0\<rparr>)
     (take_cur be k s r)"
proof -
  have "own_eq t (flush_held be t)" for t
    using flush_held_grow [of t be] by (simp add: grow_def own_grow_def)
  then show ?thesis by (cases k) (simp_all add: take_cur_def Let_def own_eq_def)
qed

lemma take_cur_inv:
  assumes "radio_inv be r" "\<not> rd_cur_valid r"
    and "(k = K_ANSWER \<and> rd_answer_q r = s # q \<and> r' = r\<lparr>rd_answer_q := q\<rparr>)
      \<or> (k = K_ALARM \<and> rd_alarm_q r = s # q \<and> r' = r\<lparr>rd_alarm_q := q\<rparr>)"
  shows "radio_inv be (take_cur be k s r')"
    and "path_holds (rd_cur_kind (take_cur be k s r')) (take_cur be k s r')"
proof -
  let ?t = "r'\<lparr>rd_cur := s, rd_cur_kind := k, rd_cur_valid := True, rd_cur_retries := 0\<rparr>"
  have "own_inv be ?t"
    using assms by (auto simp: own_inv_def radio_inv_def fifo_def limits_def gone_def in_hand_def)
  moreover have "ladder ?t"
  proof (rule ladder_elsewhere [of r "{K_ANSWER, K_ALARM}"])
    show "ladder r" using assms(1) by (simp add: radio_inv_def)
    show "\<not> (rd_ack_pending r \<and> rd_ack_kind r \<in> {K_ANSWER, K_ALARM})"
      using assms(1,2) by (auto simp: radio_inv_def ladder_def path_holds_def)
    show "ack_eq r ?t" using assms(3) by (auto simp: ack_eq_def)
    show "path_holds i ?t = path_holds i r \<and> path_buf i ?t = path_buf i r"
      if "i \<notin> {K_ANSWER, K_ALARM}" for i
      using that assms(3) by (cases i) (auto simp: path_holds_def path_buf_def)
  qed
  ultimately have t: "radio_inv be ?t" by (simp add: radio_inv_def)
  then show "radio_inv be (take_cur be k s r')"
    using radio_inv_grow [OF t flush_held_grow, of be] by (cases k) (simp_all add: take_cur_def Let_def)
  have own: "own_eq ?t (take_cur be k s r')"
    using take_cur_own by blast
  have "path_holds k ?t" using assms(3) by (auto simp: path_holds_def)
  then have "path_holds k (take_cur be k s r')" using path_own_eq [OF own] by blast
  moreover have "rd_cur_kind (take_cur be k s r') = k" using own by (simp add: own_eq_def)
  ultimately show "path_holds (rd_cur_kind (take_cur be k s r')) (take_cur be k s r')" by simp
qed

lemma pick_cur_cases:
  assumes "pick_cur be r = Inr r'"
  obtains "rd_cur_valid r" "r' = r"
  | k s q u where "\<not> rd_cur_valid r" "r' = take_cur be k s u"
      "(k = K_ANSWER \<and> rd_answer_q r = s # q
          \<and> u = (snd (app_radio_backoff_wait_ms r))\<lparr>rd_answer_q := q\<rparr>)
       \<or> (k = K_ALARM \<and> rd_alarm_q r = s # q
          \<and> u = (snd (app_radio_backoff_wait_ms r))\<lparr>rd_alarm_q := q\<rparr>)"
  using assms
  by (auto simp: pick_cur_def split_def Let_def split: if_splits list.splits)

lemma pick_cur_inv:
  assumes "radio_inv be r"
  shows "pick_cur be r = Inl (b, r') \<Longrightarrow> radio_inv be r'"
    and "pick_cur be r = Inr r' \<Longrightarrow> radio_inv be r' \<and> path_holds (rd_cur_kind r') r'
      \<and> rd_cur_valid r'"
proof -
  let ?b = "snd (app_radio_backoff_wait_ms r)"
  have b: "radio_inv be ?b" by (rule radio_inv_core [OF assms core_backoff_wait])
  have c: "radio_inv be (tx_schedule d (stale_note_hold w ?b))" for d w
    by (blast intro: radio_inv_core [OF _ core_notes(5)] radio_inv_core [OF b core_notes(2)])
  show "pick_cur be r = Inl (b, r') \<Longrightarrow> radio_inv be r'"
    using b c by (auto simp: pick_cur_def split_def Let_def split: if_splits list.splits)
  assume "pick_cur be r = Inr r'"
  then show "radio_inv be r' \<and> path_holds (rd_cur_kind r') r' \<and> rd_cur_valid r'"
  proof (cases rule: pick_cur_cases)
    case 1
    then show ?thesis
      using assms by (auto simp: radio_inv_def own_inv_def limits_def path_holds_def)
  next
    case (2 k s q u)
    have "radio_inv be r' \<and> path_holds (rd_cur_kind r') r'"
      unfolding 2(2) using take_cur_inv [OF b, of k s q u] 2(1,3) by simp
    moreover have "rd_cur_valid r'"
      using take_cur_own [where r = u and s = s and k = k and be = be] by (simp add: 2(2) own_eq_def)
    ultimately show ?thesis by simp
  qed
qed

lemma cur_frame_may_send: "path_holds (rd_cur_kind r) r \<Longrightarrow> radio_inv be r \<Longrightarrow> rd_cur_valid r \<Longrightarrow>
    may_send (cur_frame cfg be r) r"
  by (auto simp: may_send_def cur_frame_def path_buf_def radio_inv_def own_inv_def limits_def
      split: frame_kind.split)

lemma cur_done_inv:
  assumes "radio_inv be r" "rd_cur_valid r" "\<not> (rd_ack_pending r \<and> rd_ack_kind r = rd_cur_kind r)"
  shows "radio_inv be (cur_done fate r)"
proof -
  have "ladder (cur_done fate r)"
  proof (rule ladder_elsewhere [of r "{rd_cur_kind r, K_ANSWER, K_ALARM}"])
    show "ladder r" using assms(1) by (simp add: radio_inv_def)
    show "\<not> (rd_ack_pending r \<and> rd_ack_kind r \<in> {rd_cur_kind r, K_ANSWER, K_ALARM})"
      using assms by (auto simp: radio_inv_def ladder_def path_holds_def)
    show "ack_eq r (cur_done fate r)" by (simp add: cur_done_def ack_eq_def)
    show "path_holds i (cur_done fate r) = path_holds i r \<and> path_buf i (cur_done fate r) = path_buf i r"
      if "i \<notin> {rd_cur_kind r, K_ANSWER, K_ALARM}" for i
      using that by (cases i) (auto simp: path_holds_def path_buf_def cur_done_def)
  qed
  moreover have "own_inv be (cur_done fate r)"
    using assms(1,2)
    by (auto simp: radio_inv_def own_inv_def fifo_def limits_def cur_done_def gone_def in_hand_def)
  ultimately show ?thesis by (simp add: radio_inv_def)
qed

lemma recover_core: "core_eq r (snd (recover_over_budget be tx k b r))"
  by (auto simp: recover_over_budget_def core_notes split: frame_tag.split option.split)

lemma recover_answers_as:
  "fst (recover_over_budget be tx k b r) = Some s \<Longrightarrow> k \<noteq> K_ALARM \<and> ts_tag tx = TAG_CMD_RESPONSE
     \<and> ts_tag s = TAG_OTHER
     \<and> (\<exists>n. be_budget_error be (response_seq tx) n = Some (ts_buf s))"
  by (auto simp: recover_over_budget_def split: if_splits frame_tag.splits option.splits)

text \<open>The over-budget error takes the answer's place.\<close>

lemma replace_cur_inv:
  assumes inv: "radio_inv be r" and valid: "rd_cur_valid r"
    and idle: "\<not> (rd_ack_pending r \<and> rd_ack_kind r = rd_cur_kind r)"
    and rec: "fst (recover_over_budget be (rd_cur r) (rd_cur_kind r) b r0) = Some s"
  shows "radio_inv be (r\<lparr>rd_cur := s\<rparr>)"
proof -
  note rec = recover_answers_as [OF rec]
  then have kind: "rd_cur_kind r = K_ANSWER"
    using inv valid by (auto simp: radio_inv_def own_inv_def limits_def)
  have "ladder (r\<lparr>rd_cur := s\<rparr>)"
  proof (rule ladder_elsewhere [of r "{K_ANSWER, K_ALARM}"])
    show "ladder r" using inv by (simp add: radio_inv_def)
    show "\<not> (rd_ack_pending r \<and> rd_ack_kind r \<in> {K_ANSWER, K_ALARM})"
      using inv idle kind by (auto simp: radio_inv_def ladder_def path_holds_def)
    show "ack_eq r (r\<lparr>rd_cur := s\<rparr>)" by (simp add: ack_eq_def)
    show "path_holds i (r\<lparr>rd_cur := s\<rparr>) = path_holds i r
        \<and> path_buf i (r\<lparr>rd_cur := s\<rparr>) = path_buf i r"
      if "i \<notin> {K_ANSWER, K_ALARM}" for i
      using that by (cases i) (auto simp: path_holds_def path_buf_def)
  qed
  moreover have "fifo be (r\<lparr>rd_cur := s\<rparr>)"
  proof -
    have f: "fifo be r" using inv by (simp add: radio_inv_def own_inv_def)
    then have "list_all2 (answers_as be) (of_kind K_ANSWER (rd_in r))
        (gone K_ANSWER r @ rd_cur r # rd_answer_q r)"
      using valid kind by (simp add: fifo_def in_hand_def)
    then obtain as a bs where split: "of_kind K_ANSWER (rd_in r) = as @ a # bs"
      "list_all2 (answers_as be) as (gone K_ANSWER r)" "answers_as be a (rd_cur r)"
      "list_all2 (answers_as be) bs (rd_answer_q r)"
      by (auto simp: list_all2_append2 list_all2_Cons2)
    have "answers_as be a s" using split(3) rec by (auto simp: answers_as_def)
    then have "list_all2 (answers_as be) (of_kind K_ANSWER (rd_in r))
        (gone K_ANSWER r @ s # rd_answer_q r)"
      unfolding split(1) using split(2,4) by (intro list_all2_appendI) simp_all
    then show ?thesis using f valid kind by (simp add: fifo_def in_hand_def gone_def)
  qed
  ultimately show ?thesis
    using inv by (simp add: radio_inv_def own_inv_def limits_def)
qed

lemma radio_inv_sched: "radio_inv be r \<Longrightarrow> radio_inv be (tx_schedule d r)"
  and radio_inv_count: "radio_inv be r \<Longrightarrow> radio_inv be (count_retry r)"
  by (blast intro: radio_inv_core core_notes)+

text \<open>A failed try, or the frame given up after the last.\<close>

lemma cur_retry_inv:
  assumes "radio_inv be r" "rd_cur_valid r"
  shows "radio_inv be
    (if TX_MAX_RETRIES < rd_cur_retries (r\<lparr>rd_cur_retries := rd_cur_retries r + 1\<rparr>)
     then tx_schedule 0 (ack_release (rd_cur_kind r)
            (cur_done F_dropped (r\<lparr>rd_cur_retries := rd_cur_retries r + 1\<rparr>)))
     else tx_schedule TX_RETRY_MS (count_retry (r\<lparr>rd_cur_retries := rd_cur_retries r + 1\<rparr>)))"
proof (cases "TX_MAX_RETRIES < rd_cur_retries r + 1")
  case True
  let ?d = "cur_done F_dropped (r\<lparr>rd_cur_retries := rd_cur_retries r + 1\<rparr>)"
  let ?k = "rd_cur_kind r"
  have "own_inv be ?d"
    using assms
    by (auto simp: radio_inv_def own_inv_def fifo_def limits_def cur_done_def gone_def in_hand_def)
  then have own: "own_inv be (ack_release ?k ?d)" by (rule own_inv_grow [OF _ ack_release_own])
  have lad: "ladder (ack_release ?k ?d)"
  proof (cases "rd_ack_pending r \<and> rd_ack_kind r = ?k")
    case True
    then have "\<not> rd_ack_pending (ack_release ?k ?d)"
      by (auto dest!: ack_release_pendingD simp: cur_done_def)
    then show ?thesis by (rule ladder_idle)
  next
    case False
    have "ladder ?d"
    proof (rule ladder_elsewhere [of r "{?k, K_ANSWER, K_ALARM}"])
      show "ladder r" using assms(1) by (simp add: radio_inv_def)
      show "\<not> (rd_ack_pending r \<and> rd_ack_kind r \<in> {?k, K_ANSWER, K_ALARM})"
        using assms False by (auto simp: radio_inv_def ladder_def path_holds_def)
      show "ack_eq r ?d" by (simp add: ack_eq_def cur_done_def)
      show "path_holds i ?d = path_holds i r \<and> path_buf i ?d = path_buf i r"
        if "i \<notin> {?k, K_ANSWER, K_ALARM}" for i
        using that by (cases i) (auto simp: path_holds_def path_buf_def cur_done_def)
    qed
    then show ?thesis by (rule ladder_release)
  qed
  have "radio_inv be (ack_release ?k ?d)"
    using own lad unfolding radio_inv_def by blast
  then have "radio_inv be (tx_schedule 0 (ack_release ?k ?d))" by (rule radio_inv_sched)
  then show ?thesis using True by simp
next
  case False
  have "own_inv be (r\<lparr>rd_cur_retries := rd_cur_retries r + 1\<rparr>)"
    using assms False
    by (auto simp: radio_inv_def own_inv_def fifo_def limits_def gone_def in_hand_def TX_MAX_RETRIES_def)
  moreover have "ladder (r\<lparr>rd_cur_retries := rd_cur_retries r + 1\<rparr>)"
    using assms(1) by (simp add: radio_inv_def ladder_def path_simps)
  ultimately show ?thesis
    using False by (simp add: radio_inv_sched radio_inv_count radio_inv_def [of be "r\<lparr>rd_cur_retries := _\<rparr>"])
qed

lemma cur_settle_inv:
  assumes inv: "radio_inv be r" and valid: "rd_cur_valid r"
    and idle: "ret = TX_OK \<or> ret = TX_ERR EMSGSIZE \<Longrightarrow>
      \<not> (rd_ack_pending r \<and> rd_ack_kind r = rd_cur_kind r)"
  shows "radio_inv be (cur_settle be ret res r)"
proof -
  let ?rec = "recover_over_budget be (rd_cur r) (rd_cur_kind r) (tr_budget res) r"
  have ok: "radio_inv be (cur_done F_sent r)" if "ret = TX_OK"
    using cur_done_inv [OF inv valid idle] that by blast
  have recinv: "radio_inv be (snd ?rec)" by (rule radio_inv_core [OF inv recover_core])
  have same: "rd_cur_valid (snd ?rec)" "rd_cur_kind (snd ?rec) = rd_cur_kind r"
    "rd_cur (snd ?rec) = rd_cur r" "rd_ack_pending (snd ?rec) = rd_ack_pending r"
    "rd_ack_kind (snd ?rec) = rd_ack_kind r"
    using core_eqD [OF recover_core [of r be "rd_cur r" "rd_cur_kind r" "tr_budget res"]] valid
    by simp_all
  have big: "radio_inv be (cur_settle be ret res r)" if ret: "ret = TX_ERR EMSGSIZE"
  proof (cases "fst ?rec")
    case None
    then have "radio_inv be (cur_done F_dropped (snd ?rec))"
      using cur_done_inv [OF recinv same(1)] idle ret same by simp
    then show ?thesis
      using None ret by (auto simp: cur_settle_def radio_inv_sched split: prod.split)
  next
    case (Some s)
    then have "radio_inv be ((snd ?rec)\<lparr>rd_cur := s\<rparr>)"
      using replace_cur_inv [OF recinv same(1), of "tr_budget res" r s] idle ret same by simp
    then show ?thesis
      using Some ret by (auto simp: cur_settle_def intro: radio_inv_sched split: prod.split)
  qed
  show ?thesis
  proof (cases ret)
    case TX_OK
    then show ?thesis using ok by (simp add: cur_settle_def radio_inv_sched)
  next
    case TX_ACK_RETRY
    then show ?thesis using inv by (simp add: cur_settle_def radio_inv_sched)
  next
    case (TX_ERR e)
    then show ?thesis
      using inv big cur_retry_inv [OF inv valid]
      by (cases e) (auto simp: cur_settle_def Let_def radio_inv_sched [OF inv])
  qed
qed

lemma tx_queued_step_inv:
  assumes "radio_inv be r"
  shows "radio_inv be (snd (tx_queued_step cfg be r))"
proof -
  let ?y = "backoff_yield_to_alarm r"
  have y: "radio_inv be ?y" by (rule backoff_yield_inv [OF assms])
  have cur: "radio_inv be (cur_settle be ret res r')"
    if pick: "pick_cur be ?y = Inr s" and send: "tx_send cfg be (cur_frame cfg be s) s = (ret, res, r')"
    for s ret res r'
  proof -
    have s: "radio_inv be s" "path_holds (rd_cur_kind s) s" "rd_cur_valid s"
      using pick_cur_inv(2) [OF y pick] by simp_all
    note sent = tx_send_inv [OF s(1) cur_frame_may_send [OF s(2,1,3)] send]
    have "own_eq s r'" using sent(2) by (simp add: own_grow_def)
    then show ?thesis
      using sent(1,3) s(3)
      by (intro cur_settle_inv) (auto simp: own_eq_def cur_frame_def)
  qed
  show ?thesis
    using y pick_cur_inv(1) [OF y] cur
    by (auto simp: tx_queued_step_def Let_def split: sum.split prod.split)
qed

subsection \<open>The report\<close>

definition queue_eq :: "'b radio \<Rightarrow> 'b radio \<Rightarrow> bool" where
  "queue_eq r r' \<longleftrightarrow> rd_out r' = rd_out r \<and> rd_in r' = rd_in r \<and> rd_answer_q r' = rd_answer_q r
     \<and> rd_alarm_q r' = rd_alarm_q r \<and> rd_cur r' = rd_cur r \<and> rd_cur_kind r' = rd_cur_kind r
     \<and> rd_cur_valid r' = rd_cur_valid r \<and> rd_cur_retries r' = rd_cur_retries r"

lemma own_inv_queue_eq:
  assumes "own_inv be r" "queue_eq r r'"
    and "rd_tlm_frame r' \<longrightarrow> rd_tlm_open r' \<and> rd_tlm_retries r' \<le> 8"
    and "rd_hist_active r' \<longrightarrow> rd_hist_retries r' \<le> 8"
  shows "own_inv be r'"
proof -
  have "fifo be r' = fifo be r"
    using assms(2) by (simp add: queue_eq_def fifo_def gone_def in_hand_def)
  moreover have "limits r'"
    using assms by (simp add: own_inv_def limits_def queue_eq_def)
  ultimately show ?thesis using assms(1) by (simp add: own_inv_def)
qed

text \<open>A change of the report's own fields, while no Ack of the report is waited for.\<close>

lemma tlm_change_inv:
  assumes inv: "radio_inv be r" and idle: "\<not> (rd_ack_pending r \<and> rd_ack_kind r = K_TELEMETRY)"
    and own: "own_eq (r\<lparr>rd_tlm_open := rd_tlm_open r', rd_tlm_frame := rd_tlm_frame r',
        rd_tlm_retries := rd_tlm_retries r', rd_tlm_buf := rd_tlm_buf r'\<rparr>) r'"
    and rest: "ack_eq r r'" "rd_answer_q r' = rd_answer_q r" "rd_alarm_q r' = rd_alarm_q r"
      "rd_in r' = rd_in r"
    and ok: "rd_tlm_frame r' \<longrightarrow> rd_tlm_open r' \<and> rd_tlm_retries r' \<le> 8"
  shows "radio_inv be r'"
proof -
  have "ladder r'"
  proof (rule ladder_elsewhere [of r "{K_TELEMETRY}"])
    show "ladder r" using inv by (simp add: radio_inv_def)
    show "\<not> (rd_ack_pending r \<and> rd_ack_kind r \<in> {K_TELEMETRY})" using idle by simp
    show "ack_eq r r'" by (rule rest)
    show "path_holds i r' = path_holds i r \<and> path_buf i r' = path_buf i r"
      if "i \<notin> {K_TELEMETRY}" for i
      using that own by (cases i) (auto simp: path_holds_def path_buf_def own_eq_def)
  qed
  moreover have "own_inv be r'"
  proof (rule own_inv_queue_eq [of be r])
    show "own_inv be r" using inv by (simp add: radio_inv_def)
    show "queue_eq r r'" using own rest by (simp add: queue_eq_def own_eq_def)
    show "rd_hist_active r' \<longrightarrow> rd_hist_retries r' \<le> 8"
      using inv own by (simp add: radio_inv_def own_inv_def limits_def own_eq_def)
  qed (rule ok)
  ultimately show ?thesis by (simp add: radio_inv_def)
qed

lemma tlm_close_inv:
  assumes "radio_inv be r"
  shows "radio_inv be (tlm_close be b r)"
proof -
  define s where "s = (if b then r\<lparr>rd_env := be_compose_reset be (rd_env r)\<rparr> else r)
    \<lparr>rd_tlm_open := False, rd_tlm_frame := False\<rparr>"
  have own: "own_inv be s"
    by (rule own_inv_queue_eq [of be r])
      (use assms in \<open>auto simp: radio_inv_def own_inv_def limits_def s_def queue_eq_def\<close>)
  have "ladder (ack_release K_TELEMETRY s)"
  proof (cases "rd_ack_pending r \<and> rd_ack_kind r = K_TELEMETRY")
    case True
    then show ?thesis
      by (intro ladder_idle) (auto dest!: ack_release_pendingD simp: s_def)
  next
    case False
    have "ladder s"
    proof (rule ladder_elsewhere [of r "{K_TELEMETRY}"])
      show "ladder r" using assms by (simp add: radio_inv_def)
      show "\<not> (rd_ack_pending r \<and> rd_ack_kind r \<in> {K_TELEMETRY})" using False by simp
      show "ack_eq r s" by (simp add: ack_eq_def s_def)
      show "path_holds i s = path_holds i r \<and> path_buf i s = path_buf i r"
        if "i \<notin> {K_TELEMETRY}" for i
        using that by (cases i) (auto simp: path_holds_def path_buf_def s_def)
    qed
    then show ?thesis by (rule ladder_release)
  qed
  then show ?thesis
    using own_inv_grow [OF own ack_release_own]
    unfolding tlm_close_def s_def [symmetric] by (simp add: radio_inv_def)
qed

lemma tlm_idle: "radio_inv be r \<Longrightarrow> \<not> (rd_tlm_open r \<and> rd_tlm_frame r) \<Longrightarrow>
    \<not> (rd_ack_pending r \<and> rd_ack_kind r = K_TELEMETRY)"
  by (auto simp: radio_inv_def ladder_def path_holds_def)

lemma tlm_begin_inv:
  assumes "radio_inv be r" "\<not> rd_tlm_open r"
  shows "radio_inv be (tlm_begin r)"
  by (rule tlm_change_inv [OF assms(1) tlm_idle [OF assms(1)]])
    (use assms(2) in \<open>auto simp: tlm_begin_def own_eq_def ack_eq_def\<close>)

lemma tlm_flush_inv:
  assumes "radio_inv be r" "\<not> rd_tlm_frame r"
  shows "radio_inv be (tlm_flush cfg be r)"
proof -
  define f where "f = \<lparr>fr_kind = K_TELEMETRY, fr_tag = TAG_OTHER, fr_port = 0, fr_confirmed = False,
      fr_link_check = False, fr_more = False, fr_attempt = 0, fr_buf = []\<rparr>"
  have "may_send f r" using tlm_idle [OF assms(1)] assms(2) by (simp add: may_send_def f_def)
  then have "radio_inv be (snd (snd (tx_send cfg be f r)))"
    using tx_send_inv(1) [OF assms(1)] by (metis prod.collapse)
  then show ?thesis
    by (auto simp: tlm_flush_def Let_def split_def f_def [symmetric]
        intro: radio_inv_sched tlm_close_inv)
qed

lemma report_flags_inv: "radio_inv be r \<Longrightarrow> radio_inv be (snd (report_flags cfg be r))"
  by (rule radio_inv_core [OF _ core_report_flags])

lemma tlm_compose_inv:
  assumes inv: "radio_inv be r" and open_: "rd_tlm_open r"
  shows "tlm_compose cfg be r = Inl r' \<Longrightarrow> radio_inv be r'"
    and "tlm_compose cfg be r = Inr r' \<Longrightarrow> radio_inv be r' \<and> rd_tlm_open r' \<and> rd_tlm_frame r'"
proof -
  have idle: "\<not> (rd_ack_pending r \<and> rd_ack_kind r = K_TELEMETRY)" if "\<not> rd_tlm_frame r"
    using tlm_idle [OF inv] that by simp
  have env: "radio_inv be (r\<lparr>rd_env := e\<rparr>)" for e
    by (rule radio_inv_core [OF inv]) (simp add: core_eq_def)
  have buf: "radio_inv be (r\<lparr>rd_env := e, rd_tlm_buf := b, rd_tlm_more := m\<rparr>)"
    if "\<not> rd_tlm_frame r" for e b m
    by (rule tlm_change_inv [OF inv idle [OF that]])
      (use that in \<open>auto simp: own_eq_def ack_eq_def\<close>)
  have ready: "radio_inv be (s\<lparr>rd_tlm_frame := True, rd_tlm_retries := 0\<rparr>)"
    if "\<not> rd_tlm_frame r" "radio_inv be s" "ack_eq r s" "rd_tlm_open s" for s
    by (rule tlm_change_inv [OF that(2)])
      (use idle [OF that(1)] that in \<open>auto simp: own_eq_def ack_eq_def\<close>)
  have flags: "radio_inv be ((snd (report_flags cfg be s))
      \<lparr>rd_tlm_flags := fl, rd_tlm_frame := True, rd_tlm_retries := 0\<rparr>)"
    if "\<not> rd_tlm_frame r" "radio_inv be s" "ack_eq r s" "rd_tlm_open s" for s fl
  proof (rule ready [OF that(1)])
    let ?f = "(snd (report_flags cfg be s))\<lparr>rd_tlm_flags := fl\<rparr>"
    have "core_eq s ?f" by (simp add: core_eq_def)
    then show "radio_inv be ?f" by (rule radio_inv_core [OF that(2)])
    show "ack_eq r ?f" "rd_tlm_open ?f" using that(3,4) by (simp_all add: ack_eq_def)
  qed
  show "radio_inv be r'" if "tlm_compose cfg be r = Inl r'"
    using that env buf tlm_close_inv [OF env] tlm_close_inv [OF buf] tlm_flush_inv [OF env]
    by (auto simp: tlm_compose_def split_def Let_def split: if_splits compose_ret.splits)
  assume c: "tlm_compose cfg be r = Inr r'"
  show "radio_inv be r' \<and> rd_tlm_open r' \<and> rd_tlm_frame r'"
  proof (cases "rd_tlm_frame r")
    case True
    then show ?thesis using c inv open_ by (simp add: tlm_compose_def)
  next
    case False
    then obtain e b m where "r' = (let s = r\<lparr>rd_env := e, rd_tlm_buf := b, rd_tlm_more := m\<rparr>;
          s = (if rd_tlm_first s then (let (fl, s) = report_flags cfg be s in s\<lparr>rd_tlm_flags := fl\<rparr>)
               else s)
        in s\<lparr>rd_tlm_frame := True, rd_tlm_retries := 0\<rparr>)"
      using c by (auto simp: tlm_compose_def split_def Let_def split: if_splits compose_ret.splits)
    moreover note base = buf [OF False, where e = e and b = b and m = m]
    moreover note ready [OF False base] flags [OF False base]
    ultimately show ?thesis
      using open_ by (auto simp: Let_def split_def ack_eq_def)
  qed
qed

lemma tlm_frame_may_send:
  "rd_tlm_open r \<Longrightarrow> rd_tlm_frame r \<Longrightarrow> may_send (tlm_frame_of r) r"
  by (simp add: may_send_def tlm_frame_of_def path_holds_def path_buf_def)

lemma tlm_next_inv:
  assumes "radio_inv be r" "\<not> (rd_ack_pending r \<and> rd_ack_kind r = K_TELEMETRY)"
  shows "radio_inv be (tlm_next be sent r)"
proof -
  have a: "radio_inv be (r\<lparr>rd_tlm_frame := False, rd_tlm_first := False\<rparr>)"
    by (rule tlm_change_inv [OF assms]) (auto simp: own_eq_def ack_eq_def)
  have "radio_inv be (s\<lparr>rd_link := l, rd_tlm_done_ms := t, rd_tlm_done_valid := v\<rparr>)"
    if "radio_inv be s" for s l t v
    by (rule radio_inv_core [OF that]) (simp add: core_eq_def)
  then show ?thesis
    using a by (auto simp: tlm_next_def Let_def intro!: radio_inv_sched tlm_close_inv)
qed

lemma tlm_settle_inv:
  assumes inv: "radio_inv be r" and held: "rd_tlm_open r" "rd_tlm_frame r"
    and idle: "ret = TX_OK \<or> ret = TX_ERR EMSGSIZE \<Longrightarrow>
      \<not> (rd_ack_pending r \<and> rd_ack_kind r = K_TELEMETRY)"
  shows "radio_inv be (tlm_settle cfg be ret res r)"
proof -
  have up: "radio_inv be (r\<lparr>rd_last_uplink := t\<rparr>)" for t
    by (rule radio_inv_core [OF inv]) (simp add: core_eq_def)
  let ?n = "r\<lparr>rd_tlm_retries := rd_tlm_retries r + 1\<rparr>"
  have again: "radio_inv be (if TX_MAX_RETRIES < rd_tlm_retries ?n then tlm_close be True ?n
      else tx_schedule TX_RETRY_MS (count_retry ?n))"
  proof (cases "TX_MAX_RETRIES < rd_tlm_retries ?n")
    case True
    have "tlm_close be True ?n = (tlm_close be True r)\<lparr>rd_tlm_retries := rd_tlm_retries r + 1\<rparr>"
      by (simp add: tlm_close_def ack_release_def Let_def hist_work_kick_def tx_work_kick_def)
    moreover have "radio_inv be (t\<lparr>rd_tlm_retries := n\<rparr>)"
      if "radio_inv be t" "\<not> rd_tlm_frame t" for t n
    proof -
      have "own_inv be (t\<lparr>rd_tlm_retries := n\<rparr>)"
        by (rule own_inv_queue_eq [of be t])
          (use that in \<open>auto simp: radio_inv_def own_inv_def limits_def queue_eq_def\<close>)
      moreover have "ladder (t\<lparr>rd_tlm_retries := n\<rparr>)"
        using that by (simp add: radio_inv_def ladder_def path_simps)
      ultimately show ?thesis by (simp add: radio_inv_def)
    qed
    moreover have "\<not> rd_tlm_frame (tlm_close be True r)" by (simp add: tlm_close_def)
    ultimately show ?thesis using True tlm_close_inv [OF inv] by simp
  next
    case False
    have "own_inv be ?n"
      by (rule own_inv_queue_eq [of be r])
        (use inv False held in
          \<open>auto simp: radio_inv_def own_inv_def limits_def queue_eq_def TX_MAX_RETRIES_def\<close>)
    moreover have "ladder ?n"
      using inv by (simp add: radio_inv_def ladder_def path_simps)
    ultimately have "radio_inv be ?n" by (simp add: radio_inv_def)
    then show ?thesis using False by (simp add: radio_inv_sched radio_inv_count)
  qed
  show ?thesis
  proof (cases ret)
    case TX_OK
    then show ?thesis
      using tlm_next_inv [OF up] idle by (simp add: tlm_settle_def)
  next
    case TX_ACK_RETRY
    then show ?thesis using inv by (simp add: tlm_settle_def radio_inv_sched)
  next
    case (TX_ERR e)
    then show ?thesis
      using inv again idle tlm_next_inv [OF inv] tlm_close_inv [OF inv] radio_inv_sched [OF inv]
      by (cases e) (auto simp: tlm_settle_def Let_def)
  qed
qed

lemma tlm_step_inv:
  assumes "radio_inv be r"
  shows "radio_inv be (tlm_step cfg be r)"
proof -
  define o1 where "o1 = (if rd_tlm_open r then r else tlm_begin r)"
  have o1: "radio_inv be o1" "rd_tlm_open o1"
    using assms tlm_begin_inv [OF assms] by (auto simp: o1_def tlm_begin_def)
  have sent: "radio_inv be (tlm_settle cfg be ret res r')"
    if "tlm_compose cfg be o1 = Inr s" "tx_send cfg be (tlm_frame_of s) s = (ret, res, r')"
    for s ret res r'
  proof -
    have s: "radio_inv be s" "rd_tlm_open s" "rd_tlm_frame s"
      using tlm_compose_inv(2) [OF o1 that(1)] by simp_all
    note x = tx_send_inv [OF s(1) tlm_frame_may_send [OF s(2,3)] that(2)]
    have "own_eq s r'" using x(2) by (simp add: own_grow_def)
    then show ?thesis
      using x(1,3) s by (intro tlm_settle_inv) (auto simp: own_eq_def tlm_frame_of_def)
  qed
  have mute: "radio_inv be (tlm_settle cfg be (TX_ERR EIO) res s)"
    if "tlm_compose cfg be o1 = Inr s" for s res
    using tlm_compose_inv(2) [OF o1 that] by (intro tlm_settle_inv) auto
  show ?thesis
    using assms tlm_compose_inv(1) [OF o1] sent mute unfolding tlm_step_def o1_def [symmetric] Let_def
    by (auto split: sum.split prod.split)
qed

lemma tx_work_handler_inv:
  assumes "radio_inv be r"
  shows "radio_inv be (tx_work_handler cfg be r)"
  using assms tlm_close_inv [OF assms] tx_queued_step_inv [OF assms, of cfg]
    tlm_step_inv [OF tx_queued_step_inv [OF assms, of cfg]]
  by (auto simp: tx_work_handler_def split_def Let_def)

subsection \<open>The replay\<close>

text \<open>A change of the replay's own fields, while no Ack of it is waited for.\<close>

lemma hist_change_inv:
  assumes inv: "radio_inv be r" and idle: "\<not> (rd_ack_pending r \<and> rd_ack_kind r = K_HISTORY)"
    and rest: "ack_eq r r'" "queue_eq r r'" "rd_tlm_open r' = rd_tlm_open r"
      "rd_tlm_frame r' = rd_tlm_frame r" "rd_tlm_retries r' = rd_tlm_retries r"
      "rd_tlm_buf r' = rd_tlm_buf r"
    and ok: "rd_hist_active r' \<longrightarrow> rd_hist_retries r' \<le> 8"
  shows "radio_inv be r'"
proof -
  have "ladder r'"
  proof (rule ladder_elsewhere [of r "{K_HISTORY}"])
    show "ladder r" using inv by (simp add: radio_inv_def)
    show "\<not> (rd_ack_pending r \<and> rd_ack_kind r \<in> {K_HISTORY})" using idle by simp
    show "path_holds i r' = path_holds i r \<and> path_buf i r' = path_buf i r"
      if "i \<notin> {K_HISTORY}" for i
      using that rest by (cases i) (auto simp: path_holds_def path_buf_def queue_eq_def)
  qed (rule rest)
  moreover have "own_inv be r'"
  proof (rule own_inv_queue_eq [of be r])
    show "own_inv be r" using inv by (simp add: radio_inv_def)
    show "rd_tlm_frame r' \<longrightarrow> rd_tlm_open r' \<and> rd_tlm_retries r' \<le> 8"
      using inv rest by (simp add: radio_inv_def own_inv_def limits_def)
  qed (rule rest ok)+
  ultimately show ?thesis by (simp add: radio_inv_def)
qed

lemma hist_end_inv:
  assumes "radio_inv be r"
  shows "radio_inv be (hist_end be r)"
proof -
  define s where "s = r\<lparr>rd_hist_active := False, rd_env := be_replay_active be False (rd_env r)\<rparr>"
  have own: "own_inv be s"
    by (rule own_inv_queue_eq [of be r])
      (use assms in \<open>auto simp: radio_inv_def own_inv_def limits_def s_def queue_eq_def\<close>)
  have "ladder (ack_release K_HISTORY s)"
  proof (cases "rd_ack_pending r \<and> rd_ack_kind r = K_HISTORY")
    case True
    then show ?thesis by (intro ladder_idle) (auto dest!: ack_release_pendingD simp: s_def)
  next
    case False
    have "radio_inv be s"
      by (rule hist_change_inv [OF assms False]) (auto simp: s_def ack_eq_def queue_eq_def)
    then show ?thesis by (auto simp: radio_inv_def intro: ladder_release)
  qed
  then show ?thesis
    using own_inv_grow [OF own ack_release_own]
    unfolding hist_end_def s_def [symmetric] by (simp add: radio_inv_def)
qed

lemma hist_finish_inv: "radio_inv be r \<Longrightarrow> radio_inv be (hist_finish be r)"
  unfolding hist_finish_def
  by (blast intro: radio_inv_core [OF radio_inv_core [OF hist_end_inv]] core_notes)

lemma hist_budget_error_inv: "radio_inv be r \<Longrightarrow> radio_inv be (hist_budget_error be r)"
  by (auto simp: hist_budget_error_def intro: radio_inv_grow [OF _ tx_queue_grow] split: option.split)

lemma hist_retries_le: "radio_inv be r \<Longrightarrow> rd_hist_active r \<Longrightarrow> rd_hist_retries r \<le> 8"
  by (simp add: radio_inv_def own_inv_def limits_def)

lemma hist_build_inv:
  assumes inv: "radio_inv be r" and idle: "\<not> (rd_ack_pending r \<and> rd_ack_kind r = K_HISTORY)"
    and active: "rd_hist_active r"
  shows "hist_build be b r = Inl r' \<Longrightarrow> radio_inv be r'"
    and "hist_build be b r = Inr r' \<Longrightarrow> radio_inv be r' \<and> rd_hist_active r'"
proof -
  define s where "s = (if rd_hist_bound r \<le> rd_hist_idx r then r\<lparr>rd_hist_bound := - 1\<rparr> else r)"
  have s: "radio_inv be (s\<lparr>rd_hist_next := n\<rparr>)" for n
    by (rule radio_inv_core [OF inv]) (simp add: core_eq_def s_def)
  have build: "radio_inv be (s\<lparr>rd_hist_next := n, rd_hist_buf := buf, rd_hist_n := k\<rparr>)" for n buf k
    by (rule hist_change_inv [OF inv idle])
      (use hist_retries_le [OF inv active] in \<open>auto simp: s_def ack_eq_def queue_eq_def\<close>)
  show "radio_inv be r'" if "hist_build be b r = Inl r'"
    using that hist_finish_inv [OF s] hist_finish_inv [OF hist_budget_error_inv [OF s]]
    unfolding hist_build_def s_def [symmetric] Let_def split_def
    by (auto split: if_splits option.splits)
  show "radio_inv be r' \<and> rd_hist_active r'" if "hist_build be b r = Inr r'"
    using that build active
    unfolding hist_build_def s_def [symmetric] Let_def split_def
    by (auto simp: s_def split: if_splits option.splits)
qed

lemma hist_prepare_inv:
  assumes inv: "radio_inv be r" and active: "rd_hist_active r"
  shows "hist_prepare be r = Inl r' \<Longrightarrow> radio_inv be r'"
    and "hist_prepare be r = Inr r' \<Longrightarrow> radio_inv be r' \<and> rd_hist_active r'"
proof -
  define s where "s = r\<lparr>rd_hist_buf := [], rd_hist_n := 0, rd_hist_next := rd_hist_cursor r\<rparr>"
  have s: "radio_inv be s" "\<not> (rd_ack_pending s \<and> rd_ack_kind s = K_HISTORY)" "rd_hist_active s"
    if idle: "\<not> (rd_ack_pending r \<and> rd_ack_kind r = K_HISTORY)"
  proof -
    show "radio_inv be s"
      by (rule hist_change_inv [OF inv idle])
        (use hist_retries_le [OF inv active] in \<open>auto simp: s_def ack_eq_def queue_eq_def\<close>)
  qed (use idle active in \<open>simp_all add: s_def\<close>)
  show "radio_inv be r'" if "hist_prepare be r = Inl r'"
    using that hist_build_inv(1) [OF s] unfolding hist_prepare_def Let_def s_def [symmetric]
    by (auto split: if_splits)
  show "radio_inv be r' \<and> rd_hist_active r'" if "hist_prepare be r = Inr r'"
    using that inv active s hist_build_inv(2) [OF s]
    unfolding hist_prepare_def Let_def s_def [symmetric] by (auto split: if_splits)
qed

lemma hist_sent_inv:
  assumes inv: "radio_inv be r" and idle: "\<not> (rd_ack_pending r \<and> rd_ack_kind r = K_HISTORY)"
  shows "radio_inv be (hist_sent be r)"
proof -
  have "radio_inv be (r\<lparr>rd_hist_retries := 0, rd_last_uplink := t, rd_replayed := p,
      rd_hist_cursor := c, rd_hist_idx := i\<rparr>)" for t p c i
    by (rule hist_change_inv [OF inv idle]) (auto simp: ack_eq_def queue_eq_def)
  then show ?thesis
    by (auto simp: hist_sent_def Let_def app_radio_note_uplink_def
        intro: hist_finish_inv radio_inv_core [OF _ core_notes(13)])
qed

lemma hist_again_inv:
  assumes inv: "radio_inv be r" and active: "rd_hist_active r"
  shows "radio_inv be (hist_again be d r)"
proof (cases "TX_MAX_RETRIES < rd_hist_retries r + 1")
  case True
  let ?n = "r\<lparr>rd_hist_retries := rd_hist_retries r + 1\<rparr>"
  have "hist_end be ?n = (hist_end be r)\<lparr>rd_hist_retries := rd_hist_retries r + 1\<rparr>"
    by (simp add: hist_end_def ack_release_def Let_def tx_work_kick_def)
  moreover have "radio_inv be (t\<lparr>rd_hist_retries := n\<rparr>)"
    if "radio_inv be t" "\<not> rd_hist_active t" for t n
  proof -
    have "own_inv be (t\<lparr>rd_hist_retries := n\<rparr>)"
      by (rule own_inv_queue_eq [of be t])
        (use that in \<open>auto simp: radio_inv_def own_inv_def limits_def queue_eq_def\<close>)
    moreover have "ladder (t\<lparr>rd_hist_retries := n\<rparr>)"
      using that by (simp add: radio_inv_def ladder_def path_simps)
    ultimately show ?thesis by (simp add: radio_inv_def)
  qed
  moreover have "\<not> rd_hist_active (hist_end be r)" by (simp add: hist_end_def)
  ultimately have "radio_inv be (hist_end be ?n)" using hist_end_inv [OF inv] by simp
  then have "radio_inv be (hist_finish be ?n)"
    unfolding hist_finish_def by (blast intro: radio_inv_core [OF radio_inv_core] core_notes)
  then show ?thesis using True by (simp add: hist_again_def)
next
  case False
  have "own_inv be (r\<lparr>rd_hist_retries := rd_hist_retries r + 1\<rparr>)"
    by (rule own_inv_queue_eq [of be r])
      (use inv False in \<open>auto simp: radio_inv_def own_inv_def limits_def queue_eq_def TX_MAX_RETRIES_def\<close>)
  moreover have "ladder (r\<lparr>rd_hist_retries := rd_hist_retries r + 1\<rparr>)"
    using inv by (simp add: radio_inv_def ladder_def path_simps)
  ultimately have "radio_inv be (r\<lparr>rd_hist_retries := rd_hist_retries r + 1\<rparr>)"
    by (simp add: radio_inv_def)
  then have "radio_inv be (hist_schedule d (count_retry (r\<lparr>rd_hist_retries := rd_hist_retries r + 1\<rparr>)))"
    by (blast intro: radio_inv_core [OF radio_inv_core] core_notes)
  then show ?thesis using False by (simp add: hist_again_def)
qed

lemma hist_settle_inv:
  assumes inv: "radio_inv be r" and active: "rd_hist_active r"
    and idle: "ret = TX_OK \<Longrightarrow> \<not> (rd_ack_pending r \<and> rd_ack_kind r = K_HISTORY)"
  shows "radio_inv be (hist_settle be ret res r)"
proof (cases ret)
  case (TX_ERR e)
  then show ?thesis
    using inv hist_again_inv [OF inv active] hist_finish_inv [OF inv]
    by (cases e) (auto simp: hist_settle_def)
next
  case TX_OK
  then show ?thesis using hist_sent_inv [OF inv] idle by (simp add: hist_settle_def)
next
  case TX_ACK_RETRY
  then show ?thesis using radio_inv_core [OF inv core_notes(13)] by (simp add: hist_settle_def)
qed

lemma hist_work_handler_inv:
  assumes inv: "radio_inv be r"
  shows "radio_inv be (hist_work_handler cfg be r)"
proof -
  have sent: "radio_inv be (hist_settle be
        (if ret = TX_OK \<and> rd_hist_buf r' = [] then TX_ERR EAGAIN else ret) res r')"
    if active: "rd_hist_active r" and prep: "hist_prepare be r = Inr s"
      and send: "tx_send cfg be (hist_frame_of cfg be s) s = (ret, res, r')" for s ret res r'
  proof -
    have s: "radio_inv be s" "rd_hist_active s" using hist_prepare_inv(2) [OF inv active prep] by simp_all
    have "may_send (hist_frame_of cfg be s) s"
      using s(2) by (simp add: may_send_def hist_frame_of_def path_holds_def path_buf_def)
    note x = tx_send_inv [OF s(1) this send]
    have "rd_hist_active r'" using x(2) s(2) by (simp add: own_grow_def own_eq_def)
    then show ?thesis
      using x(1,3) by (intro hist_settle_inv) (auto simp: hist_frame_of_def split: if_splits)
  qed
  show ?thesis
    using inv hist_finish_inv [OF inv] hist_prepare_inv(1) [OF inv] sent
    by (auto simp: hist_work_handler_def Let_def split: sum.split prod.split)
qed

lemma replay_start_inv:
  assumes inv: "radio_inv be r"
  shows "radio_inv be (snd (app_radio_history_replay_start be from to seq r))"
proof (cases "rd_hist_active r")
  case True
  then show ?thesis using inv by (simp add: app_radio_history_replay_start_def)
next
  case False
  then have idle: "\<not> (rd_ack_pending r \<and> rd_ack_kind r = K_HISTORY)"
    using inv by (auto simp: radio_inv_def ladder_def path_holds_def)
  have change: "radio_inv be r'" if "ack_eq r r'" "queue_eq r r'" "rd_tlm_open r' = rd_tlm_open r"
      "rd_tlm_frame r' = rd_tlm_frame r" "rd_tlm_retries r' = rd_tlm_retries r"
      "rd_tlm_buf r' = rd_tlm_buf r" "rd_hist_active r' \<longrightarrow> rd_hist_retries r' \<le> 8" for r'
    by (rule hist_change_inv [OF inv idle that])
  show ?thesis
    using inv False unfolding app_radio_history_replay_start_def Let_def split_def
    by (auto simp: ack_eq_def queue_eq_def hist_schedule_def intro!: change)
qed

subsection \<open>Every step\<close>

lemma link_up_inv:
  assumes "radio_inv be r"
  shows "radio_inv be (app_radio_link_up be r)"
proof -
  have "radio_inv be (r\<lparr>rd_hist_work := w\<rparr>)" for w
    by (rule radio_inv_core [OF assms]) (simp add: core_eq_def)
  then have drop: "radio_inv be (hist_drop be r)"
    using assms hist_end_inv by (auto simp: hist_drop_def)
  let ?a = "(hist_drop be r)\<lparr>rd_ack_pending := False\<rparr>"
  have a: "radio_inv be ?a"
    using drop ladder_idle [of ?a] own_inv_grow [of be "hist_drop be r" ?a]
    by (simp add: radio_inv_def own_grow_def own_eq_def)
  have fresh: "radio_inv be ((link_clear ?a)\<lparr>rd_link := l, rd_link_forced := False,
      rd_last_uplink := t, rd_dc := stale_dc0\<rparr>)" for l t
    by (rule radio_inv_core [OF a]) (simp add: core_eq_def link_clear_def)
  show ?thesis
    using fresh by (auto simp: app_radio_link_up_def Let_def intro: radio_inv_core core_notes)
qed

lemma radio_step_inv:
  assumes inv: "radio_inv be r"
  shows "radio_inv be (radio_step cfg be ev r)"
proof (cases ev)
  case (EV_time dt)
  have "core_eq r (r\<lparr>rd_now := rd_now r + int dt\<rparr>)" by (simp add: core_eq_def)
  then show ?thesis using EV_time radio_inv_core [OF inv] by simp
next
  case EV_run
  have "radio_inv be (tx_dequeue r)" by (rule radio_inv_core [OF inv core_notes(17)])
  then show ?thesis using EV_run inv by (simp add: tx_work_handler_inv)
next
  case EV_hist_run
  have "radio_inv be (hist_dequeue r)" by (rule radio_inv_core [OF inv core_notes(18)])
  then show ?thesis using EV_hist_run inv by (simp add: hist_work_handler_inv)
next
  case (EV_replay a b c)
  then show ?thesis by (simp add: replay_start_inv inv)
next
  case (EV_queue kind tag port buf)
  then show ?thesis by (simp add: radio_inv_grow [OF inv tx_queue_grow])
next
  case EV_link_up
  then show ?thesis by (simp add: link_up_inv inv)
qed (auto intro: radio_inv_core [OF inv] core_ops)

lemma radio_steps_inv: "radio_inv be r \<Longrightarrow> radio_inv be (fold (radio_step cfg be) evs r)"
  by (induction evs arbitrary: r) (auto intro: radio_step_inv)

end
