(* ===== verification/RadioProps.thy ===== *)
theory RadioProps
  imports RadioSteps
begin

text \<open>
  What the radio module guarantees, for every backend and every sequence of events from boot:
  the queued frames leave in order and none is lost inside the module, one confirmed frame is in
  flight and a retry sends it byte for byte, the order of the paths, the duty-cycle admission,
  when a run is scheduled again (and the case where it is not), the link supervision and the
  stale-uplink watchdog.
\<close>

definition work0 :: work where "work0 = \<lparr>wk_queued = False, wk_at = None\<rparr>"

definition slot0 :: tx_slot where
  "slot0 = \<lparr>ts_tag = TAG_OTHER, ts_port = 0, ts_buf = []\<rparr>"

text \<open>The module at boot: every static variable zero, the ledger set up by the backend's init.\<close>

definition radio_boot :: "'b \<Rightarrow> u32 \<Rightarrow> 'b radio" where
  "radio_boot e budget =
     \<lparr>rd_env = e, rd_now = 0, rd_duty = app_radio_ledger_init duty_zero budget, rd_duty_on = True,
      rd_duty_since = 0, rd_backoff_until = 0, rd_answer_q = [], rd_alarm_q = [], rd_cur = slot0,
      rd_cur_kind = K_ANSWER, rd_cur_valid = False, rd_cur_retries = 0, rd_tlm_requested = False,
      rd_tlm_open = False, rd_tlm_frame = False, rd_tlm_first = False, rd_tlm_more = False,
      rd_tlm_flags = \<lparr>rf_confirmed = False, rf_link_check = False\<rparr>, rd_tlm_retries = 0,
      rd_tlm_open_ms = 0, rd_tlm_buf = [], rd_tlm_done_valid = False, rd_tlm_done_ms = 0,
      rd_ack_pending = False, rd_ack_kind = K_ANSWER, rd_ack_retries = 0,
      rd_link = \<lparr>lk_reports = 0, lk_fail_streak = 0, lk_warning_fails = 0, lk_warning = False\<rparr>,
      rd_link_forced = False, rd_last_uplink = 0, rd_dc = stale_dc0, rd_time_wanted = False,
      rd_hist_active = False, rd_hist_from = 0, rd_hist_to = 0, rd_hist_seq = 0,
      rd_hist_count = 0, rd_hist_idx = 0, rd_hist_bound = - 1, rd_hist_cursor = 0,
      rd_hist_end = 0, rd_hist_layout = e, rd_hist_retries = 0, rd_hist_n = 0, rd_hist_next = 0,
      rd_hist_buf = [], rd_tx_work = work0, rd_hist_work = work0, rd_cnt_fail = 0,
      rd_cnt_retry = 0, rd_air = [], rd_in = [], rd_out = [], rd_replayed = [],
      rd_charged = []\<rparr>"

lemma radio_boot_inv: "radio_inv be (radio_boot e b)"
  by (simp add: radio_boot_def radio_inv_def ladder_def own_inv_def fifo_def limits_def of_kind_def
      gone_def in_hand_def)

definition radio_run :: "radio_cfg \<Rightarrow> 'b backend \<Rightarrow> radio_ev list \<Rightarrow> 'b \<Rightarrow> u32 \<Rightarrow> 'b radio" where
  "radio_run cfg be evs e budget = fold (radio_step cfg be) evs (radio_boot e budget)"

lemma radio_run_inv: "radio_inv be (radio_run cfg be evs e b)"
  unfolding radio_run_def by (rule radio_steps_inv [OF radio_boot_inv])

subsection \<open>The queues\<close>


subsection \<open>One confirmed frame in flight\<close>

lemma tx_send_retry:
  assumes "radio_inv be r" "may_send f r" "tx_send cfg be f r = (ret, res, r')" "rd_ack_pending r"
  shows "rd_air r' = rd_air r \<or> (\<exists>g x. rd_air r' = rd_air r @ [(g, x)]
    \<and> fr_kind g = fr_kind (fst (last (rd_air r))) \<and> fr_buf g = fr_buf (fst (last (rd_air r)))
    \<and> fr_confirmed g \<and> fr_attempt g = rd_ack_retries r)"
  using tx_send_inv(4) [OF assms(1-3)] assms(1,2,4)
  by (auto simp: may_send_def radio_inv_def ladder_def)

lemma settle_air [simp]:
  "rd_air (cur_done fate r) = rd_air r" "rd_air (tlm_close be b r) = rd_air r"
  "rd_air (tlm_begin r) = rd_air r" "rd_air (hist_end be r) = rd_air r"
  by (simp_all add: cur_done_def tlm_close_def tlm_begin_def hist_end_def)

lemma cur_settle_air [simp]: "rd_air (cur_settle be ret res r) = rd_air r"
proof -
  have "rd_air (snd (recover_over_budget be s k b r)) = rd_air r" for s k b
    using core_eqD [OF recover_core [where r = r and be = be and tx = s and k = k and b = b]] by simp
  then show ?thesis
    by (auto simp: cur_settle_def Let_def split: tx_ret.split errno.split prod.split option.split)
      (metis snd_conv)+
qed

lemma tlm_next_air [simp]: "rd_air (tlm_next be sent r) = rd_air r"
  by (simp add: tlm_next_def Let_def)

lemma tlm_settle_air [simp]: "rd_air (tlm_settle cfg be ret res r) = rd_air r"
  by (simp add: tlm_settle_def Let_def split: tx_ret.split errno.split)

lemma hist_settle_air [simp]: "rd_air (hist_settle be ret res r) = rd_air r"
  by (simp add: hist_settle_def hist_again_def hist_sent_def hist_finish_def Let_def
      split: tx_ret.split errno.split)

lemma pick_cur_ack:
  assumes "pick_cur be r = Inr s"
  shows "ack_eq r s"
  using assms
proof (cases rule: pick_cur_cases)
  case (2 k a q u)
  have "ack_eq t (flush_held be t)" for t using flush_held_grow [of t be] by (simp add: grow_def)
  moreover have "ack_eq r u" using 2(3) by (auto simp: ack_eq_def)
  ultimately show ?thesis
    unfolding 2(2) take_cur_def Let_def by (cases "k = K_ALARM") (auto simp: ack_eq_def)
qed (simp add: ack_eq_def)

text \<open>A step sent nothing, or the last frame of \<open>r\<close> again.\<close>

definition resends :: "'b radio \<Rightarrow> 'b radio \<Rightarrow> bool" where
  "resends r r' \<longleftrightarrow> rd_air r' = rd_air r \<or> (\<exists>g x. rd_air r' = rd_air r @ [(g, x)]
     \<and> fr_kind g = fr_kind (fst (last (rd_air r))) \<and> fr_buf g = fr_buf (fst (last (rd_air r)))
     \<and> fr_confirmed g \<and> fr_attempt g = rd_ack_retries r)"

lemma resends_send:
  assumes "ack_eq r s" "rd_ack_pending r" "radio_inv be s" "may_send f s"
    and "tx_send cfg be f s = (ret, res, t)" "rd_air t' = rd_air t"
  shows "resends r t'"
  using tx_send_retry [OF assms(3-5)] assms(1,2,6) by (simp add: ack_eq_def resends_def)

lemma resends_air: "rd_air r' = rd_air r \<Longrightarrow> resends r r'"
  by (simp add: resends_def)

lemma yield_idle:
  "rd_backoff_until r = 0 \<Longrightarrow> backoff_yield_to_alarm r = r"
  by (simp add: backoff_yield_to_alarm_def app_radio_backoff_wait_ms_def)

lemma pick_cur_stop: "pick_cur be r = Inl (b, s) \<Longrightarrow> core_eq r s"
  by (auto simp: pick_cur_def split_def Let_def core_eq_def split: if_splits list.splits)

lemma tx_queued_step_resends:
  assumes inv: "radio_inv be r" and pend: "rd_ack_pending r" and nb: "rd_backoff_until r = 0"
  shows "resends r (snd (tx_queued_step cfg be r))"
    and "\<not> fst (tx_queued_step cfg be r) \<Longrightarrow> ack_eq r (snd (tx_queued_step cfg be r))"
proof -
  have "resends r (snd (tx_queued_step cfg be r)) \<and>
    (\<not> fst (tx_queued_step cfg be r) \<longrightarrow> ack_eq r (snd (tx_queued_step cfg be r)))"
  proof (cases "rd_ack_kind r = K_TELEMETRY")
    case True
    then show ?thesis
      using pend by (simp add: tx_queued_step_def yield_idle [OF nb] resends_air ack_eq_def)
  next
    case False
    show ?thesis
    proof (cases "pick_cur be r")
      case (Inl p)
      then obtain b s where "pick_cur be r = Inl (b, s)" by (cases p) simp
      moreover from pick_cur_stop [OF this] have "rd_air s = rd_air r" "ack_eq r s"
        by (simp_all add: core_eq_def ack_eq_def)
      ultimately show ?thesis
        using False by (simp add: tx_queued_step_def yield_idle [OF nb] resends_air)
    next
      case (Inr s)
      obtain ret res t where send: "tx_send cfg be (cur_frame cfg be s) s = (ret, res, t)"
        using prod_cases3 by blast
      note ps = pick_cur_inv(2) [OF inv Inr]
      have "resends r (cur_settle be ret res t)"
        using pick_cur_ack [OF Inr] pend ps send
        by (intro resends_send [of r s be "cur_frame cfg be s"] cur_frame_may_send) auto
      then show ?thesis
        using False Inr send by (simp add: tx_queued_step_def yield_idle [OF nb])
    qed
  qed
  then show "resends r (snd (tx_queued_step cfg be r))"
    "\<not> fst (tx_queued_step cfg be r) \<Longrightarrow> ack_eq r (snd (tx_queued_step cfg be r))" by blast+
qed

lemma tlm_compose_ack: "tlm_compose cfg be r = Inr s \<Longrightarrow> ack_eq r s"
  by (auto simp: tlm_compose_def split_def Let_def ack_eq_def split: if_splits compose_ret.splits)

lemma tlm_compose_stop:
  assumes inv: "radio_inv be r" and pend: "rd_ack_pending r" and c: "tlm_compose cfg be r = Inl s"
  shows "resends r s"
proof -
  define f where "f = \<lparr>fr_kind = K_TELEMETRY, fr_tag = TAG_OTHER, fr_port = 0, fr_confirmed = False,
      fr_link_check = False, fr_more = False, fr_attempt = 0, fr_buf = []\<rparr>"
  have flush: "resends r (tlm_flush cfg be (r\<lparr>rd_env := e\<rparr>))" if "\<not> rd_tlm_frame r" for e
  proof -
    let ?e = "r\<lparr>rd_env := e\<rparr>"
    have e: "radio_inv be ?e" by (rule radio_inv_core [OF inv]) (simp add: core_eq_def)
    have may: "may_send f ?e"
      using tlm_idle [OF inv] that by (simp add: may_send_def f_def)
    obtain ret res t where send: "tx_send cfg be f ?e = (ret, res, t)" using prod_cases3 by blast
    have "rd_air (tlm_flush cfg be ?e) = rd_air t"
      using send by (simp add: tlm_flush_def f_def [symmetric])
    then show ?thesis
      using resends_send [OF _ pend e may send] by (simp add: ack_eq_def)
  qed
  show ?thesis
    using c flush by (auto simp: tlm_compose_def split_def Let_def resends_air
        split: if_splits compose_ret.splits)
qed

lemma tlm_step_resends:
  assumes inv: "radio_inv be r" and pend: "rd_ack_pending r"
  shows "resends r (tlm_step cfg be r)"
proof -
  define o1 where "o1 = (if rd_tlm_open r then r else tlm_begin r)"
  have o1: "radio_inv be o1" "rd_tlm_open o1" "ack_eq r o1"
    using inv tlm_begin_inv [OF inv] by (auto simp: o1_def tlm_begin_def ack_eq_def)
  have same: "resends r t \<longleftrightarrow> resends o1 t" for t
    using o1(3) by (simp add: resends_def ack_eq_def)
  have stop: "resends r s" if "tlm_compose cfg be o1 = Inl s" for s
    unfolding same using tlm_compose_stop [OF o1(1) _ that] pend o1(3) by (simp add: ack_eq_def)
  have sent: "resends r (tlm_settle cfg be ret res t)"
    if "tlm_compose cfg be o1 = Inr s" "tx_send cfg be (tlm_frame_of s) s = (ret, res, t)" for s ret res t
  proof -
    have "radio_inv be s" "may_send (tlm_frame_of s) s"
      using tlm_compose_inv(2) [OF o1(1,2) that(1)] by (auto intro: tlm_frame_may_send)
    moreover have "ack_eq r s" using tlm_compose_ack [OF that(1)] o1(3) by (simp add: ack_eq_def)
    ultimately show ?thesis using resends_send [OF _ pend _ _ that(2)] by simp
  qed
  have mute: "rd_air s = rd_air r" if "tlm_compose cfg be o1 = Inr s" for s
    using tlm_compose_ack [OF that] o1(3) by (simp add: ack_eq_def)
  show ?thesis
    using stop sent mute unfolding tlm_step_def o1_def [symmetric] Let_def
    by (auto simp: resends_air split: sum.split prod.split)
qed

lemma tx_work_handler_resends:
  assumes "radio_inv be r" "rd_ack_pending r" "rd_backoff_until r = 0"
  shows "resends r (tx_work_handler cfg be r)"
proof -
  let ?q = "tx_queued_step cfg be r"
  have "resends r (tlm_step cfg be (snd ?q))" if "\<not> fst ?q"
  proof -
    have ack: "ack_eq r (snd ?q)" by (rule tx_queued_step_resends(2) [OF assms that])
    then have "resends (snd ?q) (tlm_step cfg be (snd ?q))"
      using assms(2) by (intro tlm_step_resends tx_queued_step_inv [OF assms(1)]) (simp add: ack_eq_def)
    then show ?thesis using ack by (simp add: resends_def ack_eq_def)
  qed
  then show ?thesis
    using tx_queued_step_resends(1) [OF assms, of cfg]
    by (auto simp: tx_work_handler_def split_def Let_def resends_air)
qed

lemma hist_budget_error_air [simp]: "rd_air (hist_budget_error be r) = rd_air r"
proof -
  have "rd_air (snd (app_radio_tx_queue k t p b r)) = rd_air r" for k t p b
    using tx_queue_grow [of r k t p b] by (simp add: grow_def ack_eq_def)
  then show ?thesis by (simp add: hist_budget_error_def split: option.split)
qed

lemma hist_finish_air [simp]: "rd_air (hist_finish be r) = rd_air r"
  by (simp add: hist_finish_def)

lemma hist_prepare_ack:
  "hist_prepare be r = Inr s \<Longrightarrow> ack_eq r s"
  "hist_prepare be r = Inl s \<Longrightarrow> rd_air s = rd_air r"
  by (auto simp: hist_prepare_def hist_build_def split_def Let_def ack_eq_def
      split: if_splits option.splits)

lemma hist_work_handler_resends:
  assumes inv: "radio_inv be r" and pend: "rd_ack_pending r"
  shows "resends r (hist_work_handler cfg be r)"
proof -
  have sent: "resends r (hist_settle be ret' res t)"
    if "rd_hist_active r" "hist_prepare be r = Inr s"
      "tx_send cfg be (hist_frame_of cfg be s) s = (ret, res, t)" for s ret ret' res t
  proof -
    have "radio_inv be s" "rd_hist_active s" using hist_prepare_inv(2) [OF inv that(1,2)] by auto
    moreover have "may_send (hist_frame_of cfg be s) s"
      using calculation by (simp add: may_send_def hist_frame_of_def path_holds_def path_buf_def)
    ultimately show ?thesis
      using resends_send [OF hist_prepare_ack(1) [OF that(2)] pend _ _ that(3)] by simp
  qed
  show ?thesis
    using sent hist_prepare_ack(2) [of be r]
    by (auto simp: hist_work_handler_def Let_def resends_air split: sum.split prod.split)
qed

text \<open>
  C32: While a confirmed frame waits for its Ack retry (and no network backoff runs), the
  next frame on the air, whatever event comes, is that frame again: same kind, same bytes, still
  confirmed, with the attempt number of the ladder (1 to 3).
\<close>

theorem confirmed_frame_alone:
  assumes "r = radio_run cfg be evs e budget" "rd_ack_pending r" "rd_backoff_until r = 0"
  shows "fr_confirmed (fst (last (rd_air r)))
    \<and> fr_kind (fst (last (rd_air r))) = rd_ack_kind r
    \<and> 1 \<le> rd_ack_retries r \<and> rd_ack_retries r \<le> 3
    \<and> resends r (radio_step cfg be ev r)"
proof -
  have inv: "radio_inv be r" unfolding assms(1) by (rule radio_run_inv)
  have air: "rd_air (snd (app_radio_tx_queue k t p b r)) = rd_air r" for k t p b
    using tx_queue_grow [of r k t p b] by (simp add: grow_def ack_eq_def)
  have "resends r (tx_work_handler cfg be (tx_dequeue r))"
    using tx_work_handler_resends [OF radio_inv_core [OF inv core_notes(17)], of cfg] assms(2,3)
    by (simp add: resends_def tx_dequeue_def)
  moreover have "resends r (hist_work_handler cfg be (hist_dequeue r))"
    using hist_work_handler_resends [OF radio_inv_core [OF inv core_notes(18)], of cfg] assms(2)
    by (simp add: resends_def hist_dequeue_def)
  moreover have "rd_air (snd (app_radio_history_replay_start be a b c r)) = rd_air r" for a b c
    by (auto simp: app_radio_history_replay_start_def Let_def split_def)
  moreover have "rd_air (app_radio_link_up be r) = rd_air r"
    by (simp add: app_radio_link_up_def hist_drop_def Let_def)
  ultimately have "resends r (radio_step cfg be ev r)"
    using air by (cases ev) (auto intro: resends_air simp: resends_air)
  then show ?thesis using inv assms(2) by (simp add: radio_inv_def ladder_def)
qed

end
