(* ===== verification/RadioRel.thy ===== *)
theory RadioRel
  imports RadioProps
begin

text \<open>
  Relations every step of the radio module respects.  A preorder that holds across the updates
  of fields it does not watch, across the scheduling calls and across one attempt to send holds
  across whole handlers (\<open>radio_rel\<close>); one that does not watch the queues holds across every
  event (\<open>radio_rel_all\<close>).
\<close>

lemma tx_send_cases:
  assumes "tx_send cfg be f r = (ret, res, r')"
  obtains (busy) "rd_ack_pending r" "rd_ack_kind r \<noteq> fr_kind f" "ret = TX_ERR EBUSY" "r' = r"
  | (tried) s g x y t u where "s = r \<or> s = r\<lparr>rd_ack_retries := 0\<rparr>"
      "tx_attempt cfg be g s = (x, y, t)" "u = t \<or> u = count_retry t"
      "fr_kind g = fr_kind f" "tx_settle cfg be (rd_ack_pending r) g x y u = (ret, res, r')"
proof (cases "rd_ack_pending r \<and> rd_ack_kind r \<noteq> fr_kind f")
  case True
  then show ?thesis using assms by (intro busy) (auto simp: tx_send_def)
next
  case False
  define s where "s = (if rd_ack_pending r then r else r\<lparr>rd_ack_retries := 0\<rparr>)"
  define g where "g = f\<lparr>fr_confirmed := rd_ack_pending r \<or> fr_confirmed f, fr_attempt := rd_ack_retries s\<rparr>"
  obtain x y t where att: "tx_attempt cfg be g s = (x, y, t)" using prod_cases3 by blast
  define u where "u = (if rd_ack_pending r \<and> (x = None \<or> x = Some ETIMEDOUT) then count_retry t else t)"
  have "tx_settle cfg be (rd_ack_pending r) g x y u = (ret, res, r')"
    using assms False att unfolding tx_send_def Let_def
    by (auto simp: s_def g_def u_def split: if_splits prod.splits)
  then show ?thesis
    by (intro tried [OF _ att]) (auto simp: s_def u_def g_def)
qed

text \<open>The replay's own state, the retry counter and the work item aside.\<close>

definition hist_same :: "'b radio \<Rightarrow> 'b radio \<Rightarrow> bool" where
  "hist_same r s \<longleftrightarrow>
     rd_hist_active s = rd_hist_active r \<and> rd_hist_from s = rd_hist_from r \<and>
     rd_hist_to s = rd_hist_to r \<and> rd_hist_seq s = rd_hist_seq r \<and>
     rd_hist_count s = rd_hist_count r \<and> rd_hist_idx s = rd_hist_idx r \<and>
     rd_hist_bound s = rd_hist_bound r \<and> rd_hist_cursor s = rd_hist_cursor r \<and>
     rd_hist_end s = rd_hist_end r \<and> rd_hist_layout s = rd_hist_layout r \<and>
     rd_hist_n s = rd_hist_n r \<and> rd_hist_next s = rd_hist_next r \<and>
     rd_hist_buf s = rd_hist_buf r \<and> rd_replayed s = rd_replayed r"

text \<open>A frame of the kind waits for its Ack retry.\<close>

definition waits :: "frame_kind \<Rightarrow> 'b radio \<Rightarrow> bool" where
  "waits k r \<longleftrightarrow> rd_ack_pending r \<and> rd_ack_kind r = k"

text \<open>\<open>ks\<close>: the kinds whose wait the relation watches; the handlers here send others.\<close>

locale radio_rel =
  fixes cfg :: radio_cfg and be :: "'b backend" and R :: "'b radio \<Rightarrow> 'b radio \<Rightarrow> bool"
    and ks :: "frame_kind set"
  assumes watched: "ks \<subseteq> {K_HISTORY}"
    and refl: "R r r"
    and trans: "R r s \<Longrightarrow> R s t \<Longrightarrow> R r t"
    and silent: "rd_duty r' = rd_duty r \<Longrightarrow> rd_charged r' = rd_charged r \<Longrightarrow> rd_now r' = rd_now r \<Longrightarrow>
      rd_tx_work r' = rd_tx_work r \<Longrightarrow> rd_answer_q r' = rd_answer_q r \<Longrightarrow>
      rd_alarm_q r' = rd_alarm_q r \<Longrightarrow> hist_same r r' \<Longrightarrow> (\<And>k. k \<in> ks \<Longrightarrow> waits k r' \<Longrightarrow> waits k r) \<Longrightarrow> R r r'"
    and sched: "R r (tx_schedule d r)" "R r (tx_work_kick r)"
    and queue: "R r (snd (app_radio_tx_queue kind tag port buf r))"
    and attempt: "R r (snd (snd (tx_attempt cfg be f r)))"
begin

lemma rel_link_result: "R r (app_radio_link_result cfg be ok r)"
  by (rule silent) (simp add: waits_def | simp add: hist_same_def app_radio_link_result_def warning_step_def link_set_streak_def
      link_clear_def split_def Let_def)+

lemma rel_ack_backoff: "R r (snd (ack_backoff be r))"
  by (rule silent) (simp_all add: hist_same_def waits_def ack_backoff_def split_def Let_def)

lemma count: "R r (count_retry r)"
  by (rule silent) (simp_all add: hist_same_def waits_def count_retry_def)

lemma hist_kick: "R r (hist_work_kick r)"
  by (rule silent) (simp_all add: hist_same_def waits_def hist_work_kick_def)

lemma hist_sched: "R r (hist_schedule d r)"
  by (rule silent) (simp_all add: hist_same_def waits_def hist_schedule_def)

lemma report: "R r (snd (report_flags cfg be r))"
  by (rule silent) (simp add: waits_def | simp add: hist_same_def report_flags_def split_def Let_def)+

lemma env: "R r (r\<lparr>rd_env := e\<rparr>)"
  by (rule silent) (simp_all add: hist_same_def waits_def)

lemma kick: "R r (app_radio_tx_kick r)"
  by (auto simp: app_radio_tx_kick_def Let_def intro: trans [OF sched(2)] sched hist_kick)

lemma release: "R r (ack_release k r)"
proof -
  have "R r (r\<lparr>rd_ack_pending := False\<rparr>)" by (rule silent) (simp_all add: hist_same_def waits_def)
  then show ?thesis
    by (auto simp: ack_release_def Let_def refl intro: trans sched hist_kick)
qed

lemma settle: "fr_kind f \<notin> ks \<Longrightarrow> R r (snd (snd (tx_settle cfg be b f x y r)))"
proof -
  assume "fr_kind f \<notin> ks"
  then have "R r (r\<lparr>rd_ack_pending := True, rd_ack_kind := fr_kind f, rd_ack_retries := n\<rparr>)" for n
    by (intro silent) (auto simp: hist_same_def waits_def)
  then show ?thesis
    by (auto simp: tx_settle_def split_def Let_def refl
        intro: release rel_ack_backoff trans [OF release rel_link_result] trans [OF _ rel_ack_backoff]
        split: option.split errno.split)
qed

lemma send: "fr_kind f \<notin> ks \<Longrightarrow> R r (snd (snd (tx_send cfg be f r)))"
proof -
  assume f: "fr_kind f \<notin> ks"
  obtain ret res r' where eq: "tx_send cfg be f r = (ret, res, r')" using prod_cases3 by blast
  then have "R r r'"
  proof (cases rule: tx_send_cases)
    case (tried s g x y t u)
    have "R r (r\<lparr>rd_ack_retries := 0\<rparr>)" by (rule silent) (simp_all add: hist_same_def waits_def)
    then have "R r s" using tried(1) refl by auto
    moreover have "R s t" using attempt [of s g] tried(2) by simp
    moreover have "R t u" using tried(3) refl count by auto
    moreover have "R u r'" using settle [of g u "rd_ack_pending r" x y] f tried(4,5) by simp
    ultimately show ?thesis by (blast intro: trans)
  qed (simp add: refl)
  then show ?thesis by (simp add: eq)
qed

lemma rel_tlm_close: "R r (tlm_close be b r)"
  unfolding tlm_close_def
  by (rule trans [OF silent release]) (auto simp: hist_same_def waits_def split: if_splits)

lemma rel_tlm_next: "R r (tlm_next be sent r)"
proof -
  have gap: "R r (tx_schedule (be_frame_gap be) t)" if "R r t" for t
    by (rule trans [OF that sched(1)])
  have fin: "R r (tlm_close be False t)" if "R r t" for t
    by (rule trans [OF that rel_tlm_close])
  have a: "R r (r\<lparr>rd_tlm_frame := False, rd_tlm_first := False\<rparr>)" by (rule silent) (simp_all add: hist_same_def waits_def)
  have b: "R r (r\<lparr>rd_tlm_frame := False, rd_tlm_first := False, rd_link := l,
      rd_tlm_done_ms := t, rd_tlm_done_valid := v\<rparr>)" for l t v
    by (rule silent) (simp_all add: hist_same_def waits_def)
  show ?thesis
    by (simp add: tlm_next_def Let_def gap [OF a] fin [OF a] gap [OF fin [OF a]]
        fin [OF b] gap [OF fin [OF b]])
qed

lemma rel_tlm_settle: "R r (tlm_settle cfg be ret res r)"
proof -
  have "R r (r\<lparr>rd_tlm_retries := n\<rparr>)" "R r (r\<lparr>rd_last_uplink := t\<rparr>)" for n t
    by (rule silent; simp add: hist_same_def waits_def)+
  then show ?thesis
    by (auto simp: tlm_settle_def Let_def refl
        intro: sched rel_tlm_close rel_tlm_next trans [OF _ rel_tlm_next] trans [OF _ rel_tlm_close]
          trans [OF trans [OF _ count] sched(1)]
        split: tx_ret.split errno.split)
qed

lemma tlm_send: "fr_kind f = K_TELEMETRY \<Longrightarrow> R r (snd (snd (tx_send cfg be f r)))"
  using watched by (intro send) auto

lemma rel_tlm_flush: "R r (tlm_flush cfg be r)"
  by (auto simp: tlm_flush_def split_def Let_def
      intro: tlm_send trans [OF tlm_send sched(1)] trans [OF tlm_send rel_tlm_close])

lemma rel_tlm_compose:
  "tlm_compose cfg be r = Inl s \<Longrightarrow> R r s" "tlm_compose cfg be r = Inr s \<Longrightarrow> R r s"
proof -
  have a: "R r (r\<lparr>rd_env := e, rd_tlm_buf := b, rd_tlm_more := m\<rparr>)" for e b m
    by (rule silent) (simp_all add: hist_same_def waits_def)
  have c: "R r (t\<lparr>rd_tlm_frame := True, rd_tlm_retries := 0\<rparr>)" if "R r t" for t
    by (rule trans [OF that silent]) (simp_all add: hist_same_def waits_def)
  have d: "R r (t\<lparr>rd_tlm_flags := fl, rd_tlm_frame := True, rd_tlm_retries := 0\<rparr>)"
    if "R r t" for t fl
    by (rule trans [OF that silent]) (simp_all add: hist_same_def waits_def)
  show "R r s" if "tlm_compose cfg be r = Inl s"
    using that
    by (auto simp: tlm_compose_def split_def Let_def
        intro: trans [OF env rel_tlm_flush] trans [OF env rel_tlm_close] trans [OF a rel_tlm_close]
        split: if_splits compose_ret.splits)
  show "R r s" if "tlm_compose cfg be r = Inr s"
    using that
    by (auto simp: tlm_compose_def split_def Let_def refl
        intro: c d a trans [OF a report] split: if_splits compose_ret.splits)
qed

lemma rel_tlm_step: "R r (tlm_step cfg be r)"
proof -
  define s where "s = (if rd_tlm_open r then r else tlm_begin r)"
  have "R r (tlm_begin r)" by (rule silent) (simp_all add: hist_same_def waits_def tlm_begin_def)
  then have s: "R r s" by (simp add: s_def refl)
  have sent: "R r (tlm_settle cfg be ret res u)"
    if "tlm_compose cfg be s = Inr t" "tx_send cfg be (tlm_frame_of t) t = (ret, res, u)" for t ret res u
  proof -
    have "R t u" using tlm_send [of "tlm_frame_of t" t] that(2) by (simp add: tlm_frame_of_def)
    then show ?thesis
      by (blast intro: trans s rel_tlm_compose(2) [OF that(1)] rel_tlm_settle)
  qed
  have mute: "R r (tlm_settle cfg be ret res t)" if "tlm_compose cfg be s = Inr t" for ret res t
    by (blast intro: trans s rel_tlm_compose(2) [OF that] rel_tlm_settle)
  have stop: "R r t" if "tlm_compose cfg be s = Inl t" for t
    by (blast intro: trans s rel_tlm_compose(1) [OF that])
  show ?thesis
    using sent mute stop refl unfolding tlm_step_def s_def [symmetric] Let_def
    by (auto split: sum.split prod.split)
qed

end

text \<open>Relations that watch only the ledger, the air charged to it and the clock.\<close>

definition same_ledger :: "'b radio \<Rightarrow> 'b radio \<Rightarrow> bool" where
  "same_ledger r s \<longleftrightarrow> rd_duty s = rd_duty r \<and> rd_charged s = rd_charged r \<and> rd_now s = rd_now r"

lemma same_ledger_trans: "same_ledger r s \<Longrightarrow> same_ledger s t \<Longrightarrow> same_ledger r t"
  by (simp add: same_ledger_def)

lemma same_ledger_ops:
  "same_ledger r (tx_schedule d r)" "same_ledger r (tx_work_kick r)"
  "same_ledger r (hist_work_kick r)" "same_ledger r (hist_schedule d r)"
  "same_ledger r (snd (app_radio_backoff_wait_ms r))" "same_ledger r (app_radio_backoff_set n r)"
  "same_ledger r (app_radio_note_send b h r)" "same_ledger r (stale_note_hold w r)"
  "same_ledger r (app_radio_note_uplink r)" "same_ledger r (tx_dequeue r)"
  "same_ledger r (hist_dequeue r)" "same_ledger r (app_radio_force_link_check r)"
  "same_ledger r (time_request_run be r)" "same_ledger r (rearm be st r)"
  "same_ledger r (ready_kick be r)" "same_ledger r (count_retry r)"
  "same_ledger r (link_clear r)" "same_ledger r (cur_done fate r)"
  "same_ledger r (app_radio_tx_kick r)" "same_ledger r (tx_request_telemetry r)"
  "same_ledger r (ack_release k r)" "same_ledger r (snd (ack_backoff be r))"
  by (simp_all add: same_ledger_def tx_schedule_def tx_work_kick_def hist_work_kick_def
      hist_schedule_def app_radio_backoff_wait_ms_def app_radio_backoff_set_def
      app_radio_note_send_def stale_note_hold_def app_radio_note_uplink_def tx_dequeue_def
      hist_dequeue_def app_radio_force_link_check_def time_request_run_def rearm_def ready_kick_def
      count_retry_def link_clear_def cur_done_def app_radio_tx_kick_def tx_request_telemetry_def
      ack_release_def ack_backoff_def split_def Let_def)

lemma same_ledger_tx_queue: "same_ledger r (snd (app_radio_tx_queue kind tag port buf r))"
proof -
  have "same_ledger r (r\<lparr>rd_in := i, rd_alarm_q := q\<rparr>)" "same_ledger r (r\<lparr>rd_in := i, rd_answer_q := q\<rparr>)"
    for i q
    by (simp_all add: same_ledger_def)
  then show ?thesis
    by (auto simp: app_radio_tx_queue_def split_def Let_def same_ledger_def
        app_radio_tx_kick_def hist_work_kick_def tx_work_kick_def tx_schedule_def
        app_radio_backoff_wait_ms_def)
qed

lemma same_ledger_link_result: "same_ledger r (app_radio_link_result cfg be ok r)"
  by (simp add: app_radio_link_result_def warning_step_def link_clear_def link_set_streak_def
      same_ledger_def split_def Let_def)

lemmas same_ledger_simps [simp] =
  same_ledger_ops [unfolded same_ledger_def] same_ledger_tx_queue [unfolded same_ledger_def]
  same_ledger_link_result [unfolded same_ledger_def]

lemma same_ledger_flush_held: "same_ledger r (flush_held be r)"
proof -
  have "same_ledger s (fold (\<lambda>b r. snd (app_radio_tx_queue K_ALARM TAG_OTHER 0 b r)) bs s)" for bs s
  proof (induction bs arbitrary: s)
    case (Cons b bs)
    then show ?case by (simp add: same_ledger_def)
  qed (simp add: same_ledger_def)
  then have "same_ledger (r\<lparr>rd_env := e\<rparr>)
      (fold (\<lambda>b r. snd (app_radio_tx_queue K_ALARM TAG_OTHER 0 b r)) bs (r\<lparr>rd_env := e\<rparr>))" for bs e
    by blast
  then show ?thesis by (simp add: flush_held_def split_def Let_def same_ledger_def)
qed

lemmas same_ledger_flush [simp] = same_ledger_flush_held [unfolded same_ledger_def]

lemma same_ledger_queued:
  "same_ledger r (snd (recover_over_budget be tx kind b r))"
  "same_ledger r (backoff_yield_to_alarm r)" "same_ledger r (take_cur be kind tx r)"
  by (auto simp: recover_over_budget_def backoff_yield_to_alarm_def take_cur_def same_ledger_def
      split_def Let_def split: frame_tag.split option.split)

lemmas same_ledger_queued_simps [simp] = same_ledger_queued [unfolded same_ledger_def]

lemma same_ledger_pick_cur:
  "pick_cur be r = Inl (b, s) \<Longrightarrow> same_ledger r s" "pick_cur be r = Inr s \<Longrightarrow> same_ledger r s"
  by (auto simp: pick_cur_def same_ledger_def split_def Let_def split: if_splits list.splits)

lemma same_ledger_cur_settle: "same_ledger r (cur_settle be ret res r)"
proof -
  have "same_ledger r t" if "recover_over_budget be tx kind b r = (x, t)" for tx kind b x t
    using same_ledger_queued(1) [of r be tx kind b] that by simp
  then show ?thesis
    by (auto simp: cur_settle_def Let_def same_ledger_def
        split: tx_ret.split errno.split option.split prod.split)
qed

lemma same_ledger_hist_end:
  "same_ledger r (hist_end be r)" "same_ledger r (hist_finish be r)" "same_ledger r (hist_drop be r)"
  "same_ledger r (hist_budget_error be r)"
  by (simp_all add: hist_finish_def hist_end_def hist_drop_def hist_budget_error_def same_ledger_def
      split: option.split)

lemmas same_ledger_hist_simps [simp] = same_ledger_hist_end [unfolded same_ledger_def]

lemma same_ledger_hist_build:
  "hist_build be b r = Inl s \<Longrightarrow> same_ledger r s" "hist_build be b r = Inr s \<Longrightarrow> same_ledger r s"
  by (auto simp: hist_build_def same_ledger_def Let_def split: if_splits prod.splits option.splits)

lemma same_ledger_hist_prepare:
  "hist_prepare be r = Inl s \<Longrightarrow> same_ledger r s" "hist_prepare be r = Inr s \<Longrightarrow> same_ledger r s"
  using same_ledger_hist_build [of be "be_budget be (rd_env r)"]
  by (auto simp: hist_prepare_def same_ledger_def Let_def split: if_splits)

lemma same_ledger_hist_settle: "same_ledger r (hist_settle be ret res r)"
  by (auto simp: hist_settle_def hist_sent_def hist_again_def same_ledger_def Let_def
      split: tx_ret.split errno.split)

lemma same_ledger_rest:
  "same_ledger r (snd (app_radio_history_replay_start be a b seq r))"
  "same_ledger r (app_radio_link_up be r)" "same_ledger r (stale_tick cfg be r)"
  by (auto simp: app_radio_history_replay_start_def app_radio_link_up_def stale_tick_def
      same_ledger_def Let_def split_def split: app_radio_stale.split)

text \<open>What such a relation gives for every event.\<close>

locale radio_rel_all =
  fixes cfg :: radio_cfg and be :: "'b backend" and R :: "'b radio \<Rightarrow> 'b radio \<Rightarrow> bool"
  assumes all_refl: "R r r"
    and all_trans: "R r s \<Longrightarrow> R s t \<Longrightarrow> R r t"
    and quiet: "same_ledger r r' \<Longrightarrow> R r r'"
    and elapse: "R r (r\<lparr>rd_now := rd_now r + int dt\<rparr>)"
    and all_attempt: "R r (snd (snd (tx_attempt cfg be f r)))"

sublocale radio_rel_all \<subseteq> radio_rel cfg be R "{}"
proof unfold_locales
  fix r s t :: "'b radio"
  show "R r r" by (rule all_refl)
  show "R r t" if "R r s" "R s t" using that by (rule all_trans)
  show "R r s" if "rd_duty s = rd_duty r" "rd_charged s = rd_charged r" "rd_now s = rd_now r"
    using that by (intro quiet) (simp add: same_ledger_def)
qed (simp_all add: quiet same_ledger_ops same_ledger_tx_queue all_attempt)

context radio_rel_all
begin

lemma after: "R r s \<Longrightarrow> same_ledger s t \<Longrightarrow> R r t"
  by (rule trans [OF _ quiet])

lemma before: "same_ledger r s \<Longrightarrow> R s t \<Longrightarrow> R r t"
  by (rule trans [OF quiet])

lemma rel_tx_queued_step: "R r (snd (tx_queued_step cfg be r))"
proof -
  have y: "R r (backoff_yield_to_alarm r)" by (rule quiet [OF same_ledger_queued(2)])
  have "R r s" if "pick_cur be (backoff_yield_to_alarm r) = Inl (b, s)" for b s
    using after [OF y same_ledger_pick_cur(1) [OF that]] .
  moreover have "R r (cur_settle be ret res t)"
    if "pick_cur be (backoff_yield_to_alarm r) = Inr s" "tx_send cfg be f s = (ret, res, t)"
    for s f ret res t
    using after [OF trans [OF after [OF y same_ledger_pick_cur(2) [OF that(1)]] send [of f s]]
        same_ledger_cur_settle] that(2) by simp
  ultimately show ?thesis
    using y by (auto simp: tx_queued_step_def Let_def split: sum.split prod.split)
qed

lemma rel_tx_work_handler: "R r (tx_work_handler cfg be r)"
proof -
  obtain d s where "tx_queued_step cfg be r = (d, s)" by (cases "tx_queued_step cfg be r")
  then show ?thesis
    using rel_tx_queued_step [of r] trans [OF _ rel_tlm_step, of r s]
    by (auto simp: tx_work_handler_def refl rel_tlm_close)
qed

lemma rel_hist_work_handler: "R r (hist_work_handler cfg be r)"
proof -
  have "R r (hist_settle be x res t)"
    if "hist_prepare be r = Inr s" "tx_send cfg be f s = (ret, res, t)" for s f ret res t x
    using after [OF trans [OF quiet [OF same_ledger_hist_prepare(2) [OF that(1)]] send [of f s]]
        same_ledger_hist_settle] that(2) by simp
  moreover have "R r s" if "hist_prepare be r = Inl s" for s
    by (rule quiet [OF same_ledger_hist_prepare(1) [OF that]])
  ultimately show ?thesis
    using quiet [OF same_ledger_hist_end(2)] refl
    by (auto simp: hist_work_handler_def Let_def split: sum.split prod.split)
qed

lemma rel_radio_step: "R r (radio_step cfg be ev r)"
proof (cases ev)
  case EV_run
  then show ?thesis by (simp add: refl before [OF same_ledger_ops(10) rel_tx_work_handler])
next
  case EV_hist_run
  then show ?thesis by (simp add: refl before [OF same_ledger_ops(11) rel_hist_work_handler])
qed (simp_all add: quiet elapse same_ledger_ops same_ledger_tx_queue same_ledger_link_result
    same_ledger_rest)

lemma radio_steps: "R r (fold (radio_step cfg be) evs r)"
proof (induction evs arbitrary: r)
  case (Cons ev evs)
  then show ?case using trans [OF rel_radio_step Cons.IH] by simp
qed (simp add: refl)

end

end
