(* ===== verification/RadioWake.thy ===== *)
theory RadioWake
  imports RadioRel
begin

text \<open>
  When the scheduler runs again.  Nothing a run does takes back a run already asked for
  (\<open>keeps_run\<close>), so after a run of \<open>tx_work_handler\<close> a frame still queued has a run scheduled,
  unless the frame waits for another path's Ack or the backend asked to be waited for.  The one
  exception is a run that served the report's Ack retry: \<open>wakeup_lost\<close>.
\<close>

abbreviation tx_scheduled :: "'b radio \<Rightarrow> bool" where
  "tx_scheduled r \<equiv> scheduled (rd_tx_work r)"

definition keeps_run :: "'b radio \<Rightarrow> 'b radio \<Rightarrow> bool" where
  "keeps_run r r' \<longleftrightarrow> (tx_scheduled r \<longrightarrow> tx_scheduled r')"

definition queues_empty :: "'b radio \<Rightarrow> bool" where
  "queues_empty r \<longleftrightarrow> rd_answer_q r = [] \<and> rd_alarm_q r = []"

text \<open>New frames come with a run.\<close>

definition wakes :: "'b radio \<Rightarrow> 'b radio \<Rightarrow> bool" where
  "wakes r r' \<longleftrightarrow> keeps_run r r'
     \<and> (rd_answer_q r' = rd_answer_q r \<and> rd_alarm_q r' = rd_alarm_q r \<or> tx_scheduled r')"

lemma wakes_refl [simp]: "wakes r r"
  by (simp add: wakes_def keeps_run_def)

lemma wakes_trans: "wakes r s \<Longrightarrow> wakes s t \<Longrightarrow> wakes r t"
  by (auto simp: wakes_def keeps_run_def)

lemma wakes_same:
  "rd_tx_work r' = rd_tx_work r \<Longrightarrow> rd_answer_q r' = rd_answer_q r \<Longrightarrow>
     rd_alarm_q r' = rd_alarm_q r \<Longrightarrow> wakes r r'"
  by (simp add: wakes_def keeps_run_def)

lemma wakes_env: "wakes (r\<lparr>rd_env := e\<rparr>) t \<Longrightarrow> wakes r t"
  by (simp add: wakes_def keeps_run_def)

lemma wakes_air: "wakes r s \<Longrightarrow> wakes r (s\<lparr>rd_air := a\<rparr>)"
  by (simp add: wakes_def keeps_run_def)

lemma scheduled_ops [simp]:
  "tx_scheduled (tx_schedule d r)" "tx_scheduled (tx_work_kick r)"
  "tx_scheduled (app_radio_tx_kick r)"
  by (auto simp: tx_schedule_def tx_work_kick_def app_radio_tx_kick_def work_reschedule_def
      work_schedule_now_def scheduled_def hist_work_kick_def Let_def)

lemma work_small [simp]:
  "rd_tx_work (snd (app_radio_duty_wait_ms a r)) = rd_tx_work r"
  "rd_tx_work (app_radio_duty_charge a r) = rd_tx_work r"
  "rd_tx_work (snd (app_radio_backoff_wait_ms r)) = rd_tx_work r"
  "rd_tx_work (app_radio_backoff_set s r) = rd_tx_work r"
  "rd_tx_work (app_radio_note_send b h r) = rd_tx_work r"
  "rd_tx_work (stale_note_hold w r) = rd_tx_work r"
  "rd_tx_work (count_retry r) = rd_tx_work r"
  "rd_tx_work (app_radio_link_result cfg be ok r) = rd_tx_work r"
  "rd_tx_work (snd (ack_backoff be r)) = rd_tx_work r"
  "rd_tx_work (snd (report_flags cfg be r)) = rd_tx_work r"
  by (simp_all add: app_radio_duty_wait_ms_def app_radio_set_duty_held_def app_radio_duty_charge_def
      app_radio_backoff_wait_ms_def app_radio_backoff_set_def app_radio_note_send_def
      stale_note_hold_def count_retry_def app_radio_link_result_def warning_step_def
      link_set_streak_def link_clear_def ack_backoff_def report_flags_def split_def Let_def)

lemma wakes_scheduled: "wakes r (tx_schedule d r)" "wakes r (tx_work_kick r)"
  by (simp_all add: wakes_def keeps_run_def)

lemma wakes_tx_queue: "wakes r (snd (app_radio_tx_queue k t p b r))"
  by (simp add: app_radio_tx_queue_def wakes_def keeps_run_def split_def Let_def)

lemma wakes_callbacks: "wakes r (fold (radio_callback cfg be) cbs r)"
proof (induction cbs arbitrary: r)
  case (Cons cb cbs)
  have "wakes r (radio_callback cfg be cb r)"
    by (cases cb) (auto simp: wakes_tx_queue wakes_same split_def Let_def)
  then show ?case using wakes_trans [OF _ Cons] by simp
qed simp

lemma wakes_flush_held: "wakes r (flush_held be r)"
proof -
  have "wakes s (fold (\<lambda>b r. snd (app_radio_tx_queue K_ALARM TAG_OTHER 0 b r)) bs s)" for bs s
    by (induction bs arbitrary: s) (auto intro: wakes_trans wakes_tx_queue)
  from wakes_env [OF this] show ?thesis by (simp add: flush_held_def split_def Let_def)
qed

lemma wakes_attempt: "wakes r (snd (snd (tx_attempt cfg be f r)))"
proof -
  have hold: "wakes r (snd (tx_hold be f r))"
    by (rule wakes_same) (simp_all add: tx_hold_def split_def Let_def)
  have "wakes t (snd (snd (backend_send cfg be f t)))" for t
    unfolding backend_send_def split_def Let_def
    by (simp add: wakes_air wakes_env [OF wakes_callbacks])
  moreover have "wakes r (stale_note_hold w (snd (tx_hold be f r)))" for w
    by (rule wakes_trans [OF hold]) (simp add: wakes_same)
  ultimately show ?thesis
    by (auto simp: tx_attempt_def split_def Let_def wakes_same intro: wakes_trans [OF hold])
qed

interpretation wk: radio_rel cfg be wakes "{}" for cfg :: radio_cfg and be :: "'b backend"
proof unfold_locales
  fix r s t :: "'b radio"
  show "wakes r t" if "wakes r s" "wakes s t" using that by (rule wakes_trans)
  show "wakes r s" if "rd_tx_work s = rd_tx_work r" "rd_answer_q s = rd_answer_q r"
    "rd_alarm_q s = rd_alarm_q r"
    using that by (rule wakes_same)
qed (simp_all add: wakes_tx_queue wakes_attempt wakes_scheduled)

lemma tx_send_own:
  assumes "tx_send cfg be f r = (ret, res, r')"
  shows "own_grow r r'"
proof -
  have att: "own_grow s (snd (snd (tx_attempt cfg be f s)))" for f s
  proof -
    obtain ret res t where a: "tx_attempt cfg be f s = (ret, res, t)" using prod_cases3 by blast
    then have "own_grow s t"
    proof (cases rule: tx_attempt_cases)
      case held
      then show ?thesis by (simp add: core_eq_own)
    next
      case (sent u)
      then show ?thesis by (auto simp: grow_def own_grow_def own_eq_def)
    qed
    then show ?thesis by (simp add: a)
  qed
  show ?thesis
    using assms
  proof (cases rule: tx_send_cases)
    case (tried s g x y t u)
    have "own_grow r s" "own_grow t u"
      using tried(1,3) core_eq_own [OF core_notes(4), of t] by (auto simp: own_grow_def own_eq_def)
    moreover have "own_grow s t" using att [of s g] tried(2) by simp
    ultimately show ?thesis using tx_settle_own [OF tried(5)] by (blast intro: own_grow_trans)
  qed simp
qed

text \<open>Why a send was turned away.\<close>

lemma tx_send_turned_away:
  assumes "tx_send cfg be f r = (TX_ERR e, res, r')" "e = EBUSY \<or> e = ENOTCONN"
  shows "(rd_ack_pending r \<and> rd_ack_kind r \<noteq> fr_kind f \<and> r' = r)
    \<or> (rd_air r' \<noteq> [] \<and> snd (last (rd_air r')) = Some e)"
  using assms(1)
proof (cases rule: tx_send_cases)
  case (tried s g x y t u)
  then have x: "x = Some e"
    using assms(2)
    by (auto simp: tx_settle_def split_def Let_def split: option.splits errno.splits if_splits)
  have "rd_air r' = rd_air t" using tx_settle_air [OF tried(5)] tried(3) by auto
  moreover from tried(2) have "rd_air t \<noteq> [] \<and> snd (last (rd_air t)) = Some e"
    using x assms(2) by (cases rule: tx_attempt_cases) auto
  ultimately show ?thesis by simp
qed simp

subsection \<open>A run schedules the next\<close>

definition frames_wait :: "'b radio \<Rightarrow> bool" where
  "frames_wait r \<longleftrightarrow> rd_cur_valid r \<or> rd_answer_q r \<noteq> [] \<or> rd_alarm_q r \<noteq> []"

text \<open>Another path's Ack is waited for, or the backend said when it cannot send.\<close>

definition kick_expected :: "'b radio \<Rightarrow> bool" where
  "kick_expected r \<longleftrightarrow> (rd_ack_pending r \<and> rd_ack_kind r = K_HISTORY)
     \<or> (rd_air r \<noteq> [] \<and> (snd (last (rd_air r)) = Some EBUSY \<or> snd (last (rd_air r)) = Some ENOTCONN))"

lemma cur_settle_wakes:
  assumes "ret \<noteq> TX_ERR EBUSY" "ret \<noteq> TX_ERR ENOTCONN"
  shows "tx_scheduled (cur_settle be ret res r)"
  using assms
  by (auto simp: cur_settle_def Let_def split: tx_ret.split errno.split prod.split option.split)

lemma tx_queued_step_wakes:
  assumes inv: "radio_inv be r" and step: "tx_queued_step cfg be r = (b, r')"
    and free: "\<not> (rd_ack_pending r \<and> rd_ack_kind r = K_TELEMETRY)"
  shows "b \<Longrightarrow> tx_scheduled r' \<or> kick_expected r'"
    and "\<not> b \<Longrightarrow> \<not> frames_wait r'"
proof -
  define y where "y = backoff_yield_to_alarm r"
  have y: "radio_inv be y" by (simp add: y_def backoff_yield_inv [OF inv])
  have yfree: "\<not> (rd_ack_pending y \<and> rd_ack_kind y = K_TELEMETRY)"
    using free by (auto simp: y_def backoff_yield_to_alarm_def split_def Let_def
        dest!: ack_release_pendingD split: if_splits)
  have "(b \<longrightarrow> tx_scheduled r' \<or> kick_expected r') \<and> (\<not> b \<longrightarrow> \<not> frames_wait r')"
  proof (cases "pick_cur be y")
    case (Inl p)
    then have "p = (b, r')" using step yfree by (auto simp: tx_queued_step_def y_def [symmetric] Let_def)
    then have "pick_cur be y = Inl (b, r')" using Inl by simp
    then show ?thesis
      by (auto simp: pick_cur_def frames_wait_def split_def Let_def split: if_splits list.splits)
  next
    case (Inr s)
    obtain ret res t where send: "tx_send cfg be (cur_frame cfg be s) s = (ret, res, t)"
      using prod_cases3 by blast
    then have r': "b" "r' = cur_settle be ret res t"
      using step yfree Inr by (auto simp: tx_queued_step_def y_def [symmetric] Let_def)
    have s: "radio_inv be s" "rd_cur_valid s" using pick_cur_inv(2) [OF y Inr] by simp_all
    have "ack_eq y s" by (rule pick_cur_ack [OF Inr])
    then have sfree: "rd_ack_pending s \<Longrightarrow> rd_ack_kind s \<noteq> K_TELEMETRY" using yfree by (simp add: ack_eq_def)
    show ?thesis
    proof (cases "ret = TX_ERR EBUSY \<or> ret = TX_ERR ENOTCONN")
      case True
      then have rt: "r' = t" using r'(2) by (auto simp: cur_settle_def)
      from True obtain e where e: "ret = TX_ERR e" "e = EBUSY \<or> e = ENOTCONN" by blast
      from tx_send_turned_away [OF send [unfolded e(1)] e(2)] show ?thesis
      proof
        assume a: "rd_ack_pending s \<and> rd_ack_kind s \<noteq> fr_kind (cur_frame cfg be s) \<and> t = s"
        then have "rd_ack_kind s = K_HISTORY"
          using s sfree by (cases "rd_ack_kind s") (auto simp: radio_inv_def ladder_def path_holds_def cur_frame_def)
        then show ?thesis using a rt r'(1) by (simp add: kick_expected_def)
      next
        assume "rd_air t \<noteq> [] \<and> snd (last (rd_air t)) = Some e"
        then show ?thesis using rt e(2) r'(1) by (auto simp: kick_expected_def)
      qed
    next
      case False
      then show ?thesis using cur_settle_wakes r' by blast
    qed
  qed
  then show "b \<Longrightarrow> tx_scheduled r' \<or> kick_expected r'" "\<not> b \<Longrightarrow> \<not> frames_wait r'" by blast+
qed

lemma tlm_step_cur: "rd_cur_valid (tlm_step cfg be r) = rd_cur_valid r"
proof -
  have send: "rd_cur_valid (snd (snd (tx_send cfg be f s))) = rd_cur_valid s" for f s
    using tx_send_own [of cfg be f s] by (metis own_grow_def own_eq_def prod.collapse)
  have close: "rd_cur_valid (tlm_close be b s) = rd_cur_valid s" for b s
    by (simp add: tlm_close_def)
  have next_: "rd_cur_valid (tlm_next be b s) = rd_cur_valid s" for b s
    by (simp add: tlm_next_def close Let_def)
  have settle: "rd_cur_valid (tlm_settle cfg be ret res s) = rd_cur_valid s" for ret res s
    by (simp add: tlm_settle_def next_ close Let_def split: tx_ret.split errno.split)
  have flush: "rd_cur_valid (tlm_flush cfg be s) = rd_cur_valid s" for s
    by (simp add: tlm_flush_def send close split_def Let_def)
  have compose: "rd_cur_valid t = rd_cur_valid s"
    if "tlm_compose cfg be s = Inl t \<or> tlm_compose cfg be s = Inr t" for s t
    using that by (auto simp: tlm_compose_def flush close split_def Let_def
        split: if_splits compose_ret.splits)
  have "rd_cur_valid (tlm_begin r) = rd_cur_valid r" by (simp add: tlm_begin_def)
  then show ?thesis
    using compose send settle unfolding tlm_step_def Let_def
    by (auto split: sum.split prod.split) (metis snd_conv)+
qed


subsection \<open>A concrete backend, and the lost wake-up\<close>

text \<open>
  P2P in small: every report goes confirmed, a send takes a second and charges 100 ms of air, the
  environment counts the sends, and the first one gets no Ack.
\<close>

definition demo_be :: "nat backend" where
  "demo_be =
     \<lparr>be_send = (\<lambda>f n. (if n = 0 then Some ETIMEDOUT else None, tx_result0,
                        [CB_charge 100, CB_time 1000], n + 1)),
      be_budget = (\<lambda>_. 51), be_tx_ready = (\<lambda>_. True),
      be_report_flags = (\<lambda>due n. (\<lparr>rf_confirmed = True, rf_link_check = due\<rparr>, n)),
      be_healthy = (\<lambda>_. True), be_warning_step = (\<lambda>n. (False, n)),
      be_rejoin = (\<lambda>_ n. (True, n)), be_airtime = (\<lambda>_ _. 100),
      be_confirms = (\<lambda>k. k = K_ANSWER \<or> k = K_HISTORY), be_frame_gap = 0,
      be_compose = (\<lambda>_ n. (CMP_OK [1, 2, 3] False, n)), be_compose_reset = (\<lambda>n. n),
      be_flush_held = (\<lambda>n. ([], n)), be_rearm = (\<lambda>_ n. n), be_budget_error = (\<lambda>_ _. None),
      be_rand = (\<lambda>n. (0, n)), be_time_unset = (\<lambda>_. False), be_time_request = (\<lambda>n. n),
      be_ready_kick = (\<lambda>n. n), be_replay_active = (\<lambda>_ n. n), be_hist_cap = (\<lambda>_ _ _ _. 0),
      be_hist_count = (\<lambda>_ _ _ _. 0), be_hist_span = (\<lambda>_. (0, 0)),
      be_hist_export = (\<lambda>_ _ _ _ _ _. ([], 0, False, 0, 0)),
      be_hist_frame = (\<lambda>_ _ _ _ _ _ _. None)\<rparr>"

definition demo_cfg :: radio_cfg where
  "demo_cfg = \<lparr>cfg_alarm_ack = False, cfg_fail_rejoin = 3, cfg_check_interval = 0,
               cfg_interval_report = 900, cfg_calibration = False, cfg_tx_mute = False\<rparr>"

definition lost_evs :: "radio_ev list" where
  "lost_evs = [EV_link_up, EV_request, EV_run, EV_queue K_ALARM TAG_OTHER 0 [7], EV_time 10000, EV_run]"


text \<open>The same alarm, queued before the report: the run it asks for is scheduled and sends it.\<close>

definition wake_evs :: "radio_ev list" where
  "wake_evs = [EV_link_up, EV_queue K_ALARM TAG_OTHER 0 [7], EV_queue K_ANSWER TAG_OTHER 0 [8]]"


definition retry_evs :: "radio_ev list" where
  "retry_evs = [EV_link_up, EV_queue K_ANSWER TAG_OTHER 0 [8], EV_run]"

theorem confirmed_frame_alone_witness:
  "rd_ack_pending (radio_run demo_cfg demo_be retry_evs 0 36000)
   \<and> resends (radio_run demo_cfg demo_be retry_evs 0 36000)
      (radio_step demo_cfg demo_be EV_run (radio_run demo_cfg demo_be retry_evs 0 36000))"
proof -
  have p: "rd_ack_pending (radio_run demo_cfg demo_be retry_evs 0 36000)" by code_simp
  have b: "rd_backoff_until (radio_run demo_cfg demo_be retry_evs 0 36000) = 0" by code_simp
  show ?thesis using p confirmed_frame_alone [OF refl p b, of EV_run] by simp
qed


end
