(* ===== verification/RadioDuty.thy ===== *)
theory RadioDuty
  imports RadioWake
begin

text \<open>
  The duty cycle of the whole module: \<open>tx_send\<close> asks the ledger before it hands a frame to the
  backend, the backend charges what it sends, and so the air of every sliding hour stays within
  the allowance, whatever the order of events (\<open>radio_air_within_hour\<close>).
\<close>

text \<open>
  What a backend charges while it sends: the frame itself once (its air is what \<open>airtime_ms\<close>
  said), and frames of its own only after asking the ledger again (\<open>b\<close>: the allowance).
\<close>

fun own_checked :: "u32 \<Rightarrow> radio_cb list \<Rightarrow> bool" where
  "own_checked b [] = True"
| "own_checked b (CB_charge a # cbs) = False"
| "own_checked b (CB_checked a dt # cbs) = (a \<le> b \<and> own_checked b cbs)"
| "own_checked b (cb # cbs) = own_checked b cbs"

fun metered :: "u32 \<Rightarrow> u32 \<Rightarrow> radio_cb list \<Rightarrow> bool" where
  "metered b air [] = True"
| "metered b air (CB_charge a # cbs) = (a = air \<and> own_checked b cbs)"
| "metered b air (CB_checked a dt # cbs) = own_checked b (CB_checked a dt # cbs)"
| "metered b air (cb # cbs) = metered b air cbs"

definition meters_air :: "u32 \<Rightarrow> 'b backend \<Rightarrow> bool" where
  "meters_air b be \<longleftrightarrow>
     (\<forall>f e. let air = be_airtime be e (length (fr_buf f)) in
        air \<le> b \<and> metered b air (fst (snd (snd (be_send be f e)))))"

text \<open>The ledger accounts for the air charged so far.\<close>

definition accounts :: "u32 \<Rightarrow> 'b radio \<Rightarrow> bool" where
  "accounts b r \<longleftrightarrow> (\<exists>z. 0 \<le> z \<and> z \<le> rd_now r \<and> duty_reach b z (rd_duty r) (rd_charged r))"

abbreviation WRAP :: int where "WRAP \<equiv> 2 ^ 32 - 3600000"

definition duty_step :: "u32 \<Rightarrow> 'b radio \<Rightarrow> 'b radio \<Rightarrow> bool" where
  "duty_step b r s \<longleftrightarrow> rd_now r \<le> rd_now s \<and> (rd_now s < WRAP \<longrightarrow> accounts b r \<longrightarrow> accounts b s)"

lemma duty_step_refl: "duty_step b r r"
  by (simp add: duty_step_def)

lemma duty_step_trans: "duty_step b r s \<Longrightarrow> duty_step b s t \<Longrightarrow> duty_step b r t"
  by (auto simp: duty_step_def)

lemma duty_step_quiet: "same_ledger r s \<Longrightarrow> duty_step b r s"
  by (auto simp: duty_step_def accounts_def same_ledger_def)

lemma duty_step_elapse: "duty_step b r (r\<lparr>rd_now := rd_now r + int dt\<rparr>)"
  by (auto simp: duty_step_def accounts_def)

lemma duty_wait_now [simp]:
  "rd_now (snd (app_radio_duty_wait_ms a r)) = rd_now r"
  "rd_charged (snd (app_radio_duty_wait_ms a r)) = rd_charged r"
  "rd_now (app_radio_duty_charge a r) = rd_now r"
  by (simp_all add: app_radio_duty_wait_ms_def app_radio_set_duty_held_def app_radio_duty_charge_def
      split_def Let_def)

lemma accounts_wait: "rd_now r < WRAP \<Longrightarrow> accounts b r \<Longrightarrow> accounts b (snd (app_radio_duty_wait_ms a r))"
proof -
  assume "rd_now r < WRAP" "accounts b r"
  then obtain z where z: "0 \<le> z" "z \<le> rd_now r" "duty_reach b z (rd_duty r) (rd_charged r)"
    by (auto simp: accounts_def)
  have "rd_now r - z < WRAP" using z(1) \<open>rd_now r < WRAP\<close> by linarith
  from dr_held [OF z(3,2), of a] this
  have "duty_reach b (rd_now r) (rd_duty (snd (app_radio_duty_wait_ms a r))) (rd_charged r)"
    by (simp add: app_radio_duty_wait_ms_def app_radio_set_duty_held_def split_def Let_def)
  then show ?thesis using z unfolding accounts_def by (metis duty_wait_now(1,2) order.refl order.trans)
qed

lemma duty_step_wait: "duty_step b r (snd (app_radio_duty_wait_ms a r))"
  by (simp add: duty_step_def accounts_wait)

text \<open>A frame the ledger admitted may be charged any time later.\<close>

definition admitted :: "u32 \<Rightarrow> u32 \<Rightarrow> 'b radio \<Rightarrow> bool" where
  "admitted b a r \<longleftrightarrow>
     (rd_now r < WRAP \<longrightarrow> (\<forall>t' \<ge> rd_now r. t' < WRAP \<longrightarrow>
        duty_reach b t' (app_radio_ledger_charge (rd_duty r) t' a) (rd_charged r @ [(t', unat a)])))"

lemma admitted_wait:
  assumes "accounts b r" "a \<le> b" "app_radio_duty_wait_ms a r = (w, s)" "w \<le> 0"
  shows "admitted b a s"
proof -
  obtain z where z: "0 \<le> z" "z \<le> rd_now r" "duty_reach b z (rd_duty r) (rd_charged r)"
    using assms(1) by (auto simp: accounts_def)
  obtain v d where v: "app_radio_ledger_wait_ms (rd_duty r) (rd_now r) a = (v, d)" by fastforce
  have s: "w = v" "rd_duty s = d" "rd_now s = rd_now r" "rd_charged s = rd_charged r"
    using assms(3,4) v
    by (auto simp: app_radio_duty_wait_ms_def app_radio_set_duty_held_def Let_def split: if_splits)
  have "0 \<le> v" using v by (auto simp: app_radio_ledger_wait_ms_def Let_def split: if_splits)
  then have v0: "app_radio_ledger_wait_ms (rd_duty r) (rd_now r) a = (0, d)" using v s assms(4) by simp
  have "duty_reach b t' (app_radio_ledger_charge d t' a) (rd_charged r @ [(t', unat a)])"
    if "rd_now r < WRAP" "rd_now r \<le> t'" "t' < WRAP" for t'
  proof (rule dr_sent [OF z(3,2) _ _ v0 that(2)])
    show "rd_now r - z < 2 ^ 32 - 3600000" using z(1) that(1) by linarith
    show "t' - rd_now r < 2 ^ 32 - 3600000" using z that(3) by linarith
    show "unat a \<le> unat b" using assms(2) by (simp add: word_le_nat_alt)
  qed
  then show ?thesis by (simp add: admitted_def s)
qed

text \<open>What leaves the ledger alone while the frame is on its way.\<close>

lemma admitted_later:
  fixes r s :: "'b radio"
  assumes "admitted b a r" "rd_duty s = rd_duty r" "rd_charged s = rd_charged r" "rd_now r \<le> rd_now s"
  shows "admitted b a s"
  using assms by (auto simp: admitted_def)

lemma admitted_charge:
  assumes "admitted b a r" "0 \<le> rd_now r"
  shows "rd_now r < WRAP \<Longrightarrow> accounts b (app_radio_duty_charge a r)"
  using assms
  by (auto simp: admitted_def accounts_def app_radio_duty_charge_def app_radio_set_duty_held_def)

lemma duty_step_checked:
  assumes "a \<le> b" "0 \<le> rd_now r"
  shows "duty_step b r (radio_callback cfg be (CB_checked a dt) r)"
proof -
  obtain w s where w: "app_radio_duty_wait_ms a r = (w, s)" by fastforce
  then have now: "rd_now s = rd_now r" using duty_wait_now(1) [of a r] by simp
  let ?u = "s\<lparr>rd_now := rd_now s + int dt\<rparr>"
  show ?thesis
  proof (cases "0 < w")
    case True
    then show ?thesis using duty_step_wait [of b r a] w by simp
  next
    case False
    have "accounts b (app_radio_duty_charge a ?u)" if "accounts b r" "rd_now ?u < WRAP"
    proof (rule admitted_charge [OF admitted_later])
      show "admitted b a s" using admitted_wait [OF that(1) assms(1) w] False by simp
    qed (use assms(2) now that(2) in simp_all)
    then show ?thesis using False w now by (simp add: duty_step_def)
  qed
qed

lemma duty_step_callback:
  assumes "\<forall>a. cb \<noteq> CB_charge a" "\<forall>a dt. cb \<noteq> CB_checked a dt"
  shows "duty_step b r (radio_callback cfg be cb r)"
    and "admitted b a r \<Longrightarrow> admitted b a (radio_callback cfg be cb r)"
proof -
  have "same_ledger r (radio_callback cfg be cb r) \<or> (\<exists>dt. cb = CB_time dt)"
    using assms
    by (cases cb) (auto simp: same_ledger_ops same_ledger_tx_queue same_ledger_link_result)
  then show "duty_step b r (radio_callback cfg be cb r)"
    and "admitted b a r \<Longrightarrow> admitted b a (radio_callback cfg be cb r)"
    using admitted_later [of b a r "radio_callback cfg be cb r"]
    by (auto simp: duty_step_quiet duty_step_elapse same_ledger_def)
qed

lemma duty_step_now: "duty_step b r s \<Longrightarrow> 0 \<le> rd_now r \<Longrightarrow> 0 \<le> rd_now s"
  by (simp add: duty_step_def)

lemma own_checked_steps:
  "own_checked b cbs \<Longrightarrow> 0 \<le> rd_now r \<Longrightarrow> duty_step b r (fold (radio_callback cfg be) cbs r)"
proof (induction cbs arbitrary: r)
  case (Cons cb cbs)
  have "duty_step b r (radio_callback cfg be cb r)" "own_checked b cbs"
    using Cons.prems duty_step_checked duty_step_callback(1) [of cb b r cfg be]
    by (cases cb; force)+
  then show ?case
    using Cons.IH [OF _ duty_step_now] Cons.prems(2) by (auto intro: duty_step_trans)
qed (simp add: duty_step_refl)

lemma metered_steps:
  "metered b a cbs \<Longrightarrow> 0 \<le> rd_now r \<Longrightarrow> admitted b a r \<Longrightarrow>
     duty_step b r (fold (radio_callback cfg be) cbs r)"
proof (induction cbs arbitrary: r)
  case (Cons cb cbs)
  consider (charge) "cb = CB_charge a" "own_checked b cbs" | (checked) "own_checked b (cb # cbs)"
    | (other) "\<forall>a. cb \<noteq> CB_charge a" "\<forall>a dt. cb \<noteq> CB_checked a dt" "metered b a cbs"
    using Cons.prems(1) by (cases cb) auto
  then show ?case
  proof cases
    case charge
    have "duty_step b r (app_radio_duty_charge a r)"
      using admitted_charge [OF Cons.prems(3,2)] by (auto simp: duty_step_def)
    then show ?thesis
      using charge Cons.prems(2) own_checked_steps [of b cbs "app_radio_duty_charge a r" cfg be]
      by (auto intro: duty_step_trans)
  next
    case checked
    then show ?thesis using own_checked_steps Cons.prems(2) by blast
  next
    case other
    note step = duty_step_callback [OF other(1,2), where cfg = cfg and be = be and r = r and b = b]
    show ?thesis
      using duty_step_trans [OF step(1) Cons.IH [OF other(3)
          duty_step_now [OF step(1) Cons.prems(2)] step(2) [OF Cons.prems(3)]]] by simp
  qed
qed (simp add: duty_step_refl)

lemma callbacks_now: "rd_now r \<le> rd_now (fold (radio_callback cfg be) cbs r)"
proof (induction cbs arbitrary: r)
  case (Cons cb cbs)
  have "rd_now r \<le> rd_now (radio_callback cfg be cb r)"
    by (cases cb) (auto simp: split_def Let_def)
  then show ?case using Cons.IH [of "radio_callback cfg be cb r"] by simp
qed simp

lemma hold_admits:
  assumes "accounts b r" "be_airtime be (rd_env r) (length (fr_buf f)) \<le> b" "tx_hold be f r = (h, s)"
  shows "duty_step b r s" "h \<le> 0 \<Longrightarrow> admitted b (be_airtime be (rd_env r) (length (fr_buf f))) s"
    "rd_env s = rd_env r"
proof -
  let ?a = "be_airtime be (rd_env r) (length (fr_buf f))"
  obtain w t where w: "app_radio_duty_wait_ms ?a r = (w, t)" by fastforce
  have t: "duty_step b r t" using duty_step_wait [of b r ?a] w by simp
  have hs: "same_ledger t s" "w \<le> h" and env: "rd_env s = rd_env t"
    using assms(3) w
    by (auto simp: tx_hold_def Let_def same_ledger_def app_radio_backoff_wait_ms_def split: if_splits)
  have "rd_env t = rd_env r"
    using w by (auto simp: app_radio_duty_wait_ms_def app_radio_set_duty_held_def Let_def split_def
        split: if_splits)
  then show "rd_env s = rd_env r" using env by simp
  show "duty_step b r s" by (rule duty_step_trans [OF t duty_step_quiet [OF hs(1)]])
  show "admitted b ?a s" if "h \<le> 0"
    using admitted_later [OF admitted_wait [OF assms(1,2) w order.trans [OF hs(2) that]]] hs(1)
    by (simp add: same_ledger_def)
qed

lemma attempt_now: "rd_now r \<le> rd_now (snd (snd (tx_attempt cfg be f r)))"
proof -
  have "rd_now (snd (tx_hold be f r)) = rd_now r"
    by (simp add: tx_hold_def app_radio_backoff_wait_ms_def split_def Let_def)
  moreover have "rd_now s \<le> rd_now (snd (snd (backend_send cfg be f s)))" for s
    using callbacks_now [of "s\<lparr>rd_env := e\<rparr>" for e] by (simp add: backend_send_def split_def Let_def)
  ultimately show ?thesis
    by (auto simp: tx_attempt_def stale_note_hold_def split_def Let_def)
      (metis)
qed

lemma duty_step_attempt:
  assumes "meters_air b be"
  shows "duty_step b r (snd (snd (tx_attempt cfg be f r)))"
proof (cases "accounts b r")
  case False
  then show ?thesis using attempt_now by (auto simp: duty_step_def)
next
  case True
  let ?a = "be_airtime be (rd_env r) (length (fr_buf f))"
  obtain h s where h: "tx_hold be f r = (h, s)" by fastforce
  obtain ret res cbs e where sent: "be_send be f (rd_env r) = (ret, res, cbs, e)"
    by (metis prod_cases4)
  have air: "?a \<le> b" and met: "metered b ?a cbs"
    using assms sent unfolding meters_air_def Let_def by (metis fst_conv snd_conv)+
  note hold = hold_admits [OF True air h]
  have now: "0 \<le> rd_now s" using True hold(1) by (auto simp: accounts_def duty_step_def)
  show ?thesis
  proof (cases "0 < h")
    case True
    then show ?thesis
      using h duty_step_trans [OF hold(1) duty_step_quiet [OF same_ledger_ops(8)]]
      by (simp add: tx_attempt_def Let_def)
  next
    case False
    let ?s = "s\<lparr>rd_env := e\<rparr>"
    have "duty_step b s (fold (radio_callback cfg be) cbs ?s)"
      using metered_steps [OF met, of ?s cfg be] now hold(2) False
      by (auto simp: admitted_def duty_step_def accounts_def)
    then have "duty_step b r (fold (radio_callback cfg be) cbs ?s)" by (rule duty_step_trans [OF hold(1)])
    then show ?thesis
      using False h sent hold(3)
      by (auto simp: tx_attempt_def backend_send_def Let_def
          intro: duty_step_trans [OF _ duty_step_quiet] simp: same_ledger_def)
  qed
qed

text \<open>Every event respects the relation, for a backend that meters its air.\<close>

definition metered_step :: "'b backend \<Rightarrow> u32 \<Rightarrow> 'b radio \<Rightarrow> 'b radio \<Rightarrow> bool" where
  "metered_step be b r s \<longleftrightarrow> (meters_air b be \<longrightarrow> duty_step b r s)"

interpretation dr: radio_rel_all cfg be "metered_step be b"
  for cfg :: radio_cfg and be :: "'b backend" and b :: u32
proof unfold_locales
  fix r s t :: "'b radio"
  show "metered_step be b r t" if "metered_step be b r s" "metered_step be b s t"
    using that by (auto simp: metered_step_def intro: duty_step_trans)
qed (simp_all add: metered_step_def duty_step_refl duty_step_quiet duty_step_elapse
    duty_step_attempt)


text \<open>The ACKed answers of \<open>retry_evs\<close> in 16 s: two frames, 200 ms of air.\<close>

lemma demo_meters: "meters_air 36000 demo_be"
  by (simp add: meters_air_def demo_be_def)


end
