(* ===== verification/RadioStream.thy ===== *)
theory RadioStream
  imports RadioDuty
begin

text \<open>
  The frames of a history replay: consecutive indices, each frame what \<open>app_history_export\<close>
  gave at its cursor, and each starting where the one before ended (\<open>replay_stream\<close>).  No
  record of the window is skipped or sent in two frames, however the replay is held up, retried
  or interleaved with the other paths.
\<close>

text \<open>The frame is what an export at its cursor gave, within the window of the replay.\<close>

definition exported :: "'b backend \<Rightarrow> 'b radio \<Rightarrow> u32 \<times> u32 \<times> u32 \<times> bytes \<Rightarrow> bool" where
  "exported be r x \<longleftrightarrow>
     (case x of (idx, cursor, next, buf) \<Rightarrow>
        \<exists>e cap samples t0 synced n. n \<noteq> 0 \<and> cap \<le> APP_CMD_HISTORY_FRAME_BUF_SIZE
          \<and> be_hist_export be e (rd_hist_from r) (rd_hist_to r) cursor (rd_hist_end r) cap
              = (samples, t0, synced, n, next)
          \<and> be_hist_frame be (rd_hist_layout r) (rd_hist_seq r) idx (rd_hist_count r) t0 synced
              samples = Some buf)"

text \<open>Frame \<open>k\<close> has index \<open>k\<close> and starts where the frame before ended.\<close>

fun chain_from :: "nat \<Rightarrow> (u32 \<times> u32 \<times> u32 \<times> bytes) list \<Rightarrow> bool" where
  "chain_from k [] = True"
| "chain_from k [x] = (fst x = of_nat k)"
| "chain_from k (x # y # xs) =
     (fst x = of_nat k \<and> fst (snd y) = fst (snd (snd x)) \<and> chain_from (Suc k) (y # xs))"

lemma chain_snoc:
  "chain_from k (xs @ [x]) \<longleftrightarrow> chain_from k xs \<and> fst x = of_nat (k + length xs)
     \<and> (xs \<noteq> [] \<longrightarrow> fst (snd x) = fst (snd (snd (last xs))))"
  by (induction k xs rule: chain_from.induct) auto

definition stream_inv :: "'b backend \<Rightarrow> 'b radio \<Rightarrow> bool" where
  "stream_inv be r \<longleftrightarrow>
     chain_from 0 (rd_replayed r) \<and> (\<forall>x \<in> set (rd_replayed r). exported be r x)
     \<and> (rd_hist_active r \<longrightarrow> rd_hist_idx r = of_nat (length (rd_replayed r))
          \<and> (rd_replayed r \<noteq> [] \<longrightarrow> rd_hist_cursor r = fst (snd (snd (last (rd_replayed r))))))
     \<and> (rd_hist_active r \<and> waits K_HISTORY r \<and> rd_hist_buf r \<noteq> [] \<longrightarrow>
          exported be r (rd_hist_idx r, rd_hist_cursor r, rd_hist_next r, rd_hist_buf r))"

text \<open>What the other paths leave alone.\<close>

definition hist_kept :: "'b radio \<Rightarrow> 'b radio \<Rightarrow> bool" where
  "hist_kept r s \<longleftrightarrow> hist_same r s \<and> (waits K_HISTORY s \<longrightarrow> waits K_HISTORY r)"

lemma hist_kept_refl: "hist_kept r r"
  by (simp add: hist_kept_def hist_same_def)

lemma hist_kept_trans: "hist_kept r s \<Longrightarrow> hist_kept s t \<Longrightarrow> hist_kept r t"
  by (simp add: hist_kept_def hist_same_def)

lemma exported_same: "hist_same r s \<Longrightarrow> exported be s = exported be r"
  by (rule ext) (simp add: exported_def hist_same_def split_def)

lemma stream_inv_kept: "stream_inv be r \<Longrightarrow> hist_kept r s \<Longrightarrow> stream_inv be s"
  using exported_same [of r s be] by (auto simp: stream_inv_def hist_kept_def hist_same_def)

lemma hist_same_ops:
  "hist_same r (tx_schedule d r)" "hist_same r (tx_work_kick r)"
  "hist_same r (hist_work_kick r)" "hist_same r (hist_schedule d r)"
  "hist_same r (snd (app_radio_backoff_wait_ms r))" "hist_same r (app_radio_backoff_set n r)"
  "hist_same r (app_radio_note_send b h r)" "hist_same r (stale_note_hold w r)"
  "hist_same r (app_radio_note_uplink r)" "hist_same r (tx_dequeue r)"
  "hist_same r (hist_dequeue r)" "hist_same r (app_radio_force_link_check r)"
  "hist_same r (time_request_run be r)" "hist_same r (rearm be st r)"
  "hist_same r (ready_kick be r)" "hist_same r (count_retry r)"
  "hist_same r (link_clear r)" "hist_same r (cur_done fate r)"
  "hist_same r (app_radio_tx_kick r)" "hist_same r (tx_request_telemetry r)"
  "hist_same r (ack_release k r)" "hist_same r (snd (ack_backoff be r))"
  "hist_same r (snd (app_radio_duty_wait_ms a r))" "hist_same r (app_radio_duty_charge a r)"
  by (simp_all add: hist_same_def tx_schedule_def tx_work_kick_def hist_work_kick_def
      hist_schedule_def app_radio_backoff_wait_ms_def app_radio_backoff_set_def
      app_radio_note_send_def stale_note_hold_def app_radio_note_uplink_def tx_dequeue_def
      hist_dequeue_def app_radio_force_link_check_def time_request_run_def rearm_def ready_kick_def
      count_retry_def link_clear_def cur_done_def app_radio_tx_kick_def tx_request_telemetry_def
      ack_release_def ack_backoff_def app_radio_duty_wait_ms_def app_radio_set_duty_held_def
      app_radio_duty_charge_def split_def Let_def)

lemma hist_same_link_result: "hist_same r (app_radio_link_result cfg be ok r)"
  by (simp add: app_radio_link_result_def warning_step_def link_clear_def link_set_streak_def
      hist_same_def split_def Let_def)

lemma hist_same_tx_queue: "hist_same r (snd (app_radio_tx_queue kind tag port buf r))"
  by (auto simp: app_radio_tx_queue_def split_def Let_def hist_same_def app_radio_tx_kick_def
      hist_work_kick_def tx_work_kick_def tx_schedule_def app_radio_backoff_wait_ms_def)

lemmas hist_same_simps [simp] =
  hist_same_ops [unfolded hist_same_def] hist_same_link_result [unfolded hist_same_def]
  hist_same_tx_queue [unfolded hist_same_def]

lemma hist_kept_callback: "hist_kept r (radio_callback cfg be cb r)"
proof -
  have "hist_same r (radio_callback cfg be cb r)"
    by (cases cb) (simp_all add: hist_same_def split_def Let_def)
  moreover have "ack_eq r (radio_callback cfg be cb r)" 
    using callback_grow [of r cfg be cb] by (simp add: grow_def)
  ultimately show ?thesis by (simp add: hist_kept_def waits_def ack_eq_def)
qed

lemma hist_kept_callbacks: "hist_kept r (fold (radio_callback cfg be) cbs r)"
proof (induction cbs arbitrary: r)
  case (Cons cb cbs)
  show ?case using hist_kept_trans [OF hist_kept_callback Cons.IH] by simp
qed (simp add: hist_kept_refl)

lemma hist_kept_same: "hist_same r s \<Longrightarrow> core_eq r s \<Longrightarrow> hist_kept r s"
  by (simp add: hist_kept_def waits_def core_eq_def)

lemma hist_kept_attempt: "hist_kept r (snd (snd (tx_attempt cfg be f r)))"
proof -
  have hold: "hist_kept r (snd (tx_hold be f r))"
    by (rule hist_kept_same [OF _ core_tx_hold]) (simp add: tx_hold_def hist_same_def split_def Let_def)
  moreover have "hist_kept s (snd (snd (backend_send cfg be f s)))" for s
  proof -
    have "hist_kept s (fold (radio_callback cfg be) cbs (s\<lparr>rd_env := e\<rparr>))" for cbs e
      by (rule hist_kept_trans [OF _ hist_kept_callbacks])
        (simp add: hist_kept_def hist_same_def waits_def)
    then show ?thesis
      by (simp add: backend_send_def split_def Let_def hist_kept_def hist_same_def waits_def)
  qed
  moreover have "hist_kept s (stale_note_hold w s)" for s w
    by (rule hist_kept_same [OF hist_same_ops(8) core_notes(2)])
  ultimately show ?thesis
    by (auto simp: tx_attempt_def split_def Let_def intro: hist_kept_trans)
qed

lemma hist_kept_ops:
  "hist_kept r (tx_schedule d r)" "hist_kept r (tx_work_kick r)"
  "hist_kept r (snd (app_radio_tx_queue kind tag port buf r))"
proof -
  show "hist_kept r (tx_schedule d r)" "hist_kept r (tx_work_kick r)"
    by (rule hist_kept_same; simp add: hist_same_ops core_notes)+
  have "ack_eq r (snd (app_radio_tx_queue kind tag port buf r))"
    using tx_queue_grow [of r kind tag port buf] by (simp add: grow_def)
  then show "hist_kept r (snd (app_radio_tx_queue kind tag port buf r))"
    by (simp add: hist_kept_def waits_def ack_eq_def hist_same_def)
qed

interpretation hk: radio_rel cfg be hist_kept "{K_HISTORY}"
  for cfg :: radio_cfg and be :: "'b backend"
proof unfold_locales
  fix r s t :: "'b radio"
  show "hist_kept r t" if "hist_kept r s" "hist_kept s t" using that by (rule hist_kept_trans)
  show "hist_kept r s" if "hist_same r s" "\<And>k. k \<in> {K_HISTORY} \<Longrightarrow> waits k s \<Longrightarrow> waits k r"
    using that by (simp add: hist_kept_def)
qed (simp_all add: hist_kept_refl hist_kept_ops hist_kept_attempt)

lemma hist_kept_hist_same: "hist_kept r s \<Longrightarrow> hist_same r s"
  by (simp add: hist_kept_def)

interpretation hs: radio_rel cfg be hist_same "{}"
  for cfg :: radio_cfg and be :: "'b backend"
proof unfold_locales
  fix r s t :: "'b radio"
  show "hist_same r t" if "hist_same r s" "hist_same s t" using that by (simp add: hist_same_def)
  show "hist_same r s" if "hist_same r s" using that .
qed (simp_all add: hist_kept_hist_same hist_kept_ops hist_kept_attempt hist_kept_refl)

subsection \<open>The queued frames and the report\<close>

lemma hist_kept_after: "hist_kept r s \<Longrightarrow> hist_same s t \<Longrightarrow> core_eq s t \<Longrightarrow> hist_kept r t"
  by (rule hist_kept_trans [OF _ hist_kept_same])

lemma hist_kept_flush_held: "hist_kept r (flush_held be r)"
proof -
  have "hist_kept s (fold (\<lambda>b r. snd (app_radio_tx_queue K_ALARM TAG_OTHER 0 b r)) bs s)" for bs s
  proof (induction bs arbitrary: s)
    case (Cons b bs)
    show ?case using hist_kept_trans [OF hist_kept_ops(3) Cons.IH] by simp
  qed (simp add: hist_kept_refl)
  then have "hist_kept (r\<lparr>rd_env := e\<rparr>)
      (fold (\<lambda>b r. snd (app_radio_tx_queue K_ALARM TAG_OTHER 0 b r)) bs (r\<lparr>rd_env := e\<rparr>))" for bs e
    by blast
  then show ?thesis
    by (simp add: flush_held_def split_def Let_def hist_kept_def hist_same_def waits_def)
qed

lemma hist_kept_take_cur: "hist_kept r (take_cur be kind tx r)"
proof -
  have "hist_kept r (r\<lparr>rd_cur := tx, rd_cur_kind := kind, rd_cur_valid := True, rd_cur_retries := 0\<rparr>)"
    by (simp add: hist_kept_def hist_same_def waits_def)
  then show ?thesis
    by (auto simp: take_cur_def Let_def intro: hist_kept_trans hist_kept_flush_held)
qed

lemma hist_kept_backoff: "hist_kept r (snd (app_radio_backoff_wait_ms r))"
  by (rule hist_kept_same [OF hist_same_ops(5) core_backoff_wait])

lemma hist_kept_yield: "hist_kept r (backoff_yield_to_alarm r)"
proof -
  let ?b = "snd (app_radio_backoff_wait_ms r)"
  have "hist_kept ?b (?b\<lparr>rd_answer_q := q, rd_cur_valid := v\<rparr>)" for q v
    by (simp add: hist_kept_def hist_same_def waits_def)
  then have "hist_kept r (?b\<lparr>rd_answer_q := q, rd_cur_valid := v\<rparr>)" for q v
    by (rule hist_kept_trans [OF hist_kept_backoff])
  then show ?thesis
    by (auto simp: backoff_yield_to_alarm_def split_def Let_def hist_kept_refl hist_kept_backoff
        intro: hist_kept_trans [OF _ hk.release])
qed

lemma hist_kept_pick_cur:
  "pick_cur be r = Inl (b, s) \<Longrightarrow> hist_kept r s" "pick_cur be r = Inr s \<Longrightarrow> hist_kept r s"
proof -
  have note_hold: "hist_kept s (stale_note_hold w s)" for s :: "'a radio" and w
    by (rule hist_kept_same [OF hist_same_ops(8) core_notes(2)])
  have pop: "hist_kept s (take_cur be k tx (s\<lparr>rd_answer_q := q\<rparr>))"
    "hist_kept s (take_cur be k tx (s\<lparr>rd_alarm_q := q\<rparr>))" for s k tx q
    by (rule hist_kept_trans [OF _ hist_kept_take_cur];
        simp add: hist_kept_def hist_same_def waits_def)+
  show "pick_cur be r = Inl (b, s) \<Longrightarrow> hist_kept r s" "pick_cur be r = Inr s \<Longrightarrow> hist_kept r s"
    by (auto simp: pick_cur_def split_def Let_def hist_kept_refl hist_kept_backoff
        intro: hist_kept_trans [OF hist_kept_backoff pop(1)]
          hist_kept_trans [OF hist_kept_backoff pop(2)]
          hist_kept_trans [OF hist_kept_trans [OF hist_kept_backoff note_hold] hk.sched(1)]
        split: if_splits list.splits)
qed

lemma hist_kept_cur_settle: "hist_kept r (cur_settle be ret res r)"
proof -
  have rec: "hist_kept r s" if "recover_over_budget be tx kind b r = (x, s)" for tx kind b x s
  proof -
    have "core_eq r s" using recover_core [of r be tx kind b] that by simp
    moreover have "hist_same r s"
      using that by (auto simp: recover_over_budget_def rearm_def hist_same_def
          split: if_splits frame_tag.splits option.splits)
    ultimately show ?thesis by (rule hist_kept_same [rotated])
  qed
  have upd: "hist_kept r s \<Longrightarrow> hist_kept r (s\<lparr>rd_cur := tx\<rparr>)" "hist_kept r s \<Longrightarrow> hist_kept r (cur_done f s)"
    for s tx f
    by (simp_all add: hist_kept_def hist_same_def waits_def cur_done_def)
  have "hist_kept r (r\<lparr>rd_cur_retries := n\<rparr>)" for n
    by (simp add: hist_kept_def hist_same_def waits_def)
  then have n: "hist_kept r (count_retry (r\<lparr>rd_cur_retries := n\<rparr>))"
    "hist_kept r (ack_release k (cur_done f (r\<lparr>rd_cur_retries := n\<rparr>)))" for n k f
    using upd(2) by (blast intro: hist_kept_trans hk.count hk.release)+
  show ?thesis
    by (auto simp: cur_settle_def Let_def hist_kept_refl upd
        intro: hist_kept_trans [OF _ hk.sched(1)] rec upd n
        split: tx_ret.split errno.split option.split prod.split)
qed

lemma hist_kept_queued_step:
  assumes "radio_inv be r"
  shows "hist_kept r (snd (tx_queued_step cfg be r))"
proof -
  let ?y = "backoff_yield_to_alarm r"
  have y: "radio_inv be ?y" by (rule backoff_yield_inv [OF assms])
  have "hist_kept r (cur_settle be ret res t)"
    if p: "pick_cur be ?y = Inr s" "tx_send cfg be (cur_frame cfg be s) s = (ret, res, t)" for s ret res t
  proof -
    have "fr_kind (cur_frame cfg be s) \<notin> {K_HISTORY}"
      using pick_cur_inv(2) [OF y p(1)]
      by (auto simp: cur_frame_def radio_inv_def own_inv_def limits_def)
    from hk.send [OF this, where cfg = cfg and be = be and r = s] have "hist_kept s t" using p(2) by simp
    then show ?thesis
      using hist_kept_trans [OF hist_kept_trans [OF hist_kept_yield hist_kept_pick_cur(2) [OF p(1)]]
          hist_kept_trans [OF _ hist_kept_cur_settle]] by blast
  qed
  moreover have "hist_kept r s" if "pick_cur be ?y = Inl (b, s)" for b s
    by (rule hist_kept_trans [OF hist_kept_yield hist_kept_pick_cur(1) [OF that]])
  ultimately show ?thesis
    using hist_kept_yield by (auto simp: tx_queued_step_def Let_def split: sum.split prod.split)
qed

lemma hist_kept_tx_work:
  assumes "radio_inv be r"
  shows "hist_kept r (tx_work_handler cfg be r)"
proof -
  obtain d s where "tx_queued_step cfg be r = (d, s)" by (cases "tx_queued_step cfg be r")
  then show ?thesis
    using hist_kept_queued_step [OF assms, of cfg] hist_kept_trans [OF _ hk.rel_tlm_step, of r s]
    by (auto simp: tx_work_handler_def hist_kept_refl hk.rel_tlm_close)
qed

subsection \<open>The replay itself\<close>

text \<open>The part of the invariant that does not need the replay to run.\<close>

definition stream_sent :: "'b backend \<Rightarrow> 'b radio \<Rightarrow> bool" where
  "stream_sent be r \<longleftrightarrow>
     chain_from 0 (rd_replayed r) \<and> (\<forall>x \<in> set (rd_replayed r). exported be r x)"

definition stream_at :: "'b radio \<Rightarrow> bool" where
  "stream_at r \<longleftrightarrow> rd_hist_idx r = of_nat (length (rd_replayed r))
     \<and> (rd_replayed r \<noteq> [] \<longrightarrow> rd_hist_cursor r = fst (snd (snd (last (rd_replayed r)))))"

definition frame_built :: "'b backend \<Rightarrow> 'b radio \<Rightarrow> bool" where
  "frame_built be r \<longleftrightarrow> rd_hist_buf r \<noteq> [] \<longrightarrow>
     exported be r (rd_hist_idx r, rd_hist_cursor r, rd_hist_next r, rd_hist_buf r)"

lemma stream_inv_parts:
  "stream_inv be r \<longleftrightarrow> stream_sent be r
     \<and> (rd_hist_active r \<longrightarrow> stream_at r \<and> (waits K_HISTORY r \<longrightarrow> frame_built be r))"
  by (auto simp: stream_inv_def stream_sent_def stream_at_def frame_built_def)

text \<open>Equality on what a parts needs: the bound, the buffer and the counters may change.\<close>

definition window_same :: "'b radio \<Rightarrow> 'b radio \<Rightarrow> bool" where
  "window_same r s \<longleftrightarrow>
     rd_hist_from s = rd_hist_from r \<and> rd_hist_to s = rd_hist_to r \<and>
     rd_hist_seq s = rd_hist_seq r \<and> rd_hist_count s = rd_hist_count r \<and>
     rd_hist_end s = rd_hist_end r \<and> rd_hist_layout s = rd_hist_layout r \<and>
     rd_replayed s = rd_replayed r \<and> rd_hist_idx s = rd_hist_idx r \<and>
     rd_hist_cursor s = rd_hist_cursor r"

lemma exported_window: "window_same r s \<Longrightarrow> exported be s = exported be r"
  by (rule ext) (simp add: exported_def window_same_def split_def)

lemma stream_window:
  "window_same r s \<Longrightarrow> stream_sent be r \<Longrightarrow> stream_sent be s"
  "window_same r s \<Longrightarrow> stream_at r \<Longrightarrow> stream_at s"
  using exported_window [of r s be]
  by (simp_all add: stream_sent_def stream_at_def window_same_def)

lemma window_same_trans: "window_same r s \<Longrightarrow> window_same s t \<Longrightarrow> window_same r t"
  by (simp add: window_same_def)

lemma window_hist_same: "hist_same r s \<Longrightarrow> window_same r s"
  by (simp add: window_same_def hist_same_def)

lemma window_hist_end: "window_same r (hist_end be r)" "\<not> rd_hist_active (hist_end be r)"
  by (simp_all add: hist_end_def window_same_def)

lemma window_hist_finish: "window_same r (hist_finish be r)" "\<not> rd_hist_active (hist_finish be r)"
  using window_hist_end [where be = be and r = r] by (simp_all add: hist_finish_def window_same_def)

lemma stream_finish: "stream_sent be r \<Longrightarrow> stream_inv be (hist_finish be r)"
  using window_hist_finish [where be = be and r = r] stream_window(1) by (auto simp: stream_inv_parts)

lemma exported_upd [simp]:
  "exported be (r\<lparr>rd_hist_bound := m\<rparr>) = exported be r"
  "exported be (r\<lparr>rd_hist_next := c\<rparr>) = exported be r"
  "exported be (r\<lparr>rd_hist_buf := bs\<rparr>) = exported be r"
  "exported be (r\<lparr>rd_hist_n := n\<rparr>) = exported be r"
  by (rule exported_window, simp add: window_same_def)+

lemma exportedI:
  assumes "be_hist_export be e (rd_hist_from r) (rd_hist_to r) c (rd_hist_end r) cap
      = (samples, t0, synced, n, next)"
    and "be_hist_frame be (rd_hist_layout r) (rd_hist_seq r) i (rd_hist_count r) t0 synced samples
      = Some buf"
    and "0 < n" "cap \<le> APP_CMD_HISTORY_FRAME_BUF_SIZE"
  shows "exported be r (i, c, next, buf)"
  unfolding exported_def prod.case using assms by (metis gr_implies_not0)

lemma hist_build_frame:
  assumes "stream_sent be r"
  shows "hist_build be b r = Inl s \<Longrightarrow> stream_inv be s"
    and "hist_build be b r = Inr s \<Longrightarrow> window_same r s \<and> frame_built be s \<and> rd_hist_active s = rd_hist_active r"
proof -
  have fin: "stream_inv be (hist_finish be t)" if "window_same r t" for t
    by (rule stream_finish [OF stream_window(1) [OF that assms]])
  have err: "window_same r (hist_budget_error be t)" if "window_same r t" for t
    using that by (auto simp: hist_budget_error_def window_same_def split: option.split)
  have upd: "window_same r (r\<lparr>rd_hist_next := n\<rparr>)" "window_same r (r\<lparr>rd_hist_bound := m, rd_hist_next := n\<rparr>)"
    for n m
    by (simp_all add: window_same_def)
  show "stream_inv be s" if "hist_build be b r = Inl s"
    using that by (auto simp: hist_build_def Let_def fin err upd split: if_splits prod.splits option.splits)
  show "window_same r s \<and> frame_built be s \<and> rd_hist_active s = rd_hist_active r"
    if "hist_build be b r = Inr s"
    using that
    by (auto simp: hist_build_def Let_def window_same_def frame_built_def
        split: if_splits prod.splits option.splits intro: exportedI)
qed

lemma hist_prepare_frame:
  assumes "stream_inv be r" "rd_hist_active r"
  shows "hist_prepare be r = Inl s \<Longrightarrow> stream_inv be s"
    and "hist_prepare be r = Inr s \<Longrightarrow>
      stream_sent be s \<and> stream_at s \<and> frame_built be s \<and> rd_hist_active s"
proof -
  define t where "t = r\<lparr>rd_hist_buf := [], rd_hist_n := 0, rd_hist_next := rd_hist_cursor r\<rparr>"
  have t: "stream_sent be t" "stream_at t" "frame_built be t" "rd_hist_active t"
    using assms stream_window [of r t] by (auto simp: stream_inv_parts t_def window_same_def frame_built_def)
  have p: "hist_prepare be r = (if waits K_HISTORY r then Inr r
      else if 0 < be_budget be (rd_env r) then hist_build be (be_budget be (rd_env r)) t else Inr t)"
    by (simp add: hist_prepare_def t_def waits_def Let_def)
  show "stream_inv be s" if "hist_prepare be r = Inl s"
    using that hist_build_frame(1) [OF t(1)] by (auto simp: p split: if_splits)
  show "stream_sent be s \<and> stream_at s \<and> frame_built be s \<and> rd_hist_active s"
    if "hist_prepare be r = Inr s"
  proof (cases "waits K_HISTORY r \<or> be_budget be (rd_env r) = 0")
    case True
    then have "s = r \<and> waits K_HISTORY r \<or> s = t" using that by (auto simp: p split: if_splits)
    then show ?thesis using assms t by (auto simp: stream_inv_parts)
  next
    case False
    then have "hist_build be (be_budget be (rd_env r)) t = Inr s"
      using that by (auto simp: p word_neq_0_conv split: if_splits)
    from hist_build_frame(2) [OF t(1) this] show ?thesis using t stream_window by blast
  qed
qed

lemma hist_again_stream:
  assumes "stream_sent be r" "stream_at r" "frame_built be r"
  shows "stream_inv be (hist_again be d r)"
proof -
  have w: "window_same r (r\<lparr>rd_hist_retries := n\<rparr>)" for n by (simp add: window_same_def)
  have "stream_inv be (r\<lparr>rd_hist_retries := n\<rparr>)" for n
    using stream_window [OF w] exported_window [OF w, of be n] assms
    by (simp add: stream_inv_parts frame_built_def)
  then have "stream_inv be (hist_schedule d (count_retry (r\<lparr>rd_hist_retries := n\<rparr>)))" for n
    using hist_kept_trans [OF hk.count hk.hist_sched] by (blast intro: stream_inv_kept)
  then show ?thesis
    using stream_finish [OF stream_window(1) [OF w assms(1)]] by (auto simp: hist_again_def Let_def)
qed

lemma hist_sent_stream:
  assumes "stream_sent be r" "stream_at r" "frame_built be r" "rd_hist_buf r \<noteq> []"
    and "\<not> waits K_HISTORY r"
  shows "stream_inv be (hist_sent be r)"
proof -
  define x where "x = (rd_hist_idx r, rd_hist_cursor r, rd_hist_next r, rd_hist_buf r)"
  define s where "s = r\<lparr>rd_hist_retries := 0, rd_last_uplink := max (rd_now r) 1,
      rd_replayed := rd_replayed r @ [x], rd_hist_cursor := rd_hist_next r,
      rd_hist_idx := rd_hist_idx r + 1\<rparr>"
  have ex: "exported be s = exported be r" by (rule ext) (simp add: exported_def s_def)
  have "exported be r x" using assms(3,4) by (simp add: frame_built_def x_def)
  moreover have "rd_replayed s = rd_replayed r @ [x]" by (simp add: s_def)
  moreover have "chain_from 0 (rd_replayed r @ [x])"
    using assms(1,2) by (auto simp: stream_sent_def chain_snoc stream_at_def x_def)
  ultimately have "stream_sent be s"
    using assms(1) by (simp add: stream_sent_def ex)
  moreover have "stream_at s" using assms(2) by (simp add: stream_at_def s_def x_def)
  ultimately have s: "stream_sent be s" "stream_inv be s"
    using assms(5) by (auto simp: stream_inv_parts waits_def s_def)
  have "hist_sent be r = (if rd_hist_cursor s < rd_hist_end s then hist_schedule HIST_FRAME_GAP_MS s
      else hist_finish be s)"
    by (simp add: hist_sent_def app_radio_note_uplink_def Let_def s_def x_def)
  then show ?thesis using stream_finish [OF s(1)] stream_inv_kept [OF s(2) hk.hist_sched] by simp
qed

lemma hist_settle_stream:
  assumes "stream_sent be r" "stream_at r" "frame_built be r"
    and "ret = TX_OK \<Longrightarrow> rd_hist_buf r \<noteq> [] \<and> \<not> waits K_HISTORY r"
  shows "stream_inv be (hist_settle be ret res r)"
proof -
  have r: "stream_inv be r" using assms by (simp add: stream_inv_parts)
  show ?thesis
    using r hist_again_stream [OF assms(1-3)] hist_sent_stream [OF assms(1-3)] assms(4)
      stream_inv_kept [OF r hk.hist_sched] stream_finish [OF assms(1)]
    by (auto simp: hist_settle_def split: tx_ret.split errno.split)
qed

lemma hist_work_stream:
  assumes inv: "radio_inv be r" and stream: "stream_inv be r"
  shows "stream_inv be (hist_work_handler cfg be r)"
proof (cases "rd_hist_active r")
  case active: True
  have "stream_inv be (hist_settle be
      (if ret = TX_OK \<and> rd_hist_buf t = [] then TX_ERR EAGAIN else ret) res t)"
    if p: "hist_prepare be r = Inr s" "tx_send cfg be (hist_frame_of cfg be s) s = (ret, res, t)"
    for s ret res t
  proof (rule hist_settle_stream)
    have s: "radio_inv be s" "rd_hist_active s" using hist_prepare_inv(2) [OF inv active p(1)] by simp_all
    have may: "may_send (hist_frame_of cfg be s) s"
      using s(2) by (simp add: may_send_def hist_frame_of_def path_holds_def path_buf_def)
    note built = hist_prepare_frame(2) [OF stream active p(1)]
    have same: "hist_same s t"
      using hs.send [where cfg = cfg and be = be and r = s and f = "hist_frame_of cfg be s"] p(2) by simp
    show "stream_sent be t" "stream_at t"
      using built stream_window [OF window_hist_same [OF same]] by simp_all
    show "frame_built be t"
      using built exported_same [OF same, of be] same by (simp add: frame_built_def hist_same_def)
    show "rd_hist_buf t \<noteq> [] \<and> \<not> waits K_HISTORY t"
      if "(if ret = TX_OK \<and> rd_hist_buf t = [] then TX_ERR EAGAIN else ret) = TX_OK"
      using that tx_send_inv(3) [OF s(1) may p(2)]
      by (auto simp: waits_def hist_frame_of_def split: if_splits)
  qed
  moreover have "stream_inv be (hist_finish be r)"
    by (rule stream_finish) (use stream in \<open>simp add: stream_inv_parts\<close>)
  ultimately show ?thesis
    using stream hist_prepare_frame(1) [OF stream active]
    by (auto simp: hist_work_handler_def Let_def split: sum.split prod.split)
qed (simp add: hist_work_handler_def stream)

lemma replay_start_stream:
  assumes inv: "radio_inv be r" and stream: "stream_inv be r"
  shows "stream_inv be (snd (app_radio_history_replay_start be from_unix to_unix seq r))"
proof -
  have idle: "\<not> waits K_HISTORY r" if "\<not> rd_hist_active r"
    using inv that by (auto simp: radio_inv_def ladder_def path_holds_def waits_def)
  have "stream_inv be (hist_schedule 0 s)" if "stream_inv be s" for s
    by (rule stream_inv_kept [OF that hk.hist_sched])
  moreover have "stream_inv be s" if "rd_replayed s = []" "\<not> rd_hist_active s" for s
    using that by (simp add: stream_inv_parts stream_sent_def)
  moreover have "stream_inv be s"
    if "rd_replayed s = []" "rd_hist_idx s = 0" "\<not> rd_hist_active r" "rd_ack_pending s = rd_ack_pending r"
      "rd_ack_kind s = rd_ack_kind r" for s
    using that idle by (auto simp: stream_inv_parts stream_sent_def stream_at_def waits_def)
  ultimately show ?thesis
    using stream by (simp add: app_radio_history_replay_start_def Let_def split_def)
qed

lemma link_up_stream: "stream_inv be r \<Longrightarrow> stream_inv be (app_radio_link_up be r)"
proof -
  assume r: "stream_inv be r"
  have drop: "stream_inv be (hist_drop be r)"
  proof (cases "rd_hist_active r")
    case True
    let ?r = "r\<lparr>rd_hist_work := \<lparr>wk_queued = False, wk_at = None\<rparr>\<rparr>"
    have "window_same r (hist_end be ?r)" "\<not> rd_hist_active (hist_end be ?r)"
      using window_hist_end [where be = be and r = ?r] by (simp_all add: window_same_def)
    then show ?thesis
      using r stream_window(1) True by (auto simp: hist_drop_def stream_inv_parts)
  qed (simp add: hist_drop_def r)
  show ?thesis
    by (rule stream_inv_kept [OF drop])
      (simp add: app_radio_link_up_def Let_def hist_kept_def hist_same_def waits_def
        time_request_run_def link_clear_def)
qed

lemma radio_step_stream:
  assumes inv: "radio_inv be r" and stream: "stream_inv be r"
  shows "stream_inv be (radio_step cfg be ev r)"
proof (cases ev)
  case EV_run
  have "hist_kept r (tx_dequeue r)" by (rule hist_kept_same [OF hist_same_ops(10) core_notes(17)])
  then have "hist_kept r (tx_work_handler cfg be (tx_dequeue r))"
    using hist_kept_tx_work [OF radio_inv_core [OF inv core_notes(17)], of cfg]
    by (blast intro: hist_kept_trans)
  then show ?thesis using EV_run stream stream_inv_kept [OF stream] by simp
next
  case EV_hist_run
  have "stream_inv be (hist_dequeue r)"
    by (rule stream_inv_kept [OF stream hist_kept_same [OF hist_same_ops(11) core_notes(18)]])
  then show ?thesis
    using EV_hist_run stream hist_work_stream [OF radio_inv_core [OF inv core_notes(18)], of cfg]
    by simp
next
  case (EV_time dt)
  then show ?thesis
    using stream_inv_kept [OF stream, of "r\<lparr>rd_now := rd_now r + int dt\<rparr>"]
    by (simp add: hist_kept_def hist_same_def waits_def)
next
  case (EV_stale_tick)
  have "hist_same r (stale_tick cfg be r)"
    by (simp add: stale_tick_def hist_same_def split_def split: app_radio_stale.split)
  then show ?thesis
    using EV_stale_tick stream_inv_kept [OF stream hist_kept_same [OF _ core_stale_tick]] by simp
qed (auto simp: hist_same_ops core_ops intro!: stream_inv_kept [OF stream] hist_kept_same
    hist_kept_ops(3) hk.kick hk.rel_link_result replay_start_stream [OF inv stream] link_up_stream [OF stream]
    simp del: core_simps hist_same_simps)

lemma radio_run_stream: "stream_inv be (radio_run cfg be evs e b)"
proof -
  have "radio_inv be r \<Longrightarrow> stream_inv be r \<Longrightarrow> stream_inv be (fold (radio_step cfg be) evs r)" for r
    by (induction evs arbitrary: r) (auto intro: radio_step_inv radio_step_stream)
  moreover have "stream_inv be (radio_boot e b)" by (simp add: radio_boot_def stream_inv_def)
  ultimately show ?thesis using radio_boot_inv [of be e b] by (simp add: radio_run_def)
qed

text \<open>
  C36: After any run of the radio module the frames the replay sent carry the indices 0, 1,
  2, ..., each starts at the cursor the one before ended at, and each is what
  \<open>app_history_export\<close> gave at its cursor for the window of the replay: no record is skipped or
  sent in two frames, however the replay is held, retried or interleaved.
\<close>

theorem replay_stream:
  "let r = radio_run cfg be evs e budget in
     chain_from 0 (rd_replayed r) \<and> list_all (exported be r) (rd_replayed r)
     \<and> (rd_hist_active r \<longrightarrow> rd_hist_idx r = of_nat (length (rd_replayed r))
          \<and> (rd_replayed r \<noteq> [] \<longrightarrow> rd_hist_cursor r = fst (snd (snd (last (rd_replayed r))))))"
  using radio_run_stream [of be cfg evs e budget]
  by (auto simp: Let_def stream_inv_def list_all_iff)

text \<open>A history of five records, two to a frame; the first frame sent gets no Ack.\<close>

definition replay_be :: "nat backend" where
  "replay_be = demo_be
     \<lparr>be_hist_cap := (\<lambda>_ _ _ _. 20), be_hist_count := (\<lambda>_ _ _ _. 3), be_hist_span := (\<lambda>_. (0, 5)),
      be_hist_export := (\<lambda>_ _ _ cursor stop _.
        if stop \<le> cursor then ([], 0, True, 0, cursor)
        else ([ucast cursor], 1000 + cursor, True, 2, cursor + 2)),
      be_hist_frame := (\<lambda>_ _ idx _ _ _ samples. Some (ucast idx # samples))\<rparr>"

definition replay_evs :: "radio_ev list" where
  "replay_evs = [EV_link_up, EV_replay 0 5000 9, EV_hist_run, EV_time 16000, EV_hist_run,
     EV_queue K_ALARM TAG_OTHER 0 [7], EV_run, EV_time 16000, EV_hist_run, EV_time 5000, EV_hist_run]"

theorem replay_stream_witness:
  "let r = radio_run demo_cfg replay_be replay_evs 0 36000 in
     map (\<lambda>(i, c, c', buf). (i, c, c')) (rd_replayed r) = [(0, 0, 2), (1, 2, 4), (2, 4, 6)]
     \<and> chain_from 0 (rd_replayed r) \<and> list_all (exported replay_be r) (rd_replayed r)"
proof -
  have "map (\<lambda>(i, c, c', buf). (i, c, c')) (rd_replayed (radio_run demo_cfg replay_be replay_evs 0 36000))
      = [(0, 0, 2), (1, 2, 4), (2, 4, 6)]" by code_simp
  then show ?thesis
    using replay_stream [where cfg = demo_cfg and be = replay_be and evs = replay_evs and e = 0
        and budget = 36000] by (simp add: Let_def)
qed

end
