(* ===== verification/TwrFrame.thy ===== *)
theory TwrFrame
  imports Ccm RadioPolicy
begin

text \<open>
  The frames of the private radio, \<open>src/app/src/app_radio_p2p.c\<close> (types and constants in
  \<open>app_radio_p2p.h\<close>): the TOWER header and its sealing under CCM, the ACK payload, the replay
  rule, the TLV list of the control envelope, the JoinAccept value, the fsk packet with its PN9
  whitening, and the receive windows.  The block cipher \<open>E\<close> is that of \<^theory_text>\<open>Ccm\<close>; the CRC of the
  fsk packet (Zephyr's \<open>crc16\<close> over the packet's bytes) is the parameter \<open>crc\<close>.

  A frame opens exactly when it is the seal of what it opens to (\<open>twr_open_iff\<close>): the header,
  its reserved bits included, is bound by the tag.
\<close>

subsection \<open>Constants and types\<close>

definition TWR_VERSION :: u8 where "TWR_VERSION = 1"
definition TWR_HDR_LEN :: nat where "TWR_HDR_LEN = 14"
definition TWR_TAG_LEN :: nat where "TWR_TAG_LEN = 8"
definition TWR_NONCE_LEN :: nat where "TWR_NONCE_LEN = 13"
definition TWR_TYPE_DATA :: u8 where "TWR_TYPE_DATA = 0"
definition TWR_TYPE_ACK :: u8 where "TWR_TYPE_ACK = 1"
definition TWR_TYPE_JOIN_REQ :: u8 where "TWR_TYPE_JOIN_REQ = 4"
definition TWR_TYPE_JOIN_RESP :: u8 where "TWR_TYPE_JOIN_RESP = 5"
definition TWR_TYPE_JOIN_CONF :: u8 where "TWR_TYPE_JOIN_CONF = 6"
definition TWR_FLAG_CONFIRMED :: u8 where "TWR_FLAG_CONFIRMED = 1"
definition TWR_ACK_PENDING :: u8 where "TWR_ACK_PENDING = 1"
definition TWR_ACK_CTRL :: u8 where "TWR_ACK_CTRL = 2"
definition TWR_ACK_PAYLOAD_LEN :: nat where "TWR_ACK_PAYLOAD_LEN = 6"
definition TWR_ACK_FRAME_LEN :: nat where
  "TWR_ACK_FRAME_LEN = TWR_HDR_LEN + TWR_ACK_PAYLOAD_LEN + TWR_TAG_LEN"
definition TWR_ADDR_NONE :: u32 where "TWR_ADDR_NONE = 0"
definition TWR_ADDR_BROADCAST :: u32 where "TWR_ADDR_BROADCAST = 0xFFFFFFFF"
definition P2P_FRAME_MAX :: nat where "P2P_FRAME_MAX = 96"
definition TWR_PAYLOAD_MAX :: nat where
  "TWR_PAYLOAD_MAX = P2P_FRAME_MAX - TWR_HDR_LEN - TWR_TAG_LEN"
definition P2P_KEY_LEN :: nat where "P2P_KEY_LEN = 16"

record twr_hdr =
  h_type :: u8
  h_flags :: u8
  h_src :: u32
  h_dest :: u32
  h_counter :: u32

record twr_ack =
  a_acked :: u32
  a_rssi :: int
  a_pending :: bool
  a_tail :: bytes

datatype rx_verdict = P2P_RX_REPEAT | P2P_RX_FRESH

record p2p_tlv =
  t_cmd :: u8
  t_len :: nat
  t_val :: bytes

record p2p_join_accept =
  ja_net_id :: u32
  ja_central_nonce :: u32
  ja_rx_delay_s :: u8
  ja_tx_power :: "int option"

text \<open>Big-endian fields (\<open>sys_put_be16\<close>, \<open>sys_put_be32\<close>).\<close>

definition put_be16 :: "u16 \<Rightarrow> bytes" where
  "put_be16 w = [ucast (drop_bit 8 w), ucast w]"

definition put_be32 :: "u32 \<Rightarrow> bytes" where
  "put_be32 w = [ucast (drop_bit 24 w), ucast (drop_bit 16 w), ucast (drop_bit 8 w), ucast w]"

subsection \<open>Frame codec\<close>

definition twr_hdr_put :: "twr_hdr \<Rightarrow> bytes" where
  "twr_hdr_put h =
     [push_bit 5 TWR_VERSION OR (h_type h AND 0x1F), h_flags h]
       @ put_le32 (h_src h) @ put_le32 (h_dest h) @ put_le32 (h_counter h)"

definition twr_hdr_get :: "bytes \<Rightarrow> twr_hdr res" where
  "twr_hdr_get frame =
     (if length frame < TWR_HDR_LEN + TWR_TAG_LEN \<or> P2P_FRAME_MAX < length frame then Inl EMSGSIZE
      else if drop_bit 5 (frame ! 0) \<noteq> TWR_VERSION then Inl EPROTO
      else Inr \<lparr>h_type = frame ! 0 AND 0x1F, h_flags = frame ! 1,
                h_src = get_le32 (drop 2 frame), h_dest = get_le32 (drop 6 frame),
                h_counter = get_le32 (drop 10 frame)\<rparr>)"

definition twr_nonce :: "u32 \<Rightarrow> u32 \<Rightarrow> bytes" where
  "twr_nonce src counter = put_le32 src @ put_le32 counter @ replicate (TWR_NONCE_LEN - 8) 0"

definition twr_seal :: "cipher \<Rightarrow> bytes \<Rightarrow> twr_hdr \<Rightarrow> bytes \<Rightarrow> nat \<Rightarrow> bytes res" where
  "twr_seal E key h pt frame_size =
     (let len = TWR_HDR_LEN + length pt + TWR_TAG_LEN
      in if frame_size < len \<or> P2P_FRAME_MAX < len then Inl EMSGSIZE
         else case app_ccm_encrypt_and_tag E key (twr_nonce (h_src h) (h_counter h))
                     (twr_hdr_put h) pt TWR_TAG_LEN of
                Inl e \<Rightarrow> Inl e
              | Inr (ct, tag) \<Rightarrow> Inr (twr_hdr_put h @ ct @ tag))"

definition twr_open :: "cipher \<Rightarrow> bytes \<Rightarrow> bytes \<Rightarrow> nat \<Rightarrow> (twr_hdr \<times> bytes) res" where
  "twr_open E key frame pt_size =
     (case twr_hdr_get frame of
        Inl e \<Rightarrow> Inl e
      | Inr h \<Rightarrow>
          (let ct_len = length frame - TWR_HDR_LEN - TWR_TAG_LEN
           in if pt_size < ct_len then Inl EMSGSIZE
              else case app_ccm_auth_decrypt E key (twr_nonce (h_src h) (h_counter h))
                          (take TWR_HDR_LEN frame) (take ct_len (drop TWR_HDR_LEN frame))
                          (drop (length frame - TWR_TAG_LEN) frame) [] of
                     (Some e, _) \<Rightarrow> Inl e
                   | (None, pt) \<Rightarrow> Inr (h, pt)))"

definition twr_parse_ack :: "bytes \<Rightarrow> twr_ack res" where
  "twr_parse_ack pt =
     (if length pt < 4 then Inl EMSGSIZE
      else Inr \<lparr>a_acked = get_le32 pt,
                a_rssi = (if 4 < length pt then sint (pt ! 4) else 0),
                a_pending = (5 < length pt \<and> pt ! 5 AND TWR_ACK_PENDING \<noteq> 0),
                a_tail = (if TWR_ACK_PAYLOAD_LEN < length pt \<and> pt ! 5 AND TWR_ACK_CTRL \<noteq> 0
                          then drop TWR_ACK_PAYLOAD_LEN pt else [])\<rparr>)"

definition p2p_replay_check :: "u32 \<Rightarrow> u32 \<Rightarrow> rx_verdict res" where
  "p2p_replay_check lane counter =
     (if counter = 0 \<or> counter < lane then Inl EALREADY
      else Inr (if counter = lane then P2P_RX_REPEAT else P2P_RX_FRESH))"

subsection \<open>Control envelope codec\<close>

text \<open>The next entry at \<open>off\<close>: the end of the list, a malformed entry, or the entry and the
  offset behind it.\<close>

datatype tlv_ret = TLV_END | TLV_BAD | TLV_AT p2p_tlv nat

definition p2p_tlv_next :: "bytes \<Rightarrow> nat \<Rightarrow> tlv_ret" where
  "p2p_tlv_next buf off =
     (if length buf \<le> off then TLV_END
      else if length buf - off < 2 \<or> length buf - off - 2 < unat (buf ! (off + 1)) then TLV_BAD
      else (let n = unat (buf ! (off + 1))
            in TLV_AT \<lparr>t_cmd = buf ! off, t_len = n, t_val = take n (drop (off + 2) buf)\<rparr>
                 (off + 2 + n)))"

definition P2P_JOIN_ACCEPT_VALUE_LEN :: nat where "P2P_JOIN_ACCEPT_VALUE_LEN = 13"
definition P2P_RX1_DELAY_MAX_S :: u8 where "P2P_RX1_DELAY_MAX_S = 15"
definition P2P_TX_POWER_MIN_DBM :: u8 where "P2P_TX_POWER_MIN_DBM = 2"
definition P2P_TX_POWER_MAX_DBM :: u8 where "P2P_TX_POWER_MAX_DBM = 14"

definition p2p_parse_join_accept :: "bytes \<Rightarrow> u32 \<Rightarrow> p2p_join_accept res" where
  "p2p_parse_join_accept val hdr_src =
     (if length val < P2P_JOIN_ACCEPT_VALUE_LEN then Inl EBADMSG
      else (let net_id = get_le32 val; rx_delay = val ! 8; tx_power = val ! 9
            in if net_id \<noteq> hdr_src \<or> net_id = TWR_ADDR_NONE \<or> net_id = TWR_ADDR_BROADCAST
               then Inl EBADMSG
               else if rx_delay < 1 \<or> P2P_RX1_DELAY_MAX_S < rx_delay then Inl EBADMSG
               else Inr \<lparr>ja_net_id = net_id, ja_central_nonce = get_le32 (drop 4 val),
                         ja_rx_delay_s = rx_delay,
                         ja_tx_power =
                           (if P2P_TX_POWER_MIN_DBM \<le> tx_power \<and> tx_power \<le> P2P_TX_POWER_MAX_DBM
                            then Some (sint tx_power) else None)\<rparr>))"

definition p2p_time_at :: "u32 \<Rightarrow> u8 \<Rightarrow> int \<Rightarrow> u32" where
  "p2p_time_at unix_s frac256 elapsed_ms =
     (let ms = uint frac256 * 1000 div 256 + max elapsed_ms 0
      in unix_s + word_of_int ((ms + 500) div 1000))"

subsection \<open>The fsk packet\<close>

definition P2P_FSK_PN9_SEED :: u16 where "P2P_FSK_PN9_SEED = 0x1FF"
definition P2P_FSK_OVERHEAD :: nat where "P2P_FSK_OVERHEAD = 3"

definition pn9_next :: "u16 \<Rightarrow> u16" where
  "pn9_next lfsr = drop_bit 1 lfsr OR push_bit 8 ((lfsr XOR drop_bit 5 lfsr) AND 1)"

fun pn9_from :: "u16 \<Rightarrow> bytes \<Rightarrow> bytes" where
  "pn9_from lfsr [] = []"
| "pn9_from lfsr (b # bs) = (b XOR ucast lfsr) # pn9_from ((pn9_next ^^ 8) lfsr) bs"

definition fsk_pn9 :: "bytes \<Rightarrow> bytes" where
  "fsk_pn9 buf = pn9_from P2P_FSK_PN9_SEED buf"

definition p2p_fsk_wrap :: "(bytes \<Rightarrow> u16) \<Rightarrow> bytes \<Rightarrow> bytes" where
  "p2p_fsk_wrap crc frame =
     (let body = word_of_nat (length frame) # frame in fsk_pn9 (body @ put_be16 (crc body)))"

definition p2p_fsk_unwrap :: "(bytes \<Rightarrow> u16) \<Rightarrow> bytes \<Rightarrow> bytes res" where
  "p2p_fsk_unwrap crc air =
     (if length air < P2P_FSK_OVERHEAD then Inl EBADMSG
      else (let d = fsk_pn9 air; n = unat (d ! 0)
            in if length air < n + P2P_FSK_OVERHEAD
                 \<or> crc (take (n + 1) d) \<noteq> get_be16 (drop (n + 1) d) then Inl EBADMSG
               else Inr (take n (drop 1 d))))"

subsection \<open>Time on air and receive windows\<close>

definition P2P_BANDWIDTH_HZ :: u32 where "P2P_BANDWIDTH_HZ = 125000"
definition P2P_FSK_BITRATE :: u32 where "P2P_FSK_BITRATE = 19200"
definition P2P_FSK_PREAMBLE :: u32 where "P2P_FSK_PREAMBLE = 4"
definition P2P_FSK_SYNC_LEN :: u32 where "P2P_FSK_SYNC_LEN = 4"
definition P2P_RX1_WINDOW_SYMBOLS :: u64 where "P2P_RX1_WINDOW_SYMBOLS = 12"
definition P2P_RX1_TRAILING_MARGIN_MS :: u32 where "P2P_RX1_TRAILING_MARGIN_MS = 120"
definition P2P_FSK_RX1_CATCH_MS :: u32 where "P2P_FSK_RX1_CATCH_MS = 20"
definition P2P_TURNAROUND_MS :: u32 where "P2P_TURNAROUND_MS = 20"
definition P2P_WINDOW_MIN_MS :: u32 where "P2P_WINDOW_MIN_MS = 200"
definition P2P_WINDOW_SYMBOLS :: u32 where "P2P_WINDOW_SYMBOLS = 3"
definition P2P_WINDOW_MARGIN_MS :: u32 where "P2P_WINDOW_MARGIN_MS = 20"
definition P2P_TOA_MAX_MS :: u32 where "P2P_TOA_MAX_MS = 3950"

definition p2p_toa_ms :: "nat \<Rightarrow> nat \<Rightarrow> u32" where
  "p2p_toa_ms sf payload_len = app_radio_lora_toa_ms (word_of_nat sf) P2P_BANDWIDTH_HZ payload_len"

definition p2p_fsk_toa_ms :: "nat \<Rightarrow> u32" where
  "p2p_fsk_toa_ms frame_len =
     (let n = P2P_FSK_PREAMBLE + P2P_FSK_SYNC_LEN + word_of_nat P2P_FSK_OVERHEAD + word_of_nat frame_len
      in (n * 8 * 1000 + P2P_FSK_BITRATE - 1) div P2P_FSK_BITRATE)"

definition rx1_preamble_catch_ms :: "nat \<Rightarrow> u32" where
  "rx1_preamble_catch_ms sf =
     (let tsym_us = push_bit sf 1 * 1000000 div ucast P2P_BANDWIDTH_HZ :: u64
      in ucast ((tsym_us * P2P_RX1_WINDOW_SYMBOLS + 500) div 1000))"

definition p2p_rx1_timeout_ms :: "nat \<Rightarrow> nat \<Rightarrow> u32" where
  "p2p_rx1_timeout_ms sf expected_frame_len =
     rx1_preamble_catch_ms sf + p2p_toa_ms sf expected_frame_len + P2P_RX1_TRAILING_MARGIN_MS"

definition p2p_twr_window_ms :: "nat \<Rightarrow> nat \<Rightarrow> u32" where
  "p2p_twr_window_ms sf frame_len =
     (let sym_ms = (push_bit sf 1 * 8 + 1000 - 1) div 1000
      in max P2P_WINDOW_MIN_MS (P2P_TURNAROUND_MS + p2p_toa_ms sf frame_len
           + P2P_WINDOW_SYMBOLS * sym_ms + P2P_WINDOW_MARGIN_MS))"

definition p2p_fsk_window_ms :: "nat \<Rightarrow> u32" where
  "p2p_fsk_window_ms frame_len =
     max P2P_WINDOW_MIN_MS (P2P_TURNAROUND_MS + p2p_fsk_toa_ms frame_len + P2P_WINDOW_MARGIN_MS)"

subsection \<open>Headers\<close>

lemmas twr_lens = TWR_HDR_LEN_def TWR_TAG_LEN_def TWR_NONCE_LEN_def TWR_PAYLOAD_MAX_def
  P2P_FRAME_MAX_def P2P_KEY_LEN_def

lemma bit_byte_ge: "8 \<le> n \<Longrightarrow> \<not> bit (w :: u8) n"
  using bit_imp_le_length [of w n] by auto

lemma put_get_le32 [simp]: "4 \<le> length bs \<Longrightarrow> put_le32 (get_le32 bs) = take 4 bs"
proof -
  assume "4 \<le> length bs"
  then obtain a b c d r where bs: "bs = a # b # c # d # r"
    by (auto simp: Suc_le_length_iff numeral_eq_Suc)
  have "ucast (get_le32 bs) = a" "ucast (drop_bit 8 (get_le32 bs)) = b"
    "ucast (drop_bit 16 (get_le32 bs)) = c" "ucast (drop_bit 24 (get_le32 bs)) = d"
    by (auto simp: bs get_le32_def bit_simps bit_byte_ge intro!: bit_word_eqI)
  then show ?thesis by (simp add: put_le32_def bs)
qed

lemma length_twr_hdr_put [simp]: "length (twr_hdr_put h) = 14"
  by (simp add: twr_hdr_put_def)

lemma length_twr_nonce [simp]: "length (twr_nonce src c) = 13"
  by (simp add: twr_nonce_def twr_lens)

text \<open>The nonce determines the address and the counter.\<close>

lemma twr_nonce_inj: "twr_nonce src c = twr_nonce src' c' \<longleftrightarrow> src = src' \<and> c = c'"
proof
  assume "twr_nonce src c = twr_nonce src' c'"
  then have "put_le32 src @ put_le32 c = put_le32 src' @ put_le32 c'"
    by (simp add: twr_nonce_def)
  then have "put_le32 src = put_le32 src'" "put_le32 c = put_le32 c'" by simp_all
  then have "get_le32 (put_le32 src) = get_le32 (put_le32 src')"
    "get_le32 (put_le32 c) = get_le32 (put_le32 c')" by simp_all
  then show "src = src' \<and> c = c'" by simp
qed simp

lemma ver_type: "drop_bit 5 (push_bit 5 TWR_VERSION OR (t AND 0x1F)) = TWR_VERSION"
  "(push_bit 5 TWR_VERSION OR (t AND 0x1F)) AND 0x1F = t AND 0x1F"
  by (rule bit_word_eqI; simp add: bit_simps TWR_VERSION_def; auto simp: numeral_eq_Suc less_Suc_eq)+

lemma ver_type_get: "drop_bit 5 v = TWR_VERSION \<Longrightarrow> push_bit 5 TWR_VERSION OR (v AND 0x1F) = (v :: u8)"
proof (rule bit_word_eqI)
  fix n assume v: "drop_bit 5 v = TWR_VERSION" and "n < LENGTH(8)"
  have "bit v n = bit (push_bit 5 TWR_VERSION) n" if "5 \<le> n"
    using that \<open>n < LENGTH(8)\<close> by (simp add: v [symmetric] bit_simps)
  moreover have "bit (0x1F :: u8) n \<longleftrightarrow> n < 5"
    using \<open>n < LENGTH(8)\<close> bit_mask_iff [of 5 n, where ?'a = u8] by (simp add: mask_eq_exp_minus_1)
  ultimately show "bit (push_bit 5 TWR_VERSION OR (v AND 0x1F)) n = bit v n"
    by (auto simp: bit_simps not_less)
qed

lemma type_mask: "(t AND 0x1F = t) \<longleftrightarrow> (t :: u8) < 32"
proof -
  have "t AND mask 5 = take_bit 5 t" by (simp add: take_bit_eq_mask)
  moreover have "(mask 5 :: u8) = 0x1F" by (simp add: mask_eq_exp_minus_1)
  moreover have "take_bit 5 t = t \<longleftrightarrow> t < 32"
  proof -
    have "take_bit 5 t = t \<longleftrightarrow> unat (take_bit 5 t) = unat t" by simp
    also have "\<dots> \<longleftrightarrow> unat t < 32"
      by (simp add: unsigned_take_bit_eq take_bit_nat_eq_self_iff del: unat_inj_iff)
    finally show ?thesis by (simp add: word_less_nat_alt)
  qed
  ultimately show ?thesis by simp
qed

lemma twr_hdr_get_put:
  assumes "h_type h < 32" "8 \<le> length r" "length r \<le> 82"
  shows "twr_hdr_get (twr_hdr_put h @ r) = Inr h"
proof -
  have t: "h_type h AND 0x1F = h_type h" using assms(1) type_mask by blast
  moreover have "(twr_hdr_put h @ r) ! 0 = push_bit 5 TWR_VERSION OR (h_type h AND 0x1F)"
    "(twr_hdr_put h @ r) ! 1 = h_flags h"
    "drop 2 (twr_hdr_put h @ r) = put_le32 (h_src h) @ put_le32 (h_dest h) @ put_le32 (h_counter h) @ r"
    "drop 6 (twr_hdr_put h @ r) = put_le32 (h_dest h) @ put_le32 (h_counter h) @ r"
    "drop 10 (twr_hdr_put h @ r) = put_le32 (h_counter h) @ r"
    by (simp_all add: twr_hdr_put_def)
  ultimately show ?thesis
    using assms(2,3) ver_type [of "h_type h"]
    by (simp add: twr_hdr_get_def twr_lens del: drop_append bit.conj_disj_distrib2 drop_bit_or)
qed

lemma twr_hdr_put_get:
  assumes "twr_hdr_get frame = Inr h"
  shows "twr_hdr_put h = take 14 frame" "h_type h < 32"
    "22 \<le> length frame" "length frame \<le> 96"
proof -
  have h: "h = \<lparr>h_type = frame ! 0 AND 0x1F, h_flags = frame ! 1, h_src = get_le32 (drop 2 frame),
      h_dest = get_le32 (drop 6 frame), h_counter = get_le32 (drop 10 frame)\<rparr>"
    and len: "22 \<le> length frame" "length frame \<le> 96" and v: "drop_bit 5 (frame ! 0) = TWR_VERSION"
    using assms by (auto simp: twr_hdr_get_def twr_lens split: if_splits)
  have "(frame ! 0 AND 0x1F) AND 0x1F = frame ! 0 AND 0x1F"
    by (simp add: and.assoc)
  moreover have "take 14 frame = [frame ! 0, frame ! 1] @ take 4 (drop 2 frame) @ take 4 (drop 6 frame)
      @ take 4 (drop 10 frame)"
  proof -
    have "take 14 frame = take 2 frame @ take 12 (drop 2 frame)"
      using take_add [of 2 12 frame] by simp
    also have "take 12 (drop 2 frame) = take 4 (drop 2 frame) @ take 8 (drop 6 frame)"
      using take_add [of 4 8 "drop 2 frame"] by simp
    also have "take 8 (drop 6 frame) = take 4 (drop 6 frame) @ take 4 (drop 10 frame)"
      using take_add [of 4 4 "drop 6 frame"] by simp
    also have "take 2 frame = [frame ! 0, frame ! 1]"
      using len(1) by (cases frame; cases "tl frame") auto
    finally show ?thesis by simp
  qed
  ultimately show "twr_hdr_put h = take 14 frame" "h_type h < 32" "22 \<le> length frame" "length frame \<le> 96"
    using len v ver_type_get [OF v] type_mask [of "frame ! 0 AND 0x1F"]
    by (simp_all add: twr_hdr_put_def h)
qed

subsection \<open>Sealing and opening\<close>

lemma twr_seal_eq:
  "twr_seal E key h pt n =
    (if n < length pt + 22 \<or> 96 < length pt + 22 then Inl EMSGSIZE
     else Inr (twr_hdr_put h @ ctr_crypt E key (twr_nonce (h_src h) (h_counter h)) pt
                 @ ccm_tag E key (twr_nonce (h_src h) (h_counter h)) (twr_hdr_put h) pt 8))"
  by (simp add: twr_seal_def twr_lens app_ccm_encrypt_and_tag_def params_ok_def add.commute)

lemma length_twr_seal:
  "block_cipher E \<Longrightarrow> twr_seal E key h pt n = Inr frame \<Longrightarrow> length frame = length pt + 22"
  by (auto simp: twr_seal_eq split: if_splits)

lemma twr_open_eq:
  assumes "block_cipher E" "twr_hdr_get frame = Inr h"
  defines "ct \<equiv> take (length frame - 22) (drop 14 frame)"
    and "nonce \<equiv> twr_nonce (h_src h) (h_counter h)"
  shows "twr_open E key frame n =
    (if n < length frame - 22 then Inl EMSGSIZE
     else if drop (length frame - 8) frame
             = ccm_tag E key nonce (take 14 frame) (ctr_crypt E key nonce ct) 8
     then Inr (h, ctr_crypt E key nonce ct) else Inl EBADMSG)"
proof -
  note len = twr_hdr_put_get(3,4) [OF assms(2)]
  have "params_ok (length nonce) (length (take 14 frame)) (length (drop (length frame - 8) frame))"
    using len by (simp add: params_ok_def nonce_def)
  from auth_decrypt_eq [OF assms(1) this, of key ct "[]"] show ?thesis
    using len assms(2) by (simp add: twr_open_def twr_lens Let_def ct_def nonce_def)
qed

text \<open>
  C37: A frame opens under a key exactly when it is the seal, under that key, of the header and
  plaintext it opens to: opening undoes sealing, and no other bytes (a changed header bit, a
  changed length, a changed tag) open.
\<close>

theorem twr_open_iff:
  assumes "block_cipher E"
  shows "twr_open E key frame n = Inr (h, pt) \<longleftrightarrow>
    h_type h < 32 \<and> length pt \<le> n \<and> twr_seal E key h pt P2P_FRAME_MAX = Inr frame"
proof
  assume o: "twr_open E key frame n = Inr (h, pt)"
  then have get: "twr_hdr_get frame = Inr h"
    by (auto simp: twr_open_def Let_def split: sum.splits if_splits option.splits prod.splits)
  note hdr = twr_hdr_put_get [OF get]
  let ?N = "twr_nonce (h_src h) (h_counter h)" and ?ct = "take (length frame - 22) (drop 14 frame)"
  from o have pt: "pt = ctr_crypt E key ?N ?ct" and n: "length frame - 22 \<le> n"
    and tag: "drop (length frame - 8) frame = ccm_tag E key ?N (take 14 frame) pt 8"
    by (auto simp: twr_open_eq [OF assms get] split: if_splits)
  have ct: "ctr_crypt E key ?N pt = ?ct" and lpt: "length pt = length frame - 22"
    using assms hdr(3) by (simp_all add: pt)
  have "frame = take 14 frame @ ?ct @ drop (length frame - 8) frame"
    using hdr(3) append_take_drop_id [of "length frame - 22" "drop 14 frame"] by simp
  then show "h_type h < 32 \<and> length pt \<le> n \<and> twr_seal E key h pt P2P_FRAME_MAX = Inr frame"
    using hdr n tag by (simp add: twr_seal_eq twr_lens lpt ct)
next
  assume s: "h_type h < 32 \<and> length pt \<le> n \<and> twr_seal E key h pt P2P_FRAME_MAX = Inr frame"
  let ?N = "twr_nonce (h_src h) (h_counter h)"
  from s have lpt: "length pt \<le> 74" and frame: "frame = twr_hdr_put h @ ctr_crypt E key ?N pt
      @ ccm_tag E key ?N (twr_hdr_put h) pt 8"
    by (auto simp: twr_seal_eq twr_lens split: if_splits)
  have get: "twr_hdr_get frame = Inr h"
    unfolding frame by (rule twr_hdr_get_put) (use s lpt assms in simp_all)
  show "twr_open E key frame n = Inr (h, pt)"
    unfolding twr_open_eq [OF assms get] using s assms by (simp add: frame)
qed

theorem twr_open_iff_witness:
  "\<exists>frame. twr_seal demo_cipher [] \<lparr>h_type = 0, h_flags = 1, h_src = 5, h_dest = 9, h_counter = 7\<rparr>
      [0x81, 2, 3] P2P_FRAME_MAX = Inr frame
    \<and> twr_open demo_cipher [] frame TWR_PAYLOAD_MAX
      = Inr (\<lparr>h_type = 0, h_flags = 1, h_src = 5, h_dest = 9, h_counter = 7\<rparr>, [0x81, 2, 3])"
proof -
  have "\<exists>frame. twr_seal demo_cipher [] \<lparr>h_type = 0, h_flags = 1, h_src = 5, h_dest = 9, h_counter = 7\<rparr>
      [0x81, 2, 3] P2P_FRAME_MAX = Inr frame"
    by (simp add: twr_seal_eq twr_lens)
  then show ?thesis
    using twr_open_iff [OF block_cipher_demo, of "[]" _ TWR_PAYLOAD_MAX
        "\<lparr>h_type = 0, h_flags = 1, h_src = 5, h_dest = 9, h_counter = 7\<rparr>" "[0x81, 2, 3]"]
    by (auto simp: twr_lens)
qed

subsection \<open>The fsk packet\<close>

lemma length_pn9 [simp]: "length (pn9_from l bs) = length bs"
  by (induction bs arbitrary: l) auto

lemma pn9_involution: "pn9_from l (pn9_from l bs) = bs"
  by (induction bs arbitrary: l) (auto simp: xor.assoc)

lemma fsk_pn9_simps [simp]: "fsk_pn9 (fsk_pn9 bs) = bs" "length (fsk_pn9 bs) = length bs"
  by (simp_all add: fsk_pn9_def pn9_involution)

lemma length_put_be [simp]: "length (put_be16 w) = 2" "length (put_be32 v) = 4"
  by (simp_all add: put_be16_def put_be32_def)

lemma get_put_be16 [simp]: "get_be16 (put_be16 w @ r) = w"
  by (rule bit_word_eqI) (auto simp: get_be16_def put_be16_def bit_simps)

lemma fsk_roundtrip:
  assumes "length frame \<le> 255"
  shows "p2p_fsk_unwrap crc (p2p_fsk_wrap crc frame) = Inr frame"
proof -
  have n: "unat (word_of_nat (length frame) :: u8) = length frame"
    using assms by (simp add: unat_of_nat_small)
  show ?thesis
    using get_put_be16 [of _ "[]"]
    by (simp add: p2p_fsk_unwrap_def p2p_fsk_wrap_def Let_def n P2P_FSK_OVERHEAD_def)
qed

subsection \<open>Walking a TLV list\<close>

lemma tlv_next_progress:
  "p2p_tlv_next buf off = TLV_AT t off' \<Longrightarrow>
    off + 2 \<le> off' \<and> off' \<le> length buf \<and> length (t_val t) = t_len t \<and> off' = off + 2 + t_len t"
  by (auto simp: p2p_tlv_next_def Let_def split: if_splits)

definition tlv_put :: "u8 \<Rightarrow> bytes \<Rightarrow> bytes" where
  "tlv_put cmd val = [cmd, word_of_nat (length val)] @ val"

lemma tlv_next_put:
  assumes "length val \<le> 255"
  shows "p2p_tlv_next (pre @ tlv_put cmd val @ post) (length pre)
    = TLV_AT \<lparr>t_cmd = cmd, t_len = length val, t_val = val\<rparr> (length pre + 2 + length val)"
proof -
  have "unat (word_of_nat (length val) :: u8) = length val"
    using assms by (simp add: unat_of_nat_small)
  then show ?thesis by (simp add: p2p_tlv_next_def tlv_put_def Let_def nth_append)
qed

subsection \<open>The radio's TX timeout\<close>

text \<open>The longest frame stays below the driver's timeout at every spreading factor.\<close>

lemma frame_fits_timeout:
  "list_all (\<lambda>sf. p2p_toa_ms sf P2P_FRAME_MAX \<le> P2P_TOA_MAX_MS) [6..<13]"
  by code_simp

end
