(* ===== verification/P2pState.thy ===== *)
theory P2pState
  imports TwrFrame RadioState
begin

text \<open>
  The state of the private radio, \<open>src/app/src/app_radio_p2p.c\<close>, and what it keeps in flash: the
  frame counter with its reserved window (\<open>p2pfc/base\<close>), the JoinRequest counter
  (\<open>p2pjoin/dnonce\<close>) and the pairing record (\<open>p2pjoin/state\<close>).

  The file's static variables are the record \<open>p2p\<close>. What is outside the repository is the record
  \<open>p2p_env\<close>: the block cipher and the CRC, the configuration of the device, and the answers of the
  kernel, the LoRa driver, the settings store and the other modules, each a function of the
  number of answers taken before (\<open>tk\<close>), so that two calls may answer differently.  A save or
  delete of the settings store answers an \<open>errno\<close>, and then the store is unchanged; a value read
  at boot is the one saved last.

  \<open>tr\<close> is the trace of the device over its whole life, newest event first: what it saved and
  deleted, what it sealed, opened and accepted, and its calls into \<open>app_radio\<close>.  The flash
  content is read off the trace (\<open>nv\<close>), so the content at the moment of a power loss is that of the
  trace at that moment.
\<close>

subsection \<open>Environment\<close>

datatype p2p_link_state = P2P_LINK_UNPAIRED | P2P_LINK_JOINING | P2P_LINK_PAIRED

definition MODULATION_LORA :: u8 where "MODULATION_LORA = 0"
definition MODULATION_FSK :: u8 where "MODULATION_FSK = 1"

text \<open>A packet as the driver hands it over, and one the receive callback queued.\<close>

record p2p_rx =
  rx_at :: int
  rx_rssi :: int
  rx_snr :: int
  rx_buf :: bytes

record p2p_env =
  pe_aes :: cipher
  pe_crc16 :: "bytes \<Rightarrow> u16"
  pe_appkey :: bytes
  pe_deveui :: bytes
  pe_sf :: int
  pe_tx_power :: int
  pe_modulation :: u8
  pe_frequency :: u32
  pe_fsk_built :: bool
  pe_fw :: bytes
  pe_reset_cause :: u32
  pe_save :: "nat \<Rightarrow> errno option"
  pe_rand :: "nat \<Rightarrow> u32"
  pe_ms :: "nat \<Rightarrow> nat"
  pe_config :: "nat \<Rightarrow> errno option"
  pe_send :: "nat \<Rightarrow> errno option"
  pe_listen :: "nat \<Rightarrow> errno option"
  pe_recv :: "nat \<Rightarrow> bytes res"
  pe_heard :: "nat \<Rightarrow> p2p_rx list"
  pe_ack_pending :: "nat \<Rightarrow> bool"
  pe_time_wanted :: "nat \<Rightarrow> bool"
  pe_backoff :: "nat \<Rightarrow> int"
  pe_battery_mv :: "nat \<Rightarrow> u16"

subsection \<open>State\<close>

datatype radio_call =
    C_backoff u16
  | C_note_downlink int int
  | C_note_send
  | C_link_result
  | C_join_attempts nat
  | C_uplink_view int int u8 u8
  | C_network_time u32
  | C_time_event
  | C_link_up
  | C_announce
  | C_tx_kick
  | C_ready
  | C_downlink bytes

datatype p2p_ev =
    V_save string bytes
  | V_delete string
  | V_seal bytes twr_hdr bytes
  | V_air bytes
  | V_recv bytes twr_hdr bytes
  | V_accept bytes u32
  | V_call radio_call

record p2p_retx =
  rt_counter :: u32
  rt_pt :: bytes

record p2p_lc =
  lc_rssi :: int
  lc_snr :: int
  lc_margin :: int
  lc_gw_count :: u8

record p2p =
  tr :: "p2p_ev list"
  tk :: nat
  now :: int
  air :: duty
  m_link_idle_at :: int
  m_listening :: bool
  m_debug_drop_acks :: u32
  m_started :: bool
  m_disabled :: bool
  m_fcnt :: u32
  m_fcnt_reserved :: u32
  m_link_state :: p2p_link_state
  m_net_id :: u32
  m_session_key :: bytes
  m_rx_delay_s :: u8
  m_session_tx_power :: "int option"
  m_dev_nonce :: u32
  m_join_started_at :: int
  m_join_work :: work
  m_sf :: nat
  m_join_slow :: bool
  m_rejoin_attempt :: nat
  m_gw_last :: u32
  m_last_ack_rssi :: "int option"
  m_lc :: "p2p_lc option"
  m_lc_outstanding :: bool
  m_ctrl_pending :: u32
  m_ctrl_tries :: nat
  m_ctrl_work :: work
  m_session_id :: u32
  m_time_req :: "(u32 \<times> int) option"
  m_answer_reports :: nat
  m_dl_rssi :: int
  m_dl_snr :: int
  m_ds :: "int \<times> int"
  m_drains :: nat
  m_home_gw :: "(u32 \<times> u8) option"
  m_retx :: "p2p_retx option"

text \<open>\<open>k_work_schedule_for_queue\<close>: no effect on a work item that is scheduled already. An item
  runs once its time has come, and is idle while it runs.\<close>

definition work_idle :: work where
  "work_idle = \<lparr>wk_queued = False, wk_at = None\<rparr>"

definition work_schedule :: "int \<Rightarrow> int \<Rightarrow> work \<Rightarrow> work" where
  "work_schedule t delay w = (if scheduled w then w else work_reschedule t delay w)"

definition work_due :: "int \<Rightarrow> work \<Rightarrow> bool" where
  "work_due t w \<longleftrightarrow> wk_queued w \<or> (case wk_at w of Some a \<Rightarrow> a \<le> t | None \<Rightarrow> False)"

definition emit :: "p2p_ev \<Rightarrow> p2p \<Rightarrow> p2p" where
  "emit v s = s\<lparr>tr := v # tr s\<rparr>"

abbreviation call :: "radio_call \<Rightarrow> p2p \<Rightarrow> p2p" where
  "call c \<equiv> emit (V_call c)"

text \<open>The next answer of the environment.\<close>

definition ask :: "(nat \<Rightarrow> 'a) \<Rightarrow> p2p \<Rightarrow> 'a \<times> p2p" where
  "ask f s = (f (tk s), s\<lparr>tk := tk s + 1\<rparr>)"

text \<open>A blocking call: the time it took.\<close>

definition blocks :: "p2p_env \<Rightarrow> p2p \<Rightarrow> p2p" where
  "blocks e s = s\<lparr>now := now s + int (pe_ms e (tk s)), tk := tk s + 1\<rparr>"

definition k_sleep :: "int \<Rightarrow> p2p \<Rightarrow> p2p" where
  "k_sleep ms s = s\<lparr>now := now s + max ms 0\<rparr>"

subsection \<open>Identity\<close>

definition node_addr :: "p2p_env \<Rightarrow> u32" where
  "node_addr e = get_be32 (drop 4 (pe_deveui e))"

definition app_key_is_set :: "p2p_env \<Rightarrow> bool" where
  "app_key_is_set e \<longleftrightarrow> list_ex (\<lambda>b. b \<noteq> 0) (pe_appkey e)"

definition addr_is_valid :: "p2p_env \<Rightarrow> bool" where
  "addr_is_valid e \<longleftrightarrow> node_addr e \<noteq> TWR_ADDR_NONE \<and> node_addr e \<noteq> TWR_ADDR_BROADCAST"

definition phy_fsk :: "p2p_env \<Rightarrow> bool" where
  "phy_fsk e \<longleftrightarrow> pe_fsk_built e \<and> pe_modulation e = MODULATION_FSK"

definition phy_is_supported :: "p2p_env \<Rightarrow> bool" where
  "phy_is_supported e \<longleftrightarrow> pe_modulation e = MODULATION_LORA \<or> phy_fsk e"

text \<open>The labels \<open>HIO-TWR-JOIN\<close> and \<open>HIO-TWR-SES\<close>, and the public pairing key with its NUL.\<close>

definition P2P_JOIN_KEY_LABEL :: bytes where
  "P2P_JOIN_KEY_LABEL = [0x48, 0x49, 0x4F, 0x2D, 0x54, 0x57, 0x52, 0x2D, 0x4A, 0x4F, 0x49, 0x4E]"
definition P2P_SESSION_KEY_LABEL :: bytes where
  "P2P_SESSION_KEY_LABEL = [0x48, 0x49, 0x4F, 0x2D, 0x54, 0x57, 0x52, 0x2D, 0x53, 0x45, 0x53]"
definition TWR_PAIRING_KEY :: bytes where
  "TWR_PAIRING_KEY = [0x54, 0x4F, 0x57, 0x45, 0x52, 0x2D, 0x50, 0x41, 0x49, 0x52, 0x2D, 0x4B, 0x45,
     0x59, 0x21, 0]"

definition key_block :: "bytes \<Rightarrow> bytes \<Rightarrow> bytes" where
  "key_block label body =
     (let b = label @ [1] @ body in b @ replicate (32 - length b) 0)"

definition derive_key :: "p2p_env \<Rightarrow> bytes \<Rightarrow> bytes \<Rightarrow> bytes" where
  "derive_key e label body = app_ccm_cmac (pe_aes e) (pe_appkey e) (key_block label body)"

definition derive_join_key :: "p2p_env \<Rightarrow> bytes" where
  "derive_join_key e = derive_key e P2P_JOIN_KEY_LABEL (pe_deveui e)"

definition session_fields :: "p2p_env \<Rightarrow> u32 \<Rightarrow> u32 \<Rightarrow> bytes" where
  "session_fields e dev_nonce central_nonce =
     put_be32 dev_nonce @ put_be32 central_nonce @ pe_deveui e"

definition derive_session_key :: "p2p_env \<Rightarrow> u32 \<Rightarrow> u32 \<Rightarrow> bytes" where
  "derive_session_key e dev_nonce central_nonce =
     derive_key e P2P_SESSION_KEY_LABEL (session_fields e dev_nonce central_nonce)"

subsection \<open>Flash\<close>

fun nv :: "string \<Rightarrow> p2p_ev list \<Rightarrow> bytes option" where
  "nv k [] = None"
| "nv k (V_save k' v # t) = (if k' = k then Some v else nv k t)"
| "nv k (V_delete k' # t) = (if k' = k then None else nv k t)"
| "nv k (_ # t) = nv k t"

definition settings_save_one :: "p2p_env \<Rightarrow> string \<Rightarrow> bytes \<Rightarrow> p2p \<Rightarrow> errno option \<times> p2p" where
  "settings_save_one e k v s =
     (case ask (pe_save e) s of
        (Some err, s1) \<Rightarrow> (Some err, s1)
      | (None, s1) \<Rightarrow> (None, emit (V_save k v) s1))"

definition settings_delete :: "p2p_env \<Rightarrow> string \<Rightarrow> p2p \<Rightarrow> errno option \<times> p2p" where
  "settings_delete e k s =
     (case ask (pe_save e) s of
        (Some err, s1) \<Rightarrow> (Some err, s1)
      | (None, s1) \<Rightarrow> (None, emit (V_delete k) s1))"

definition P2P_FCNT_KEY :: string where "P2P_FCNT_KEY = ''p2pfc/base''"
definition P2P_FCNT_RESERVE :: u32 where "P2P_FCNT_RESERVE = 256"
definition P2P_JOIN_DNONCE_KEY :: string where "P2P_JOIN_DNONCE_KEY = ''p2pjoin/dnonce''"
definition P2P_JOIN_STATE_KEY :: string where "P2P_JOIN_STATE_KEY = ''p2pjoin/state''"
definition P2P_JOIN_STATE_LEN :: nat where "P2P_JOIN_STATE_LEN = 4 + P2P_KEY_LEN + 1 + 1 + 1"
definition P2P_JOIN_STATE_LEN_V1 :: nat where "P2P_JOIN_STATE_LEN_V1 = P2P_JOIN_STATE_LEN - 1"

subsection \<open>The frame counter\<close>

definition fcnt_settings_set :: "string \<Rightarrow> bytes \<Rightarrow> p2p \<Rightarrow> errno option \<times> p2p" where
  "fcnt_settings_set name val s =
     (if name \<noteq> ''base'' then (Some ENOENT, s)
      else if length val \<noteq> 4 then (None, s)
      else (None, s\<lparr>m_fcnt := get_le32 val, m_fcnt_reserved := get_le32 val\<rparr>))"

definition fcnt_reserve :: "p2p_env \<Rightarrow> u32 \<Rightarrow> p2p \<Rightarrow> errno option \<times> p2p" where
  "fcnt_reserve e high_water s =
     (case settings_save_one e P2P_FCNT_KEY (put_le32 high_water) s of
        (Some err, s1) \<Rightarrow> (Some err, s1)
      | (None, s1) \<Rightarrow> (None, s1\<lparr>m_fcnt_reserved := high_water\<rparr>))"

definition fcnt_next :: "p2p_env \<Rightarrow> p2p \<Rightarrow> u32 res \<times> p2p" where
  "fcnt_next e s =
     (if m_fcnt s = -1 then (Inl EOVERFLOW, s)
      else
        (let (ret, s1) =
           (if m_fcnt_reserved s \<le> m_fcnt s
            then fcnt_reserve e (if -1 - P2P_FCNT_RESERVE < m_fcnt s then -1
                                 else m_fcnt s + P2P_FCNT_RESERVE) s
            else (None, s))
         in case ret of
              Some err \<Rightarrow> (Inl err, s1)
            | None \<Rightarrow> (Inr (m_fcnt s1), s1\<lparr>m_fcnt := m_fcnt s1 + 1\<rparr>)))"

definition twr_counter_next :: "p2p_env \<Rightarrow> p2p \<Rightarrow> u32 res \<times> p2p" where
  "twr_counter_next e s =
     (case fcnt_next e s of
        (Inr c, s1) \<Rightarrow> if c = 0 then fcnt_next e s1 else (Inr c, s1)
      | (Inl err, s1) \<Rightarrow> (Inl err, s1))"

subsection \<open>The pairing\<close>

definition join_settings_set :: "p2p_env \<Rightarrow> string \<Rightarrow> bytes \<Rightarrow> p2p \<Rightarrow> errno option \<times> p2p" where
  "join_settings_set e name val s =
     (if name = ''dnonce'' then
        (None, if length val = 4 then s\<lparr>m_dev_nonce := get_le32 val\<rparr> else s)
      else if name = ''state'' then
        (None,
         if length val = P2P_JOIN_STATE_LEN \<or> length val = P2P_JOIN_STATE_LEN_V1 then
           (let net_id = get_le32 val;
                rx_delay = val ! (4 + P2P_KEY_LEN);
                tx_power = val ! (5 + P2P_KEY_LEN);
                modulation = (if length val = P2P_JOIN_STATE_LEN then val ! (6 + P2P_KEY_LEN)
                              else MODULATION_LORA)
            in if net_id = TWR_ADDR_NONE \<or> net_id = TWR_ADDR_BROADCAST then s
               else if modulation \<noteq> pe_modulation e then s
               else s\<lparr>m_net_id := net_id,
                      m_session_key := take P2P_KEY_LEN (drop 4 val),
                      m_rx_delay_s := min (max rx_delay 1) P2P_RX1_DELAY_MAX_S,
                      m_session_tx_power :=
                        (if P2P_TX_POWER_MIN_DBM \<le> tx_power \<and> tx_power \<le> P2P_TX_POWER_MAX_DBM
                         then Some (sint tx_power) else None),
                      m_link_state := P2P_LINK_PAIRED\<rparr>)
         else s)
      else (Some ENOENT, s))"

definition dnonce_persist :: "p2p_env \<Rightarrow> u32 \<Rightarrow> p2p \<Rightarrow> errno option \<times> p2p" where
  "dnonce_persist e v s =
     (case settings_save_one e P2P_JOIN_DNONCE_KEY (put_le32 v) s of
        (Some err, s1) \<Rightarrow> (Some err, s1)
      | (None, s1) \<Rightarrow> (None, s1\<lparr>m_dev_nonce := v\<rparr>))"

definition session_reset :: "p2p \<Rightarrow> p2p" where
  "session_reset s =
     call (C_backoff 0)
       (s\<lparr>m_gw_last := 0, m_last_ack_rssi := None, m_lc := None, m_lc_outstanding := False,
          m_time_req := None, m_answer_reports := 0, m_ctrl_pending := 0, m_ctrl_tries := 0,
          m_retx := None, m_drains := 0, m_home_gw := None\<rparr>)"

definition pairing_record :: "p2p_env \<Rightarrow> p2p_join_accept \<Rightarrow> bytes \<Rightarrow> bytes" where
  "pairing_record e ja key =
     put_le32 (ja_net_id ja) @ key
       @ [ja_rx_delay_s ja,
          case ja_tx_power ja of Some p \<Rightarrow> word_of_int p | None \<Rightarrow> 0,
          pe_modulation e]"

definition pairing_persist ::
  "p2p_env \<Rightarrow> p2p_join_accept \<Rightarrow> bytes \<Rightarrow> bool \<Rightarrow> p2p \<Rightarrow> errno option \<times> p2p" where
  "pairing_persist e ja key keep_fcnt s =
     (case settings_save_one e P2P_JOIN_STATE_KEY (pairing_record e ja key) s of
        (Some err, s1) \<Rightarrow> (Some err, s1)
      | (None, s1) \<Rightarrow>
          (let s2 = session_reset
                 (s1\<lparr>m_net_id := ja_net_id ja, m_session_key := key,
                     m_rx_delay_s := ja_rx_delay_s ja, m_session_tx_power := ja_tx_power ja,
                     m_link_state := P2P_LINK_PAIRED\<rparr>)
           in if keep_fcnt then (None, s2)
              else (None, snd (fcnt_reserve e P2P_FCNT_RESERVE (s2\<lparr>m_fcnt := 0\<rparr>)))))"

definition pairing_clear :: "p2p_env \<Rightarrow> p2p \<Rightarrow> errno option \<times> p2p" where
  "pairing_clear e s =
     (let (ret, s1) = settings_delete e P2P_JOIN_STATE_KEY s
      in (ret, session_reset (s1\<lparr>m_link_state := P2P_LINK_UNPAIRED, m_started := False,
                                 m_session_tx_power := None\<rparr>)))"

subsection \<open>Boot\<close>

definition sf_from_cfg :: "p2p_env \<Rightarrow> nat" where
  "sf_from_cfg e = nat (min (max (pe_sf e) 6) 12)"

text \<open>The static initial values, with the flash and the environment of the device.\<close>

definition p2p_reset :: "p2p_ev list \<Rightarrow> nat \<Rightarrow> p2p" where
  "p2p_reset t k =
     \<lparr>tr = t, tk = k, now = 0,
      air = \<lparr>du_entries = replicate APP_RADIO_DUTY_LEDGER_ENTRIES \<lparr>de_end = 0, de_air = 0\<rparr>,
             du_budget = 0, du_head = 0, du_count = 0\<rparr>,
      m_link_idle_at = 0, m_listening = False, m_debug_drop_acks = 0, m_started = False,
      m_disabled = False, m_fcnt = 0, m_fcnt_reserved = 0, m_link_state = P2P_LINK_UNPAIRED,
      m_net_id = 0, m_session_key = replicate P2P_KEY_LEN 0, m_rx_delay_s = 1,
      m_session_tx_power = None, m_dev_nonce = 0, m_join_started_at = 0, m_join_work = work_idle,
      m_sf = 7, m_join_slow = False, m_rejoin_attempt = 0, m_gw_last = 0, m_last_ack_rssi = None,
      m_lc = None, m_lc_outstanding = False, m_ctrl_pending = 0, m_ctrl_tries = 0,
      m_ctrl_work = work_idle, m_session_id = 0, m_time_req = None, m_answer_reports = 0, m_dl_rssi = 0,
      m_dl_snr = 0, m_ds = (0, 0), m_drains = 0, m_home_gw = None, m_retx = None\<rparr>"

text \<open>\<open>settings_load_subtree\<close>: the handler is called on each stored name of the subtree.\<close>

definition load :: "string \<Rightarrow> (bytes \<Rightarrow> p2p \<Rightarrow> errno option \<times> p2p) \<Rightarrow> p2p \<Rightarrow> p2p" where
  "load k h s = (case nv k (tr s) of Some v \<Rightarrow> snd (h v s) | None \<Rightarrow> s)"

definition radio_configure :: "p2p_env \<Rightarrow> p2p \<Rightarrow> errno option \<times> p2p" where
  "radio_configure e s = ask (pe_config e) s"

definition app_radio_p2p_init :: "p2p_env \<Rightarrow> p2p \<Rightarrow> errno option \<times> p2p" where
  "app_radio_p2p_init e s =
     (let s1 = s\<lparr>air := app_radio_ledger_init (air s) (app_radio_duty_budget_ms (pe_frequency e))\<rparr>;
          s2 = load P2P_FCNT_KEY (fcnt_settings_set ''base'') s1;
          s3 = load P2P_JOIN_DNONCE_KEY (join_settings_set e ''dnonce'') s2;
          s4 = load P2P_JOIN_STATE_KEY (join_settings_set e ''state'') s3;
          (ret, s5) = radio_configure e (s4\<lparr>m_sf := sf_from_cfg e\<rparr>)
      in case ret of
           Some err \<Rightarrow> (Some err, s5)
         | None \<Rightarrow> (let (r, s6) = ask (pe_rand e) s5 in (None, s6\<lparr>m_session_id := r\<rparr>)))"

end
