(* ===== verification/P2pExchange.thy ===== *)
theory P2pExchange
  imports P2pState
begin

text \<open>
  One exchange of the private radio, \<open>src/app/src/app_radio_p2p.c\<close>: an uplink sealed under a fresh
  counter (or, for a retry, under the counter of the frame it repeats), its transmissions, the
  ACK window behind each, the downlink an ACK announces, and the node's own ACK of it.

  A receive window is the list of packets the driver's callback queued in it, in order; the
  downlink window continues on what the ACK window left in the queue.  Of the two ways the driver
  offers to receive after a transmission, the two calls \<open>lora_send\<close>, \<open>lora_recv_async\<close> are
  modelled.
\<close>

definition P2P_REPS :: nat where "P2P_REPS = 3"
definition P2P_BACKOFF_MAX_MS :: u32 where "P2P_BACKOFF_MAX_MS = 100"
definition P2P_TX_GAP_MS :: int where "P2P_TX_GAP_MS = 200"
definition P2P_NOT_RETRIED :: int where "P2P_NOT_RETRIED = -1"
definition P2P_ACK_TAIL_BUF :: nat where "P2P_ACK_TAIL_BUF = 32"

record p2p_xfer =
  x_counter :: u32
  x_done_ms :: int
  x_sent :: nat
  x_acked :: bool
  x_pending :: bool
  x_ack_tail :: bytes
  x_rssi :: int
  x_snr :: int
  x_dl :: bytes
  x_ack_owed :: bool
  x_dl_counter :: u32
  x_dl_rssi :: int
  x_dl_at :: int

definition xfer0 :: p2p_xfer where
  "xfer0 = \<lparr>x_counter = 0, x_done_ms = 0, x_sent = 0, x_acked = False, x_pending = False,
     x_ack_tail = [], x_rssi = 0, x_snr = 0, x_dl = [], x_ack_owed = False, x_dl_counter = 0,
     x_dl_rssi = 0, x_dl_at = 0\<rparr>"

subsection \<open>Air\<close>

definition frame_toa_ms :: "p2p_env \<Rightarrow> p2p \<Rightarrow> nat \<Rightarrow> u32" where
  "frame_toa_ms e s frame_len =
     (if phy_fsk e then p2p_fsk_toa_ms frame_len else p2p_toa_ms (m_sf s) (min frame_len 255))"

definition duty_wait :: "u32 \<Rightarrow> p2p \<Rightarrow> int \<times> p2p" where
  "duty_wait ms s =
     (let (w, d) = app_radio_ledger_wait_ms (air s) (now s) ms in (w, s\<lparr>air := d\<rparr>))"

definition duty_charge :: "u32 \<Rightarrow> p2p \<Rightarrow> p2p" where
  "duty_charge ms s = s\<lparr>air := app_radio_ledger_charge (air s) (now s) ms\<rparr>"

definition duty_wait_ms_for :: "p2p_env \<Rightarrow> nat \<Rightarrow> p2p \<Rightarrow> int \<times> p2p" where
  "duty_wait_ms_for e wire_len s = duty_wait (frame_toa_ms e s wire_len) s"

definition tx_send_failed :: "p2p_env \<Rightarrow> nat \<Rightarrow> p2p \<Rightarrow> errno \<times> p2p" where
  "tx_send_failed e wire_len s = (EIO, duty_charge (frame_toa_ms e s wire_len) s)"

definition phy_tx_buf :: "p2p_env \<Rightarrow> bytes \<Rightarrow> bytes" where
  "phy_tx_buf e frame = (if phy_fsk e then p2p_fsk_wrap (pe_crc16 e) frame else frame)"

text \<open>\<open>lora_send\<close>: blocks until the TX-done; the packet may have been on the air on an error too.\<close>

definition lora_send :: "p2p_env \<Rightarrow> bytes \<Rightarrow> p2p \<Rightarrow> errno option \<times> p2p" where
  "lora_send e frame s = ask (pe_send e) (blocks e (emit (V_air (phy_tx_buf e frame)) s))"

text \<open>The result, the uptime of the TX-done, and the state.\<close>

definition p2p_tx_once ::
  "p2p_env \<Rightarrow> bytes \<Rightarrow> u32 \<Rightarrow> bool \<Rightarrow> p2p \<Rightarrow> errno option \<times> int \<times> p2p" where
  "p2p_tx_once e frame ms rx s =
     (case radio_configure e s of
        (Some err, s1) \<Rightarrow> (Some err, now s1, s1)
      | (None, s1) \<Rightarrow>
          (case lora_send e frame s1 of
             (Some _, s2) \<Rightarrow>
               (let (err, s3) = tx_send_failed e (length frame) s2 in (Some err, now s2, s3))
           | (None, s2) \<Rightarrow>
               (let s3 = duty_charge ms s2
                in if \<not> rx then (None, now s2, s3)
                   else (case radio_configure e s3 of
                           (Some err, s4) \<Rightarrow> (Some err, now s2, s4)
                         | (None, s4) \<Rightarrow>
                             (let (ret, s5) = ask (pe_listen e) s4 in (ret, now s2, s5))))))"

subsection \<open>Receive windows\<close>

definition p2p_recv_cb :: "p2p_env \<Rightarrow> p2p_rx \<Rightarrow> p2p_rx option" where
  "p2p_recv_cb e r =
     (case (if phy_fsk e then p2p_fsk_unwrap (pe_crc16 e) (rx_buf r) else Inr (rx_buf r)) of
        Inl _ \<Rightarrow> None
      | Inr d \<Rightarrow> if P2P_FRAME_MAX < length d then None else Some (r\<lparr>rx_buf := d\<rparr>))"

definition heard :: "p2p_env \<Rightarrow> p2p \<Rightarrow> p2p_rx list \<times> p2p" where
  "heard e s = (let (ps, s1) = ask (pe_heard e) s in (List.map_filter (p2p_recv_cb e) ps, blocks e s1))"

text \<open>The body of the loop of \<open>p2p_wait_frame\<close>, on one queued frame.\<close>

definition gw_frame :: "p2p_env \<Rightarrow> p2p_rx \<Rightarrow> p2p \<Rightarrow> (rx_verdict \<times> twr_hdr \<times> bytes) option \<times> p2p" where
  "gw_frame e rx s =
     (case twr_hdr_get (rx_buf rx) of
        Inl _ \<Rightarrow> (None, s)
      | Inr h0 \<Rightarrow>
          if h_src h0 \<noteq> m_net_id s \<or> h_dest h0 \<noteq> node_addr e then (None, s)
          else (case twr_open (pe_aes e) (m_session_key s) (rx_buf rx) TWR_PAYLOAD_MAX of
                  Inl _ \<Rightarrow> (None, s)
                | Inr (h, pt) \<Rightarrow>
                    (let s1 = emit (V_recv (m_session_key s) h pt) s
                     in case p2p_replay_check (m_gw_last s) (h_counter h) of
                          Inr v \<Rightarrow> (Some (v, h, pt), s1)
                        | Inl _ \<Rightarrow> (None, s1))))"

text \<open>The frame, the ACK it carries and the frames still queued.\<close>

fun p2p_wait_ack ::
  "p2p_env \<Rightarrow> u32 \<Rightarrow> p2p_rx list \<Rightarrow> p2p \<Rightarrow> (p2p_rx \<times> twr_ack) option \<times> p2p_rx list \<times> p2p" where
  "p2p_wait_ack e counter [] s = (None, [], s)"
| "p2p_wait_ack e counter (rx # q) s =
     (case gw_frame e rx s of
        (None, s1) \<Rightarrow> p2p_wait_ack e counter q s1
      | (Some (v, h, pt), s1) \<Rightarrow>
          if v \<noteq> P2P_RX_FRESH \<or> h_type h \<noteq> TWR_TYPE_ACK then p2p_wait_ack e counter q s1
          else (case twr_parse_ack pt of
                  Inl _ \<Rightarrow> p2p_wait_ack e counter q s1
                | Inr ack \<Rightarrow>
                    if a_acked ack \<noteq> counter then p2p_wait_ack e counter q s1
                    else (let s2 = s1\<lparr>m_gw_last := h_counter h\<rparr>
                          in if 0 < m_debug_drop_acks s2
                             then p2p_wait_ack e counter q
                                    (s2\<lparr>m_debug_drop_acks := m_debug_drop_acks s2 - 1\<rparr>)
                             else (Some (rx, ack), q, s2))))"

fun p2p_wait_dl :: "p2p_env \<Rightarrow> p2p_rx list \<Rightarrow> p2p_xfer \<Rightarrow> p2p \<Rightarrow> p2p_xfer \<times> p2p" where
  "p2p_wait_dl e [] x s = (x, s)"
| "p2p_wait_dl e (rx # q) x s =
     (case gw_frame e rx s of
        (None, s1) \<Rightarrow> p2p_wait_dl e q x s1
      | (Some (v, h, pt), s1) \<Rightarrow>
          if h_type h \<noteq> TWR_TYPE_DATA then p2p_wait_dl e q x s1
          else (let s2 = call (C_note_downlink (rx_rssi rx) (rx_snr rx)) s1;
                    (x3, s3) =
                      (if v = P2P_RX_FRESH
                       then (x\<lparr>x_dl := pt\<rparr>,
                             emit (V_accept (m_session_key s2) (h_counter h))
                               (s2\<lparr>m_gw_last := h_counter h, m_dl_rssi := rx_rssi rx,
                                   m_dl_snr := rx_snr rx\<rparr>))
                       else (x, s2));
                    x4 = (if h_flags h AND TWR_FLAG_CONFIRMED \<noteq> 0
                          then x3\<lparr>x_ack_owed := True, x_dl_counter := h_counter h,
                                  x_dl_rssi := rx_rssi rx, x_dl_at := rx_at rx\<rparr>
                          else x3)
                in (x4, s3)))"

subsection \<open>The node's ACK\<close>

definition clamp_i8 :: "int \<Rightarrow> int" where
  "clamp_i8 v = min (max v (-128)) 127"

definition ack_hdr :: "p2p_env \<Rightarrow> p2p \<Rightarrow> u32 \<Rightarrow> twr_hdr" where
  "ack_hdr e s counter =
     \<lparr>h_type = TWR_TYPE_ACK, h_flags = 0, h_src = node_addr e, h_dest = m_net_id s,
      h_counter = counter\<rparr>"

definition p2p_auto_ack :: "p2p_env \<Rightarrow> p2p_xfer \<Rightarrow> p2p \<Rightarrow> p2p" where
  "p2p_auto_ack e x s =
     (let ms = frame_toa_ms e s TWR_ACK_FRAME_LEN; (w, s1) = duty_wait ms s
      in if 0 < w then s1
         else case twr_counter_next e s1 of
                (Inl _, s2) \<Rightarrow> s2
              | (Inr counter, s2) \<Rightarrow>
                  (let h = ack_hdr e s2 counter;
                       pt = put_le32 (x_dl_counter x) @ [word_of_int (clamp_i8 (x_dl_rssi x)), 0]
                   in case twr_seal (pe_aes e) (m_session_key s2) h pt TWR_ACK_FRAME_LEN of
                        Inl _ \<Rightarrow> s2
                      | Inr frame \<Rightarrow>
                          (let s3 = emit (V_seal (m_session_key s2) h pt) s2
                           in case radio_configure e s3 of
                                (Some _, s4) \<Rightarrow> s4
                              | (None, s4) \<Rightarrow>
                                  (let since = now s4 - x_dl_at x;
                                       s5 = k_sleep (uint P2P_TURNAROUND_MS - since) s4
                                   in case lora_send e frame s5 of
                                        (Some _, s6) \<Rightarrow> snd (tx_send_failed e (length frame) s6)
                                      | (None, s6) \<Rightarrow> duty_charge ms s6))))"

subsection \<open>The exchange\<close>

definition retx_counter :: "bytes \<Rightarrow> p2p \<Rightarrow> u32 option" where
  "retx_counter pt s =
     (case m_retx s of
        Some r \<Rightarrow> if rt_pt r = pt \<and> m_fcnt s = rt_counter r + 1 then Some (rt_counter r) else None
      | None \<Rightarrow> None)"

text \<open>What is checked before a counter is taken: \<open>Some\<close> error, nothing sent.\<close>

definition exchange_gate :: "p2p_env \<Rightarrow> nat \<Rightarrow> p2p \<Rightarrow> errno option \<times> p2p" where
  "exchange_gate e pt_len s =
     (let ms = frame_toa_ms e s (TWR_HDR_LEN + pt_len + TWR_TAG_LEN)
      in if m_listening s then (Some EBUSY, s)
         else if m_link_state s \<noteq> P2P_LINK_PAIRED then (Some ENOTCONN, s)
         else if TWR_PAYLOAD_MAX < pt_len \<or> P2P_TOA_MAX_MS < ms then (Some EMSGSIZE, s)
         else (let (w, s1) = duty_wait ms (k_sleep (m_link_idle_at s - now s) s)
               in (if 0 < w then Some EAGAIN else None, s1)))"

definition data_hdr :: "p2p_env \<Rightarrow> p2p \<Rightarrow> bool \<Rightarrow> u32 \<Rightarrow> twr_hdr" where
  "data_hdr e s confirmed counter =
     \<lparr>h_type = TWR_TYPE_DATA, h_flags = (if confirmed then TWR_FLAG_CONFIRMED else 0),
      h_src = node_addr e, h_dest = m_net_id s, h_counter = counter\<rparr>"

text \<open>The counter of the frame, its seal, and the note for a retry of it.\<close>

definition exchange_seal ::
  "p2p_env \<Rightarrow> bytes \<Rightarrow> bool \<Rightarrow> int \<Rightarrow> p2p \<Rightarrow> (u32 \<times> bytes) res \<times> p2p" where
  "exchange_seal e pt confirmed attempt s =
     (let (c, s1) =
        (if 0 < attempt then
           (case retx_counter pt s of
              Some c \<Rightarrow> (Inr c, s)
            | None \<Rightarrow> twr_counter_next e s)
         else twr_counter_next e s)
      in case c of
           Inl err \<Rightarrow> (Inl err, s1)
         | Inr counter \<Rightarrow>
             (let h = data_hdr e s1 confirmed counter
              in case twr_seal (pe_aes e) (m_session_key s1) h pt P2P_FRAME_MAX of
                   Inl err \<Rightarrow> (Inl err, s1)
                 | Inr frame \<Rightarrow>
                     (Inr (counter, frame),
                      (emit (V_seal (m_session_key s1) h pt) s1)
                        \<lparr>m_retx := if confirmed \<and> attempt \<noteq> P2P_NOT_RETRIED
                                   then Some \<lparr>rt_counter = counter, rt_pt = pt\<rparr> else None\<rparr>)))"

text \<open>The ACK window of one transmission, and the downlink behind the ACK.\<close>

definition exchange_ack :: "p2p_env \<Rightarrow> u32 \<Rightarrow> p2p_xfer \<Rightarrow> p2p \<Rightarrow> p2p_xfer \<times> p2p" where
  "exchange_ack e counter x s =
     (let (q, s1) = heard e s
      in case p2p_wait_ack e counter q s1 of
           (None, _, s2) \<Rightarrow> (x, s2)
         | (Some (rx, ack), q2, s2) \<Rightarrow>
             (let x1 = x\<lparr>x_acked := True, x_pending := a_pending ack,
                         x_ack_tail := take P2P_ACK_TAIL_BUF (a_tail ack),
                         x_rssi := rx_rssi rx, x_snr := rx_snr rx\<rparr>;
                  s3 = call (C_note_downlink (rx_rssi rx) (rx_snr rx))
                         (s2\<lparr>m_last_ack_rssi := Some (a_rssi ack)\<rparr>)
              in if a_pending ack
                 then (let (q3, s4) = heard e s3 in p2p_wait_dl e (q2 @ q3) x1 s4)
                 else (x1, s3)))"

text \<open>One transmission of the frame, the \<open>n\<close>-th: an error, whether the loop breaks, the rest.\<close>

definition exchange_rep ::
  "p2p_env \<Rightarrow> bytes \<Rightarrow> u32 \<Rightarrow> bool \<Rightarrow> u32 \<Rightarrow> nat \<Rightarrow> p2p_xfer \<Rightarrow> p2p
     \<Rightarrow> errno option \<times> bool \<times> p2p_xfer \<times> p2p" where
  "exchange_rep e frame ms confirmed counter n x s =
     (let (held, s1) =
        (if n = 0 then (False, s)
         else (let (r, s0) = ask (pe_rand e) s;
                   (w, s0') = duty_wait ms (k_sleep (uint (r mod (P2P_BACKOFF_MAX_MS + 1))) s0)
               in (0 < w, s0')))
      in if held then (None, True, x, s1)
         else case p2p_tx_once e frame ms confirmed s1 of
                (Some err, _, s2) \<Rightarrow> (Some err, True, x, s2)
              | (None, done_at, s2) \<Rightarrow>
                  (let x1 = x\<lparr>x_sent := x_sent x + 1, x_done_ms := done_at\<rparr>
                   in if confirmed
                      then (let (x2, s3) = exchange_ack e counter x1 s2
                            in (None, x_acked x2, x2,
                                if x_ack_owed x2 then p2p_auto_ack e x2 s3 else s3))
                      else (None, False, x1, s2)))"

fun exchange_reps ::
  "p2p_env \<Rightarrow> bytes \<Rightarrow> u32 \<Rightarrow> bool \<Rightarrow> u32 \<Rightarrow> nat \<Rightarrow> nat \<Rightarrow> p2p_xfer \<Rightarrow> p2p
     \<Rightarrow> errno option \<times> p2p_xfer \<times> p2p" where
  "exchange_reps e frame ms confirmed counter n 0 x s = (None, x, s)"
| "exchange_reps e frame ms confirmed counter n (Suc left) x s =
     (case exchange_rep e frame ms confirmed counter n x s of
        (ret, stop, x1, s1) \<Rightarrow>
          if stop then (ret, x1, s1)
          else exchange_reps e frame ms confirmed counter (n + 1) left x1 s1)"

definition p2p_exchange ::
  "p2p_env \<Rightarrow> bytes \<Rightarrow> bool \<Rightarrow> int \<Rightarrow> p2p \<Rightarrow> errno option \<times> p2p_xfer \<times> p2p" where
  "p2p_exchange e pt confirmed attempt s =
     (case exchange_gate e (length pt) s of
        (Some err, s1) \<Rightarrow> (Some err, xfer0, s1)
      | (None, s1) \<Rightarrow>
          (case exchange_seal e pt confirmed attempt s1 of
             (Inl err, s2) \<Rightarrow> (Some err, xfer0, s2)
           | (Inr (counter, frame), s2) \<Rightarrow>
               (let ms = frame_toa_ms e s (TWR_HDR_LEN + length pt + TWR_TAG_LEN);
                    (ret, x, s3) = exchange_reps e frame ms confirmed counter 0
                       (if confirmed then P2P_REPS else 1) (xfer0\<lparr>x_counter := counter\<rparr>) s2;
                    s4 = snd (radio_configure e s3);
                    s5 = s4\<lparr>m_link_idle_at := now s4 + P2P_TX_GAP_MS\<rparr>
                in if x_sent x = 0
                   then (Some (case ret of Some err \<Rightarrow> err | None \<Rightarrow> EAGAIN), x, s5)
                   else (None, x, call C_note_send s5))))"

end
