(* ===== verification/P2pCtrl.thy ===== *)
theory P2pCtrl
  imports P2pExchange
begin

text \<open>
  The control envelope of the private radio and its transmit backend,
  \<open>src/app/src/app_radio_p2p.c\<close>: the \<open>0x91\<close> uplink built from the pending bits and its retries
  (\<open>ctrl_work_handler\<close>), the TLV lists the gateway sends, as a downlink or in the tail of an ACK
  (\<open>ctrl_downlink\<close>), the delivery of a downlink, and the send of one frame for \<open>app_radio\<close>.
\<close>

definition P2P_ENV_DATA :: u8 where "P2P_ENV_DATA = 0x81"
definition P2P_ENV_CTRL :: u8 where "P2P_ENV_CTRL = 0x91"
definition P2P_ENV_LEN :: nat where "P2P_ENV_LEN = 2"
definition P2P_MAX_BODY :: nat where "P2P_MAX_BODY = TWR_PAYLOAD_MAX - P2P_ENV_LEN"
definition P2P_PORT_TELEMETRY :: u8 where "P2P_PORT_TELEMETRY = 2"
definition P2P_PORT_ALARM :: u8 where "P2P_PORT_ALARM = 3"
definition P2P_PORT_RESPONSE :: u8 where "P2P_PORT_RESPONSE = 85"
definition P2P_PORT_COMMAND :: u8 where "P2P_PORT_COMMAND = 86"

definition P2P_CTRL_CAPABILITIES :: u8 where "P2P_CTRL_CAPABILITIES = 0x01"
definition P2P_CTRL_HELLO :: u8 where "P2P_CTRL_HELLO = 0x02"
definition P2P_CTRL_DETACH :: u8 where "P2P_CTRL_DETACH = 0x03"
definition P2P_CTRL_REJOIN_REQ :: u8 where "P2P_CTRL_REJOIN_REQ = 0x04"
definition P2P_CTRL_HOME_GATEWAY :: u8 where "P2P_CTRL_HOME_GATEWAY = 0x06"
definition P2P_CTRL_JOIN_REQ :: u8 where "P2P_CTRL_JOIN_REQ = 0x07"
definition P2P_CTRL_JOIN_ACCEPT :: u8 where "P2P_CTRL_JOIN_ACCEPT = 0x08"
definition P2P_CTRL_LINK_CHECK :: u8 where "P2P_CTRL_LINK_CHECK = 0x10"
definition P2P_CTRL_BACKOFF :: u8 where "P2P_CTRL_BACKOFF = 0x15"
definition P2P_CTRL_TIME :: u8 where "P2P_CTRL_TIME = 0x20"
definition P2P_CTRL_PENDING_INFO :: u8 where "P2P_CTRL_PENDING_INFO = 0x22"
definition P2P_CTRL_DEV_STATUS :: u8 where "P2P_CTRL_DEV_STATUS = 0x30"

definition P2P_CTRL_BIT_CAPS :: u32 where "P2P_CTRL_BIT_CAPS = 1"
definition P2P_CTRL_BIT_HELLO :: u32 where "P2P_CTRL_BIT_HELLO = 2"
definition P2P_CTRL_BIT_LINK_CHECK :: u32 where "P2P_CTRL_BIT_LINK_CHECK = 4"
definition P2P_CTRL_BIT_TIME :: u32 where "P2P_CTRL_BIT_TIME = 8"
definition P2P_CTRL_BIT_DEV_STATUS :: u32 where "P2P_CTRL_BIT_DEV_STATUS = 16"
definition P2P_CTRL_BIT_DRAIN :: u32 where "P2P_CTRL_BIT_DRAIN = 32"
definition P2P_CTRL_RETRY_MS :: int where "P2P_CTRL_RETRY_MS = 30000"
definition P2P_CTRL_TRIES :: nat where "P2P_CTRL_TRIES = 3"
definition P2P_CTRL_HOLD_MS :: int where "P2P_CTRL_HOLD_MS = 1000"
definition P2P_LINK_CHECK_DELAY_MS :: int where "P2P_LINK_CHECK_DELAY_MS = 5000"
definition P2P_ANSWER_REPORTS_MAX :: nat where "P2P_ANSWER_REPORTS_MAX = 3"
definition P2P_TIME_ANS_MAX_AGE_MS :: int where "P2P_TIME_ANS_MAX_AGE_MS = 7200000"
definition P2P_DRAIN_MAX :: nat where "P2P_DRAIN_MAX = 8"
definition P2P_BACKOFF_MARGIN_MS :: int where "P2P_BACKOFF_MARGIN_MS = 50"

definition P2P_HOME_GATEWAY_LEN :: nat where "P2P_HOME_GATEWAY_LEN = 5"
definition P2P_LINK_CHECK_ANS_LEN :: nat where "P2P_LINK_CHECK_ANS_LEN = 4"
definition P2P_BACKOFF_LEN :: nat where "P2P_BACKOFF_LEN = 2"
definition P2P_TIME_ANS_LEN :: nat where "P2P_TIME_ANS_LEN = 9"
definition P2P_PENDING_INFO_LEN :: nat where "P2P_PENDING_INFO_LEN = 1"

subsection \<open>The control uplink\<close>

definition m_caps_cmds :: bytes where
  "m_caps_cmds = [0xde, 0x01, 0x21, 0x00, 0x05, 0x00, 0x01, 0x00]"

definition asks :: "u32 \<Rightarrow> u32 \<Rightarrow> bool" where
  "asks bits b \<longleftrightarrow> bits AND b \<noteq> 0"

definition ctrl_build :: "p2p_env \<Rightarrow> u32 \<Rightarrow> p2p \<Rightarrow> bytes \<times> p2p" where
  "ctrl_build e bits s =
     (let (mv, s1) = (if asks bits P2P_CTRL_BIT_DEV_STATUS then ask (pe_battery_mv e) s else (0, s))
      in ([P2P_ENV_CTRL]
          @ (if asks bits P2P_CTRL_BIT_CAPS
             then [P2P_CTRL_CAPABILITIES, 12, 1, word_of_nat P2P_FRAME_MAX,
                   if pe_fsk_built e then 3 else 2] @ m_caps_cmds @ [1] else [])
          @ (if asks bits P2P_CTRL_BIT_HELLO
             then [P2P_CTRL_HELLO, 9] @ put_le32 (m_session_id s) @ [ucast (pe_reset_cause e)]
                    @ pe_fw e @ [0] else [])
          @ (if asks bits P2P_CTRL_BIT_LINK_CHECK then [P2P_CTRL_LINK_CHECK, 0] else [])
          @ (if asks bits P2P_CTRL_BIT_TIME then [P2P_CTRL_TIME, 0] else [])
          @ (if asks bits P2P_CTRL_BIT_DEV_STATUS
             then [P2P_CTRL_DEV_STATUS, 9] @ put_le16 mv
                    @ [word_of_int (fst (m_ds s)), word_of_int (snd (m_ds s)),
                       word_of_int (case m_session_tx_power s of Some p \<Rightarrow> p | None \<Rightarrow> pe_tx_power e)]
                    @ put_le32 (word_of_int (now s div 1000)) else []),
          s1))"

definition ctrl_sent :: "u32 \<Rightarrow> p2p_xfer \<Rightarrow> p2p \<Rightarrow> p2p" where
  "ctrl_sent bits x s =
     (let s1 = (if asks bits P2P_CTRL_BIT_TIME
                then s\<lparr>m_time_req := Some (x_counter x, x_done_ms x), m_answer_reports := 0\<rparr> else s);
          s2 = (if asks bits P2P_CTRL_BIT_LINK_CHECK
                then s1\<lparr>m_lc_outstanding := True, m_answer_reports := 0\<rparr> else s1)
      in if asks bits P2P_CTRL_BIT_DRAIN then s2\<lparr>m_drains := m_drains s2 + 1\<rparr> else s2)"

definition ctrl_request :: "u32 \<Rightarrow> int \<Rightarrow> p2p \<Rightarrow> p2p" where
  "ctrl_request bits delay_ms s =
     s\<lparr>m_ctrl_pending := m_ctrl_pending s OR bits,
       m_ctrl_work := work_schedule (now s) delay_ms (m_ctrl_work s)\<rparr>"

definition ctrl_resched :: "int \<Rightarrow> p2p \<Rightarrow> p2p" where
  "ctrl_resched delay_ms s = s\<lparr>m_ctrl_work := work_reschedule (now s) delay_ms (m_ctrl_work s)\<rparr>"

definition app_radio_p2p_is_ready :: "p2p \<Rightarrow> bool" where
  "app_radio_p2p_is_ready s \<longleftrightarrow> m_started s \<and> m_link_state s = P2P_LINK_PAIRED"

subsection \<open>Control downlinks\<close>

definition set_rejoin_attempt :: "nat \<Rightarrow> p2p \<Rightarrow> p2p" where
  "set_rejoin_attempt n s =
     call (C_join_attempts (min n 255)) (s\<lparr>m_rejoin_attempt := min n 255\<rparr>)"

definition start_join_episode :: "bool \<Rightarrow> p2p \<Rightarrow> p2p" where
  "start_join_episode slow s =
     (let s1 = set_rejoin_attempt 0 (s\<lparr>m_join_slow := slow\<rparr>)
      in s1\<lparr>m_link_state := P2P_LINK_JOINING, m_join_started_at := now s1,
            m_join_work := work_reschedule (now s1) 0 (m_join_work s1)\<rparr>)"

definition time_ans :: "bytes \<Rightarrow> p2p \<Rightarrow> p2p" where
  "time_ans val s =
     (let unix_s = get_le32 val; req = get_le32 (drop 5 val)
      in case m_time_req s of
           None \<Rightarrow> s
         | Some (counter, done_ms) \<Rightarrow>
             if req \<noteq> counter then s
             else (let s1 = s\<lparr>m_time_req := None\<rparr>; age_ms = now s - done_ms
                   in if P2P_TIME_ANS_MAX_AGE_MS < age_ms then s1
                      else call C_time_event
                             (call (C_network_time (p2p_time_at unix_s (val ! 4) age_ms)) s1)))"

definition link_check_ans :: "bytes \<Rightarrow> p2p \<Rightarrow> p2p" where
  "link_check_ans val s =
     (let lc = \<lparr>lc_rssi = sint (val ! 0), lc_snr = sint (val ! 1), lc_margin = sint (val ! 2),
                lc_gw_count = val ! 3\<rparr>
      in call C_link_result
           (call (C_uplink_view (lc_rssi lc) (lc_snr lc) (word_of_int (max (lc_margin lc) 0))
                    (lc_gw_count lc))
             (s\<lparr>m_lc := Some lc, m_lc_outstanding := False\<rparr>)))"

definition pending_info :: "u8 \<Rightarrow> p2p \<Rightarrow> p2p" where
  "pending_info queued s =
     (if queued = 0 then s
      else if P2P_DRAIN_MAX \<le> m_drains s then s
      else ctrl_request P2P_CTRL_BIT_DRAIN 0 s)"

definition ctrl_in_ack_ok :: "u8 \<Rightarrow> bool" where
  "ctrl_in_ack_ok cmd \<longleftrightarrow>
     cmd = P2P_CTRL_LINK_CHECK \<or> cmd = P2P_CTRL_TIME \<or> cmd = P2P_CTRL_BACKOFF
       \<or> cmd = P2P_CTRL_PENDING_INFO"

text \<open>One entry of the list; \<open>True\<close>: nothing after it applies.\<close>

definition ctrl_apply :: "p2p_env \<Rightarrow> bool \<Rightarrow> p2p_tlv \<Rightarrow> p2p \<Rightarrow> bool \<times> p2p" where
  "ctrl_apply e in_ack t s =
     (if in_ack \<and> \<not> ctrl_in_ack_ok (t_cmd t) then (False, s)
      else if t_cmd t = P2P_CTRL_DETACH then (True, snd (pairing_clear e s))
      else if t_cmd t = P2P_CTRL_REJOIN_REQ then
        (True, if \<not> app_key_is_set e \<or> \<not> addr_is_valid e then s else start_join_episode True s)
      else if t_cmd t = P2P_CTRL_HOME_GATEWAY then
        (False, if P2P_HOME_GATEWAY_LEN \<le> t_len t
                then s\<lparr>m_home_gw := Some (get_le32 (t_val t), t_val t ! 4)\<rparr> else s)
      else if t_cmd t = P2P_CTRL_LINK_CHECK then
        (False, if P2P_LINK_CHECK_ANS_LEN \<le> t_len t then link_check_ans (t_val t) s else s)
      else if t_cmd t = P2P_CTRL_BACKOFF then
        (False, if P2P_BACKOFF_LEN \<le> t_len t then call (C_backoff (get_le16 (t_val t))) s else s)
      else if t_cmd t = P2P_CTRL_TIME then
        (False, if P2P_TIME_ANS_LEN \<le> t_len t then time_ans (t_val t) s else s)
      else if t_cmd t = P2P_CTRL_PENDING_INFO then
        (False, if P2P_PENDING_INFO_LEN \<le> t_len t then pending_info (t_val t ! 0) s else s)
      else if t_cmd t = P2P_CTRL_DEV_STATUS then
        (False, ctrl_request P2P_CTRL_BIT_DEV_STATUS 0
                  (s\<lparr>m_ds := (clamp_i8 (m_dl_rssi s), m_dl_snr s)\<rparr>))
      else (False, s))"

function ctrl_downlink :: "p2p_env \<Rightarrow> bytes \<Rightarrow> nat \<Rightarrow> bool \<Rightarrow> p2p \<Rightarrow> p2p" where
  "ctrl_downlink e buf off in_ack s =
     (case p2p_tlv_next buf off of
        TLV_AT t off' \<Rightarrow>
          (let (stop, s1) = ctrl_apply e in_ack t s
           in if stop then s1 else ctrl_downlink e buf off' in_ack s1)
      | TLV_END \<Rightarrow> s
      | TLV_BAD \<Rightarrow> s)"
  by pat_completeness auto
termination
  by (relation "measure (\<lambda>(e, buf, off, in_ack, s). length buf - off)")
    (auto dest: tlv_next_progress)

declare ctrl_downlink.simps [simp del]

subsection \<open>Delivery\<close>

definition p2p_deliver :: "p2p_env \<Rightarrow> bytes \<Rightarrow> p2p \<Rightarrow> p2p" where
  "p2p_deliver e pt s =
     (if 1 \<le> length pt \<and> pt ! 0 = P2P_ENV_CTRL then ctrl_downlink e (drop 1 pt) 0 False s
      else if P2P_ENV_LEN < length pt \<and> pt ! 0 = P2P_ENV_DATA \<and> pt ! 1 = P2P_PORT_COMMAND
      then call (C_downlink (drop P2P_ENV_LEN pt)) s
      else s)"

definition p2p_deliver_xfer :: "p2p_env \<Rightarrow> p2p_xfer \<Rightarrow> p2p \<Rightarrow> p2p" where
  "p2p_deliver_xfer e x s =
     (let s1 = (if x_ack_tail x \<noteq> [] then ctrl_downlink e (x_ack_tail x) 0 True s else s)
      in if x_dl x \<noteq> [] then p2p_deliver e (x_dl x) s1 else s1)"

subsection \<open>The control work item\<close>

text \<open>Behind the gates: the exchange, and what its result does to the pending set.\<close>

definition ctrl_settle ::
  "p2p_env \<Rightarrow> u32 \<Rightarrow> nat \<Rightarrow> errno option \<Rightarrow> p2p_xfer \<Rightarrow> p2p \<Rightarrow> p2p" where
  "ctrl_settle e bits len ret x s =
     (if ret = Some EAGAIN then
        (let (w, s1) = duty_wait_ms_for e (TWR_HDR_LEN + len + TWR_TAG_LEN) s
         in ctrl_resched (max w P2P_TX_GAP_MS) s1)
      else if ret = Some ENOTCONN then s
      else if ret = None \<and> x_acked x then
        (let s1 = s\<lparr>m_ctrl_pending := m_ctrl_pending s AND NOT bits, m_ctrl_tries := 0\<rparr>;
             s2 = p2p_deliver_xfer e x (call C_link_result (ctrl_sent bits x s1))
         in if m_ctrl_pending s2 \<noteq> 0 then ctrl_resched 0 s2 else s2)
      else
        (let s1 = s\<lparr>m_ctrl_tries := m_ctrl_tries s + 1\<rparr>
         in if m_ctrl_tries s1 < P2P_CTRL_TRIES then ctrl_resched P2P_CTRL_RETRY_MS s1
            else s1\<lparr>m_ctrl_pending := m_ctrl_pending s1 AND NOT bits, m_ctrl_tries := 0\<rparr>))"

definition ctrl_work_handler :: "p2p_env \<Rightarrow> p2p \<Rightarrow> p2p" where
  "ctrl_work_handler e s =
     (if \<not> app_radio_p2p_is_ready s then s
      else (let bits = m_ctrl_pending s
            in if bits = 0 then s
               else (let (held, s1) = ask (pe_ack_pending e) s
                     in if held then ctrl_resched P2P_CTRL_HOLD_MS s1
                        else (let (b, s2) = ask (pe_backoff e) s1
                              in if 0 < b then ctrl_resched (b + P2P_BACKOFF_MARGIN_MS) s2
                                 else (let (pt, s3) = ctrl_build e bits s2;
                                           (ret, x, s4) = p2p_exchange e pt True P2P_NOT_RETRIED s3
                                       in ctrl_settle e bits (length pt) ret x s4)))))"

subsection \<open>The transmit backend\<close>

definition p2p_tx_send ::
  "p2p_env \<Rightarrow> radio_frame \<Rightarrow> p2p \<Rightarrow> errno option \<times> tx_result \<times> p2p" where
  "p2p_tx_send e f s =
     (let port = (case fr_kind f of K_TELEMETRY \<Rightarrow> P2P_PORT_TELEMETRY | K_ALARM \<Rightarrow> P2P_PORT_ALARM
                  | _ \<Rightarrow> if fr_port f \<noteq> 0 then fr_port f else P2P_PORT_RESPONSE);
          full = tx_result0\<lparr>tr_budget := word_of_nat P2P_MAX_BODY\<rparr>
      in if fr_buf f = [] then (Some EINVAL, tx_result0, s)
         else if P2P_MAX_BODY < length (fr_buf f) then (Some EMSGSIZE, full, s)
         else
           (let pt = [P2P_ENV_DATA, port] @ fr_buf f;
                (ret, x, s1) = p2p_exchange e pt (fr_confirmed f) (int (fr_attempt f)) s
            in case ret of
                 Some EMSGSIZE \<Rightarrow> (Some EMSGSIZE, full, s1)
               | Some EAGAIN \<Rightarrow>
                   (let (w, s2) = duty_wait_ms_for e (TWR_HDR_LEN + length pt + TWR_TAG_LEN) s1
                    in (Some EAGAIN, tx_result0\<lparr>tr_wait := word_of_int (max w 0)\<rparr>, s2))
               | Some err \<Rightarrow> (Some err, tx_result0, s1)
               | None \<Rightarrow>
                   (let s2 = s1\<lparr>m_drains := 0\<rparr>
                    in if \<not> fr_confirmed f then (None, tx_result0, s2)
                       else if \<not> x_acked x then (Some ETIMEDOUT, tx_result0, s2)
                       else (None, tx_result0, p2p_deliver_xfer e x (call C_link_result s2)))))"

definition answer_fetch_count :: "p2p_env \<Rightarrow> p2p \<Rightarrow> p2p" where
  "answer_fetch_count e s =
     (let (wanted, s1) = ask (pe_time_wanted e) s
      in if (m_time_req s1 \<noteq> None \<and> wanted) \<or> m_lc_outstanding s1
         then (let n = m_answer_reports s1; s2 = s1\<lparr>m_answer_reports := n + 1\<rparr>
               in if P2P_ANSWER_REPORTS_MAX \<le> n then s2\<lparr>m_lc_outstanding := False\<rparr> else s2)
         else s1)"

definition p2p_tx_report_flags :: "p2p_env \<Rightarrow> bool \<Rightarrow> p2p \<Rightarrow> radio_flags \<times> p2p" where
  "p2p_tx_report_flags e due s =
     (let s1 = answer_fetch_count e s;
          s2 = (if due \<and> \<not> m_lc_outstanding s1
                then ctrl_request P2P_CTRL_BIT_LINK_CHECK P2P_LINK_CHECK_DELAY_MS s1 else s1)
      in (\<lparr>rf_confirmed = True, rf_link_check = due\<rparr>, s2))"

definition p2p_time_request :: "p2p \<Rightarrow> p2p" where
  "p2p_time_request s = ctrl_request P2P_CTRL_BIT_TIME 0 s"

definition p2p_tx_airtime_ms :: "p2p_env \<Rightarrow> p2p \<Rightarrow> nat \<Rightarrow> u32" where
  "p2p_tx_airtime_ms e s len = frame_toa_ms e s (TWR_HDR_LEN + P2P_ENV_LEN + len + TWR_TAG_LEN)"

end
