(* ===== verification/P2pJoin.thy ===== *)
theory P2pJoin
  imports P2pCtrl
begin

text \<open>
  Joining a network, and the module as a whole, \<open>src/app/src/app_radio_p2p.c\<close>: the keyed join
  (JoinRequest, JoinAccept), the TOWER pairing of the fsk profile, the retry policy
  (\<open>join_work_handler\<close>), the entry points, and the runs of the device.

  An event (\<open>p2p_input\<close>) is one entry from outside: a frame of \<open>app_radio\<close>, a work item whose
  time has come, a shell or lifecycle call, the passing of time.  A run is a list of steps; a step
  is an event that completes (\<open>Do\<close>), or one that a power loss cuts short (\<open>Cut ev n\<close>): the last
  \<open>n\<close> things the event did to the trace never happened, and the device boots from the flash of
  that moment.
\<close>

definition P2P_PRODUCT_TYPE_STICKER :: u8 where "P2P_PRODUCT_TYPE_STICKER = 1"
definition APP_PROTO_VERSION :: u8 where "APP_PROTO_VERSION = 1"
definition P2P_JOIN_REQ_VALUE_LEN :: nat where "P2P_JOIN_REQ_VALUE_LEN = 14"
definition P2P_JOIN_REQ_LEN :: nat where
  "P2P_JOIN_REQ_LEN = TWR_HDR_LEN + 3 + P2P_JOIN_REQ_VALUE_LEN + TWR_TAG_LEN"
definition P2P_RX1_DELAY_DEFAULT_S :: u8 where "P2P_RX1_DELAY_DEFAULT_S = 1"
definition P2P_RX1_OPEN_MARGIN_MS :: int where "P2P_RX1_OPEN_MARGIN_MS = 25"
definition P2P_JOIN_BOOT_WINDOW_MS :: int where "P2P_JOIN_BOOT_WINDOW_MS = 120000"
definition P2P_JOIN_RETRY_JITTER_MS :: u32 where "P2P_JOIN_RETRY_JITTER_MS = 2000"
definition P2P_CTRL_START_JITTER_MS :: u32 where "P2P_CTRL_START_JITTER_MS = 2000"
definition TWR_PAIR_REQ_LEN :: nat where "TWR_PAIR_REQ_LEN = TWR_HDR_LEN + 4 + TWR_TAG_LEN"
definition TWR_PAIR_RESP_PT_LEN :: nat where "TWR_PAIR_RESP_PT_LEN = 20"
definition TWR_PAIR_CONF_LEN :: nat where "TWR_PAIR_CONF_LEN = TWR_HDR_LEN + 8 + TWR_TAG_LEN"
definition TWR_PAIR_TURNAROUND_MS :: int where "TWR_PAIR_TURNAROUND_MS = 20"

subsection \<open>Retry policy\<close>

text \<open>\<open>None\<close>: the boot window is over.\<close>

definition p2p_join_retry_delay_ms :: "bool \<Rightarrow> int \<Rightarrow> int \<Rightarrow> u32 \<Rightarrow> u32 \<Rightarrow> int option" where
  "p2p_join_retry_delay_ms slow elapsed_ms duty_wait_ms backoff_ms jitter_ms =
     (let wait = (if 0 < duty_wait_ms then duty_wait_ms else 0)
      in if slow then Some (max (uint backoff_ms) wait)
         else (let remaining = P2P_JOIN_BOOT_WINDOW_MS - elapsed_ms
               in if remaining \<le> 0 then None
                  else if remaining \<le> wait + uint jitter_ms then Some remaining else Some wait))"

subsection \<open>The keyed join\<close>

definition join_hdr :: "p2p_env \<Rightarrow> u8 \<Rightarrow> u32 \<Rightarrow> u32 \<Rightarrow> twr_hdr" where
  "join_hdr e ty dest counter =
     \<lparr>h_type = ty, h_flags = 0, h_src = node_addr e, h_dest = dest, h_counter = counter\<rparr>"

definition join_request_pt :: "p2p_env \<Rightarrow> bytes" where
  "join_request_pt e =
     [P2P_ENV_CTRL, P2P_CTRL_JOIN_REQ, word_of_nat P2P_JOIN_REQ_VALUE_LEN,
      P2P_PRODUCT_TYPE_STICKER, APP_PROTO_VERSION] @ pe_deveui e @ pe_fw e @ [0]"

definition join_request_build :: "p2p_env \<Rightarrow> u32 \<Rightarrow> bytes res" where
  "join_request_build e dev_nonce =
     twr_seal (pe_aes e) (derive_join_key e) (join_hdr e TWR_TYPE_DATA TWR_ADDR_NONE dev_nonce)
       (join_request_pt e) P2P_JOIN_REQ_LEN"

text \<open>The loop over the TLV list of a JoinAccept.\<close>

function join_accept_find :: "bytes \<Rightarrow> nat \<Rightarrow> u32 \<Rightarrow> p2p_join_accept res" where
  "join_accept_find buf off src =
     (case p2p_tlv_next buf off of
        TLV_AT t off' \<Rightarrow>
          if t_cmd t = P2P_CTRL_JOIN_ACCEPT then p2p_parse_join_accept (t_val t) src
          else join_accept_find buf off' src
      | TLV_END \<Rightarrow> Inl EBADMSG
      | TLV_BAD \<Rightarrow> Inl EBADMSG)"
  by pat_completeness auto
termination
  by (relation "measure (\<lambda>(buf, off, src). length buf - off)") (auto dest: tlv_next_progress)

declare join_accept_find.simps [simp del]

definition join_accept_open :: "p2p_env \<Rightarrow> u32 \<Rightarrow> bytes \<Rightarrow> p2p_join_accept res" where
  "join_accept_open e dev_nonce frame =
     (case twr_hdr_get frame of
        Inl err \<Rightarrow> Inl err
      | Inr h0 \<Rightarrow>
          if h_type h0 \<noteq> TWR_TYPE_DATA \<or> h_dest h0 \<noteq> node_addr e \<or> h_counter h0 \<noteq> dev_nonce
          then Inl EBADMSG
          else (case twr_open (pe_aes e) (derive_join_key e) frame TWR_PAYLOAD_MAX of
                  Inl _ \<Rightarrow> Inl EBADMSG
                | Inr (h, pt) \<Rightarrow>
                    if length pt < 1 \<or> pt ! 0 \<noteq> P2P_ENV_CTRL then Inl EBADMSG
                    else join_accept_find (drop 1 pt) 0 (h_src h)))"

text \<open>The counter used and the end of the transmission.\<close>

definition send_join_request :: "p2p_env \<Rightarrow> p2p \<Rightarrow> (u32 \<times> int) res \<times> p2p" where
  "send_join_request e s =
     (let (w, s1) = duty_wait_ms_for e P2P_JOIN_REQ_LEN s; nonce_val = max (m_dev_nonce s1) 1
      in if 0 < w then (Inl EAGAIN, s1)
         else case dnonce_persist e (nonce_val + 1) s1 of
                (Some _, s2) \<Rightarrow> (Inl EIO, s2)
              | (None, s2) \<Rightarrow>
                  (case join_request_build e nonce_val of
                     Inl err \<Rightarrow> (Inl err, s2)
                   | Inr frame \<Rightarrow>
                       (let s3 = emit (V_seal (derive_join_key e)
                                   (join_hdr e TWR_TYPE_DATA TWR_ADDR_NONE nonce_val)
                                   (join_request_pt e)) s2
                        in case lora_send e frame s3 of
                             (Some _, s4) \<Rightarrow>
                               (let (err, s5) = tx_send_failed e P2P_JOIN_REQ_LEN s4 in (Inl err, s5))
                           | (None, s4) \<Rightarrow>
                               (Inr (nonce_val, now s4),
                                duty_charge (frame_toa_ms e s4 P2P_JOIN_REQ_LEN) s4))))"

text \<open>The JoinAccept window, after the sleep until it opens.\<close>

definition p2p_rx_window :: "p2p_env \<Rightarrow> int \<Rightarrow> u8 \<Rightarrow> p2p \<Rightarrow> bytes res \<times> p2p" where
  "p2p_rx_window e tx_end_ms rx1_delay_s s =
     (let open_at = tx_end_ms + uint rx1_delay_s * 1000 - P2P_RX1_OPEN_MARGIN_MS;
          s1 = k_sleep (open_at - now s) s
      in case radio_configure e s1 of
           (Some err, s2) \<Rightarrow> (Inl err, s2)
         | (None, s2) \<Rightarrow>
             (let (r, s3) = ask (pe_recv e) (blocks e s2); s4 = snd (radio_configure e s3)
              in (case r of
                    Inl err \<Rightarrow> Inl err
                  | Inr buf \<Rightarrow> if buf \<noteq> [] \<and> phy_fsk e then p2p_fsk_unwrap (pe_crc16 e) buf
                               else Inr buf,
                  s4)))"

definition recv_join_accept :: "p2p_env \<Rightarrow> u32 \<Rightarrow> int \<Rightarrow> p2p \<Rightarrow> errno option \<times> p2p" where
  "recv_join_accept e dev_nonce tx_end_ms s =
     (case p2p_rx_window e tx_end_ms P2P_RX1_DELAY_DEFAULT_S s of
        (Inl err, s1) \<Rightarrow> (Some err, s1)
      | (Inr buf, s1) \<Rightarrow>
          (case join_accept_open e dev_nonce buf of
             Inl err \<Rightarrow> (Some err, s1)
           | Inr ja \<Rightarrow>
               pairing_persist e ja (derive_session_key e dev_nonce (ja_central_nonce ja)) False s1))"

definition keyed_join_attempt :: "p2p_env \<Rightarrow> p2p \<Rightarrow> errno option \<times> p2p" where
  "keyed_join_attempt e s =
     (case send_join_request e s of
        (Inl err, s1) \<Rightarrow> (Some err, s1)
      | (Inr (nonce_val, tx_end), s1) \<Rightarrow>
          (let (ret, s2) = recv_join_accept e nonce_val tx_end s1
           in (if ret = Some EAGAIN then Some ETIMEDOUT else ret, s2)))"

subsection \<open>The TOWER pairing\<close>

definition twr_pair_req_build :: "p2p_env \<Rightarrow> u32 \<Rightarrow> bytes res" where
  "twr_pair_req_build e counter =
     twr_seal (pe_aes e) TWR_PAIRING_KEY (join_hdr e TWR_TYPE_JOIN_REQ TWR_ADDR_NONE counter)
       (put_le32 (node_addr e)) TWR_PAIR_REQ_LEN"

text \<open>The gateway's address, the key and the challenge.\<close>

definition twr_pair_resp_open :: "p2p_env \<Rightarrow> bytes \<Rightarrow> (u32 \<times> bytes \<times> u32) res" where
  "twr_pair_resp_open e frame =
     (case twr_hdr_get frame of
        Inl _ \<Rightarrow> Inl EBADMSG
      | Inr h0 \<Rightarrow>
          if h_type h0 \<noteq> TWR_TYPE_JOIN_RESP \<or> h_dest h0 \<noteq> node_addr e then Inl EBADMSG
          else (case twr_open (pe_aes e) TWR_PAIRING_KEY frame TWR_PAYLOAD_MAX of
                  Inl _ \<Rightarrow> Inl EBADMSG
                | Inr (h, pt) \<Rightarrow>
                    if length pt < TWR_PAIR_RESP_PT_LEN then Inl EBADMSG
                    else Inr (h_src h, take P2P_KEY_LEN pt, get_le32 (drop P2P_KEY_LEN pt))))"

definition conf_pt :: "p2p_env \<Rightarrow> u32 \<Rightarrow> bytes" where
  "conf_pt e challenge = put_le32 (node_addr e) @ put_le32 challenge"

definition twr_pair_conf_build :: "p2p_env \<Rightarrow> u32 \<Rightarrow> u32 \<Rightarrow> u32 \<Rightarrow> bytes res" where
  "twr_pair_conf_build e counter gw challenge =
     twr_seal (pe_aes e) TWR_PAIRING_KEY (join_hdr e TWR_TYPE_JOIN_CONF gw counter)
       (conf_pt e challenge) TWR_PAIR_CONF_LEN"

definition twr_pair_commit :: "p2p_env \<Rightarrow> u32 \<Rightarrow> bytes \<Rightarrow> p2p \<Rightarrow> errno option \<times> p2p" where
  "twr_pair_commit e gw key s =
     pairing_persist e \<lparr>ja_net_id = gw, ja_central_nonce = 0, ja_rx_delay_s = P2P_RX1_DELAY_DEFAULT_S,
       ja_tx_power = None\<rparr> key True s"

text \<open>The loop over the response window: the first frame that opens.\<close>

fun pair_resp :: "p2p_env \<Rightarrow> p2p_rx list \<Rightarrow> (p2p_rx \<times> u32 \<times> bytes \<times> u32) option" where
  "pair_resp e [] = None"
| "pair_resp e (rx # q) =
     (case twr_pair_resp_open e (rx_buf rx) of
        Inl _ \<Rightarrow> pair_resp e q
      | Inr (gw, key, challenge) \<Rightarrow> Some (rx, gw, key, challenge))"

text \<open>The confirm, sent under the second counter of the attempt, and the commit.\<close>

definition twr_pair_confirm ::
  "p2p_env \<Rightarrow> u32 \<Rightarrow> p2p_rx \<Rightarrow> u32 \<Rightarrow> bytes \<Rightarrow> u32 \<Rightarrow> p2p \<Rightarrow> errno option \<times> p2p" where
  "twr_pair_confirm e counter rx gw key challenge s =
     (let s1 = k_sleep (TWR_PAIR_TURNAROUND_MS - (now s - rx_at rx)) s;
          (ret, s2) =
            (case twr_pair_conf_build e counter gw challenge of
               Inl err \<Rightarrow> (Some err, s1)
             | Inr conf \<Rightarrow>
                 (let s1' = emit (V_seal TWR_PAIRING_KEY (join_hdr e TWR_TYPE_JOIN_CONF gw counter)
                              (conf_pt e challenge)) s1;
                      (r, _, s2') = p2p_tx_once e conf (frame_toa_ms e s1' TWR_PAIR_CONF_LEN) False s1'
                  in (r, s2')));
          s3 = snd (radio_configure e s2)
      in case ret of
           Some err \<Rightarrow> (Some err, s3)
         | None \<Rightarrow> twr_pair_commit e gw key s3)"

definition twr_pair_attempt :: "p2p_env \<Rightarrow> p2p \<Rightarrow> errno option \<times> p2p" where
  "twr_pair_attempt e s =
     (let (w, s1) = duty_wait_ms_for e (TWR_PAIR_REQ_LEN + TWR_PAIR_CONF_LEN) s;
          ctr = max (m_dev_nonce s1) 1
      in if 0 < w then (Some EAGAIN, s1)
         else case dnonce_persist e (ctr + 2) s1 of
                (Some _, s2) \<Rightarrow> (Some EIO, s2)
              | (None, s2) \<Rightarrow>
                  (case twr_pair_req_build e ctr of
                     Inl err \<Rightarrow> (Some err, s2)
                   | Inr frame \<Rightarrow>
                       (let s3 = emit (V_seal TWR_PAIRING_KEY
                                   (join_hdr e TWR_TYPE_JOIN_REQ TWR_ADDR_NONE ctr)
                                   (put_le32 (node_addr e))) s2
                        in case p2p_tx_once e frame (frame_toa_ms e s3 TWR_PAIR_REQ_LEN) True s3 of
                             (Some err, _, s4) \<Rightarrow> (Some err, s4)
                           | (None, _, s4) \<Rightarrow>
                               (let (q, s5) = heard e s4
                                in case pair_resp e q of
                                     None \<Rightarrow> (Some ETIMEDOUT, snd (radio_configure e s5))
                                   | Some (rx, gw, key, challenge) \<Rightarrow>
                                       twr_pair_confirm e (ctr + 1) rx gw key challenge s5))))"

subsection \<open>The join work item\<close>

definition mark_ready :: "p2p_env \<Rightarrow> p2p \<Rightarrow> p2p" where
  "mark_ready e s =
     (let s1 = (set_rejoin_attempt 0 (s\<lparr>m_join_slow := False\<rparr>))
                 \<lparr>m_started := True, m_ctrl_tries := 0\<rparr>;
          (wanted, s2) = ask (pe_time_wanted e) s1;
          (r, s3) = ask (pe_rand e) s2;
          s4 = ctrl_request
                 (P2P_CTRL_BIT_CAPS OR P2P_CTRL_BIT_HELLO OR (if wanted then P2P_CTRL_BIT_TIME else 0))
                 (uint (r mod P2P_CTRL_START_JITTER_MS)) s3
      in call C_ready (call C_tx_kick (call C_announce (call C_link_up s4))))"

definition join_window_expired :: "p2p \<Rightarrow> p2p" where
  "join_window_expired s = set_rejoin_attempt 0 (s\<lparr>m_join_slow := True\<rparr>)"

definition join_resched :: "int \<Rightarrow> p2p \<Rightarrow> p2p" where
  "join_resched delay_ms s = s\<lparr>m_join_work := work_reschedule (now s) delay_ms (m_join_work s)\<rparr>"

text \<open>A failed attempt: the next one by the retry policy.\<close>

definition join_retry :: "p2p_env \<Rightarrow> bool \<Rightarrow> p2p \<Rightarrow> p2p" where
  "join_retry e duty_blocked s =
     (let (duty_wait_ms, s1) =
            (if duty_blocked then duty_wait_ms_for e P2P_JOIN_REQ_LEN s else (0, s));
          (wait0, s2) =
            (if m_join_slow s1 then (0, s1)
             else case p2p_join_retry_delay_ms False (now s1 - m_join_started_at s1) duty_wait_ms 0
                         P2P_JOIN_RETRY_JITTER_MS of
                    Some w \<Rightarrow> (w, s1)
                  | None \<Rightarrow> (0, join_window_expired s1));
          base = (if m_join_slow s2 \<and> \<not> duty_blocked
                  then app_radio_rejoin_backoff_ms (word_of_nat (m_rejoin_attempt s2)) else 0);
          wait1 = (if m_join_slow s2
                   then (case p2p_join_retry_delay_ms True 0 duty_wait_ms base
                                P2P_JOIN_RETRY_JITTER_MS of Some w \<Rightarrow> w | None \<Rightarrow> 0)
                   else wait0);
          s3 = (if m_join_slow s2 \<and> \<not> duty_blocked \<and> m_rejoin_attempt s2 < 255
                then set_rejoin_attempt (m_rejoin_attempt s2 + 1) s2 else s2);
          (r, s4) = ask (pe_rand e) s3
      in join_resched
           (if m_join_slow s2 \<and> \<not> duty_blocked
            then app_radio_backoff_jitter_ms wait1 duty_wait_ms base r
            else wait1 + uint (r mod P2P_JOIN_RETRY_JITTER_MS)) s4)"

definition join_work_handler :: "p2p_env \<Rightarrow> p2p \<Rightarrow> p2p" where
  "join_work_handler e s =
     (if m_link_state s \<noteq> P2P_LINK_JOINING then s
      else (let (ret, s1) = (if phy_fsk e then twr_pair_attempt e s else keyed_join_attempt e s)
            in if ret = None then mark_ready e s1 else join_retry e (ret = Some EAGAIN) s1))"

subsection \<open>Entry points\<close>

definition unprovisioned :: "p2p_env \<Rightarrow> bool" where
  "unprovisioned e \<longleftrightarrow> \<not> app_key_is_set e \<or> \<not> addr_is_valid e \<or> \<not> phy_is_supported e"

definition p2p_tx_rejoin :: "p2p_env \<Rightarrow> p2p \<Rightarrow> errno option \<times> p2p" where
  "p2p_tx_rejoin e s =
     (if unprovisioned e \<or> phy_fsk e then (Some ENOTSUP, s) else (None, start_join_episode True s))"

definition rejoin_work_handler :: "p2p_env \<Rightarrow> p2p \<Rightarrow> p2p" where
  "rejoin_work_handler e s = (if unprovisioned e then s else start_join_episode False s)"

definition app_radio_p2p_start :: "p2p_env \<Rightarrow> p2p \<Rightarrow> p2p" where
  "app_radio_p2p_start e s =
     (if unprovisioned e then s\<lparr>m_disabled := True\<rparr>
      else if m_link_state s = P2P_LINK_PAIRED then mark_ready e s
      else start_join_episode False s)"

datatype p2p_state = S_DISABLED | S_IDLE | S_HEALTHY | S_RECONNECT | S_JOINING

definition app_radio_p2p_get_state :: "p2p \<Rightarrow> p2p_state" where
  "app_radio_p2p_get_state s =
     (if m_disabled s then S_DISABLED
      else case m_link_state s of
             P2P_LINK_PAIRED \<Rightarrow> if \<not> m_started s then S_IDLE else S_HEALTHY
           | P2P_LINK_JOINING \<Rightarrow> if m_join_slow s then S_RECONNECT else S_JOINING
           | P2P_LINK_UNPAIRED \<Rightarrow> S_IDLE)"

definition app_radio_p2p_listen :: "p2p_env \<Rightarrow> bool \<Rightarrow> p2p \<Rightarrow> p2p" where
  "app_radio_p2p_listen e enable s =
     (if enable = m_listening s then s
      else if enable then
        (case radio_configure e s of
           (Some _, s1) \<Rightarrow> s1
         | (None, s1) \<Rightarrow>
             (case ask (pe_listen e) s1 of
                (Some _, s2) \<Rightarrow> s2\<lparr>m_listening := False\<rparr>
              | (None, s2) \<Rightarrow> s2\<lparr>m_listening := True\<rparr>))
      else call C_tx_kick (snd (radio_configure e (s\<lparr>m_listening := False\<rparr>))))"

definition app_radio_p2p_suspend :: "p2p \<Rightarrow> p2p" where
  "app_radio_p2p_suspend s = s\<lparr>m_join_work := work_idle, m_ctrl_work := work_idle\<rparr>"

text \<open>The dry run of \<open>ats radio compose\<close>: the frame the composed body would make; \<open>body\<close> is the
  answer of \<open>app_compose_budget\<close>.\<close>

definition debug_compose :: "p2p_env \<Rightarrow> bytes res \<Rightarrow> p2p \<Rightarrow> bytes res" where
  "debug_compose e body s =
     (if m_link_state s \<noteq> P2P_LINK_PAIRED then Inl ENOTCONN
      else case body of
             Inl err \<Rightarrow> Inl err
           | Inr b \<Rightarrow>
               if b = [] then Inr []
               else twr_seal (pe_aes e) (m_session_key s)
                      \<lparr>h_type = TWR_TYPE_DATA, h_flags = TWR_FLAG_CONFIRMED, h_src = node_addr e,
                       h_dest = m_net_id s, h_counter = max (m_fcnt s) 1\<rparr>
                      ([P2P_ENV_DATA, P2P_PORT_TELEMETRY] @ b) P2P_FRAME_MAX)"

subsection \<open>Runs\<close>

datatype p2p_input =
    EV_pass nat
  | EV_start
  | EV_send radio_frame
  | EV_report_flags bool
  | EV_time_request
  | EV_join_work
  | EV_ctrl_work
  | EV_self_heal
  | EV_rejoin
  | EV_unjoin
  | EV_listen bool
  | EV_drop_acks u32
  | EV_suspend

fun p2p_event :: "p2p_env \<Rightarrow> p2p_input \<Rightarrow> p2p \<Rightarrow> p2p" where
  "p2p_event e (EV_pass ms) s = k_sleep (int ms) s"
| "p2p_event e EV_start s = app_radio_p2p_start e s"
| "p2p_event e (EV_send f) s = snd (snd (p2p_tx_send e f s))"
| "p2p_event e (EV_report_flags due) s = snd (p2p_tx_report_flags e due s)"
| "p2p_event e EV_time_request s = p2p_time_request s"
| "p2p_event e EV_join_work s =
     (if work_due (now s) (m_join_work s)
      then join_work_handler e (s\<lparr>m_join_work := work_idle\<rparr>) else s)"
| "p2p_event e EV_ctrl_work s =
     (if work_due (now s) (m_ctrl_work s)
      then ctrl_work_handler e (s\<lparr>m_ctrl_work := work_idle\<rparr>) else s)"
| "p2p_event e EV_self_heal s = snd (p2p_tx_rejoin e s)"
| "p2p_event e EV_rejoin s = rejoin_work_handler e s"
| "p2p_event e EV_unjoin s = snd (pairing_clear e s)"
| "p2p_event e (EV_listen enable) s = app_radio_p2p_listen e enable s"
| "p2p_event e (EV_drop_acks n) s = s\<lparr>m_debug_drop_acks := n\<rparr>"
| "p2p_event e EV_suspend s = app_radio_p2p_suspend s"

definition p2p_boot :: "p2p_env \<Rightarrow> p2p_ev list \<Rightarrow> nat \<Rightarrow> p2p" where
  "p2p_boot e t k = snd (app_radio_p2p_init e (p2p_reset t k))"

datatype p2p_act = Do p2p_input | Cut p2p_input nat

fun p2p_step :: "p2p_env \<Rightarrow> p2p_act \<Rightarrow> p2p \<Rightarrow> p2p" where
  "p2p_step e (Do ev) s = p2p_event e ev s"
| "p2p_step e (Cut ev n) s =
     (let s1 = p2p_event e ev s
      in p2p_boot e (drop (min n (length (tr s1) - length (tr s))) (tr s1)) (tk s1))"

definition p2p_run :: "p2p_env \<Rightarrow> p2p_act list \<Rightarrow> p2p" where
  "p2p_run e steps = fold (p2p_step e) steps (p2p_boot e [] 0)"

end
