(* ===== verification/P2pRel.thy ===== *)
theory P2pRel
  imports P2pJoin "HOL-Library.Sublist"
begin

text \<open>
  Relations every event of the private radio respects.  \<open>quiet s s'\<close>: the counters, the session
  and the replay lane are untouched, and the trace grew by calls and packets only.  A preorder
  that holds across quiet steps, exchanges, the saves of a pairing and the seals of a join holds
  across every event (\<open>p2p_rel\<close>).
\<close>

subsection \<open>Quiet steps\<close>

fun quiet_ev :: "p2p_ev \<Rightarrow> bool" where
  "quiet_ev (V_air _) = True"
| "quiet_ev (V_call _) = True"
| "quiet_ev _ = False"

definition core :: "p2p \<Rightarrow> u32 \<times> u32 \<times> u32 \<times> bytes \<times> u32 \<times> u32 \<times> p2p_retx option" where
  "core s = (m_fcnt s, m_fcnt_reserved s, m_dev_nonce s, m_session_key s, m_net_id s, m_gw_last s,
     m_retx s)"

definition quiet :: "p2p \<Rightarrow> p2p \<Rightarrow> bool" where
  "quiet s s' \<longleftrightarrow> core s' = core s \<and> m_link_state s' = m_link_state s \<and>
     (\<exists>evs. tr s' = evs @ tr s \<and> list_all quiet_ev evs)"

lemma quietI:
  assumes "core s' = core s" "m_link_state s' = m_link_state s"
    and "tr s' = evs @ tr s" "list_all quiet_ev evs"
  shows "quiet s s'"
  using assms unfolding quiet_def by blast

lemma quiet_refl [simp, intro]: "quiet s s"
  by (rule quietI [where evs = "[]"]) simp_all

lemma quiet_trans [trans]: "quiet s t \<Longrightarrow> quiet t u \<Longrightarrow> quiet s u"
proof -
  assume a: "quiet s t" "quiet t u"
  from a(1) obtain x where x: "tr t = x @ tr s" "list_all quiet_ev x" unfolding quiet_def by blast
  from a(2) obtain y where y: "tr u = y @ tr t" "list_all quiet_ev y" unfolding quiet_def by blast
  show "quiet s u"
    by (rule quietI [where evs = "y @ x"]) (use a x y in \<open>auto simp: quiet_def\<close>)
qed

text \<open>An update of fields outside the core.\<close>

lemma quiet_upd:
  "core s' = core s \<Longrightarrow> m_link_state s' = m_link_state s \<Longrightarrow> tr s' = tr s \<Longrightarrow> quiet s s'"
  by (rule quietI [where evs = "[]"]) simp_all

lemma quiet_emit [intro]: "quiet_ev v \<Longrightarrow> quiet s (emit v s)"
  by (rule quietI [where evs = "[v]"]) (simp_all add: emit_def core_def)

lemma quiet_call: "quiet s t \<Longrightarrow> quiet s (call c t)"
  using quiet_emit quiet_trans quiet_ev.simps(2) by blast

lemma quiet_ask: "ask f s = (r, s') \<Longrightarrow> quiet s s'"
  by (rule quiet_upd) (auto simp: ask_def core_def)

lemma quiet_blocks: "quiet s (blocks e s)"
  by (rule quiet_upd) (simp_all add: blocks_def core_def)

lemma quiet_sleep: "quiet s (k_sleep ms s)"
  by (rule quiet_upd) (simp_all add: k_sleep_def core_def)

lemma quiet_configure: "radio_configure e s = (r, s') \<Longrightarrow> quiet s s'"
  unfolding radio_configure_def by (rule quiet_ask)

lemma quiet_duty_wait: "duty_wait ms s = (w, s') \<Longrightarrow> quiet s s'"
  by (rule quiet_upd) (auto simp: duty_wait_def core_def split: prod.splits)

lemma quiet_duty_wait_for: "duty_wait_ms_for e n s = (w, s') \<Longrightarrow> quiet s s'"
  unfolding duty_wait_ms_for_def by (rule quiet_duty_wait)

lemma quiet_charge: "quiet s (duty_charge ms s)"
  by (rule quiet_upd) (simp_all add: duty_charge_def core_def)

lemma quiet_send: "lora_send e f s = (r, s') \<Longrightarrow> quiet s s'"
  unfolding lora_send_def
  by (rule quiet_trans [OF quiet_trans [OF quiet_emit quiet_blocks] quiet_ask]) simp_all

lemma quiet_send_failed: "tx_send_failed e n s = (r, s') \<Longrightarrow> quiet s s'"
  by (auto simp: tx_send_failed_def intro: quiet_charge)

lemma quiet_tx_once: "p2p_tx_once e f ms rx s = (r, a, s') \<Longrightarrow> quiet s s'"
  by (auto simp: p2p_tx_once_def Let_def split: prod.splits option.splits if_splits
      dest!: quiet_configure quiet_send quiet_send_failed quiet_ask
      intro: quiet_trans quiet_charge)
    (meson quiet_trans quiet_charge)+

lemma quiet_heard: "heard e s = (q, s') \<Longrightarrow> quiet s s'"
  by (auto simp: heard_def split: prod.splits dest!: quiet_ask intro: quiet_trans quiet_blocks)

lemma quiet_gate: "exchange_gate e n s = (r, s') \<Longrightarrow> quiet s s'"
  by (auto simp: exchange_gate_def Let_def split: prod.splits if_splits
      dest!: quiet_duty_wait intro: quiet_trans quiet_sleep)

subsection \<open>Receive windows\<close>

text \<open>A window opens frames and moves the lane, nothing else of the core.\<close>

fun window_ev :: "p2p_ev \<Rightarrow> bool" where
  "window_ev (V_recv _ _ _) = True"
| "window_ev (V_accept _ _) = True"
| "window_ev v = quiet_ev v"

definition listens :: "p2p \<Rightarrow> p2p \<Rightarrow> bool" where
  "listens s s' \<longleftrightarrow> core (s'\<lparr>m_gw_last := m_gw_last s\<rparr>) = core s \<and> m_link_state s' = m_link_state s \<and>
     (\<exists>evs. tr s' = evs @ tr s \<and> list_all window_ev evs)"

lemma quiet_window: "quiet_ev v \<Longrightarrow> window_ev v"
  by (cases v) auto

lemma quiet_listens: "quiet s s' \<Longrightarrow> listens s s'"
  unfolding quiet_def listens_def core_def by (auto simp: list_all_iff intro: quiet_window)

lemma listens_refl [simp, intro]: "listens s s"
  by (rule quiet_listens) simp

lemma listens_trans [trans]: "listens s t \<Longrightarrow> listens t u \<Longrightarrow> listens s u"
proof -
  assume a: "listens s t" "listens t u"
  from a(1) obtain x where x: "tr t = x @ tr s" "list_all window_ev x" unfolding listens_def by blast
  from a(2) obtain y where y: "tr u = y @ tr t" "list_all window_ev y" unfolding listens_def by blast
  have "tr u = (y @ x) @ tr s \<and> list_all window_ev (y @ x)" using x y by simp
  then show "listens s u" using a unfolding listens_def core_def by auto
qed

lemma listens_upd:
  "core (s'\<lparr>m_gw_last := m_gw_last s\<rparr>) = core s \<Longrightarrow> m_link_state s' = m_link_state s \<Longrightarrow>
    tr s' = evs @ tr s \<Longrightarrow> list_all window_ev evs \<Longrightarrow> listens s s'"
  unfolding listens_def by blast

lemma listens_gw_frame: "gw_frame e rx s = (r, s') \<Longrightarrow> listens s s'"
proof -
  assume g: "gw_frame e rx s = (r, s')"
  then consider "s' = s" | h pt where "s' = emit (V_recv (m_session_key s) h pt) s"
    by (auto simp: gw_frame_def Let_def split: sum.splits if_splits prod.splits)
  then show ?thesis
  proof cases
    case 2
    then show ?thesis
      by (intro listens_upd [where evs = "[V_recv (m_session_key s) h pt]"]) (simp_all add: emit_def core_def)
  qed simp
qed

lemma listens_lane: "listens s t \<Longrightarrow> listens s (t\<lparr>m_gw_last := c\<rparr>)"
  by (rule listens_trans, assumption, rule listens_upd [where evs = "[]"]) (simp_all add: core_def)

lemma listens_drop: "listens s t \<Longrightarrow> listens s (t\<lparr>m_debug_drop_acks := d\<rparr>)"
  by (rule listens_trans, assumption, rule listens_upd [where evs = "[]"]) (simp_all add: core_def)

text \<open>The two loops over the queue, once for every predicate on the state.\<close>

lemma wait_ack_keeps:
  assumes gw: "\<And>rx g s s1. gw_frame e rx s = (g, s1) \<Longrightarrow> I s \<Longrightarrow> I s1"
    and lane: "\<And>s c. I s \<Longrightarrow> I (s\<lparr>m_gw_last := c\<rparr>)"
    and drop: "\<And>s d. I s \<Longrightarrow> I (s\<lparr>m_debug_drop_acks := d\<rparr>)"
  shows "p2p_wait_ack e c q s = (r, q', s') \<Longrightarrow> I s \<Longrightarrow> I s'"
proof (induction q arbitrary: s)
  case (Cons rx q)
  obtain g s1 where g: "gw_frame e rx s = (g, s1)" by fastforce
  have 1: "I s1" using gw [OF g Cons.prems(2)] .
  show ?case
  proof (cases "p2p_wait_ack e c q s1 = (r, q', s')")
    case True
    then show ?thesis using Cons.IH 1 by blast
  next
    case False
    then obtain v h pt where a: "g = Some (v, h, pt)" using Cons.prems(1) g by (cases g) auto
    define s2 where "s2 = s1\<lparr>m_gw_last := h_counter h\<rparr>"
    have "s' = s2 \<or> p2p_wait_ack e c q (s2\<lparr>m_debug_drop_acks := m_debug_drop_acks s2 - 1\<rparr>) = (r, q', s')"
      using Cons.prems(1) g False unfolding a
      by (auto simp: Let_def s2_def split: if_splits sum.splits)
    moreover have 2: "I s2" unfolding s2_def using 1 by (rule lane)
    ultimately show ?thesis using Cons.IH [OF _ drop [OF 2]] by blast
  qed
qed simp

lemma wait_dl_keeps:
  assumes gw: "\<And>rx g s s1. gw_frame e rx s = (g, s1) \<Longrightarrow> I s \<Longrightarrow> I s1"
    and note_dl: "\<And>s a b. I s \<Longrightarrow> I (call (C_note_downlink a b) s)"
    and accept: "\<And>s K c a b. I s \<Longrightarrow>
      I (emit (V_accept K c) (s\<lparr>m_gw_last := c, m_dl_rssi := a, m_dl_snr := b\<rparr>))"
  shows "p2p_wait_dl e q x s = (x', s') \<Longrightarrow> I s \<Longrightarrow> I s'"
proof (induction q arbitrary: s)
  case (Cons rx q)
  obtain g s1 where g: "gw_frame e rx s = (g, s1)" by fastforce
  have 1: "I s1" using gw [OF g Cons.prems(2)] .
  show ?case
  proof (cases "p2p_wait_dl e q x s1 = (x', s')")
    case True
    then show ?thesis using Cons.IH 1 by blast
  next
    case False
    then obtain v h pt where a: "g = Some (v, h, pt)" using Cons.prems(1) g by (cases g) auto
    define s2 where "s2 = call (C_note_downlink (rx_rssi rx) (rx_snr rx)) s1"
    have "s' = s2 \<or> s' = emit (V_accept (m_session_key s2) (h_counter h))
        (s2\<lparr>m_gw_last := h_counter h, m_dl_rssi := rx_rssi rx, m_dl_snr := rx_snr rx\<rparr>)"
      using Cons.prems(1) g False unfolding a
      by (auto simp: Let_def s2_def split: if_splits)
    moreover have "I s2" unfolding s2_def using 1 by (rule note_dl)
    ultimately show ?thesis using accept by blast
  qed
qed simp

lemma listens_wait_ack: "p2p_wait_ack e c q s = (r, q', s') \<Longrightarrow> listens s s'"
  by (rule wait_ack_keeps [where I = "listens s"])
    (blast intro: listens_trans listens_gw_frame listens_lane listens_drop listens_refl)+

lemma listens_wait_dl: "p2p_wait_dl e q x s = (x', s') \<Longrightarrow> listens s s'"
proof (rule wait_dl_keeps [where I = "listens s"])
  show "listens s (call (C_note_downlink a b) t)" if "listens s t" for t a b
    using that by (rule listens_trans) (intro quiet_listens quiet_emit, simp)
  show "listens s (emit (V_accept K c) (t\<lparr>m_gw_last := c, m_dl_rssi := a, m_dl_snr := b\<rparr>))"
    if "listens s t" for t K c a b
    using that by (rule listens_trans)
      (rule listens_upd [where evs = "[V_accept K c]"], simp_all add: emit_def core_def)
qed (blast intro: listens_trans listens_gw_frame listens_refl)+

lemma listens_exchange_ack: "exchange_ack e c x s = (x', s') \<Longrightarrow> listens s s'"
proof -
  assume ex: "exchange_ack e c x s = (x', s')"
  obtain q s1 where q: "heard e s = (q, s1)" by fastforce
  obtain r q2 s2 where r: "p2p_wait_ack e c q s1 = (r, q2, s2)" using prod_cases3 by blast
  note l = listens_trans [OF quiet_listens [OF quiet_heard [OF q]] listens_wait_ack [OF r]]
  show ?thesis
  proof (cases r)
    case None
    then show ?thesis using ex q r l by (auto simp: exchange_ack_def)
  next
    case (Some a)
    obtain rx ack where a: "a = (rx, ack)" by (cases a)
    define s3 where "s3 = call (C_note_downlink (rx_rssi rx) (rx_snr rx)) (s2\<lparr>m_last_ack_rssi := Some (a_rssi ack)\<rparr>)"
    have "quiet s2 s3"
      unfolding s3_def by (rule quiet_call, rule quiet_upd) (simp_all add: core_def)
    then have l3: "listens s s3" using l quiet_listens listens_trans by blast
    obtain q3 s4 where h: "heard e s3 = (q3, s4)" by fastforce
    have l4: "listens s s4" using l3 quiet_listens [OF quiet_heard [OF h]] listens_trans by blast
    show ?thesis
      using ex q r l3 h unfolding Some a
      by (auto simp: exchange_ack_def Let_def s3_def [symmetric] split: if_splits prod.splits
          dest!: listens_wait_dl intro: listens_trans [OF l4])
  qed
qed

subsection \<open>Counters\<close>

text \<open>Taking a counter leaves the session alone, and saves at most.\<close>

definition same_session :: "p2p \<Rightarrow> p2p \<Rightarrow> bool" where
  "same_session s s' \<longleftrightarrow> m_link_state s' = m_link_state s \<and> m_session_key s' = m_session_key s
     \<and> m_net_id s' = m_net_id s \<and> m_dev_nonce s' = m_dev_nonce s \<and> m_gw_last s' = m_gw_last s
     \<and> m_retx s' = m_retx s"

fun fcnt_ev :: "p2p_ev \<Rightarrow> bool" where
  "fcnt_ev (V_save k _) = (k = P2P_FCNT_KEY)"
| "fcnt_ev _ = False"

definition counts :: "p2p \<Rightarrow> p2p \<Rightarrow> bool" where
  "counts s s' \<longleftrightarrow> same_session s s' \<and> (\<exists>evs. tr s' = evs @ tr s \<and> list_all fcnt_ev evs)"

lemma counts_trans: "counts s t \<Longrightarrow> counts t u \<Longrightarrow> counts s u"
proof -
  assume a: "counts s t" "counts t u"
  from a(1) obtain x where x: "tr t = x @ tr s" "list_all fcnt_ev x" unfolding counts_def by blast
  from a(2) obtain y where y: "tr u = y @ tr t" "list_all fcnt_ev y" unfolding counts_def by blast
  have "tr u = (y @ x) @ tr s \<and> list_all fcnt_ev (y @ x)" using x y by simp
  then show ?thesis using a unfolding counts_def same_session_def by auto
qed

lemma save_cases:
  assumes "settings_save_one e k v s = (ret, s')"
  obtains (fail) err where "ret = Some err" "s' = s\<lparr>tk := tk s + 1\<rparr>"
  | (ok) "ret = None" "s' = emit (V_save k v) (s\<lparr>tk := tk s + 1\<rparr>)"
proof (cases "pe_save e (tk s)")
  case None
  then show ?thesis by (intro ok) (use assms in \<open>simp_all add: settings_save_one_def ask_def\<close>)
next
  case (Some err)
  then show ?thesis by (intro fail [of err]) (use assms in \<open>auto simp: settings_save_one_def ask_def\<close>)
qed

lemma counts_reserve: "fcnt_reserve e w s = (r, s') \<Longrightarrow> counts s s'"
proof -
  assume r: "fcnt_reserve e w s = (r, s')"
  obtain sv s0 where sv: "settings_save_one e P2P_FCNT_KEY (put_le32 w) s = (sv, s0)" by fastforce
  from sv show ?thesis
    by (cases rule: save_cases)
      (use r sv in \<open>auto simp: fcnt_reserve_def counts_def same_session_def emit_def\<close>)
qed

lemma counts_next: "fcnt_next e s = (r, s') \<Longrightarrow> counts s s'"
  by (auto simp: fcnt_next_def Let_def split: if_splits prod.splits option.splits
      dest!: counts_reserve) (auto simp: counts_def same_session_def)

lemma counts_counter: "twr_counter_next e s = (r, s') \<Longrightarrow> counts s s'"
  by (auto simp: twr_counter_next_def split: if_splits prod.splits sum.splits
      dest!: counts_next intro: counts_trans)

subsection \<open>Whole events\<close>

text \<open>A step that ends the session and is quiet otherwise.\<close>

definition leaves :: "p2p \<Rightarrow> p2p \<Rightarrow> bool" where
  "leaves s s' \<longleftrightarrow> core s' = core s \<and> m_link_state s' \<noteq> P2P_LINK_PAIRED \<and>
     (\<exists>evs. tr s' = evs @ tr s \<and> list_all quiet_ev evs)"

lemma quiet_leaves: "quiet s t \<Longrightarrow> leaves t u \<Longrightarrow> leaves s u"
proof -
  assume a: "quiet s t" "leaves t u"
  from a(1) obtain x where x: "tr t = x @ tr s" "list_all quiet_ev x" unfolding quiet_def by blast
  from a(2) obtain y where y: "tr u = y @ tr t" "list_all quiet_ev y" unfolding leaves_def by blast
  have "tr u = (y @ x) @ tr s \<and> list_all quiet_ev (y @ x)" using x y by simp
  then show ?thesis using a unfolding quiet_def leaves_def by auto
qed

lemma quiet_attempt: "quiet s t \<Longrightarrow> quiet s (set_rejoin_attempt n t)"
  unfolding set_rejoin_attempt_def
  by (rule quiet_trans, assumption, rule quiet_call, rule quiet_upd) (simp_all add: core_def)

lemma leaves_episode: "leaves s (start_join_episode slow s)"
proof -
  have "quiet s (set_rejoin_attempt 0 (s\<lparr>m_join_slow := slow\<rparr>))"
    by (rule quiet_attempt, rule quiet_upd) (simp_all add: core_def)
  then show ?thesis
    unfolding start_join_episode_def Let_def by (rule quiet_leaves) (simp add: leaves_def core_def)
qed

lemma quiet_request: "quiet s t \<Longrightarrow> quiet s (ctrl_request bits d t)"
  by (rule quiet_trans, assumption, rule quiet_upd) (simp_all add: ctrl_request_def core_def)

lemma quiet_resched: "quiet s t \<Longrightarrow> quiet s (ctrl_resched d t)"
  by (rule quiet_trans, assumption, rule quiet_upd) (simp_all add: ctrl_resched_def core_def)

lemma quiet_join_resched: "quiet s t \<Longrightarrow> quiet s (join_resched d t)"
  by (rule quiet_trans, assumption, rule quiet_upd) (simp_all add: join_resched_def core_def)

lemma quiet_time_ans: "quiet s (time_ans val s)"
  by (auto simp: time_ans_def Let_def core_def split: option.splits prod.splits
      intro!: quiet_call quiet_upd)

lemma quiet_link_check_ans: "quiet s (link_check_ans val s)"
  by (auto simp: link_check_ans_def Let_def core_def intro!: quiet_call quiet_upd)

lemma quiet_pending_info: "quiet s (pending_info n s)"
  by (auto simp: pending_info_def intro: quiet_request)

lemma quiet_build: "ctrl_build e bits s = (pt, s') \<Longrightarrow> quiet s s'"
  by (auto simp: ctrl_build_def split: if_splits prod.splits dest: quiet_ask)

lemma quiet_ctrl_sent: "quiet s (ctrl_sent bits x s)"
  by (rule quiet_upd) (auto simp: ctrl_sent_def core_def Let_def)

lemma quiet_report: "quiet s (snd (p2p_tx_report_flags e due s))"
proof -
  obtain w s1 where w: "ask (pe_time_wanted e) s = (w, s1)" by fastforce
  have "quiet s1 (answer_fetch_count e s)"
    using w by (intro quiet_upd) (auto simp: answer_fetch_count_def core_def Let_def)
  then have "quiet s (answer_fetch_count e s)" using quiet_ask [OF w] quiet_trans by blast
  then show ?thesis by (auto simp: p2p_tx_report_flags_def Let_def intro: quiet_request)
qed

lemma quiet_ready: "quiet s (mark_ready e s)"
proof -
  define s1 where "s1 = (set_rejoin_attempt 0 (s\<lparr>m_join_slow := False\<rparr>))\<lparr>m_started := True, m_ctrl_tries := 0\<rparr>"
  have "quiet s (set_rejoin_attempt 0 (s\<lparr>m_join_slow := False\<rparr>))"
    by (rule quiet_attempt, rule quiet_upd) (simp_all add: core_def)
  then have 1: "quiet s s1"
    unfolding s1_def by (rule quiet_trans) (rule quiet_upd, simp_all add: core_def)
  obtain w s2 where w: "ask (pe_time_wanted e) s1 = (w, s2)" by fastforce
  obtain r s3 where r: "ask (pe_rand e) s2 = (r, s3)" by fastforce
  have "quiet s s3" using 1 quiet_ask [OF w] quiet_ask [OF r] quiet_trans by blast
  then show ?thesis
    using w r by (auto simp: mark_ready_def Let_def s1_def [symmetric] intro!: quiet_call quiet_request)
qed

lemma quiet_retry: "quiet s (join_retry e blocked s)"
proof -
  have window: "quiet s (join_window_expired s)" for s
    unfolding join_window_expired_def by (rule quiet_attempt, rule quiet_upd) (simp_all add: core_def)
  obtain d s1 where d: "(if blocked then duty_wait_ms_for e P2P_JOIN_REQ_LEN s else (0, s)) = (d, s1)" by fastforce
  then have 1: "quiet s s1" by (auto split: if_splits dest: quiet_duty_wait_for)
  obtain w s2 where w: "(if m_join_slow s1 then (0, s1)
             else case p2p_join_retry_delay_ms False (now s1 - m_join_started_at s1) d 0
                         P2P_JOIN_RETRY_JITTER_MS of
                    Some w \<Rightarrow> (w, s1) | None \<Rightarrow> (0, join_window_expired s1)) = (w, s2)" by fastforce
  then have 2: "quiet s s2"
    using 1 quiet_trans [OF 1 window] by (auto split: if_splits option.splits)
  define s3 where "s3 = (if m_join_slow s2 \<and> \<not> blocked \<and> m_rejoin_attempt s2 < 255
      then set_rejoin_attempt (m_rejoin_attempt s2 + 1) s2 else s2)"
  have 3: "quiet s s3" using 2 by (simp add: s3_def quiet_attempt)
  obtain r s4 where r: "ask (pe_rand e) s3 = (r, s4)" by fastforce
  have 4: "quiet s s4" using 3 quiet_ask [OF r] quiet_trans by blast
  show ?thesis
    unfolding join_retry_def d w Let_def prod.case s3_def [symmetric] r
    by (rule quiet_join_resched [OF 4])
qed

lemma quiet_listen: "quiet s (app_radio_p2p_listen e b s)"
proof -
  have f: "quiet s (t\<lparr>m_listening := v\<rparr>)" if "quiet s t" for t v
    by (rule quiet_trans [OF that quiet_upd]) (simp_all add: core_def)
  have c: "quiet s (snd (radio_configure e (s\<lparr>m_listening := v\<rparr>)))" for v
    by (rule quiet_trans [OF f [OF quiet_refl] quiet_configure [OF surjective_pairing]])
  show ?thesis
    by (auto simp: app_radio_p2p_listen_def split: prod.splits option.splits
        dest!: quiet_configure quiet_ask intro: quiet_call c f quiet_trans)
qed

text \<open>The events \<open>app_radio\<close> makes: a frame is retried only when it is confirmed.\<close>

fun retry_ok :: "p2p_input \<Rightarrow> bool" where
  "retry_ok (EV_send f) = (0 < fr_attempt f \<longrightarrow> fr_confirmed f)"
| "retry_ok _ = True"

text \<open>The states a send can end in.\<close>

definition tx_pt :: "radio_frame \<Rightarrow> bytes" where
  "tx_pt f = [P2P_ENV_DATA, case fr_kind f of K_TELEMETRY \<Rightarrow> P2P_PORT_TELEMETRY | K_ALARM \<Rightarrow> P2P_PORT_ALARM
     | _ \<Rightarrow> if fr_port f \<noteq> 0 then fr_port f else P2P_PORT_RESPONSE] @ fr_buf f"

lemma tx_send_states:
  assumes "p2p_exchange e (tx_pt f) (fr_confirmed f) (int (fr_attempt f)) s = (ret, x, s1)"
    and "duty_wait_ms_for e (TWR_HDR_LEN + length (tx_pt f) + TWR_TAG_LEN) s1 = (w, s2)"
  shows "snd (snd (p2p_tx_send e f s)) \<in> {s, s1, s2, s1\<lparr>m_drains := 0\<rparr>,
      p2p_deliver_xfer e x (call C_link_result (s1\<lparr>m_drains := 0\<rparr>))}"
  using assms [unfolded tx_pt_def]
  by (auto simp: p2p_tx_send_def Let_def split: prod.split option.split errno.split)

locale p2p_rel =
  fixes e :: p2p_env and R :: "p2p \<Rightarrow> p2p \<Rightarrow> bool"
  assumes refl: "R s s"
    and trans: "R s t \<Longrightarrow> R t u \<Longrightarrow> R s u"
    and quiet: "quiet s s' \<Longrightarrow> R s s'"
    and leave: "leaves s s' \<Longrightarrow> R s s'"
    and exchange: "p2p_exchange e pt confirmed attempt s = (r, x, s') \<Longrightarrow>
      (0 < attempt \<longrightarrow> confirmed) \<Longrightarrow> R s s'"
    and clear: "pairing_clear e s = (ret, s') \<Longrightarrow> R s s'"
    and keyed: "keyed_join_attempt e s = (ret, s') \<Longrightarrow> R s s'"
    and pair: "twr_pair_attempt e s = (ret, s') \<Longrightarrow> R s s'"
begin

lemma rel_apply: "R s (snd (ctrl_apply e in_ack t s))"
proof -
  have "R s (start_join_episode True s)" by (rule leave) (rule leaves_episode)
  moreover have "R s (snd (pairing_clear e s))" by (rule clear [OF surjective_pairing])
  moreover have "R s (s\<lparr>m_home_gw := v\<rparr>)" for v by (rule quiet, rule quiet_upd) (simp_all add: core_def)
  moreover have "R s (ctrl_request b d (s\<lparr>m_ds := v\<rparr>))" for b d v
    by (rule quiet, rule quiet_request, rule quiet_upd) (simp_all add: core_def)
  moreover have "R s (call c s)" for c by (rule quiet) (rule quiet_call, rule quiet_refl)
  moreover note refl [of s] quiet [OF quiet_time_ans, of s] quiet [OF quiet_link_check_ans, of s]
    quiet [OF quiet_pending_info, of s]
  ultimately show ?thesis by (simp add: ctrl_apply_def)
qed

lemma rel_downlink: "R s (ctrl_downlink e buf off in_ack s)"
proof (induction "length buf - off" arbitrary: off s rule: less_induct)
  case less
  show ?case
  proof (cases "p2p_tlv_next buf off")
    case (TLV_AT t off')
    obtain stop s1 where ap: "ctrl_apply e in_ack t s = (stop, s1)" by fastforce
    then have "R s s1" using rel_apply [of s in_ack t] by simp
    moreover have "R s1 (ctrl_downlink e buf off' in_ack s1)"
      by (rule less) (use tlv_next_progress [OF TLV_AT] in linarith)
    ultimately show ?thesis
      using ap TLV_AT trans by (subst ctrl_downlink.simps) auto
  qed (subst ctrl_downlink.simps, simp add: refl)+
qed

lemma rel_deliver: "R s (p2p_deliver_xfer e x s)"
proof -
  have "R s (p2p_deliver e pt s)" for pt s
    using rel_downlink refl quiet [OF quiet_call [OF quiet_refl]] by (simp add: p2p_deliver_def)
  then show ?thesis
    using rel_downlink refl trans unfolding p2p_deliver_xfer_def Let_def by (simp split: if_split; blast)
qed

lemma rel_settle: "R s (ctrl_settle e bits n ret x s)"
proof -
  obtain w s1 where w: "duty_wait_ms_for e (TWR_HDR_LEN + n + TWR_TAG_LEN) s = (w, s1)" by fastforce
  define t where "t = s\<lparr>m_ctrl_pending := m_ctrl_pending s AND NOT bits, m_ctrl_tries := 0\<rparr>"
  define u where "u = call C_link_result (ctrl_sent bits x t)"
  have "quiet s t" by (rule quiet_upd) (simp_all add: t_def core_def)
  then have "quiet s u"
    unfolding u_def by (rule quiet_trans) (rule quiet_call, rule quiet_ctrl_sent)
  then have "R s (p2p_deliver_xfer e x u)" using quiet rel_deliver trans by blast
  moreover have "R v (ctrl_resched d v)" for d v by (rule quiet) (rule quiet_resched, rule quiet_refl)
  moreover have "R s s1" by (rule quiet) (rule quiet_duty_wait_for [OF w])
  moreover have q: "R s (s\<lparr>m_ctrl_tries := k\<rparr>)" "R s (s\<lparr>m_ctrl_pending := p, m_ctrl_tries := k\<rparr>)" for k p
    by (rule quiet, rule quiet_upd, simp_all add: core_def)+
  ultimately show ?thesis
    using refl trans unfolding ctrl_settle_def w Let_def t_def [symmetric] u_def [symmetric]
    by (simp split: if_split; blast)
qed

lemma rel_ctrl_work: "R s (ctrl_work_handler e s)"
proof -
  obtain a s1 where a: "ask (pe_ack_pending e) s = (a, s1)" by fastforce
  obtain b s2 where b: "ask (pe_backoff e) s1 = (b, s2)" by fastforce
  obtain pt s3 where pt: "ctrl_build e (m_ctrl_pending s) s2 = (pt, s3)" by fastforce
  obtain ret x s4 where x: "p2p_exchange e pt True P2P_NOT_RETRIED s3 = (ret, x, s4)"
    using prod_cases3 by blast
  have 1: "quiet s s1" using a by (rule quiet_ask)
  then have 2: "quiet s s2" using quiet_ask [OF b] quiet_trans by blast
  then have 3: "R s s3" using quiet quiet_build [OF pt] quiet_trans by blast
  have "R s3 s4" by (rule exchange [OF x]) simp
  with 3 have "R s (ctrl_settle e (m_ctrl_pending s) (length pt) ret x s4)"
    using rel_settle trans by blast
  then show ?thesis
    using 1 2 quiet quiet_resched [OF 1] quiet_resched [OF 2] refl
    by (simp add: ctrl_work_handler_def Let_def a b pt x)
qed

lemma rel_tx_send:
  assumes "0 < fr_attempt f \<longrightarrow> fr_confirmed f"
  shows "R s (snd (snd (p2p_tx_send e f s)))"
proof -
  obtain ret x s1 where x: "p2p_exchange e (tx_pt f) (fr_confirmed f) (int (fr_attempt f)) s = (ret, x, s1)"
    using prod_cases3 by blast
  obtain w s2 where w: "duty_wait_ms_for e (TWR_HDR_LEN + length (tx_pt f) + TWR_TAG_LEN) s1 = (w, s2)"
    by fastforce
  have 1: "R s s1" by (rule exchange [OF x]) (use assms in simp)
  have 2: "R s s2" using 1 quiet [OF quiet_duty_wait_for [OF w]] trans by blast
  have 3: "quiet s1 (s1\<lparr>m_drains := 0\<rparr>)" by (rule quiet_upd) (simp_all add: core_def)
  then have 4: "R s (s1\<lparr>m_drains := 0\<rparr>)" using 1 quiet trans by blast
  have "R s1 (p2p_deliver_xfer e x (call C_link_result (s1\<lparr>m_drains := 0\<rparr>)))"
    using quiet [OF quiet_call [OF 3]] rel_deliver trans by blast
  then have 5: "R s (p2p_deliver_xfer e x (call C_link_result (s1\<lparr>m_drains := 0\<rparr>)))"
    using 1 trans by blast
  show ?thesis
    using tx_send_states [OF x w] refl 1 2 4 5 by auto
qed

lemma rel_join_work: "R s (join_work_handler e s)"
proof -
  obtain ret s1 where a: "(if phy_fsk e then twr_pair_attempt e s else keyed_join_attempt e s) = (ret, s1)"
    by fastforce
  then have "R s s1" using pair keyed by (auto split: if_splits)
  then show ?thesis
    using refl quiet [OF quiet_ready] quiet [OF quiet_retry] trans
    unfolding join_work_handler_def a Let_def by (simp split: if_split; blast)
qed

lemma rel_event:
  assumes "retry_ok ev"
  shows "R s (p2p_event e ev s)"
proof -
  have ep: "R s (start_join_episode slow s)" for slow s by (rule leave) (rule leaves_episode)
  have w: "R s (s\<lparr>m_join_work := v\<rparr>)" "R s (s\<lparr>m_ctrl_work := v\<rparr>)" "R s (s\<lparr>m_disabled := b\<rparr>)"
    "R s (s\<lparr>m_debug_drop_acks := n\<rparr>)" "R s (app_radio_p2p_suspend s)" for v b n
    by (rule quiet, rule quiet_upd, simp_all add: core_def app_radio_p2p_suspend_def)+
  show ?thesis
  proof (cases ev)
    case (EV_send f)
    then show ?thesis using assms rel_tx_send by simp
  next
    case EV_join_work
    then show ?thesis using refl w(1) rel_join_work trans by (simp split: if_split; blast)
  next
    case EV_ctrl_work
    then show ?thesis using refl w(2) rel_ctrl_work trans by (simp split: if_split; blast)
  next
    case EV_unjoin
    then show ?thesis using clear [OF surjective_pairing] by simp
  qed (use refl w ep quiet quiet_sleep quiet_report quiet_ready quiet_listen quiet_request [OF quiet_refl]
      in \<open>simp_all add: app_radio_p2p_start_def p2p_tx_rejoin_def rejoin_work_handler_def p2p_time_request_def\<close>)
qed

end

end
