(* ===== verification/P2pDemo.thy ===== *)
theory P2pDemo
  imports P2pJoin
begin

text \<open>
  A device and a day of its life, for the witnesses: it joins, sends a frame that the driver
  refuses, sends it again, and is given a downlink behind the ACK.
\<close>

subsection \<open>Frames\<close>

definition demo_seal :: "bytes \<Rightarrow> twr_hdr \<Rightarrow> bytes \<Rightarrow> bytes" where
  "demo_seal key h pt = twr_hdr_put h @ ctr_crypt demo_cipher key (twr_nonce (h_src h) (h_counter h)) pt
     @ ccm_tag demo_cipher key (twr_nonce (h_src h) (h_counter h)) (twr_hdr_put h) pt 8"

lemma demo_seal:
  "twr_seal demo_cipher key h pt n =
    (if n < length pt + 22 \<or> 96 < length pt + 22 then Inl EMSGSIZE else Inr (demo_seal key h pt))"
  by (simp add: twr_seal_eq demo_seal_def)

lemma length_demo_seal: "length (demo_seal key h pt) = length pt + 22"
  by (simp add: demo_seal_def block_cipher_demo)

lemma demo_seal_get: "h_type h < 32 \<Longrightarrow> length pt \<le> 74 \<Longrightarrow> twr_hdr_get (demo_seal key h pt) = Inr h"
  unfolding demo_seal_def by (rule twr_hdr_get_put) (simp_all add: block_cipher_demo)

lemma demo_seal_open:
  assumes "h_type h < 32" "length pt \<le> 74" "length pt \<le> n"
  shows "twr_open demo_cipher key (demo_seal key h pt) n = Inr (h, pt)"
  unfolding twr_open_eq [OF block_cipher_demo demo_seal_get [OF assms(1,2)]]
  using assms by (simp add: demo_seal_def block_cipher_demo)

lemma demo_seal_cons: "demo_seal key h pt \<noteq> []"
  using length_demo_seal [of key h pt] by auto

subsection \<open>The device\<close>

definition demo_rx :: "bytes \<Rightarrow> p2p_rx" where
  "demo_rx b = \<lparr>rx_at = 0, rx_rssi = -50, rx_snr = 5, rx_buf = b\<rparr>"

definition demo_mute :: p2p_env where
  "demo_mute = \<lparr>pe_aes = demo_cipher, pe_crc16 = (\<lambda>_. 0), pe_appkey = [1],
     pe_deveui = [1, 2, 3, 4, 0, 0, 0, 9], pe_sf = 7, pe_tx_power = 14, pe_modulation = MODULATION_LORA,
     pe_frequency = 868100000, pe_fsk_built = False, pe_fw = [1, 2, 3], pe_reset_cause = 0,
     pe_save = (\<lambda>_. None), pe_rand = (\<lambda>_. 0), pe_ms = (\<lambda>_. 10), pe_config = (\<lambda>_. None),
     pe_send = (\<lambda>k. if k = 15 then Some EIO else None), pe_listen = (\<lambda>_. None),
     pe_recv = (\<lambda>_. Inl EAGAIN), pe_heard = (\<lambda>_. []), pe_ack_pending = (\<lambda>_. False),
     pe_time_wanted = (\<lambda>_. False), pe_backoff = (\<lambda>_. 0), pe_battery_mv = (\<lambda>_. 3000)\<rparr>"

definition demo_jkey :: bytes where "demo_jkey = derive_join_key demo_mute"
definition demo_key :: bytes where "demo_key = derive_session_key demo_mute 1 0x04030201"

definition demo_gw :: "u8 \<Rightarrow> u8 \<Rightarrow> u32 \<Rightarrow> twr_hdr" where
  "demo_gw ty fl c = \<lparr>h_type = ty, h_flags = fl, h_src = 77, h_dest = 9, h_counter = c\<rparr>"

definition demo_accept :: bytes where
  "demo_accept = demo_seal demo_jkey (demo_gw TWR_TYPE_DATA 0 1)
     [P2P_ENV_CTRL, P2P_CTRL_JOIN_ACCEPT, 13, 77, 0, 0, 0, 1, 2, 3, 4, 1, 14, 0, 0, 0]"
definition demo_ack :: bytes where
  "demo_ack = demo_seal demo_key (demo_gw TWR_TYPE_ACK 0 1) [1, 0, 0, 0, 200, TWR_ACK_PENDING]"
definition demo_dl :: bytes where
  "demo_dl = demo_seal demo_key (demo_gw TWR_TYPE_DATA TWR_FLAG_CONFIRMED 2)
     [P2P_ENV_DATA, P2P_PORT_COMMAND, 5, 6]"

definition demo_env :: p2p_env where
  "demo_env = demo_mute\<lparr>pe_recv := (\<lambda>_. Inr demo_accept),
     pe_heard := (\<lambda>k. if k = 22 then [demo_rx demo_ack, demo_rx demo_dl] else [])\<rparr>"

definition demo_frame :: "nat \<Rightarrow> radio_frame" where
  "demo_frame n = \<lparr>fr_kind = K_TELEMETRY, fr_tag = TAG_OTHER, fr_port = 0, fr_confirmed = True,
     fr_link_check = False, fr_more = False, fr_attempt = n, fr_buf = [1, 2]\<rparr>"

definition demo_boot :: p2p where "demo_boot = p2p_boot demo_env [] 0"
definition demo_start :: p2p where "demo_start = p2p_event demo_env EV_start demo_boot"
definition demo_joined :: p2p where "demo_joined = p2p_event demo_env EV_join_work demo_start"
definition demo_refused :: p2p where
  "demo_refused = p2p_event demo_env (EV_send (demo_frame 0)) demo_joined"
definition demo_sent :: p2p where
  "demo_sent = p2p_event demo_env (EV_send (demo_frame 1)) demo_refused"

lemma demo_env_simps:
  "pe_aes demo_env = demo_cipher" "pe_appkey demo_env = [1]" "pe_deveui demo_env = [1, 2, 3, 4, 0, 0, 0, 9]"
  "pe_sf demo_env = 7" "pe_modulation demo_env = 0" "pe_frequency demo_env = 868100000"
  "pe_fsk_built demo_env = False" "pe_fw demo_env = [1, 2, 3]" "pe_save demo_env k = None"
  "pe_rand demo_env k = 0" "pe_ms demo_env k = 10" "pe_config demo_env k = None"
  "pe_send demo_env k = (if k = 15 then Some EIO else None)" "pe_listen demo_env k = None"
  "pe_recv demo_env k = Inr demo_accept"
  "pe_heard demo_env k = (if k = 22 then [demo_rx demo_ack, demo_rx demo_dl] else [])"
  "pe_ack_pending demo_env k = False" "pe_time_wanted demo_env k = False" "pe_backoff demo_env k = 0"
  by (simp_all add: demo_env_def demo_mute_def MODULATION_LORA_def)

lemma demo_ids: "node_addr demo_env = 9" "app_key_is_set demo_env" "addr_is_valid demo_env"
  "phy_fsk demo_env = False" "phy_is_supported demo_env" "unprovisioned demo_env = False"
proof -
  show a: "node_addr demo_env = 9"
    by (simp add: node_addr_def demo_env_simps get_be32_def get_be16_def)
  show k: "app_key_is_set demo_env" by (simp add: app_key_is_set_def demo_env_simps)
  show v: "addr_is_valid demo_env"
    by (simp add: addr_is_valid_def a TWR_ADDR_NONE_def TWR_ADDR_BROADCAST_def)
  show f: "phy_fsk demo_env = False" by (simp add: phy_fsk_def demo_env_simps)
  show p: "phy_is_supported demo_env"
    by (simp add: phy_is_supported_def demo_env_simps MODULATION_LORA_def)
  show "unprovisioned demo_env = False" by (simp add: unprovisioned_def k v p)
qed

lemma demo_keys: "derive_join_key demo_env = demo_jkey" "derive_session_key demo_env 1 0x04030201 = demo_key"
  by (simp_all add: demo_jkey_def demo_key_def derive_join_key_def derive_session_key_def derive_key_def
      session_fields_def demo_env_def)

lemma demo_key_values:
  "demo_key = [76, 100, 97, 66, 91, 89, 91, 69, 91, 73, 91, 22, 16, 16, 16, 13]"
  "demo_jkey = [76, 101, 95, 65, 99, 87, 94, 65, 102, 95, 101, 98, 13, 13, 14, 11]"
  by code_simp+

lemma demo_accepted: "join_accept_open demo_env 1 demo_accept =
  Inr \<lparr>ja_net_id = 77, ja_central_nonce = 0x04030201, ja_rx_delay_s = 1, ja_tx_power = Some 14\<rparr>"
proof -
  let ?v = "[77, 0, 0, 0, 1, 2, 3, 4, 1, 14, 0, 0, 0] :: bytes"
  have "p2p_parse_join_accept ?v 77 =
      Inr \<lparr>ja_net_id = 77, ja_central_nonce = 0x04030201, ja_rx_delay_s = 1, ja_tx_power = Some 14\<rparr>"
    by code_simp
  then have "join_accept_find (P2P_CTRL_JOIN_ACCEPT # 13 # ?v) 0 77 =
      Inr \<lparr>ja_net_id = 77, ja_central_nonce = 0x04030201, ja_rx_delay_s = 1, ja_tx_power = Some 14\<rparr>"
    by (simp add: join_accept_find.simps p2p_tlv_next_def)
  then show ?thesis
    by (simp add: join_accept_open_def demo_accept_def demo_seal_get demo_seal_open demo_gw_def
        demo_env_simps demo_ids demo_keys TWR_TYPE_DATA_def TWR_PAYLOAD_MAX_def twr_lens)
qed

subsection \<open>Its day\<close>

definition demo_air0 :: duty where
  "demo_air0 = \<lparr>du_entries = replicate 49 \<lparr>de_end = 0, de_air = 0\<rparr>, du_budget = 36000, du_head = 0, du_count = 0\<rparr>"

lemma demo_boot: "demo_boot = (p2p_reset [] 2)\<lparr>air := demo_air0\<rparr>"
  unfolding demo_boot_def by code_simp


lemma demo_start: "demo_start = demo_boot
  \<lparr>tr := [V_call (C_join_attempts 0)], m_link_state := P2P_LINK_JOINING, m_join_slow := False,
   m_rejoin_attempt := 0, m_join_started_at := 0, m_join_work := \<lparr>wk_queued = True, wk_at = None\<rparr>\<rparr>"
  by (simp add: demo_start_def app_radio_p2p_start_def demo_ids demo_boot p2p_reset_def
      start_join_episode_def set_rejoin_attempt_def emit_def work_reschedule_def work_idle_def Let_def)


definition demo_air :: "u32 \<Rightarrow> u32 \<Rightarrow> duty" where
  "demo_air t a = demo_air0\<lparr>du_entries := \<lparr>de_end = t, de_air = a\<rparr> # replicate 48 \<lparr>de_end = 0, de_air = 0\<rparr>,
     du_count := 1\<rparr>"

lemma demo_toa: "p2p_toa_ms 7 39 = 83" "p2p_toa_ms 7 26 = 62" "p2p_toa_ms 7 28 = 67"
  by code_simp+

lemma demo_duty:
  "app_radio_ledger_wait_ms demo_air0 0 83 = (0, demo_air0)"
  "app_radio_ledger_charge demo_air0 10 83 = demo_air 10 83"
  "app_radio_ledger_wait_ms (demo_air 10 83) 995 62 = (0, demo_air 10 83)"
  "app_radio_ledger_charge (demo_air 10 83) 1005 62 = demo_air 1005 145"
  "app_radio_ledger_wait_ms (demo_air 1005 145) 1205 62 = (0, demo_air 1005 145)"
  "app_radio_ledger_charge (demo_air 1005 145) 1215 62 = demo_air 1215 207"
  "app_radio_ledger_wait_ms (demo_air 1215 207) 1235 67 = (0, demo_air 1215 207)"
  "app_radio_ledger_charge (demo_air 1215 207) 1245 67 = demo_air 1245 274"
  by code_simp+

definition demo_rec :: bytes where
  "demo_rec = pairing_record demo_env
     \<lparr>ja_net_id = 77, ja_central_nonce = 0x04030201, ja_rx_delay_s = 1, ja_tx_power = Some 14\<rparr> demo_key"

definition demo_tr :: "p2p_ev list" where
  "demo_tr =
    [V_call C_ready, V_call C_tx_kick, V_call C_announce, V_call C_link_up, V_call (C_join_attempts 0),
     V_save P2P_FCNT_KEY (put_le32 P2P_FCNT_RESERVE), V_call (C_backoff 0),
     V_save P2P_JOIN_STATE_KEY demo_rec,
     V_air (demo_seal demo_jkey (join_hdr demo_env TWR_TYPE_DATA TWR_ADDR_NONE 1) (join_request_pt demo_env)),
     V_seal demo_jkey (join_hdr demo_env TWR_TYPE_DATA TWR_ADDR_NONE 1) (join_request_pt demo_env),
     V_save P2P_JOIN_DNONCE_KEY (put_le32 2), V_call (C_join_attempts 0)]"

lemmas demo_ops = demo_duty demo_toa demo_ids demo_keys demo_env_simps twr_lens Let_def ask_def emit_def
  settings_save_one_def duty_wait_ms_for_def frame_toa_ms_def duty_wait_def duty_charge_def lora_send_def
  blocks_def phy_tx_buf_def k_sleep_def radio_configure_def

lemma demo_joined: "demo_joined = (p2p_reset demo_tr 13)
  \<lparr>now := 995, air := demo_air 10 83, m_started := True, m_fcnt_reserved := P2P_FCNT_RESERVE,
   m_link_state := P2P_LINK_PAIRED, m_net_id := 77, m_session_key := demo_key,
   m_session_tx_power := Some 14, m_dev_nonce := 2,
   m_ctrl_pending := P2P_CTRL_BIT_CAPS OR P2P_CTRL_BIT_HELLO,
   m_ctrl_work := \<lparr>wk_queued = True, wk_at = None\<rparr>\<rparr>"
  by (simp add: demo_joined_def demo_start demo_boot p2p_reset_def join_work_handler_def keyed_join_attempt_def
      send_join_request_def demo_ops P2P_JOIN_REQ_LEN_def P2P_JOIN_REQ_VALUE_LEN_def dnonce_persist_def
      work_due_def join_request_build_def demo_seal join_request_pt_def recv_join_accept_def
      p2p_rx_window_def demo_accepted pairing_persist_def session_reset_def fcnt_reserve_def mark_ready_def
      set_rejoin_attempt_def ctrl_request_def P2P_RX1_DELAY_DEFAULT_S_def P2P_RX1_OPEN_MARGIN_MS_def
      work_schedule_def scheduled_def work_reschedule_def work_idle_def P2P_CTRL_START_JITTER_MS_def
      demo_tr_def demo_rec_def)

lemma demo_window: "\<not> (256 :: u32) \<le> 1" "\<not> (256 :: u32) \<le> 0"
  by code_simp+

definition demo_pt :: bytes where "demo_pt = [P2P_ENV_DATA, P2P_PORT_TELEMETRY, 1, 2]"

definition demo_hdr :: twr_hdr where "demo_hdr = data_hdr demo_env demo_joined True 1"

lemmas demo_tx = demo_seal length_demo_seal demo_window demo_frame_def p2p_tx_send_def p2p_exchange_def exchange_gate_def
  exchange_seal_def exchange_rep_def p2p_tx_once_def tx_send_failed_def data_hdr_def 
  P2P_ENV_LEN_def P2P_MAX_BODY_def P2P_TOA_MAX_MS_def xfer0_def P2P_REPS_def numeral_3_eq_3 P2P_TX_GAP_MS_def
  demo_pt_def demo_hdr_def

definition demo_seal_ev :: p2p_ev where "demo_seal_ev = V_seal demo_key demo_hdr demo_pt"
definition demo_air_ev :: p2p_ev where "demo_air_ev = V_air (demo_seal demo_key demo_hdr demo_pt)"

lemma demo_refused: "demo_refused = demo_joined
  \<lparr>tr := demo_air_ev # demo_seal_ev # demo_tr, tk := 17, now := 1005, air := demo_air 1005 145,
   m_link_idle_at := 1205, m_fcnt := 2, m_retx := Some \<lparr>rt_counter = 1, rt_pt = demo_pt\<rparr>\<rparr>"
  by (simp add: demo_refused_def demo_joined p2p_reset_def demo_ops demo_tx twr_counter_next_def fcnt_next_def
     P2P_FCNT_RESERVE_def P2P_NOT_RETRIED_def demo_seal_ev_def demo_air_ev_def)

lemma demo_acked: "twr_parse_ack [1, 0, 0, 0, 200, TWR_ACK_PENDING]
    = Inr \<lparr>a_acked = 1, a_rssi = -56, a_pending = True, a_tail = []\<rparr>"
  "p2p_replay_check 0 1 = Inr P2P_RX_FRESH" "p2p_replay_check 1 2 = Inr P2P_RX_FRESH"
  "TWR_FLAG_CONFIRMED \<noteq> 0" "P2P_ENV_DATA \<noteq> P2P_ENV_CTRL" "TWR_TYPE_DATA < 32" "TWR_TYPE_ACK < 32"
  "TWR_TYPE_ACK \<noteq> TWR_TYPE_DATA" "\<not> (256 :: u32) \<le> 2"
  by code_simp+

lemma demo_gw_frames:
  assumes "m_net_id s = 77" "m_session_key s = demo_key"
  shows "m_gw_last s = 0 \<Longrightarrow> gw_frame demo_env (demo_rx demo_ack) s =
      (Some (P2P_RX_FRESH, demo_gw TWR_TYPE_ACK 0 1, [1, 0, 0, 0, 200, TWR_ACK_PENDING]),
       emit (V_recv demo_key (demo_gw TWR_TYPE_ACK 0 1) [1, 0, 0, 0, 200, TWR_ACK_PENDING]) s)"
    and "m_gw_last s = 1 \<Longrightarrow> gw_frame demo_env (demo_rx demo_dl) s =
      (Some (P2P_RX_FRESH, demo_gw TWR_TYPE_DATA TWR_FLAG_CONFIRMED 2, [P2P_ENV_DATA, P2P_PORT_COMMAND, 5, 6]),
       emit (V_recv demo_key (demo_gw TWR_TYPE_DATA TWR_FLAG_CONFIRMED 2) [P2P_ENV_DATA, P2P_PORT_COMMAND, 5, 6]) s)"
  using assms
  by (simp_all add: gw_frame_def demo_rx_def demo_ack_def demo_dl_def demo_seal_get demo_seal_open
      demo_gw_def demo_acked demo_ids demo_env_simps twr_lens)

lemma demo_cb: "p2p_recv_cb demo_env (demo_rx demo_ack) = Some (demo_rx demo_ack)"
  "p2p_recv_cb demo_env (demo_rx demo_dl) = Some (demo_rx demo_dl)"
  by (simp_all add: p2p_recv_cb_def demo_ids demo_rx_def demo_ack_def demo_dl_def length_demo_seal twr_lens)

lemma demo_rx_fields: "rx_at (demo_rx b) = 0" "rx_rssi (demo_rx b) = -50" "rx_snr (demo_rx b) = 5"
  by (simp_all add: demo_rx_def)

text \<open>The last event: the retry is the same frame, and the downlink is accepted.\<close>

definition demo_dl_hdr :: twr_hdr where "demo_dl_hdr = demo_gw TWR_TYPE_DATA TWR_FLAG_CONFIRMED 2"

definition demo_day :: "p2p_ev list" where
  "demo_day =
    [V_call (C_downlink [5, 6]), V_call C_link_result, V_call C_note_send,
     V_air (demo_seal demo_key (ack_hdr demo_env demo_joined 2) [2, 0, 0, 0, 206, 0]),
     V_seal demo_key (ack_hdr demo_env demo_joined 2) [2, 0, 0, 0, 206, 0],
     V_accept demo_key 2, V_call (C_note_downlink (-50) 5),
     V_recv demo_key demo_dl_hdr [P2P_ENV_DATA, P2P_PORT_COMMAND, 5, 6],
     V_call (C_note_downlink (-50) 5),
     V_recv demo_key (demo_gw TWR_TYPE_ACK 0 1) [1, 0, 0, 0, 200, TWR_ACK_PENDING],
     demo_air_ev, demo_seal_ev, demo_air_ev, demo_seal_ev] @ demo_tr"

lemma demo_put: "put_le32 2 @ [word_of_int (clamp_i8 (-50)), 0] = [2, 0, 0, 0, 206, 0]"
  by code_simp

lemma demo_sent: "tr demo_sent = demo_day"
  by (simp add: demo_sent_def demo_refused demo_joined p2p_reset_def demo_ops demo_tx twr_counter_next_def fcnt_next_def
     P2P_FCNT_RESERVE_def P2P_NOT_RETRIED_def demo_seal_ev_def demo_air_ev_def retx_counter_def
     exchange_ack_def heard_def map_filter_simps demo_cb demo_gw_frames demo_acked demo_gw_def
     p2p_auto_ack_def TWR_ACK_FRAME_LEN_def TWR_ACK_PAYLOAD_LEN_def ack_hdr_def P2P_TURNAROUND_MS_def
     demo_rx_fields demo_put p2p_deliver_xfer_def p2p_deliver_def demo_day_def demo_dl_hdr_def)

lemma demo_run: "p2p_run demo_env [Do EV_start, Do EV_join_work, Do (EV_send (demo_frame 0)),
    Do (EV_send (demo_frame 1))] = demo_sent"
  by (simp add: p2p_run_def demo_sent_def demo_refused_def demo_joined_def demo_start_def demo_boot_def)

text \<open>The dry run seals its preview under the counter of the next frame: the device below shows a
  frame with one plaintext, then sends another under the same key and header.\<close>

lemma preview_reuses_nonce:
  "debug_compose demo_env (Inr [9]) demo_joined
      = Inr (demo_seal demo_key demo_hdr [P2P_ENV_DATA, P2P_PORT_TELEMETRY, 9])
   \<and> V_seal demo_key demo_hdr [P2P_ENV_DATA, P2P_PORT_TELEMETRY, 1, 2] \<in> set (tr demo_refused)"
  by (simp add: debug_compose_def demo_joined demo_refused p2p_reset_def demo_env_simps demo_ids demo_seal
      demo_hdr_def data_hdr_def demo_seal_ev_def demo_pt_def twr_lens)

end
