(* ===== verification/P2pNonce.thy ===== *)
theory P2pNonce
  imports P2pRel P2pDemo
begin

text \<open>
  No counter seals two frames.  CCM is broken by two different frames under one key and nonce, and
  the nonce of a TOWER frame is its source address and counter; so under any key the node seals
  at most one frame with a counter, over its whole life: reboots and power losses at any point,
  failed saves, retries, new pairings.

  What is assumed of the keys (\<open>keys_fresh\<close>): a new pairing brings a key that has not been used,
  and that is not the join key or the public pairing key.  The JoinRequest counter, which the
  code does not stop at its maximum, must not have wrapped (\<open>nonces_left\<close>).

  The invariant has a part over the trace, at every moment of it (\<open>sealed_ok\<close>): the counters sealed
  under the key in flash are below the counter in flash, which is where a boot at that moment
  resumes.  The part over the RAM (\<open>ram_ok\<close>) ties the variables to it.
\<close>

subsection \<open>What is assumed\<close>

definition join_keys :: "p2p_env \<Rightarrow> bytes set" where
  "join_keys e = {derive_join_key e, TWR_PAIRING_KEY}"

definition rec_key :: "bytes \<Rightarrow> bytes" where
  "rec_key v = take P2P_KEY_LEN (drop 4 v)"

definition unused :: "bytes \<Rightarrow> p2p_ev list \<Rightarrow> bool" where
  "unused K t = list_all (\<lambda>v. case v of V_seal K' _ _ \<Rightarrow> K' \<noteq> K | V_recv K' _ _ \<Rightarrow> K' \<noteq> K | _ \<Rightarrow> True) t"

fun keys_fresh :: "p2p_env \<Rightarrow> p2p_ev list \<Rightarrow> bool" where
  "keys_fresh e [] = True"
| "keys_fresh e (V_save k v # t) =
     ((k = P2P_JOIN_STATE_KEY \<longrightarrow> rec_key v \<notin> join_keys e \<and> unused (rec_key v) t) \<and> keys_fresh e t)"
| "keys_fresh e (_ # t) = keys_fresh e t"

fun nonces_left :: "p2p_ev list \<Rightarrow> bool" where
  "nonces_left [] = True"
| "nonces_left (V_save k v # t) = ((k = P2P_JOIN_DNONCE_KEY \<longrightarrow> 2 \<le> get_le32 v) \<and> nonces_left t)"
| "nonces_left (_ # t) = nonces_left t"

definition fresh :: "p2p_env \<Rightarrow> p2p_ev list \<Rightarrow> bool" where
  "fresh e t \<longleftrightarrow> keys_fresh e t \<and> nonces_left t"

lemma fresh_tl: "fresh e (v # t) \<Longrightarrow> fresh e t"
  by (cases v) (auto simp: fresh_def)

lemma fresh_suffix: "suffix t t' \<Longrightarrow> fresh e t' \<Longrightarrow> fresh e t"
proof (induction t')
  case (Cons v t')
  then show ?case using fresh_tl by (auto simp: suffix_Cons)
qed simp

subsection \<open>The invariant\<close>

definition nv_word :: "string \<Rightarrow> p2p_ev list \<Rightarrow> u32" where
  "nv_word k t = (case nv k t of Some v \<Rightarrow> get_le32 v | None \<Rightarrow> 0)"

definition nv_key :: "p2p_ev list \<Rightarrow> bytes option" where
  "nv_key t = map_option rec_key (nv P2P_JOIN_STATE_KEY t)"

definition below :: "bytes \<Rightarrow> u32 \<Rightarrow> p2p_ev list \<Rightarrow> bool" where
  "below K c t \<longleftrightarrow> (\<forall>h pt. V_seal K h pt \<in> set t \<longrightarrow> h_counter h < c)"

definition one_use :: "p2p_ev list \<Rightarrow> bool" where
  "one_use t \<longleftrightarrow> (\<forall>K h pt h' pt'. V_seal K h pt \<in> set t \<longrightarrow> V_seal K h' pt' \<in> set t \<longrightarrow>
     h_counter h = h_counter h' \<longrightarrow> h = h' \<and> pt = pt')"

definition sealed_ok :: "p2p_env \<Rightarrow> p2p_ev list \<Rightarrow> bool" where
  "sealed_ok e t \<longleftrightarrow> one_use t
     \<and> (\<forall>K. nv_key t = Some K \<longrightarrow> below K (nv_word P2P_FCNT_KEY t) t)
     \<and> (\<forall>K \<in> join_keys e. below K (nv_word P2P_JOIN_DNONCE_KEY t) t)
     \<and> (\<forall>k v. V_save k v \<in> set t \<longrightarrow> k = P2P_FCNT_KEY \<or> k = P2P_JOIN_DNONCE_KEY \<longrightarrow> length v = 4)"

definition repeats :: "p2p_env \<Rightarrow> p2p \<Rightarrow> p2p_retx \<Rightarrow> bool" where
  "repeats e s r \<longleftrightarrow>
     V_seal (m_session_key s) (data_hdr e s True (rt_counter r)) (rt_pt r) \<in> set (tr s)"

definition ram_ok :: "p2p_env \<Rightarrow> p2p \<Rightarrow> bool" where
  "ram_ok e s \<longleftrightarrow> m_fcnt_reserved s = nv_word P2P_FCNT_KEY (tr s) \<and> m_fcnt s \<le> m_fcnt_reserved s
     \<and> m_dev_nonce s = nv_word P2P_JOIN_DNONCE_KEY (tr s)
     \<and> (m_link_state s = P2P_LINK_PAIRED \<longrightarrow>
          nv_key (tr s) = Some (m_session_key s) \<and> below (m_session_key s) (m_fcnt s) (tr s)
          \<and> (\<forall>r. m_retx s = Some r \<longrightarrow> repeats e s r))"

definition nonce_inv :: "p2p_env \<Rightarrow> p2p \<Rightarrow> bool" where
  "nonce_inv e s \<longleftrightarrow> (\<forall>t. suffix t (tr s) \<longrightarrow> fresh e t \<longrightarrow> sealed_ok e t)
     \<and> (fresh e (tr s) \<longrightarrow> ram_ok e s)"

lemma nonce_invD:
  "nonce_inv e s \<Longrightarrow> fresh e (tr s) \<Longrightarrow> sealed_ok e (tr s) \<and> ram_ok e s"
  by (simp add: nonce_inv_def)

text \<open>A step that adds one event, and one that adds none.\<close>

lemma nonce_step:
  assumes "nonce_inv e s" "tr s' = v # tr s"
    and "fresh e (v # tr s) \<Longrightarrow> fresh e (tr s) \<Longrightarrow> sealed_ok e (tr s) \<Longrightarrow> ram_ok e s \<Longrightarrow>
      sealed_ok e (v # tr s) \<and> ram_ok e s'"
  shows "nonce_inv e s'"
  using assms fresh_tl [of e v "tr s"] unfolding nonce_inv_def by (auto simp: suffix_Cons)

lemma nonce_update:
  assumes "nonce_inv e s" "tr s' = tr s"
    and "fresh e (tr s) \<Longrightarrow> sealed_ok e (tr s) \<Longrightarrow> ram_ok e s \<Longrightarrow> ram_ok e s'"
  shows "nonce_inv e s'"
  using assms unfolding nonce_inv_def by auto

subsection \<open>Events of the trace\<close>

lemma keys_distinct [simp]:
  "P2P_FCNT_KEY \<noteq> P2P_JOIN_DNONCE_KEY" "P2P_JOIN_DNONCE_KEY \<noteq> P2P_FCNT_KEY"
  "P2P_FCNT_KEY \<noteq> P2P_JOIN_STATE_KEY" "P2P_JOIN_STATE_KEY \<noteq> P2P_FCNT_KEY"
  "P2P_JOIN_DNONCE_KEY \<noteq> P2P_JOIN_STATE_KEY" "P2P_JOIN_STATE_KEY \<noteq> P2P_JOIN_DNONCE_KEY"
  by (simp_all add: P2P_FCNT_KEY_def P2P_JOIN_DNONCE_KEY_def P2P_JOIN_STATE_KEY_def)

lemma below_simps [simp]:
  "below K c []"
  "below K c (V_seal K' h pt # t) \<longleftrightarrow> (K' = K \<longrightarrow> h_counter h < c) \<and> below K c t"
  "below K c (V_save k v # t) = below K c t" "below K c (V_delete k # t) = below K c t"
  "below K c (V_recv K' h pt # t) = below K c t" "below K c (V_accept K' d # t) = below K c t"
  "below K c (V_air b # t) = below K c t" "below K c (V_call x # t) = below K c t"
  by (auto simp: below_def)

lemma below_mono: "below K c t \<Longrightarrow> c \<le> d \<Longrightarrow> below K d t"
  unfolding below_def by (meson order_less_le_trans)

lemma unused_below: "unused K t \<Longrightarrow> below K c t"
  unfolding unused_def below_def list_all_iff by fastforce

lemma nv_word_save [simp]:
  "nv_word k (V_save k (put_le32 w) # t) = w"
  "k' \<noteq> k \<Longrightarrow> nv_word k (V_save k' v # t) = nv_word k t"
  "k' \<noteq> k \<Longrightarrow> nv_word k (V_delete k' # t) = nv_word k t"
  "nv_word k (V_seal K h pt # t) = nv_word k t" "nv_word k (V_recv K h pt # t) = nv_word k t"
  "nv_word k (V_accept K d # t) = nv_word k t" "nv_word k (V_air b # t) = nv_word k t"
  "nv_word k (V_call x # t) = nv_word k t"
  by (simp_all add: nv_word_def)

lemma nv_key_save [simp]:
  "nv_key (V_save P2P_JOIN_STATE_KEY v # t) = Some (rec_key v)"
  "k \<noteq> P2P_JOIN_STATE_KEY \<Longrightarrow> nv_key (V_save k v # t) = nv_key t"
  "nv_key (V_delete P2P_JOIN_STATE_KEY # t) = None"
  "nv_key (V_seal K h pt # t) = nv_key t" "nv_key (V_recv K h pt # t) = nv_key t"
  "nv_key (V_accept K d # t) = nv_key t" "nv_key (V_air b # t) = nv_key t"
  "nv_key (V_call x # t) = nv_key t"
  by (simp_all add: nv_key_def)

lemma one_use_other:
  "(\<And>K h pt. v \<noteq> V_seal K h pt) \<Longrightarrow> one_use (v # t) = one_use t"
  by (auto simp: one_use_def)

lemma one_use_seal:
  "one_use (V_seal K h pt # t) \<longleftrightarrow> one_use t \<and>
     (\<forall>h' pt'. V_seal K h' pt' \<in> set t \<longrightarrow> h_counter h' = h_counter h \<longrightarrow> h' = h \<and> pt' = pt)"
proof
  assume o: "one_use (V_seal K h pt # t)"
  note oD = o [unfolded one_use_def, rule_format]
  have "one_use t"
    using o unfolding one_use_def by (meson list.set_intros(2))
  moreover have "h' = h \<and> pt' = pt" if "V_seal K h' pt' \<in> set t" "h_counter h' = h_counter h" for h' pt'
    by (rule oD [of K]) (use that in simp_all)
  ultimately show "one_use t \<and> (\<forall>h' pt'. V_seal K h' pt' \<in> set t \<longrightarrow> h_counter h' = h_counter h
      \<longrightarrow> h' = h \<and> pt' = pt)" by blast
next
  assume r: "one_use t \<and> (\<forall>h' pt'. V_seal K h' pt' \<in> set t \<longrightarrow> h_counter h' = h_counter h
      \<longrightarrow> h' = h \<and> pt' = pt)"
  then have o: "one_use t" by (rule conjunct1)
  have new: "V_seal K h' pt' \<in> set t \<Longrightarrow> h_counter h' = h_counter h \<Longrightarrow> h' = h \<and> pt' = pt" for h' pt'
    by (rule r [THEN conjunct2, rule_format])
  note old = o [unfolded one_use_def, rule_format]
  show "one_use (V_seal K h pt # t)"
    unfolding one_use_def
  proof (intro allI impI)
    fix L h1 p1 h2 p2
    assume m: "V_seal L h1 p1 \<in> set (V_seal K h pt # t)" "V_seal L h2 p2 \<in> set (V_seal K h pt # t)"
      and c: "h_counter h1 = h_counter h2"
    from m(1) have "V_seal L h1 p1 \<in> set t \<or> L = K \<and> h1 = h \<and> p1 = pt" by auto
    moreover from m(2) have "V_seal L h2 p2 \<in> set t \<or> L = K \<and> h2 = h \<and> p2 = pt" by auto
    ultimately show "h1 = h2 \<and> p1 = p2"
    proof (elim disjE conjE)
      assume "V_seal L h1 p1 \<in> set t" "V_seal L h2 p2 \<in> set t"
      then show ?thesis using c by (rule old)
    next
      assume "V_seal L h1 p1 \<in> set t" "L = K" "h2 = h" "p2 = pt"
      then show ?thesis using new [of h1 p1] c by blast
    next
      assume "L = K" "h1 = h" "p1 = pt" "V_seal L h2 p2 \<in> set t"
      then show ?thesis using new [of h2 p2] c [symmetric] by blast
    qed simp
  qed
qed

lemma one_use_fresh:
  "one_use t \<Longrightarrow> below K (h_counter h) t \<Longrightarrow> one_use (V_seal K h pt # t)"
  by (fastforce simp: one_use_seal below_def)

lemma sealed_window: "window_ev v \<Longrightarrow> sealed_ok e (v # t) = sealed_ok e t"
  by (cases v) (auto simp: sealed_ok_def one_use_other)

lemma sealed_save_fcnt:
  "sealed_ok e t \<Longrightarrow> (\<And>K. nv_key t = Some K \<Longrightarrow> below K w t) \<Longrightarrow>
    sealed_ok e (V_save P2P_FCNT_KEY (put_le32 w) # t)"
  by (auto simp: sealed_ok_def one_use_other)

lemma sealed_save_dnonce:
  "sealed_ok e t \<Longrightarrow> nv_word P2P_JOIN_DNONCE_KEY t \<le> w \<Longrightarrow>
    sealed_ok e (V_save P2P_JOIN_DNONCE_KEY (put_le32 w) # t)"
  by (auto simp: sealed_ok_def one_use_other intro: below_mono)

lemma sealed_save_state:
  "sealed_ok e t \<Longrightarrow> unused (rec_key v) t \<Longrightarrow> sealed_ok e (V_save P2P_JOIN_STATE_KEY v # t)"
  by (auto simp: sealed_ok_def one_use_other unused_below)

lemma sealed_delete:
  "sealed_ok e t \<Longrightarrow> sealed_ok e (V_delete P2P_JOIN_STATE_KEY # t)"
  by (auto simp: sealed_ok_def one_use_other)

lemma sealed_seal_session:
  assumes "sealed_ok e t" "nv_key t = Some K" "K \<notin> join_keys e"
    and "h_counter h < nv_word P2P_FCNT_KEY t" "one_use (V_seal K h pt # t)"
  shows "sealed_ok e (V_seal K h pt # t)"
  using assms by (auto simp: sealed_ok_def)

lemma sealed_seal_join:
  assumes "sealed_ok e t" "K \<in> join_keys e" "\<And>K'. nv_key t = Some K' \<Longrightarrow> K' \<notin> join_keys e"
    and "h_counter h < nv_word P2P_JOIN_DNONCE_KEY t" "below K (h_counter h) t"
  shows "sealed_ok e (V_seal K h pt # t)"
  using assms by (auto simp: sealed_ok_def intro!: one_use_fresh)

lemma nv_key_fresh: "keys_fresh e t \<Longrightarrow> nv_key t = Some K \<Longrightarrow> K \<notin> join_keys e"
  by (induction e t rule: keys_fresh.induct) (auto simp: nv_key_def split: if_splits)

subsection \<open>Quiet steps and receive windows\<close>

lemma window_step:
  assumes "window_ev v"
  shows "fresh e (v # t) = fresh e t" "nv_word k (v # t) = nv_word k t" "nv_key (v # t) = nv_key t"
    "V_seal K h pt \<in> set (v # t) \<longleftrightarrow> V_seal K h pt \<in> set t" "below K c (v # t) = below K c t"
  using assms by (cases v; simp add: fresh_def)+

definition trace_ok :: "p2p_env \<Rightarrow> p2p_ev list \<Rightarrow> bool" where
  "trace_ok e t \<longleftrightarrow> (\<forall>u. suffix u t \<longrightarrow> fresh e u \<longrightarrow> sealed_ok e u)"

lemma trace_ok_Cons:
  "trace_ok e (v # t) \<longleftrightarrow> (fresh e (v # t) \<longrightarrow> sealed_ok e (v # t)) \<and> trace_ok e t"
  by (auto simp: trace_ok_def suffix_Cons)

lemma trace_ok_self: "trace_ok e t \<Longrightarrow> fresh e t \<Longrightarrow> sealed_ok e t"
  by (simp add: trace_ok_def)

lemma window_trace:
  assumes "list_all window_ev evs"
  shows "fresh e (evs @ t) = fresh e t \<and> nv_word k (evs @ t) = nv_word k t
    \<and> nv_key (evs @ t) = nv_key t \<and> (V_seal K h pt \<in> set (evs @ t) \<longleftrightarrow> V_seal K h pt \<in> set t)
    \<and> below K c (evs @ t) = below K c t \<and> trace_ok e (evs @ t) = trace_ok e t"
  using assms
proof (induction evs)
  case (Cons v evs)
  then have v: "window_ev v" by simp
  have "trace_ok e (v # evs @ t) = trace_ok e (evs @ t)"
    using window_step(1) [OF v, of e] sealed_window [OF v, of e] trace_ok_self
    by (auto simp: trace_ok_Cons)
  then show ?case using Cons window_step [OF v] by simp
qed simp

lemma window_no_seal: "list_all window_ev evs \<Longrightarrow> V_seal K h pt \<notin> set evs"
  by (induction evs) auto

lemma nonce_window:
  assumes "tr s' = evs @ tr s" "list_all window_ev evs"
    and "m_fcnt s' = m_fcnt s" "m_fcnt_reserved s' = m_fcnt_reserved s" "m_dev_nonce s' = m_dev_nonce s"
    and "m_link_state s' = P2P_LINK_PAIRED \<Longrightarrow> m_link_state s = P2P_LINK_PAIRED
      \<and> m_session_key s' = m_session_key s \<and> m_net_id s' = m_net_id s \<and> m_retx s' = m_retx s"
    and "nonce_inv e s"
  shows "nonce_inv e s'"
  using assms
  unfolding nonce_inv_def ram_ok_def repeats_def data_hdr_def assms(1) trace_ok_def [symmetric]
  by (auto simp: window_trace [OF assms(2)] window_no_seal [OF assms(2)])

lemma nonce_listens: "listens s s' \<Longrightarrow> nonce_inv e s \<Longrightarrow> nonce_inv e s'"
  unfolding listens_def by (elim conjE exE, rule nonce_window) (auto simp: core_def)

lemma nonce_quiet: "quiet s s' \<Longrightarrow> nonce_inv e s \<Longrightarrow> nonce_inv e s'"
  using nonce_listens quiet_listens by blast

lemma nonce_leaves: "leaves s s' \<Longrightarrow> nonce_inv e s \<Longrightarrow> nonce_inv e s'"
  unfolding leaves_def
  by (elim conjE exE, rule nonce_window) (auto simp: core_def list_all_iff intro: quiet_window)

subsection \<open>Taking a counter\<close>

text \<open>\<open>c\<close> may be used for a new frame: it lies above every counter sealed in the session and below
  the window that is in flash.\<close>

definition free_counter :: "p2p_env \<Rightarrow> p2p \<Rightarrow> u32 \<Rightarrow> bool" where
  "free_counter e s c \<longleftrightarrow> (fresh e (tr s) \<longrightarrow> below (m_session_key s) c (tr s)
     \<and> c < nv_word P2P_FCNT_KEY (tr s) \<and> c < m_fcnt s)"

lemma word_Suc_gt: "c \<noteq> - 1 \<Longrightarrow> c < c + (1 :: u32)"
proof -
  assume "c \<noteq> -1"
  then have "c < -1" by (simp add: word_order.not_eq_extremum)
  moreover have "unat (-1 :: u32) = 4294967295"
    by (simp add: unsigned_minus_1_eq_mask mask_eq_exp_minus_1)
  ultimately have "unat c + 1 < 2 ^ 32" by (simp add: word_less_nat_alt)
  then show ?thesis by (simp add: word_less_nat_alt unat_Suc_small)
qed

lemma word_less_Suc_le: "c < d \<Longrightarrow> c + 1 \<le> (d :: u32)"
proof -
  assume "c < d"
  then have "unat c < unat d" by (simp add: word_less_nat_alt)
  moreover have "unat d < 2 ^ 32" using unsigned_less [of d] by simp
  ultimately show ?thesis by (simp add: word_le_nat_alt unat_Suc_small)
qed

lemma reserve_target:
  fixes c :: u32
  assumes "c \<noteq> -1"
  defines "t \<equiv> (if -1 - P2P_FCNT_RESERVE < c then -1 else c + P2P_FCNT_RESERVE)"
  shows "c < t"
proof (cases "-1 - P2P_FCNT_RESERVE < c")
  case True
  then show ?thesis using assms(1) by (simp add: t_def word_order.not_eq_extremum)
next
  case False
  then have "unat c + 256 < 2 ^ 32"
    by (simp add: P2P_FCNT_RESERVE_def word_le_nat_alt not_less)
  then have "unat (c + 256) = unat c + 256" by (simp add: unat_plus_small)
  then show ?thesis using False by (simp add: t_def P2P_FCNT_RESERVE_def word_less_nat_alt)
qed

lemma quiet_tk: "quiet s (s\<lparr>tk := n\<rparr>)"
  by (rule quiet_upd) (simp_all add: core_def)

lemma same_session_refl [simp]: "same_session s s"
  by (simp add: same_session_def)

lemma same_session_trans: "same_session s t \<Longrightarrow> same_session t u \<Longrightarrow> same_session s u"
  by (simp add: same_session_def)

text \<open>Handing out the counter \<open>m_fcnt\<close>, once it lies below the window in flash.\<close>

lemma hand_out:
  assumes "nonce_inv e s" "m_link_state s = P2P_LINK_PAIRED" "m_fcnt s \<noteq> -1"
    and "fresh e (tr s) \<Longrightarrow> m_fcnt s < m_fcnt_reserved s"
  defines "s' \<equiv> s\<lparr>m_fcnt := m_fcnt s + 1\<rparr>"
  shows "nonce_inv e s'" "free_counter e s' (m_fcnt s)"
proof -
  note gt = word_Suc_gt [OF assms(3)]
  show "nonce_inv e s'"
    using assms(1) by (rule nonce_update)
      (use gt assms(4) in \<open>auto simp: s'_def ram_ok_def repeats_def data_hdr_def
         intro: below_mono order_less_imp_le order_less_trans word_less_Suc_le\<close>)
  show "free_counter e s' (m_fcnt s)"
    using nonce_invD [OF assms(1)] assms(2,4) gt
    by (auto simp: free_counter_def s'_def ram_ok_def)
qed

lemma fcnt_next_nonce:
  assumes "nonce_inv e s" "m_link_state s = P2P_LINK_PAIRED" "fcnt_next e s = (r, s')"
  shows "nonce_inv e s'" "same_session s s'" "suffix (tr s) (tr s')"
    "r = Inr c \<Longrightarrow> free_counter e s' c"
proof -
  have "nonce_inv e s' \<and> same_session s s' \<and> suffix (tr s) (tr s') \<and> (r = Inr c \<longrightarrow> free_counter e s' c)"
  proof (cases "m_fcnt s = -1")
    case True
    then show ?thesis using assms by (auto simp: fcnt_next_def)
  next
    case False
    show ?thesis
    proof (cases "m_fcnt_reserved s \<le> m_fcnt s")
      case wait: False
      then have "m_fcnt s < m_fcnt_reserved s" by simp
      then show ?thesis
        using hand_out [OF assms(1,2) False] assms(3) False wait
        by (auto simp: fcnt_next_def same_session_def)
    next
      case True
      define w where "w = (if -1 - P2P_FCNT_RESERVE < m_fcnt s then -1 else m_fcnt s + P2P_FCNT_RESERVE)"
      have lt: "m_fcnt s < w" unfolding w_def by (rule reserve_target [OF False])
      obtain ret s1 where res: "fcnt_reserve e w s = (ret, s1)" by fastforce
      obtain sv s0 where sv: "settings_save_one e P2P_FCNT_KEY (put_le32 w) s = (sv, s0)" by fastforce
      from sv show ?thesis
      proof (cases rule: save_cases)
        case (fail err)
        then have "r = Inl err" "s' = s\<lparr>tk := tk s + 1\<rparr>"
          using assms(3) res sv False True
          by (auto simp: fcnt_next_def fcnt_reserve_def w_def [symmetric])
        then show ?thesis
          using nonce_quiet [OF quiet_tk assms(1)] by (simp add: same_session_def)
      next
        case ok
        define s2 where "s2 = (emit (V_save P2P_FCNT_KEY (put_le32 w)) (s\<lparr>tk := tk s + 1\<rparr>))
            \<lparr>m_fcnt_reserved := w\<rparr>"
        have s': "r = Inr (m_fcnt s2)" "s' = s2\<lparr>m_fcnt := m_fcnt s2 + 1\<rparr>" and fc: "m_fcnt s2 = m_fcnt s"
          using assms(3) res sv ok False True
          by (auto simp: fcnt_next_def fcnt_reserve_def w_def [symmetric] s2_def emit_def)
        have le: "nv_word P2P_FCNT_KEY (tr s) \<le> w" if "ram_ok e s"
          using that True lt by (auto simp: ram_ok_def)
        have inv2: "nonce_inv e s2"
        proof (rule nonce_step [OF assms(1)])
          show "tr s2 = V_save P2P_FCNT_KEY (put_le32 w) # tr s" by (simp add: s2_def emit_def)
        next
          assume o: "sealed_ok e (tr s)" "ram_ok e s"
          have "sealed_ok e (V_save P2P_FCNT_KEY (put_le32 w) # tr s)"
            using o(1) by (rule sealed_save_fcnt) (use o le in \<open>auto simp: sealed_ok_def intro: below_mono\<close>)
          then show "sealed_ok e (V_save P2P_FCNT_KEY (put_le32 w) # tr s) \<and> ram_ok e s2"
            using o(2) lt by (auto simp: ram_ok_def s2_def emit_def repeats_def data_hdr_def)
        qed
        have link: "m_link_state s2 = P2P_LINK_PAIRED" "m_fcnt s2 \<noteq> -1"
          "m_fcnt s2 < m_fcnt_reserved s2"
          using assms(2) False lt by (simp_all add: s2_def emit_def)
        show ?thesis
          using hand_out [OF inv2 link(1,2)] link(3) s' fc
          by (auto simp: s2_def emit_def same_session_def suffix_Cons)
      qed
    qed
  qed
  then show "nonce_inv e s'" "same_session s s'" "suffix (tr s) (tr s')"
    "r = Inr c \<Longrightarrow> free_counter e s' c" by simp_all
qed

lemma counter_next_nonce:
  assumes "nonce_inv e s" "m_link_state s = P2P_LINK_PAIRED" "twr_counter_next e s = (r, s')"
  shows "nonce_inv e s'" "same_session s s'" "suffix (tr s) (tr s')"
    "r = Inr c \<Longrightarrow> free_counter e s' c"
proof -
  obtain r1 s1 where 1: "fcnt_next e s = (r1, s1)" by fastforce
  note n1 = fcnt_next_nonce [OF assms(1,2) 1]
  have l1: "m_link_state s1 = P2P_LINK_PAIRED" using n1(2) assms(2) by (simp add: same_session_def)
  have "nonce_inv e s' \<and> same_session s s' \<and> suffix (tr s) (tr s') \<and> (r = Inr c \<longrightarrow> free_counter e s' c)"
  proof (cases "r1 = Inr 0")
    case True
    then have "fcnt_next e s1 = (r, s')" using assms(3) 1 by (simp add: twr_counter_next_def)
    note n2 = fcnt_next_nonce [OF n1(1) l1 this]
    show ?thesis
      using n2 n1(2,3) by (auto intro: same_session_trans suffix_order.trans)
  next
    case False
    then show ?thesis
      using assms(3) 1 n1 by (auto simp: twr_counter_next_def split: sum.splits)
  qed
  then show "nonce_inv e s'" "same_session s s'" "suffix (tr s) (tr s')"
    "r = Inr c \<Longrightarrow> free_counter e s' c" by simp_all
qed

subsection \<open>Sealing in a session\<close>

lemma seal_nonce:
  assumes inv: "nonce_inv e s" and link: "m_link_state s = P2P_LINK_PAIRED"
    and c: "fresh e (tr s) \<Longrightarrow> sealed_ok e (tr s) \<Longrightarrow> ram_ok e s \<Longrightarrow> h_counter h < m_fcnt s
      \<and> one_use (V_seal (m_session_key s) h pt # tr s)"
    and rx: "rx = m_retx s \<or> rx = None \<or>
      rx = Some \<lparr>rt_counter = h_counter h, rt_pt = pt\<rparr> \<and> h = data_hdr e s True (h_counter h)"
  shows "nonce_inv e ((emit (V_seal (m_session_key s) h pt) s)\<lparr>m_retx := rx\<rparr>)" (is "nonce_inv e ?s'")
proof (rule nonce_step [OF inv])
  show "tr ?s' = V_seal (m_session_key s) h pt # tr s" by (simp add: emit_def)
next
  assume f: "fresh e (tr s)" and o: "sealed_ok e (tr s)" and r: "ram_ok e s"
  from r link have key: "nv_key (tr s) = Some (m_session_key s)"
    and le: "m_fcnt s \<le> nv_word P2P_FCNT_KEY (tr s)" by (auto simp: ram_ok_def)
  from f key have "m_session_key s \<notin> join_keys e" using nv_key_fresh by (auto simp: fresh_def)
  moreover have "h_counter h < nv_word P2P_FCNT_KEY (tr s)" using c [OF f o r] le by (auto intro: order_less_le_trans)
  ultimately have "sealed_ok e (V_seal (m_session_key s) h pt # tr s)"
    using o key c [OF f o r] by (intro sealed_seal_session) simp_all
  moreover have "ram_ok e ?s'"
    using r rx link c [OF f o r] by (auto simp: ram_ok_def emit_def repeats_def data_hdr_def)
  ultimately show "sealed_ok e (V_seal (m_session_key s) h pt # tr s) \<and> ram_ok e ?s'" by blast
qed

text \<open>A fresh counter.\<close>

lemma seal_free:
  assumes "free_counter e s (h_counter h)"
  shows "fresh e (tr s) \<Longrightarrow> sealed_ok e (tr s) \<Longrightarrow> ram_ok e s \<Longrightarrow> h_counter h < m_fcnt s
      \<and> one_use (V_seal (m_session_key s) h pt # tr s)"
  using assms by (auto simp: free_counter_def sealed_ok_def intro: one_use_fresh)

text \<open>What an operation within an exchange keeps.\<close>

definition stays :: "p2p_env \<Rightarrow> p2p \<Rightarrow> p2p \<Rightarrow> bool" where
  "stays e s s' \<longleftrightarrow> suffix (tr s) (tr s') \<and> m_link_state s' = m_link_state s \<and>
     (m_link_state s = P2P_LINK_PAIRED \<longrightarrow> nonce_inv e s \<longrightarrow> nonce_inv e s')"

lemma stays_trans [trans]: "stays e s t \<Longrightarrow> stays e t u \<Longrightarrow> stays e s u"
  by (auto simp: stays_def intro: suffix_order.trans)

lemma listens_stays: "listens s s' \<Longrightarrow> stays e s s'"
  using nonce_listens by (auto simp: stays_def listens_def suffix_def)

lemma quiet_stays: "quiet s s' \<Longrightarrow> stays e s s'"
  using listens_stays quiet_listens by blast

lemma stays_refl [simp]: "stays e s s"
  by (simp add: quiet_stays)

lemma exchange_seal_stays:
  assumes "exchange_seal e pt confirmed attempt s = (r, s')" "0 < attempt \<longrightarrow> confirmed"
  shows "stays e s s'"
proof -
  obtain c s1 where c: "(if 0 < attempt then
           (case retx_counter pt s of Some c \<Rightarrow> (Inr c, s) | None \<Rightarrow> twr_counter_next e s)
         else twr_counter_next e s) = (c, s1)" by fastforce
  define h where "h k = data_hdr e s1 confirmed k" for k
  define rx where "rx k = (if confirmed \<and> attempt \<noteq> P2P_NOT_RETRIED
      then Some \<lparr>rt_counter = k, rt_pt = pt\<rparr> else None)" for k :: u32
  have s': "s' = s1 \<or> (\<exists>k. c = Inr k \<and>
      s' = (emit (V_seal (m_session_key s1) (h k) pt) s1)\<lparr>m_retx := rx k\<rparr>)"
    using assms(1) c by (auto simp: exchange_seal_def Let_def h_def rx_def split: sum.splits prod.splits)
  have hk: "h_counter (h k) = k" and rxk: "rx k = m_retx s1 \<or> rx k = None \<or>
      rx k = Some \<lparr>rt_counter = h_counter (h k), rt_pt = pt\<rparr> \<and> h k = data_hdr e s1 True (h_counter (h k))" for k
    by (auto simp: h_def rx_def data_hdr_def)
  show ?thesis
  proof (cases "\<exists>k. 0 < attempt \<and> retx_counter pt s = Some k")
    case True
    then obtain k where k: "0 < attempt" "retx_counter pt s = Some k" by blast
    then have ck: "c = Inr k" "s1 = s" using c by auto
    obtain \<rho> where \<rho>: "m_retx s = Some \<rho>" "rt_pt \<rho> = pt" "rt_counter \<rho> = k"
      using k(2) by (auto simp: retx_counter_def split: option.splits if_splits)
    have conf: "confirmed" using assms(2) k(1) by simp
    have "nonce_inv e ((emit (V_seal (m_session_key s) (h k) pt) s)\<lparr>m_retx := rx k\<rparr>)"
      if "nonce_inv e s" "m_link_state s = P2P_LINK_PAIRED"
    proof (rule seal_nonce [OF that])
      assume o: "sealed_ok e (tr s)" "ram_ok e s"
      have m: "V_seal (m_session_key s) (h k) pt \<in> set (tr s)"
        using o(2) that(2) \<rho> conf ck(2) by (auto simp: ram_ok_def repeats_def h_def)
      moreover have "h_counter (h k) < m_fcnt s"
        using m o(2) that(2) unfolding ram_ok_def below_def by blast
      moreover have "one_use (V_seal (m_session_key s) (h k) pt # tr s)"
        unfolding one_use_seal
        using m o(1) unfolding sealed_ok_def one_use_def by blast
      ultimately show "h_counter (h k) < m_fcnt s \<and> one_use (V_seal (m_session_key s) (h k) pt # tr s)"
        by blast
    qed (use rxk [of k] ck(2) in simp)
    then show ?thesis using s' ck by (auto simp: stays_def emit_def suffix_Cons)
  next
    case False
    then have n: "twr_counter_next e s = (c, s1)" using c by (auto split: if_splits option.splits)
    note cn = counter_next_nonce [OF _ _ n]
    from counts_counter [OF n] have l: "suffix (tr s) (tr s1)" "m_link_state s1 = m_link_state s"
      by (auto simp: counts_def same_session_def suffix_def)
    show ?thesis
    proof (cases "s' = s1")
      case True
      then show ?thesis using cn(1) l by (auto simp: stays_def)
    next
      case False
      then obtain k where k: "c = Inr k" "s' = (emit (V_seal (m_session_key s1) (h k) pt) s1)\<lparr>m_retx := rx k\<rparr>"
        using s' by blast
      have "nonce_inv e s'" if "nonce_inv e s" "m_link_state s = P2P_LINK_PAIRED"
      proof -
        have "free_counter e s1 (h_counter (h k))" using cn(4) [OF that k(1)] by (simp add: hk)
        then show ?thesis
          unfolding k(2) using cn(1) [OF that] l(2) that(2) rxk
          by (intro seal_nonce seal_free) simp_all
      qed
      then show ?thesis using l k(2) by (auto simp: stays_def emit_def suffix_Cons)
    qed
  qed
qed

lemma counter_stays: "twr_counter_next e s = (r, s') \<Longrightarrow> stays e s s'"
  using counter_next_nonce(1) [of e s r s'] counts_counter [of e s r s']
  by (auto simp: stays_def counts_def same_session_def suffix_def)

lemma auto_ack_stays: "stays e s (p2p_auto_ack e x s)"
proof -
  define ms where "ms = frame_toa_ms e s TWR_ACK_FRAME_LEN"
  obtain w s1 where w: "duty_wait ms s = (w, s1)" by fastforce
  obtain c s2 where c: "twr_counter_next e s1 = (c, s2)" by fastforce
  have 1: "stays e s s1" using quiet_duty_wait [OF w] by (rule quiet_stays)
  have 2: "stays e s s2" using 1 counter_stays [OF c] by (rule stays_trans)
  show ?thesis
  proof (cases "0 < w \<or> (\<exists>err. c = Inl err)")
    case True
    then show ?thesis
      using 1 2 w c by (auto simp: p2p_auto_ack_def Let_def ms_def [symmetric])
  next
    case False
    then obtain k where k: "c = Inr k" by (cases c) auto
    define h where "h = ack_hdr e s2 k"
    define pt where "pt = put_le32 (x_dl_counter x) @ [word_of_int (clamp_i8 (x_dl_rssi x)), 0]"
    define s3 where "s3 = emit (V_seal (m_session_key s2) h pt) s2"
    have link: "m_link_state s2 = m_link_state s1"
      using counts_counter [OF c] by (simp add: counts_def same_session_def)
    have "nonce_inv e s3" if "nonce_inv e s1" "m_link_state s1 = P2P_LINK_PAIRED"
    proof -
      have f: "free_counter e s2 (h_counter h)"
        using counter_next_nonce(4) [OF that c k] by (simp add: h_def ack_hdr_def)
      have "nonce_inv e ((emit (V_seal (m_session_key s2) h pt) s2)\<lparr>m_retx := m_retx s2\<rparr>)"
        using counter_next_nonce(1) [OF that c] link that(2) seal_free [OF f]
        by (intro seal_nonce) simp_all
      then show ?thesis by (simp add: s3_def emit_def)
    qed
    then have "stays e s1 s3"
      using stays_trans [OF counter_stays [OF c]] link counts_counter [OF c]
      by (auto simp: stays_def s3_def emit_def counts_def suffix_def)
    then have 3: "stays e s s3" using 1 stays_trans by blast
    show ?thesis
    proof (cases "twr_seal (pe_aes e) (m_session_key s2) h pt TWR_ACK_FRAME_LEN")
      case (Inl err)
      then show ?thesis
        using False 2 w c k
        by (simp add: p2p_auto_ack_def Let_def ms_def [symmetric] h_def pt_def)
    next
      case (Inr frame)
      obtain ret s4 where r: "radio_configure e s3 = (ret, s4)" by fastforce
      define s5 where "s5 = k_sleep (uint P2P_TURNAROUND_MS - (now s4 - x_dl_at x)) s4"
      obtain ret2 s6 where q: "lora_send e frame s5 = (ret2, s6)" by fastforce
      have 4: "quiet s3 s4" by (rule quiet_configure [OF r])
      have 6: "quiet s3 s6"
        using 4 quiet_sleep quiet_send [OF q] unfolding s5_def by (blast intro: quiet_trans)
      have st: "stays e s u" if "quiet s3 u" for u
        using 3 quiet_stays [OF that] by (rule stays_trans)
      have "quiet s3 (snd (tx_send_failed e (length frame) s6))"
        using 6 quiet_send_failed [OF surjective_pairing] by (rule quiet_trans)
      then show ?thesis
        using False w c k Inr r q quiet_trans [OF 6 quiet_charge] 4
        by (auto simp: p2p_auto_ack_def Let_def ms_def [symmetric] h_def [symmetric] pt_def [symmetric]
            s3_def [symmetric] s5_def [symmetric] split: option.split
            intro: st)
    qed
  qed
qed

lemma rep_stays:
  "exchange_rep e frame ms confirmed c n x s = (ret, stop, x', s') \<Longrightarrow> stays e s s'"
proof -
  assume rep: "exchange_rep e frame ms confirmed c n x s = (ret, stop, x', s')"
  obtain held s1 where h: "(if n = 0 then (False, s)
         else (let (r, s0) = ask (pe_rand e) s;
                   (w, s0') = duty_wait ms (k_sleep (uint (r mod (P2P_BACKOFF_MAX_MS + 1))) s0)
               in (0 < w, s0'))) = (held, s1)" by fastforce
  have "quiet s s1"
    using h by (auto split: if_splits prod.splits dest!: quiet_ask quiet_duty_wait
        intro: quiet_trans quiet_sleep) (meson quiet_trans quiet_sleep)+
  then have 1: "stays e s s1" by (rule quiet_stays)
  obtain err done_at s2 where t: "p2p_tx_once e frame ms confirmed s1 = (err, done_at, s2)"
    using prod_cases3 by blast
  have 2: "stays e s s2" using 1 quiet_stays [OF quiet_tx_once [OF t]] by (rule stays_trans)
  obtain x2 s3 where a: "exchange_ack e c (x\<lparr>x_sent := x_sent x + 1, x_done_ms := done_at\<rparr>) s2 = (x2, s3)"
    by fastforce
  have 3: "stays e s s3" using 2 listens_stays [OF listens_exchange_ack [OF a]] by (rule stays_trans)
  have 4: "stays e s (p2p_auto_ack e x2 s3)" using 3 auto_ack_stays by (rule stays_trans)
  show ?thesis
    using rep 1 2 3 4 unfolding exchange_rep_def h unfolding Let_def prod.case t a
    by (auto split: if_splits option.splits)
qed

lemma reps_stays:
  "exchange_reps e frame ms confirmed c n left x s = (ret, x', s') \<Longrightarrow> stays e s s'"
proof (induction left arbitrary: n x s)
  case (Suc left)
  obtain r stop x1 s1 where rep: "exchange_rep e frame ms confirmed c n x s = (r, stop, x1, s1)"
    using prod_cases4 by blast
  show ?case
  proof (cases stop)
    case True
    then show ?thesis using Suc.prems rep rep_stays [OF rep] by simp
  next
    case False
    then have "exchange_reps e frame ms confirmed c (n + 1) left x1 s1 = (ret, x', s')"
      using Suc.prems rep by simp
    from stays_trans [OF rep_stays [OF rep] Suc.IH [OF this]] show ?thesis .
  qed
qed simp

text \<open>What every event keeps.\<close>

definition keeps :: "p2p_env \<Rightarrow> p2p \<Rightarrow> p2p \<Rightarrow> bool" where
  "keeps e s s' \<longleftrightarrow> (block_cipher (pe_aes e) \<longrightarrow>
     suffix (tr s) (tr s') \<and> (nonce_inv e s \<longrightarrow> nonce_inv e s'))"

lemma keeps_trans: "keeps e s t \<Longrightarrow> keeps e t u \<Longrightarrow> keeps e s u"
  by (auto simp: keeps_def intro: suffix_order.trans)

lemma quiet_keeps: "quiet s s' \<Longrightarrow> keeps e s s'"
  using nonce_quiet by (auto simp: keeps_def quiet_def suffix_def)

lemma leaves_keeps: "leaves s s' \<Longrightarrow> keeps e s s'"
  using nonce_leaves by (auto simp: keeps_def leaves_def suffix_def)

lemma exchange_keeps:
  assumes "p2p_exchange e pt confirmed attempt s = (r, x, s')" "0 < attempt \<longrightarrow> confirmed"
  shows "keeps e s s'"
proof -
  obtain g s1 where g: "exchange_gate e (length pt) s = (g, s1)" by fastforce
  have q: "quiet s s1" by (rule quiet_gate [OF g])
  show ?thesis
  proof (cases g)
    case (Some err)
    then show ?thesis using assms g quiet_keeps [OF q] by (simp add: p2p_exchange_def)
  next
    case None
    then have "m_link_state s = P2P_LINK_PAIRED"
      using g by (auto simp: exchange_gate_def Let_def split: if_splits)
    then have link: "m_link_state s1 = P2P_LINK_PAIRED" using q by (simp add: quiet_def)
    obtain c s2 where c: "exchange_seal e pt confirmed attempt s1 = (c, s2)" by fastforce
    have 2: "stays e s1 s2" by (rule exchange_seal_stays [OF c assms(2)])
    have "stays e s1 s'"
    proof (cases c)
      case (Inl err)
      then show ?thesis using assms(1) g None c 2 by (simp add: p2p_exchange_def)
    next
      case (Inr a)
      obtain k frame where a: "a = (k, frame)" by (cases a)
      define ms where "ms = frame_toa_ms e s (TWR_HDR_LEN + length pt + TWR_TAG_LEN)"
      obtain ret x3 s3 where reps: "exchange_reps e frame ms confirmed k 0
          (if confirmed then P2P_REPS else 1) (xfer0\<lparr>x_counter := k\<rparr>) s2 = (ret, x3, s3)"
        using prod_cases3 by blast
      define s4 where "s4 = snd (radio_configure e s3)"
      define s5 where "s5 = s4\<lparr>m_link_idle_at := now s4 + P2P_TX_GAP_MS\<rparr>"
      have "quiet s3 s4" unfolding s4_def by (rule quiet_configure [OF surjective_pairing])
      moreover have "quiet s4 s5" by (rule quiet_upd) (simp_all add: s5_def core_def)
      ultimately have q5: "quiet s3 s5" by (rule quiet_trans)
      have 3: "stays e s1 s3" using 2 reps_stays [OF reps] by (rule stays_trans)
      have s': "s' = s5 \<or> s' = call C_note_send s5"
        using assms(1) g None c Inr a reps
        by (auto simp: p2p_exchange_def Let_def ms_def [symmetric] s4_def [symmetric] s5_def [symmetric]
            split: if_splits)
      then have "quiet s3 s'" using q5 quiet_call [OF q5] by blast
      then show ?thesis using 3 quiet_stays stays_trans by blast
    qed
    then have "keeps e s1 s'" using link by (auto simp: keeps_def stays_def)
    then show ?thesis using quiet_keeps [OF q] keeps_trans by blast
  qed
qed

subsection \<open>Pairing\<close>

lemma length_app_ccm_cmac: "block_cipher E \<Longrightarrow> length (app_ccm_cmac E key msg) = 16"
  by (simp add: app_ccm_cmac_def Let_def)

lemma rec_key_record: "length key = 16 \<Longrightarrow> rec_key (pairing_record e ja key) = key"
  by (simp add: rec_key_def pairing_record_def P2P_KEY_LEN_def)

text \<open>The session as the save leaves it, and the restart of its counter.\<close>

lemma new_session_nonce:
  assumes "nonce_inv e s" "length key = 16" "rec_key v = key"
    and "tr u = V_save P2P_JOIN_STATE_KEY v # tr s" "m_fcnt u = m_fcnt s"
    "m_fcnt_reserved u = m_fcnt_reserved s" "m_dev_nonce u = m_dev_nonce s" "m_session_key u = key"
    "m_retx u = None"
  shows "nonce_inv e u"
proof (rule nonce_step [OF assms(1,4)])
  assume f: "fresh e (V_save P2P_JOIN_STATE_KEY v # tr s)" and o: "sealed_ok e (tr s)" and r: "ram_ok e s"
  from f have un: "unused key (tr s)" by (simp add: fresh_def assms(3))
  show "sealed_ok e (V_save P2P_JOIN_STATE_KEY v # tr s) \<and> ram_ok e u"
    using o r un assms by (auto simp: ram_ok_def sealed_save_state unused_below)
qed

lemma restart_nonce:
  assumes "nonce_inv e s" "\<And>c. fresh e (tr s) \<Longrightarrow> below (m_session_key s) c (tr s)" "m_retx s = None"
    and "m_link_state s = P2P_LINK_PAIRED"
    and "fcnt_reserve e P2P_FCNT_RESERVE (s\<lparr>m_fcnt := 0\<rparr>) = (ret, s')"
  shows "nonce_inv e s'"
proof -
  define u where "u = s\<lparr>m_fcnt := 0\<rparr>"
  have u: "nonce_inv e u"
    using assms(1) by (rule nonce_update) (use assms(2,3) in \<open>auto simp: u_def ram_ok_def\<close>)
  obtain sv s0 where sv: "settings_save_one e P2P_FCNT_KEY (put_le32 P2P_FCNT_RESERVE) u = (sv, s0)" by fastforce
  from sv show ?thesis
  proof (cases rule: save_cases)
    case (fail err)
    then have "s' = u\<lparr>tk := tk u + 1\<rparr>" using assms(5) sv by (simp add: fcnt_reserve_def u_def [symmetric])
    then show ?thesis using nonce_quiet [OF quiet_tk u] by simp
  next
    case ok
    then have s': "s' = (emit (V_save P2P_FCNT_KEY (put_le32 P2P_FCNT_RESERVE)) (u\<lparr>tk := tk u + 1\<rparr>))
        \<lparr>m_fcnt_reserved := P2P_FCNT_RESERVE\<rparr>"
      using assms(5) sv by (simp add: fcnt_reserve_def u_def [symmetric])
    show ?thesis
    proof (rule nonce_step [OF u])
      show "tr s' = V_save P2P_FCNT_KEY (put_le32 P2P_FCNT_RESERVE) # tr u" by (simp add: s' emit_def)
    next
      assume f: "fresh e (tr u)" and o: "sealed_ok e (tr u)" and r: "ram_ok e u"
      have z: "nv_key (tr u) = Some K \<Longrightarrow> below K P2P_FCNT_RESERVE (tr u)" for K
        using r assms(2,4) f by (auto simp: ram_ok_def u_def)
      show "sealed_ok e (V_save P2P_FCNT_KEY (put_le32 P2P_FCNT_RESERVE) # tr u) \<and> ram_ok e s'"
        using o r z assms(3) by (auto simp: s' u_def emit_def ram_ok_def intro: sealed_save_fcnt)
    qed
  qed
qed

lemma pairing_persist_keeps:
  assumes "length key = 16" "pairing_persist e ja key keep s = (ret, s')"
  shows "keeps e s s'"
proof -
  let ?v = "pairing_record e ja key"
  obtain sv s1 where sv: "settings_save_one e P2P_JOIN_STATE_KEY ?v s = (sv, s1)" by fastforce
  from sv show ?thesis
  proof (cases rule: save_cases)
    case (fail err)
    then have "s' = s1" using assms(2) sv by (simp add: pairing_persist_def)
    then show ?thesis using quiet_keeps [OF quiet_tk] fail by simp
  next
    case ok
    define u where "u = (emit (V_save P2P_JOIN_STATE_KEY ?v) (s\<lparr>tk := tk s + 1\<rparr>))
        \<lparr>m_net_id := ja_net_id ja, m_session_key := key,
          m_rx_delay_s := ja_rx_delay_s ja, m_session_tx_power := ja_tx_power ja,
          m_link_state := P2P_LINK_PAIRED,
          m_gw_last := 0, m_last_ack_rssi := None, m_lc := None, m_lc_outstanding := False,
          m_time_req := None, m_answer_reports := 0, m_ctrl_pending := 0, m_ctrl_tries := 0,
          m_retx := None, m_drains := 0, m_home_gw := None\<rparr>"
    define s2 where "s2 = call (C_backoff 0) u"
    have s': "(ret, s') = (if keep then (None, s2)
        else (None, snd (fcnt_reserve e P2P_FCNT_RESERVE (s2\<lparr>m_fcnt := 0\<rparr>))))"
      using assms(2) sv ok by (auto simp: pairing_persist_def s2_def u_def session_reset_def Let_def split: if_splits)
    have tru: "tr u = V_save P2P_JOIN_STATE_KEY ?v # tr s" by (simp add: u_def emit_def)
    have q: "quiet u s2" unfolding s2_def by (rule quiet_call) simp
    have u: "nonce_inv e u" if "nonce_inv e s"
      by (rule new_session_nonce [OF that assms(1) rec_key_record [OF assms(1)] tru]) (simp_all add: u_def emit_def)
    then have s2: "nonce_inv e s2" if "nonce_inv e s" using nonce_quiet [OF q] that by blast
    obtain r3 s3 where r3: "fcnt_reserve e P2P_FCNT_RESERVE (s2\<lparr>m_fcnt := 0\<rparr>) = (r3, s3)" by fastforce
    have "below (m_session_key s2) c (tr s2)" if "fresh e (tr s2)" for c
      using that rec_key_record [OF assms(1), of e ja]
      by (auto simp: s2_def u_def emit_def fresh_def unused_below)
    then have "nonce_inv e s3" if "nonce_inv e s"
      using restart_nonce [OF s2 [OF that] _ _ _ r3] by (simp add: s2_def u_def emit_def)
    moreover have "suffix (tr s) (tr s3)"
      using counts_reserve [OF r3] by (auto simp: counts_def s2_def u_def emit_def suffix_def)
    moreover have "suffix (tr s) (tr s2)" by (simp add: s2_def u_def emit_def suffix_Cons)
    ultimately show ?thesis using s' s2 r3 by (auto simp: keeps_def split: if_splits)
  qed
qed

lemma pairing_clear_keeps: "pairing_clear e s = (ret, s') \<Longrightarrow> keeps e s s'"
proof -
  assume c: "pairing_clear e s = (ret, s')"
  obtain d s1 where d: "settings_delete e P2P_JOIN_STATE_KEY s = (d, s1)" by fastforce
  have s1: "s1 = s\<lparr>tk := tk s + 1\<rparr> \<or> s1 = emit (V_delete P2P_JOIN_STATE_KEY) (s\<lparr>tk := tk s + 1\<rparr>)"
    using d by (auto simp: settings_delete_def ask_def split: option.splits)
  define u where "u = s1\<lparr>m_link_state := P2P_LINK_UNPAIRED, m_started := False, m_session_tx_power := None,
      m_gw_last := 0, m_last_ack_rssi := None, m_lc := None, m_lc_outstanding := False,
      m_time_req := None, m_answer_reports := 0, m_ctrl_pending := 0, m_ctrl_tries := 0,
      m_retx := None, m_drains := 0, m_home_gw := None\<rparr>"
  have s': "s' = call (C_backoff 0) u"
    using c d by (simp add: pairing_clear_def session_reset_def u_def)
  have q: "quiet u s'" unfolding s' by (rule quiet_call) simp
  have "nonce_inv e u" if n: "nonce_inv e s"
  proof (cases "tr s1 = tr s")
    case True
    show ?thesis
      by (rule nonce_window [where evs = "[]", OF _ _ _ _ _ _ n])
        (use True s1 in \<open>auto simp: u_def emit_def\<close>)
  next
    case False
    then have t: "tr u = V_delete P2P_JOIN_STATE_KEY # tr s" using s1 by (auto simp: u_def emit_def)
    show ?thesis
      by (rule nonce_step [OF n t]) (use s1 in \<open>auto simp: u_def emit_def ram_ok_def sealed_delete\<close>)
  qed
  moreover have "suffix (tr s) (tr u)" using s1 by (auto simp: u_def emit_def suffix_Cons)
  ultimately show ?thesis
    using nonce_quiet [OF q] by (auto simp: keeps_def s' emit_def suffix_Cons)
qed

subsection \<open>Joining\<close>

definition join_free :: "p2p_env \<Rightarrow> p2p \<Rightarrow> bytes \<Rightarrow> u32 \<Rightarrow> bool" where
  "join_free e s K c \<longleftrightarrow>
     (fresh e (tr s) \<longrightarrow> below K c (tr s) \<and> c < nv_word P2P_JOIN_DNONCE_KEY (tr s))"

lemma join_free_listens: "listens s s' \<Longrightarrow> join_free e s K c \<Longrightarrow> join_free e s' K c"
  unfolding listens_def join_free_def by (auto simp: window_trace)

lemma join_seal_nonce:
  assumes "nonce_inv e s" "K \<in> join_keys e" "join_free e s K (h_counter h)"
  shows "nonce_inv e (emit (V_seal K h pt) s)"
proof (rule nonce_step [OF assms(1)])
  show "tr (emit (V_seal K h pt) s) = V_seal K h pt # tr s" by (simp add: emit_def)
next
  assume f: "fresh e (tr s)" and o: "sealed_ok e (tr s)" and r: "ram_ok e s"
  have k: "nv_key (tr s) = Some K' \<Longrightarrow> K' \<notin> join_keys e" for K'
    using f nv_key_fresh by (auto simp: fresh_def)
  have "sealed_ok e (V_seal K h pt # tr s)"
    using o assms(2,3) f k by (intro sealed_seal_join) (simp_all add: join_free_def)
  moreover have "ram_ok e (emit (V_seal K h pt) s)"
    using r k assms(2) by (auto simp: ram_ok_def emit_def repeats_def data_hdr_def)
  ultimately show "sealed_ok e (V_seal K h pt # tr s) \<and> ram_ok e (emit (V_seal K h pt) s)" by blast
qed

text \<open>The counters of a join are saved as spent before they are sealed: \<open>n\<close> of them.\<close>

lemma dnonce_step:
  fixes c n :: u32
  assumes "1 \<le> c" "n = 1 \<or> n = 2" "2 \<le> c + n"
  shows "c < c + n" "n = 2 \<Longrightarrow> c < c + 1 \<and> c + 1 < c + 2"
proof -
  have "\<not> 2 ^ 32 \<le> unat c + unat n"
  proof
    assume w: "2 ^ 32 \<le> unat c + unat n"
    have "unat c < 2 ^ 32" using unsigned_less [of c] by simp
    then have "unat (c + n) = unat c + unat n - 2 ^ 32"
      using w assms(2) by (auto simp: unat_word_ariths le_mod_geq)
    then show False using \<open>unat c < 2 ^ 32\<close> assms(2,3) by (auto simp: word_le_nat_alt)
  qed
  then have "unat (c + n) = unat c + unat n" by (simp add: unat_plus_small)
  then show "c < c + n" using assms(2) by (auto simp: word_less_nat_alt)
  show "n = 2 \<Longrightarrow> c < c + 1 \<and> c + 1 < c + 2"
    using \<open>\<not> 2 ^ 32 \<le> unat c + unat n\<close>
    by (simp add: word_less_nat_alt unat_plus_small unat_Suc_small)
qed

lemma dnonce_persist_nonce:
  assumes "dnonce_persist e (c + n) s = (ret, s')" "c = max (m_dev_nonce s) 1" "n = 1 \<or> n = 2"
    and "nonce_inv e s" "K \<in> join_keys e"
  shows "nonce_inv e s'" "ret = None \<Longrightarrow> join_free e s' K c"
    "ret = None \<Longrightarrow> n = 2 \<Longrightarrow> fresh e (tr s') \<Longrightarrow> c < c + 1 \<and> c + 1 < nv_word P2P_JOIN_DNONCE_KEY (tr s')"
    "suffix (tr s) (tr s')"
proof -
  obtain sv s1 where sv: "settings_save_one e P2P_JOIN_DNONCE_KEY (put_le32 (c + n)) s = (sv, s1)" by fastforce
  have c1: "1 \<le> c" and dc: "m_dev_nonce s \<le> c" by (simp_all add: assms(2))
  from sv have "nonce_inv e s' \<and> (ret = None \<longrightarrow> join_free e s' K c) \<and>
    (ret = None \<longrightarrow> n = 2 \<longrightarrow> fresh e (tr s') \<longrightarrow> c < c + 1 \<and> c + 1 < nv_word P2P_JOIN_DNONCE_KEY (tr s'))
    \<and> suffix (tr s) (tr s')"
  proof (cases rule: save_cases)
    case (fail err)
    then have "ret = Some err" "s' = s\<lparr>tk := tk s + 1\<rparr>" using assms(1) sv by (simp_all add: dnonce_persist_def)
    then show ?thesis using nonce_quiet [OF quiet_tk assms(4)] by simp
  next
    case ok
    then have s': "ret = None" "s' = (emit (V_save P2P_JOIN_DNONCE_KEY (put_le32 (c + n))) (s\<lparr>tk := tk s + 1\<rparr>))
        \<lparr>m_dev_nonce := c + n\<rparr>"
      using assms(1) sv by (simp_all add: dnonce_persist_def)
    have t: "tr s' = V_save P2P_JOIN_DNONCE_KEY (put_le32 (c + n)) # tr s" by (simp add: s' emit_def)
    have lt: "c < c + n" "n = 2 \<Longrightarrow> c < c + 1 \<and> c + 1 < c + 2"
      if "fresh e (V_save P2P_JOIN_DNONCE_KEY (put_le32 (c + n)) # tr s)"
      using dnonce_step [OF c1 assms(3)] that by (simp_all add: fresh_def)
    have inv: "nonce_inv e s'"
    proof (rule nonce_step [OF assms(4) t])
      assume f: "fresh e (V_save P2P_JOIN_DNONCE_KEY (put_le32 (c + n)) # tr s)"
        and o: "sealed_ok e (tr s)" and r: "ram_ok e s"
      have "nv_word P2P_JOIN_DNONCE_KEY (tr s) \<le> c + n"
        using r dc lt(1) [OF f] by (auto simp: ram_ok_def)
      then show "sealed_ok e (V_save P2P_JOIN_DNONCE_KEY (put_le32 (c + n)) # tr s) \<and> ram_ok e s'"
        using o r by (auto simp: sealed_save_dnonce s' ram_ok_def emit_def repeats_def data_hdr_def)
    qed
    have "below K c (tr s)" if "fresh e (tr s)"
      using nonce_invD [OF assms(4) that] assms(5) dc
      by (auto simp: sealed_ok_def ram_ok_def intro: below_mono)
    then have "join_free e s' K c"
      using lt fresh_tl by (auto simp: join_free_def t)
    then show ?thesis using inv lt s'(1) by (auto simp: t suffix_Cons)
  qed
  then show "nonce_inv e s'" "ret = None \<Longrightarrow> join_free e s' K c"
    "ret = None \<Longrightarrow> n = 2 \<Longrightarrow> fresh e (tr s') \<Longrightarrow> c < c + 1 \<and> c + 1 < nv_word P2P_JOIN_DNONCE_KEY (tr s')"
    "suffix (tr s) (tr s')" by simp_all
qed

lemma dnonce_suffix: "dnonce_persist e v s = (ret, s') \<Longrightarrow> suffix (tr s) (tr s')"
  by (auto simp: dnonce_persist_def settings_save_one_def ask_def emit_def suffix_Cons
      split: option.splits)

lemma keyed_keeps: "keyed_join_attempt e s = (ret, s') \<Longrightarrow> keeps e s s'"
proof -
  assume k: "keyed_join_attempt e s = (ret, s')"
  obtain w s1 where w: "duty_wait_ms_for e P2P_JOIN_REQ_LEN s = (w, s1)" by fastforce
  let ?c = "max (m_dev_nonce s1) 1"
  define h where "h = join_hdr e TWR_TYPE_DATA TWR_ADDR_NONE ?c"
  obtain p s2 where p: "dnonce_persist e (?c + 1) s1 = (p, s2)" by fastforce
  have 1: "keeps e s s1" by (rule quiet_keeps [OF quiet_duty_wait_for [OF w]])
  have J: "derive_join_key e \<in> join_keys e" by (simp add: join_keys_def)
  note dn = dnonce_persist_nonce [OF p refl _ _ J]
  have 2: "keeps e s s2"
    using dn(1) dnonce_suffix [OF p] by (intro keeps_trans [OF 1]) (auto simp: keeps_def)
  show ?thesis
  proof (cases "0 < w \<or> p \<noteq> None \<or> (\<exists>err. join_request_build e ?c = Inl err)")
    case True
    then consider "0 < w" | "\<not> 0 < w" "p \<noteq> None" | err where "\<not> 0 < w" "p = None" "join_request_build e ?c = Inl err"
      by blast
    then show ?thesis
      by cases (use k w p 1 2 in \<open>auto simp: keyed_join_attempt_def send_join_request_def Let_def\<close>)
  next
    case False
    then obtain frame where f: "join_request_build e ?c = Inr frame" by (cases "join_request_build e ?c") auto
    define s3 where "s3 = emit (V_seal (derive_join_key e) h (join_request_pt e)) s2"
    have "nonce_inv e s3" if n: "nonce_inv e s1"
      using dn(1,2) [OF _ n] False J
      by (auto simp: s3_def h_def join_hdr_def intro!: join_seal_nonce)
    then have "keeps e s1 s3"
      using dnonce_suffix [OF p] by (auto simp: keeps_def s3_def emit_def suffix_Cons)
    then have 3: "keeps e s s3" using 1 keeps_trans by blast
    obtain q s4 where q: "lora_send e frame s3 = (q, s4)" by fastforce
    have 4: "quiet s3 s4" by (rule quiet_send [OF q])
    define s5 where "s5 = duty_charge (frame_toa_ms e s4 P2P_JOIN_REQ_LEN) s4"
    have 5: "keeps e s s5"
      unfolding s5_def using quiet_trans [OF 4 quiet_charge] quiet_keeps keeps_trans [OF 3] by blast
    show ?thesis
    proof (cases q)
      case (Some err)
      then show ?thesis
        using k w p False f q 5
        by (auto simp: keyed_join_attempt_def send_join_request_def Let_def h_def [symmetric] s3_def [symmetric] s5_def [symmetric] tx_send_failed_def)
    next
      case None
      obtain r s6 where r: "p2p_rx_window e (now s4) P2P_RX1_DELAY_DEFAULT_S s5 = (r, s6)" by fastforce
      have "quiet s5 s6"
        using r by (auto simp: p2p_rx_window_def Let_def split: prod.splits option.splits
            dest!: quiet_configure quiet_ask intro: quiet_trans quiet_sleep quiet_blocks)
          (meson quiet_trans quiet_sleep quiet_blocks quiet_configure surjective_pairing)+
      then have 6: "keeps e s s6" using quiet_keeps keeps_trans [OF 5] by blast
      have "keeps e s6 s''"
        if "recv_join_accept e ?c (now s4) s5 = (r', s'')" for r' s''
        using that r length_app_ccm_cmac
        by (cases "block_cipher (pe_aes e)")
          (auto simp: recv_join_accept_def derive_session_key_def derive_key_def keeps_def
            split: sum.splits dest!: pairing_persist_keeps [rotated])
      then show ?thesis
        using k w p False f q None keeps_trans [OF 6]
        by (auto simp: keyed_join_attempt_def send_join_request_def Let_def h_def [symmetric] s3_def [symmetric] s5_def [symmetric] split: prod.splits)
    qed
  qed
qed

lemma pair_resp_key:
  "pair_resp e q = Some (rx, gw, key, challenge) \<Longrightarrow> length key = 16"
  by (induction q) (auto simp: twr_pair_resp_open_def TWR_PAIR_RESP_PT_LEN_def P2P_KEY_LEN_def
      split: sum.splits if_splits prod.splits)

lemma confirm_keeps:
  assumes "twr_pair_confirm e c rx gw key ch s = (ret, s')" "length key = 16"
  shows "\<exists>u. suffix (tr s) (tr u) \<and> keeps e u s' \<and>
    (nonce_inv e s \<longrightarrow> join_free e s TWR_PAIRING_KEY c \<longrightarrow> nonce_inv e u)"
proof -
  define s1 where "s1 = k_sleep (TWR_PAIR_TURNAROUND_MS - (now s - rx_at rx)) s"
  have q1: "quiet s s1" unfolding s1_def by (rule quiet_sleep)
  define h where "h = join_hdr e TWR_TYPE_JOIN_CONF gw c"
  define s1' where "s1' = emit (V_seal TWR_PAIRING_KEY h (conf_pt e ch)) s1"
  obtain r s2 where r: "(case twr_pair_conf_build e c gw ch of
               Inl err \<Rightarrow> (Some err, s1)
             | Inr conf \<Rightarrow>
                 (let s1' = emit (V_seal TWR_PAIRING_KEY (join_hdr e TWR_TYPE_JOIN_CONF gw c)
                              (conf_pt e ch)) s1;
                      (r, _, s2') = p2p_tx_once e conf (frame_toa_ms e s1' TWR_PAIR_CONF_LEN) False s1'
                  in (r, s2'))) = (r, s2)" by fastforce
  have n1: "nonce_inv e s1" if "nonce_inv e s" using nonce_quiet [OF q1] that by blast
  have n1': "nonce_inv e s1'" if "nonce_inv e s" "join_free e s TWR_PAIRING_KEY c"
    unfolding s1'_def using n1 [OF that(1)] join_free_listens [OF quiet_listens [OF q1] that(2)]
    by (intro join_seal_nonce) (simp_all add: join_keys_def h_def join_hdr_def)
  have sfx: "suffix (tr s) (tr s1)" "suffix (tr s) (tr s1')"
    using q1 by (auto simp: s1'_def emit_def quiet_def suffix_def)
  have "s2 = s1 \<or> quiet s1' s2"
    using r by (auto simp: Let_def s1'_def h_def split: sum.splits prod.splits dest: quiet_tx_once)
  then obtain u where u: "u = s1 \<or> u = s1'" "quiet u s2" by blast
  define s3 where "s3 = snd (radio_configure e s2)"
  have "quiet s2 s3" unfolding s3_def by (rule quiet_configure [OF surjective_pairing])
  then have 3: "keeps e u s3" using u(2) quiet_keeps quiet_trans by blast
  have "keeps e s3 t" if "twr_pair_commit e gw key s3 = (x, t)" for x t
    using pairing_persist_keeps [OF assms(2)] that unfolding twr_pair_commit_def by blast
  then have "keeps e u s'"
    using assms(1) 3 keeps_trans [OF 3] unfolding twr_pair_confirm_def s1_def [symmetric] Let_def
    by (auto simp: r [unfolded Let_def] s3_def [symmetric] split: option.splits)
  then show ?thesis using u(1) sfx n1 n1' by blast
qed

lemma pair_keeps: "twr_pair_attempt e s = (ret, s') \<Longrightarrow> keeps e s s'"
proof -
  assume k: "twr_pair_attempt e s = (ret, s')"
  obtain w s1 where w: "duty_wait_ms_for e (TWR_PAIR_REQ_LEN + TWR_PAIR_CONF_LEN) s = (w, s1)" by fastforce
  let ?c = "max (m_dev_nonce s1) 1"
  define h where "h = join_hdr e TWR_TYPE_JOIN_REQ TWR_ADDR_NONE ?c"
  obtain p s2 where p: "dnonce_persist e (?c + 2) s1 = (p, s2)" by fastforce
  have 1: "keeps e s s1" by (rule quiet_keeps [OF quiet_duty_wait_for [OF w]])
  have J: "TWR_PAIRING_KEY \<in> join_keys e" by (simp add: join_keys_def)
  note dn = dnonce_persist_nonce [OF p refl _ _ J]
  have 2: "keeps e s s2"
    using dn(1) dnonce_suffix [OF p] by (intro keeps_trans [OF 1]) (auto simp: keeps_def)
  show ?thesis
  proof (cases "0 < w \<or> p \<noteq> None \<or> (\<exists>err. twr_pair_req_build e ?c = Inl err)")
    case True
    then consider "0 < w" | "\<not> 0 < w" "p \<noteq> None" | err where "\<not> 0 < w" "p = None" "twr_pair_req_build e ?c = Inl err"
      by blast
    then show ?thesis
      by cases (use k w p 1 2 in \<open>auto simp: twr_pair_attempt_def Let_def\<close>)
  next
    case False
    then obtain frame where f: "twr_pair_req_build e ?c = Inr frame" by (cases "twr_pair_req_build e ?c") auto
    define s3 where "s3 = emit (V_seal TWR_PAIRING_KEY h (put_le32 (node_addr e))) s2"
    have n3: "nonce_inv e s3" if n: "nonce_inv e s1"
      using dn(1,2) [OF _ n] False J
      by (auto simp: s3_def h_def join_hdr_def intro!: join_seal_nonce)
    then have "keeps e s1 s3"
      using dnonce_suffix [OF p] by (auto simp: keeps_def s3_def emit_def suffix_Cons)
    then have 3: "keeps e s s3" using 1 keeps_trans by blast
    have free: "join_free e s3 TWR_PAIRING_KEY (?c + 1)" if n: "nonce_inv e s1"
    proof -
      have "join_free e s2 TWR_PAIRING_KEY ?c" using dn(2) [OF _ n] False by simp
      moreover have lt: "fresh e (tr s2) \<Longrightarrow> ?c < ?c + 1 \<and> ?c + 1 < nv_word P2P_JOIN_DNONCE_KEY (tr s2)"
        using dn(3) [OF _ n] False by simp
      ultimately have "fresh e (tr s2) \<Longrightarrow> below TWR_PAIRING_KEY (?c + 1) (tr s2)"
        unfolding join_free_def using below_mono [OF _ order_less_imp_le] by blast
      then show ?thesis
        using fresh_tl [of e _ "tr s2"] lt
        unfolding join_free_def s3_def h_def emit_def join_hdr_def
        by (simp del: less_max_iff_disj max_less_iff_conj)
    qed
    obtain q a s4 where q: "p2p_tx_once e frame (frame_toa_ms e s3 TWR_PAIR_REQ_LEN) True s3 = (q, a, s4)"
      using prod_cases3 by blast
    have 4: "quiet s3 s4" by (rule quiet_tx_once [OF q])
    obtain rxs s5 where hd: "heard e s4 = (rxs, s5)" by fastforce
    have 5: "quiet s3 s5" using 4 quiet_heard [OF hd] by (rule quiet_trans)
    have k5: "keeps e s s5" using quiet_keeps [OF 5] keeps_trans [OF 3] by blast
    show ?thesis
    proof (cases q)
      case (Some err)
      then show ?thesis
        using k w p False f q keeps_trans [OF 3 quiet_keeps [OF 4]]
        by (auto simp: twr_pair_attempt_def Let_def h_def [symmetric] s3_def [symmetric])
    next
      case None
      have eq: "(ret, s') = (case pair_resp e rxs of
          None \<Rightarrow> (Some ETIMEDOUT, snd (radio_configure e s5))
        | Some (rx, gw, key, challenge) \<Rightarrow> twr_pair_confirm e (?c + 1) rx gw key challenge s5)"
        using k w p False f q None hd
        by (simp add: twr_pair_attempt_def Let_def h_def [symmetric] s3_def [symmetric])
      show ?thesis
      proof (cases "pair_resp e rxs")
        case None
        then have "quiet s5 s'" using eq quiet_configure [OF surjective_pairing] by simp
        then show ?thesis using quiet_keeps keeps_trans [OF k5] by blast
      next
        case (Some a)
        obtain rx gw key ch where a: "a = (rx, gw, key, ch)" using prod_cases4 by blast
        have len: "length key = 16" using pair_resp_key Some a by blast
        have conf: "twr_pair_confirm e (?c + 1) rx gw key ch s5 = (ret, s')" using eq Some a by simp
        obtain u where u: "suffix (tr s5) (tr u)" "keeps e u s'"
          "nonce_inv e s5 \<Longrightarrow> join_free e s5 TWR_PAIRING_KEY (?c + 1) \<Longrightarrow> nonce_inv e u"
          using confirm_keeps [OF conf len] by blast
        have "nonce_inv e u" if "nonce_inv e s" "block_cipher (pe_aes e)"
        proof -
          have n1: "nonce_inv e s1" using 1 that by (simp add: keeps_def)
          show ?thesis
            using u(3) nonce_quiet [OF 5 n3 [OF n1]] join_free_listens [OF quiet_listens [OF 5] free [OF n1]]
            by blast
        qed
        then show ?thesis
          using u(1,2) k5 by (auto simp: keeps_def intro: suffix_order.trans)
      qed
    qed
  qed
qed

subsection \<open>Every event, every boot\<close>

interpretation nk: p2p_rel e "keeps e" for e
proof unfold_locales
  show "keeps e s s" for s using quiet_keeps quiet_refl by blast
  show "keeps e s u" if "keeps e s t" "keeps e t u" for s t u using that by (rule keeps_trans)
qed (blast intro: quiet_keeps leaves_keeps exchange_keeps pairing_clear_keeps keyed_keeps pair_keeps)+

lemma nonce_event: "block_cipher (pe_aes e) \<Longrightarrow> retry_ok ev \<Longrightarrow> nonce_inv e s \<Longrightarrow> nonce_inv e (p2p_event e ev s)"
  using nk.rel_event by (simp add: keeps_def)

lemma event_suffix: "block_cipher (pe_aes e) \<Longrightarrow> retry_ok ev \<Longrightarrow> suffix (tr s) (tr (p2p_event e ev s))"
  using nk.rel_event by (simp add: keeps_def)

lemma nv_saved: "nv k t = Some v \<Longrightarrow> V_save k v \<in> set t"
  by (induction k t rule: nv.induct) (auto split: if_splits)

lemma sealed_lengths:
  "sealed_ok e t \<Longrightarrow> nv k t = Some v \<Longrightarrow> k = P2P_FCNT_KEY \<or> k = P2P_JOIN_DNONCE_KEY \<Longrightarrow> length v = 4"
  unfolding sealed_ok_def using nv_saved by blast

lemma boot_tr [simp]: "tr (p2p_boot e t k) = t"
proof -
  have "tr (snd (join_settings_set e n v s)) = tr s" for n v s
    by (simp add: join_settings_set_def Let_def)
  moreover have "tr (snd (fcnt_settings_set n v s)) = tr s" for n v s
    by (simp add: fcnt_settings_set_def)
  ultimately have "tr (load k (fcnt_settings_set n) s) = tr s" "tr (load k (join_settings_set e n) s) = tr s" for k n s
    by (simp_all add: load_def split: option.split)
  then show ?thesis
    by (simp add: p2p_boot_def app_radio_p2p_init_def radio_configure_def ask_def Let_def p2p_reset_def
        split: option.split)
qed

text \<open>A boot reads the counters and the session back from the flash.\<close>

lemma boot_ram:
  assumes "sealed_ok e t"
  shows "ram_ok e (p2p_boot e t k)"
proof -
  define s1 where "s1 = (p2p_reset t k)\<lparr>air := app_radio_ledger_init (air (p2p_reset t k))
      (app_radio_duty_budget_ms (pe_frequency e))\<rparr>"
  define s2 where "s2 = load P2P_FCNT_KEY (fcnt_settings_set ''base'') s1"
  define s3 where "s3 = load P2P_JOIN_DNONCE_KEY (join_settings_set e ''dnonce'') s2"
  define s4 where "s4 = load P2P_JOIN_STATE_KEY (join_settings_set e ''state'') s3"
  have 1: "tr s1 = t" "m_fcnt s1 = 0" "m_fcnt_reserved s1 = 0" "m_dev_nonce s1 = 0"
    "m_link_state s1 = P2P_LINK_UNPAIRED" "m_retx s1 = None"
    by (simp_all add: s1_def p2p_reset_def)
  have 2: "m_fcnt s2 = nv_word P2P_FCNT_KEY t" "m_fcnt_reserved s2 = nv_word P2P_FCNT_KEY t"
    "tr s2 = t" "m_dev_nonce s2 = 0" "m_link_state s2 = P2P_LINK_UNPAIRED" "m_retx s2 = None"
    using 1 sealed_lengths [OF assms, of P2P_FCNT_KEY]
    by (auto simp: s2_def load_def fcnt_settings_set_def nv_word_def split: option.split)
  have 3: "m_fcnt s3 = m_fcnt s2" "m_fcnt_reserved s3 = m_fcnt_reserved s2" "tr s3 = t"
    "m_dev_nonce s3 = nv_word P2P_JOIN_DNONCE_KEY t" "m_link_state s3 = P2P_LINK_UNPAIRED" "m_retx s3 = None"
    using 2 sealed_lengths [OF assms, of P2P_JOIN_DNONCE_KEY]
    by (auto simp: s3_def load_def join_settings_set_def nv_word_def split: option.split)
  have 4: "m_fcnt s4 = m_fcnt s3" "m_fcnt_reserved s4 = m_fcnt_reserved s3" "tr s4 = t"
    "m_dev_nonce s4 = m_dev_nonce s3" "m_retx s4 = None"
    "m_link_state s4 = P2P_LINK_PAIRED \<Longrightarrow> nv_key t = Some (m_session_key s4)"
    using 3 by (auto simp: s4_def load_def join_settings_set_def Let_def nv_key_def rec_key_def
        split: option.splits if_splits)
  have b: "m_fcnt (p2p_boot e t k) = m_fcnt s4" "m_fcnt_reserved (p2p_boot e t k) = m_fcnt_reserved s4"
    "m_dev_nonce (p2p_boot e t k) = m_dev_nonce s4" "m_retx (p2p_boot e t k) = m_retx s4"
    "m_link_state (p2p_boot e t k) = m_link_state s4" "m_session_key (p2p_boot e t k) = m_session_key s4"
    by (simp_all add: p2p_boot_def app_radio_p2p_init_def radio_configure_def ask_def Let_def
        s1_def [symmetric] s2_def [symmetric] s3_def [symmetric] s4_def [symmetric] split: option.split)
  show ?thesis
    using assms 2 3 4 by (auto simp: ram_ok_def b sealed_ok_def)
qed

lemma nonce_boot: "trace_ok e t \<Longrightarrow> nonce_inv e (p2p_boot e t k)"
  by (auto simp: nonce_inv_def trace_ok_def intro!: boot_ram)

lemma trace_ok_drop: "trace_ok e t \<Longrightarrow> trace_ok e (drop n t)"
  using suffix_drop suffix_order.trans unfolding trace_ok_def by blast

lemma nonce_inv_trace: "nonce_inv e s \<Longrightarrow> trace_ok e (tr s)"
  by (simp add: nonce_inv_def trace_ok_def)

fun act_ok :: "p2p_act \<Rightarrow> bool" where
  "act_ok (Do ev) = retry_ok ev"
| "act_ok (Cut ev n) = retry_ok ev"

lemma nonce_act: "block_cipher (pe_aes e) \<Longrightarrow> act_ok a \<Longrightarrow> nonce_inv e s \<Longrightarrow> nonce_inv e (p2p_step e a s)"
  by (cases a) (auto simp: Let_def nonce_event intro!: nonce_boot trace_ok_drop nonce_inv_trace)

lemma nonce_run:
  assumes "block_cipher (pe_aes e)" "list_all act_ok steps"
  shows "nonce_inv e (p2p_run e steps)"
proof -
  have "nonce_inv e (p2p_boot e [] 0)"
    by (rule nonce_boot) (simp add: trace_ok_def sealed_ok_def one_use_def nv_key_def)
  then show ?thesis
    unfolding p2p_run_def using assms
    by (induction steps arbitrary: rule: rev_induct) (auto intro: nonce_act)
qed

lemma demo_fresh: "fresh demo_env demo_day"
proof -
  have len: "length demo_key = 16" by (simp add: demo_key_values)
  have "rec_key demo_rec = demo_key" unfolding demo_rec_def by (rule rec_key_record [OF len])
  moreover have "demo_jkey \<noteq> demo_key" "demo_key \<notin> {demo_jkey, TWR_PAIRING_KEY}"
    by (simp_all add: demo_key_values TWR_PAIRING_KEY_def)
  moreover have "(2 :: u32) \<le> 2" by simp
  ultimately show ?thesis
    by (simp add: fresh_def demo_day_def demo_tr_def demo_seal_ev_def demo_air_ev_def unused_def
        join_keys_def demo_keys)
qed



end
