(* ===== verification/P2pLane.thy ===== *)
theory P2pLane
  imports P2pNonce
begin

text \<open>
  A downlink is accepted at most once.  The replay lane \<open>m_gw_last\<close> is in RAM, and zero after a
  boot, yet no downlink recorded before a reboot is accepted after it: the lane is seeded by the
  ACK of a fresh counter before the window of the downlink opens, and the gateway counts up.

  What is assumed of the gateway (\<open>gw_in_order\<close>): the ACK of a frame carries a counter above that
  of every frame the device had got from it before it first sealed the frame.  Anybody may
  replay, reorder and drop the packets.
\<close>

subsection \<open>What is assumed\<close>

fun seals :: "bytes \<Rightarrow> u32 \<Rightarrow> p2p_ev \<Rightarrow> bool" where
  "seals K c (V_seal K' h _) = (K' = K \<and> h_counter h = c)"
| "seals K c _ = False"

definition sealed :: "bytes \<Rightarrow> u32 \<Rightarrow> p2p_ev list \<Rightarrow> bool" where
  "sealed K c t = list_ex (seals K c) t"

text \<open>The trace up to the first seal of \<open>c\<close>.\<close>

fun before_seal :: "bytes \<Rightarrow> u32 \<Rightarrow> p2p_ev list \<Rightarrow> p2p_ev list" where
  "before_seal K c [] = []"
| "before_seal K c (v # t) =
     (if sealed K c t then before_seal K c t else if seals K c v then t else v # t)"

fun gw_in_order :: "p2p_ev list \<Rightarrow> bool" where
  "gw_in_order [] = True"
| "gw_in_order (V_recv K h pt # t) =
     ((case twr_parse_ack pt of
         Inr ack \<Rightarrow> h_type h = TWR_TYPE_ACK \<longrightarrow>
           list_all (\<lambda>v. case v of V_recv K' h' _ \<Rightarrow> K' = K \<longrightarrow> h_counter h' < h_counter h | _ \<Rightarrow> True)
             (before_seal K (a_acked ack) t)
       | Inl _ \<Rightarrow> True) \<and> gw_in_order t)"
| "gw_in_order (_ # t) = gw_in_order t"

definition lane_hyp :: "p2p_env \<Rightarrow> p2p_ev list \<Rightarrow> bool" where
  "lane_hyp e t \<longleftrightarrow> fresh e t \<and> gw_in_order t"

lemma lane_hyp_tl: "lane_hyp e (v # t) \<Longrightarrow> lane_hyp e t"
  using fresh_tl [of e v t] by (cases v) (auto simp: lane_hyp_def)

lemma lane_hyp_suffix: "suffix t t' \<Longrightarrow> lane_hyp e t' \<Longrightarrow> lane_hyp e t"
proof (induction t')
  case (Cons v t')
  then show ?case using lane_hyp_tl by (auto simp: suffix_Cons)
qed simp

lemma sealed_simps [simp]:
  "\<not> sealed K c []"
  "sealed K c (v # t) \<longleftrightarrow> seals K c v \<or> sealed K c t"
  "sealed K c (evs @ t) \<longleftrightarrow> sealed K c evs \<or> sealed K c t"
  by (auto simp: sealed_def)

lemma before_seal_sealed: "sealed K c t \<Longrightarrow> before_seal K c (evs @ t) = before_seal K c t"
  by (induction evs) auto

lemma before_seal_unsealed: "\<not> sealed K c t \<Longrightarrow> before_seal K c t = t"
  by (cases t) auto

lemma below_unsealed: "below K c t \<Longrightarrow> \<not> sealed K c t"
  unfolding below_def sealed_def list_ex_iff by (force elim: seals.elims)

subsection \<open>Accepted downlinks\<close>

fun is_accept :: "p2p_ev \<Rightarrow> bool" where
  "is_accept (V_accept _ _) = True"
| "is_accept _ = False"

definition received :: "bytes \<Rightarrow> u32 \<Rightarrow> p2p_ev list \<Rightarrow> bool" where
  "received K d t \<longleftrightarrow> (\<exists>h pt. V_recv K h pt \<in> set t \<and> h_counter h = d)"

fun acc_ok :: "p2p_ev list \<Rightarrow> bool" where
  "acc_ok [] = True"
| "acc_ok (V_accept K d # t) = (V_accept K d \<notin> set t \<and> received K d t \<and> acc_ok t)"
| "acc_ok (_ # t) = acc_ok t"

lemma acc_ok_other: "\<not> is_accept v \<Longrightarrow> acc_ok (v # t) = acc_ok t"
  by (cases v) auto

lemma acc_ok_received: "acc_ok t \<Longrightarrow> V_accept K d \<in> set t \<Longrightarrow> received K d t"
  by (induction t rule: acc_ok.induct) (auto simp: received_def)

lemma acc_ok_distinct: "acc_ok t \<Longrightarrow> distinct (filter is_accept t)"
  by (induction t rule: acc_ok.induct) auto

definition lane_trace :: "p2p_env \<Rightarrow> p2p_ev list \<Rightarrow> bool" where
  "lane_trace e t \<longleftrightarrow> (\<forall>u. suffix u t \<longrightarrow> lane_hyp e u \<longrightarrow> acc_ok u)"

lemma lane_trace_Cons:
  "lane_trace e (v # t) \<longleftrightarrow> (lane_hyp e (v # t) \<longrightarrow> acc_ok (v # t)) \<and> lane_trace e t"
  by (auto simp: lane_trace_def suffix_Cons)

lemma lane_trace_acc: "lane_trace e t \<Longrightarrow> lane_hyp e t \<Longrightarrow> acc_ok t"
  by (simp add: lane_trace_def)

lemma lane_trace_other:
  "list_all (\<lambda>v. \<not> is_accept v) evs \<Longrightarrow> lane_trace e t \<Longrightarrow> lane_trace e (evs @ t)"
proof (induction evs)
  case (Cons v evs)
  then show ?case
    using lane_trace_acc lane_hyp_tl by (fastforce simp: lane_trace_Cons acc_ok_other)
qed simp

subsection \<open>The lane\<close>

text \<open>In the exchange of \<open>c\<close>: a downlink accepted so far is below the lane, or was received before
  \<open>c\<close> was sealed; and, once the ACK has been seen, below the lane.\<close>

definition lane_at :: "p2p_env \<Rightarrow> u32 \<Rightarrow> p2p \<Rightarrow> bool" where
  "lane_at e c s \<longleftrightarrow> lane_trace e (tr s) \<and>
     (lane_hyp e (tr s) \<longrightarrow> sealed (m_session_key s) c (tr s) \<and>
       (\<forall>d. V_accept (m_session_key s) d \<in> set (tr s) \<longrightarrow>
          d \<le> m_gw_last s \<or> received (m_session_key s) d (before_seal (m_session_key s) c (tr s))))"

definition caught :: "p2p_env \<Rightarrow> p2p \<Rightarrow> bool" where
  "caught e s \<longleftrightarrow>
     (lane_hyp e (tr s) \<longrightarrow> (\<forall>d. V_accept (m_session_key s) d \<in> set (tr s) \<longrightarrow> d \<le> m_gw_last s))"

definition lane_inv :: "p2p_env \<Rightarrow> p2p \<Rightarrow> bool" where
  "lane_inv e s \<longleftrightarrow> lane_trace e (tr s) \<and>
     (\<forall>r. m_link_state s = P2P_LINK_PAIRED \<longrightarrow> m_retx s = Some r \<longrightarrow> lane_at e (rt_counter r) s)"

text \<open>Steps that accept nothing and keep the session.\<close>

definition adds :: "p2p \<Rightarrow> p2p \<Rightarrow> bool" where
  "adds s s' \<longleftrightarrow> m_session_key s' = m_session_key s \<and> m_retx s' = m_retx s
     \<and> m_link_state s' = m_link_state s \<and> m_gw_last s \<le> m_gw_last s'
     \<and> (\<exists>evs. tr s' = evs @ tr s \<and> list_all (\<lambda>v. \<not> is_accept v) evs)"

lemma adds_trans: "adds s t \<Longrightarrow> adds t u \<Longrightarrow> adds s u"
proof -
  assume a: "adds s t" "adds t u"
  from a(1) obtain x where x: "tr t = x @ tr s" "list_all (\<lambda>v. \<not> is_accept v) x" unfolding adds_def by blast
  from a(2) obtain y where y: "tr u = y @ tr t" "list_all (\<lambda>v. \<not> is_accept v) y" unfolding adds_def by blast
  have "tr u = (y @ x) @ tr s \<and> list_all (\<lambda>v. \<not> is_accept v) (y @ x)" using x y by simp
  then show ?thesis using a unfolding adds_def by auto
qed

lemma quiet_no_accept: "quiet_ev v \<Longrightarrow> \<not> is_accept v"
  by (cases v) auto

lemma quiet_adds: "quiet s s' \<Longrightarrow> adds s s'"
  unfolding quiet_def adds_def core_def by (auto simp: list_all_iff dest!: quiet_no_accept)

lemma counts_adds: "counts s s' \<Longrightarrow> adds s s'"
proof -
  have "\<not> is_accept v" if "fcnt_ev v" for v using that by (cases v) auto
  then show "counts s s' \<Longrightarrow> adds s s'"
    unfolding counts_def same_session_def adds_def by (auto simp: list_all_iff)
qed

lemma emit_adds: "\<not> is_accept v \<Longrightarrow> adds s (emit v s)"
  by (auto simp: adds_def emit_def intro!: exI [of _ "[v]"])

lemma adds_at:
  assumes "adds s s'" "lane_at e c s"
  shows "lane_at e c s'" "caught e s \<Longrightarrow> caught e s'"
proof -
  from assms(1) obtain evs where evs: "tr s' = evs @ tr s" "list_all (\<lambda>v. \<not> is_accept v) evs"
    unfolding adds_def by blast
  have no: "V_accept K d \<notin> set evs" for K d using evs(2) by (auto simp: list_all_iff)
  have hyp: "lane_hyp e (tr s') \<Longrightarrow> lane_hyp e (tr s)"
    unfolding evs(1) by (rule lane_hyp_suffix [OF suffixI [OF refl]])
  show "lane_at e c s'"
    using assms no hyp before_seal_sealed lane_trace_other [OF evs(2)]
    unfolding lane_at_def adds_def evs(1) by (auto intro: order_trans)
  show "caught e s \<Longrightarrow> caught e s'"
    using assms no hyp unfolding caught_def adds_def evs(1) by (auto intro: order_trans)
qed


lemma quiet_at: "quiet s s' \<Longrightarrow> lane_at e c s \<Longrightarrow> lane_at e c s'"
  using adds_at(1) quiet_adds by blast

subsection \<open>The ACK and the downlink\<close>

lemma gw_frame_cases:
  assumes "gw_frame e rx s = (g, s1)"
  obtains (no) "g = None" "s1 = s \<or> (\<exists>h pt. s1 = emit (V_recv (m_session_key s) h pt) s)"
  | (yes) v h pt where "g = Some (v, h, pt)" "s1 = emit (V_recv (m_session_key s) h pt) s"
      "p2p_replay_check (m_gw_last s) (h_counter h) = Inr v"
  using assms by (auto simp: gw_frame_def Let_def split: sum.splits if_splits prod.splits)

lemma replay_fresh: "p2p_replay_check lane c = Inr P2P_RX_FRESH \<Longrightarrow> lane < c"
  by (auto simp: p2p_replay_check_def split: if_splits)

lemma gw_adds: "gw_frame e rx s = (g, s1) \<Longrightarrow> adds s s1"
proof -
  have "adds s s" using quiet_adds quiet_refl by blast
  then show "gw_frame e rx s = (g, s1) \<Longrightarrow> adds s s1"
    by (elim gw_frame_cases) (auto intro: emit_adds)
qed

text \<open>The ACK of \<open>c\<close> brings the lane above all that was accepted.\<close>

lemma ack_catches:
  assumes at_c: "lane_at e c s" and lane: "m_gw_last s < h_counter h"
    and ack: "twr_parse_ack pt = Inr ack" "a_acked ack = c" "h_type h = TWR_TYPE_ACK"
  defines "s1 \<equiv> (emit (V_recv (m_session_key s) h pt) s)\<lparr>m_gw_last := h_counter h\<rparr>"
  shows "lane_at e c s1" "caught e s1"
proof -
  have "adds s s1"
    using lane by (auto simp: adds_def s1_def emit_def)
  then show "lane_at e c s1" using at_c adds_at by blast
  show "caught e s1"
    unfolding caught_def
  proof (intro impI allI)
    fix d
    assume h: "lane_hyp e (tr s1)" and acc: "V_accept (m_session_key s1) d \<in> set (tr s1)"
    from h have "lane_hyp e (tr s)" using lane_hyp_tl by (auto simp: s1_def emit_def)
    then have "d \<le> m_gw_last s \<or> received (m_session_key s) d (before_seal (m_session_key s) c (tr s))"
      using at_c acc by (auto simp: lane_at_def s1_def emit_def)
    moreover have "\<And>h' pt'. V_recv (m_session_key s) h' pt' \<in> set (before_seal (m_session_key s) c (tr s))
        \<Longrightarrow> h_counter h' < h_counter h"
      using h ack by (auto simp: lane_hyp_def s1_def emit_def list_all_iff)
    ultimately show "d \<le> m_gw_last s1"
      using lane by (auto simp: received_def s1_def intro: order_less_imp_le)
  qed
qed

text \<open>Fields no lemma here reads.\<close>

lemma at_upd:
  "lane_at e c (s\<lparr>m_debug_drop_acks := n\<rparr>) = lane_at e c s"
  "lane_at e c (s\<lparr>m_last_ack_rssi := r\<rparr>) = lane_at e c s"
  "caught e (s\<lparr>m_last_ack_rssi := r\<rparr>) = caught e s"
  by (simp_all add: lane_at_def caught_def)

lemma wait_ack_lane:
  "p2p_wait_ack e c q s = (r, q', s') \<Longrightarrow> lane_at e c s \<Longrightarrow>
    lane_at e c s' \<and> (r \<noteq> None \<longrightarrow> caught e s')"
proof (induction e c q s rule: p2p_wait_ack.induct)
  case (2 e counter rx q s)
  obtain g s1 where g: "gw_frame e rx s = (g, s1)" by fastforce
  have l1: "lane_at e counter s1" by (rule adds_at(1) [OF gw_adds [OF g] "2.prems"(2)])
  from g show ?case
  proof (cases rule: gw_frame_cases)
    case no
    then have "p2p_wait_ack e counter q s1 = (r, q', s')" using "2.prems"(1) g by simp
    from "2.IH"(1) [OF g [symmetric] no(1) this l1] show ?thesis .
  next
    case (yes v h pt)
    note IH = "2.IH"(2-5) [OF g [symmetric] yes(1) refl refl]
    show ?thesis
    proof (cases "v \<noteq> P2P_RX_FRESH \<or> h_type h \<noteq> TWR_TYPE_ACK")
      case True
      then have "p2p_wait_ack e counter q s1 = (r, q', s')" using "2.prems"(1) g yes(1) by simp
      from IH(1) [OF True this l1] show ?thesis .
    next
      case fr: False
      show ?thesis
      proof (cases "twr_parse_ack pt")
        case (Inl err)
        then have "p2p_wait_ack e counter q s1 = (r, q', s')" using "2.prems"(1) g yes(1) fr by simp
        from IH(2) [OF fr Inl this l1] show ?thesis .
      next
        case (Inr ack)
        show ?thesis
        proof (cases "a_acked ack \<noteq> counter")
          case True
          then have "p2p_wait_ack e counter q s1 = (r, q', s')"
            using "2.prems"(1) g yes(1) fr Inr by simp
          from IH(3) [OF fr Inr True this l1] show ?thesis .
        next
          case False
          define s2 where "s2 = s1\<lparr>m_gw_last := h_counter h\<rparr>"
          have lane: "m_gw_last s < h_counter h" using replay_fresh yes(3) fr by blast
          have c: "lane_at e counter s2" "caught e s2"
            using ack_catches [OF "2.prems"(2) lane Inr] fr False by (simp_all add: s2_def yes(2))
          show ?thesis
          proof (cases "0 < m_debug_drop_acks s2")
            case True
            then have "p2p_wait_ack e counter q (s2\<lparr>m_debug_drop_acks := m_debug_drop_acks s2 - 1\<rparr>) = (r, q', s')"
              using "2.prems"(1) g yes(1) fr Inr False by (simp add: s2_def Let_def)
            from IH(4) [OF fr Inr False s2_def True this] c(1) show ?thesis by (simp add: at_upd)
          next
            case drop: False
            then have "s' = s2"
              using "2.prems"(1) g yes(1) fr Inr False by (simp add: s2_def Let_def)
            then show ?thesis using c by simp
          qed
        qed
      qed
    qed
  qed
qed simp

text \<open>A downlink above the lane was never accepted.\<close>

lemma accept_lane:
  fixes a b :: int
  assumes "lane_at e c s" "caught e s" "m_gw_last s < d" "received (m_session_key s) d (tr s)"
    and "s1 = emit (V_accept (m_session_key s) d) (s\<lparr>m_gw_last := d, m_dl_rssi := a, m_dl_snr := b\<rparr>)"
  shows "lane_at e c s1" "caught e s1"
proof -
  note s1_def = assms(5)
  have t: "tr s1 = V_accept (m_session_key s) d # tr s" and k: "m_session_key s1 = m_session_key s"
    and g: "m_gw_last s1 = d" by (simp_all add: s1_def emit_def)
  have tl: "lane_hyp e (tr s1) \<Longrightarrow> lane_hyp e (tr s)" unfolding t by (rule lane_hyp_tl)
  have acc: "acc_ok (tr s1)" if "lane_hyp e (tr s1)"
    using assms(1-4) tl [OF that] lane_trace_acc by (auto simp: t lane_at_def caught_def)
  show c: "caught e s1"
    using assms(2,3) tl unfolding caught_def t k g by fastforce
  show "lane_at e c s1"
    using assms(1) acc tl c unfolding lane_at_def caught_def t k g
    by (auto simp: lane_trace_Cons)
qed

lemma wait_dl_lane:
  "p2p_wait_dl e q x s = (x', s') \<Longrightarrow> lane_at e c s \<Longrightarrow> caught e s \<Longrightarrow> lane_at e c s'"
proof (induction e q x s rule: p2p_wait_dl.induct)
  case (2 e rx q x s)
  obtain g s1 where g: "gw_frame e rx s = (g, s1)" by fastforce
  have l1: "lane_at e c s1" "caught e s1"
    using adds_at [OF gw_adds [OF g] "2.prems"(2)] "2.prems"(3) by blast+
  from g show ?case
  proof (cases rule: gw_frame_cases)
    case no
    then have "p2p_wait_dl e q x s1 = (x', s')" using "2.prems"(1) g by simp
    from "2.IH"(1) [OF g [symmetric] no(1) this l1] show ?thesis .
  next
    case (yes v h pt)
    define s2 where "s2 = call (C_note_downlink (rx_rssi rx) (rx_snr rx)) s1"
    have "adds s1 s2" unfolding s2_def by (rule emit_adds) simp
    then have l2: "lane_at e c s2" "caught e s2" using adds_at l1 by blast+
    show ?thesis
    proof (cases "h_type h = TWR_TYPE_DATA")
      case False
      then have "p2p_wait_dl e q x s1 = (x', s')" using "2.prems"(1) g yes(1) by simp
      from "2.IH"(2) [OF g [symmetric] yes(1) refl refl False this l1] show ?thesis .
    next
      case True
      have f: "m_gw_last s2 < h_counter h" "received (m_session_key s2) (h_counter h) (tr s2)"
        if "v = P2P_RX_FRESH"
        using replay_fresh yes(2,3) that by (auto simp: s2_def emit_def received_def)
      have "s' = (if v = P2P_RX_FRESH then emit (V_accept (m_session_key s2) (h_counter h))
                (s2\<lparr>m_gw_last := h_counter h, m_dl_rssi := rx_rssi rx, m_dl_snr := rx_snr rx\<rparr>) else s2)"
        using "2.prems"(1) g True yes(1) by (simp add: s2_def [symmetric] Let_def split: if_splits)
      then show ?thesis
        using l2(1) accept_lane(1) [OF l2 f] by simp
    qed
  qed
qed simp

lemma exchange_ack_lane:
  "exchange_ack e c x s = (x', s') \<Longrightarrow> lane_at e c s \<Longrightarrow> lane_at e c s'"
proof -
  assume ex: "exchange_ack e c x s = (x', s')" and l0: "lane_at e c s"
  obtain q s1 where q: "heard e s = (q, s1)" by fastforce
  obtain r q2 s2 where r: "p2p_wait_ack e c q s1 = (r, q2, s2)" using prod_cases3 by blast
  have l2: "lane_at e c s2" "r \<noteq> None \<Longrightarrow> caught e s2"
    using wait_ack_lane [OF r quiet_at [OF quiet_heard [OF q] l0]] by blast+
  show ?thesis
  proof (cases r)
    case None
    then show ?thesis using ex q r l2 by (auto simp: exchange_ack_def)
  next
    case (Some a)
    obtain rx ack where a: "a = (rx, ack)" by (cases a)
    define s3 where "s3 = call (C_note_downlink (rx_rssi rx) (rx_snr rx)) (s2\<lparr>m_last_ack_rssi := Some (a_rssi ack)\<rparr>)"
    have l2': "lane_at e c (s2\<lparr>m_last_ack_rssi := Some (a_rssi ack)\<rparr>)"
      "caught e (s2\<lparr>m_last_ack_rssi := Some (a_rssi ack)\<rparr>)"
      using l2 Some by (simp_all add: at_upd)
    have l3: "lane_at e c s3" "caught e s3"
      unfolding s3_def using adds_at [OF emit_adds l2'(1)] l2'(2) by simp_all
    obtain q3 s4 where h: "heard e s3 = (q3, s4)" by fastforce
    have l4: "lane_at e c s4" "caught e s4"
      using adds_at [OF quiet_adds [OF quiet_heard [OF h]] l3(1)] l3(2) by blast+
    show ?thesis
      using ex q r l3 h wait_dl_lane [OF _ l4] unfolding Some a
      by (auto simp: exchange_ack_def Let_def s3_def [symmetric] split: if_splits prod.splits)
  qed
qed


subsection \<open>The exchange\<close>

lemma auto_ack_adds: "adds s (p2p_auto_ack e x s)"
proof -
  define ms where "ms = frame_toa_ms e s TWR_ACK_FRAME_LEN"
  obtain w s1 where w: "duty_wait ms s = (w, s1)" by fastforce
  obtain c s2 where c: "twr_counter_next e s1 = (c, s2)" by fastforce
  have 1: "adds s s1" by (rule quiet_adds [OF quiet_duty_wait [OF w]])
  have 2: "adds s s2" using 1 counts_adds [OF counts_counter [OF c]] by (rule adds_trans)
  show ?thesis
  proof (cases "0 < w \<or> (\<exists>err. c = Inl err)")
    case True
    then show ?thesis using 1 2 w c by (auto simp: p2p_auto_ack_def Let_def ms_def [symmetric])
  next
    case False
    then obtain k where k: "c = Inr k" by (cases c) auto
    define h where "h = ack_hdr e s2 k"
    define pt where "pt = put_le32 (x_dl_counter x) @ [word_of_int (clamp_i8 (x_dl_rssi x)), 0]"
    define s3 where "s3 = emit (V_seal (m_session_key s2) h pt) s2"
    have "adds s2 s3" unfolding s3_def by (rule emit_adds) simp
    then have 3: "adds s s3" using 2 adds_trans by blast
    show ?thesis
    proof (cases "twr_seal (pe_aes e) (m_session_key s2) h pt TWR_ACK_FRAME_LEN")
      case (Inl err)
      then show ?thesis
        using False 2 w c k by (simp add: p2p_auto_ack_def Let_def ms_def [symmetric] h_def pt_def)
    next
      case (Inr frame)
      obtain ret s4 where r: "radio_configure e s3 = (ret, s4)" by fastforce
      define s5 where "s5 = k_sleep (uint P2P_TURNAROUND_MS - (now s4 - x_dl_at x)) s4"
      obtain ret2 s6 where q: "lora_send e frame s5 = (ret2, s6)" by fastforce
      have 4: "quiet s3 s4" by (rule quiet_configure [OF r])
      have 6: "quiet s3 s6"
        using 4 quiet_sleep quiet_send [OF q] unfolding s5_def by (blast intro: quiet_trans)
      have st: "adds s u" if "quiet s3 u" for u
        using 3 quiet_adds [OF that] by (rule adds_trans)
      have "quiet s3 (snd (tx_send_failed e (length frame) s6))"
        using 6 quiet_send_failed [OF surjective_pairing] by (rule quiet_trans)
      then show ?thesis
        using False w c k Inr r q quiet_trans [OF 6 quiet_charge] 4
        by (auto simp: p2p_auto_ack_def Let_def ms_def [symmetric] h_def [symmetric] pt_def [symmetric]
            s3_def [symmetric] s5_def [symmetric] split: option.split
            intro: st)
    qed
  qed
qed

text \<open>What a transmission of the exchange of \<open>c\<close> keeps.\<close>

definition runs :: "p2p_env \<Rightarrow> u32 \<Rightarrow> p2p \<Rightarrow> p2p \<Rightarrow> bool" where
  "runs e c s s' \<longleftrightarrow> m_retx s' = m_retx s \<and> (lane_at e c s \<longrightarrow> lane_at e c s')"

lemma runs_trans: "runs e c s t \<Longrightarrow> runs e c t u \<Longrightarrow> runs e c s u"
  by (simp add: runs_def)

lemma adds_runs: "adds s s' \<Longrightarrow> runs e c s s'"
  using adds_at(1) by (simp add: runs_def adds_def) (meson adds_at(1) adds_def)

lemma quiet_runs: "quiet s s' \<Longrightarrow> runs e c s s'"
  using adds_runs quiet_adds by blast

lemma exchange_ack_runs: "exchange_ack e c x s = (x', s') \<Longrightarrow> runs e c s s'"
  using exchange_ack_lane listens_exchange_ack by (fastforce simp: runs_def listens_def core_def)

lemma rep_runs:
  "exchange_rep e frame ms confirmed c n x s = (ret, stop, x', s') \<Longrightarrow> runs e c s s'"
proof -
  assume rep: "exchange_rep e frame ms confirmed c n x s = (ret, stop, x', s')"
  obtain held s1 where h: "(if n = 0 then (False, s)
         else (let (r, s0) = ask (pe_rand e) s;
                   (w, s0') = duty_wait ms (k_sleep (uint (r mod (P2P_BACKOFF_MAX_MS + 1))) s0)
               in (0 < w, s0'))) = (held, s1)" by fastforce
  have "quiet s s1"
    using h by (auto split: if_splits prod.splits dest!: quiet_ask quiet_duty_wait
        intro: quiet_trans quiet_sleep) (meson quiet_trans quiet_sleep)+
  then have 1: "runs e c s s1" by (rule quiet_runs)
  obtain err done_at s2 where t: "p2p_tx_once e frame ms confirmed s1 = (err, done_at, s2)"
    using prod_cases3 by blast
  have 2: "runs e c s s2" using 1 quiet_runs [OF quiet_tx_once [OF t]] by (rule runs_trans)
  obtain x2 s3 where a: "exchange_ack e c (x\<lparr>x_sent := x_sent x + 1, x_done_ms := done_at\<rparr>) s2 = (x2, s3)"
    by fastforce
  have 3: "runs e c s s3" using 2 exchange_ack_runs [OF a] by (rule runs_trans)
  have 4: "runs e c s (p2p_auto_ack e x2 s3)" using 3 adds_runs [OF auto_ack_adds] by (rule runs_trans)
  show ?thesis
    using rep 1 2 3 4 unfolding exchange_rep_def h unfolding Let_def prod.case t a
    by (auto split: if_splits option.splits)
qed

lemma reps_runs:
  "exchange_reps e frame ms confirmed c n left x s = (ret, x', s') \<Longrightarrow> runs e c s s'"
proof (induction left arbitrary: n x s)
  case 0
  then show ?case using quiet_runs quiet_refl by simp
next
  case (Suc left)
  obtain r stop x1 s1 where rep: "exchange_rep e frame ms confirmed c n x s = (r, stop, x1, s1)"
    using prod_cases4 by blast
  show ?case
  proof (cases stop)
    case True
    then show ?thesis using Suc.prems rep rep_runs [OF rep] by simp
  next
    case False
    then have "exchange_reps e frame ms confirmed c (n + 1) left x1 s1 = (ret, x', s')"
      using Suc.prems rep by simp
    from runs_trans [OF rep_runs [OF rep] Suc.IH [OF this]] show ?thesis .
  qed
qed

text \<open>The seal: under the counter of the retry, or under a fresh one.\<close>

lemma seal_at:
  assumes "lane_trace e (tr s)" "lane_hyp e (tr s) \<Longrightarrow> below K (h_counter h) (tr s)"
    and "m_session_key s = K"
  shows "lane_at e (h_counter h) (emit (V_seal K h pt) s)"
proof -
  let ?t = "V_seal K h pt # tr s"
  have "lane_trace e ?t" using assms(1) lane_trace_other [of "[V_seal K h pt]"] by simp
  moreover have "before_seal K (h_counter h) ?t = tr s" if "lane_hyp e ?t"
    using below_unsealed assms(2) lane_hyp_tl that by auto
  moreover have "received K d (tr s)" if "lane_hyp e ?t" "V_accept K d \<in> set (tr s)" for d
    using acc_ok_received lane_trace_acc [OF assms(1)] lane_hyp_tl that by blast
  ultimately show ?thesis by (simp add: lane_at_def emit_def assms(3))
qed

lemma at_retx: "lane_at e c (s\<lparr>m_retx := r\<rparr>) = lane_at e c s"
  by (simp add: lane_at_def)

lemma exchange_seal_lane:
  assumes "exchange_seal e pt confirmed attempt s = (r, s')"
    and "nonce_inv e s" "lane_inv e s" "m_link_state s = P2P_LINK_PAIRED"
  shows "case r of
      Inl _ \<Rightarrow> adds s s'
    | Inr (c, _) \<Rightarrow> lane_at e c s' \<and> (\<forall>\<rho>. m_retx s' = Some \<rho> \<longrightarrow> rt_counter \<rho> = c)"
proof -
  obtain c s1 where c: "(if 0 < attempt then
           (case retx_counter pt s of Some c \<Rightarrow> (Inr c, s) | None \<Rightarrow> twr_counter_next e s)
         else twr_counter_next e s) = (c, s1)" by fastforce
  define h where "h k = data_hdr e s1 confirmed k" for k
  have hk: "h_counter (h k) = k" for k by (simp add: h_def data_hdr_def)
  have 1: "adds s s1"
    using c counts_adds counts_counter quiet_adds quiet_refl by (auto split: if_splits option.splits)
  have key: "lane_at e k (emit (V_seal (m_session_key s1) (h k) pt) s1)" if k: "c = Inr k" for k
  proof (cases "\<exists>k. 0 < attempt \<and> retx_counter pt s = Some k")
    case True
    then obtain \<rho> where \<rho>: "m_retx s = Some \<rho>" "rt_counter \<rho> = k" and s1: "s1 = s"
      using c k by (auto simp: retx_counter_def split: option.splits if_splits)
    have "lane_at e k s" using assms(3,4) \<rho> by (auto simp: lane_inv_def)
    then show ?thesis unfolding s1 using adds_at(1) [OF emit_adds] by simp
  next
    case False
    then have n: "twr_counter_next e s = (c, s1)" using c by (auto split: if_splits option.splits)
    have "free_counter e s1 k" using counter_next_nonce(4) [OF assms(2,4) n k] .
    moreover have "lane_trace e (tr s1)"
      using 1 assms(3) lane_trace_other by (auto simp: adds_def lane_inv_def)
    ultimately have "lane_at e (h_counter (h k)) (emit (V_seal (m_session_key s1) (h k) pt) s1)"
      by (intro seal_at) (auto simp: free_counter_def hk lane_hyp_def)
    then show ?thesis by (simp add: hk)
  qed
  show ?thesis
  proof (cases c)
    case (Inl err)
    then show ?thesis using assms(1) c 1 by (auto simp: exchange_seal_def)
  next
    case (Inr k)
    then show ?thesis
      using assms(1) c 1 key [OF Inr]
      by (auto simp: exchange_seal_def Let_def h_def at_retx split: sum.splits if_splits)
  qed
qed

lemma adds_lane_inv: "adds s s' \<Longrightarrow> lane_inv e s \<Longrightarrow> lane_inv e s'"
proof -
  assume a: "adds s s'" and l: "lane_inv e s"
  have "lane_trace e (tr s')" using a l lane_trace_other by (auto simp: adds_def lane_inv_def)
  moreover have "lane_at e (rt_counter r) s'" if "m_link_state s' = P2P_LINK_PAIRED" "m_retx s' = Some r" for r
    using adds_at(1) [OF a] a l that by (simp add: lane_inv_def adds_def)
  ultimately show ?thesis by (simp add: lane_inv_def)
qed

lemma exchange_lane:
  assumes "p2p_exchange e pt confirmed attempt s = (r, x, s')" "nonce_inv e s" "lane_inv e s"
  shows "lane_inv e s'"
proof -
  obtain g s1 where g: "exchange_gate e (length pt) s = (g, s1)" by fastforce
  have q: "quiet s s1" by (rule quiet_gate [OF g])
  have n1: "nonce_inv e s1" using q assms(2) by (rule nonce_quiet)
  have l1: "lane_inv e s1" using adds_lane_inv [OF quiet_adds [OF q] assms(3)] .
  show ?thesis
  proof (cases g)
    case (Some err)
    then show ?thesis using assms g l1 by (simp add: p2p_exchange_def)
  next
    case None
    then have "m_link_state s = P2P_LINK_PAIRED"
      using g by (auto simp: exchange_gate_def Let_def split: if_splits)
    then have link: "m_link_state s1 = P2P_LINK_PAIRED" using q by (simp add: quiet_def)
    obtain c s2 where c: "exchange_seal e pt confirmed attempt s1 = (c, s2)" by fastforce
    note sl = exchange_seal_lane [OF c n1 l1 link]
    show ?thesis
    proof (cases c)
      case (Inl err)
      then have "s' = s2" using assms(1) g None c by (simp add: p2p_exchange_def)
      then show ?thesis using Inl sl adds_lane_inv [OF _ l1] by simp
    next
      case (Inr a)
      obtain k frame where a: "a = (k, frame)" by (cases a)
      define ms where "ms = frame_toa_ms e s (TWR_HDR_LEN + length pt + TWR_TAG_LEN)"
      obtain ret x3 s3 where reps: "exchange_reps e frame ms confirmed k 0
          (if confirmed then P2P_REPS else 1) (xfer0\<lparr>x_counter := k\<rparr>) s2 = (ret, x3, s3)"
        using prod_cases3 by blast
      define s4 where "s4 = snd (radio_configure e s3)"
      define s5 where "s5 = s4\<lparr>m_link_idle_at := now s4 + P2P_TX_GAP_MS\<rparr>"
      have "quiet s3 s4" unfolding s4_def by (rule quiet_configure [OF surjective_pairing])
      moreover have "quiet s4 s5" by (rule quiet_upd) (simp_all add: s5_def core_def)
      ultimately have q5: "quiet s3 s5" by (rule quiet_trans)
      have s': "s' = s5 \<or> s' = call C_note_send s5"
        using assms(1) g None c Inr a reps
        by (auto simp: p2p_exchange_def Let_def ms_def [symmetric] s4_def [symmetric] s5_def [symmetric]
            split: if_splits)
      then have "quiet s3 s'" using q5 quiet_call [OF q5] by blast
      then have r: "runs e k s2 s'" using reps_runs [OF reps] quiet_runs runs_trans by blast
      have at_k: "lane_at e k s2" and rk: "\<And>\<rho>. m_retx s2 = Some \<rho> \<Longrightarrow> rt_counter \<rho> = k"
        using sl Inr a by auto
      have "lane_at e k s'" using r at_k by (simp add: runs_def)
      then show ?thesis using r rk by (auto simp: lane_inv_def runs_def) (simp add: lane_at_def)
    qed
  qed
qed


subsection \<open>Joins and pairings\<close>

text \<open>Steps that accept nothing, after which a frame waits for its retry only if it did before.\<close>

definition silent :: "p2p \<Rightarrow> p2p \<Rightarrow> bool" where
  "silent s s' \<longleftrightarrow> (\<exists>evs. tr s' = evs @ tr s \<and> list_all (\<lambda>v. \<not> is_accept v) evs) \<and>
     (m_link_state s' = P2P_LINK_PAIRED \<longrightarrow> m_retx s' \<noteq> None \<longrightarrow> adds s s')"

lemma adds_silent: "adds s s' \<Longrightarrow> silent s s'"
  by (simp add: silent_def adds_def)

lemma quiet_silent: "quiet s s' \<Longrightarrow> silent s s'"
  using adds_silent quiet_adds by blast

lemma emit_silent: "\<not> is_accept v \<Longrightarrow> silent s (emit v s)"
  using adds_silent emit_adds by blast

lemma silent_trans: "silent s t \<Longrightarrow> silent t u \<Longrightarrow> silent s u"
proof -
  assume a: "silent s t" "silent t u"
  from a(1) obtain x where x: "tr t = x @ tr s" "list_all (\<lambda>v. \<not> is_accept v) x" unfolding silent_def by blast
  from a(2) obtain y where y: "tr u = y @ tr t" "list_all (\<lambda>v. \<not> is_accept v) y" unfolding silent_def by blast
  have "\<exists>evs. tr u = evs @ tr s \<and> list_all (\<lambda>v. \<not> is_accept v) evs"
    by (rule exI [of _ "y @ x"]) (simp add: x y)
  moreover have "adds s u" if "m_link_state u = P2P_LINK_PAIRED" "m_retx u \<noteq> None"
  proof -
    have 2: "adds t u" using a(2) that by (simp add: silent_def)
    then have "adds s t" using a(1) that by (simp add: silent_def adds_def)
    then show ?thesis using 2 by (rule adds_trans)
  qed
  ultimately show ?thesis by (simp add: silent_def)
qed

lemma silent_lane: "silent s s' \<Longrightarrow> lane_inv e s \<Longrightarrow> lane_inv e s'"
proof -
  assume a: "silent s s'" and l: "lane_inv e s"
  have "lane_trace e (tr s')" using a l lane_trace_other by (auto simp: silent_def lane_inv_def)
  moreover have "lane_at e (rt_counter r) s'" if r: "m_link_state s' = P2P_LINK_PAIRED" "m_retx s' = Some r" for r
  proof -
    have "adds s s'" using a r by (simp add: silent_def)
    from adds_lane_inv [OF this l] show ?thesis using r by (simp add: lane_inv_def)
  qed
  ultimately show ?thesis by (simp add: lane_inv_def)
qed

lemma leaves_silent: "leaves s s' \<Longrightarrow> silent s s'"
  unfolding leaves_def silent_def by (auto simp: list_all_iff dest!: quiet_no_accept)

lemma save_silent: "settings_save_one e k v s = (r, s') \<Longrightarrow> silent s s'"
  by (elim save_cases) (auto intro: quiet_silent quiet_tk silent_trans [OF quiet_silent [OF quiet_tk] emit_silent])

lemma dnonce_silent: "dnonce_persist e v s = (r, s') \<Longrightarrow> silent s s'"
proof -
  assume d: "dnonce_persist e v s = (r, s')"
  obtain sv s1 where sv: "settings_save_one e P2P_JOIN_DNONCE_KEY (put_le32 v) s = (sv, s1)" by fastforce
  have "adds s1 (s1\<lparr>m_dev_nonce := v\<rparr>)" by (auto simp: adds_def)
  then have "silent s (s1\<lparr>m_dev_nonce := v\<rparr>)"
    using save_silent [OF sv] adds_silent silent_trans by blast
  then show ?thesis using d sv save_silent [OF sv] by (auto simp: dnonce_persist_def split: option.splits)
qed

lemma none_silent:
  "tr s' = evs @ tr s \<Longrightarrow> list_all (\<lambda>v. \<not> is_accept v) evs \<Longrightarrow>
    m_link_state s' \<noteq> P2P_LINK_PAIRED \<or> m_retx s' = None \<Longrightarrow> silent s s'"
  unfolding silent_def by auto

lemma pairing_persist_silent: "pairing_persist e ja key kp s = (r, s') \<Longrightarrow> silent s s'"
proof -
  assume p: "pairing_persist e ja key kp s = (r, s')"
  obtain sv s1 where sv: "settings_save_one e P2P_JOIN_STATE_KEY (pairing_record e ja key) s = (sv, s1)" by fastforce
  define s2 where "s2 = session_reset (s1\<lparr>m_net_id := ja_net_id ja, m_session_key := key,
      m_rx_delay_s := ja_rx_delay_s ja, m_session_tx_power := ja_tx_power ja,
      m_link_state := P2P_LINK_PAIRED\<rparr>)"
  have 2: "silent s1 s2"
    by (rule none_silent [where evs = "[V_call (C_backoff 0)]"]) (simp_all add: s2_def session_reset_def emit_def)
  obtain fr s3 where fr: "fcnt_reserve e P2P_FCNT_RESERVE (s2\<lparr>m_fcnt := 0\<rparr>) = (fr, s3)" by fastforce
  have 3: "silent s2 (s2\<lparr>m_fcnt := 0\<rparr>)" by (rule adds_silent) (auto simp: adds_def)
  have "silent s2 s3"
    using silent_trans [OF 3 adds_silent [OF counts_adds [OF counts_reserve [OF fr]]]] .
  then have "silent s1 s3" using 2 silent_trans by blast
  moreover have "s' = s1 \<or> s' = s2 \<or> s' = s3"
    using p sv fr by (auto simp: pairing_persist_def s2_def Let_def split: option.splits if_splits)
  ultimately show ?thesis using save_silent [OF sv] 2 silent_trans by blast
qed

lemma pairing_clear_silent: "pairing_clear e s = (r, s') \<Longrightarrow> silent s s'"
proof -
  assume c: "pairing_clear e s = (r, s')"
  obtain d s1 where d: "settings_delete e P2P_JOIN_STATE_KEY s = (d, s1)" by fastforce
  have "tr s1 = tr s \<or> tr s1 = V_delete P2P_JOIN_STATE_KEY # tr s"
    using d by (auto simp: settings_delete_def ask_def emit_def split: option.splits)
  then obtain x where x: "tr s1 = x @ tr s" "list_all (\<lambda>v. \<not> is_accept v) x" by force
  show ?thesis
    by (rule none_silent [where evs = "V_call (C_backoff 0) # x"])
      (use c d x in \<open>auto simp: pairing_clear_def session_reset_def emit_def\<close>)
qed

lemma quiet_rx_window: "p2p_rx_window e t d s = (r, s') \<Longrightarrow> quiet s s'"
  by (auto simp: p2p_rx_window_def Let_def split: prod.splits option.splits
      dest!: quiet_configure quiet_ask intro: quiet_trans quiet_sleep quiet_blocks)
    (meson quiet_trans quiet_sleep quiet_blocks quiet_configure surjective_pairing)+

lemma keyed_silent: "keyed_join_attempt e s = (ret, s') \<Longrightarrow> silent s s'"
proof -
  assume k: "keyed_join_attempt e s = (ret, s')"
  obtain r s1 where r: "send_join_request e s = (r, s1)" by fastforce
  have 1: "silent s s1"
  proof -
    obtain w s2 where w: "duty_wait_ms_for e P2P_JOIN_REQ_LEN s = (w, s2)" by fastforce
    let ?c = "max (m_dev_nonce s2) 1"
    obtain p s3 where p: "dnonce_persist e (?c + 1) s2 = (p, s3)" by fastforce
    have 2: "silent s s2" by (rule quiet_silent [OF quiet_duty_wait_for [OF w]])
    have 3: "silent s s3" using 2 dnonce_silent [OF p] by (rule silent_trans)
    define s4 where "s4 = emit (V_seal (derive_join_key e) (join_hdr e TWR_TYPE_DATA TWR_ADDR_NONE ?c)
        (join_request_pt e)) s3"
    have 4: "silent s s4" unfolding s4_def using emit_silent silent_trans [OF 3] by simp
    have q: "silent s u" if "quiet s4 u" for u using 4 quiet_silent [OF that] by (rule silent_trans)
    have "quiet s4 (snd (tx_send_failed e n (snd (lora_send e f s4))))" for n f
      using quiet_trans [OF quiet_send [OF surjective_pairing] quiet_send_failed [OF surjective_pairing]] .
    moreover have "quiet s4 (duty_charge n (snd (lora_send e f s4)))" for n f
      using quiet_trans [OF quiet_send [OF surjective_pairing] quiet_charge] .
    ultimately show ?thesis
      using r 2 3 q w p unfolding send_join_request_def
      by (auto simp: Let_def s4_def [symmetric] split: if_splits option.splits sum.splits prod.splits)
        (metis snd_conv)+
  qed
  have "silent s1 u" if "recv_join_accept e n t s1 = (q, u)" for n t q u
    using that by (auto simp: recv_join_accept_def split: prod.splits sum.splits
        dest!: quiet_rx_window pairing_persist_silent intro: quiet_silent silent_trans)
  then show ?thesis
    using k r 1 silent_trans [OF 1] by (auto simp: keyed_join_attempt_def split: sum.splits prod.splits)
qed

lemma confirm_silent: "twr_pair_confirm e c rx gw key ch s = (ret, s') \<Longrightarrow> silent s s'"
proof -
  assume k: "twr_pair_confirm e c rx gw key ch s = (ret, s')"
  define s1 where "s1 = k_sleep (TWR_PAIR_TURNAROUND_MS - (now s - rx_at rx)) s"
  define s1' where "s1' = emit (V_seal TWR_PAIRING_KEY (join_hdr e TWR_TYPE_JOIN_CONF gw c) (conf_pt e ch)) s1"
  have 1: "silent s s1" unfolding s1_def by (rule quiet_silent [OF quiet_sleep])
  have b: "silent s s1'" unfolding s1'_def using emit_silent silent_trans [OF 1] by simp
  obtain q s2 where q: "(case twr_pair_conf_build e c gw ch of
               Inl err \<Rightarrow> (Some err, s1)
             | Inr conf \<Rightarrow>
                 (let (r, _, s2') = p2p_tx_once e conf (frame_toa_ms e s1' TWR_PAIR_CONF_LEN) False s1'
                  in (r, s2'))) = (q, s2)" by fastforce
  have "silent s s2"
    using q 1 by (auto split: sum.splits prod.splits dest!: quiet_tx_once
        intro: silent_trans [OF b] quiet_silent)
  then have 3: "silent s (snd (radio_configure e s2))"
    using quiet_silent [OF quiet_configure [OF surjective_pairing]] silent_trans by blast
  have "(ret, s') = (case q of Some err \<Rightarrow> (Some err, snd (radio_configure e s2))
      | None \<Rightarrow> twr_pair_commit e gw key (snd (radio_configure e s2)))"
    using k q unfolding twr_pair_confirm_def s1_def [symmetric] Let_def s1'_def [symmetric]
    by (simp add: Let_def split: prod.splits)
  then show ?thesis
    using 3 silent_trans [OF 3 pairing_persist_silent]
    by (auto simp: twr_pair_commit_def split: option.splits dest: sym)
qed

lemma pair_silent: "twr_pair_attempt e s = (ret, s') \<Longrightarrow> silent s s'"
proof -
  assume k: "twr_pair_attempt e s = (ret, s')"
  obtain w s1 where w: "duty_wait_ms_for e (TWR_PAIR_REQ_LEN + TWR_PAIR_CONF_LEN) s = (w, s1)" by fastforce
  let ?c = "max (m_dev_nonce s1) 1"
  obtain p s2 where p: "dnonce_persist e (?c + 2) s1 = (p, s2)" by fastforce
  have 1: "silent s s1" by (rule quiet_silent [OF quiet_duty_wait_for [OF w]])
  have 2: "silent s s2" using 1 dnonce_silent [OF p] by (rule silent_trans)
  define s3 where "s3 = emit (V_seal TWR_PAIRING_KEY (join_hdr e TWR_TYPE_JOIN_REQ TWR_ADDR_NONE ?c)
      (put_le32 (node_addr e))) s2"
  have 3: "silent s s3" unfolding s3_def using emit_silent silent_trans [OF 2] by simp
  have q: "silent s u" if "quiet s3 u" for u using 3 quiet_silent [OF that] by (rule silent_trans)
  show ?thesis
  proof (cases "0 < w \<or> p \<noteq> None \<or> (\<exists>err. twr_pair_req_build e ?c = Inl err)")
    case True
    then consider "0 < w" | "\<not> 0 < w" "p \<noteq> None" | err where "\<not> 0 < w" "p = None" "twr_pair_req_build e ?c = Inl err"
      by blast
    then show ?thesis
      by cases (use k w p 1 2 in \<open>auto simp: twr_pair_attempt_def Let_def\<close>)
  next
    case False
    then obtain frame where f: "twr_pair_req_build e ?c = Inr frame" by (cases "twr_pair_req_build e ?c") auto
    obtain r a s4 where r: "p2p_tx_once e frame (frame_toa_ms e s3 TWR_PAIR_REQ_LEN) True s3 = (r, a, s4)"
      using prod_cases3 by blast
    obtain rxs s5 where hd: "heard e s4 = (rxs, s5)" by fastforce
    have 4: "quiet s3 s4" by (rule quiet_tx_once [OF r])
    have 5: "quiet s3 s5" using 4 quiet_heard [OF hd] by (rule quiet_trans)
    have c: "silent s5 s'" if "twr_pair_confirm e (?c + 1) rx gw key ch s5 = (ret, s')" for rx gw key ch
      using that by (rule confirm_silent)
    have 6: "quiet s3 (snd (radio_configure e s5))"
      using 5 quiet_configure [OF surjective_pairing] by (rule quiet_trans)
    show ?thesis
    proof (cases r)
      case (Some err)
      then show ?thesis
        using k w p False f r q [OF 4] by (simp add: twr_pair_attempt_def Let_def s3_def [symmetric])
    next
      case None
      have eq: "(ret, s') = (case pair_resp e rxs of
          None \<Rightarrow> (Some ETIMEDOUT, snd (radio_configure e s5))
        | Some (rx, gw, key, challenge) \<Rightarrow> twr_pair_confirm e (?c + 1) rx gw key challenge s5)"
        using k w p False f r None hd by (simp add: twr_pair_attempt_def Let_def s3_def [symmetric])
      show ?thesis
      proof (cases "pair_resp e rxs")
        case None
        then show ?thesis using eq q [OF 6] by simp
      next
        case (Some a)
        obtain rx gw key ch where a: "a = (rx, gw, key, ch)" using prod_cases4 by blast
        have "twr_pair_confirm e (?c + 1) rx gw key ch s5 = (ret, s')" using eq Some a by simp
        from c [OF this] show ?thesis using silent_trans [OF q [OF 5]] by blast
      qed
    qed
  qed
qed

subsection \<open>Every event, every boot\<close>

definition lanes :: "p2p_env \<Rightarrow> p2p \<Rightarrow> p2p \<Rightarrow> bool" where
  "lanes e s s' \<longleftrightarrow> keeps e s s' \<and>
     (block_cipher (pe_aes e) \<longrightarrow> nonce_inv e s \<longrightarrow> lane_inv e s \<longrightarrow> lane_inv e s')"

lemma lanes_trans: "lanes e s t \<Longrightarrow> lanes e t u \<Longrightarrow> lanes e s u"
  using keeps_trans by (auto simp: lanes_def keeps_def intro: suffix_order.trans)

lemma silent_lanes: "keeps e s s' \<Longrightarrow> silent s s' \<Longrightarrow> lanes e s s'"
  using silent_lane by (simp add: lanes_def)

interpretation lk: p2p_rel e "lanes e" for e
proof unfold_locales
  show "lanes e s s" for s using silent_lanes quiet_keeps quiet_silent quiet_refl by blast
  show "lanes e s u" if "lanes e s t" "lanes e t u" for s t u using that by (rule lanes_trans)
  show "lanes e s s'" if "p2p_exchange e pt confirmed attempt s = (r, x, s')" "0 < attempt \<longrightarrow> confirmed"
    for pt confirmed attempt s r x s'
    using exchange_keeps [OF that] exchange_lane [OF that(1)] by (simp add: lanes_def)
qed (blast intro: silent_lanes quiet_keeps quiet_silent leaves_keeps leaves_silent pairing_clear_keeps
    pairing_clear_silent keyed_keeps keyed_silent pair_keeps pair_silent)+

lemma boot_retx: "m_retx (p2p_boot e t k) = None"
proof -
  have "m_retx (snd (join_settings_set e n v s)) = m_retx s" for n v s
    by (simp add: join_settings_set_def Let_def)
  moreover have "m_retx (snd (fcnt_settings_set n v s)) = m_retx s" for n v s
    by (simp add: fcnt_settings_set_def)
  ultimately have "m_retx (load k (fcnt_settings_set n) s) = m_retx s"
    "m_retx (load k (join_settings_set e n) s) = m_retx s" for k n s
    by (simp_all add: load_def split: option.split)
  then show ?thesis
    by (simp add: p2p_boot_def app_radio_p2p_init_def radio_configure_def ask_def Let_def p2p_reset_def
        split: option.split)
qed

lemma lane_boot: "lane_trace e t \<Longrightarrow> lane_inv e (p2p_boot e t k)"
  by (simp add: lane_inv_def boot_retx)

lemma lane_trace_drop: "lane_trace e t \<Longrightarrow> lane_trace e (drop n t)"
  using suffix_drop suffix_order.trans unfolding lane_trace_def by blast

lemma lane_event:
  "block_cipher (pe_aes e) \<Longrightarrow> retry_ok ev \<Longrightarrow> nonce_inv e s \<Longrightarrow> lane_inv e s \<Longrightarrow> lane_inv e (p2p_event e ev s)"
  using lk.rel_event by (simp add: lanes_def)

lemma lane_act:
  "block_cipher (pe_aes e) \<Longrightarrow> act_ok a \<Longrightarrow> nonce_inv e s \<Longrightarrow> lane_inv e s \<Longrightarrow> lane_inv e (p2p_step e a s)"
proof (cases a)
  case (Cut ev n)
  assume p: "block_cipher (pe_aes e)" "act_ok a" "nonce_inv e s" "lane_inv e s"
  have "lane_trace e (tr (p2p_event e ev s))"
    using lane_event [OF p(1) _ p(3,4)] p(2) Cut by (simp add: lane_inv_def)
  then show ?thesis unfolding Cut by (simp add: Let_def lane_boot lane_trace_drop)
qed (simp add: lane_event)

lemma lane_run:
  assumes "block_cipher (pe_aes e)" "list_all act_ok steps"
  shows "lane_inv e (p2p_run e steps)"
proof -
  have "lane_inv e (p2p_boot e [] 0)" by (rule lane_boot) (simp add: lane_trace_def)
  then show ?thesis
    using assms
  proof (induction steps rule: rev_induct)
    case (snoc a steps)
    then have "nonce_inv e (p2p_run e steps)" by (intro nonce_run) simp_all
    with snoc show ?case by (simp add: p2p_run_def lane_act)
  qed (simp add: p2p_run_def)
qed

text \<open>C39: Whatever the air does, and through reboots, power losses, failed saves and retries, no
  downlink is accepted twice under a session key, and each one accepted was received and
  authenticated; the gateway only has to count its frames up.\<close>

theorem downlink_at_most_once:
  assumes "block_cipher (pe_aes e)" "list_all act_ok steps" "fresh e (tr (p2p_run e steps))"
    and "gw_in_order (tr (p2p_run e steps))"
  shows "distinct (filter is_accept (tr (p2p_run e steps)))
    \<and> list_all (\<lambda>v. case v of V_accept K d \<Rightarrow> received K d (tr (p2p_run e steps)) | _ \<Rightarrow> True)
        (tr (p2p_run e steps))"
proof -
  have "acc_ok (tr (p2p_run e steps))"
    using lane_run [OF assms(1,2)] lane_trace_acc assms(3,4) by (auto simp: lane_inv_def lane_hyp_def)
  then show ?thesis
    using acc_ok_distinct acc_ok_received by (auto simp: list_all_iff split: p2p_ev.split)
qed

lemma demo_gw_in_order: "gw_in_order demo_day"
proof -
  have "twr_parse_ack [P2P_ENV_DATA, P2P_PORT_COMMAND, 5, 6]
      = Inr \<lparr>a_acked = 0x06055681, a_rssi = 0, a_pending = False, a_tail = []\<rparr>" by code_simp
  moreover have "TWR_TYPE_DATA \<noteq> TWR_TYPE_ACK" by code_simp
  ultimately show ?thesis
    by (simp add: demo_day_def demo_tr_def demo_acked demo_seal_ev_def demo_air_ev_def demo_dl_hdr_def
        demo_gw_def demo_hdr_def data_hdr_def)
qed

theorem downlink_at_most_once_witness:
  "filter is_accept (tr (p2p_run demo_env [Do EV_start, Do EV_join_work, Do (EV_send (demo_frame 0)),
      Do (EV_send (demo_frame 1))])) = [V_accept demo_key 2]
   \<and> received demo_key 2 demo_day"
proof -
  let ?steps = "[Do EV_start, Do EV_join_work, Do (EV_send (demo_frame 0)), Do (EV_send (demo_frame 1))]"
  have run: "tr (p2p_run demo_env ?steps) = demo_day" unfolding demo_run by (rule demo_sent)
  have cipher: "block_cipher (pe_aes demo_env)" by (simp add: demo_env_simps block_cipher_demo)
  have acts: "list_all act_ok ?steps" by (simp add: demo_frame_def)
  have "list_all (\<lambda>v. case v of V_accept K d \<Rightarrow> received K d demo_day | _ \<Rightarrow> True) demo_day"
    using downlink_at_most_once [OF cipher acts, unfolded run, OF demo_fresh demo_gw_in_order] by blast
  moreover have "filter is_accept demo_day = [V_accept demo_key 2]"
    by (simp add: demo_day_def demo_tr_def demo_seal_ev_def demo_air_ev_def)
  moreover have "V_accept demo_key 2 \<in> set demo_day" by (simp add: demo_day_def)
  ultimately show ?thesis unfolding run by (fastforce simp: list_all_iff)
qed

end
