(* ===== verification/P2pLive.thy ===== *)
theory P2pLive
  imports P2pLane
begin

text \<open>
  The private radio does not stop.  A device that looks for a network has its next attempt
  scheduled, and one that is up and has control requests pending has their uplink scheduled: after
  every event, error or boot, as long as nobody calls \<open>app_radio_p2p_suspend\<close>.  The code leaves one
  gap: \<open>ctrl_work_handler\<close> does not reschedule on \<open>-ENOTCONN\<close>, which it takes for an unpaired
  device, so the driver and the settings store must not answer with that error
  (\<open>no_enotconn\<close>).
\<close>

definition no_enotconn :: "p2p_env \<Rightarrow> bool" where
  "no_enotconn e \<longleftrightarrow> (\<forall>k. pe_config e k \<noteq> Some ENOTCONN \<and> pe_listen e k \<noteq> Some ENOTCONN
     \<and> pe_save e k \<noteq> Some ENOTCONN)"

definition alive :: "p2p \<Rightarrow> bool" where
  "alive s \<longleftrightarrow> (m_link_state s = P2P_LINK_JOINING \<longrightarrow> scheduled (m_join_work s)) \<and>
     (app_radio_p2p_is_ready s \<longrightarrow> m_ctrl_pending s \<noteq> 0 \<longrightarrow> scheduled (m_ctrl_work s))"

subsection \<open>What an exchange leaves alone\<close>

definition duties :: "p2p \<Rightarrow> p2p_link_state \<times> bool \<times> work \<times> work \<times> u32" where
  "duties s = (m_link_state s, m_started s, m_join_work s, m_ctrl_work s, m_ctrl_pending s)"

lemma duties_alive: "duties s' = duties s \<Longrightarrow> alive s' = alive s"
  by (simp add: duties_def alive_def app_radio_p2p_is_ready_def)

text \<open>An operation that returns a state leaves the duties alone.\<close>

lemma duties_simps [simp]:
  "duties (emit v s) = duties s" "duties (blocks e s) = duties s" "duties (k_sleep ms s) = duties s"
  "duties (duty_charge w s) = duties s" "duties (s\<lparr>tk := n\<rparr>) = duties s"
  "duties (s\<lparr>m_gw_last := c\<rparr>) = duties s" "duties (s\<lparr>m_debug_drop_acks := d\<rparr>) = duties s"
  "duties (s\<lparr>m_last_ack_rssi := r\<rparr>) = duties s" "duties (s\<lparr>m_link_idle_at := t\<rparr>) = duties s"
  "duties (s\<lparr>m_retx := x\<rparr>) = duties s" "duties (s\<lparr>m_fcnt := c\<rparr>) = duties s"
  "duties (s\<lparr>m_fcnt_reserved := c\<rparr>) = duties s" "duties (s\<lparr>m_dl_rssi := i\<rparr>) = duties s"
  "duties (s\<lparr>m_dl_snr := i\<rparr>) = duties s" "duties (s\<lparr>m_dev_nonce := c\<rparr>) = duties s"
  "duties (s\<lparr>m_rejoin_attempt := n\<rparr>) = duties s" "duties (s\<lparr>m_join_slow := b\<rparr>) = duties s"
  by (simp_all add: duties_def emit_def blocks_def k_sleep_def duty_charge_def)

lemma duties_ask: "ask f s = (r, s') \<Longrightarrow> duties s' = duties s"
  by (auto simp: ask_def)

lemma duties_configure: "radio_configure e s = (r, s') \<Longrightarrow> duties s' = duties s"
  unfolding radio_configure_def by (rule duties_ask)

lemma duties_configured [simp]: "duties (snd (radio_configure e s)) = duties s"
  by (rule duties_configure [OF surjective_pairing])

lemma duties_duty_wait: "duty_wait ms s = (w, s') \<Longrightarrow> duties s' = duties s"
  by (auto simp: duty_wait_def duties_def split: prod.splits)

lemma duties_duty_wait_for: "duty_wait_ms_for e n s = (w, s') \<Longrightarrow> duties s' = duties s"
  unfolding duty_wait_ms_for_def by (rule duties_duty_wait)

lemma duties_send: "lora_send e f s = (r, s') \<Longrightarrow> duties s' = duties s"
  by (auto simp: lora_send_def dest: duties_ask)

lemma duties_send_failed: "tx_send_failed e n s = (r, s') \<Longrightarrow> duties s' = duties s"
  by (auto simp: tx_send_failed_def)

lemma duties_tx_once: "p2p_tx_once e f ms rx s = (r, a, s') \<Longrightarrow> duties s' = duties s"
  by (auto simp: p2p_tx_once_def Let_def split: prod.splits option.splits if_splits
      dest!: duties_configure duties_send duties_send_failed duties_ask)

lemma duties_heard: "heard e s = (q, s') \<Longrightarrow> duties s' = duties s"
  by (auto simp: heard_def split: prod.splits dest!: duties_ask)

lemma duties_gw: "gw_frame e rx s = (g, s') \<Longrightarrow> duties s' = duties s"
  by (elim gw_frame_cases) auto

lemma duties_wait_ack: "p2p_wait_ack e c q s = (r, q', s') \<Longrightarrow> duties s' = duties s"
  by (rule wait_ack_keeps [where I = "\<lambda>t. duties t = duties s"]) (auto dest: duties_gw)

lemma duties_wait_dl: "p2p_wait_dl e q x s = (x', s') \<Longrightarrow> duties s' = duties s"
  by (rule wait_dl_keeps [where I = "\<lambda>t. duties t = duties s"]) (auto dest: duties_gw)

lemma duties_exchange_ack: "exchange_ack e c x s = (x', s') \<Longrightarrow> duties s' = duties s"
  by (auto simp: exchange_ack_def Let_def split: prod.splits option.splits if_splits
      dest!: duties_heard duties_wait_ack duties_wait_dl)

lemma duties_save: "settings_save_one e k v s = (r, s') \<Longrightarrow> duties s' = duties s"
  by (elim save_cases) simp_all

lemma duties_next: "fcnt_next e s = (r, s') \<Longrightarrow> duties s' = duties s"
  by (auto simp: fcnt_next_def fcnt_reserve_def Let_def split: if_splits prod.splits option.splits
      dest!: duties_save)

lemma duties_counter: "twr_counter_next e s = (r, s') \<Longrightarrow> duties s' = duties s"
  by (auto simp: twr_counter_next_def split: if_splits prod.splits sum.splits dest!: duties_next)

lemma duties_auto_ack: "duties (p2p_auto_ack e x s) = duties s"
  by (auto simp: p2p_auto_ack_def Let_def split: prod.split sum.split option.split
      dest!: duties_duty_wait duties_counter duties_configure duties_send
      intro: duties_send_failed [OF surjective_pairing, THEN trans])

lemma duties_gate: "exchange_gate e n s = (r, s') \<Longrightarrow> duties s' = duties s"
  by (auto simp: exchange_gate_def Let_def split: prod.splits if_splits dest!: duties_duty_wait)

lemma duties_seal: "exchange_seal e pt confirmed attempt s = (r, s') \<Longrightarrow> duties s' = duties s"
  by (auto simp: exchange_seal_def Let_def split: prod.splits if_splits sum.splits option.splits
      dest!: duties_counter)

lemma duties_rep: "exchange_rep e f ms confirmed c n x s = (r, stop, x', s') \<Longrightarrow> duties s' = duties s"
  by (auto simp: exchange_rep_def Let_def duties_auto_ack split: prod.splits if_splits option.splits
      dest!: duties_ask duties_duty_wait duties_tx_once duties_exchange_ack)

lemma duties_reps:
  "exchange_reps e f ms confirmed c n left x s = (r, x', s') \<Longrightarrow> duties s' = duties s"
  by (induction left arbitrary: n x s)
    (auto split: prod.splits if_splits dest!: duties_rep)

lemma duties_exchange: "p2p_exchange e pt confirmed attempt s = (r, x, s') \<Longrightarrow> duties s' = duties s"
  by (auto simp: p2p_exchange_def Let_def simp del: exchange_reps.simps
      split: prod.splits option.splits sum.splits if_splits
      dest!: duties_gate duties_seal duties_reps)

subsection \<open>The error an unpaired device gets\<close>

lemma save_error: "no_enotconn e \<Longrightarrow> settings_save_one e k v s = (r, s') \<Longrightarrow> r \<noteq> Some ENOTCONN"
  by (auto simp: settings_save_one_def ask_def no_enotconn_def split: option.splits)

lemma next_error: "no_enotconn e \<Longrightarrow> fcnt_next e s = (r, s') \<Longrightarrow> r \<noteq> Inl ENOTCONN"
  by (auto simp: fcnt_next_def fcnt_reserve_def Let_def split: if_splits prod.splits option.splits
      dest: save_error)

lemma counter_error: "no_enotconn e \<Longrightarrow> twr_counter_next e s = (r, s') \<Longrightarrow> r \<noteq> Inl ENOTCONN"
  by (auto simp: twr_counter_next_def split: if_splits prod.splits sum.splits dest: next_error)

lemma seal_error: "no_enotconn e \<Longrightarrow> exchange_seal e pt confirmed attempt s = (r, s') \<Longrightarrow> r \<noteq> Inl ENOTCONN"
  by (auto simp: exchange_seal_def twr_seal_eq Let_def split: if_splits prod.splits option.splits sum.splits
      dest: counter_error)

lemma tx_error: "no_enotconn e \<Longrightarrow> p2p_tx_once e f ms rx s = (r, a, s') \<Longrightarrow> r \<noteq> Some ENOTCONN"
  by (auto simp: p2p_tx_once_def tx_send_failed_def radio_configure_def ask_def no_enotconn_def Let_def
      split: if_splits prod.splits option.splits)

lemma rep_error:
  "no_enotconn e \<Longrightarrow> exchange_rep e f ms confirmed c n x s = (r, stop, x', s') \<Longrightarrow> r \<noteq> Some ENOTCONN"
  by (auto simp: exchange_rep_def Let_def split: prod.splits if_splits option.splits dest: tx_error)

lemma reps_error:
  "no_enotconn e \<Longrightarrow> exchange_reps e f ms confirmed c n left x s = (r, x', s') \<Longrightarrow> r \<noteq> Some ENOTCONN"
  by (induction left arbitrary: n x s) (auto split: prod.splits if_splits dest: rep_error)

lemma exchange_error:
  "no_enotconn e \<Longrightarrow> p2p_exchange e pt confirmed attempt s = (Some ENOTCONN, x, s') \<Longrightarrow>
    m_link_state s \<noteq> P2P_LINK_PAIRED"
  by (auto simp: p2p_exchange_def exchange_gate_def Let_def simp del: exchange_reps.simps
      split: prod.splits option.splits sum.splits if_splits dest: seal_error reps_error)

subsection \<open>Requests and episodes\<close>

lemma scheduled_simps [simp]:
  "scheduled (work_reschedule t d w)" "scheduled (work_schedule t d w)"
  by (simp_all add: work_schedule_def work_reschedule_def scheduled_def)

lemma alive_request: "alive s \<Longrightarrow> alive (ctrl_request bits d s)"
  by (simp add: alive_def ctrl_request_def)

lemma alive_ctrl_resched: "(m_link_state s = P2P_LINK_JOINING \<Longrightarrow> scheduled (m_join_work s)) \<Longrightarrow> alive (ctrl_resched d s)"
  by (simp add: alive_def ctrl_resched_def)

lemma alive_paired: "m_link_state s = P2P_LINK_PAIRED \<Longrightarrow> alive (ctrl_resched d s)"
  by (simp add: alive_def ctrl_resched_def)

lemma alive_episode: "alive (start_join_episode slow s)"
  by (simp add: alive_def start_join_episode_def app_radio_p2p_is_ready_def Let_def)

lemma alive_clear: "alive (snd (pairing_clear e s))"
  by (simp add: alive_def pairing_clear_def session_reset_def app_radio_p2p_is_ready_def emit_def
      split: prod.split)

lemma alive_ready: "m_link_state s \<noteq> P2P_LINK_JOINING \<Longrightarrow> alive (mark_ready e s)"
  by (simp add: alive_def mark_ready_def ctrl_request_def set_rejoin_attempt_def emit_def ask_def Let_def)

lemma duties_field_simps [simp]:
  "duties (s\<lparr>m_time_req := a\<rparr>) = duties s" "duties (s\<lparr>m_answer_reports := n\<rparr>) = duties s"
  "duties (s\<lparr>m_lc_outstanding := b\<rparr>) = duties s" "duties (s\<lparr>m_drains := n\<rparr>) = duties s"
  "duties (s\<lparr>m_lc := l\<rparr>) = duties s" "duties (s\<lparr>m_home_gw := h\<rparr>) = duties s"
  "duties (s\<lparr>m_ds := d\<rparr>) = duties s" "duties (s\<lparr>m_ctrl_tries := n\<rparr>) = duties s"
  by (simp_all add: duties_def)

lemma duties_ans: "duties (time_ans val s) = duties s" "duties (link_check_ans val s) = duties s"
  by (simp_all add: time_ans_def link_check_ans_def Let_def split: option.split)

lemma alive_apply:
  assumes "alive s"
  shows "alive (snd (ctrl_apply e in_ack t s))"
proof -
  have same: "alive s'" if "duties s' = duties s" for s' using assms duties_alive [OF that] by blast
  have "alive (pending_info n s)" for n
    using assms alive_request by (simp add: pending_info_def)
  moreover have "alive (ctrl_request b d (s\<lparr>m_ds := v\<rparr>))" for b d v
    by (rule alive_request, rule same) simp
  moreover have "alive (s\<lparr>m_home_gw := h\<rparr>)" for h by (rule same) simp
  moreover have "alive (time_ans v s)" "alive (link_check_ans v s)" "alive (call c s)" for v c
    by (rule same, simp add: duties_ans)+
  ultimately show ?thesis
    using assms alive_clear alive_episode by (simp add: ctrl_apply_def)
qed

lemma alive_downlink: "alive s \<Longrightarrow> alive (ctrl_downlink e buf off in_ack s)"
proof (induction "length buf - off" arbitrary: off s rule: less_induct)
  case less
  show ?case
  proof (cases "p2p_tlv_next buf off")
    case (TLV_AT t off')
    then have lt: "length buf - off' < length buf - off" by (auto dest: tlv_next_progress)
    obtain stop s1 where a: "ctrl_apply e in_ack t s = (stop, s1)" by fastforce
    have "alive s1" using alive_apply [OF less.prems, of e in_ack t] a by simp
    then show ?thesis
      using less.hyps [OF lt] TLV_AT a by (simp add: ctrl_downlink.simps [of e buf off])
  qed (simp_all add: ctrl_downlink.simps [of e buf off] less.prems)
qed

lemma alive_deliver: "alive s \<Longrightarrow> alive (p2p_deliver_xfer e x s)"
proof -
  assume a: "alive s"
  define s1 where "s1 = (if x_ack_tail x \<noteq> [] then ctrl_downlink e (x_ack_tail x) 0 True s else s)"
  have 1: "alive s1" using a alive_downlink by (simp add: s1_def)
  have "alive (p2p_deliver e (x_dl x) s1)"
    using 1 alive_downlink duties_alive [of "call c s1" s1 for c] by (simp add: p2p_deliver_def)
  then show ?thesis using 1 by (simp add: p2p_deliver_xfer_def s1_def [symmetric] Let_def)
qed


subsection \<open>The work items\<close>

lemma alive_settle:
  assumes "alive s \<or> m_link_state s = P2P_LINK_PAIRED" "ret = Some ENOTCONN \<Longrightarrow> alive s"
    and "m_ctrl_pending s = bits" "m_link_state s \<noteq> P2P_LINK_JOINING"
  shows "alive (ctrl_settle e bits n ret x s)"
proof -
  let ?w = "duty_wait_ms_for e (TWR_HDR_LEN + n + TWR_TAG_LEN) s"
  have w: "duties (snd ?w) = duties s" by (rule duties_duty_wait_for [OF surjective_pairing])
  consider "ret = Some EAGAIN" | "ret = Some ENOTCONN" | "ret = None" "x_acked x"
    | "ret \<noteq> Some EAGAIN" "ret \<noteq> Some ENOTCONN" "ret \<noteq> None \<or> \<not> x_acked x" by blast
  then show ?thesis
  proof cases
    case 1
    then show ?thesis
      using w assms(4) by (auto simp: ctrl_settle_def duties_def split: prod.split intro!: alive_ctrl_resched)
  next
    case 2
    then show ?thesis using assms(2) by (simp add: ctrl_settle_def)
  next
    case 3
    define s2 where "s2 = call C_link_result (ctrl_sent bits x
        (s\<lparr>m_ctrl_pending := m_ctrl_pending s AND NOT bits, m_ctrl_tries := 0\<rparr>))"
    have "duties s2 = duties (s\<lparr>m_ctrl_pending := m_ctrl_pending s AND NOT bits\<rparr>)"
      by (simp add: s2_def ctrl_sent_def Let_def duties_def emit_def)
    moreover have "alive (s\<lparr>m_ctrl_pending := m_ctrl_pending s AND NOT bits\<rparr>)"
      using assms(3,4) by (simp add: alive_def)
    ultimately have "alive s2" using duties_alive by blast
    then have 4: "alive (p2p_deliver_xfer e x s2)" by (rule alive_deliver)
    have "alive (ctrl_resched 0 (p2p_deliver_xfer e x s2))"
      using 4 by (intro alive_ctrl_resched) (simp add: alive_def)
    then show ?thesis using 3 4 by (simp add: ctrl_settle_def s2_def [symmetric] Let_def)
  next
    case 4
    then show ?thesis
      using assms(3,4) alive_ctrl_resched [of "s\<lparr>m_ctrl_tries := m_ctrl_tries s + 1\<rparr>" P2P_CTRL_RETRY_MS]
      by (auto simp: ctrl_settle_def Let_def alive_def)
  qed
qed

lemma duties_build: "ctrl_build e bits s = (pt, s') \<Longrightarrow> duties s' = duties s"
  by (auto simp: ctrl_build_def Let_def split: prod.splits if_splits dest!: duties_ask)

lemma alive_ctrl_work:
  assumes "no_enotconn e" "alive s"
  shows "alive (ctrl_work_handler e (s\<lparr>m_ctrl_work := work_idle\<rparr>))"
proof -
  define s0 where "s0 = s\<lparr>m_ctrl_work := work_idle\<rparr>"
  show ?thesis
  proof (cases "app_radio_p2p_is_ready s0 \<and> m_ctrl_pending s0 \<noteq> 0")
    case False
    then have "alive s0" using assms(2) by (auto simp: alive_def s0_def app_radio_p2p_is_ready_def)
    then show ?thesis using False by (auto simp: ctrl_work_handler_def s0_def [symmetric])
  next
    case True
    then have link: "m_link_state s0 = P2P_LINK_PAIRED" by (simp add: app_radio_p2p_is_ready_def)
    obtain held s1 where h: "ask (pe_ack_pending e) s0 = (held, s1)" by fastforce
    obtain b s2 where b: "ask (pe_backoff e) s1 = (b, s2)" by fastforce
    obtain pt s3 where pt: "ctrl_build e (m_ctrl_pending s0) s2 = (pt, s3)" by fastforce
    obtain ret x s4 where x: "p2p_exchange e pt True P2P_NOT_RETRIED s3 = (ret, x, s4)"
      using prod_cases3 by blast
    have d1: "duties s1 = duties s0" by (rule duties_ask [OF h])
    have d2: "duties s2 = duties s0" using duties_ask [OF b] d1 by simp
    have d3: "duties s3 = duties s0" using duties_build [OF pt] d2 by simp
    have d4: "duties s4 = duties s0" using duties_exchange [OF x] d3 by simp
    have l: "m_link_state s1 = P2P_LINK_PAIRED" "m_link_state s2 = P2P_LINK_PAIRED"
      "m_link_state s3 = P2P_LINK_PAIRED" "m_link_state s4 = P2P_LINK_PAIRED"
      and p: "m_ctrl_pending s4 = m_ctrl_pending s0"
      using d1 d2 d3 d4 link by (simp_all add: duties_def)
    have "ret \<noteq> Some ENOTCONN" using exchange_error [OF assms(1)] x l(3) by blast
    then have "alive (ctrl_settle e (m_ctrl_pending s0) (length pt) ret x s4)"
      using l(4) p by (intro alive_settle) simp_all
    then show ?thesis
      using True h b pt x l
      by (simp add: ctrl_work_handler_def s0_def [symmetric] Let_def alive_paired)
  qed
qed

text \<open>A join attempt that fails leaves the device where it was; one that succeeds pairs it.\<close>

definition attempted :: "errno option \<Rightarrow> p2p \<Rightarrow> p2p \<Rightarrow> bool" where
  "attempted ret s s' \<longleftrightarrow> duties s' = duties s \<and> ret \<noteq> None \<or> ret = None \<and> m_link_state s' = P2P_LINK_PAIRED"

lemma attempted_persist:
  "pairing_persist e ja key kp s = (ret, s') \<Longrightarrow> attempted ret s s'"
proof -
  assume p: "pairing_persist e ja key kp s = (ret, s')"
  have "m_link_state (snd (fcnt_reserve e w t)) = m_link_state t" for w t
    using counts_reserve [OF surjective_pairing, where e = e and w = w and s = t]
    by (simp add: counts_def same_session_def)
  then show ?thesis
    using p by (auto simp: pairing_persist_def attempted_def session_reset_def emit_def Let_def
        split: prod.splits option.splits if_splits dest: duties_save)
qed

lemma attempted_trans: "duties t = duties s \<Longrightarrow> attempted ret t s' \<Longrightarrow> attempted ret s s'"
  by (auto simp: attempted_def)

lemma duties_rx_window: "p2p_rx_window e t d s = (r, s') \<Longrightarrow> duties s' = duties s"
  by (auto simp: p2p_rx_window_def Let_def split: prod.splits option.splits
      dest!: duties_configure duties_ask)

lemma duties_dnonce: "dnonce_persist e v s = (r, s') \<Longrightarrow> duties s' = duties s"
  by (auto simp: dnonce_persist_def split: prod.splits option.splits dest!: duties_save)

lemma duties_join_request: "send_join_request e s = (r, s') \<Longrightarrow> duties s' = duties s"
  by (auto simp: send_join_request_def Let_def split: prod.splits option.splits if_splits sum.splits
      dest!: duties_duty_wait_for duties_dnonce duties_send duties_send_failed)

lemma attempted_keyed: "keyed_join_attempt e s = (ret, s') \<Longrightarrow> attempted ret s s'"
proof -
  assume k: "keyed_join_attempt e s = (ret, s')"
  obtain r s1 where r: "send_join_request e s = (r, s1)" by fastforce
  have d: "duties s1 = duties s" by (rule duties_join_request [OF r])
  have "attempted q s1 u" if "recv_join_accept e n t s1 = (q, u)" for n t q u
  proof -
    obtain w s2 where w: "p2p_rx_window e t P2P_RX1_DELAY_DEFAULT_S s1 = (w, s2)" by fastforce
    have "duties s2 = duties s1" by (rule duties_rx_window [OF w])
    moreover have "attempted q s2 u" if "pairing_persist e ja key kp s2 = (q, u)" for ja key kp
      using that by (rule attempted_persist)
    ultimately show ?thesis
      using that w by (auto simp: recv_join_accept_def intro: attempted_trans split: sum.splits)
        (auto simp: attempted_def)
  qed
  then show ?thesis
    using k r d by (auto simp: keyed_join_attempt_def attempted_def split: sum.splits prod.splits if_splits)
qed

lemma attempted_confirm: "twr_pair_confirm e c rx gw key ch s = (ret, s') \<Longrightarrow> attempted ret s s'"
  by (auto simp: twr_pair_confirm_def twr_pair_commit_def Let_def split: prod.splits option.splits sum.splits
      dest!: duties_tx_once attempted_persist intro: attempted_trans)
    (auto simp: attempted_def)

lemma attempted_pair: "twr_pair_attempt e s = (ret, s') \<Longrightarrow> attempted ret s s'"
  by (auto simp: twr_pair_attempt_def Let_def split: prod.splits option.splits sum.splits if_splits
      dest!: duties_duty_wait_for duties_dnonce duties_tx_once duties_heard attempted_confirm
      intro: attempted_trans)
    (auto simp: attempted_def)

lemma alive_retry:
  assumes "m_link_state s \<noteq> P2P_LINK_PAIRED"
  shows "alive (join_retry e blocked s)"
proof -
  have "scheduled (m_join_work (join_retry e blocked s))"
    by (simp add: join_retry_def join_resched_def Let_def split: prod.split)
  then show ?thesis
    using assms quiet_retry [of s e blocked] by (simp add: alive_def quiet_def app_radio_p2p_is_ready_def)
qed

lemma alive_join_work:
  assumes "alive s"
  shows "alive (join_work_handler e (s\<lparr>m_join_work := work_idle\<rparr>))"
proof -
  define s0 where "s0 = s\<lparr>m_join_work := work_idle\<rparr>"
  show ?thesis
  proof (cases "m_link_state s0 = P2P_LINK_JOINING")
    case False
    then show ?thesis
      using assms by (simp add: join_work_handler_def alive_def s0_def app_radio_p2p_is_ready_def)
  next
    case True
    obtain ret s1 where r: "(if phy_fsk e then twr_pair_attempt e s0 else keyed_join_attempt e s0) = (ret, s1)"
      by fastforce
    have "attempted ret s0 s1"
      using r attempted_pair attempted_keyed by (simp split: if_splits)
    then have "ret \<noteq> None \<Longrightarrow> m_link_state s1 \<noteq> P2P_LINK_PAIRED"
      "ret = None \<Longrightarrow> m_link_state s1 \<noteq> P2P_LINK_JOINING"
      using True by (auto simp: attempted_def duties_def)
    then show ?thesis
      using True r alive_ready alive_retry by (simp add: join_work_handler_def s0_def [symmetric])
  qed
qed

subsection \<open>Every event, every boot\<close>

fun not_suspend :: "p2p_input \<Rightarrow> bool" where
  "not_suspend EV_suspend = False"
| "not_suspend _ = True"

lemma alive_send: "alive s \<Longrightarrow> alive (snd (snd (p2p_tx_send e f s)))"
proof -
  assume a: "alive s"
  obtain ret x s1 where x: "p2p_exchange e (tx_pt f) (fr_confirmed f) (int (fr_attempt f)) s = (ret, x, s1)"
    using prod_cases3 by blast
  obtain w s2 where w: "duty_wait_ms_for e (TWR_HDR_LEN + length (tx_pt f) + TWR_TAG_LEN) s1 = (w, s2)"
    by fastforce
  have d: "duties s1 = duties s" "duties s2 = duties s"
    using duties_exchange [OF x] duties_duty_wait_for [OF w] by simp_all
  have same: "alive t" if "duties t = duties s" for t using duties_alive [OF that] a by blast
  have "alive (call C_link_result (s1\<lparr>m_drains := 0\<rparr>))" by (rule same) (simp add: d)
  then have 1: "alive s1" "alive s2" "alive (s1\<lparr>m_drains := 0\<rparr>)"
    "alive (p2p_deliver_xfer e x (call C_link_result (s1\<lparr>m_drains := 0\<rparr>)))"
    using same [OF d(1)] same [OF d(2)] same [of "s1\<lparr>m_drains := 0\<rparr>"] alive_deliver by (simp_all add: d)
  show ?thesis using tx_send_states [OF x w] a 1 by auto
qed

lemma alive_report: "alive s \<Longrightarrow> alive (snd (p2p_tx_report_flags e due s))"
proof -
  assume a: "alive s"
  have "duties (answer_fetch_count e s) = duties s"
    by (simp add: answer_fetch_count_def ask_def Let_def)
  then have "alive (answer_fetch_count e s)" using duties_alive a by blast
  then show ?thesis using alive_request by (simp add: p2p_tx_report_flags_def Let_def)
qed

lemma alive_listen: "alive s \<Longrightarrow> alive (app_radio_p2p_listen e enable s)"
proof -
  assume a: "alive s"
  have [simp]: "duties (t\<lparr>m_listening := b\<rparr>) = duties t" for t b by (simp add: duties_def)
  have "duties (app_radio_p2p_listen e enable s) = duties s"
    by (auto simp: app_radio_p2p_listen_def split: prod.split option.split dest!: duties_configure duties_ask)
  then show ?thesis using duties_alive a by blast
qed

lemma alive_event:
  assumes "no_enotconn e" "not_suspend ev" "alive s"
  shows "alive (p2p_event e ev s)"
proof (cases ev)
  case (EV_pass ms)
  then show ?thesis using assms(3) duties_alive [of "k_sleep (int ms) s" s] by simp
next
  case EV_start
  have "alive (s\<lparr>m_disabled := True\<rparr>)" using assms(3) duties_alive [of "s\<lparr>m_disabled := True\<rparr>" s]
    by (simp add: duties_def)
  then show ?thesis using EV_start alive_episode alive_ready by (simp add: app_radio_p2p_start_def)
next
  case (EV_drop_acks n)
  then show ?thesis using assms(3) duties_alive [of "s\<lparr>m_debug_drop_acks := n\<rparr>" s] by simp
qed (use assms alive_send alive_report alive_request alive_join_work alive_ctrl_work alive_episode
    alive_clear alive_listen in \<open>simp_all add: p2p_time_request_def p2p_tx_rejoin_def rejoin_work_handler_def\<close>)

lemma alive_boot: "alive (p2p_boot e t k)"
proof -
  have "m_link_state (snd (join_settings_set e n v s)) \<in> {m_link_state s, P2P_LINK_PAIRED}
      \<and> m_ctrl_pending (snd (join_settings_set e n v s)) = m_ctrl_pending s" for n v s
    by (simp add: join_settings_set_def Let_def)
  moreover have "m_link_state (snd (fcnt_settings_set n v s)) = m_link_state s
      \<and> m_ctrl_pending (snd (fcnt_settings_set n v s)) = m_ctrl_pending s" for n v s
    by (simp add: fcnt_settings_set_def)
  ultimately have l: "m_link_state (load k (fcnt_settings_set n) s) = m_link_state s
      \<and> m_ctrl_pending (load k (fcnt_settings_set n) s) = m_ctrl_pending s"
    "m_link_state (load k (join_settings_set e n) s) \<in> {m_link_state s, P2P_LINK_PAIRED}
      \<and> m_ctrl_pending (load k (join_settings_set e n) s) = m_ctrl_pending s" for k n s
    by (simp_all add: load_def split: option.split)
  define s1 where "s1 = (p2p_reset t k)\<lparr>air := app_radio_ledger_init (air (p2p_reset t k))
      (app_radio_duty_budget_ms (pe_frequency e))\<rparr>"
  define s2 where "s2 = load P2P_FCNT_KEY (fcnt_settings_set ''base'') s1"
  define s3 where "s3 = load P2P_JOIN_DNONCE_KEY (join_settings_set e ''dnonce'') s2"
  define s4 where "s4 = load P2P_JOIN_STATE_KEY (join_settings_set e ''state'') s3"
  have "m_link_state s1 = P2P_LINK_UNPAIRED" "m_ctrl_pending s1 = 0" by (simp_all add: s1_def p2p_reset_def)
  then have "m_link_state s4 \<noteq> P2P_LINK_JOINING" "m_ctrl_pending s4 = 0"
    using l(1) [of P2P_FCNT_KEY "''base''" s1] l(2) [of P2P_JOIN_DNONCE_KEY "''dnonce''" s2]
      l(2) [of P2P_JOIN_STATE_KEY "''state''" s3]
    by (auto simp: s2_def [symmetric] s3_def [symmetric] s4_def [symmetric])
  then show ?thesis
    by (simp add: p2p_boot_def app_radio_p2p_init_def radio_configure_def ask_def Let_def alive_def
        s1_def [symmetric] s2_def [symmetric] s3_def [symmetric] s4_def [symmetric] split: option.split)
qed

fun awake :: "p2p_act \<Rightarrow> bool" where
  "awake (Do ev) = not_suspend ev"
| "awake (Cut ev n) = True"



end
